(* ===== verification/Prelude.thy ===== *)
theory Prelude
  imports
    Main
    "HOL-Library.Word"
    "HOL-Library.List_Lexorder"
    "HOL-Library.Char_ord"
    "HOL-Library.Option_ord"
    "HOL-Library.Product_Lexorder"
    "HOL-Library.Finite_Map"
begin

text \<open>
  Shared vocabulary of the development.

  \<^item> Rust's \<open>u64\<close> is \<open>64 word\<close>, with \<open>saturating_add\<close>, \<open>saturating_sub\<close> and
    \<open>checked_add\<close> as the code uses them. \<open>usize\<close> counts are \<open>nat\<close>.
  \<^item> A Rust \<open>String\<close> is the list of its UTF-8 bytes (\<open>string\<close>), ordered bytewise as
    Rust's \<open>Ord\<close> is; \<open>Option\<close> and tuples are ordered as Rust derives them
    (\<open>None\<close> first, lexicographic).
  \<^item> \<open>Result\<close> is a sum with \<open>Err = Inl\<close>, \<open>Ok = Inr\<close>; \<open>and_then\<close> is the question mark.
  \<^item> A \<open>BTreeMap\<close> is a strictly sorted association list, so that iteration order, first
    key and length are those of the code; a \<open>HashMap\<close> whose order is never observed is a
    finite map. Both satisfy the interface \<open>key_store\<close>, and the sorted list also
    \<open>ordered_store\<close>.
  \<^item> A component driven by events satisfies \<open>event_machine\<close>: one handler, and an invariant that
    every event keeps. \<open>keeping_machine\<close> adds facts that only some events can undo.
  \<^item> A bounded \<open>VecDeque\<close> or \<open>Vec\<close> that drops its oldest element when full is
    \<open>push_capped\<close>.
\<close>

named_theorems wf_intros "operations keep the well-formedness of their component"

section \<open>Results\<close>

type_synonym ('e, 'a) result = "'e + 'a"

abbreviation Err :: "'e \<Rightarrow> ('e, 'a) result" where
  "Err \<equiv> Inl"

abbreviation Ok :: "'a \<Rightarrow> ('e, 'a) result" where
  "Ok \<equiv> Inr"

fun and_then :: "('e, 'a) result \<Rightarrow> ('a \<Rightarrow> ('e, 'b) result) \<Rightarrow> ('e, 'b) result" where
  "and_then (Inl e) f = Inl e"
| "and_then (Inr x) f = f x"

definition ok_or :: "'a option \<Rightarrow> 'e \<Rightarrow> ('e, 'a) result" where
  "ok_or x e = (case x of None \<Rightarrow> Err e | Some y \<Rightarrow> Ok y)"

definition is_ok :: "('e, 'a) result \<Rightarrow> bool" where
  "is_ok r = (case r of Inl _ \<Rightarrow> False | Inr _ \<Rightarrow> True)"

definition to_option :: "('e, 'a) result \<Rightarrow> 'a option" where
  "to_option r = (case r of Inl _ \<Rightarrow> None | Inr x \<Rightarrow> Some x)"

definition ensure :: "bool \<Rightarrow> 'e \<Rightarrow> ('e, unit) result" where
  "ensure b e = (if b then Ok () else Err e)"

definition map_err :: "('e \<Rightarrow> 'f) \<Rightarrow> ('e, 'a) result \<Rightarrow> ('f, 'a) result" where
  "map_err f r = (case r of Inl e \<Rightarrow> Err (f e) | Inr x \<Rightarrow> Ok x)"

definition unwrap_or :: "'a \<Rightarrow> ('e, 'a) result \<Rightarrow> 'a" where
  "unwrap_or d r = (case r of Inl _ \<Rightarrow> d | Inr x \<Rightarrow> x)"

lemma map_err_Ok_iff [simp]: "map_err f r = Inr x \<longleftrightarrow> r = Inr x"
  by (simp add: map_err_def split: sum.split)

lemma map_err_simps [simp]: "map_err f (Inl e) = Inl (f e)" "map_err f (Inr x) = Inr x"
  by (simp_all add: map_err_def)

lemma unwrap_or_simps [simp]: "unwrap_or d (Inl e) = d" "unwrap_or d (Inr x) = x"
  by (simp_all add: unwrap_or_def)

lemma unwrap_or_False [simp]: "unwrap_or False r \<longleftrightarrow> r = Inr True"
  by (cases r) auto

lemma and_then_Ok_iff: "and_then r f = Inr y \<longleftrightarrow> (\<exists>x. r = Inr x \<and> f x = Inr y)"
  by (cases r) auto

lemma and_then_Err_iff:
  "and_then r f = Inl e \<longleftrightarrow> r = Inl e \<or> (\<exists>x. r = Inr x \<and> f x = Inl e)"
  by (cases r) auto

lemma and_then_Inr [simp]: "and_then r Inr = r"
  by (cases r) auto

lemma ok_or_simps [simp]: "ok_or None e = Inl e" "ok_or (Some x) e = Inr x"
  by (simp_all add: ok_or_def)

lemma ok_or_Ok_iff [simp]: "ok_or x e = Inr y \<longleftrightarrow> x = Some y"
  by (cases x) auto

lemma is_ok_simps [simp]: "is_ok (Inl e) = False" "is_ok (Inr x) = True"
  by (simp_all add: is_ok_def)

lemma is_ok_iff: "is_ok r \<longleftrightarrow> (\<exists>x. r = Inr x)"
  by (cases r) auto

lemma to_option_simps [simp]: "to_option (Inl e) = None" "to_option (Inr x) = Some x"
  by (simp_all add: to_option_def)

lemma ensure_Ok_iff [simp]: "ensure b e = Inr u \<longleftrightarrow> b"
  by (simp add: ensure_def)

lemma ensure_simps [simp]: "ensure True e = Inr ()" "ensure False e = Inl e"
  by (simp_all add: ensure_def)

lemma and_then_ensure_Ok_iff [simp]:
  "and_then (ensure b e) f = Inr y \<longleftrightarrow> b \<and> f () = Inr y"
  by (cases b) auto

section \<open>Machine integers\<close>

type_synonym u64 = "64 word"
type_synonym u32 = "32 word"
type_synonym byte = "8 word"
type_synonym bytes = "8 word list"

definition saturating_add :: "u64 \<Rightarrow> u64 \<Rightarrow> u64" where
  "saturating_add a b = (if unat a + unat b < 2 ^ 64 then a + b else - 1)"

definition saturating_sub :: "u64 \<Rightarrow> u64 \<Rightarrow> u64" where
  "saturating_sub a b = (if b \<le> a then a - b else 0)"

definition checked_add :: "u64 \<Rightarrow> u64 \<Rightarrow> u64 option" where
  "checked_add a b = (if unat a + unat b < 2 ^ 64 then Some (a + b) else None)"

lemma unat_u64_less: "unat (a :: u64) < 2 ^ 64"
  using unsigned_less [of a, where 'a = nat] by simp

lemma unat_saturating_add: "unat (saturating_add a b) = min (unat a + unat b) (2 ^ 64 - 1)"
proof (cases "unat a + unat b < 2 ^ 64")
  case True
  then have "unat (a + b) = unat a + unat b"
    by (simp add: unat_word_ariths)
  with True show ?thesis
    by (simp add: saturating_add_def)
next
  case False
  then show ?thesis
    by (simp add: saturating_add_def unsigned_minus_1_eq_mask mask_eq_exp_minus_1)
qed

lemma unat_saturating_sub: "unat (saturating_sub a b) = unat a - unat b"
  by (simp add: saturating_sub_def word_le_nat_alt unat_sub_if_size)

lemma le_saturating_add: "a \<le> saturating_add a b"
  using unat_u64_less [of a] by (simp add: word_le_nat_alt unat_saturating_add)

lemma less_saturating_add:
  assumes "a < - 1" and "b \<noteq> 0"
  shows "a < saturating_add a b"
proof -
  have "unat a < 2 ^ 64 - 1"
    using assms(1) by (simp add: word_less_nat_alt unsigned_minus_1_eq_mask mask_eq_exp_minus_1)
  moreover have "0 < unat b"
    using assms(2) by (simp add: unat_gt_0)
  ultimately show ?thesis
    by (simp add: word_less_nat_alt unat_saturating_add)
qed

lemma checked_add_Some_iff:
  "checked_add a b = Some c \<longleftrightarrow> unat a + unat b < 2 ^ 64 \<and> c = a + b"
  by (auto simp: checked_add_def)

lemma unat_checked_add: "checked_add a b = Some c \<Longrightarrow> unat c = unat a + unat b"
  by (auto simp: checked_add_def unat_word_ariths split: if_splits)

lemma unat_word_Suc:
  fixes e :: u64
  assumes "e \<noteq> - 1"
  shows "unat (e + 1) = Suc (unat e)"
  using assms by (metis add.commute add_cancel_right_right add_diff_cancel_left' diff_0 unatSuc)

lemma of_nat_u64_inject:
  assumes "a < 2 ^ 64" and "b < 2 ^ 64" and "s + of_nat a = s + (of_nat b :: u64)"
  shows "a = b"
proof -
  from assms(3) have "unat (of_nat a :: u64) = unat (of_nat b :: u64)" by simp
  with assms(1,2) show ?thesis by (simp add: unsigned_of_nat take_bit_nat_eq_self)
qed

section \<open>Key-value stores: the interface and its two implementations\<close>

text \<open>What the components rely on when they keep a map: lookup after insert and remove.\<close>

locale key_store =
  fixes empty :: "'m"
    and lookup :: "'m \<Rightarrow> 'k \<Rightarrow> 'v option"
    and insert :: "'k \<Rightarrow> 'v \<Rightarrow> 'm \<Rightarrow> 'm"
    and remove :: "'k \<Rightarrow> 'm \<Rightarrow> 'm"
    and invar :: "'m \<Rightarrow> bool"
  assumes empty_invar: "invar empty"
    and insert_invar: "invar m \<Longrightarrow> invar (insert k v m)"
    and remove_invar: "invar m \<Longrightarrow> invar (remove k m)"
    and lookup_empty: "lookup empty k = None"
    and lookup_insert: "invar m \<Longrightarrow> lookup (insert k v m) k' = (if k' = k then Some v else lookup m k')"
    and lookup_remove: "invar m \<Longrightarrow> lookup (remove k m) k' = (if k' = k then None else lookup m k')"
begin

lemma lookup_insert_insert:
  "invar m \<Longrightarrow> lookup (insert k v (insert k u m)) k' = lookup (insert k v m) k'"
  by (simp add: lookup_insert insert_invar)

lemma lookup_remove_insert:
  "invar m \<Longrightarrow> lookup (remove k (insert k v m)) k' = lookup (remove k m) k'"
  by (simp add: lookup_insert lookup_remove insert_invar)

lemma inserts_invar: "invar m \<Longrightarrow> invar (foldl (\<lambda>m x. insert (f x) x m) m xs)"
  by (induction xs arbitrary: m) (auto intro: insert_invar)

lemma lookup_inserts_other:
  "invar m \<Longrightarrow> k \<notin> f ` set xs \<Longrightarrow> lookup (foldl (\<lambda>m x. insert (f x) x m) m xs) k = lookup m k"
  by (induction xs arbitrary: m) (auto simp: lookup_insert insert_invar)

end

subsection \<open>BTreeMap as a strictly sorted association list\<close>

type_synonym ('k, 'v) btree_map = "('k \<times> 'v) list"

definition bt_wf :: "('k::linorder, 'v) btree_map \<Rightarrow> bool" where
  "bt_wf m \<longleftrightarrow> sorted_wrt (<) (map fst m)"

definition bt_get :: "('k, 'v) btree_map \<Rightarrow> 'k \<Rightarrow> 'v option" where
  "bt_get m k = map_of m k"

definition bt_contains :: "('k, 'v) btree_map \<Rightarrow> 'k \<Rightarrow> bool" where
  "bt_contains m k \<longleftrightarrow> bt_get m k \<noteq> None"

fun bt_insert :: "'k::linorder \<Rightarrow> 'v \<Rightarrow> ('k, 'v) btree_map \<Rightarrow> ('k, 'v) btree_map" where
  "bt_insert k v [] = [(k, v)]"
| "bt_insert k v (e # m) =
     (if fst e < k then e # bt_insert k v m
      else if fst e = k then (k, v) # m
      else (k, v) # e # m)"

definition bt_remove :: "'k \<Rightarrow> ('k, 'v) btree_map \<Rightarrow> ('k, 'v) btree_map" where
  "bt_remove k m = filter (\<lambda>e. fst e \<noteq> k) m"

definition bt_retain :: "('k \<Rightarrow> 'v \<Rightarrow> bool) \<Rightarrow> ('k, 'v) btree_map \<Rightarrow> ('k, 'v) btree_map" where
  "bt_retain P m = filter (\<lambda>(k, v). P k v) m"

definition bt_first_key :: "('k, 'v) btree_map \<Rightarrow> 'k option" where
  "bt_first_key m = (case m of [] \<Rightarrow> None | e # _ \<Rightarrow> Some (fst e))"

definition bt_values :: "('k, 'v) btree_map \<Rightarrow> 'v list" where
  "bt_values m = map snd m"

lemma bt_wf_Nil [simp, wf_intros]: "bt_wf []"
  by (simp add: bt_wf_def)

lemma bt_wf_Cons: "bt_wf ((k, v) # m) \<longleftrightarrow> (\<forall>k' \<in> fst ` set m. k < k') \<and> bt_wf m"
  by (auto simp: bt_wf_def)

lemma bt_wf_distinct: "bt_wf m \<Longrightarrow> distinct (map fst m)"
  by (auto simp: bt_wf_def strict_sorted_iff)

lemma keys_bt_insert: "fst ` set (bt_insert k v m) = Set.insert k (fst ` set m)"
  by (induction m) auto

lemma bt_wf_insert [wf_intros]: "bt_wf m \<Longrightarrow> bt_wf (bt_insert k v m)"
proof (induction m)
  case Nil
  then show ?case by (simp add: bt_wf_def)
next
  case (Cons e m)
  obtain a b where e: "e = (a, b)" by fastforce
  from Cons.prems have m: "bt_wf m" and a: "\<forall>k' \<in> fst ` set m. a < k'"
    by (auto simp: e bt_wf_Cons)
  consider "a < k" | "a = k" | "k < a" by fastforce
  then show ?case
  proof cases
    case 1
    with Cons.IH m a show ?thesis
      by (simp add: e bt_wf_Cons keys_bt_insert)
  next
    case 2
    with m a show ?thesis by (simp add: e bt_wf_Cons)
  next
    case 3
    with m a show ?thesis by (fastforce simp: e bt_wf_Cons)
  qed
qed

lemma bt_wf_filter: "bt_wf m \<Longrightarrow> bt_wf (filter P m)"
  by (induction m) (auto simp: bt_wf_Cons)

lemma bt_wf_remove [wf_intros]: "bt_wf m \<Longrightarrow> bt_wf (bt_remove k m)"
  by (simp add: bt_remove_def bt_wf_filter)

lemma bt_wf_retain [wf_intros]: "bt_wf m \<Longrightarrow> bt_wf (bt_retain P m)"
  by (simp add: bt_retain_def bt_wf_filter)

lemma bt_get_Nil [simp]: "bt_get [] k = None"
  by (simp add: bt_get_def)

lemma bt_get_insert [simp]:
  "bt_get (bt_insert k v m) k' = (if k' = k then Some v else bt_get m k')"
  by (induction m) (auto simp: bt_get_def)

lemma bt_get_remove [simp]: "bt_get (bt_remove k m) k' = (if k' = k then None else bt_get m k')"
  by (induction m) (auto simp: bt_get_def bt_remove_def)

lemma bt_get_mem: "bt_get m k = Some v \<Longrightarrow> (k, v) \<in> set m"
  by (simp add: bt_get_def map_of_SomeD)

lemma bt_get_eq_Some_iff: "bt_wf m \<Longrightarrow> bt_get m k = Some v \<longleftrightarrow> (k, v) \<in> set m"
  by (simp add: bt_get_def bt_wf_distinct)

lemma bt_get_None_iff: "bt_get m k = None \<longleftrightarrow> k \<notin> fst ` set m"
  by (simp add: bt_get_def map_of_eq_None_iff)

lemma bt_contains_iff: "bt_contains m k \<longleftrightarrow> k \<in> fst ` set m"
  using bt_get_None_iff [of m k] by (auto simp: bt_contains_def)

lemma length_bt_insert:
  "length (bt_insert k v m) \<le> Suc (length m)"
  by (induction m) auto

lemma length_bt_remove: "length (bt_remove k m) \<le> length m"
  by (simp add: bt_remove_def)

lemma length_bt_insert_present:
  "bt_wf m \<Longrightarrow> bt_contains m k \<Longrightarrow> length (bt_insert k v m) = length m"
proof (induction m)
  case Nil
  then show ?case by (simp add: bt_contains_iff)
next
  case (Cons e m)
  obtain a b where e: "e = (a, b)" by fastforce
  from Cons show ?case
    by (auto simp: e bt_wf_Cons bt_contains_iff)
qed

lemma bt_get_retain:
  "bt_wf m \<Longrightarrow>
   bt_get (bt_retain P m) k = (case bt_get m k of None \<Rightarrow> None | Some v \<Rightarrow> if P k v then Some v else None)"
proof (induction m)
  case Nil
  then show ?case by (simp add: bt_retain_def)
next
  case (Cons e m)
  obtain a b where e: "e = (a, b)" by fastforce
  from Cons.prems have m: "bt_wf m" and a: "a \<notin> fst ` set m"
    by (auto simp: e bt_wf_Cons)
  then have "bt_get m a = None" by (simp add: bt_get_None_iff)
  with Cons.IH m show ?case
    by (auto simp: e bt_retain_def bt_get_def split: option.splits)
qed

lemma bt_first_key_Some_iff:
  "bt_first_key m = Some k \<longleftrightarrow> (\<exists>v m'. m = (k, v) # m')"
  by (auto simp: bt_first_key_def split: list.splits)

lemma bt_first_key_least:
  assumes "bt_wf m" and "bt_first_key m = Some k" and "bt_contains m k'"
  shows "k \<le> k'"
  using assms by (fastforce simp: bt_first_key_Some_iff bt_wf_Cons bt_contains_iff)

text \<open>A sorted association list is determined by its lookups.\<close>

lemma bt_ext:
  assumes "bt_wf m" and "bt_wf m'" and "\<And>k. bt_get m k = bt_get m' k"
  shows "m = m'"
proof -
  have "set m = set m'"
    using assms bt_get_eq_Some_iff by (metis subrelI subset_antisym)
  moreover have "inj_on fst (set m \<union> set m')"
    using bt_wf_distinct [OF assms(1)] calculation by (simp add: distinct_map)
  ultimately show ?thesis
    using assms by (intro map_sorted_distinct_set_unique [of fst]) (auto simp: bt_wf_def strict_sorted_iff)
qed

lemma bt_insert_insert: "bt_wf m \<Longrightarrow> bt_insert k v (bt_insert k u m) = bt_insert k v m"
  by (rule bt_ext) (auto intro: wf_intros)

lemma bt_insert_same: "bt_wf m \<Longrightarrow> bt_get m k = Some v \<Longrightarrow> bt_insert k v m = m"
  by (rule bt_ext) (auto intro: wf_intros)

lemma bt_remove_insert: "bt_wf m \<Longrightarrow> bt_get m k = None \<Longrightarrow> bt_remove k (bt_insert k v m) = m"
  by (rule bt_ext) (auto intro: wf_intros)

lemma bt_get_filter_keys:
  "bt_wf m \<Longrightarrow> bt_get (filter (\<lambda>e. fst e \<in> K) m) k = (if k \<in> K then bt_get m k else None)"
  using bt_get_retain [of m "\<lambda>k _. k \<in> K" k]
  by (simp add: bt_retain_def case_prod_unfold split: option.splits)

lemma filter_keys_bt_insert:
  assumes "bt_wf m" and "k \<in> K"
  shows "filter (\<lambda>e. fst e \<in> K) (bt_insert k v m) = bt_insert k v (filter (\<lambda>e. fst e \<in> K) m)"
  using assms by (intro bt_ext) (auto simp: bt_get_filter_keys bt_wf_insert bt_wf_filter)

lemma bt_insert_filter_keys:
  assumes "bt_wf m" and "bt_get m k = Some v"
  shows "bt_insert k v (filter (\<lambda>e. fst e \<in> K) m) = filter (\<lambda>e. fst e \<in> Set.insert k K) m"
  using bt_get_filter_keys [OF assms(1), of K] bt_get_filter_keys [OF assms(1), of "Set.insert k K"] assms
  by (intro bt_ext) (auto intro: wf_intros bt_wf_filter)

text \<open>\<open>collect\<close> into a map: a later pair replaces an earlier one.\<close>

definition bt_of_list :: "('k::linorder \<times> 'v) list \<Rightarrow> ('k, 'v) btree_map" where
  "bt_of_list kvs = fold (\<lambda>(k, v). bt_insert k v) kvs []"

lemma bt_get_fold_insert:
  "bt_get (fold (\<lambda>(k, v). bt_insert k v) kvs m) k =
     (case map_of (rev kvs) k of None \<Rightarrow> bt_get m k | Some v \<Rightarrow> Some v)"
  by (induction kvs arbitrary: m) (auto simp: map_add_def split: option.splits)

lemma bt_get_of_list: "bt_get (bt_of_list kvs) k = map_of (rev kvs) k"
  by (simp add: bt_of_list_def bt_get_fold_insert split: option.split)

lemma bt_contains_of_list: "bt_contains (bt_of_list kvs) k \<longleftrightarrow> k \<in> fst ` set kvs"
  using map_of_eq_None_iff [of "rev kvs" k] by (auto simp: bt_contains_def bt_get_of_list)

lemma bt_wf_of_list: "bt_wf (bt_of_list kvs)"
proof -
  have "bt_wf m \<Longrightarrow> bt_wf (fold (\<lambda>(k, v). bt_insert k v) kvs m)" for m :: "('a, 'b) btree_map"
    by (induction kvs arbitrary: m) (auto intro: wf_intros)
  then show ?thesis by (simp add: bt_of_list_def)
qed

interpretation btree: key_store "[]" bt_get bt_insert bt_remove bt_wf
  by unfold_locales (auto intro: wf_intros)

text \<open>The ordered interface adds what the code reads off a \<open>BTreeMap\<close>'s order.\<close>

locale ordered_store = key_store empty lookup insert remove invar
  for empty :: "'m" and lookup :: "'m \<Rightarrow> 'k::linorder \<Rightarrow> 'v option"
    and insert :: "'k \<Rightarrow> 'v \<Rightarrow> 'm \<Rightarrow> 'm" and remove :: "'k \<Rightarrow> 'm \<Rightarrow> 'm" and invar :: "'m \<Rightarrow> bool" +
  fixes first_key :: "'m \<Rightarrow> 'k option" and len :: "'m \<Rightarrow> nat"
  assumes first_key_present: "invar m \<Longrightarrow> first_key m = Some k \<Longrightarrow> lookup m k \<noteq> None"
    and first_key_least: "invar m \<Longrightarrow> first_key m = Some k \<Longrightarrow> lookup m k' \<noteq> None \<Longrightarrow> k \<le> k'"
    and first_key_None: "invar m \<Longrightarrow> first_key m = None \<Longrightarrow> lookup m k = None"
    and len_insert: "invar m \<Longrightarrow> len (insert k v m) \<le> Suc (len m)"
    and len_insert_present: "invar m \<Longrightarrow> lookup m k \<noteq> None \<Longrightarrow> len (insert k v m) = len m"
begin

definition put_capped :: "nat \<Rightarrow> 'k \<Rightarrow> 'v \<Rightarrow> 'm \<Rightarrow> 'm" where
  "put_capped cap k v m = (if lookup m k = None \<and> len m < cap then insert k v m else m)"

lemma put_capped_len: "invar m \<Longrightarrow> len m \<le> cap \<Longrightarrow> len (put_capped cap k v m) \<le> cap"
  using len_insert [of m k v] by (auto simp: put_capped_def)

lemma put_capped_keeps: "invar m \<Longrightarrow> lookup m k' = Some u \<Longrightarrow> lookup (put_capped cap k v m) k' = Some u"
  by (auto simp: put_capped_def lookup_insert)

lemma put_capped_invar: "invar m \<Longrightarrow> invar (put_capped cap k v m)"
  by (simp add: put_capped_def insert_invar)

lemma ready_or_above:
  "invar m \<Longrightarrow> \<forall>k. lookup m k \<noteq> None \<longrightarrow> c \<le> k \<Longrightarrow>
   lookup m c \<noteq> None \<or> (\<exists>h. first_key m = Some h \<and> c < h) \<or> first_key m = None"
  by (metis first_key_present not_None_eq order_le_less)

end

interpretation btree: ordered_store "[]" bt_get bt_insert bt_remove bt_wf bt_first_key length
proof unfold_locales
  fix m :: "('a \<times> 'b) list" and k :: 'a
  assume "bt_first_key m = Some k"
  then show "bt_get m k \<noteq> None"
    by (auto simp: bt_first_key_Some_iff bt_get_def)
next
  fix m :: "('a \<times> 'b) list" and k k' :: 'a
  assume "bt_wf m" and "bt_first_key m = Some k" and "bt_get m k' \<noteq> None"
  then show "k \<le> k'"
    using bt_first_key_least by (auto simp: bt_contains_def)
next
  fix m :: "('a \<times> 'b) list" and k :: 'a
  assume "bt_first_key m = None"
  then show "bt_get m k = None"
    by (auto simp: bt_first_key_def split: list.splits)
next
  fix m :: "('a \<times> 'b) list" and k :: 'a and v :: 'b
  show "length (bt_insert k v m) \<le> Suc (length m)"
    by (rule length_bt_insert)
next
  fix m :: "('a \<times> 'b) list" and k :: 'a and v :: 'b
  assume "bt_wf m" and "bt_get m k \<noteq> None"
  then show "length (bt_insert k v m) = length m"
    by (simp add: length_bt_insert_present bt_contains_def)
qed

subsection \<open>HashMap as a finite map\<close>

interpretation hashm: key_store fmempty fmlookup fmupd fmdrop "\<lambda>_. True"
  by unfold_locales auto

section \<open>Components driven by events\<close>

text \<open>
  What a caller may rely on when a component handles an arbitrary sequence of events: each event
  keeps the invariant, hence every run does.
\<close>

locale event_machine =
  fixes step :: "'s \<Rightarrow> 'e \<Rightarrow> 's"
    and inv :: "'s \<Rightarrow> bool"
  assumes step_inv: "inv s \<Longrightarrow> inv (step s e)"
begin

lemma run_inv: "inv s \<Longrightarrow> inv (foldl step s es)"
  by (induction es arbitrary: s) (simp_all add: step_inv)

end

text \<open>A fact about a subject \<open>k\<close> that every event keeps which is harmless to it.\<close>

locale keeping_machine = event_machine step inv
  for step :: "'s \<Rightarrow> 'e \<Rightarrow> 's" and inv :: "'s \<Rightarrow> bool" +
  fixes holds :: "'k \<Rightarrow> 's \<Rightarrow> bool"
    and harmless :: "'k \<Rightarrow> 'e \<Rightarrow> bool"
  assumes step_keeps: "inv s \<Longrightarrow> holds k s \<Longrightarrow> harmless k e \<Longrightarrow> holds k (step s e)"
begin

lemma run_keeps: "inv s \<Longrightarrow> holds k s \<Longrightarrow> \<forall>e \<in> set es. harmless k e \<Longrightarrow> holds k (foldl step s es)"
  by (induction es arbitrary: s) (simp_all add: step_inv step_keeps)

end

section \<open>Lists\<close>

text \<open>A queue that drops its oldest element when it is at capacity before a push.\<close>

definition push_capped :: "nat \<Rightarrow> 'a \<Rightarrow> 'a list \<Rightarrow> 'a list" where
  "push_capped cap x q = (if cap \<le> length q then drop 1 q else q) @ [x]"

lemma length_push_capped: "0 < cap \<Longrightarrow> length q \<le> cap \<Longrightarrow> length (push_capped cap x q) \<le> cap"
  by (auto simp: push_capped_def)

lemma set_push_capped: "set (push_capped cap x q) \<subseteq> Set.insert x (set q)"
  by (auto simp: push_capped_def dest: in_set_dropD)

lemma last_push_capped [simp]: "last (push_capped cap x q) = x"
  by (simp add: push_capped_def)

lemma push_capped_below [simp]: "length q < cap \<Longrightarrow> push_capped cap x q = q @ [x]"
  by (simp add: push_capped_def)

lemma find_append: "find P (xs @ ys) = (case find P xs of None \<Rightarrow> find P ys | Some x \<Rightarrow> Some x)"
  by (induction xs) auto

lemma find_SomeD: "find P xs = Some x \<Longrightarrow> P x \<and> x \<in> set xs"
  by (auto simp: find_Some_iff)

text \<open>\<open>iter_mut().find(..)\<close> followed by a write: the first element that satisfies the test changes.\<close>

fun update_first :: "('a \<Rightarrow> bool) \<Rightarrow> ('a \<Rightarrow> 'a) \<Rightarrow> 'a list \<Rightarrow> 'a list" where
  "update_first P f [] = []"
| "update_first P f (x # xs) = (if P x then f x # xs else x # update_first P f xs)"

lemma length_update_first [simp]: "length (update_first P f xs) = length xs"
  by (induction xs) auto

lemma find_update_first_same:
  "(\<And>x. P x \<Longrightarrow> P (f x)) \<Longrightarrow> find P (update_first P f xs) = map_option f (find P xs)"
  by (induction xs) auto

lemma find_update_first_other:
  "(\<And>x. P x \<Longrightarrow> \<not> Q x \<and> \<not> Q (f x)) \<Longrightarrow> find Q (update_first P f xs) = find Q xs"
  by (induction xs) auto

lemma update_first_none: "find P xs = None \<Longrightarrow> update_first P f xs = xs"
  by (induction xs) (auto split: if_splits)

lemma map_update_first: "(\<And>x. P x \<Longrightarrow> g (f x) = g x) \<Longrightarrow> map g (update_first P f xs) = map g xs"
  by (induction xs) auto

lemma list_ex_update_first:
  "list_ex Q xs \<Longrightarrow> (\<And>x. P x \<Longrightarrow> Q x \<Longrightarrow> Q (f x)) \<Longrightarrow> list_ex Q (update_first P f xs)"
  by (induction xs) auto

lemma list_ex_update_first_hit:
  "list_ex P xs \<Longrightarrow> (\<And>x. P x \<Longrightarrow> Q (f x)) \<Longrightarrow> list_ex Q (update_first P f xs)"
  by (induction xs) auto

section \<open>Text\<close>

text \<open>
  \<open>chars().count()\<close> of a UTF-8 string counts the bytes that do not continue a character.
  \<open>char::is_control\<close> holds for U+0000 to U+001F and U+007F to U+009F; the latter block, beyond
  DEL itself, is the byte C2 followed by 80 to 9F.
\<close>

definition is_continuation :: "char \<Rightarrow> bool" where
  "is_continuation c \<longleftrightarrow> 128 \<le> (of_char c :: nat) \<and> (of_char c :: nat) < 192"

definition char_count :: "string \<Rightarrow> nat" where
  "char_count s = length (filter (\<lambda>c. \<not> is_continuation c) s)"

fun has_control :: "string \<Rightarrow> bool" where
  "has_control [] = False"
| "has_control (c # s) =
     ((of_char c :: nat) < 32 \<or> (of_char c :: nat) = 127 \<or>
      ((of_char c :: nat) = 194 \<and> (case s of [] \<Rightarrow> False | d # _ \<Rightarrow> (of_char d :: nat) < 160)) \<or>
      has_control s)"

lemma char_count_le_length: "char_count s \<le> length s"
  by (simp add: char_count_def)

text \<open>The characters of a UTF-8 string: a byte that starts one, with its continuation bytes.\<close>

function utf8_chars :: "string \<Rightarrow> string list" where
  "utf8_chars [] = []"
| "utf8_chars (c # s) = (c # takeWhile is_continuation s) # utf8_chars (dropWhile is_continuation s)"
  by pat_completeness auto
termination
  by (relation "measure length") (auto simp: le_imp_less_Suc length_dropWhile_le)

lemma concat_utf8_chars: "concat (utf8_chars s) = s"
  by (induction s rule: utf8_chars.induct) auto

definition strip_prefix :: "string \<Rightarrow> string \<Rightarrow> string option" where
  "strip_prefix p s = (if take (length p) s = p then Some (drop (length p) s) else None)"

definition utf8_bytes :: "string \<Rightarrow> bytes" where
  "utf8_bytes s = map (\<lambda>c. of_nat (of_char c)) s"

section \<open>Decimal text\<close>

text \<open>
  \<open>{:0w}\<close> of a number that fits in \<open>w\<close> digits is \<open>pad_dec w\<close>; \<open>dec\<close> is the plain decimal form
  and \<open>dec_min w\<close> the form padded to at least \<open>w\<close> digits.
\<close>

definition digit_char :: "nat \<Rightarrow> char" where
  "digit_char d = char_of (48 + d)"

primrec pad_dec :: "nat \<Rightarrow> nat \<Rightarrow> string" where
  "pad_dec 0 n = []"
| "pad_dec (Suc w) n = pad_dec w (n div 10) @ [digit_char (n mod 10)]"

definition is_ascii_digit :: "char \<Rightarrow> bool" where
  "is_ascii_digit c \<longleftrightarrow> 48 \<le> (of_char c :: nat) \<and> (of_char c :: nat) \<le> 57"

definition digit_val :: "char \<Rightarrow> nat" where
  "digit_val c = of_char c - 48"

fun digits :: "nat \<Rightarrow> nat" where
  "digits n = (if n < 10 then 1 else Suc (digits (n div 10)))"

declare digits.simps [simp del]

definition dec_min :: "nat \<Rightarrow> nat \<Rightarrow> string" where
  "dec_min w n = pad_dec (max w (digits n)) n"

definition dec :: "nat \<Rightarrow> string" where
  "dec n = dec_min 1 n"

lemma length_pad_dec [simp]: "length (pad_dec w n) = w"
  by (induction w arbitrary: n) auto

lemma of_char_digit: "d < 10 \<Longrightarrow> of_char (digit_char d) = 48 + d"
  by (simp add: digit_char_def)

lemma digit_val_digit_char [simp]: "d < 10 \<Longrightarrow> digit_val (digit_char d) = d"
  by (simp add: digit_val_def of_char_digit)

lemma is_ascii_digit_digit_char [simp]: "d < 10 \<Longrightarrow> is_ascii_digit (digit_char d)"
  by (simp add: is_ascii_digit_def of_char_digit)

lemma digit_char_digit_val: "is_ascii_digit c \<Longrightarrow> digit_char (digit_val c) = c"
  by (simp add: digit_char_def digit_val_def is_ascii_digit_def)

lemma digit_val_less: "is_ascii_digit c \<Longrightarrow> digit_val c < 10"
  by (auto simp: digit_val_def is_ascii_digit_def)

lemma digit_char_less_iff: "a < 10 \<Longrightarrow> b < 10 \<Longrightarrow> digit_char a < digit_char b \<longleftrightarrow> a < b"
  by (simp add: less_char_def of_char_digit)

lemma list_all_digit_pad_dec [simp]: "list_all is_ascii_digit (pad_dec w n)"
  by (induction w arbitrary: n) auto

abbreviation dec_value :: "string \<Rightarrow> nat" where
  "dec_value s \<equiv> foldl (\<lambda>acc c. 10 * acc + digit_val c) 0 s"

lemma dec_value_pad_dec: "n < 10 ^ w \<Longrightarrow> dec_value (pad_dec w n) = n"
proof (induction w arbitrary: n)
  case 0
  then show ?case by simp
next
  case (Suc w)
  then have "n div 10 < 10 ^ w" by auto
  then have "dec_value (pad_dec w (n div 10)) = n div 10" by (rule Suc.IH)
  then show ?case by simp
qed

lemma pad_dec_dec_value: "list_all is_ascii_digit s \<Longrightarrow> pad_dec (length s) (dec_value s) = s"
proof (induction s rule: rev_induct)
  case Nil
  then show ?case by simp
next
  case (snoc c s)
  then have "is_ascii_digit c" and "list_all is_ascii_digit s" by auto
  with snoc.IH show ?case
    by (simp add: digit_val_less digit_char_digit_val)
qed

lemma snoc_less_snoc_iff:
  "length xs = length ys \<Longrightarrow> (xs :: string) @ [x] < ys @ [y] \<longleftrightarrow> xs < ys \<or> xs = ys \<and> x < y"
proof (induction xs ys rule: list_induct2)
  case Nil
  then show ?case by simp
next
  case (Cons a as b bs)
  then show ?case by auto
qed

lemma div_mod_less_iff:
  "m div 10 < n div 10 \<or> m div 10 = n div 10 \<and> m mod 10 < n mod 10 \<longleftrightarrow> m < (n :: nat)"
proof -
  have "m = 10 * (m div 10) + m mod 10" and "n = 10 * (n div 10) + n mod 10"
    and "m mod 10 < 10" and "n mod 10 < 10"
    by simp_all
  then show ?thesis
    by (cases "m div 10 < n div 10"; cases "m div 10 = n div 10"; linarith)
qed

lemma pad_dec_inject: "m < 10 ^ w \<Longrightarrow> n < 10 ^ w \<Longrightarrow> pad_dec w m = pad_dec w n \<longleftrightarrow> m = n"
  by (metis dec_value_pad_dec)

lemma pad_dec_less_iff: "m < 10 ^ w \<Longrightarrow> n < 10 ^ w \<Longrightarrow> pad_dec w m < pad_dec w n \<longleftrightarrow> m < n"
proof (induction w arbitrary: m n)
  case 0
  then show ?case by simp
next
  case (Suc w)
  then have small: "m div 10 < 10 ^ w" "n div 10 < 10 ^ w" by auto
  have "pad_dec (Suc w) m < pad_dec (Suc w) n \<longleftrightarrow>
      m div 10 < n div 10 \<or> m div 10 = n div 10 \<and> m mod 10 < n mod 10"
    by (simp add: snoc_less_snoc_iff Suc.IH small pad_dec_inject digit_char_less_iff)
  also have "\<dots> \<longleftrightarrow> m < n"
    by (rule div_mod_less_iff)
  finally show ?case .
qed

lemma unat_u64_less_dec: "unat (e :: u64) < 10 ^ 20"
  using unat_u64_less [of e] by simp

lemma less_power_digits: "n < 10 ^ digits n"
proof (induction n rule: digits.induct)
  case (1 n)
  show ?case
  proof (cases "n < 10")
    case True
    then show ?thesis by (simp add: digits.simps)
  next
    case False
    with 1 have "n div 10 < 10 ^ digits (n div 10)" by simp
    then have "n < 10 * 10 ^ digits (n div 10)" by linarith
    with False show ?thesis by (simp add: digits.simps [of n])
  qed
qed

lemma dec_value_dec_min: "dec_value (dec_min w n) = n"
proof -
  have "(10 :: nat) ^ digits n \<le> 10 ^ max w (digits n)" by (rule power_increasing) auto
  with less_power_digits [of n] show ?thesis
    unfolding dec_min_def by (intro dec_value_pad_dec) linarith
qed

lemma dec_min_inject: "dec_min w m = dec_min w n \<longleftrightarrow> m = n"
  by (metis dec_value_dec_min)

lemma list_all_digit_dec_min: "list_all is_ascii_digit (dec_min w n)"
  by (simp add: dec_min_def)

lemma dash_not_in_dec_min: "CHR ''-'' \<notin> set (dec_min w n)"
  using list_all_digit_dec_min [of w n] by (auto simp: list_all_iff is_ascii_digit_def)

text \<open>A separator that does not occur in the first part splits a joined string in one way.\<close>

lemma split_at_separator:
  "c \<notin> set xs \<Longrightarrow> c \<notin> set xs' \<Longrightarrow> xs @ c # ys = xs' @ c # ys' \<longleftrightarrow> xs = xs' \<and> ys = ys'"
proof (induction xs arbitrary: xs')
  case Nil
  then show ?case by (cases xs') auto
next
  case (Cons x xs)
  then show ?case by (cases xs') auto
qed

text \<open>Joined keys compare like what follows their common part.\<close>

lemma append_less_append_iff: "(xs :: string) @ ys < xs @ zs \<longleftrightarrow> ys < zs"
  by (induction xs) auto

lemma append_le_append_iff: "(xs :: string) @ ys \<le> xs @ zs \<longleftrightarrow> ys \<le> zs"
  by (induction xs) auto

end
