(* ===== verification/Call_State.thy ===== *)
theory Call_State
  imports Prelude
begin

text \<open>
  The data of a call inside one DM session (\<open>private_dm_runtime/calls/\<close>): the state of the current
  call (\<open>state.rs\<close>), the controls exchanged about it (\<open>protocol.rs\<close>, \<open>native_call/types.rs\<close>), the
  persisted ordering book (\<open>book.rs\<close>), the reservations of sibling devices (\<open>occupancy.rs\<close>) and the
  bounded retransmission of terminal controls (\<open>terminal.rs\<close>).

  The reservation table is a \<open>HashMap\<close> whose values the code searches without regard to order; it is
  kept as a sorted association list. Time is an argument of every operation.

  Shown here: a control sequence number is accepted at most once per signer and in ascending order;
  allocated numbers ascend; the closed-call list, the reservations and the retransmissions stay
  within their bounds and hold one entry per call or device; a lease or a retransmission never
  outlives its window.
\<close>

section \<open>The call\<close>

datatype call_direction = Caller | Callee

datatype call_phase = Outgoing | Ringing | Accepting | Active

record binding =
  bi_session_id :: string
  bi_call_id :: string
  bi_caller :: string
  bi_callee :: string
  bi_media_session :: bytes

record description =
  de_binding :: binding
  de_offer :: bool
  de_parameters :: bytes

datatype signal = Description description | Candidates bytes "string list" | Camera bytes bool

fun bounded :: "signal \<Rightarrow> bool" where
  "bounded (Description d) \<longleftrightarrow>
     length (de_parameters d) \<le> 16384 \<and> length (bi_media_session (de_binding d)) = 16"
| "bounded (Candidates nonce candidates) \<longleftrightarrow>
     length nonce = 16 \<and> length candidates \<le> 8 \<and> list_all (\<lambda>c. length c \<le> 2048) candidates"
| "bounded (Camera nonce enabled) \<longleftrightarrow> length nonce = 16"

record call_state =
  cs_call_id :: string
  cs_direction :: call_direction
  cs_phase :: call_phase
  cs_started_at_ms :: u64
  cs_remote_device :: string
  cs_caller_signer :: string
  cs_selected_signer :: "string option"
  cs_remote_peer :: string
  cs_merged_call_id :: "string option"
  cs_offer_first_ms :: u64
  cs_offer_last_ms :: u64
  cs_native_controls :: "signal list"
  cs_native_camera_sequence :: u64
  cs_refused_by_other_engine :: bool

definition outgoing :: "string \<Rightarrow> string \<Rightarrow> call_state" where
  "outgoing call_id remote_device =
     \<lparr>cs_call_id = call_id, cs_direction = Caller, cs_phase = Outgoing, cs_started_at_ms = 0,
      cs_remote_device = remote_device, cs_caller_signer = [], cs_selected_signer = None,
      cs_remote_peer = [], cs_merged_call_id = None, cs_offer_first_ms = 0, cs_offer_last_ms = 0,
      cs_native_controls = [], cs_native_camera_sequence = 0, cs_refused_by_other_engine = False\<rparr>"

definition ringing :: "string \<Rightarrow> string \<Rightarrow> call_state" where
  "ringing call_id remote_device =
     \<lparr>cs_call_id = call_id, cs_direction = Callee, cs_phase = Ringing, cs_started_at_ms = 0,
      cs_remote_device = remote_device, cs_caller_signer = [], cs_selected_signer = None,
      cs_remote_peer = [], cs_merged_call_id = None, cs_offer_first_ms = 0, cs_offer_last_ms = 0,
      cs_native_controls = [], cs_native_camera_sequence = 0, cs_refused_by_other_engine = False\<rparr>"

definition become_active :: "u64 \<Rightarrow> call_state \<Rightarrow> call_state" where
  "become_active now call = call\<lparr>cs_phase := Active, cs_started_at_ms := now\<rparr>"

definition matches_id :: "call_state \<Rightarrow> string \<Rightarrow> bool" where
  "matches_id call i \<longleftrightarrow> cs_call_id call = i \<or> cs_merged_call_id call = Some i"

definition presentation_alias :: "call_state \<Rightarrow> string option" where
  "presentation_alias call = (if cs_direction call = Callee then cs_merged_call_id call else None)"

definition mark_offer_sent :: "u64 \<Rightarrow> call_state \<Rightarrow> call_state" where
  "mark_offer_sent now call =
     (if cs_offer_first_ms call = 0 then call\<lparr>cs_offer_first_ms := now\<rparr> else call)\<lparr>cs_offer_last_ms := now\<rparr>"

definition end_kind :: "call_state \<Rightarrow> string" where
  "end_kind call = (if cs_phase call \<noteq> Active then ''missed'' else ''completed'')"

definition duration_ms :: "call_state \<Rightarrow> u64 \<Rightarrow> u64" where
  "duration_ms call now =
     (if cs_started_at_ms call = 0 \<or> now < cs_started_at_ms call then 0
      else now - cs_started_at_ms call)"

section \<open>Controls\<close>

datatype call_action =
    Media signal
  | Offer
  | Answer
  | Occupied string "string option"
  | Selected string
  | Decline string
  | End string string

record call_control =
  cc_session_id :: string
  cc_call_id :: string
  cc_signer :: string
  cc_sequence :: u64
  cc_peer :: string
  cc_name :: string
  cc_action :: call_action
  cc_media_protocol :: u32

definition UPDATE_REQUIRED :: string where
  "UPDATE_REQUIRED = ''update_required''"

definition end_kind_for :: "call_state \<Rightarrow> string \<Rightarrow> string" where
  "end_kind_for call reason =
     (let kind = end_kind call
      in if reason = UPDATE_REQUIRED \<or> (cs_refused_by_other_engine call \<and> kind = ''missed'')
         then UPDATE_REQUIRED else kind)"

fun end_reason :: "call_action \<Rightarrow> string" where
  "end_reason (Decline reason) = reason"
| "end_reason (End caller reason) = reason"
| "end_reason _ = []"

definition outbound_control :: "call_state \<Rightarrow> call_action option" where
  "outbound_control call =
     (case cs_phase call of
        Outgoing \<Rightarrow> Some Offer
      | Accepting \<Rightarrow> Some Answer
      | Active \<Rightarrow>
          if cs_direction call = Caller then map_option Selected (cs_selected_signer call)
          else Some (Occupied (cs_caller_signer call) (cs_selected_signer call))
      | Ringing \<Rightarrow> Some (Occupied (cs_caller_signer call) (cs_selected_signer call)))"

section \<open>The ordering book\<close>

record closed_call =
  cl_id :: string
  cl_confirmed :: bool

record call_protocol_book =
  next_sequence :: u64
  received :: "(string, u64) btree_map"
  closed :: "closed_call list"

definition new_book :: call_protocol_book where
  "new_book = \<lparr>next_sequence = 0, received = [], closed = []\<rparr>"

definition allocate_sequence :: "call_protocol_book \<Rightarrow> call_protocol_book \<times> u64 option" where
  "allocate_sequence b =
     (case checked_add (next_sequence b) 1 of
        None \<Rightarrow> (b, None)
      | Some n \<Rightarrow> (b\<lparr>next_sequence := n\<rparr>, Some n))"

definition retain_signers :: "(string \<Rightarrow> bool) \<Rightarrow> call_protocol_book \<Rightarrow> call_protocol_book" where
  "retain_signers admitted b = b\<lparr>received := bt_retain (\<lambda>signer _. admitted signer) (received b)\<rparr>"

definition receive :: "string \<Rightarrow> u64 \<Rightarrow> call_protocol_book \<Rightarrow> call_protocol_book \<times> bool" where
  "receive signer sequence b =
     (if sequence = 0 \<or>
         (case bt_get (received b) signer of None \<Rightarrow> False | Some old \<Rightarrow> sequence \<le> old)
      then (b, False)
      else (b\<lparr>received := bt_insert signer sequence (received b)\<rparr>, True))"

definition close_call :: "string \<Rightarrow> bool \<Rightarrow> call_protocol_book \<Rightarrow> call_protocol_book" where
  "close_call i confirmed b =
     (if \<exists>c \<in> set (closed b). cl_id c = i then
        b\<lparr>closed := update_first (\<lambda>c. cl_id c = i)
            (\<lambda>c. c\<lparr>cl_confirmed := cl_confirmed c \<or> confirmed\<rparr>) (closed b)\<rparr>
      else
        b\<lparr>closed := (if length (closed b) = 512 then tl (closed b) else closed b) @
            [\<lparr>cl_id = i, cl_confirmed = confirmed\<rparr>]\<rparr>)"

definition is_closed :: "call_protocol_book \<Rightarrow> string \<Rightarrow> bool" where
  "is_closed b i \<longleftrightarrow> list_ex (\<lambda>c. cl_id c = i) (closed b)"

definition confirmed_closed :: "call_protocol_book \<Rightarrow> string \<Rightarrow> bool" where
  "confirmed_closed b i \<longleftrightarrow> list_ex (\<lambda>c. cl_id c = i \<and> cl_confirmed c) (closed b)"

section \<open>Reservations of sibling devices\<close>

definition LEASE_MS :: u64 where
  "LEASE_MS = 15000"

record reservation =
  rv_call_id :: string
  rv_caller :: string
  rv_receiver :: "string option"
  rv_expires :: u64

record call_occupancy =
  oc_devices :: "(string, reservation) btree_map"
  oc_admitted_offer :: "(string \<times> string) option"

definition new_occupancy :: call_occupancy where
  "new_occupancy = \<lparr>oc_devices = [], oc_admitted_offer = None\<rparr>"

definition admit_offer :: "string \<Rightarrow> string \<Rightarrow> call_occupancy \<Rightarrow> call_occupancy" where
  "admit_offer call_id caller q = q\<lparr>oc_admitted_offer := Some (call_id, caller)\<rparr>"

definition expire :: "u64 \<Rightarrow> call_occupancy \<Rightarrow> call_occupancy" where
  "expire now q = q\<lparr>oc_devices := bt_retain (\<lambda>_ r. now < rv_expires r) (oc_devices q)\<rparr>"

definition reserve ::
    "string \<Rightarrow> string \<Rightarrow> string \<Rightarrow> string option \<Rightarrow> u64 \<Rightarrow> call_occupancy \<Rightarrow> call_occupancy" where
  "reserve device call_id caller receiver now q =
     (let q1 = expire now q
      in if 64 \<le> length (oc_devices q1) \<and> \<not> bt_contains (oc_devices q1) device then q1
         else q1\<lparr>oc_devices := bt_insert device
                   \<lparr>rv_call_id = call_id, rv_caller = caller, rv_receiver = receiver,
                    rv_expires = saturating_add now LEASE_MS\<rparr> (oc_devices q1)\<rparr>)"

definition reserve_selected ::
    "string \<Rightarrow> string \<Rightarrow> string \<Rightarrow> u64 \<Rightarrow> call_occupancy \<Rightarrow> call_occupancy" where
  "reserve_selected device call_id caller now q =
     (let q1 = expire now q
      in if oc_admitted_offer q1 \<noteq> Some (call_id, caller) then q1
         else if (case bt_get (oc_devices q1) device of
                    None \<Rightarrow> False
                  | Some r \<Rightarrow> rv_call_id r \<noteq> call_id \<or> rv_caller r \<noteq> caller)
         then q1
         else reserve device call_id caller (Some device) now q1)"

definition permits_end :: "call_occupancy \<Rightarrow> string \<Rightarrow> string \<Rightarrow> bool option" where
  "permits_end q sender call_id =
     (let rs = filter (\<lambda>r. rv_call_id r = call_id) (bt_values (oc_devices q))
      in if rs \<noteq> [] then Some (list_ex (\<lambda>r. rv_caller r = sender \<or> rv_receiver r = Some sender) rs)
         else None)"

definition selected :: "call_occupancy \<Rightarrow> string \<Rightarrow> u64 \<Rightarrow> bool" where
  "selected q call_id now \<longleftrightarrow>
     list_ex (\<lambda>r. rv_call_id r = call_id \<and> rv_receiver r \<noteq> None \<and> now < rv_expires r)
       (bt_values (oc_devices q))"

definition release :: "string \<Rightarrow> string \<Rightarrow> call_occupancy \<Rightarrow> call_occupancy" where
  "release device call_id q =
     (case bt_get (oc_devices q) device of
        None \<Rightarrow> q
      | Some r \<Rightarrow>
          if rv_call_id r = call_id then q\<lparr>oc_devices := bt_remove device (oc_devices q)\<rparr> else q)"

definition forget_offer :: "string \<Rightarrow> call_occupancy \<Rightarrow> call_occupancy" where
  "forget_offer call_id q =
     (case oc_admitted_offer q of
        Some (i, _) \<Rightarrow> if i = call_id then q\<lparr>oc_admitted_offer := None\<rparr> else q
      | None \<Rightarrow> q)"

definition finish_occupancy :: "string \<Rightarrow> bool \<Rightarrow> call_occupancy \<Rightarrow> call_occupancy" where
  "finish_occupancy call_id confirmed q =
     (let q1 = q\<lparr>oc_devices := bt_retain (\<lambda>_ r. rv_call_id r \<noteq> call_id) (oc_devices q)\<rparr>
      in if confirmed then forget_offer call_id q1 else q1)"

definition receive_end :: "string \<Rightarrow> string \<Rightarrow> call_occupancy \<Rightarrow> call_occupancy" where
  "receive_end sender call_id q =
     (let q1 = (if oc_admitted_offer q = Some (call_id, sender) then forget_offer call_id q else q)
      in q1\<lparr>oc_devices := bt_retain
            (\<lambda>_ r. rv_call_id r \<noteq> call_id \<or> (rv_caller r \<noteq> sender \<and> rv_receiver r \<noteq> Some sender))
            (oc_devices q1)\<rparr>)"

definition calls :: "call_occupancy \<Rightarrow> u64 \<Rightarrow> string set" where
  "calls q now = set (map rv_call_id (filter (\<lambda>r. now < rv_expires r) (bt_values (oc_devices q))))"

section \<open>Retransmission of terminal controls\<close>

definition RETRY_WINDOW_MS :: u64 where
  "RETRY_WINDOW_MS = 15000"

definition MAX_TERMINAL_CONTROLS :: nat where
  "MAX_TERMINAL_CONTROLS = 32"

definition CALL_RESEND_MS :: u64 where
  "CALL_RESEND_MS = 2000"

definition CALL_RING_TIMEOUT_MS :: u64 where
  "CALL_RING_TIMEOUT_MS = 30000"

record terminal_control =
  tc_call_id :: string
  tc_action :: call_action
  tc_expires :: u64
  tc_last_sent :: u64

type_synonym call_end_retries = "terminal_control list"

definition remember_end :: "string \<Rightarrow> call_action \<Rightarrow> u64 \<Rightarrow> call_end_retries \<Rightarrow> call_end_retries" where
  "remember_end call_id action now cs =
     (let kept = filter (\<lambda>c. tc_call_id c \<noteq> call_id \<and> now < tc_expires c) cs
      in (if length kept = MAX_TERMINAL_CONTROLS then tl kept else kept) @
         [\<lparr>tc_call_id = call_id, tc_action = action,
           tc_expires = saturating_add now RETRY_WINDOW_MS, tc_last_sent = now\<rparr>])"

definition is_due :: "u64 \<Rightarrow> terminal_control \<Rightarrow> bool" where
  "is_due now c \<longleftrightarrow> \<not> saturating_sub now (tc_last_sent c) < CALL_RESEND_MS"

definition due :: "u64 \<Rightarrow> call_end_retries \<Rightarrow> call_end_retries \<times> (string \<times> call_action) list" where
  "due now cs =
     (let live = filter (\<lambda>c. now < tc_expires c) cs
      in (map (\<lambda>c. if is_due now c then c\<lparr>tc_last_sent := now\<rparr> else c) live,
          map (\<lambda>c. (tc_call_id c, tc_action c)) (filter (is_due now) live)))"

section \<open>The book orders controls\<close>

definition book_wf :: "call_protocol_book \<Rightarrow> bool" where
  "book_wf b \<longleftrightarrow> bt_wf (received b) \<and> length (closed b) \<le> 512 \<and> distinct (map cl_id (closed b))"

lemma book_wf_new [wf_intros]: "book_wf new_book"
  by (simp add: book_wf_def new_book_def)

lemma book_wf_allocate [wf_intros]: "book_wf b \<Longrightarrow> book_wf (fst (allocate_sequence b))"
  by (simp add: allocate_sequence_def book_wf_def split: option.split)

lemma book_wf_retain [wf_intros]: "book_wf b \<Longrightarrow> book_wf (retain_signers admitted b)"
  by (simp add: retain_signers_def book_wf_def bt_wf_retain)

lemma book_wf_receive [wf_intros]: "book_wf b \<Longrightarrow> book_wf (fst (receive signer sequence b))"
  by (simp add: receive_def book_wf_def bt_wf_insert)

lemma book_wf_close [wf_intros]:
  assumes "book_wf b"
  shows "book_wf (close_call i confirmed b)"
proof (cases "\<exists>c \<in> set (closed b). cl_id c = i")
  case True
  have "map cl_id (update_first (\<lambda>c. cl_id c = i) (\<lambda>c. c\<lparr>cl_confirmed := cl_confirmed c \<or> confirmed\<rparr>)
      (closed b)) = map cl_id (closed b)"
    by (rule map_update_first) simp
  with True assms show ?thesis by (simp add: close_call_def book_wf_def)
next
  case False
  then have "i \<notin> cl_id ` set (closed b)" by auto
  then have "i \<notin> cl_id ` set (tl (closed b))" by (cases "closed b") auto
  moreover have "distinct (map cl_id (tl (closed b)))"
    using assms by (simp add: book_wf_def map_tl distinct_tl)
  ultimately show ?thesis using assms False \<open>i \<notin> cl_id ` set (closed b)\<close>
    by (auto simp: close_call_def book_wf_def)
qed

lemma receive_True_iff:
  "snd (receive signer n b) \<longleftrightarrow>
     n \<noteq> 0 \<and> (case bt_get (received b) signer of None \<Rightarrow> True | Some old \<Rightarrow> old < n)"
  by (auto simp: receive_def not_le split: option.splits)

lemma receive_bound:
  "bt_get (received b) signer = Some m \<Longrightarrow>
   \<exists>m'. bt_get (received (fst (receive s n b))) signer = Some m' \<and> m \<le> m'"
  by (auto simp: receive_def)

lemma confirmed_closed_close:
  "confirmed_closed b i \<Longrightarrow> length (closed b) < 512 \<or> is_closed b j \<Longrightarrow> confirmed_closed (close_call j x b) i"
  unfolding confirmed_closed_def is_closed_def close_call_def
  by (auto simp flip: list_ex_iff intro!: list_ex_update_first)

lemma confirmed_closed_confirm: "confirmed_closed (close_call i True b) i"
proof (cases "is_closed b i")
  case True
  then show ?thesis
    by (auto simp: confirmed_closed_def close_call_def is_closed_def simp flip: list_ex_iff
        intro!: list_ex_update_first_hit)
next
  case False
  then show ?thesis by (simp add: confirmed_closed_def close_call_def is_closed_def flip: list_ex_iff)
qed

lemma is_closed_close: "is_closed (close_call i x b) i"
proof (cases "is_closed b i")
  case True
  then show ?thesis
    by (auto simp: close_call_def is_closed_def simp flip: list_ex_iff intro!: list_ex_update_first_hit)
next
  case False
  then show ?thesis by (simp add: close_call_def is_closed_def flip: list_ex_iff)
qed

lemma confirmed_closed_is_closed: "confirmed_closed b i \<Longrightarrow> is_closed b i"
  by (auto simp: confirmed_closed_def is_closed_def list_ex_iff)

text \<open>The operations on the book, in any order; a received control is reported when it is accepted.\<close>

datatype book_event =
    Received string u64
  | Retained "string \<Rightarrow> bool"
  | Closed string bool
  | Allocated

fun book_step :: "book_event \<Rightarrow> call_protocol_book \<Rightarrow> call_protocol_book \<times> (string \<times> u64) list" where
  "book_step (Received s n) b = (fst (receive s n b), if snd (receive s n b) then [(s, n)] else [])"
| "book_step (Retained P) b = (retain_signers P b, [])"
| "book_step (Closed i c) b = (close_call i c b, [])"
| "book_step Allocated b = (fst (allocate_sequence b), [])"

fun book_run :: "book_event list \<Rightarrow> call_protocol_book \<Rightarrow> call_protocol_book \<times> (string \<times> u64) list" where
  "book_run [] b = (b, [])"
| "book_run (e # es) b =
     (let (b1, xs) = book_step e b; (b2, ys) = book_run es b1 in (b2, xs @ ys))"

fun keeps_signer :: "string \<Rightarrow> book_event \<Rightarrow> bool" where
  "keeps_signer s (Retained P) = P s"
| "keeps_signer s _ = True"

lemma book_step_wf: "book_wf b \<Longrightarrow> book_wf (fst (book_step e b))"
  by (cases e) (auto intro: wf_intros)

definition accepted_from :: "string \<Rightarrow> (string \<times> u64) list \<Rightarrow> u64 list" where
  "accepted_from s xs = map snd (filter (\<lambda>x. fst x = s) xs)"

definition above :: "call_protocol_book \<Rightarrow> string \<Rightarrow> u64 \<Rightarrow> bool" where
  "above b s n \<longleftrightarrow> n \<noteq> 0 \<and> (case bt_get (received b) s of None \<Rightarrow> True | Some old \<Rightarrow> old < n)"

lemma book_step_accepts:
  assumes "book_wf b" and "keeps_signer s e" and "book_step e b = (b1, xs)"
  shows "(accepted_from s xs = [] \<and> (\<forall>n. above b1 s n \<longrightarrow> above b s n)) \<or>
    (\<exists>m. accepted_from s xs = [m] \<and> above b s m \<and> (\<forall>n. above b1 s n \<longrightarrow> m < n \<and> above b s n))"
proof (cases e)
  case (Received s' n)
  with assms show ?thesis
    by (auto simp: accepted_from_def above_def receive_def split: if_splits option.splits)
next
  case (Retained P)
  with assms show ?thesis
    by (auto simp: accepted_from_def above_def retain_signers_def bt_get_retain book_wf_def
        split: option.splits)
next
  case (Closed i c)
  with assms show ?thesis
    by (auto simp: accepted_from_def above_def close_call_def split: if_splits)
next
  case Allocated
  with assms show ?thesis
    by (auto simp: accepted_from_def above_def allocate_sequence_def split: option.splits)
qed

lemma book_run_accepts:
  assumes "book_wf b" and "\<forall>e \<in> set es. keeps_signer s e"
  shows "sorted_wrt (<) (accepted_from s (snd (book_run es b))) \<and>
    (\<forall>n \<in> set (accepted_from s (snd (book_run es b))). above b s n)"
  using assms
proof (induction es arbitrary: b)
  case Nil
  then show ?case by (simp add: accepted_from_def)
next
  case (Cons e es)
  obtain b1 xs where step: "book_step e b = (b1, xs)" by fastforce
  obtain b2 ys where run: "book_run es b1 = (b2, ys)" by fastforce
  from book_step_wf [OF Cons.prems(1), of e] step have wf: "book_wf b1" by simp
  from Cons.IH [OF wf] Cons.prems(2) run
  have ys: "sorted_wrt (<) (accepted_from s ys)" "\<forall>n \<in> set (accepted_from s ys). above b1 s n" by auto
  have "accepted_from s (xs @ ys) = accepted_from s xs @ accepted_from s ys"
    by (simp add: accepted_from_def)
  with book_step_accepts [OF Cons.prems(1) _ step, of s] Cons.prems(2) ys show ?case
    by (auto simp: step run sorted_wrt_append)
qed

section \<open>Reservations are bounded leases\<close>

definition occupancy_wf :: "call_occupancy \<Rightarrow> bool" where
  "occupancy_wf q \<longleftrightarrow> bt_wf (oc_devices q) \<and> length (oc_devices q) \<le> 64"

lemma length_bt_retain: "length (bt_retain P m) \<le> length m"
  by (simp add: bt_retain_def)

lemma occupancy_wf_new [wf_intros]: "occupancy_wf new_occupancy"
  by (simp add: occupancy_wf_def new_occupancy_def)

lemma occupancy_wf_admit [wf_intros]: "occupancy_wf q \<Longrightarrow> occupancy_wf (admit_offer i c q)"
  by (simp add: occupancy_wf_def admit_offer_def)

lemma occupancy_wf_retain:
  "occupancy_wf q \<Longrightarrow> occupancy_wf (q\<lparr>oc_devices := bt_retain P (oc_devices q)\<rparr>)"
  using length_bt_retain [of P "oc_devices q"] by (simp add: occupancy_wf_def bt_wf_retain)

lemma occupancy_wf_expire [wf_intros]: "occupancy_wf q \<Longrightarrow> occupancy_wf (expire now q)"
  by (simp add: expire_def occupancy_wf_retain)

lemma occupancy_wf_reserve [wf_intros]:
  assumes "occupancy_wf q"
  shows "occupancy_wf (reserve d i c r now q)"
proof -
  from assms have wf: "bt_wf (oc_devices (expire now q))" "length (oc_devices (expire now q)) \<le> 64"
    using occupancy_wf_expire [of q now] by (simp_all add: occupancy_wf_def)
  show ?thesis
  proof (cases "bt_contains (oc_devices (expire now q)) d")
    case True
    with wf show ?thesis
      by (simp add: reserve_def Let_def occupancy_wf_def bt_wf_insert length_bt_insert_present)
  next
    case False
    let ?v = "\<lparr>rv_call_id = i, rv_caller = c, rv_receiver = r, rv_expires = saturating_add now LEASE_MS\<rparr>"
    have "length (bt_insert d ?v (oc_devices (expire now q))) \<le> Suc (length (oc_devices (expire now q)))"
      by (rule length_bt_insert)
    with False wf show ?thesis
      by (simp add: reserve_def Let_def occupancy_wf_def bt_wf_insert)
  qed
qed

lemma occupancy_wf_reserve_selected [wf_intros]:
  "occupancy_wf q \<Longrightarrow> occupancy_wf (reserve_selected d i c now q)"
  by (auto simp: reserve_selected_def Let_def intro!: wf_intros split: option.split)

lemma occupancy_wf_release [wf_intros]: "occupancy_wf q \<Longrightarrow> occupancy_wf (release d i q)"
  using length_bt_remove [of d "oc_devices q"]
  by (auto simp: release_def occupancy_wf_def bt_wf_remove split: option.split)

lemma occupancy_wf_forget [wf_intros]: "occupancy_wf q \<Longrightarrow> occupancy_wf (forget_offer i q)"
  by (auto simp: forget_offer_def occupancy_wf_def split: option.split)

lemma occupancy_wf_finish [wf_intros]: "occupancy_wf q \<Longrightarrow> occupancy_wf (finish_occupancy i c q)"
  by (auto simp: finish_occupancy_def Let_def intro: occupancy_wf_forget occupancy_wf_retain)

lemma occupancy_wf_receive_end [wf_intros]: "occupancy_wf q \<Longrightarrow> occupancy_wf (receive_end s i q)"
  by (auto simp: receive_end_def Let_def intro: occupancy_wf_forget occupancy_wf_retain)

definition leases_until :: "u64 \<Rightarrow> call_occupancy \<Rightarrow> bool" where
  "leases_until now q \<longleftrightarrow> (\<forall>r \<in> set (bt_values (oc_devices q)). unat (rv_expires r) \<le> unat now + 15000)"

lemma bt_values_retain: "set (bt_values (bt_retain P m)) \<subseteq> set (bt_values m)"
  by (auto simp: bt_values_def bt_retain_def)

lemma bt_values_remove: "set (bt_values (bt_remove k m)) \<subseteq> set (bt_values m)"
  by (auto simp: bt_values_def bt_remove_def)

lemma bt_values_insert: "set (bt_values (bt_insert k v m)) \<subseteq> insert v (set (bt_values m))"
  by (induction m) (auto simp: bt_values_def)

lemma leases_until_mono: "leases_until now q \<Longrightarrow> now \<le> now' \<Longrightarrow> leases_until now' q"
  by (force simp: leases_until_def word_le_nat_alt)

lemma leases_subset:
  "leases_until now q \<Longrightarrow> set (bt_values (oc_devices q')) \<subseteq> set (bt_values (oc_devices q)) \<Longrightarrow>
   leases_until now q'"
  by (auto simp: leases_until_def)

lemma expire_values: "set (bt_values (oc_devices (expire now q))) \<subseteq> set (bt_values (oc_devices q))"
  using bt_values_retain by (force simp: expire_def)

lemma reserve_values:
  "set (bt_values (oc_devices (reserve d i c r now q))) \<subseteq>
   insert \<lparr>rv_call_id = i, rv_caller = c, rv_receiver = r, rv_expires = saturating_add now LEASE_MS\<rparr>
     (set (bt_values (oc_devices q)))"
proof -
  let ?v = "\<lparr>rv_call_id = i, rv_caller = c, rv_receiver = r, rv_expires = saturating_add now LEASE_MS\<rparr>"
  have "set (bt_values (oc_devices (reserve d i c r now q))) \<subseteq>
      insert ?v (set (bt_values (oc_devices (expire now q))))"
    using bt_values_insert [of d ?v "oc_devices (expire now q)"] by (auto simp: reserve_def Let_def)
  with expire_values [of now q] show ?thesis by blast
qed

lemma lease_length: "unat (saturating_add now LEASE_MS) \<le> unat now + 15000"
  by (simp add: unat_saturating_add LEASE_MS_def)

lemma leases_reserve: "leases_until now q \<Longrightarrow> leases_until now (reserve d i c r now q)"
  using reserve_values [of d i c r now q] lease_length [of now] by (fastforce simp: leases_until_def)

text \<open>The changes to the reservations, with the time they happen.\<close>

datatype occupancy_event =
    Admitted string string
  | Reserved string string string "string option"
  | ReservedSelected string string string
  | Released string string
  | Finished string bool
  | EndReceived string string
  | Expired

fun occupancy_step :: "call_occupancy \<Rightarrow> u64 \<times> occupancy_event \<Rightarrow> call_occupancy" where
  "occupancy_step q (now, Admitted i c) = admit_offer i c q"
| "occupancy_step q (now, Reserved d i c r) = reserve d i c r now q"
| "occupancy_step q (now, ReservedSelected d i c) = reserve_selected d i c now q"
| "occupancy_step q (now, Released d i) = release d i q"
| "occupancy_step q (now, Finished i c) = finish_occupancy i c q"
| "occupancy_step q (now, EndReceived s i) = receive_end s i q"
| "occupancy_step q (now, Expired) = expire now q"

lemma occupancy_step_wf: "occupancy_wf q \<Longrightarrow> occupancy_wf (occupancy_step q e)"
  by (cases "(q, e)" rule: occupancy_step.cases) (auto intro: wf_intros)

interpretation occupancy_events: event_machine occupancy_step occupancy_wf
  by unfold_locales (rule occupancy_step_wf)

lemma occupancy_step_leases:
  assumes "leases_until now q"
  shows "leases_until now (occupancy_step q (now, e))"
proof (cases e)
  case (Reserved d i c r)
  with assms show ?thesis by (simp add: leases_reserve)
next
  case (ReservedSelected d i c)
  have "leases_until now (expire now q)" using assms expire_values by (rule leases_subset)
  with ReservedSelected show ?thesis
    by (auto simp: reserve_selected_def Let_def intro: leases_reserve split: option.split)
next
  case (Released d i)
  with assms show ?thesis
    using bt_values_remove [of d "oc_devices q"]
    by (auto simp: release_def leases_until_def split: option.split)
next
  case (Finished i c)
  have "oc_devices (finish_occupancy i c q) = bt_retain (\<lambda>_ r. rv_call_id r \<noteq> i) (oc_devices q)"
    by (auto simp: finish_occupancy_def Let_def forget_offer_def split: option.split)
  then have "set (bt_values (oc_devices (finish_occupancy i c q))) \<subseteq> set (bt_values (oc_devices q))"
    by (simp add: bt_values_retain)
  with Finished assms show ?thesis by (auto intro: leases_subset [of now q])
next
  case (EndReceived s i)
  have "set (bt_values (oc_devices (receive_end s i q))) \<subseteq> set (bt_values (oc_devices q))"
    using bt_values_retain by (fastforce simp: receive_end_def Let_def forget_offer_def split: option.splits if_splits)
  with EndReceived assms show ?thesis by (auto intro: leases_subset [of now q])
qed (use assms expire_values in \<open>auto simp: admit_offer_def leases_until_def\<close>)

lemma occupancy_run_leases:
  assumes "leases_until now q" and "\<forall>e \<in> set es. fst e \<le> now" and "sorted (map fst es)"
    and "\<forall>e \<in> set es. leases_until (fst e) q"
  shows "leases_until now (foldl occupancy_step q es)"
  using assms
proof (induction es arbitrary: q)
  case Nil
  then show ?case by simp
next
  case (Cons e es)
  obtain t ev where e: "e = (t, ev)" by fastforce
  from Cons.prems(4) e have step: "leases_until t (occupancy_step q e)"
    by (simp add: occupancy_step_leases)
  from Cons.prems(2,3) e have "t \<le> now" and "\<forall>e' \<in> set es. t \<le> fst e'" by auto
  with step have "leases_until now (occupancy_step q e)"
    and "\<forall>e' \<in> set es. leases_until (fst e') (occupancy_step q e)"
    by (auto intro: leases_until_mono)
  with Cons.IH [of "occupancy_step q e"] Cons.prems(2,3) show ?case by simp
qed

lemma calls_finish: "calls (finish_occupancy i c q) now = calls q now - {i}"
proof -
  have "oc_devices (finish_occupancy i c q) = bt_retain (\<lambda>_ r. rv_call_id r \<noteq> i) (oc_devices q)"
    by (auto simp: finish_occupancy_def Let_def forget_offer_def split: option.split)
  then show ?thesis by (auto simp: calls_def bt_values_def bt_retain_def image_iff) force+
qed

section \<open>Retransmissions are bounded\<close>

definition retries_wf :: "call_end_retries \<Rightarrow> bool" where
  "retries_wf cs \<longleftrightarrow> length cs \<le> MAX_TERMINAL_CONTROLS \<and> distinct (map tc_call_id cs)"

lemma retries_wf_Nil [wf_intros]: "retries_wf []"
  by (simp add: retries_wf_def)

lemma retries_wf_remember [wf_intros]:
  assumes "retries_wf cs"
  shows "retries_wf (remember_end i a now cs)"
proof -
  let ?kept = "filter (\<lambda>c. tc_call_id c \<noteq> i \<and> now < tc_expires c) cs"
  have len: "length ?kept \<le> MAX_TERMINAL_CONTROLS" and dist: "distinct (map tc_call_id ?kept)"
    using assms by (auto simp: retries_wf_def distinct_map_filter intro: order_trans [OF length_filter_le])
  moreover have "distinct (map tc_call_id (tl ?kept))" using dist by (simp add: map_tl distinct_tl)
  moreover have "i \<notin> tc_call_id ` set ?kept" by auto
  moreover have "set (tl ?kept) \<subseteq> set ?kept" by (cases ?kept) auto
  ultimately show ?thesis
    by (auto simp: remember_end_def Let_def retries_wf_def MAX_TERMINAL_CONTROLS_def)
qed

lemma due_ids: "map tc_call_id (fst (due now cs)) = map tc_call_id (filter (\<lambda>c. now < tc_expires c) cs)"
  by (simp add: due_def Let_def)

lemma retries_wf_due [wf_intros]:
  assumes "retries_wf cs"
  shows "retries_wf (fst (due now cs))"
proof -
  have "length (fst (due now cs)) \<le> length cs" by (simp add: due_def Let_def)
  moreover have "distinct (map tc_call_id (fst (due now cs)))"
    using assms unfolding due_ids by (simp add: retries_wf_def distinct_map_filter)
  ultimately show ?thesis using assms by (simp add: retries_wf_def)
qed

lemma due_emitted:
  "(i, a) \<in> set (snd (due now cs)) \<longleftrightarrow>
   (\<exists>c \<in> set cs. tc_call_id c = i \<and> tc_action c = a \<and> now < tc_expires c \<and> is_due now c)"
  by (auto simp: due_def Let_def)

lemma not_due_within:
  assumes "unat now \<le> unat now'" and "unat now' < unat now + 2000"
  shows "\<not> is_due now' (c\<lparr>tc_last_sent := now\<rparr>)"
  using assms by (simp add: is_due_def word_less_nat_alt unat_saturating_sub CALL_RESEND_MS_def)

section \<open>Properties\<close>

text \<open>
  Call controls cannot be replayed: over any run of the ordering book from a well-formed state,
  the sequence numbers accepted from a signer that stays admitted are strictly ascending and non-zero,
  so no control is accepted twice and none after a later one, whatever arrives in between.
\<close>

theorem call_sequence_ascending:
  assumes "book_wf b" and "\<forall>e \<in> set es. keeps_signer s e"
  shows "sorted_wrt (<) (accepted_from s (snd (book_run es b))) \<and>
    0 \<notin> set (accepted_from s (snd (book_run es b)))"
  using book_run_accepts [OF assms] by (auto simp: above_def)

theorem call_sequence_ascending_witness:
  "accepted_from ''a'' (snd (book_run
     [Received ''a'' 2, Received ''b'' 5, Received ''a'' 2, Received ''a'' 4, Received ''a'' 3] new_book)) = [2, 4] \<and>
   sorted_wrt (<) (accepted_from ''a'' (snd (book_run
     [Received ''a'' 2, Received ''b'' 5, Received ''a'' 2, Received ''a'' 4, Received ''a'' 3] new_book)))"
proof
  show "accepted_from ''a'' (snd (book_run
     [Received ''a'' 2, Received ''b'' 5, Received ''a'' 2, Received ''a'' 4, Received ''a'' 3] new_book)) = [2, 4]"
    by (simp add: accepted_from_def receive_def new_book_def bt_get_def)
  show "sorted_wrt (<) (accepted_from ''a'' (snd (book_run
     [Received ''a'' 2, Received ''b'' 5, Received ''a'' 2, Received ''a'' 4, Received ''a'' 3] new_book)))"
    by (rule call_sequence_ascending [OF book_wf_new, THEN conjunct1]) simp
qed

text \<open>
  Reservations are leases: after any time-ordered run of occupancy changes, at most 64 devices
  hold a reservation, and from fifteen seconds after the last change on no call counts as occupied
  any more, even if no end was ever received.
\<close>

theorem occupancy_bounded_leases:
  assumes "sorted (map fst es)" and "\<forall>e \<in> set es. fst e \<le> now"
    and "unat now + 15000 \<le> unat later"
  shows "length (oc_devices (foldl occupancy_step new_occupancy es)) \<le> 64 \<and>
    calls (foldl occupancy_step new_occupancy es) later = {}"
proof -
  have "occupancy_wf (foldl occupancy_step new_occupancy es)"
    by (rule occupancy_events.run_inv [OF occupancy_wf_new])
  moreover have "leases_until t new_occupancy" for t
    by (simp add: leases_until_def new_occupancy_def bt_values_def)
  then have "leases_until now (foldl occupancy_step new_occupancy es)"
    using assms(1,2) by (intro occupancy_run_leases) auto
  then have "calls (foldl occupancy_step new_occupancy es) later = {}"
    using assms(3) by (force simp: calls_def leases_until_def word_less_nat_alt)
  ultimately show ?thesis by (simp add: occupancy_wf_def)
qed

theorem occupancy_bounded_leases_witness:
  "calls (foldl occupancy_step new_occupancy [(5, Reserved ''d'' ''c'' ''s'' None)]) 6 = {''c''} \<and>
   calls (foldl occupancy_step new_occupancy [(5, Reserved ''d'' ''c'' ''s'' None)]) 15005 = {}"
proof
  show "calls (foldl occupancy_step new_occupancy [(5, Reserved ''d'' ''c'' ''s'' None)]) 6 = {''c''}"
    by (simp add: calls_def reserve_def Let_def expire_def new_occupancy_def bt_retain_def bt_values_def
        saturating_add_def LEASE_MS_def)
  show "calls (foldl occupancy_step new_occupancy [(5, Reserved ''d'' ''c'' ''s'' None)]) 15005 = {}"
    by (rule occupancy_bounded_leases [where now = 5, THEN conjunct2]) simp_all
qed

text \<open>
  Terminal controls are retransmitted sparingly: the list holds at most 32 entries with distinct
  calls, one pass sends each call's control at most once and only inside its window, and a control
  just sent is not due again for the next two seconds.
\<close>

theorem terminal_retries_bounded:
  assumes "retries_wf cs" and "unat now \<le> unat now'" and "unat now' < unat now + 2000"
  shows "retries_wf (remember_end i a now cs) \<and> retries_wf (fst (due now cs)) \<and>
    distinct (map fst (snd (due now cs))) \<and>
    (\<forall>x \<in> set (snd (due now cs)). x \<notin> set (snd (due now' (fst (due now cs)))))"
proof -
  have dist: "distinct (map tc_call_id cs)" using assms(1) by (simp add: retries_wf_def)
  then have "distinct (map tc_call_id (filter (is_due now) (filter (\<lambda>c. now < tc_expires c) cs)))"
    by (simp add: distinct_map_filter)
  then have "distinct (map fst (snd (due now cs)))" by (simp add: due_def Let_def comp_def)
  moreover have "x \<notin> set (snd (due now' (fst (due now cs))))" if x: "x \<in> set (snd (due now cs))" for x
  proof
    obtain j b where xj: "x = (j, b)" by fastforce
    assume "x \<in> set (snd (due now' (fst (due now cs))))"
    then obtain c' where c': "c' \<in> set (fst (due now cs))" "tc_call_id c' = j" "is_due now' c'"
      by (auto simp: xj due_emitted)
    from x obtain c where c: "c \<in> set cs" "tc_call_id c = j" "is_due now c" "now < tc_expires c"
      by (auto simp: xj due_emitted)
    from c'(1) obtain c0 where c0: "c0 \<in> set cs" "c' = (if is_due now c0 then c0\<lparr>tc_last_sent := now\<rparr> else c0)"
      by (auto simp: due_def Let_def)
    then have "tc_call_id c0 = j" using c'(2) by (simp split: if_splits)
    with c c0(1) dist have "c0 = c" by (auto simp: distinct_map inj_on_def)
    with c0(2) c(3) have "c' = c\<lparr>tc_last_sent := now\<rparr>" by simp
    with c'(3) not_due_within [OF assms(2,3)] show False by simp
  qed
  ultimately show ?thesis using assms(1) by (auto intro: wf_intros)
qed

theorem terminal_retries_bounded_witness:
  "snd (due 5000 (remember_end ''c'' Answer 1000 [])) = [(''c'', Answer)] \<and>
   (''c'', Answer) \<notin> set (snd (due 6000 (fst (due 5000 (remember_end ''c'' Answer 1000 [])))))"
proof -
  have "retries_wf (remember_end ''c'' Answer 1000 [])" by (intro wf_intros)
  from terminal_retries_bounded [OF this, of 5000 6000 "[]" Answer]
  show ?thesis
    by (simp add: due_def remember_end_def Let_def is_due_def CALL_RESEND_MS_def saturating_sub_def
        MAX_TERMINAL_CONTROLS_def saturating_add_def RETRY_WINDOW_MS_def)
qed

end
