(* ===== verification/Signature_Verification.thy ===== *)
theory Signature_Verification
  imports Prelude
begin

text \<open>
  The process-wide cache of successful signature checks (\<open>signature_verification.rs\<close>). A check is
  remembered under a fixed-size digest of key, signature and input; at most \<open>CAPACITY\<close> digests
  are kept, the oldest dropped first. Ed25519, SHA-256 and hex are parameters (\<open>sig_env\<close>).

  Shown here: the cache's set and queue agree and stay bounded, and, when no two different inputs
  share a digest, the cached check answers exactly what the uncached check answers, whatever was
  checked before. The other theories use the uncached check \<open>signature_ok\<close>.
\<close>

section \<open>Model\<close>

record ('vk, 'sg) sig_env =
  hex_decode :: "string \<Rightarrow> bytes option"
  hex_encode :: "bytes \<Rightarrow> string"
  key_from_bytes :: "bytes \<Rightarrow> 'vk option"
  key_bytes :: "'vk \<Rightarrow> bytes"
  key_is_weak :: "'vk \<Rightarrow> bool"
  sig_from_slice :: "bytes \<Rightarrow> 'sg option"
  sig_bytes :: "'sg \<Rightarrow> bytes"
  verify_strict :: "'vk \<Rightarrow> bytes \<Rightarrow> 'sg \<Rightarrow> bool"
  sha256 :: "bytes \<Rightarrow> bytes"

definition CAPACITY :: nat where
  "CAPACITY = 4096"

datatype fact = SignatureFact bytes | CertificateFact bytes

record verified_facts =
  fact_keys :: "fact set"
  fact_order :: "fact list"

definition no_facts :: verified_facts where
  "no_facts = \<lparr>fact_keys = {}, fact_order = []\<rparr>"

definition remember_fact :: "fact \<Rightarrow> verified_facts \<Rightarrow> verified_facts" where
  "remember_fact key c =
     (if key \<in> fact_keys c then c
      else
        (let c1 = \<lparr>fact_keys = insert key (fact_keys c), fact_order = fact_order c @ [key]\<rparr>
         in if CAPACITY < length (fact_order c1) then
              (case fact_order c1 of
                 [] \<Rightarrow> c1
               | oldest # rest \<Rightarrow> \<lparr>fact_keys = fact_keys c1 - {oldest}, fact_order = rest\<rparr>)
            else c1))"

definition verify_cached ::
    "fact \<Rightarrow> (string, unit) result \<Rightarrow> verified_facts \<Rightarrow> verified_facts \<times> (string, unit) result" where
  "verify_cached f check c =
     (if f \<in> fact_keys c then (c, Ok ())
      else (case check of Inl e \<Rightarrow> (c, Err e) | Inr _ \<Rightarrow> (remember_fact f c, Ok ())))"

text \<open>The closure passed to \<open>verify_cached\<close>: parse the key, refuse a weak one, verify.\<close>

definition signature_check ::
    "('vk, 'sg) sig_env \<Rightarrow> (string, 'vk) result \<Rightarrow> 'sg \<Rightarrow> bytes \<Rightarrow> (string, unit) result" where
  "signature_check env key signature input =
     and_then key (\<lambda>k.
       if key_is_weak env k then Err ''weak signing key''
       else if verify_strict env k input signature then Ok () else Err ''signature error'')"

definition fingerprint :: "('vk, 'sg) sig_env \<Rightarrow> bytes \<Rightarrow> 'sg \<Rightarrow> bytes \<Rightarrow> fact" where
  "fingerprint env kb signature input =
     SignatureFact (sha256 env (kb @ sig_bytes env signature @ input))"

definition verify_with ::
    "('vk, 'sg) sig_env \<Rightarrow> bytes \<Rightarrow> 'sg \<Rightarrow> bytes \<Rightarrow> (string, 'vk) result \<Rightarrow> verified_facts \<Rightarrow>
     verified_facts \<times> (string, unit) result" where
  "verify_with env kb signature input key c =
     verify_cached (fingerprint env kb signature input) (signature_check env key signature input) c"

definition verify_key ::
    "('vk, 'sg) sig_env \<Rightarrow> 'vk \<Rightarrow> 'sg \<Rightarrow> bytes \<Rightarrow> verified_facts \<Rightarrow>
     verified_facts \<times> (string, unit) result" where
  "verify_key env key signature input c = verify_with env (key_bytes env key) signature input (Ok key) c"

definition decode_exact :: "('vk, 'sg) sig_env \<Rightarrow> nat \<Rightarrow> string \<Rightarrow> (string, bytes) result" where
  "decode_exact env n s =
     (case hex_decode env s of
        None \<Rightarrow> Err ''hex''
      | Some b \<Rightarrow> if length b = n then Ok b else Err ''length'')"

definition verify_hex ::
    "('vk, 'sg) sig_env \<Rightarrow> string \<Rightarrow> string \<Rightarrow> bytes \<Rightarrow> verified_facts \<Rightarrow>
     verified_facts \<times> (string, unit) result" where
  "verify_hex env key signature input c =
     (case decode_exact env 32 key of
        Inl e \<Rightarrow> (c, Err e)
      | Inr kb \<Rightarrow>
          (case decode_exact env 64 signature of
             Inl e \<Rightarrow> (c, Err e)
           | Inr sb \<Rightarrow>
               (case sig_from_slice env sb of
                  None \<Rightarrow> (c, Err ''signature'')
                | Some sg \<Rightarrow>
                    verify_with env kb sg input (ok_or (key_from_bytes env kb) ''invalid key'') c)))"

text \<open>What a caller learns from a check, without the cache.\<close>

definition signature_ok :: "('vk, 'sg) sig_env \<Rightarrow> 'vk \<Rightarrow> 'sg \<Rightarrow> bytes \<Rightarrow> bool" where
  "signature_ok env key signature input = is_ok (signature_check env (Ok key) signature input)"

definition hex_signature_ok :: "('vk, 'sg) sig_env \<Rightarrow> string \<Rightarrow> string \<Rightarrow> bytes \<Rightarrow> bool" where
  "hex_signature_ok env key signature input =
     is_ok
       (and_then (decode_exact env 32 key) (\<lambda>kb.
        and_then (decode_exact env 64 signature) (\<lambda>sb.
        and_then (ok_or (sig_from_slice env sb) ''signature'') (\<lambda>sg.
          signature_check env (ok_or (key_from_bytes env kb) ''invalid key'') sg input))))"

section \<open>The cache is bounded\<close>

definition facts_wf :: "verified_facts \<Rightarrow> bool" where
  "facts_wf c \<longleftrightarrow> fact_keys c = set (fact_order c) \<and> distinct (fact_order c) \<and>
     length (fact_order c) \<le> CAPACITY"

lemma facts_wf_empty [wf_intros]: "facts_wf no_facts"
  by (simp add: facts_wf_def no_facts_def)

lemma facts_wf_remember [wf_intros]: "facts_wf c \<Longrightarrow> facts_wf (remember_fact f c)"
  by (cases "fact_order c") (auto simp: facts_wf_def remember_fact_def Let_def CAPACITY_def)

lemma facts_wf_cached [wf_intros]: "facts_wf c \<Longrightarrow> facts_wf (fst (verify_cached f check c))"
  by (auto simp: verify_cached_def intro: wf_intros split: sum.splits)

lemma remember_fact_subset: "fact_keys (remember_fact f c) \<subseteq> insert f (fact_keys c)"
  by (auto simp: remember_fact_def Let_def split: list.splits)

section \<open>The cache is transparent\<close>

text \<open>
  What the digest must give: different keys, signatures or inputs have different fingerprints, and
  a key's bytes determine the key.
\<close>

definition collision_free :: "('vk, 'sg) sig_env \<Rightarrow> bool" where
  "collision_free env \<longleftrightarrow>
     (\<forall>kb sg input kb' sg' input'. length kb = 32 \<longrightarrow> length kb' = 32 \<longrightarrow>
        fingerprint env kb sg input = fingerprint env kb' sg' input' \<longrightarrow>
        kb = kb' \<and> sg = sg' \<and> input = input') \<and>
     (\<forall>k. length (key_bytes env k) = 32 \<and> key_from_bytes env (key_bytes env k) = Some k)"

definition true_facts :: "('vk, 'sg) sig_env \<Rightarrow> verified_facts \<Rightarrow> bool" where
  "true_facts env c \<longleftrightarrow>
     (\<forall>kb sg input. length kb = 32 \<longrightarrow> fingerprint env kb sg input \<in> fact_keys c \<longrightarrow>
        is_ok (signature_check env (ok_or (key_from_bytes env kb) ''invalid key'') sg input))"

lemma true_facts_empty: "true_facts env no_facts"
  by (simp add: true_facts_def no_facts_def)

lemma verify_with_transparent:
  assumes "collision_free env" and "true_facts env c" and "length kb = 32"
    and key: "key = ok_or (key_from_bytes env kb) ''invalid key''"
  shows "snd (verify_with env kb sg input key c) = signature_check env key sg input"
    and "true_facts env (fst (verify_with env kb sg input key c))"
proof -
  show "snd (verify_with env kb sg input key c) = signature_check env key sg input"
    using assms
    by (fastforce simp: verify_with_def verify_cached_def true_facts_def is_ok_iff split: sum.splits)
  show "true_facts env (fst (verify_with env kb sg input key c))"
    unfolding true_facts_def
  proof (intro allI impI)
    fix kb' sg' input'
    assume len: "length kb' = 32"
      and inc: "fingerprint env kb' sg' input' \<in> fact_keys (fst (verify_with env kb sg input key c))"
    let ?ok = "is_ok (signature_check env (ok_or (key_from_bytes env kb') ''invalid key'') sg' input')"
    have "fingerprint env kb' sg' input' \<in> fact_keys c \<or>
        fingerprint env kb' sg' input' = fingerprint env kb sg input \<and>
        is_ok (signature_check env key sg input)"
      using inc remember_fact_subset [of "fingerprint env kb sg input" c]
      by (auto simp: verify_with_def verify_cached_def split: if_splits sum.splits)
    then show ?ok
    proof
      assume "fingerprint env kb' sg' input' \<in> fact_keys c"
      with assms(2) len show ?ok by (simp add: true_facts_def)
    next
      assume same: "fingerprint env kb' sg' input' = fingerprint env kb sg input \<and>
        is_ok (signature_check env key sg input)"
      then have "kb' = kb \<and> sg' = sg \<and> input' = input"
        using assms(1,3) len unfolding collision_free_def by blast
      with same show ?ok by (simp add: key)
    qed
  qed
qed

lemma verify_key_transparent:
  assumes "collision_free env" and "true_facts env c"
  shows "is_ok (snd (verify_key env k sg input c)) = signature_ok env k sg input"
    and "true_facts env (fst (verify_key env k sg input c))"
proof -
  have "length (key_bytes env k) = 32" and
    "(Ok k :: (string, _) result) = ok_or (key_from_bytes env (key_bytes env k)) ''invalid key''"
    using assms(1) by (simp_all add: collision_free_def)
  from verify_with_transparent [OF assms this]
  show "is_ok (snd (verify_key env k sg input c)) = signature_ok env k sg input"
    and "true_facts env (fst (verify_key env k sg input c))"
    by (simp_all add: verify_key_def signature_ok_def)
qed

lemma verify_hex_transparent:
  assumes "collision_free env" and "true_facts env c"
  shows "is_ok (snd (verify_hex env key sg input c)) = hex_signature_ok env key sg input"
    and "true_facts env (fst (verify_hex env key sg input c))"
  using assms(2) verify_with_transparent [OF assms, OF _ refl]
  by (auto simp: verify_hex_def hex_signature_ok_def decode_exact_def split: option.splits sum.splits)

text \<open>A sequence of checks through one cache: each key, signature and input with its answer.\<close>

fun check_all ::
    "('vk, 'sg) sig_env \<Rightarrow> ('vk \<times> 'sg \<times> bytes) list \<Rightarrow> verified_facts \<Rightarrow> verified_facts \<times> bool list" where
  "check_all env [] c = (c, [])"
| "check_all env ((k, sg, input) # qs) c =
     (let (c1, r) = verify_key env k sg input c; (c2, rs) = check_all env qs c1
      in (c2, is_ok r # rs))"

text \<open>
  The verification cache is invisible: starting from the empty cache, every sequence of checks
  gets exactly the answers the uncached check gives, and the cache ends well-formed with at most
  CAPACITY remembered digests.
\<close>

theorem verification_cache_transparent:
  assumes "collision_free env"
  shows "snd (check_all env qs no_facts) = map (\<lambda>(k, sg, input). signature_ok env k sg input) qs \<and>
    facts_wf (fst (check_all env qs no_facts))"
proof -
  have "facts_wf c \<Longrightarrow> true_facts env c \<Longrightarrow>
      snd (check_all env qs c) = map (\<lambda>(k, sg, input). signature_ok env k sg input) qs \<and>
      facts_wf (fst (check_all env qs c))" for c
  proof (induction qs arbitrary: c)
    case Nil
    then show ?case by simp
  next
    case (Cons q qs)
    obtain k sg input where q: "q = (k, sg, input)" by (cases q)
    have "facts_wf (fst (verify_key env k sg input c))"
      using Cons.prems by (simp add: verify_key_def verify_with_def facts_wf_cached)
    with Cons verify_key_transparent [OF assms Cons.prems(2), of k sg input] show ?case
      by (simp add: q split_beta Let_def)
  qed
  then show ?thesis using true_facts_empty facts_wf_empty by blast
qed

text \<open>A concrete scheme for the witness: one key, two signatures of which one is valid.\<close>

definition demo_sig_env :: "(unit, bool) sig_env" where
  "demo_sig_env =
     \<lparr>hex_decode = (\<lambda>s. Some (utf8_bytes s)), hex_encode = map (\<lambda>b. char_of (unat b)),
      key_from_bytes = (\<lambda>b. if b = replicate 32 0 then Some () else None),
      key_bytes = (\<lambda>_. replicate 32 0), key_is_weak = (\<lambda>_. False),
      sig_from_slice = (\<lambda>b. Some (b = [1])), sig_bytes = (\<lambda>s. [if s then 1 else 0]),
      verify_strict = (\<lambda>_ _ s. s), sha256 = (\<lambda>b. b)\<rparr>"

theorem verification_cache_transparent_witness:
  "snd (check_all demo_sig_env [((), True, [7]), ((), False, [7]), ((), True, [7])] no_facts) =
     [True, False, True]"
proof -
  have "collision_free demo_sig_env"
    by (auto simp: collision_free_def fingerprint_def demo_sig_env_def split: if_splits)
  from verification_cache_transparent [OF this, of "[((), True, [7]), ((), False, [7]), ((), True, [7])]"]
  show ?thesis by (simp add: signature_ok_def signature_check_def demo_sig_env_def)
qed

end
