(* ===== verification/Device_Roster.thy ===== *)
theory Device_Roster
  imports Signature_Verification "HOL-Library.Sublist"
begin

text \<open>
  The signed roster of a user's devices (\<open>device_link/roster.rs\<close>): an append-only chain of
  authorizations, each naming the digest of the chain before it and signed by a device that is
  current at that point; version 1 adds a device, version 2 removes one. The roster's
  \<open>OnceLock\<close> cache only memoises \<open>verify_devices\<close> of an immutable chain, so \<open>devices\<close> is the
  function itself. JSON encodings and signing are parameters (\<open>roster_env\<close>) beside those of
  \<open>sig_env\<close>.

  Shown here: a verified roster has at least one device, with distinct ids and peers; every later
  entry was signed by a then-current device; prefixes of a verified chain verify; extending and
  revoking change the device set exactly as asked and are recognised by the receiving side's
  checks; a removal after admission can never be undone for that admission.
\<close>

section \<open>Model\<close>

datatype device_link_error_kind = InvalidQr | Expired | Busy | Ineligible | CodeMismatch | Rejected
  | ConnectionLost | InvalidRoster | Storage | Unavailable

record device_descriptor =
  dd_device_id :: string
  dd_signing_public_key :: string
  dd_moss_peer_id :: string
  dd_name :: string

record authorization =
  au_version :: u32
  au_parent :: "string option"
  au_signer :: string
  au_device :: device_descriptor
  au_signature :: string

type_synonym device_roster = "authorization list"

record ('vk, 'sg, 'sk) roster_env =
  sigs :: "('vk, 'sg) sig_env"
  auth_json :: "u32 \<times> string option \<times> string \<times> device_descriptor \<Rightarrow> bytes option"
  roster_json :: "device_roster \<Rightarrow> bytes option"
  sign_with :: "'sk \<Rightarrow> bytes \<Rightarrow> 'sg"
  verifying_key :: "'sk \<Rightarrow> 'vk"

definition ROSTER_CONTEXT :: bytes where
  "ROSTER_CONTEXT = utf8_bytes ''mosh-device-roster-v1'' @ [0]"

definition REMOVAL_CONTEXT :: bytes where
  "REMOVAL_CONTEXT = utf8_bytes ''mosh-device-roster-remove-v2'' @ [0]"

definition DEVICE_CONTEXT :: bytes where
  "DEVICE_CONTEXT = utf8_bytes ''mosh-device-id-v1'' @ [0]"

definition ROSTER_VERSION :: u32 where
  "ROSTER_VERSION = 1"

definition REMOVAL_VERSION :: u32 where
  "REMOVAL_VERSION = 2"

definition DEFAULT_DEVICE_NAME :: string where
  "DEFAULT_DEVICE_NAME = ''Desktop''"

definition MAX_NAME_CHARS :: nat where
  "MAX_NAME_CHARS = 64"

abbreviation invalid :: device_link_error_kind where
  "invalid \<equiv> InvalidRoster"

definition public_key ::
    "('vk, 'sg, 'sk) roster_env \<Rightarrow> string \<Rightarrow> (device_link_error_kind, 'vk) result" where
  "public_key env hex_key =
     (case hex_decode (sigs env) hex_key of
        None \<Rightarrow> Err invalid
      | Some bs \<Rightarrow>
          if length bs \<noteq> 32 then Err invalid
          else
            (case key_from_bytes (sigs env) bs of
               None \<Rightarrow> Err invalid
             | Some key \<Rightarrow>
                 if key_is_weak (sigs env) key \<or> hex_encode (sigs env) bs \<noteq> hex_key then Err invalid
                 else Ok key))"

definition device_id :: "('vk, 'sg, 'sk) roster_env \<Rightarrow> 'vk \<Rightarrow> string" where
  "device_id env key =
     hex_encode (sigs env) (sha256 (sigs env) (DEVICE_CONTEXT @ key_bytes (sigs env) key))"

definition new_descriptor :: "('vk, 'sg, 'sk) roster_env \<Rightarrow> 'sk \<Rightarrow> string \<Rightarrow> device_descriptor" where
  "new_descriptor env key peer =
     \<lparr>dd_device_id = device_id env (verifying_key env key),
      dd_signing_public_key = hex_encode (sigs env) (key_bytes (sigs env) (verifying_key env key)),
      dd_moss_peer_id = peer, dd_name = DEFAULT_DEVICE_NAME\<rparr>"

definition validate_descriptor ::
    "('vk, 'sg, 'sk) roster_env \<Rightarrow> device_descriptor \<Rightarrow> (device_link_error_kind, unit) result" where
  "validate_descriptor env d =
     and_then (public_key env (dd_signing_public_key d)) (\<lambda>key.
       if dd_device_id d \<noteq> device_id env key \<or> dd_name d = [] \<or>
          MAX_NAME_CHARS < char_count (dd_name d) \<or> has_control (dd_name d)
       then Err invalid
       else and_then (public_key env (dd_moss_peer_id d)) (\<lambda>_. Ok ()))"

definition auth_bytes ::
    "('vk, 'sg, 'sk) roster_env \<Rightarrow> authorization \<Rightarrow> (device_link_error_kind, bytes) result" where
  "auth_bytes env e =
     and_then
       (if au_version e = ROSTER_VERSION then Ok ROSTER_CONTEXT
        else if au_version e = REMOVAL_VERSION then Ok REMOVAL_CONTEXT else Err invalid)
       (\<lambda>ctx. and_then
          (ok_or (auth_json env (au_version e, au_parent e, au_signer e, au_device e)) invalid)
          (\<lambda>json. Ok (ctx @ json)))"

definition signed ::
    "('vk, 'sg, 'sk) roster_env \<Rightarrow> u32 \<Rightarrow> string option \<Rightarrow> string \<Rightarrow> device_descriptor \<Rightarrow> 'sk \<Rightarrow>
     (device_link_error_kind, authorization) result" where
  "signed env version parent signer device key =
     (let entry = \<lparr>au_version = version, au_parent = parent, au_signer = signer,
                   au_device = device, au_signature = []\<rparr>
      in and_then (auth_bytes env entry) (\<lambda>bs.
           Ok (entry\<lparr>au_signature :=
             hex_encode (sigs env) (sig_bytes (sigs env) (sign_with env key bs))\<rparr>)))"

definition roster_digest ::
    "('vk, 'sg, 'sk) roster_env \<Rightarrow> device_roster \<Rightarrow> (device_link_error_kind, string) result" where
  "roster_digest env r =
     and_then (ok_or (roster_json env r) invalid) (\<lambda>json.
       Ok (hex_encode (sigs env) (sha256 (sigs env) (ROSTER_CONTEXT @ json))))"

text \<open>The key that must have signed the entry after the chain \<open>pre\<close> with devices \<open>ds\<close>.\<close>

definition authority ::
    "('vk, 'sg, 'sk) roster_env \<Rightarrow> device_roster \<Rightarrow> authorization \<Rightarrow> device_descriptor list \<Rightarrow>
     (device_link_error_kind, 'vk) result" where
  "authority env pre e ds =
     (if au_version e \<noteq> ROSTER_VERSION \<and> au_version e \<noteq> REMOVAL_VERSION then Err invalid
      else if pre = [] then
        (if au_version e \<noteq> ROSTER_VERSION \<or> au_parent e \<noteq> None \<or>
            au_signer e \<noteq> dd_device_id (au_device e)
         then Err invalid
         else public_key env (dd_signing_public_key (au_device e)))
      else
        and_then (roster_digest env pre) (\<lambda>dg.
          if au_parent e \<noteq> Some dg then Err invalid
          else
            (case find (\<lambda>d. dd_device_id d = au_signer e) ds of
               None \<Rightarrow> Err invalid
             | Some signer \<Rightarrow> public_key env (dd_signing_public_key signer))))"

definition check_signature ::
    "('vk, 'sg, 'sk) roster_env \<Rightarrow> 'vk \<Rightarrow> authorization \<Rightarrow> (device_link_error_kind, unit) result" where
  "check_signature env key e =
     (case hex_decode (sigs env) (au_signature e) of
        None \<Rightarrow> Err invalid
      | Some sb \<Rightarrow>
          (case sig_from_slice (sigs env) sb of
             None \<Rightarrow> Err invalid
           | Some sg \<Rightarrow>
               and_then (auth_bytes env e) (\<lambda>bs.
                 if signature_ok (sigs env) key sg bs then Ok () else Err invalid)))"

definition apply_entry ::
    "authorization \<Rightarrow> device_descriptor list \<Rightarrow> (device_link_error_kind, device_descriptor list) result" where
  "apply_entry e ds =
     (if au_version e = REMOVAL_VERSION then
        (if au_signer e = dd_device_id (au_device e) \<or> au_device e \<notin> set ds then Err invalid
         else Ok (filter (\<lambda>d. dd_device_id d \<noteq> dd_device_id (au_device e)) ds))
      else if \<exists>d \<in> set ds. dd_device_id d = dd_device_id (au_device e) \<or>
          dd_moss_peer_id d = dd_moss_peer_id (au_device e)
      then Err invalid
      else Ok (ds @ [au_device e]))"

definition verify_entry ::
    "('vk, 'sg, 'sk) roster_env \<Rightarrow> device_roster \<Rightarrow> authorization \<Rightarrow> device_descriptor list \<Rightarrow>
     (device_link_error_kind, device_descriptor list) result" where
  "verify_entry env pre e ds =
     and_then (validate_descriptor env (au_device e)) (\<lambda>_.
     and_then (authority env pre e ds) (\<lambda>key.
     and_then (check_signature env key e) (\<lambda>_. apply_entry e ds)))"

fun verify_entries ::
    "('vk, 'sg, 'sk) roster_env \<Rightarrow> device_roster \<Rightarrow> device_descriptor list \<Rightarrow> device_roster \<Rightarrow>
     (device_link_error_kind, device_descriptor list) result" where
  "verify_entries env pre ds [] = Ok ds"
| "verify_entries env pre ds (e # es) =
     and_then (verify_entry env pre e ds) (\<lambda>ds'. verify_entries env (pre @ [e]) ds' es)"

definition devices ::
    "('vk, 'sg, 'sk) roster_env \<Rightarrow> device_roster \<Rightarrow>
     (device_link_error_kind, device_descriptor list) result" where
  "devices env r = (if r = [] then Err invalid else verify_entries env [] [] r)"

definition extends ::
    "('vk, 'sg, 'sk) roster_env \<Rightarrow> device_roster \<Rightarrow> device_roster \<Rightarrow>
     (device_link_error_kind, bool) result" where
  "extends env r base = and_then (devices env r) (\<lambda>_. Ok (prefix base r))"

definition with_entry ::
    "('vk, 'sg, 'sk) roster_env \<Rightarrow> device_roster \<Rightarrow> authorization \<Rightarrow>
     (device_link_error_kind, device_roster) result" where
  "with_entry env r e = and_then (devices env (r @ [e])) (\<lambda>_. Ok (r @ [e]))"

definition genesis ::
    "('vk, 'sg, 'sk) roster_env \<Rightarrow> device_descriptor \<Rightarrow> 'sk \<Rightarrow>
     (device_link_error_kind, device_roster) result" where
  "genesis env device key =
     and_then (signed env ROSTER_VERSION None (dd_device_id device) device key) (\<lambda>e.
     and_then (devices env [e]) (\<lambda>_. Ok [e]))"

definition user_id :: "device_roster \<Rightarrow> string" where
  "user_id r = (case r of [] \<Rightarrow> [] | e # _ \<Rightarrow> dd_signing_public_key (au_device e))"

definition extend ::
    "('vk, 'sg, 'sk) roster_env \<Rightarrow> device_roster \<Rightarrow> device_descriptor \<Rightarrow> 'sk \<Rightarrow>
     (device_link_error_kind, device_roster) result" where
  "extend env r device key =
     and_then (roster_digest env r) (\<lambda>dg.
     and_then (signed env ROSTER_VERSION (Some dg) (device_id env (verifying_key env key)) device key)
       (with_entry env r))"

definition revoke ::
    "('vk, 'sg, 'sk) roster_env \<Rightarrow> device_roster \<Rightarrow> string \<Rightarrow> 'sk \<Rightarrow>
     (device_link_error_kind, device_roster) result" where
  "revoke env r target key =
     and_then (devices env r) (\<lambda>ds.
     and_then (ok_or (find (\<lambda>d. dd_device_id d = target) ds) invalid) (\<lambda>device.
     and_then (roster_digest env r) (\<lambda>dg.
     and_then (signed env REMOVAL_VERSION (Some dg) (device_id env (verifying_key env key)) device key)
       (with_entry env r))))"

definition known_device ::
    "('vk, 'sg, 'sk) roster_env \<Rightarrow> device_roster \<Rightarrow> string \<Rightarrow>
     (device_link_error_kind, device_descriptor option) result" where
  "known_device env r i =
     and_then (devices env r) (\<lambda>_.
       Ok (map_option au_device (find (\<lambda>e. dd_device_id (au_device e) = i) (rev r))))"

definition is_removal_of :: "string \<Rightarrow> authorization \<Rightarrow> bool" where
  "is_removal_of target e \<longleftrightarrow>
     au_version e = REMOVAL_VERSION \<and> dd_device_id (au_device e) = target"

fun collect_removed :: "device_descriptor list \<Rightarrow> device_roster \<Rightarrow> device_descriptor list" where
  "collect_removed removed [] = removed"
| "collect_removed removed (e # es) =
     collect_removed
       (if \<exists>d \<in> set removed. dd_device_id d = dd_device_id (au_device e) then removed
        else removed @ [au_device e]) es"

definition removal_targets ::
    "('vk, 'sg, 'sk) roster_env \<Rightarrow> device_roster \<Rightarrow>
     (device_link_error_kind, device_descriptor list) result" where
  "removal_targets env r =
     and_then (devices env r) (\<lambda>_.
       Ok (collect_removed [] (filter (\<lambda>e. au_version e = REMOVAL_VERSION) (rev r))))"

definition removal_author ::
    "('vk, 'sg, 'sk) roster_env \<Rightarrow> device_roster \<Rightarrow> string \<Rightarrow>
     (device_link_error_kind, string option) result" where
  "removal_author env r target =
     and_then (devices env r) (\<lambda>_. Ok (map_option au_signer (find (is_removal_of target) (rev r))))"

definition revoked_since ::
    "('vk, 'sg, 'sk) roster_env \<Rightarrow> device_roster \<Rightarrow> device_roster \<Rightarrow> string \<Rightarrow>
     (device_link_error_kind, bool) result" where
  "revoked_since env r admission target =
     and_then (extends env r admission) (\<lambda>ok.
       if \<not> ok then Err invalid
       else Ok (\<exists>e \<in> set (drop (length admission) r). is_removal_of target e))"

definition authorizes_admitted ::
    "('vk, 'sg, 'sk) roster_env \<Rightarrow> device_roster \<Rightarrow> device_roster \<Rightarrow> device_descriptor \<Rightarrow>
     (device_link_error_kind, bool) result" where
  "authorizes_admitted env r admission device =
     and_then (revoked_since env r admission (dd_device_id device)) (\<lambda>revoked.
       if revoked then Ok False
       else and_then (devices env r) (\<lambda>ds. Ok (device \<in> set ds)))"

definition has_removal_since ::
    "('vk, 'sg, 'sk) roster_env \<Rightarrow> device_roster \<Rightarrow> device_roster \<Rightarrow>
     (device_link_error_kind, bool) result" where
  "has_removal_since env r base =
     and_then (extends env r base) (\<lambda>ok.
       if \<not> ok then Err invalid
       else Ok (\<exists>e \<in> set (drop (length base) r). au_version e = REMOVAL_VERSION))"

fun position :: "('a \<Rightarrow> bool) \<Rightarrow> 'a list \<Rightarrow> nat option" where
  "position P [] = None"
| "position P (x # xs) = (if P x then Some 0 else map_option Suc (position P xs))"

definition first_removal_since ::
    "('vk, 'sg, 'sk) roster_env \<Rightarrow> device_roster \<Rightarrow> device_roster \<Rightarrow> string \<Rightarrow>
     (device_link_error_kind, device_roster option) result" where
  "first_removal_since env r admission target =
     and_then (extends env r admission) (\<lambda>ok.
       if \<not> ok then Err invalid
       else Ok (map_option (\<lambda>index. take (Suc (length admission + index)) r)
              (position (is_removal_of target) (drop (length admission) r))))"

definition verifies_removal_extension ::
    "('vk, 'sg, 'sk) roster_env \<Rightarrow> device_roster \<Rightarrow> device_roster \<Rightarrow> string \<Rightarrow> string \<Rightarrow>
     (device_link_error_kind, unit) result" where
  "verifies_removal_extension env r base target signer =
     (if r = [] then Err invalid
      else
        and_then (extends env r base) (\<lambda>ok.
          if \<not> ok \<or> au_version (last r) \<noteq> REMOVAL_VERSION \<or>
             dd_device_id (au_device (last r)) \<noteq> target \<or> au_signer (last r) \<noteq> signer
          then Err invalid else Ok ()))"

definition verifies_removal ::
    "('vk, 'sg, 'sk) roster_env \<Rightarrow> device_roster \<Rightarrow> device_roster \<Rightarrow> string \<Rightarrow> string \<Rightarrow>
     (device_link_error_kind, unit) result" where
  "verifies_removal env r base target signer =
     and_then (verifies_removal_extension env r base target signer) (\<lambda>_.
     and_then (devices env base) (\<lambda>ds.
       if au_device (last r) \<in> set ds then Ok () else Err invalid))"

definition verifies_addition ::
    "('vk, 'sg, 'sk) roster_env \<Rightarrow> device_roster \<Rightarrow> device_roster \<Rightarrow> device_descriptor \<Rightarrow> string \<Rightarrow>
     (device_link_error_kind, unit) result" where
  "verifies_addition env r base device signer =
     and_then (devices env r) (\<lambda>_.
       if r = [] then Err invalid
       else if au_version (last r) \<noteq> ROSTER_VERSION then Err invalid
       else
         and_then (roster_digest env (butlast r)) (\<lambda>dp.
         and_then (roster_digest env base) (\<lambda>db.
           if dp \<noteq> db \<or> au_device (last r) \<noteq> device \<or> au_signer (last r) \<noteq> signer
           then Err invalid else Ok ())))"

section \<open>Verified chains\<close>

lemma version_neq [simp]: "ROSTER_VERSION \<noteq> REMOVAL_VERSION" "REMOVAL_VERSION \<noteq> ROSTER_VERSION"
  by (simp_all add: ROSTER_VERSION_def REMOVAL_VERSION_def)

lemma verify_entries_append:
  "verify_entries env pre ds (es @ fs) =
     and_then (verify_entries env pre ds es) (\<lambda>ds'. verify_entries env (pre @ es) ds' fs)"
proof (induction es arbitrary: pre ds)
  case Nil
  then show ?case by simp
next
  case (Cons e es)
  then show ?case by (cases "verify_entry env pre e ds") simp_all
qed

lemma verify_entry_OkE:
  assumes "verify_entry env pre e ds = Ok ds'"
  obtains key where "validate_descriptor env (au_device e) = Ok ()" and "authority env pre e ds = Ok key"
    and "check_signature env key e = Ok ()" and "apply_entry e ds = Ok ds'"
  using assms by (auto simp: verify_entry_def and_then_Ok_iff)

lemma authority_signer:
  assumes "authority env pre e ds = Ok key" and "pre \<noteq> []"
  obtains d where "d \<in> set ds" and "dd_device_id d = au_signer e"
    and "public_key env (dd_signing_public_key d) = Ok key" and "roster_digest env pre = Ok (the (au_parent e))"
    and "au_parent e \<noteq> None"
  using assms
  by (auto simp: authority_def and_then_Ok_iff split: if_splits option.splits dest: find_SomeD)

lemma authority_genesis:
  "authority env [] e ds = Ok key \<Longrightarrow>
   au_version e = ROSTER_VERSION \<and> au_parent e = None \<and> au_signer e = dd_device_id (au_device e)"
  by (auto simp: authority_def split: if_splits)

definition devices_wf :: "device_descriptor list \<Rightarrow> bool" where
  "devices_wf ds \<longleftrightarrow> distinct (map dd_device_id ds) \<and> distinct (map dd_moss_peer_id ds)"

lemma apply_entry_removes:
  "apply_entry e ds = Ok ds' \<Longrightarrow> au_version e = REMOVAL_VERSION \<Longrightarrow>
   au_signer e \<noteq> dd_device_id (au_device e) \<and> au_device e \<in> set ds \<and>
   ds' = filter (\<lambda>d. dd_device_id d \<noteq> dd_device_id (au_device e)) ds"
  by (simp add: apply_entry_def split: if_split_asm)

lemma apply_entry_adds:
  "apply_entry e ds = Ok ds' \<Longrightarrow> au_version e \<noteq> REMOVAL_VERSION \<Longrightarrow> ds' = ds @ [au_device e]"
  by (simp add: apply_entry_def split: if_split_asm)

lemma apply_entry_nonempty:
  assumes "apply_entry e ds = Ok ds'" and "d \<in> set ds" and "dd_device_id d = au_signer e"
  shows "ds' \<noteq> []"
proof (cases "au_version e = REMOVAL_VERSION")
  case True
  with apply_entry_removes [OF assms(1)] assms(2,3) have "d \<in> set ds'" by simp
  then show ?thesis by auto
next
  case False
  with apply_entry_adds [OF assms(1)] show ?thesis by simp
qed

lemma apply_entry_wf: "apply_entry e ds = Ok ds' \<Longrightarrow> devices_wf ds \<Longrightarrow> devices_wf ds'"
  by (fastforce simp: apply_entry_def devices_wf_def distinct_map_filter split: if_splits)

text \<open>The step that keeps a roster alive: a removal is signed by a device it does not remove.\<close>

lemma verify_entry_wf:
  assumes "verify_entry env pre e ds = Ok ds'" and "devices_wf ds" and "pre = [] \<longleftrightarrow> ds = []"
  shows "devices_wf ds' \<and> ds' \<noteq> []"
proof -
  from assms(1) obtain key where auth: "authority env pre e ds = Ok key" and app: "apply_entry e ds = Ok ds'"
    by (rule verify_entry_OkE)
  from app assms(2) have "devices_wf ds'" by (rule apply_entry_wf)
  moreover have "ds' \<noteq> []"
  proof (cases "pre = []")
    case True
    with auth have "au_version e = ROSTER_VERSION" using authority_genesis [of env e ds key] by simp
    with apply_entry_adds [OF app] show ?thesis by simp
  next
    case False
    with auth obtain d where "d \<in> set ds" and "dd_device_id d = au_signer e"
      by (rule authority_signer)
    with app show ?thesis by (rule apply_entry_nonempty)
  qed
  ultimately show ?thesis by simp
qed

lemma verify_entries_wf:
  "verify_entries env pre ds es = Ok ds' \<Longrightarrow> devices_wf ds \<Longrightarrow> (pre = [] \<longleftrightarrow> ds = []) \<Longrightarrow>
   devices_wf ds' \<and> (pre @ es = [] \<longleftrightarrow> ds' = [])"
proof (induction es arbitrary: pre ds)
  case Nil
  then show ?case by simp
next
  case (Cons e es)
  then obtain ds1 where step: "verify_entry env pre e ds = Ok ds1"
    and rest: "verify_entries env (pre @ [e]) ds1 es = Ok ds'"
    by (auto simp: and_then_Ok_iff)
  from verify_entry_wf [OF step Cons.prems(2,3)] Cons.IH [OF rest] show ?case by simp
qed

lemma devices_Ok_iff: "devices env r = Ok ds \<longleftrightarrow> r \<noteq> [] \<and> verify_entries env [] [] r = Ok ds"
  by (simp add: devices_def)

lemma devices_Ok_wf: "devices env r = Ok ds \<Longrightarrow> devices_wf ds \<and> ds \<noteq> []"
  using verify_entries_wf [of env "[]" "[]" r ds] by (auto simp: devices_Ok_iff devices_wf_def)

lemma verify_entry_valid:
  assumes "verify_entry env pre e ds = Ok ds'" and "\<forall>d \<in> set ds. validate_descriptor env d = Ok ()"
  shows "\<forall>d \<in> set ds'. validate_descriptor env d = Ok ()"
  using assms by (auto simp: verify_entry_def apply_entry_def and_then_Ok_iff split: if_splits)

lemma verify_entries_valid:
  "verify_entries env pre ds es = Ok ds' \<Longrightarrow> \<forall>d \<in> set ds. validate_descriptor env d = Ok () \<Longrightarrow>
   \<forall>d \<in> set ds'. validate_descriptor env d = Ok ()"
  by (induction es arbitrary: pre ds) (auto simp: and_then_Ok_iff dest: verify_entry_valid)

lemma devices_valid: "devices env r = Ok ds \<Longrightarrow> d \<in> set ds \<Longrightarrow> validate_descriptor env d = Ok ()"
  using verify_entries_valid [of env "[]" "[]" r ds] by (simp add: devices_Ok_iff)

lemma devices_snoc:
  assumes "r \<noteq> []"
  shows "devices env (r @ [e]) = and_then (devices env r) (verify_entry env r e)"
  using assms by (cases "verify_entries env [] [] r") (auto simp: devices_def verify_entries_append)

lemma devices_prefix:
  assumes "devices env (p @ q) = Ok ds" and "p \<noteq> []"
  obtains dp where "devices env p = Ok dp" and "verify_entries env p dp q = Ok ds"
  using assms by (auto simp: devices_Ok_iff verify_entries_append and_then_Ok_iff)

lemma entry_authority:
  assumes "devices env (p @ e # q) = Ok ds" and "p \<noteq> []"
  obtains dp d key where "devices env p = Ok dp" and "d \<in> set dp" and "dd_device_id d = au_signer e"
    and "public_key env (dd_signing_public_key d) = Ok key" and "check_signature env key e = Ok ()"
    and "roster_digest env p = Ok (the (au_parent e))"
proof -
  from assms obtain dp where dp: "devices env p = Ok dp" and "verify_entries env p dp (e # q) = Ok ds"
    by (rule devices_prefix)
  then obtain ds1 where "verify_entry env p e dp = Ok ds1" by (auto simp: and_then_Ok_iff)
  then obtain key where auth: "authority env p e dp = Ok key" and sg: "check_signature env key e = Ok ()"
    by (rule verify_entry_OkE)
  from auth assms(2) obtain d where "d \<in> set dp" and "dd_device_id d = au_signer e"
    and "public_key env (dd_signing_public_key d) = Ok key" and "roster_digest env p = Ok (the (au_parent e))"
    by (rule authority_signer)
  with dp sg show ?thesis by (intro that)
qed

section \<open>Membership along the chain\<close>

lemma apply_entry_removal:
  "apply_entry e ds = Ok ds' \<Longrightarrow> is_removal_of t e \<Longrightarrow> t \<notin> dd_device_id ` set ds'"
  using apply_entry_removes [of e ds ds'] by (auto simp: is_removal_of_def)

lemma apply_entry_absent:
  "apply_entry e ds = Ok ds' \<Longrightarrow> t \<notin> dd_device_id ` set ds \<Longrightarrow>
   (au_version e = ROSTER_VERSION \<longrightarrow> dd_device_id (au_device e) \<noteq> t) \<Longrightarrow>
   au_version e = ROSTER_VERSION \<or> au_version e = REMOVAL_VERSION \<Longrightarrow> t \<notin> dd_device_id ` set ds'"
  using apply_entry_removes [of e ds ds'] apply_entry_adds [of e ds ds'] by auto

lemma authority_version:
  "authority env pre e ds = Ok key \<Longrightarrow> au_version e = ROSTER_VERSION \<or> au_version e = REMOVAL_VERSION"
  by (auto simp: authority_def split: if_splits)

lemma verify_entries_absent:
  "verify_entries env pre ds es = Ok ds' \<Longrightarrow> t \<notin> dd_device_id ` set ds \<Longrightarrow>
   \<forall>e \<in> set es. au_version e = ROSTER_VERSION \<longrightarrow> dd_device_id (au_device e) \<noteq> t \<Longrightarrow>
   t \<notin> dd_device_id ` set ds'"
proof (induction es arbitrary: pre ds)
  case Nil
  then show ?case by simp
next
  case (Cons e es)
  then obtain ds1 where step: "verify_entry env pre e ds = Ok ds1"
    and rest: "verify_entries env (pre @ [e]) ds1 es = Ok ds'"
    by (auto simp: and_then_Ok_iff)
  from step obtain key where "authority env pre e ds = Ok key" and app: "apply_entry e ds = Ok ds1"
    by (rule verify_entry_OkE)
  then have "au_version e = ROSTER_VERSION \<or> au_version e = REMOVAL_VERSION"
    by (intro authority_version)
  with Cons.prems(3) have "t \<notin> dd_device_id ` set ds1"
    by (intro apply_entry_absent [OF app Cons.prems(2)]) simp_all
  then show ?case using Cons.prems(3) by (intro Cons.IH [OF rest]) simp_all
qed

lemma removed_absent:
  assumes "devices env (p @ e # m) = Ok ds" and "p \<noteq> []" and "is_removal_of t e"
    and "\<forall>a \<in> set m. au_version a = ROSTER_VERSION \<longrightarrow> dd_device_id (au_device a) \<noteq> t"
  shows "t \<notin> dd_device_id ` set ds"
proof -
  from assms(1,2) obtain dp where "verify_entries env p dp (e # m) = Ok ds"
    by (rule devices_prefix)
  then obtain ds1 where step: "verify_entry env p e dp = Ok ds1"
    and rest: "verify_entries env (p @ [e]) ds1 m = Ok ds"
    by (auto simp: and_then_Ok_iff)
  from step have "apply_entry e dp = Ok ds1" by (rule verify_entry_OkE)
  then have "t \<notin> dd_device_id ` set ds1" using assms(3) by (rule apply_entry_removal)
  then show ?thesis using assms(4) by (rule verify_entries_absent [OF rest])
qed

lemma removal_not_genesis:
  assumes "devices env (p @ e # q) = Ok ds" and "is_removal_of t e"
  shows "p \<noteq> []"
proof
  assume "p = []"
  with assms(1) obtain key where "authority env [] e [] = Ok key"
    by (auto simp: devices_Ok_iff and_then_Ok_iff elim: verify_entry_OkE)
  with assms(2) show False using authority_genesis by (fastforce simp: is_removal_of_def)
qed

section \<open>Changing a roster\<close>

lemma signed_fields:
  assumes "signed env v parent signer d k = Ok e"
  shows "au_version e = v" "au_parent e = parent" "au_signer e = signer" "au_device e = d"
  using assms by (auto simp: signed_def Let_def and_then_Ok_iff)

lemma with_entry_Ok_iff:
  "with_entry env r e = Ok r' \<longleftrightarrow> (\<exists>ds. devices env (r @ [e]) = Ok ds) \<and> r' = r @ [e]"
  by (auto simp: with_entry_def and_then_Ok_iff)

lemma extend_OkE:
  assumes "extend env r d k = Ok r'"
  obtains dg e where "roster_digest env r = Ok dg"
    and "signed env ROSTER_VERSION (Some dg) (device_id env (verifying_key env k)) d k = Ok e"
    and "r' = r @ [e]" and "\<exists>ds. devices env (r @ [e]) = Ok ds"
  using assms by (auto simp: extend_def and_then_Ok_iff with_entry_Ok_iff)

lemma revoke_OkE:
  assumes "revoke env r t k = Ok r'"
  obtains ds d dg e where "devices env r = Ok ds" and "find (\<lambda>d. dd_device_id d = t) ds = Some d"
    and "roster_digest env r = Ok dg"
    and "signed env REMOVAL_VERSION (Some dg) (device_id env (verifying_key env k)) d k = Ok e"
    and "r' = r @ [e]" and "\<exists>ds. devices env (r @ [e]) = Ok ds"
  using assms by (auto simp: revoke_def and_then_Ok_iff with_entry_Ok_iff)

lemma devices_snoc_apply:
  assumes "devices env (r @ [e]) = Ok ds'" and "r \<noteq> []"
  obtains ds where "devices env r = Ok ds" and "apply_entry e ds = Ok ds'"
  using assms by (auto simp: devices_snoc and_then_Ok_iff elim: verify_entry_OkE)

lemma extends_Ok_iff: "extends env r b = Ok x \<longleftrightarrow> (\<exists>ds. devices env r = Ok ds) \<and> x = prefix b r"
  by (auto simp: extends_def and_then_Ok_iff)

lemma revoked_since_extension:
  assumes "revoked_since env r admission t = Ok True" and "prefix r r'" and "devices env r' = Ok ds"
  shows "revoked_since env r' admission t = Ok True"
proof -
  from assms(1) have adm: "prefix admission r"
    and rem: "\<exists>e \<in> set (drop (length admission) r). is_removal_of t e"
    by (auto simp: revoked_since_def and_then_Ok_iff extends_Ok_iff split: if_splits)
  from assms(2) obtain s where r': "r' = r @ s" by (auto simp: prefix_def)
  have "prefix admission r'" using adm by (simp add: r')
  moreover have "set (drop (length admission) r) \<subseteq> set (drop (length admission) r')"
    using adm prefix_length_le by (fastforce simp: r')
  ultimately show ?thesis
    using rem assms(3) by (auto simp: revoked_since_def extends_def)
qed

text \<open>Signing laws of the primitives: what the code relies on to sign and read back its own entries.\<close>

definition signing_laws :: "('vk, 'sg, 'sk) roster_env \<Rightarrow> bool" where
  "signing_laws env \<longleftrightarrow>
     (\<forall>k bs. signature_ok (sigs env) (verifying_key env k) (sign_with env k bs) bs) \<and>
     (\<forall>bs. hex_decode (sigs env) (hex_encode (sigs env) bs) = Some bs) \<and>
     (\<forall>sg. sig_from_slice (sigs env) (sig_bytes (sigs env) sg) = Some sg) \<and>
     (\<forall>x. auth_json env x \<noteq> None) \<and> (\<forall>x. roster_json env x \<noteq> None)"

lemma auth_bytes_signature [simp]: "auth_bytes env (e\<lparr>au_signature := x\<rparr>) = auth_bytes env e"
  by (simp add: auth_bytes_def)

lemma auth_bytes_total:
  assumes "signing_laws env" and "au_version e = ROSTER_VERSION \<or> au_version e = REMOVAL_VERSION"
  obtains bs where "auth_bytes env e = Ok bs"
proof -
  obtain json where "auth_json env (au_version e, au_parent e, au_signer e, au_device e) = Some json"
    using assms(1) unfolding signing_laws_def by blast
  with assms(2) that show ?thesis by (auto simp: auth_bytes_def)
qed

lemma roster_digest_total:
  assumes "signing_laws env"
  obtains dg where "roster_digest env r = Ok dg"
proof -
  obtain json where "roster_json env r = Some json"
    using assms unfolding signing_laws_def by blast
  with that show ?thesis by (simp add: roster_digest_def)
qed

lemma signed_verifies:
  assumes "signing_laws env" and "v = ROSTER_VERSION \<or> v = REMOVAL_VERSION"
  obtains e where "signed env v parent signer d k = Ok e"
    and "check_signature env (verifying_key env k) e = Ok ()"
proof -
  let ?e0 = "\<lparr>au_version = v, au_parent = parent, au_signer = signer, au_device = d, au_signature = []\<rparr>"
  obtain bs where bs: "auth_bytes env ?e0 = Ok bs"
    using auth_bytes_total [OF assms(1), of ?e0] assms(2) by auto
  let ?e = "?e0\<lparr>au_signature := hex_encode (sigs env) (sig_bytes (sigs env) (sign_with env k bs))\<rparr>"
  have "signed env v parent signer d k = Ok ?e"
    unfolding signed_def Let_def bs by simp
  moreover have "auth_bytes env ?e = Ok bs"
    unfolding auth_bytes_signature by (rule bs)
  then have "check_signature env (verifying_key env k) ?e = Ok ()"
    using assms(1) by (simp add: check_signature_def signing_laws_def)
  ultimately show ?thesis by (rule that)
qed

lemma find_device:
  assumes "devices_wf ds" and "y \<in> set ds"
  shows "find (\<lambda>x. dd_device_id x = dd_device_id y) ds = Some y"
proof (cases "find (\<lambda>x. dd_device_id x = dd_device_id y) ds")
  case None
  with assms(2) show ?thesis by (auto simp: find_None_iff)
next
  case (Some z)
  moreover have "inj_on dd_device_id (set ds)"
    using assms(1) by (simp add: devices_wf_def distinct_map)
  ultimately show ?thesis using assms(2) by (auto dest!: find_SomeD simp: inj_on_def)
qed

text \<open>A current device can append any entry whose effect on the device list is allowed.\<close>

definition holds_key ::
    "('vk, 'sg, 'sk) roster_env \<Rightarrow> device_descriptor \<Rightarrow> 'sk \<Rightarrow> bool" where
  "holds_key env s k \<longleftrightarrow> dd_device_id s = device_id env (verifying_key env k) \<and>
     public_key env (dd_signing_public_key s) = Ok (verifying_key env k)"

lemma append_signed:
  assumes laws: "signing_laws env" and ds: "devices env r = Ok ds"
    and s: "s \<in> set ds" "holds_key env s k"
    and v: "v = ROSTER_VERSION \<or> v = REMOVAL_VERSION"
    and valid: "validate_descriptor env d = Ok ()"
    and app: "\<And>e. au_version e = v \<Longrightarrow> au_signer e = dd_device_id s \<Longrightarrow> au_device e = d \<Longrightarrow>
      apply_entry e ds = Ok ds'"
  obtains dg e where "roster_digest env r = Ok dg"
    and "signed env v (Some dg) (device_id env (verifying_key env k)) d k = Ok e"
    and "devices env (r @ [e]) = Ok ds'"
proof -
  have r: "r \<noteq> []" using ds by (simp add: devices_Ok_iff)
  obtain dg where dg: "roster_digest env r = Ok dg"
    by (rule roster_digest_total [OF laws])
  obtain e where e: "signed env v (Some dg) (device_id env (verifying_key env k)) d k = Ok e"
    and sg: "check_signature env (verifying_key env k) e = Ok ()"
    using signed_verifies [OF laws v] by blast
  note f = signed_fields [OF e]
  have "authority env r e ds = Ok (verifying_key env k)"
    using r dg f v find_device [OF _ s(1)] devices_Ok_wf [OF ds] s(2)
    by (simp add: authority_def holds_key_def)
  moreover have "apply_entry e ds = Ok ds'"
    using app f s(2) by (simp add: holds_key_def)
  ultimately have "devices env (r @ [e]) = Ok ds'"
    using r ds f valid sg by (simp add: devices_snoc verify_entry_def)
  with dg e show ?thesis by (rule that)
qed

lemma revoke_succeeds:
  assumes "signing_laws env" and "devices env r = Ok ds" and "s \<in> set ds" and "holds_key env s k"
    and "d \<in> set ds" and "dd_device_id d \<noteq> dd_device_id s" and "validate_descriptor env d = Ok ()"
  shows "\<exists>r'. revoke env r (dd_device_id d) k = Ok r' \<and>
    devices env r' = Ok (filter (\<lambda>x. dd_device_id x \<noteq> dd_device_id d) ds)"
proof (rule append_signed [OF assms(1-4) _ assms(7), of REMOVAL_VERSION
      "filter (\<lambda>x. dd_device_id x \<noteq> dd_device_id d) ds"])
  show "REMOVAL_VERSION = ROSTER_VERSION \<or> REMOVAL_VERSION = REMOVAL_VERSION" by simp
  show "apply_entry e ds = Ok (filter (\<lambda>x. dd_device_id x \<noteq> dd_device_id d) ds)"
    if "au_version e = REMOVAL_VERSION" "au_signer e = dd_device_id s" "au_device e = d" for e
    using that assms(5,6) by (simp add: apply_entry_def)
qed (use assms(2) find_device [OF _ assms(5)] devices_Ok_wf [OF assms(2)] in
    \<open>simp add: revoke_def with_entry_def\<close>)

lemma extend_succeeds:
  assumes "signing_laws env" and "devices env r = Ok ds" and "s \<in> set ds" and "holds_key env s k"
    and "\<forall>x \<in> set ds. dd_device_id x \<noteq> dd_device_id d \<and> dd_moss_peer_id x \<noteq> dd_moss_peer_id d"
    and "validate_descriptor env d = Ok ()"
  shows "\<exists>r'. extend env r d k = Ok r' \<and> devices env r' = Ok (ds @ [d])"
proof (rule append_signed [OF assms(1-4) _ assms(6), of ROSTER_VERSION "ds @ [d]"])
  show "ROSTER_VERSION = ROSTER_VERSION \<or> ROSTER_VERSION = REMOVAL_VERSION" by simp
  show "apply_entry e ds = Ok (ds @ [d])"
    if "au_version e = ROSTER_VERSION" "au_signer e = dd_device_id s" "au_device e = d" for e
    using that assms(5) by (simp add: apply_entry_def)
qed (simp add: extend_def with_entry_def)

lemma genesis_succeeds:
  assumes "signing_laws env" and "holds_key env d k" and "validate_descriptor env d = Ok ()"
  shows "\<exists>r. genesis env d k = Ok r \<and> devices env r = Ok [d]"
proof -
  obtain e where e: "signed env ROSTER_VERSION None (dd_device_id d) d k = Ok e"
    and sg: "check_signature env (verifying_key env k) e = Ok ()"
    using signed_verifies [OF assms(1), of ROSTER_VERSION] by blast
  note f = signed_fields [OF e]
  have "devices env [e] = Ok [d]"
    using f sg assms(2,3)
    by (simp add: devices_def verify_entry_def authority_def apply_entry_def holds_key_def)
  with e show ?thesis by (simp add: genesis_def)
qed

section \<open>Properties\<close>

text \<open>
  A concrete scheme for the witnesses: keys are byte strings, a signature is the key followed by
  the message, hex and SHA-256 keep their input.
\<close>

definition demo_roster_env :: "(bytes, bytes, bytes) roster_env" where
  "demo_roster_env =
     \<lparr>sigs = \<lparr>hex_decode = (\<lambda>s. Some (utf8_bytes s)), hex_encode = map (\<lambda>b. char_of (unat b)),
        key_from_bytes = Some, key_bytes = (\<lambda>k. k), key_is_weak = (\<lambda>_. False),
        sig_from_slice = Some, sig_bytes = (\<lambda>s. s), verify_strict = (\<lambda>k m s. s = k @ m),
        sha256 = (\<lambda>b. b)\<rparr>,
      auth_json = (\<lambda>_. Some []), roster_json = (\<lambda>r. Some [of_nat (length r)]),
      sign_with = (\<lambda>k m. k @ m), verifying_key = (\<lambda>k. k)\<rparr>"

abbreviation demo_key :: "byte \<Rightarrow> bytes" where
  "demo_key x \<equiv> replicate 32 x"

definition demo_device :: "byte \<Rightarrow> device_descriptor" where
  "demo_device x = new_descriptor demo_roster_env (demo_key x)
     (hex_encode (sigs demo_roster_env) (demo_key (x + 100)))"

lemma demo_hex: "utf8_bytes (map (\<lambda>b. char_of (unat b)) bs) = (bs :: bytes)"
proof -
  have "(of_nat (of_char (char_of (unat b) :: char)) :: byte) = b" for b :: byte
    using unsigned_less [of b, where 'a = nat] by (simp add: of_char_of)
  then show ?thesis by (simp add: utf8_bytes_def comp_def)
qed

lemma demo_signing_laws: "signing_laws demo_roster_env"
  by (simp add: signing_laws_def demo_roster_env_def signature_ok_def signature_check_def demo_hex)

lemma demo_public_key:
  "length k = 32 \<Longrightarrow> public_key demo_roster_env (map (\<lambda>b. char_of (unat b)) k) = Ok k"
  by (simp add: public_key_def demo_roster_env_def demo_hex)

lemma demo_device_fields:
  "dd_device_id (demo_device x) = device_id demo_roster_env (demo_key x)"
  "dd_signing_public_key (demo_device x) = map (\<lambda>b. char_of (unat b)) (demo_key x)"
  "dd_moss_peer_id (demo_device x) = map (\<lambda>b. char_of (unat b)) (demo_key (x + 100))"
  "dd_name (demo_device x) = ''Desktop''"
  by (simp_all add: demo_device_def new_descriptor_def demo_roster_env_def DEFAULT_DEVICE_NAME_def)

lemma demo_device_valid: "validate_descriptor demo_roster_env (demo_device x) = Ok ()"
  using demo_public_key [of "demo_key x"] demo_public_key [of "demo_key (x + 100)"]
  by (simp add: validate_descriptor_def demo_device_fields MAX_NAME_CHARS_def char_count_def
      is_continuation_def)

lemma demo_holds_key: "holds_key demo_roster_env (demo_device x) (demo_key x)"
  using demo_public_key [of "demo_key x"]
  by (simp add: holds_key_def demo_device_fields) (simp add: demo_roster_env_def)

lemma hex_chars_eq_iff:
  "map (\<lambda>b. char_of (unat b) :: char) bs = map (\<lambda>b. char_of (unat b)) cs \<longleftrightarrow> bs = (cs :: bytes)"
  by (metis demo_hex)

lemma byte_mod: "unat (b :: byte) mod 256 = unat b"
  using unsigned_less [of b, where 'a = nat] by simp

lemma demo_device_id_eq_iff: "dd_device_id (demo_device x) = dd_device_id (demo_device y) \<longleftrightarrow> x = y"
  by (simp add: demo_device_fields device_id_def)
    (simp add: demo_roster_env_def hex_chars_eq_iff replicate_eq_replicate byte_mod word_unat_eq_iff)

lemma demo_peer_eq_iff: "dd_moss_peer_id (demo_device x) = dd_moss_peer_id (demo_device y) \<longleftrightarrow> x = y"
proof -
  have "unat (x + 100) = unat (y + 100) \<longleftrightarrow> x = y"
    by (simp flip: word_unat_eq_iff)
  then show ?thesis
    by (simp add: demo_device_fields hex_chars_eq_iff replicate_eq_replicate byte_mod)
qed

text \<open>Device 1 founds a roster, adds device 2, removes it and adds it again.\<close>

lemma demo_rosters:
  obtains r1 r2 r3 r4 where
    "genesis demo_roster_env (demo_device 1) (demo_key 1) = Ok r1"
    "devices demo_roster_env r1 = Ok [demo_device 1]"
    "extend demo_roster_env r1 (demo_device 2) (demo_key 1) = Ok r2"
    "devices demo_roster_env r2 = Ok [demo_device 1, demo_device 2]"
    "revoke demo_roster_env r2 (dd_device_id (demo_device 2)) (demo_key 1) = Ok r3"
    "devices demo_roster_env r3 = Ok [demo_device 1]"
    "extend demo_roster_env r3 (demo_device 2) (demo_key 1) = Ok r4"
    "devices demo_roster_env r4 = Ok [demo_device 1, demo_device 2]"
proof -
  note d = demo_signing_laws demo_holds_key demo_device_valid
  obtain r1 where 1: "genesis demo_roster_env (demo_device 1) (demo_key 1) = Ok r1"
    "devices demo_roster_env r1 = Ok [demo_device 1]"
    using genesis_succeeds [OF d(1) d(2) d(3)] by blast
  obtain r2 where 2: "extend demo_roster_env r1 (demo_device 2) (demo_key 1) = Ok r2"
    "devices demo_roster_env r2 = Ok [demo_device 1, demo_device 2]"
    using extend_succeeds [OF d(1) 1(2) _ d(2) [of 1], where d = "demo_device 2"] d(3)
    by (auto simp: demo_device_id_eq_iff demo_peer_eq_iff)
  obtain r3 where 3: "revoke demo_roster_env r2 (dd_device_id (demo_device 2)) (demo_key 1) = Ok r3"
    "devices demo_roster_env r3 = Ok [demo_device 1]"
    using revoke_succeeds [OF d(1) 2(2) _ d(2) [of 1], where d = "demo_device 2"] d(3)
    by (auto simp: demo_device_id_eq_iff)
  obtain r4 where 4: "extend demo_roster_env r3 (demo_device 2) (demo_key 1) = Ok r4"
    "devices demo_roster_env r4 = Ok [demo_device 1, demo_device 2]"
    using extend_succeeds [OF d(1) 3(2) _ d(2) [of 1], where d = "demo_device 2"] d(3)
    by (auto simp: demo_device_id_eq_iff demo_peer_eq_iff)
  show ?thesis using that 1 2 3 4 by blast
qed

text \<open>
  C40. Every roster that verifies has at least one device, its devices are valid descriptors with
  pairwise distinct device ids and pairwise distinct peers, and every non-empty prefix of its chain
  verifies too.
\<close>

theorem verified_roster_wf:
  assumes "devices env r = Ok ds"
  shows "ds \<noteq> [] \<and> (\<forall>d \<in> set ds. validate_descriptor env d = Ok ()) \<and>
    distinct (map dd_device_id ds) \<and> distinct (map dd_moss_peer_id ds) \<and>
    (\<forall>n. 0 < n \<longrightarrow> (\<exists>dp. devices env (take n r) = Ok dp))"
proof (intro conjI allI impI ballI)
  show "validate_descriptor env d = Ok ()" if "d \<in> set ds" for d
    using devices_valid [OF assms that] .
  show "ds \<noteq> []" and "distinct (map dd_device_id ds)" and "distinct (map dd_moss_peer_id ds)"
    using devices_Ok_wf [OF assms] by (simp_all add: devices_wf_def)
next
  fix n :: nat
  assume "0 < n"
  moreover have "r \<noteq> []" using assms by (simp add: devices_Ok_iff)
  ultimately have "take n r \<noteq> []" by simp
  with assms show "\<exists>dp. devices env (take n r) = Ok dp"
    using devices_prefix [of env "take n r" "drop n r" ds] by auto
qed

theorem verified_roster_wf_witness:
  "\<exists>r. devices demo_roster_env r = Ok [demo_device 1, demo_device 2] \<and>
     distinct (map dd_moss_peer_id [demo_device 1, demo_device 2])"
proof -
  obtain r where r: "devices demo_roster_env r = Ok [demo_device 1, demo_device 2]"
    by (rule demo_rosters)
  with verified_roster_wf [OF r] show ?thesis by blast
qed

text \<open>
  No entry enters a verified roster without authority: every entry after the first names the
  digest of the exact chain before it, and its signature verifies under the signing key of a device
  that the chain before it authorizes.
\<close>

theorem roster_entry_authorized:
  assumes "devices env r = Ok ds" and "0 < i" and "i < length r"
  shows "\<exists>dp d key. devices env (take i r) = Ok dp \<and> d \<in> set dp \<and>
    dd_device_id d = au_signer (r ! i) \<and> public_key env (dd_signing_public_key d) = Ok key \<and>
    check_signature env key (r ! i) = Ok () \<and>
    roster_digest env (take i r) = Ok (the (au_parent (r ! i)))"
proof -
  have "r = take i r @ r ! i # drop (Suc i) r"
    using assms(3) by (simp add: id_take_nth_drop)
  moreover have "take i r \<noteq> []" using assms(2,3) by auto
  ultimately show ?thesis
    using entry_authority [of env "take i r" "r ! i" "drop (Suc i) r" ds] assms(1) by metis
qed

theorem roster_entry_authorized_witness:
  "\<exists>r dp d key. devices demo_roster_env (take 1 r) = Ok dp \<and> d \<in> set dp \<and>
    dd_device_id d = au_signer (r ! 1) \<and> public_key demo_roster_env (dd_signing_public_key d) = Ok key \<and>
    check_signature demo_roster_env key (r ! 1) = Ok () \<and>
    roster_digest demo_roster_env (take 1 r) = Ok (the (au_parent (r ! 1)))"
proof (rule demo_rosters)
  fix r1 r2
  assume r1: "devices demo_roster_env r1 = Ok [demo_device 1]"
    and ext: "extend demo_roster_env r1 (demo_device 2) (demo_key 1) = Ok r2"
    and r2: "devices demo_roster_env r2 = Ok [demo_device 1, demo_device 2]"
  have "r1 \<noteq> []" using r1 by (simp add: devices_Ok_iff)
  with ext have "1 < length r2" by (auto elim!: extend_OkE)
  from roster_entry_authorized [OF r2 zero_less_one this] show ?thesis by blast
qed

text \<open>
  C24. A removed device signs nothing: after an entry that removes a device, and as long as no later
  entry adds it again, no entry of a verified roster is signed by it and it is not among the
  roster's devices.
\<close>

theorem removed_device_cannot_sign:
  assumes "devices env (p @ e # m @ f # q) = Ok ds" and "is_removal_of t e"
    and "\<forall>a \<in> set m. au_version a = ROSTER_VERSION \<longrightarrow> dd_device_id (au_device a) \<noteq> t"
  shows "au_signer f \<noteq> t \<and> (\<exists>dm. devices env (p @ e # m) = Ok dm \<and> t \<notin> dd_device_id ` set dm)"
proof -
  have p: "p \<noteq> []" using assms(1,2) by (rule removal_not_genesis)
  have all: "devices env ((p @ e # m) @ f # q) = Ok ds" using assms(1) by simp
  then obtain dm d where dm: "devices env (p @ e # m) = Ok dm" and d: "d \<in> set dm"
    "dd_device_id d = au_signer f"
    by (rule entry_authority) simp
  have "t \<notin> dd_device_id ` set dm" using dm p assms(2,3) by (rule removed_absent)
  with dm d show ?thesis by (metis imageI)
qed

theorem removed_device_cannot_sign_witness:
  "\<exists>p e f. is_removal_of (dd_device_id (demo_device 2)) e \<and>
    (au_signer (f :: authorization) \<noteq> dd_device_id (demo_device 2) \<and>
     (\<exists>dm. devices demo_roster_env (p @ e # []) = Ok dm \<and>
        dd_device_id (demo_device 2) \<notin> dd_device_id ` set dm))"
proof (rule demo_rosters)
  fix r2 r3 r4
  assume rev: "revoke demo_roster_env r2 (dd_device_id (demo_device 2)) (demo_key 1) = Ok r3"
    and ext: "extend demo_roster_env r3 (demo_device 2) (demo_key 1) = Ok r4"
    and r4: "devices demo_roster_env r4 = Ok [demo_device 1, demo_device 2]"
  from rev obtain d e dg ds where e: "r3 = r2 @ [e]"
    and d: "find (\<lambda>d. dd_device_id d = dd_device_id (demo_device 2)) ds = Some d"
    and sg: "signed demo_roster_env REMOVAL_VERSION (Some dg)
      (device_id demo_roster_env (verifying_key demo_roster_env (demo_key 1))) d (demo_key 1) = Ok e"
    by (rule revoke_OkE)
  have rem: "is_removal_of (dd_device_id (demo_device 2)) e"
    using signed_fields [OF sg] find_SomeD [OF d] by (simp add: is_removal_of_def)
  from ext obtain f where f: "r4 = r3 @ [f]" by (rule extend_OkE)
  have "devices demo_roster_env (r2 @ e # [] @ f # []) = Ok [demo_device 1, demo_device 2]"
    using r4 e f by simp
  from removed_device_cannot_sign [OF this rem] have
    "au_signer f \<noteq> dd_device_id (demo_device 2) \<and>
     (\<exists>dm. devices demo_roster_env (r2 @ e # []) = Ok dm \<and>
        dd_device_id (demo_device 2) \<notin> dd_device_id ` set dm)" by simp
  with rem show ?thesis by blast
qed

text \<open>
  Revocation is permanent for an admission: once a verified roster shows a removal of a device
  after the roster it was admitted under, every verified extension shows it too and never again
  authorizes that admitted device, even when the device was added anew.
\<close>

theorem revocation_permanent:
  assumes "revoked_since env r admission t = Ok True" and "extends env r' r = Ok True"
    and "dd_device_id d = t"
  shows "revoked_since env r' admission t = Ok True \<and> authorizes_admitted env r' admission d = Ok False"
proof -
  have "revoked_since env r' admission t = Ok True"
    using assms(1) assms(2) by (auto simp: extends_Ok_iff intro: revoked_since_extension)
  then show ?thesis using assms(3) by (simp add: authorizes_admitted_def)
qed

theorem revocation_permanent_witness:
  "\<exists>r2 r4. devices demo_roster_env r4 = Ok [demo_device 1, demo_device 2] \<and>
    authorizes_admitted demo_roster_env r4 r2 (demo_device 2) = Ok False"
proof (rule demo_rosters)
  fix r2 r3 r4
  assume rev: "revoke demo_roster_env r2 (dd_device_id (demo_device 2)) (demo_key 1) = Ok r3"
    and r3: "devices demo_roster_env r3 = Ok [demo_device 1]"
    and ext: "extend demo_roster_env r3 (demo_device 2) (demo_key 1) = Ok r4"
    and r4: "devices demo_roster_env r4 = Ok [demo_device 1, demo_device 2]"
  from rev obtain d e dg ds where e: "r3 = r2 @ [e]"
    and d: "find (\<lambda>d. dd_device_id d = dd_device_id (demo_device 2)) ds = Some d"
    and sg: "signed demo_roster_env REMOVAL_VERSION (Some dg)
      (device_id demo_roster_env (verifying_key demo_roster_env (demo_key 1))) d (demo_key 1) = Ok e"
    by (rule revoke_OkE)
  have "is_removal_of (dd_device_id (demo_device 2)) e"
    using signed_fields [OF sg] find_SomeD [OF d] by (simp add: is_removal_of_def)
  then have since: "revoked_since demo_roster_env r3 r2 (dd_device_id (demo_device 2)) = Ok True"
    using r3 e by (simp add: revoked_since_def extends_def)
  from ext obtain f where "r4 = r3 @ [f]" by (rule extend_OkE)
  then have "extends demo_roster_env r4 r3 = Ok True" using r4 by (simp add: extends_def)
  from revocation_permanent [OF since this refl] r4 show ?thesis by blast
qed

text \<open>
  Revoking does exactly what its receivers check: when a device of the roster revokes a target,
  the new roster extends the old one, its devices are the old devices without the target, and the
  receiving side's check of a removal by that signer accepts it; the signer can never be the target.
\<close>

theorem revoke_correct:
  assumes "devices env r = Ok ds" and "revoke env r target key = Ok r'"
  shows "devices env r' = Ok (filter (\<lambda>d. dd_device_id d \<noteq> target) ds) \<and>
    extends env r' r = Ok True \<and>
    verifies_removal env r' r target (device_id env (verifying_key env key)) = Ok () \<and>
    device_id env (verifying_key env key) \<noteq> target"
proof -
  from assms(2) obtain d dg e where d: "find (\<lambda>d. dd_device_id d = target) ds = Some d"
    and e: "signed env REMOVAL_VERSION (Some dg) (device_id env (verifying_key env key)) d key = Ok e"
    and r': "r' = r @ [e]" and ex: "\<exists>ds. devices env (r @ [e]) = Ok ds"
    by (rule revoke_OkE) (use assms(1) in auto)
  have "r \<noteq> []" using assms(1) by (simp add: devices_Ok_iff)
  then obtain ds' where ds': "devices env (r @ [e]) = Ok ds'" and app: "apply_entry e ds = Ok ds'"
    using ex assms(1) by (metis devices_snoc_apply sum.inject(2))
  note f = signed_fields [OF e]
  have t: "dd_device_id d = target" and mem: "d \<in> set ds" using find_SomeD [OF d] by auto
  from apply_entry_removes [OF app] f t have
    "ds' = filter (\<lambda>d. dd_device_id d \<noteq> target) ds" and "device_id env (verifying_key env key) \<noteq> target"
    by auto
  with ds' f t mem assms(1) show ?thesis
    by (simp add: r' extends_def verifies_removal_def verifies_removal_extension_def)
qed

theorem revoke_correct_witness:
  "\<exists>r r'. revoke demo_roster_env r (dd_device_id (demo_device 2)) (demo_key 1) = Ok r' \<and>
    verifies_removal demo_roster_env r' r (dd_device_id (demo_device 2))
      (device_id demo_roster_env (verifying_key demo_roster_env (demo_key 1))) = Ok ()"
proof (rule demo_rosters)
  fix r2 r3
  assume "devices demo_roster_env r2 = Ok [demo_device 1, demo_device 2]"
    and rev: "revoke demo_roster_env r2 (dd_device_id (demo_device 2)) (demo_key 1) = Ok r3"
  from revoke_correct [OF this] rev show ?thesis by blast
qed

text \<open>
  Adding a device does exactly what its receivers check: the new roster extends the old one by
  one entry, its devices are the old ones followed by the added one, and the receiving side's check
  of an addition by that signer on that base accepts it.
\<close>

theorem extend_correct:
  assumes "devices env r = Ok ds" and "extend env r d key = Ok r'"
  shows "devices env r' = Ok (ds @ [d]) \<and> extends env r' r = Ok True \<and>
    verifies_addition env r' r d (device_id env (verifying_key env key)) = Ok ()"
proof -
  from assms(2) obtain dg e where dg: "roster_digest env r = Ok dg"
    and e: "signed env ROSTER_VERSION (Some dg) (device_id env (verifying_key env key)) d key = Ok e"
    and r': "r' = r @ [e]" and ex: "\<exists>ds. devices env (r @ [e]) = Ok ds"
    by (rule extend_OkE)
  have "r \<noteq> []" using assms(1) by (simp add: devices_Ok_iff)
  then obtain ds' where ds': "devices env (r @ [e]) = Ok ds'" and app: "apply_entry e ds = Ok ds'"
    using ex assms(1) by (metis devices_snoc_apply sum.inject(2))
  note f = signed_fields [OF e]
  have "ds' = ds @ [d]" using apply_entry_adds [OF app] f by simp
  with ds' dg f show ?thesis by (simp add: r' extends_def verifies_addition_def)
qed

theorem extend_correct_witness:
  "\<exists>r r'. extend demo_roster_env r (demo_device 2) (demo_key 1) = Ok r' \<and>
    verifies_addition demo_roster_env r' r (demo_device 2)
      (device_id demo_roster_env (verifying_key demo_roster_env (demo_key 1))) = Ok ()"
proof (rule demo_rosters)
  fix r1 r2
  assume "devices demo_roster_env r1 = Ok [demo_device 1]"
    and ext: "extend demo_roster_env r1 (demo_device 2) (demo_key 1) = Ok r2"
  from extend_correct [OF this] ext show ?thesis by blast
qed

end
