(* ===== verification/Dm_Membership.thy ===== *)
theory Dm_Membership
  imports Device_Roster "HOL-Library.Multiset"
begin

text \<open>
  The devices admitted to a private DM: \<open>private_dm_runtime/devices/types.rs\<close>, the identity claims of
  \<open>devices/proof.rs\<close> and the authorization queries of \<open>devices/revocation/mod.rs\<close>.

  A claim binds an MLS signer to a device of a roster; the topology keeps the claims of both users
  and one roster per user; the membership adds rosters that are pinned before the MLS group caught
  up, and answers who may act. Of \<open>DeviceMembership\<close> the topology, the pinned rosters, the revoked
  flag and the delivered ids are modelled; the journals of admission, removal, history and recovery
  are not. The JSON of a claim is a parameter beside those of the roster.

  Shown here: a topology built by \<open>add_client\<close> binds signers and devices one to one and keeps every
  admission a prefix of its user's roster; \<open>validate\<close> accepts only complete, authorized topologies;
  pinning a roster only ever extends what is current, so a device once seen as removed has no
  authority in any later state.
\<close>

section \<open>Model\<close>

datatype dm_error = BodyTooLarge | PayloadTooLarge | Deletion string | Revoked | Moss string
  | OpenMls string | Codec string | InvalidInvite string | NotReady | MissingSession
  | MissingMessage string | DuplicateSession string | Attachment string | MissingAttachment string
  | Persistence string

abbreviation invalid_dm :: dm_error where
  "invalid_dm \<equiv> Codec ''invalid DM device authorization''"

abbreviation or_invalid :: "(device_link_error_kind, 'a) result \<Rightarrow> (dm_error, 'a) result" where
  "or_invalid \<equiv> map_err (\<lambda>_. invalid_dm)"

definition DM_USERS :: nat where
  "DM_USERS = 2"

definition MAX_DISPLAY_NAME_BYTES :: nat where
  "MAX_DISPLAY_NAME_BYTES = 256"

definition CLAIM_CONTEXT :: bytes where
  "CLAIM_CONTEXT = utf8_bytes ''mosh-dm-client-v1'' @ [0]"

record identity_claim =
  ic_session_id :: string
  ic_roster :: device_roster
  ic_device_id :: string
  ic_mls_signer :: string
  ic_display_name :: string
  ic_signature :: string

record ('vk, 'sg, 'sk) claim_env =
  rost :: "('vk, 'sg, 'sk) roster_env"
  claim_json :: "string \<times> device_roster \<times> string \<times> string \<times> string \<Rightarrow> bytes option"

record 'sk device_identity =
  di_roster :: device_roster
  di_device :: device_descriptor
  di_key :: 'sk

definition claim_bytes :: "('vk, 'sg, 'sk) claim_env \<Rightarrow> identity_claim \<Rightarrow> (dm_error, bytes) result" where
  "claim_bytes env c =
     and_then (ok_or (claim_json env
         (ic_session_id c, ic_roster c, ic_device_id c, ic_mls_signer c, ic_display_name c)) invalid_dm)
       (\<lambda>json. Ok (CLAIM_CONTEXT @ json))"

definition unsigned_claim ::
    "('vk, 'sg, 'sk) claim_env \<Rightarrow> 'sk device_identity \<Rightarrow> device_roster \<Rightarrow> string \<Rightarrow> bytes \<Rightarrow> string \<Rightarrow>
     (dm_error, identity_claim) result" where
  "unsigned_claim env identity r session signer name =
     and_then (or_invalid (extends (rost env) r (di_roster identity))) (\<lambda>ahead.
     and_then (if ahead then Ok True else or_invalid (extends (rost env) (di_roster identity) r)) (\<lambda>related.
       if \<not> related then Err invalid_dm
       else
         and_then (or_invalid (devices (rost env) (di_roster identity))) (\<lambda>own.
           if di_device identity \<notin> set own then Err invalid_dm
           else
             and_then (or_invalid (devices (rost env) r)) (\<lambda>ds.
               if di_device identity \<notin> set ds then Err invalid_dm
               else Ok \<lparr>ic_session_id = session, ic_roster = r,
                        ic_device_id = dd_device_id (di_device identity),
                        ic_mls_signer = hex_encode (sigs (rost env)) signer,
                        ic_display_name = name, ic_signature = []\<rparr>))))"

definition create_claim ::
    "('vk, 'sg, 'sk) claim_env \<Rightarrow> 'sk device_identity \<Rightarrow> device_roster \<Rightarrow> string \<Rightarrow> bytes \<Rightarrow> string \<Rightarrow>
     (dm_error, identity_claim) result" where
  "create_claim env identity r session signer name =
     and_then (unsigned_claim env identity r session signer name) (\<lambda>c.
     and_then (claim_bytes env c) (\<lambda>bs.
       Ok (c\<lparr>ic_signature :=
         hex_encode (sigs (rost env)) (sig_bytes (sigs (rost env)) (sign_with (rost env) (di_key identity) bs))\<rparr>)))"

definition claim_device ::
    "('vk, 'sg, 'sk) claim_env \<Rightarrow> identity_claim \<Rightarrow> (dm_error, device_descriptor) result" where
  "claim_device env c =
     and_then (or_invalid (devices (rost env) (ic_roster c))) (\<lambda>ds.
       ok_or (find (\<lambda>d. dd_device_id d = ic_device_id c) ds) invalid_dm)"

definition verify_proof ::
    "('vk, 'sg, 'sk) claim_env \<Rightarrow> string \<Rightarrow> string \<Rightarrow> bytes \<Rightarrow> (dm_error, unit) result" where
  "verify_proof env key signature bs =
     and_then (ok_or (hex_decode (sigs (rost env)) signature) invalid_dm) (\<lambda>raw.
     and_then (ok_or (sig_from_slice (sigs (rost env)) raw) invalid_dm) (\<lambda>sg.
     and_then (or_invalid (public_key (rost env) key)) (\<lambda>vk.
       if signature_ok (sigs (rost env)) vk sg bs then Ok () else Err invalid_dm)))"

definition claim_verify ::
    "('vk, 'sg, 'sk) claim_env \<Rightarrow> identity_claim \<Rightarrow> string \<Rightarrow> (dm_error, unit) result" where
  "claim_verify env c session =
     (if ic_session_id c \<noteq> session \<or> ic_display_name c = [] \<or>
         MAX_DISPLAY_NAME_BYTES < length (ic_display_name c)
      then Err invalid_dm
      else
        and_then (or_invalid (public_key (rost env) (ic_mls_signer c))) (\<lambda>_.
        and_then (claim_device env c) (\<lambda>d.
        and_then (claim_bytes env c) (\<lambda>bs.
          verify_proof env (dd_signing_public_key d) (ic_signature c) bs))))"

record dm_topology =
  tp_own_user_id :: string
  tp_clients :: "identity_claim list"
  tp_rosters :: "device_roster list"

definition tp_client :: "dm_topology \<Rightarrow> string \<Rightarrow> identity_claim option" where
  "tp_client t signer = find (\<lambda>c. ic_mls_signer c = signer) (tp_clients t)"

definition tp_own :: "dm_topology \<Rightarrow> string \<Rightarrow> bool" where
  "tp_own t signer =
     (case tp_client t signer of None \<Rightarrow> False | Some c \<Rightarrow> user_id (ic_roster c) = tp_own_user_id t)"

definition tp_roster :: "dm_topology \<Rightarrow> string \<Rightarrow> device_roster option" where
  "tp_roster t user = find (\<lambda>r. user_id r = user) (tp_rosters t)"

definition update_roster ::
    "('vk, 'sg, 'sk) claim_env \<Rightarrow> device_roster \<Rightarrow> dm_topology \<Rightarrow> (dm_error, dm_topology) result" where
  "update_roster env r t =
     and_then
       (case tp_roster t (user_id r) of
          Some base \<Rightarrow>
            and_then (or_invalid (extends (rost env) r base)) (\<lambda>ok. if \<not> ok then Err invalid_dm else Ok ())
        | None \<Rightarrow> if DM_USERS \<le> length (tp_rosters t) then Err invalid_dm else Ok ())
       (\<lambda>_. Ok (t\<lparr>tp_rosters := filter (\<lambda>b. user_id b \<noteq> user_id r) (tp_rosters t) @ [r]\<rparr>))"

text \<open>The match on the stored roster in \<open>add_client\<close>, then the whole operation.\<close>

definition admit_roster ::
    "('vk, 'sg, 'sk) claim_env \<Rightarrow> identity_claim \<Rightarrow> dm_topology \<Rightarrow> (dm_error, dm_topology) result" where
  "admit_roster env c t =
     (case tp_roster t (user_id (ic_roster c)) of
        None \<Rightarrow> update_roster env (ic_roster c) t
      | Some base \<Rightarrow>
          and_then (or_invalid (extends (rost env) base (ic_roster c))) (\<lambda>covers.
            if covers then
              and_then (claim_device env c) (\<lambda>d.
              and_then (or_invalid (authorizes_admitted (rost env) base (ic_roster c) d)) (\<lambda>ok.
                if ok then Ok t else Err invalid_dm))
            else update_roster env (ic_roster c) t))"

definition add_client ::
    "('vk, 'sg, 'sk) claim_env \<Rightarrow> identity_claim \<Rightarrow> dm_topology \<Rightarrow> (dm_error, dm_topology) result" where
  "add_client env c t =
     and_then (claim_verify env c (ic_session_id c)) (\<lambda>_.
     and_then (admit_roster env c t) (\<lambda>t1.
       case tp_client t1 (ic_mls_signer c) of
         Some existing \<Rightarrow>
           if ic_device_id existing \<noteq> ic_device_id c \<or>
              user_id (ic_roster existing) \<noteq> user_id (ic_roster c)
           then Err invalid_dm
           else Ok (t1\<lparr>tp_clients := filter (\<lambda>x. ic_mls_signer x \<noteq> ic_mls_signer c) (tp_clients t1) @ [c]\<rparr>)
       | None \<Rightarrow>
           if \<exists>x \<in> set (tp_clients t1). ic_device_id x = ic_device_id c then Err invalid_dm
           else Ok (t1\<lparr>tp_clients := tp_clients t1 @ [c]\<rparr>)))"

definition check_client ::
    "('vk, 'sg, 'sk) claim_env \<Rightarrow> dm_topology \<Rightarrow> string \<Rightarrow> identity_claim \<Rightarrow> dm_topology \<Rightarrow>
     (dm_error, dm_topology) result" where
  "check_client env t session c checked =
     and_then (claim_verify env c session) (\<lambda>_.
     and_then (ok_or (tp_roster t (user_id (ic_roster c))) invalid_dm) (\<lambda>current.
     and_then (claim_device env c) (\<lambda>d.
     and_then (or_invalid (authorizes_admitted (rost env) current (ic_roster c) d)) (\<lambda>ok.
       if \<not> ok then Err invalid_dm else add_client env c checked))))"

fun check_clients ::
    "('vk, 'sg, 'sk) claim_env \<Rightarrow> dm_topology \<Rightarrow> string \<Rightarrow> identity_claim list \<Rightarrow> dm_topology \<Rightarrow>
     (dm_error, dm_topology) result" where
  "check_clients env t session [] checked = Ok checked"
| "check_clients env t session (c # cs) checked =
     and_then (check_client env t session c checked) (check_clients env t session cs)"

definition validate_topology ::
    "('vk, 'sg, 'sk) claim_env \<Rightarrow> dm_topology \<Rightarrow> string \<Rightarrow> string list \<Rightarrow> (dm_error, unit) result" where
  "validate_topology env t session signers =
     (if length (tp_rosters t) \<noteq> DM_USERS \<or> tp_roster t (tp_own_user_id t) = None then Err invalid_dm
      else
        and_then (check_clients env t session (tp_clients t)
            \<lparr>tp_own_user_id = tp_own_user_id t, tp_clients = [], tp_rosters = []\<rparr>) (\<lambda>checked.
          if sort (map ic_mls_signer (tp_clients t)) \<noteq> sort signers \<or>
             length (tp_clients checked) \<noteq> length (tp_clients t)
          then Err invalid_dm else Ok ()))"

record device_membership =
  mb_topology :: dm_topology
  mb_revoked :: bool
  mb_pending_rosters :: "device_roster list"
  mb_delivered_ids :: "string list"

definition current_roster ::
    "('vk, 'sg, 'sk) claim_env \<Rightarrow> device_membership \<Rightarrow> string \<Rightarrow> device_roster option" where
  "current_roster env m user =
     (let current = tp_roster (mb_topology m) user
      in case find (\<lambda>r. user_id r = user) (mb_pending_rosters m) of
           Some pending \<Rightarrow>
             if (case current of None \<Rightarrow> True
                 | Some r \<Rightarrow> unwrap_or False (extends (rost env) pending r))
             then Some pending else current
         | None \<Rightarrow> current)"

definition authorized ::
    "('vk, 'sg, 'sk) claim_env \<Rightarrow> device_membership \<Rightarrow> device_descriptor \<Rightarrow> string \<Rightarrow> bool" where
  "authorized env m device user \<longleftrightarrow>
     \<not> mb_revoked m \<and>
     (case current_roster env m user of
        None \<Rightarrow> False
      | Some r \<Rightarrow>
          (case find (\<lambda>c. ic_device_id c = dd_device_id device) (tp_clients (mb_topology m)) of
             Some c \<Rightarrow> unwrap_or False (authorizes_admitted (rost env) r (ic_roster c) device)
           | None \<Rightarrow>
               (case devices (rost env) r of Inl _ \<Rightarrow> False | Inr ds \<Rightarrow> device \<in> set ds)))"

definition call_own :: "device_membership \<Rightarrow> string \<Rightarrow> bool" where
  "call_own m signer = tp_own (mb_topology m) signer"

definition call_peer :: "('vk, 'sg, 'sk) claim_env \<Rightarrow> device_membership \<Rightarrow> string \<Rightarrow> string option" where
  "call_peer env m signer =
     (case tp_client (mb_topology m) signer of
        None \<Rightarrow> None
      | Some client \<Rightarrow>
          (case claim_device env client of
             Inl _ \<Rightarrow> None
           | Inr device \<Rightarrow>
               if authorized env m device (user_id (ic_roster client))
               then Some (dd_moss_peer_id device) else None))"

definition has_counterpart :: "device_membership \<Rightarrow> string list \<Rightarrow> bool" where
  "has_counterpart m signers \<longleftrightarrow> list_ex (\<lambda>s. \<not> tp_own (mb_topology m) s) signers"

definition peer_delivered :: "device_membership \<Rightarrow> string \<Rightarrow> bool" where
  "peer_delivered m i \<longleftrightarrow> i \<in> set (mb_delivered_ids m)"

definition pin_roster ::
    "('vk, 'sg, 'sk) claim_env \<Rightarrow> device_roster \<Rightarrow> device_membership \<Rightarrow> (dm_error, device_membership) result" where
  "pin_roster env r m =
     (let pinned = Ok (m\<lparr>mb_pending_rosters :=
            filter (\<lambda>x. user_id x \<noteq> user_id r) (mb_pending_rosters m) @ [r]\<rparr>)
      in case current_roster env m (user_id r) of
           None \<Rightarrow> pinned
         | Some current \<Rightarrow>
             and_then (or_invalid (extends (rost env) current r)) (\<lambda>known.
               if known then Ok m
               else
                 and_then (or_invalid (extends (rost env) r current)) (\<lambda>newer.
                   if \<not> newer then Err invalid_dm else pinned)))"

definition observe_roster_removal ::
    "('vk, 'sg, 'sk) claim_env \<Rightarrow> device_roster \<Rightarrow> device_membership \<Rightarrow>
     (dm_error, device_membership \<times> bool) result" where
  "observe_roster_removal env r m =
     (let removes_client =
            (case tp_roster (mb_topology m) (user_id r) of
               None \<Rightarrow> False
             | Some base \<Rightarrow> unwrap_or False (has_removal_since (rost env) r base)) \<or>
            (\<exists>c \<in> set (tp_clients (mb_topology m)).
               user_id (ic_roster c) = user_id r \<and>
               unwrap_or False (revoked_since (rost env) r (ic_roster c) (ic_device_id c)))
      in and_then (if removes_client then pin_roster env r m else Ok m) (\<lambda>m'. Ok (m', removes_client)))"

text \<open>One roster of the loop in \<open>authorize_current_admission\<close>, then the operation.\<close>

definition admissible_under ::
    "('vk, 'sg, 'sk) claim_env \<Rightarrow> identity_claim \<Rightarrow> device_roster \<Rightarrow> (dm_error, unit) result" where
  "admissible_under env claim current =
     and_then (or_invalid (extends (rost env) current (ic_roster claim))) (\<lambda>covers.
       if covers then
         and_then (claim_device env claim) (\<lambda>d.
         and_then (or_invalid (authorizes_admitted (rost env) current (ic_roster claim) d)) (\<lambda>ok.
           if ok then Ok () else Err invalid_dm))
       else
         and_then (or_invalid (extends (rost env) (ic_roster claim) current)) (\<lambda>newer.
           if newer then Ok () else Err invalid_dm))"

fun check_each :: "('a \<Rightarrow> ('e, unit) result) \<Rightarrow> 'a list \<Rightarrow> ('e, unit) result" where
  "check_each f [] = Ok ()"
| "check_each f (x # xs) = and_then (f x) (\<lambda>_. check_each f xs)"

definition authorize_current_admission ::
    "('vk, 'sg, 'sk) claim_env \<Rightarrow> device_membership \<Rightarrow> 'sk device_identity \<Rightarrow> device_descriptor \<Rightarrow>
     device_roster \<Rightarrow> identity_claim \<Rightarrow> (dm_error, unit) result" where
  "authorize_current_admission env m identity sender sender_roster claim =
     (if mb_revoked m then Err invalid_dm
      else
        and_then (or_invalid (devices (rost env) (di_roster identity))) (\<lambda>own_devices.
          if di_device identity \<notin> set own_devices \<or>
             \<not> authorized env m sender (user_id sender_roster)
          then Err invalid_dm
          else
            check_each (admissible_under env claim)
              (sender_roster #
               (case current_roster env m (user_id (ic_roster claim)) of None \<Rightarrow> [] | Some r \<Rightarrow> [r]) @
               (if user_id (di_roster identity) = user_id (ic_roster claim) then [di_roster identity] else []))))"

definition pending_removal :: "('vk, 'sg, 'sk) claim_env \<Rightarrow> device_membership \<Rightarrow> bool" where
  "pending_removal env m \<longleftrightarrow>
     (\<exists>c \<in> set (tp_clients (mb_topology m)).
        case claim_device env c of
          Inl _ \<Rightarrow> False
        | Inr d \<Rightarrow> \<not> authorized env m d (user_id (ic_roster c)))"

section \<open>Topologies\<close>

definition topology_wf :: "('vk, 'sg, 'sk) claim_env \<Rightarrow> dm_topology \<Rightarrow> bool" where
  "topology_wf env t \<longleftrightarrow>
     distinct (map ic_mls_signer (tp_clients t)) \<and> distinct (map ic_device_id (tp_clients t)) \<and>
     distinct (map user_id (tp_rosters t)) \<and> length (tp_rosters t) \<le> DM_USERS \<and>
     (\<forall>r \<in> set (tp_rosters t). is_ok (devices (rost env) r)) \<and>
     (\<forall>c \<in> set (tp_clients t). claim_verify env c (ic_session_id c) = Ok () \<and>
        (\<exists>r \<in> set (tp_rosters t). prefix (ic_roster c) r))"

lemma prefix_user_id: "prefix p r \<Longrightarrow> p \<noteq> [] \<Longrightarrow> user_id r = user_id p"
  by (cases p; cases r) (auto simp: user_id_def)

lemma claim_verify_device:
  assumes "claim_verify env c session = Ok ()"
  obtains d ds where "claim_device env c = Ok d" and "devices (rost env) (ic_roster c) = Ok ds"
    and "d \<in> set ds" and "dd_device_id d = ic_device_id c"
  using assms
  by (auto simp: claim_verify_def claim_device_def and_then_Ok_iff split: if_splits dest: find_SomeD)

lemma claim_verify_session: "claim_verify env c session = Ok () \<Longrightarrow> ic_session_id c = session"
  by (simp add: claim_verify_def split: if_splits)

lemma tp_roster_mem: "tp_roster t u = Some r \<Longrightarrow> r \<in> set (tp_rosters t) \<and> user_id r = u"
  by (auto simp: tp_roster_def dest: find_SomeD)

lemma update_roster_OkE:
  assumes "update_roster env r t = Ok t'"
  obtains "t' = t\<lparr>tp_rosters := filter (\<lambda>b. user_id b \<noteq> user_id r) (tp_rosters t) @ [r]\<rparr>"
    and "\<And>base. tp_roster t (user_id r) = Some base \<Longrightarrow> prefix base r"
    and "tp_roster t (user_id r) = None \<Longrightarrow> length (tp_rosters t) < DM_USERS"
  using assms
  by (auto simp: update_roster_def and_then_Ok_iff extends_Ok_iff split: option.splits if_splits)

lemma distinct_key_cover:
  assumes "distinct (map f xs)" and "x \<in> set xs" and "find (\<lambda>y. f y = f x) xs = Some y"
  shows "y = x"
proof -
  have "f y = f x" and "y \<in> set xs" using find_SomeD [OF assms(3)] by auto
  with assms(1,2) show ?thesis by (auto simp: distinct_map inj_on_def)
qed

lemma distinct_filter_key:
  "distinct (map f xs) \<Longrightarrow> distinct (map f (filter P xs))"
  by (simp add: distinct_map_filter)

lemma length_filter_other:
  assumes "distinct (map f xs)" and "x \<in> set xs"
  shows "Suc (length (filter (\<lambda>y. f y \<noteq> f x) xs)) \<le> length xs"
  using length_filter_less [of x xs "\<lambda>y. f y \<noteq> f x"] assms(2) by simp

lemma update_roster_wf:
  assumes wf: "topology_wf env t" and up: "update_roster env r t = Ok t'"
    and r: "devices (rost env) r = Ok ds"
  shows "topology_wf env t' \<and> tp_clients t' = tp_clients t \<and> r \<in> set (tp_rosters t')"
proof -
  from up have t': "t' = t\<lparr>tp_rosters := filter (\<lambda>b. user_id b \<noteq> user_id r) (tp_rosters t) @ [r]\<rparr>"
    and base: "\<And>base. tp_roster t (user_id r) = Some base \<Longrightarrow> prefix base r"
    and room: "tp_roster t (user_id r) = None \<Longrightarrow> length (tp_rosters t) < DM_USERS"
    by (rule update_roster_OkE; blast)+
  have dist: "distinct (map user_id (tp_rosters t))" using wf by (simp add: topology_wf_def)
  have len: "length (filter (\<lambda>b. user_id b \<noteq> user_id r) (tp_rosters t)) < DM_USERS"
  proof (cases "tp_roster t (user_id r)")
    case None
    have "length (filter (\<lambda>b. user_id b \<noteq> user_id r) (tp_rosters t)) \<le> length (tp_rosters t)" by simp
    with room [OF None] show ?thesis by linarith
  next
    case (Some b)
    then have "b \<in> set (tp_rosters t)" and "user_id b = user_id r" by (auto dest: tp_roster_mem)
    with length_filter_other [OF dist, of b] wf show ?thesis by (simp add: topology_wf_def)
  qed
  have cover: "\<exists>x \<in> set (tp_rosters t'). prefix (ic_roster c) x" if c: "c \<in> set (tp_clients t)" for c
  proof -
    from wf c obtain x where x: "x \<in> set (tp_rosters t)" "prefix (ic_roster c) x"
      by (auto simp: topology_wf_def)
    show ?thesis
    proof (cases "user_id x = user_id r")
      case False
      with x show ?thesis by (auto simp: t')
    next
      case True
      then obtain b where b: "tp_roster t (user_id r) = Some b"
        using x(1) by (cases "tp_roster t (user_id r)") (auto simp: tp_roster_def find_None_iff)
      then have "b = x"
        using distinct_key_cover [OF dist x(1)] True by (simp add: tp_roster_def)
      with base [OF b] x(2) have "prefix (ic_roster c) r" by (auto intro: prefix_order.trans)
      then show ?thesis by (simp add: t')
    qed
  qed
  have "distinct (map user_id (tp_rosters t'))"
    using distinct_filter_key [OF dist, of "\<lambda>b. user_id b \<noteq> user_id r"] by (auto simp: t')
  with wf len cover r show ?thesis by (auto simp: topology_wf_def t')
qed

lemma admit_roster_wf:
  assumes wf: "topology_wf env t" and ad: "admit_roster env c t = Ok t1"
    and r: "devices (rost env) (ic_roster c) = Ok ds"
  shows "topology_wf env t1 \<and> tp_clients t1 = tp_clients t \<and>
    (\<exists>r \<in> set (tp_rosters t1). prefix (ic_roster c) r)"
proof -
  consider "update_roster env (ic_roster c) t = Ok t1"
    | base where "tp_roster t (user_id (ic_roster c)) = Some base" "prefix (ic_roster c) base" "t1 = t"
    using ad by (auto simp: admit_roster_def and_then_Ok_iff extends_Ok_iff split: option.splits if_splits)
  then show ?thesis
  proof cases
    case 1
    with update_roster_wf [OF wf 1 r] show ?thesis by blast
  next
    case 2
    with wf tp_roster_mem [OF 2(1)] show ?thesis by blast
  qed
qed

lemma add_client_clients:
  assumes "add_client env c t = Ok t'"
  obtains t1 where "claim_verify env c (ic_session_id c) = Ok ()" and "admit_roster env c t = Ok t1"
    and "ic_mls_signer c \<in> ic_mls_signer ` set (tp_clients t1) \<longrightarrow>
      (\<exists>x \<in> set (tp_clients t1). ic_mls_signer x = ic_mls_signer c \<and> ic_device_id x = ic_device_id c)"
    and "ic_mls_signer c \<notin> ic_mls_signer ` set (tp_clients t1) \<longrightarrow>
      ic_device_id c \<notin> ic_device_id ` set (tp_clients t1)"
    and "t' = t1\<lparr>tp_clients := filter (\<lambda>x. ic_mls_signer x \<noteq> ic_mls_signer c) (tp_clients t1) @ [c]\<rparr>"
proof -
  from assms obtain t1 where ver: "claim_verify env c (ic_session_id c) = Ok ()"
    and ad: "admit_roster env c t = Ok t1"
    and rest: "(case tp_client t1 (ic_mls_signer c) of
         Some existing \<Rightarrow>
           if ic_device_id existing \<noteq> ic_device_id c \<or>
              user_id (ic_roster existing) \<noteq> user_id (ic_roster c)
           then Err invalid_dm
           else Ok (t1\<lparr>tp_clients := filter (\<lambda>x. ic_mls_signer x \<noteq> ic_mls_signer c) (tp_clients t1) @ [c]\<rparr>)
       | None \<Rightarrow>
           if \<exists>x \<in> set (tp_clients t1). ic_device_id x = ic_device_id c then Err invalid_dm
           else Ok (t1\<lparr>tp_clients := tp_clients t1 @ [c]\<rparr>)) = Ok t'"
    by (auto simp: add_client_def and_then_Ok_iff)
  show ?thesis
  proof (cases "tp_client t1 (ic_mls_signer c)")
    case None
    then have new: "\<forall>x \<in> set (tp_clients t1). ic_mls_signer x \<noteq> ic_mls_signer c"
      by (auto simp: tp_client_def find_None_iff)
    then have "filter (\<lambda>x. ic_mls_signer x \<noteq> ic_mls_signer c) (tp_clients t1) = tp_clients t1"
      by (simp add: filter_id_conv)
    with None rest new show ?thesis by (intro that [OF ver ad]) (auto split: if_splits)
  next
    case (Some x)
    then have "x \<in> set (tp_clients t1)" "ic_mls_signer x = ic_mls_signer c"
      by (auto simp: tp_client_def dest: find_SomeD)
    moreover from Some rest have "ic_device_id x = ic_device_id c"
      and "t' = t1\<lparr>tp_clients := filter (\<lambda>x. ic_mls_signer x \<noteq> ic_mls_signer c) (tp_clients t1) @ [c]\<rparr>"
      by (auto split: if_splits)
    ultimately show ?thesis
      by (intro that [OF ver ad]) (blast, metis imageI, simp)
  qed
qed

lemma add_client_wf:
  assumes wf: "topology_wf env t" and add: "add_client env c t = Ok t'"
  shows "topology_wf env t' \<and> c \<in> set (tp_clients t')"
proof -
  from add obtain t1 where ver: "claim_verify env c (ic_session_id c) = Ok ()"
    and ad: "admit_roster env c t = Ok t1"
    and old: "ic_mls_signer c \<in> ic_mls_signer ` set (tp_clients t1) \<longrightarrow>
      (\<exists>x \<in> set (tp_clients t1). ic_mls_signer x = ic_mls_signer c \<and> ic_device_id x = ic_device_id c)"
    and new: "ic_mls_signer c \<notin> ic_mls_signer ` set (tp_clients t1) \<longrightarrow>
      ic_device_id c \<notin> ic_device_id ` set (tp_clients t1)"
    and t': "t' = t1\<lparr>tp_clients := filter (\<lambda>x. ic_mls_signer x \<noteq> ic_mls_signer c) (tp_clients t1) @ [c]\<rparr>"
    by (rule add_client_clients)
  from ver obtain ds where "devices (rost env) (ic_roster c) = Ok ds" by (rule claim_verify_device)
  from admit_roster_wf [OF wf ad this] have wf1: "topology_wf env t1"
    and cov: "\<exists>r \<in> set (tp_rosters t1). prefix (ic_roster c) r" by auto
  let ?rest = "filter (\<lambda>x. ic_mls_signer x \<noteq> ic_mls_signer c) (tp_clients t1)"
  have ds: "distinct (map ic_mls_signer (tp_clients t1))" and dd: "distinct (map ic_device_id (tp_clients t1))"
    using wf1 by (simp_all add: topology_wf_def)
  have "ic_device_id c \<notin> ic_device_id ` set ?rest"
  proof (cases "ic_mls_signer c \<in> ic_mls_signer ` set (tp_clients t1)")
    case True
    with old obtain x where x: "x \<in> set (tp_clients t1)" "ic_mls_signer x = ic_mls_signer c"
      "ic_device_id x = ic_device_id c" by blast
    with dd show ?thesis by (auto simp: distinct_map inj_on_def)
  next
    case False
    with new show ?thesis by auto
  qed
  with distinct_filter_key [OF dd] have "distinct (map ic_device_id (?rest @ [c]))" by auto
  moreover have "distinct (map ic_mls_signer (?rest @ [c]))"
    using distinct_filter_key [OF ds, of "\<lambda>x. ic_mls_signer x \<noteq> ic_mls_signer c"] by auto
  ultimately show ?thesis using wf1 ver cov by (auto simp: topology_wf_def t')
qed

lemma add_client_length:
  assumes "topology_wf env t" and "add_client env c t = Ok t'"
  shows "length (tp_clients t') \<le> Suc (length (tp_clients t)) \<and>
    (length (tp_clients t') = Suc (length (tp_clients t)) \<longrightarrow> tp_clients t' = tp_clients t @ [c])"
proof -
  from assms(2) obtain t1 where ver: "claim_verify env c (ic_session_id c) = Ok ()"
    and ad: "admit_roster env c t = Ok t1"
    and t': "t' = t1\<lparr>tp_clients := filter (\<lambda>x. ic_mls_signer x \<noteq> ic_mls_signer c) (tp_clients t1) @ [c]\<rparr>"
    by (rule add_client_clients)
  from ver obtain ds where "devices (rost env) (ic_roster c) = Ok ds" by (rule claim_verify_device)
  from admit_roster_wf [OF assms(1) ad this] have t1: "tp_clients t1 = tp_clients t" by simp
  show ?thesis
  proof (cases "\<forall>x \<in> set (tp_clients t). ic_mls_signer x \<noteq> ic_mls_signer c")
    case True
    then show ?thesis by (simp add: t' t1 filter_id_conv)
  next
    case False
    then obtain x where "x \<in> set (tp_clients t)" "ic_mls_signer x = ic_mls_signer c" by blast
    then have "length (filter (\<lambda>x. ic_mls_signer x \<noteq> ic_mls_signer c) (tp_clients t)) < length (tp_clients t)"
      by (intro length_filter_less [of x]) auto
    then show ?thesis by (simp add: t' t1)
  qed
qed

lemma empty_topology_wf:
  "topology_wf env \<lparr>tp_own_user_id = u, tp_clients = [], tp_rosters = []\<rparr>"
  by (simp add: topology_wf_def)

lemma check_client_OkE:
  assumes "check_client env t session c k = Ok k'"
  obtains r d where "claim_verify env c session = Ok ()" and "tp_roster t (user_id (ic_roster c)) = Some r"
    and "claim_device env c = Ok d" and "authorizes_admitted (rost env) r (ic_roster c) d = Ok True"
    and "add_client env c k = Ok k'"
  using assms by (auto simp: check_client_def and_then_Ok_iff split: if_splits)

lemma check_clients_sound:
  assumes "check_clients env t session cs k = Ok k'" and "topology_wf env k"
  shows "topology_wf env k' \<and> length (tp_clients k') \<le> length (tp_clients k) + length cs \<and>
    (length (tp_clients k') = length (tp_clients k) + length cs \<longrightarrow> tp_clients k' = tp_clients k @ cs) \<and>
    (\<forall>c \<in> set cs. claim_verify env c session = Ok () \<and>
      (\<exists>r d. tp_roster t (user_id (ic_roster c)) = Some r \<and> claim_device env c = Ok d \<and>
        authorizes_admitted (rost env) r (ic_roster c) d = Ok True))"
  using assms
proof (induction cs arbitrary: k)
  case Nil
  then show ?case by simp
next
  case (Cons c cs)
  then obtain k1 where step: "check_client env t session c k = Ok k1"
    and rest: "check_clients env t session cs k1 = Ok k'"
    by (auto simp: and_then_Ok_iff)
  from step obtain r d where c: "claim_verify env c session = Ok ()"
    "tp_roster t (user_id (ic_roster c)) = Some r" "claim_device env c = Ok d"
    "authorizes_admitted (rost env) r (ic_roster c) d = Ok True" and add: "add_client env c k = Ok k1"
    by (rule check_client_OkE)
  from add_client_wf [OF Cons.prems(2) add] have wf1: "topology_wf env k1" by simp
  from add_client_length [OF Cons.prems(2) add] Cons.IH [OF rest wf1] c show ?case by auto
qed

section \<open>Pinned rosters\<close>

lemma find_filter_implied: "(\<And>x. P x \<Longrightarrow> Q x) \<Longrightarrow> find P (filter Q xs) = find P xs"
  by (induction xs) auto

lemma find_none_filter: "find (\<lambda>x. f x = u) (filter (\<lambda>x. f x \<noteq> u) xs) = None"
  by (auto simp: find_None_iff)

lemma current_roster_user: "current_roster env m u = Some r \<Longrightarrow> user_id r = u"
  by (auto simp: current_roster_def Let_def split: option.splits if_splits dest: find_SomeD tp_roster_mem)

lemma current_roster_extends:
  assumes "current_roster env m u = Some r" and "tp_roster (mb_topology m) u = Some base"
  shows "prefix base r"
  using assms by (auto simp: current_roster_def Let_def extends_Ok_iff split: option.splits if_splits)

lemma pin_roster_OkE:
  assumes "pin_roster env r m = Ok m'"
  obtains (known) "m' = m"
  | (pinned) "m' = m\<lparr>mb_pending_rosters := filter (\<lambda>x. user_id x \<noteq> user_id r) (mb_pending_rosters m) @ [r]\<rparr>"
      and "\<And>cur. current_roster env m (user_id r) = Some cur \<Longrightarrow>
        prefix cur r \<and> is_ok (devices (rost env) r)"
  using assms
  by (fastforce simp: pin_roster_def Let_def and_then_Ok_iff extends_Ok_iff split: option.splits if_splits)

lemma pin_roster_topology: "pin_roster env r m = Ok m' \<Longrightarrow> mb_topology m' = mb_topology m \<and> mb_revoked m' = mb_revoked m"
  by (erule pin_roster_OkE) auto

lemma pin_roster_current:
  assumes pin: "pin_roster env r m = Ok m'" and cur: "current_roster env m u = Some c"
  obtains c' where "current_roster env m' u = Some c'" and "c' = c \<or> prefix c c' \<and> is_ok (devices (rost env) c')"
  using pin
proof (cases rule: pin_roster_OkE)
  case known
  with cur that show ?thesis by blast
next
  case pinned
  show ?thesis
  proof (cases "user_id r = u")
    case True
    with pinned(2) cur have pre: "prefix c r" "is_ok (devices (rost env) r)" by auto
    have "find (\<lambda>x. user_id x = u) (mb_pending_rosters m') = Some r"
      using True find_none_filter [of user_id u] by (simp add: pinned(1) find_append)
    moreover have "prefix base r" if "tp_roster (mb_topology m) u = Some base" for base
      using current_roster_extends [OF cur that] pre(1) by (auto intro: prefix_order.trans)
    ultimately have "current_roster env m' u = Some r"
      using pre(2) by (auto simp: current_roster_def Let_def pinned(1) extends_Ok_iff is_ok_iff
          split: option.splits)
    with pre that show ?thesis by blast
  next
    case False
    then have "find (\<lambda>x. user_id x = u) (mb_pending_rosters m') =
        find (\<lambda>x. user_id x = u) (mb_pending_rosters m)"
      by (simp add: pinned(1) find_append find_filter_implied split: option.split)
    then have "current_roster env m' u = current_roster env m u"
      by (simp add: current_roster_def Let_def pinned(1))
    with cur have "current_roster env m' u = Some c" by simp
    then show ?thesis by (rule that) simp
  qed
qed

lemma and_then_if_Ok:
  "and_then (if b then x else Ok m) (\<lambda>y. Ok (y, b)) = Ok (m', b') \<Longrightarrow> m' = m \<or> x = Ok m'"
  by (cases b) (auto simp: and_then_Ok_iff)

lemma observe_roster_removal_OkE:
  assumes "observe_roster_removal env r m = Ok (m', b)"
  obtains "m' = m" | "pin_roster env r m = Ok m'"
  using and_then_if_Ok [OF assms [unfolded observe_roster_removal_def Let_def]] by blast

text \<open>What a membership goes through between two MLS transitions: rosters are pinned or observed.\<close>

inductive membership_steps ::
    "('vk, 'sg, 'sk) claim_env \<Rightarrow> device_membership \<Rightarrow> device_membership \<Rightarrow> bool"
  for env where
  stay: "membership_steps env m m"
| pin: "membership_steps env m m1 \<Longrightarrow> pin_roster env r m1 = Ok m2 \<Longrightarrow> membership_steps env m m2"
| observe: "membership_steps env m m1 \<Longrightarrow> observe_roster_removal env r m1 = Ok (m2, b) \<Longrightarrow>
    membership_steps env m m2"

lemma membership_steps_current:
  assumes "membership_steps env m m'" and "current_roster env m u = Some c"
  shows "mb_topology m' = mb_topology m \<and>
    (\<exists>c'. current_roster env m' u = Some c' \<and> (c' = c \<or> prefix c c' \<and> is_ok (devices (rost env) c')))"
  using assms
proof (induction rule: membership_steps.induct)
  case (stay m)
  then show ?case by blast
next
  case (pin m m1 r m2)
  then obtain c1 where c1: "current_roster env m1 u = Some c1" "c1 = c \<or> prefix c c1 \<and> is_ok (devices (rost env) c1)"
    and top: "mb_topology m1 = mb_topology m" by blast
  from pin.hyps(2) c1(1) obtain c2 where
    "current_roster env m2 u = Some c2" "c2 = c1 \<or> prefix c1 c2 \<and> is_ok (devices (rost env) c2)"
    by (rule pin_roster_current)
  with c1 top pin_roster_topology [OF pin.hyps(2)] show ?case
    by (auto intro: prefix_order.trans)
next
  case (observe m m1 r m2 b)
  then obtain c1 where c1: "current_roster env m1 u = Some c1" "c1 = c \<or> prefix c c1 \<and> is_ok (devices (rost env) c1)"
    and top: "mb_topology m1 = mb_topology m" by blast
  from observe.hyps(2) show ?case
  proof (cases rule: observe_roster_removal_OkE)
    case 1
    with c1 top show ?thesis by blast
  next
    case 2
    from 2 c1(1) obtain c2 where
      "current_roster env m2 u = Some c2" "c2 = c1 \<or> prefix c1 c2 \<and> is_ok (devices (rost env) c2)"
      by (rule pin_roster_current)
    with c1 top pin_roster_topology [OF 2] show ?thesis
      by (auto intro: prefix_order.trans)
  qed
qed

lemma membership_steps_revoked:
  assumes "membership_steps env m m'" and "current_roster env m u = Some c"
    and "revoked_since (rost env) c adm t = Ok True"
  obtains c' where "current_roster env m' u = Some c'" and "revoked_since (rost env) c' adm t = Ok True"
proof -
  obtain c' where c': "current_roster env m' u = Some c'"
    and ext: "c' = c \<or> prefix c c' \<and> is_ok (devices (rost env) c')"
    using membership_steps_current [OF assms(1,2)] by blast
  from ext have "revoked_since (rost env) c' adm t = Ok True"
    using assms(3) revoked_since_extension [OF assms(3)] by (auto simp: is_ok_iff)
  with c' show ?thesis by (rule that)
qed

lemma revoked_unauthorized:
  assumes "topology_wf env (mb_topology m)" and "c \<in> set (tp_clients (mb_topology m))"
    and "current_roster env m (user_id (ic_roster c)) = Some r"
    and "revoked_since (rost env) r (ic_roster c) (ic_device_id c) = Ok True"
    and "dd_device_id d = ic_device_id c"
  shows "\<not> authorized env m d (user_id (ic_roster c))"
proof -
  have dist: "distinct (map ic_device_id (tp_clients (mb_topology m)))"
    using assms(1) by (simp add: topology_wf_def)
  obtain x where x: "find (\<lambda>x. ic_device_id x = ic_device_id c) (tp_clients (mb_topology m)) = Some x"
    using assms(2) by (cases "find (\<lambda>x. ic_device_id x = ic_device_id c) (tp_clients (mb_topology m))")
      (auto simp: find_None_iff)
  have "x = c" by (rule distinct_key_cover [OF dist assms(2) x])
  with x assms(3-5) show ?thesis by (simp add: authorized_def authorizes_admitted_def)
qed

lemma claim_device_id: "claim_device env c = Ok d \<Longrightarrow> dd_device_id d = ic_device_id c"
  by (auto simp: claim_device_def and_then_Ok_iff dest: find_SomeD)

lemma tp_client_mem:
  assumes "topology_wf env t" and "c \<in> set (tp_clients t)"
  shows "tp_client t (ic_mls_signer c) = Some c"
proof -
  have d: "distinct (map ic_mls_signer (tp_clients t))" using assms(1) by (simp add: topology_wf_def)
  moreover have "tp_client t (ic_mls_signer c) \<noteq> None"
    using assms(2) by (auto simp: tp_client_def find_None_iff)
  ultimately show ?thesis
    using distinct_key_cover [OF d assms(2)] by (auto simp: tp_client_def)
qed

section \<open>Claims\<close>

lemma claim_bytes_signature [simp]: "claim_bytes env (c\<lparr>ic_signature := x\<rparr>) = claim_bytes env c"
  by (simp add: claim_bytes_def)

lemma claim_device_signature [simp]: "claim_device env (c\<lparr>ic_signature := x\<rparr>) = claim_device env c"
  by (simp add: claim_device_def)

lemma unsigned_claim_OkE:
  assumes "unsigned_claim env identity r session signer name = Ok c"
  obtains ds where "devices (rost env) r = Ok ds" and "di_device identity \<in> set ds"
    and "c = \<lparr>ic_session_id = session, ic_roster = r,
              ic_device_id = dd_device_id (di_device identity),
              ic_mls_signer = hex_encode (sigs (rost env)) signer,
              ic_display_name = name, ic_signature = []\<rparr>"
  using assms by (auto simp: unsigned_claim_def and_then_Ok_iff split: if_splits)

lemma create_claim_correct:
  assumes laws: "signing_laws (rost env)" and key: "holds_key (rost env) (di_device identity) (di_key identity)"
    and name: "name \<noteq> []" "length name \<le> MAX_DISPLAY_NAME_BYTES"
    and signer: "is_ok (public_key (rost env) (hex_encode (sigs (rost env)) signer))"
    and c: "create_claim env identity r session signer name = Ok c"
  shows "claim_verify env c session = Ok () \<and> claim_device env c = Ok (di_device identity) \<and>
    ic_roster c = r \<and> ic_mls_signer c = hex_encode (sigs (rost env)) signer"
proof -
  from c obtain u bs where u: "unsigned_claim env identity r session signer name = Ok u"
    and bs: "claim_bytes env u = Ok bs"
    and cu: "c = u\<lparr>ic_signature := hex_encode (sigs (rost env))
      (sig_bytes (sigs (rost env)) (sign_with (rost env) (di_key identity) bs))\<rparr>"
    by (auto simp: create_claim_def and_then_Ok_iff)
  from u obtain ds where ds: "devices (rost env) r = Ok ds" "di_device identity \<in> set ds"
    and uf: "u = \<lparr>ic_session_id = session, ic_roster = r,
              ic_device_id = dd_device_id (di_device identity),
              ic_mls_signer = hex_encode (sigs (rost env)) signer,
              ic_display_name = name, ic_signature = []\<rparr>"
    by (rule unsigned_claim_OkE)
  have dev: "claim_device env u = Ok (di_device identity)"
    using ds find_device [OF _ ds(2)] devices_Ok_wf [OF ds(1)] by (simp add: claim_device_def uf)
  have "verify_proof env (dd_signing_public_key (di_device identity)) (ic_signature c) bs = Ok ()"
    using laws key by (simp add: verify_proof_def cu signing_laws_def holds_key_def)
  moreover obtain vk where "public_key (rost env) (hex_encode (sigs (rost env)) signer) = Ok vk"
    using signer by (auto simp: is_ok_iff)
  moreover have "ic_session_id c = session" "ic_display_name c = name"
    "ic_mls_signer c = hex_encode (sigs (rost env)) signer" "ic_roster c = r"
    by (simp_all add: cu uf)
  ultimately show ?thesis using dev bs name
    by (simp add: claim_verify_def cu)
qed

lemma admitted_call_peer:
  assumes wf: "distinct (map ic_mls_signer (tp_clients t))" "distinct (map ic_device_id (tp_clients t))"
    and c: "c \<in> set (tp_clients t)" and r: "tp_roster t (user_id (ic_roster c)) = Some r"
    and d: "claim_device env c = Ok d" and auth: "authorizes_admitted (rost env) r (ic_roster c) d = Ok True"
    and m: "mb_topology m = t" "mb_pending_rosters m = []" "\<not> mb_revoked m"
  shows "call_peer env m (ic_mls_signer c) = Some (dd_moss_peer_id d)"
proof -
  have "find (\<lambda>x. ic_mls_signer x = ic_mls_signer c) (tp_clients t) = Some c"
    using distinct_key_cover [OF wf(1) c] c
    by (cases "find (\<lambda>x. ic_mls_signer x = ic_mls_signer c) (tp_clients t)") (auto simp: find_None_iff)
  moreover have "find (\<lambda>x. ic_device_id x = ic_device_id c) (tp_clients t) = Some c"
    using distinct_key_cover [OF wf(2) c] c
    by (cases "find (\<lambda>x. ic_device_id x = ic_device_id c) (tp_clients t)") (auto simp: find_None_iff)
  moreover have "current_roster env m (user_id (ic_roster c)) = Some r"
    using m r by (simp add: current_roster_def)
  ultimately show ?thesis using m d auth claim_device_id [OF d]
    by (simp add: call_peer_def tp_client_def authorized_def)
qed

section \<open>Properties\<close>

definition demo_claim_env :: "(bytes, bytes, bytes) claim_env" where
  "demo_claim_env = \<lparr>rost = demo_roster_env, claim_json = (\<lambda>_. Some [])\<rparr>"

abbreviation demo_identity :: "byte \<Rightarrow> device_roster \<Rightarrow> bytes device_identity" where
  "demo_identity x r \<equiv> \<lparr>di_roster = r, di_device = demo_device x, di_key = demo_key x\<rparr>"

lemma demo_rost [simp]: "rost demo_claim_env = demo_roster_env"
  by (simp add: demo_claim_env_def)

lemma demo_hex_encode: "hex_encode (sigs demo_roster_env) = map (\<lambda>b. char_of (unat b))"
  by (simp add: demo_roster_env_def)

lemma demo_signer_ok: "is_ok (public_key demo_roster_env (hex_encode (sigs demo_roster_env) (demo_key x)))"
  using demo_public_key [of "demo_key x"] by (simp add: demo_roster_env_def)

lemma demo_claim_exists:
  assumes "devices demo_roster_env r = Ok ds" and "demo_device x \<in> set ds"
  shows "\<exists>c. create_claim demo_claim_env (demo_identity x r) r ''s'' (demo_key x) ''n'' = Ok c"
proof -
  have "extends demo_roster_env r r = Ok True" using assms(1) by (simp add: extends_def)
  moreover have "claim_json demo_claim_env y = Some []" for y by (simp add: demo_claim_env_def)
  ultimately show ?thesis using assms
    by (simp add: create_claim_def unsigned_claim_def claim_bytes_def)
qed

lemma demo_claim:
  assumes "devices demo_roster_env r = Ok ds" and "demo_device x \<in> set ds"
  obtains c where "claim_verify demo_claim_env c ''s'' = Ok ()" and "claim_device demo_claim_env c = Ok (demo_device x)"
    and "ic_roster c = r" and "ic_mls_signer c = map (\<lambda>b. char_of (unat b)) (demo_key x)"
proof -
  obtain c where c: "create_claim demo_claim_env (demo_identity x r) r ''s'' (demo_key x) ''n'' = Ok c"
    using demo_claim_exists [OF assms] by blast
  have "claim_verify demo_claim_env c ''s'' = Ok () \<and> claim_device demo_claim_env c = Ok (demo_device x) \<and>
      ic_roster c = r \<and> ic_mls_signer c = hex_encode (sigs demo_roster_env) (demo_key x)"
    using create_claim_correct [OF _ _ _ _ _ c] demo_signing_laws demo_holds_key demo_signer_ok
    by (simp add: MAX_DISPLAY_NAME_BYTES_def)
  then show ?thesis using that unfolding demo_hex_encode by blast
qed

text \<open>The roster of a user with one device, its claim, and what admitting it to a topology does.\<close>

lemma demo_user:
  obtains r c where "devices demo_roster_env r = Ok [demo_device x]"
    and "user_id r = map (\<lambda>b. char_of (unat b)) (demo_key x)"
    and "claim_verify demo_claim_env c ''s'' = Ok ()" and "claim_device demo_claim_env c = Ok (demo_device x)"
    and "ic_roster c = r" and "ic_mls_signer c = map (\<lambda>b. char_of (unat b)) (demo_key x)"
proof -
  obtain r where g: "genesis demo_roster_env (demo_device x) (demo_key x) = Ok r"
    and r: "devices demo_roster_env r = Ok [demo_device x]"
    using genesis_succeeds [OF demo_signing_laws demo_holds_key demo_device_valid] by blast
  from g have "user_id r = dd_signing_public_key (demo_device x)"
    by (auto simp: genesis_def and_then_Ok_iff user_id_def dest: signed_fields)
  moreover from r obtain c where "claim_verify demo_claim_env c ''s'' = Ok ()"
    "claim_device demo_claim_env c = Ok (demo_device x)"
    "ic_roster c = r" "ic_mls_signer c = map (\<lambda>b. char_of (unat b)) (demo_key x)"
    by (rule demo_claim [where x = x]) simp
  ultimately show ?thesis using that r by (simp add: demo_device_fields)
qed

lemma authorizes_own_admission:
  "devices env r = Ok ds \<Longrightarrow> d \<in> set ds \<Longrightarrow> authorizes_admitted env r r d = Ok True"
  by (simp add: authorizes_admitted_def revoked_since_def extends_def)

lemma check_fresh_client:
  assumes "claim_verify env c session = Ok ()" and "tp_roster t (user_id (ic_roster c)) = Some (ic_roster c)"
    and "tp_roster k (user_id (ic_roster c)) = None" and "length (tp_rosters k) < DM_USERS"
    and "\<forall>x \<in> set (tp_clients k). ic_mls_signer x \<noteq> ic_mls_signer c \<and> ic_device_id x \<noteq> ic_device_id c"
  shows "check_client env t session c k = Ok (k\<lparr>
      tp_rosters := filter (\<lambda>b. user_id b \<noteq> user_id (ic_roster c)) (tp_rosters k) @ [ic_roster c],
      tp_clients := tp_clients k @ [c]\<rparr>)"
proof -
  from assms(1) obtain d ds where d: "claim_device env c = Ok d" "devices (rost env) (ic_roster c) = Ok ds"
    "d \<in> set ds" by (rule claim_verify_device)
  have "find (\<lambda>x. ic_mls_signer x = ic_mls_signer c) (tp_clients k) = None"
    using assms(5) by (simp add: find_None_iff)
  with assms authorizes_own_admission [OF d(2,3)] d(1) claim_verify_session [OF assms(1)] show ?thesis
    by (simp add: check_client_def add_client_def admit_roster_def update_roster_def tp_client_def)
qed

text \<open>
  A claim that a device makes for itself is accepted by every reader: when a roster lists the
  device, the device holds the key of its descriptor and the display name is within bounds, the
  created claim verifies for its session and resolves to that device.
\<close>

theorem created_claim_verifies:
  assumes "signing_laws (rost env)" and "holds_key (rost env) (di_device identity) (di_key identity)"
    and "name \<noteq> []" and "length name \<le> MAX_DISPLAY_NAME_BYTES"
    and "is_ok (public_key (rost env) (hex_encode (sigs (rost env)) signer))"
    and "create_claim env identity r session signer name = Ok c"
  shows "claim_verify env c session = Ok () \<and> claim_device env c = Ok (di_device identity)"
  using create_claim_correct [OF assms] by simp

theorem created_claim_verifies_witness:
  "\<exists>r c. create_claim demo_claim_env (demo_identity 1 r) r ''s'' (demo_key 1) ''n'' = Ok c \<and>
     claim_verify demo_claim_env c ''s'' = Ok ()"
proof (rule demo_rosters)
  fix r1
  assume "devices demo_roster_env r1 = Ok [demo_device 1]"
  then obtain c where c: "create_claim demo_claim_env (demo_identity 1 r1) r1 ''s'' (demo_key 1) ''n'' = Ok c"
    using demo_claim_exists [of r1 _ 1] by auto
  have "claim_verify demo_claim_env c ''s'' = Ok ()"
    using created_claim_verifies [OF _ _ _ _ _ c] demo_signing_laws demo_holds_key demo_signer_ok
    by (simp add: MAX_DISPLAY_NAME_BYTES_def)
  with c show ?thesis by blast
qed

text \<open>
  Admitting a client keeps the topology sound: signers and devices stay bound one to one, there
  are never more than two users, every roster verifies, and every client's admission roster is a
  prefix of its user's current roster; the admitted claim is what its signer resolves to.
\<close>

theorem add_client_invariant:
  assumes "topology_wf env t" and "add_client env c t = Ok t'"
  shows "topology_wf env t' \<and> tp_client t' (ic_mls_signer c) = Some c"
  using add_client_wf [OF assms] tp_client_mem [of env t' c] by blast

theorem add_client_invariant_witness:
  "\<exists>c t. add_client demo_claim_env c \<lparr>tp_own_user_id = [], tp_clients = [], tp_rosters = []\<rparr> = Ok t \<and>
     topology_wf demo_claim_env t \<and> tp_client t (ic_mls_signer c) = Some c"
proof (rule demo_rosters)
  fix r1
  assume r1: "devices demo_roster_env r1 = Ok [demo_device 1]"
  then obtain c where c: "claim_verify demo_claim_env c ''s'' = Ok ()"
    by (rule demo_claim [where x = 1]) simp
  let ?t = "\<lparr>tp_own_user_id = [], tp_clients = [], tp_rosters = []\<rparr>"
  have "add_client demo_claim_env c ?t = Ok (?t\<lparr>tp_rosters := [ic_roster c], tp_clients := [c]\<rparr>)"
    using c claim_verify_session [OF c]
    by (simp add: add_client_def admit_roster_def update_roster_def tp_roster_def tp_client_def DM_USERS_def)
  with add_client_invariant [OF empty_topology_wf this] show ?thesis by blast
qed

text \<open>
  A topology that validates is complete and authorized: its signers are exactly the members of
  the MLS group, signers and devices are bound one to one, both users' rosters are present, every
  claim verifies for the session, and every client may take part in calls under the peer address of
  the device its claim names.
\<close>

theorem validated_topology_authorized:
  assumes "validate_topology env t session signers = Ok ()"
    and "mb_topology m = t" and "mb_pending_rosters m = []" and "\<not> mb_revoked m"
  shows "mset (map ic_mls_signer (tp_clients t)) = mset signers \<and>
    distinct (map ic_mls_signer (tp_clients t)) \<and> distinct (map ic_device_id (tp_clients t)) \<and>
    length (tp_rosters t) = 2 \<and>
    (\<forall>c \<in> set (tp_clients t). claim_verify env c session = Ok () \<and>
      (\<exists>d. claim_device env c = Ok d \<and> call_peer env m (ic_mls_signer c) = Some (dd_moss_peer_id d)))"
proof -
  let ?k = "\<lparr>tp_own_user_id = tp_own_user_id t, tp_clients = [], tp_rosters = []\<rparr>"
  from assms(1) obtain k where k: "check_clients env t session (tp_clients t) ?k = Ok k"
    and sorted: "sort (map ic_mls_signer (tp_clients t)) = sort signers"
    and len: "length (tp_clients k) = length (tp_clients t)" and two: "length (tp_rosters t) = 2"
    by (auto simp: validate_topology_def and_then_Ok_iff DM_USERS_def split: if_splits)
  from check_clients_sound [OF k empty_topology_wf] len
  have wf: "topology_wf env k" and same: "tp_clients k = tp_clients t"
    and each: "\<forall>c \<in> set (tp_clients t). claim_verify env c session = Ok () \<and>
      (\<exists>r d. tp_roster t (user_id (ic_roster c)) = Some r \<and> claim_device env c = Ok d \<and>
        authorizes_admitted (rost env) r (ic_roster c) d = Ok True)"
    by auto
  from wf same have dist: "distinct (map ic_mls_signer (tp_clients t))"
    "distinct (map ic_device_id (tp_clients t))" by (simp_all add: topology_wf_def)
  have "mset (map ic_mls_signer (tp_clients t)) = mset signers"
    using sorted by (metis mset_sort)
  with dist two each admitted_call_peer [OF dist _ _ _ _ assms(2-4)] show ?thesis by blast
qed

theorem validated_topology_authorized_witness:
  "\<exists>t c m. validate_topology demo_claim_env t ''s'' (map ic_mls_signer (tp_clients t)) = Ok () \<and>
     c \<in> set (tp_clients t) \<and> mb_topology m = t \<and>
     (\<exists>d :: device_descriptor. call_peer demo_claim_env m (ic_mls_signer c) = Some (dd_moss_peer_id d))"
proof -
  obtain ra a where a: "devices demo_roster_env ra = Ok [demo_device 1]"
    "user_id ra = map (\<lambda>b. char_of (unat b)) (demo_key 1)"
    "claim_verify demo_claim_env a ''s'' = Ok ()" "claim_device demo_claim_env a = Ok (demo_device 1)"
    "ic_roster a = ra" "ic_mls_signer a = map (\<lambda>b. char_of (unat b)) (demo_key 1)"
    by (rule demo_user [of 1])
  obtain rb b where b: "devices demo_roster_env rb = Ok [demo_device 2]"
    "user_id rb = map (\<lambda>b. char_of (unat b)) (demo_key 2)"
    "claim_verify demo_claim_env b ''s'' = Ok ()" "claim_device demo_claim_env b = Ok (demo_device 2)"
    "ic_roster b = rb" "ic_mls_signer b = map (\<lambda>b. char_of (unat b)) (demo_key 2)"
    by (rule demo_user [of 2])
  have ne: "user_id ra \<noteq> user_id rb" "ic_mls_signer a \<noteq> ic_mls_signer b"
    unfolding a(2,6) b(2,6) by (simp_all add: hex_chars_eq_iff replicate_eq_replicate)
  have "ic_device_id a \<noteq> ic_device_id b"
    using claim_device_id [OF a(4)] claim_device_id [OF b(4)] demo_device_id_eq_iff [of 1 2] by simp
  note ne = ne this
  define t where "t = \<lparr>tp_own_user_id = user_id ra, tp_clients = [a, b], tp_rosters = [ra, rb]\<rparr>"
  define k where "k = \<lparr>tp_own_user_id = user_id ra, tp_clients = [], tp_rosters = []\<rparr>"
  have "check_client demo_claim_env t ''s'' a k = Ok (k\<lparr>tp_rosters := [ra], tp_clients := [a]\<rparr>)"
    using a ne by (subst check_fresh_client) (simp_all add: t_def k_def tp_roster_def DM_USERS_def)
  moreover have "check_client demo_claim_env t ''s'' b (k\<lparr>tp_rosters := [ra], tp_clients := [a]\<rparr>) =
      Ok (k\<lparr>tp_rosters := [ra, rb], tp_clients := [a, b]\<rparr>)"
    using a b ne by (subst check_fresh_client) (simp_all add: t_def k_def tp_roster_def DM_USERS_def)
  ultimately have "check_clients demo_claim_env t ''s'' [a, b] k = Ok (k\<lparr>tp_rosters := [ra, rb], tp_clients := [a, b]\<rparr>)"
    by simp
  then have val: "validate_topology demo_claim_env t ''s'' (map ic_mls_signer (tp_clients t)) = Ok ()"
    by (simp add: validate_topology_def t_def k_def tp_roster_def DM_USERS_def)
  define m where "m = \<lparr>mb_topology = t, mb_revoked = False, mb_pending_rosters = [], mb_delivered_ids = []\<rparr>"
  have "a \<in> set (tp_clients t)" "mb_topology m = t" by (simp_all add: t_def m_def)
  moreover have "mb_pending_rosters m = []" "\<not> mb_revoked m" by (simp_all add: m_def)
  ultimately show ?thesis using validated_topology_authorized [OF val, of m] val by blast
qed

lemma revoked_call_peer:
  assumes "topology_wf env (mb_topology m)" and "c \<in> set (tp_clients (mb_topology m))"
    and "current_roster env m (user_id (ic_roster c)) = Some r"
    and "revoked_since (rost env) r (ic_roster c) (ic_device_id c) = Ok True"
  shows "call_peer env m (ic_mls_signer c) = None"
  using revoked_unauthorized [OF assms] tp_client_mem [OF assms(1,2)]
  by (auto simp: call_peer_def claim_device_id split: sum.split)

text \<open>
  A device whose removal is on record has no authority left: once the current roster of a user
  shows a removal after a client's admission, that client can neither be addressed in a call nor
  authorized as a device, in this state and after any further pinned or observed rosters.
\<close>

theorem removed_device_loses_authority:
  assumes "topology_wf env (mb_topology m)" and "c \<in> set (tp_clients (mb_topology m))"
    and "current_roster env m (user_id (ic_roster c)) = Some r"
    and "revoked_since (rost env) r (ic_roster c) (ic_device_id c) = Ok True"
    and "membership_steps env m m'"
  shows "call_peer env m' (ic_mls_signer c) = None \<and>
    (\<forall>d. dd_device_id d = ic_device_id c \<longrightarrow> \<not> authorized env m' d (user_id (ic_roster c)))"
proof -
  from assms(5,3,4) obtain r' where r': "current_roster env m' (user_id (ic_roster c)) = Some r'"
    "revoked_since (rost env) r' (ic_roster c) (ic_device_id c) = Ok True"
    by (rule membership_steps_revoked)
  have top: "mb_topology m' = mb_topology m" using membership_steps_current [OF assms(5,3)] by simp
  with revoked_unauthorized [OF _ _ r'] revoked_call_peer [OF _ _ r'] assms(1,2) show ?thesis by simp
qed

lemma demo_removed_client:
  "\<exists>m c r. topology_wf demo_claim_env (mb_topology m) \<and> c \<in> set (tp_clients (mb_topology m)) \<and>
     current_roster demo_claim_env m (user_id (ic_roster c)) = Some r \<and>
     revoked_since demo_roster_env r (ic_roster c) (ic_device_id c) = Ok True"
proof (rule demo_rosters)
  fix r2 r3
  assume r2: "devices demo_roster_env r2 = Ok [demo_device 1, demo_device 2]"
    and rev: "revoke demo_roster_env r2 (dd_device_id (demo_device 2)) (demo_key 1) = Ok r3"
    and r3: "devices demo_roster_env r3 = Ok [demo_device 1]"
  obtain c where c: "claim_verify demo_claim_env c ''s'' = Ok ()"
    "claim_device demo_claim_env c = Ok (demo_device 2)" "ic_roster c = r2"
    by (rule demo_claim [OF r2, of 2]) simp_all
  from rev obtain d e dg ds where e: "r3 = r2 @ [e]"
    and d: "find (\<lambda>d. dd_device_id d = dd_device_id (demo_device 2)) ds = Some d"
    and sg: "signed demo_roster_env REMOVAL_VERSION (Some dg)
      (device_id demo_roster_env (verifying_key demo_roster_env (demo_key 1))) d (demo_key 1) = Ok e"
    by (rule revoke_OkE)
  have "is_removal_of (ic_device_id c) e"
    using signed_fields [OF sg] find_SomeD [OF d] claim_device_id [OF c(2)] by (simp add: is_removal_of_def)
  then have since: "revoked_since demo_roster_env r3 r2 (ic_device_id c) = Ok True"
    using r3 e by (simp add: revoked_since_def extends_def)
  define m where "m = \<lparr>mb_topology = \<lparr>tp_own_user_id = [], tp_clients = [c], tp_rosters = [r2]\<rparr>,
    mb_revoked = False, mb_pending_rosters = [r3], mb_delivered_ids = []\<rparr>"
  have "topology_wf demo_claim_env (mb_topology m)"
    using c r2 claim_verify_session [OF c(1)] by (simp add: topology_wf_def m_def DM_USERS_def)
  moreover have mem: "c \<in> set (tp_clients (mb_topology m))" by (simp add: m_def)
  moreover have "r2 \<noteq> []" using r2 by (simp add: devices_Ok_iff)
  then have "user_id r3 = user_id r2" using e by (simp add: prefix_user_id)
  then have "current_roster demo_claim_env m (user_id (ic_roster c)) = Some r3"
    using c(3) r3 e by (simp add: m_def current_roster_def tp_roster_def extends_def)
  ultimately show ?thesis using since c(3) by blast
qed

theorem removed_device_loses_authority_witness:
  "\<exists>m c r. c \<in> set (tp_clients (mb_topology m)) \<and>
     revoked_since demo_roster_env r (ic_roster c) (ic_device_id c) = Ok True \<and>
     call_peer demo_claim_env m (ic_mls_signer c) = None"
proof -
  obtain m c r where m: "topology_wf demo_claim_env (mb_topology m)" "c \<in> set (tp_clients (mb_topology m))"
    "current_roster demo_claim_env m (user_id (ic_roster c)) = Some r"
    and r: "revoked_since (rost demo_claim_env) r (ic_roster c) (ic_device_id c) = Ok True"
    using demo_removed_client by auto
  from removed_device_loses_authority [OF m r membership_steps.stay] m(2) r show ?thesis by auto
qed

end
