(* ===== verification/Message_Log.thy ===== *)
theory Message_Log
  imports Prelude
begin

text \<open>
  The message list every conversation keeps: \<open>conversation/message_log.rs\<close>, the id generator of
  \<open>message_id.rs\<close>, the delivery states of \<open>outbound_delivery.rs\<close> and the message types of the three
  conversation kinds.

  The fields all kinds share form the record \<open>message\<close>; a DM, group or channel message extends it.
  What the trait \<open>ConversationMessage\<close> leaves to a kind (author, service message, erasure) is the
  locale \<open>conversation_message\<close>, interpreted for each kind. Wall-clock time and the random
  occurrence id are arguments; JSON encoding is a parameter. The \<open>Cell\<close> in the id generator wraps
  at \<open>u64::MAX\<close>, as in a release build.

  The theorems: a tombstone is never replaced by later traffic, ids stamped in one process run
  never repeat, an inserted message is found again, and delivery bookkeeping touches one message
  only.
\<close>

section \<open>Message types\<close>

datatype delete_scope = ForMe | ForEveryone

datatype deletion_status = DeletionPending | DeletionConfirmed | DeletionRejected

record deletion_marker =
  dm_scope :: delete_scope
  dm_status :: deletion_status
  dm_administrator :: "string option"

record message_origin =
  or_conversation :: string
  or_id :: string
  or_content_hash :: string
  or_author :: string
  or_signature :: string
  or_ownership :: "string option"

record message_metadata =
  md_origin :: "message_origin option"
  md_deletion :: "deletion_marker option"
  md_deletion_key :: "string option"
  md_personal_correlation :: "string option"
  md_can_delete_for_everyone :: bool
  md_local_only :: bool
  md_is_own :: "bool option"

definition default_metadata :: message_metadata where
  "default_metadata =
     \<lparr>md_origin = None, md_deletion = None, md_deletion_key = None, md_personal_correlation = None,
      md_can_delete_for_everyone = False, md_local_only = False, md_is_own = None\<rparr>"

record voice_meta =
  vm_duration_ms :: u32
  vm_peaks_b64 :: string

record attachment_descriptor =
  ad_attachment_id :: string
  ad_content_hash :: string
  ad_file_name :: string
  ad_mime :: string
  ad_total_size :: u64
  ad_thumbnail_b64 :: "string option"
  ad_voice :: "voice_meta option"

datatype message_delivery_status = Pending | Queued | Sent | Delivered | Failed

record message_delivery_meta =
  dl_status :: "message_delivery_status option"
  dl_error :: "string option"
  dl_retryable :: "bool option"
  dl_retry_count :: "u32 option"

record message =
  metadata :: "message_metadata option"
  from_device :: string
  body :: string
  message_id :: "string option"
  sent_at_ms :: "u64 option"
  attachment :: "attachment_descriptor option"
  delivery_status :: "message_delivery_status option"
  delivery_error :: "string option"
  retryable :: "bool option"
  retry_count :: "u32 option"

record call_event =
  ce_kind :: string
  ce_duration_ms :: u64
  ce_call_id :: string

record chat_message = message +
  call_event :: "call_event option"
  read_receipt :: "bool option"

record group_message = message +
  gm_from_fingerprint :: string
  name_change :: "string option"

record channel_message = message +
  cm_from_fingerprint :: string

definition set_delivery :: "message_delivery_meta \<Rightarrow> 'x message_scheme \<Rightarrow> 'x message_scheme" where
  "set_delivery d m =
     m\<lparr>delivery_status := dl_status d, delivery_error := dl_error d,
       retryable := dl_retryable d, retry_count := dl_retry_count d\<rparr>"

text \<open>The part of \<open>erase_content\<close> the three kinds have in common, then the three.\<close>

definition erase_shared :: "'x message_scheme \<Rightarrow> 'x message_scheme" where
  "erase_shared m =
     m\<lparr>body := [], attachment := None, delivery_status := None, delivery_error := None,
       retryable := None, retry_count := None\<rparr>"

definition chat_erase_content :: "chat_message \<Rightarrow> chat_message" where
  "chat_erase_content m = (erase_shared m)\<lparr>call_event := None\<rparr>"

definition group_erase_content :: "group_message \<Rightarrow> group_message" where
  "group_erase_content m = (erase_shared m)\<lparr>name_change := None\<rparr>"

definition channel_erase_content :: "channel_message \<Rightarrow> channel_message" where
  "channel_erase_content m = erase_shared m"

definition chat_is_service :: "chat_message \<Rightarrow> bool" where
  "chat_is_service m \<longleftrightarrow> call_event m \<noteq> None"

definition group_is_service :: "group_message \<Rightarrow> bool" where
  "group_is_service m \<longleftrightarrow> name_change m \<noteq> None"

definition chat_call_id :: "chat_message \<Rightarrow> string option" where
  "chat_call_id m = map_option ce_call_id (call_event m)"

definition deletion_of :: "'x message_scheme \<Rightarrow> deletion_marker option" where
  "deletion_of m = Option.bind (metadata m) md_deletion"

abbreviation is_tombstone :: "'x message_scheme \<Rightarrow> bool" where
  "is_tombstone m \<equiv> deletion_of m \<noteq> None"

section \<open>The log\<close>

record 'm message_log =
  log_messages :: "'m list"
  id_seq :: u64
  erased_ids :: "string set"
  revision :: u64

datatype log_error = Missing string | LogCodec string

definition new_log :: "'m message_log" where
  "new_log = \<lparr>log_messages = [], id_seq = 0, erased_ids = {}, revision = 0\<rparr>"

definition next_id :: "u64 \<Rightarrow> 'm message_log \<Rightarrow> 'm message_log \<times> string" where
  "next_id at l =
     (l\<lparr>id_seq := id_seq l + 1\<rparr>, dec (unat at) @ ''-'' @ dec_min 6 (unat (id_seq l)))"

definition stamp ::
    "u64 \<Rightarrow> string \<Rightarrow> 'x message_scheme \<Rightarrow> 'x message_scheme message_log \<Rightarrow>
     'x message_scheme message_log \<times> 'x message_scheme" where
  "stamp now occurrence m l =
     (let at = (case sent_at_ms m of None \<Rightarrow> now | Some t \<Rightarrow> t);
          m1 = m\<lparr>sent_at_ms := Some at\<rparr>
      in if (case message_id m1 of None \<Rightarrow> [] | Some i \<Rightarrow> i) = [] then
           (let (l1, i) = next_id at l
            in (l1, m1\<lparr>message_id := Some (i @ ''-'' @ occurrence)\<rparr>))
         else (l, m1))"

definition remember_erasure ::
    "'x message_scheme \<Rightarrow> 'x message_scheme message_log \<Rightarrow> 'x message_scheme message_log" where
  "remember_erasure m l =
     (if is_tombstone m then
        (case message_id m of None \<Rightarrow> l | Some i \<Rightarrow> l\<lparr>erased_ids := insert i (erased_ids l)\<rparr>)
      else l)"

definition log_push ::
    "'x message_scheme \<Rightarrow> 'x message_scheme message_log \<Rightarrow> 'x message_scheme message_log" where
  "log_push m l =
     (let l1 = l\<lparr>revision := revision l + 1\<rparr>
      in if (case message_id m of None \<Rightarrow> False | Some i \<Rightarrow> i \<in> erased_ids l1) then l1
         else (remember_erasure m l1)\<lparr>log_messages := log_messages l @ [m]\<rparr>)"

definition push_stamped ::
    "u64 \<Rightarrow> string \<Rightarrow> 'x message_scheme \<Rightarrow> 'x message_scheme message_log \<Rightarrow>
     'x message_scheme message_log" where
  "push_stamped now occurrence m l =
     (let (l1, m1) = stamp now occurrence m l in log_push m1 l1)"

definition has_id :: "string \<Rightarrow> 'x message_scheme \<Rightarrow> bool" where
  "has_id i m \<longleftrightarrow> message_id m = Some i"

definition find_message :: "string \<Rightarrow> 'x message_scheme message_log \<Rightarrow> 'x message_scheme option" where
  "find_message i l = find (has_id i) (log_messages l)"

definition upsert ::
    "'x message_scheme \<Rightarrow> 'x message_scheme message_log \<Rightarrow> 'x message_scheme message_log" where
  "upsert m l =
     (let l1 = remember_erasure m (l\<lparr>revision := revision l + 1\<rparr>);
          append = l1\<lparr>log_messages := log_messages l1 @ [m]\<rparr>
      in case message_id m of
           None \<Rightarrow> append
         | Some i \<Rightarrow>
             (case find_message i l1 of
                None \<Rightarrow> append
              | Some existing \<Rightarrow>
                  if is_tombstone existing then l1
                  else l1\<lparr>log_messages := update_first (has_id i) (\<lambda>_. m) (log_messages l1)\<rparr>))"

text \<open>\<open>replace\<close> indexes the vector and panics out of range: no result.\<close>

definition log_replace ::
    "nat \<Rightarrow> 'x message_scheme \<Rightarrow> 'x message_scheme message_log \<Rightarrow> 'x message_scheme message_log option" where
  "log_replace index m l =
     (if index < length (log_messages l) then
        Some ((remember_erasure m (l\<lparr>revision := revision l + 1\<rparr>))
                \<lparr>log_messages := (log_messages l)[index := m]\<rparr>)
      else None)"

definition visible :: "'x message_scheme message_log \<Rightarrow> 'x message_scheme list" where
  "visible l =
     filter (\<lambda>m. \<not> (case deletion_of m of None \<Rightarrow> False | Some d \<Rightarrow> dm_scope d = ForMe)) (log_messages l)"

definition same_copy ::
    "('x message_scheme \<Rightarrow> string) \<Rightarrow> 'x message_scheme \<Rightarrow> 'x message_scheme \<Rightarrow> bool" where
  "same_copy author existing candidate \<longleftrightarrow>
     author existing = author candidate \<and>
     (case (message_id existing, message_id candidate) of
        (Some left, Some right) \<Rightarrow>
          if left \<noteq> [] \<and> right \<noteq> [] then left = right
          else sent_at_ms existing = sent_at_ms candidate \<and> body existing = body candidate
      | _ \<Rightarrow> sent_at_ms existing = sent_at_ms candidate \<and> body existing = body candidate)"

definition holds_copy_of ::
    "('x message_scheme \<Rightarrow> string) \<Rightarrow> 'x message_scheme \<Rightarrow> 'x message_scheme message_log \<Rightarrow> bool" where
  "holds_copy_of author candidate l \<longleftrightarrow> list_ex (\<lambda>m. same_copy author m candidate) (log_messages l)"

definition delivery_meta ::
    "message_delivery_status \<Rightarrow> string option \<Rightarrow> u32 \<Rightarrow> message_delivery_meta" where
  "delivery_meta status error count =
     \<lparr>dl_status = Some status, dl_error = error, dl_retryable = Some (status = Failed),
      dl_retry_count = Some count\<rparr>"

definition mark_delivery ::
    "string \<Rightarrow> message_delivery_status \<Rightarrow> string option \<Rightarrow> u32 \<Rightarrow> 'x message_scheme message_log \<Rightarrow>
     'x message_scheme message_log \<times> (log_error, unit) result" where
  "mark_delivery i status error count l =
     (let l1 = l\<lparr>revision := revision l + 1\<rparr>
      in case find_message i l1 of
           None \<Rightarrow> (l1, Err (Missing i))
         | Some _ \<Rightarrow>
             (l1\<lparr>log_messages :=
                   update_first (has_id i) (set_delivery (delivery_meta status error count)) (log_messages l1)\<rparr>,
              Ok ()))"

definition json_for ::
    "('x message_scheme \<Rightarrow> (string, string) result) \<Rightarrow> string \<Rightarrow> 'x message_scheme message_log \<Rightarrow>
     (log_error, string) result" where
  "json_for to_json i l =
     and_then (ok_or (find_message i l) (Missing i)) (\<lambda>m.
       case to_json m of Inl e \<Rightarrow> Err (LogCodec e) | Inr s \<Rightarrow> Ok s)"

section \<open>What a kind of message provides\<close>

locale conversation_message =
  fixes author :: "'x message_scheme \<Rightarrow> string"
    and is_service :: "'x message_scheme \<Rightarrow> bool"
    and erase_content :: "'x message_scheme \<Rightarrow> 'x message_scheme"
  assumes erase_metadata: "metadata (erase_content m) = metadata m"
    and erase_id: "message_id (erase_content m) = message_id m"
    and erase_sent: "sent_at_ms (erase_content m) = sent_at_ms m"
    and erase_author: "author (erase_content m) = author m"
    and erase_body: "body (erase_content m) = []"
    and erase_attachment: "attachment (erase_content m) = None"
    and erase_service: "\<not> is_service (erase_content m)"
    and erase_delivery: "delivery_status (erase_content m) = None"
    and metadata_update_id: "message_id (metadata_update f m) = message_id m"
begin

lemma erase_tombstone: "deletion_of (erase_content m) = deletion_of m"
  by (simp add: deletion_of_def erase_metadata)

lemma erase_same_copy:
  "message_id m = Some i \<Longrightarrow> i \<noteq> [] \<Longrightarrow> same_copy author (erase_content m) m"
  by (simp add: same_copy_def erase_author erase_id)

lemma erase_has_id: "has_id i (erase_content m) = has_id i m"
  by (simp add: has_id_def erase_id)

end

lemmas erase_defs = erase_shared_def chat_erase_content_def group_erase_content_def
  channel_erase_content_def chat_is_service_def group_is_service_def

interpretation chat: conversation_message from_device chat_is_service chat_erase_content
  by unfold_locales (auto simp: erase_defs)

interpretation group: conversation_message gm_from_fingerprint group_is_service group_erase_content
  by unfold_locales (auto simp: erase_defs)

interpretation channel: conversation_message cm_from_fingerprint "\<lambda>_. False" channel_erase_content
  by unfold_locales (auto simp: erase_defs)

section \<open>Lookup after each operation\<close>

lemma log_messages_remember [simp]: "log_messages (remember_erasure m l) = log_messages l"
  by (simp add: remember_erasure_def split: option.split)

lemma find_message_remember [simp]: "find_message i (remember_erasure m l) = find_message i l"
  by (simp add: find_message_def)

lemma find_message_fields [simp]:
  "find_message i (l\<lparr>revision := r\<rparr>) = find_message i l"
  "find_message i (l\<lparr>id_seq := q\<rparr>) = find_message i l"
  by (simp_all add: find_message_def)

lemma find_message_new_log [simp]: "find_message i new_log = None"
  by (simp add: find_message_def new_log_def)

lemma find_message_has_id: "find_message i l = Some m \<Longrightarrow> message_id m = Some i"
  by (auto simp: find_message_def has_id_def dest: find_SomeD)

lemma find_message_push:
  "find_message i (log_push m l) =
     (case find_message i l of Some t \<Rightarrow> Some t
      | None \<Rightarrow> if message_id m = Some i \<and> i \<notin> erased_ids l then Some m else None)"
  by (auto simp: log_push_def Let_def find_message_def find_append has_id_def split: option.splits)

lemma find_message_stamp [simp]: "find_message i (fst (stamp now occ m l)) = find_message i l"
  by (simp add: stamp_def next_id_def Let_def)

lemma find_message_push_stamped:
  assumes "find_message i l = Some t"
  shows "find_message i (push_stamped now occ m l) = Some t"
proof -
  obtain l1 m1 where st: "stamp now occ m l = (l1, m1)" by fastforce
  with assms find_message_stamp [of i now occ m l] have "find_message i l1 = Some t" by simp
  with st show ?thesis by (simp add: push_stamped_def find_message_push)
qed

lemma find_message_upsert:
  assumes "message_id m = Some j"
  shows "find_message i (upsert m l) =
    (if i = j then
       (case find_message j l of None \<Rightarrow> Some m | Some t \<Rightarrow> Some (if is_tombstone t then t else m))
     else find_message i l)"
proof (cases "find_message j l")
  case None
  then show ?thesis using assms
    by (auto simp: upsert_def Let_def find_message_def find_append has_id_def split: option.splits)
next
  case (Some t)
  show ?thesis
  proof (cases "i = j")
    case True
    have "find (has_id j) (update_first (has_id j) (\<lambda>_. m) (log_messages l)) =
        map_option (\<lambda>_. m) (find (has_id j) (log_messages l))"
      using assms by (intro find_update_first_same) (simp add: has_id_def)
    with Some True assms show ?thesis by (simp add: upsert_def Let_def find_message_def)
  next
    case False
    then have "find (has_id i) (update_first (has_id j) (\<lambda>_. m) (log_messages l)) =
        find (has_id i) (log_messages l)"
      using assms by (intro find_update_first_other) (simp add: has_id_def)
    with Some False assms show ?thesis by (simp add: upsert_def Let_def find_message_def)
  qed
qed

lemma find_message_upsert_no_id:
  "message_id m = None \<Longrightarrow> find_message i (upsert m l) = find_message i l"
  by (simp add: upsert_def Let_def find_message_def find_append has_id_def split: option.split)

lemma find_message_mark:
  "find_message i (fst (mark_delivery j st e n l)) =
     (if i = j then map_option (set_delivery (delivery_meta st e n)) (find_message i l)
      else find_message i l)"
proof (cases "find_message j l")
  case None
  then show ?thesis by (simp add: mark_delivery_def Let_def)
next
  case (Some t)
  let ?f = "set_delivery (delivery_meta st e n)"
  have same: "find (has_id j) (update_first (has_id j) ?f (log_messages l)) =
      map_option ?f (find (has_id j) (log_messages l))"
    by (rule find_update_first_same) (simp add: has_id_def set_delivery_def)
  have other: "i \<noteq> j \<Longrightarrow> find (has_id i) (update_first (has_id j) ?f (log_messages l)) =
      find (has_id i) (log_messages l)"
    by (rule find_update_first_other) (simp add: has_id_def set_delivery_def)
  from Some same other show ?thesis by (simp add: mark_delivery_def Let_def find_message_def)
qed

section \<open>Runs of the log\<close>

datatype 'm log_event =
    Pushed 'm
  | PushedStamped u64 string 'm
  | Upserted 'm
  | Marked string message_delivery_status "string option" u32

fun log_step ::
    "'x message_scheme message_log \<Rightarrow> 'x message_scheme log_event \<Rightarrow> 'x message_scheme message_log" where
  "log_step l (Pushed m) = log_push m l"
| "log_step l (PushedStamped now occ m) = push_stamped now occ m l"
| "log_step l (Upserted m) = upsert m l"
| "log_step l (Marked i st e n) = fst (mark_delivery i st e n l)"

text \<open>
  Beside these, erasure replaces a row by a tombstone of the same id (\<open>application.rs\<close> calls \<open>replace\<close>
  so); a replacement of another kind is no event here.
\<close>

datatype 'm log_change = Changed "'m log_event" | Erased nat 'm

fun change_log ::
    "'x message_scheme message_log \<Rightarrow> 'x message_scheme log_change \<Rightarrow> 'x message_scheme message_log" where
  "change_log l (Changed ev) = log_step l ev"
| "change_log l (Erased n m) =
     (if n < length (log_messages l) \<and> is_tombstone m \<and> message_id m = message_id (log_messages l ! n)
      then (case log_replace n m l of None \<Rightarrow> l | Some l1 \<Rightarrow> l1) else l)"

text \<open>Every tombstone with an id is remembered.\<close>

definition erased_known :: "'x message_scheme message_log \<Rightarrow> bool" where
  "erased_known l \<longleftrightarrow> (\<forall>m \<in> set (log_messages l). is_tombstone m \<longrightarrow> (\<forall>i. message_id m = Some i \<longrightarrow> i \<in> erased_ids l))"

text \<open>What the rows with an id show, in the order of the log.\<close>

abbreviation shown_content :: "'x message_scheme \<Rightarrow> message_metadata option \<times> string \<times> attachment_descriptor option" where
  "shown_content m \<equiv> (metadata m, body m, attachment m)"

definition copies ::
    "string \<Rightarrow> 'x message_scheme message_log \<Rightarrow> (message_metadata option \<times> string \<times> attachment_descriptor option) list" where
  "copies i l = map shown_content (filter (has_id i) (log_messages l))"

lemma erased_ids_remember: "erased_ids (remember_erasure m l) =
    (if is_tombstone m then erased_ids l \<union> set_option (message_id m) else erased_ids l)"
  by (auto simp: remember_erasure_def split: option.split)

lemma stamp_log [simp]:
  "log_messages (fst (stamp now occ m l)) = log_messages l" "erased_ids (fst (stamp now occ m l)) = erased_ids l"
  by (simp_all add: stamp_def next_id_def Let_def)

lemma log_push_known: "erased_known l \<Longrightarrow> erased_known (log_push m l)"
  by (auto simp: erased_known_def log_push_def Let_def erased_ids_remember split: option.splits if_splits)

lemma set_update_first_weak: "set (update_first P f xs) \<subseteq> set xs \<union> f ` set xs"
  by (induction xs) auto

lemma upsert_rows: "set (log_messages (upsert m l)) \<subseteq> insert m (set (log_messages l))"
  using set_update_first_weak [of "has_id (the (message_id m))" "\<lambda>_. m" "log_messages l"]
  by (auto simp: upsert_def Let_def split: option.split)

lemma erased_ids_upsert: "erased_ids (upsert m l) = erased_ids (remember_erasure m l)"
  by (simp add: upsert_def Let_def erased_ids_remember split: option.split)

lemma upsert_known: "erased_known l \<Longrightarrow> erased_known (upsert m l)"
  using upsert_rows [of m l] by (auto simp: erased_known_def erased_ids_upsert erased_ids_remember)

lemma mark_delivery_known: "erased_known l \<Longrightarrow> erased_known (fst (mark_delivery i st e n l))"
proof -
  assume known: "erased_known l"
  let ?f = "set_delivery (delivery_meta st e n)"
  have same: "metadata (?f x) = metadata x" "message_id (?f x) = message_id x" for x :: "'a message_scheme"
    by (simp_all add: set_delivery_def)
  have "is_tombstone x \<longrightarrow> (\<forall>j. message_id x = Some j \<longrightarrow> j \<in> erased_ids l)"
    if "x \<in> set (update_first (has_id i) ?f (log_messages l))" for x
    using subsetD [OF set_update_first_weak that] known by (auto simp: erased_known_def deletion_of_def same)
  with known show ?thesis by (auto simp: erased_known_def mark_delivery_def Let_def split: option.split)
qed

lemma log_change_known: "erased_known l \<Longrightarrow> erased_known (change_log l ev)"
proof (induction l ev rule: change_log.induct)
  case (1 l ev)
  have "erased_known (fst (stamp now occ m l))" for now occ m using 1 by (simp add: erased_known_def)
  with 1 show ?case
    by (cases ev) (auto simp: push_stamped_def case_prod_unfold Let_def intro: log_push_known upsert_known mark_delivery_known)
next
  case (2 l n m)
  then show ?case
    by (auto simp: log_replace_def erased_known_def erased_ids_remember dest!: subsetD [OF set_update_subset_insert])
qed

lemma filter_update_first:
  "(\<And>x. P x \<Longrightarrow> Q (f x) = Q x) \<Longrightarrow> (\<And>x. P x \<Longrightarrow> Q x \<Longrightarrow> g (f x) = g x) \<Longrightarrow>
   map g (filter Q (update_first P f xs)) = map g (filter Q xs)"
  by (induction xs) auto

lemma copies_log_step:
  assumes "i \<in> erased_ids l" and "copies i l \<noteq> []" and "list_all (\<lambda>v. Option.bind (fst v) md_deletion \<noteq> None) (copies i l)"
  shows "copies i (log_step l ev) = copies i l" and "i \<in> erased_ids (log_step l ev)"
proof -
  have push: "copies i (log_push m l') = copies i l'" "i \<in> erased_ids (log_push m l')" if "i \<in> erased_ids l'" for m and l' :: "'a message_scheme message_log"
    using that by (auto simp: copies_def log_push_def Let_def has_id_def erased_ids_remember split: option.split)
  have st: "copies i (fst (stamp now occ m l)) = copies i l" for now occ m by (simp add: copies_def)
  have found: "\<exists>t. find_message i l = Some t \<and> is_tombstone t"
  proof -
    obtain t where t: "find_message i l = Some t"
      using assms(2) by (cases "find_message i l") (auto simp: copies_def find_message_def find_None_iff filter_empty_conv)
    then have "t \<in> set (log_messages l)" "has_id i t" by (auto simp: find_message_def dest: find_SomeD)
    with t assms(3) show ?thesis by (auto simp: copies_def list_all_iff deletion_of_def)
  qed
  have up: "copies i (upsert m l) = copies i l" for m
    using found by (cases "message_id m")
      (auto simp: copies_def upsert_def Let_def has_id_def find_message_def deletion_of_def intro!: filter_update_first split: option.split)
  have mark: "copies i (fst (mark_delivery j st e n l)) = copies i l" for j st e n
    by (auto simp: copies_def mark_delivery_def Let_def has_id_def set_delivery_def intro!: filter_update_first split: option.split)
  have ids: "i \<in> erased_ids (upsert m l)" "i \<in> erased_ids (fst (mark_delivery j st e n l))" for m j st e n
    using assms(1) by (auto simp: upsert_def mark_delivery_def Let_def erased_ids_remember split: option.split)
  show "copies i (log_step l ev) = copies i l"
    using assms(1) push(1) st up mark by (cases ev) (simp_all add: push_stamped_def case_prod_unfold Let_def)
  show "i \<in> erased_ids (log_step l ev)"
    using assms(1) push(2) ids by (cases ev) (simp_all add: push_stamped_def case_prod_unfold Let_def)
qed

lemma length_filter_list_update: "n < length xs \<Longrightarrow> P y = P (xs ! n) \<Longrightarrow> length (filter P (xs[n := y])) = length (filter P xs)"
  by (induction xs arbitrary: n) (auto split: nat.split)

text \<open>The rows of the id \<open>i\<close> are \<open>n\<close> tombstones with contents from \<open>V\<close>.\<close>

definition shows_erased ::
    "string \<times> nat \<times> (message_metadata option \<times> string \<times> attachment_descriptor option) set \<Rightarrow> 'x message_scheme message_log \<Rightarrow> bool" where
  "shows_erased = (\<lambda>(i, n, V) l. i \<in> erased_ids l \<and> copies i l \<noteq> [] \<and> length (copies i l) = n \<and>
     list_all (\<lambda>v. Option.bind (fst v) md_deletion \<noteq> None \<and> v \<in> V) (copies i l))"

definition erases_within ::
    "string \<times> nat \<times> (message_metadata option \<times> string \<times> attachment_descriptor option) set \<Rightarrow> 'x message_scheme log_change \<Rightarrow> bool" where
  "erases_within = (\<lambda>(i, n, V) ev. case ev of Changed _ \<Rightarrow> True | Erased _ u \<Rightarrow> shown_content u \<in> V)"

lemma log_change_keeps_erased: "shows_erased k l \<Longrightarrow> erases_within k ev \<Longrightarrow> shows_erased k (change_log l ev)"
proof (cases ev)
  case (Changed e)
  assume "shows_erased k l"
  with Changed copies_log_step [of "fst k" l e] show ?thesis by (auto simp: shows_erased_def list_all_iff case_prod_unfold)
next
  case (Erased n m)
  assume k: "shows_erased k l" and w: "erases_within k ev"
  show ?thesis
  proof (cases "n < length (log_messages l) \<and> is_tombstone m \<and> message_id m = message_id (log_messages l ! n)")
    case True
    let ?l = "change_log l ev"
    have l: "log_messages ?l = (log_messages l)[n := m]" "erased_ids l \<subseteq> erased_ids ?l"
      using True Erased by (auto simp: log_replace_def erased_ids_remember)
    have len: "length (copies i ?l) = length (copies i l)" for i
      using True by (simp add: copies_def l(1) length_filter_list_update has_id_def)
    have sub: "set (copies i ?l) \<subseteq> insert (shown_content m) (set (copies i l))" for i
      by (auto simp: copies_def l(1) dest!: subsetD [OF set_update_subset_insert])
    have "copies (fst k) ?l \<noteq> []" using k len [of "fst k"] by (cases "copies (fst k) ?l") (auto simp: shows_erased_def case_prod_unfold)
    with k w True Erased l(2) len sub [of "fst k"] show ?thesis
      by (fastforce simp: shows_erased_def erases_within_def list_all_iff case_prod_unfold deletion_of_def)
  next
    case False
    then have "change_log l ev = l" using Erased by auto
    with k show ?thesis by simp
  qed
qed

interpretation log_changes: keeping_machine change_log erased_known shows_erased erases_within
  by unfold_locales (auto intro: log_change_known log_change_keeps_erased)

text \<open>Stamping a sequence of requests: for each, the clock, the random part and the message.\<close>

fun stamp_all ::
    "(u64 \<times> string \<times> 'x message_scheme) list \<Rightarrow> 'x message_scheme message_log \<Rightarrow>
     'x message_scheme message_log \<times> 'x message_scheme list" where
  "stamp_all [] l = (l, [])"
| "stamp_all ((now, occ, m) # rs) l =
     (let (l1, m1) = stamp now occ m l; (l2, ms) = stamp_all rs l1 in (l2, m1 # ms))"

definition lacks_id :: "'x message_scheme \<Rightarrow> bool" where
  "lacks_id m \<longleftrightarrow> message_id m = None \<or> message_id m = Some []"

lemma stamp_fresh:
  assumes "lacks_id m"
  shows "\<exists>at. stamp now occ m l =
    (l\<lparr>id_seq := id_seq l + 1\<rparr>,
     m\<lparr>sent_at_ms := Some at,
       message_id := Some (dec (unat at) @ CHR ''-'' # dec_min 6 (unat (id_seq l)) @ CHR ''-'' # occ)\<rparr>)"
  using assms by (auto simp: lacks_id_def stamp_def next_id_def Let_def)

lemma stamp_all_ids:
  assumes "\<forall>r \<in> set rs. lacks_id (snd (snd r))"
  shows "\<exists>ats occs. map message_id (snd (stamp_all rs l)) =
    map (\<lambda>k. Some (dec (ats k) @ CHR ''-'' # dec_min 6 (unat (id_seq l + of_nat k)) @ CHR ''-'' # occs k))
      [0..<length rs]"
  using assms
proof (induction rs arbitrary: l)
  case Nil
  then show ?case by simp
next
  case (Cons r rs)
  obtain now occ m where r: "r = (now, occ, m)" by (metis prod_cases3)
  with Cons.prems have "lacks_id m" by simp
  then obtain at where st: "stamp now occ m l =
    (l\<lparr>id_seq := id_seq l + 1\<rparr>,
     m\<lparr>sent_at_ms := Some at,
       message_id := Some (dec (unat at) @ CHR ''-'' # dec_min 6 (unat (id_seq l)) @ CHR ''-'' # occ)\<rparr>)"
    using stamp_fresh by blast
  obtain l2 ms where sa: "stamp_all rs (l\<lparr>id_seq := id_seq l + 1\<rparr>) = (l2, ms)" by fastforce
  from Cons.prems have "\<forall>r \<in> set rs. lacks_id (snd (snd r))" by simp
  from Cons.IH [OF this, of "l\<lparr>id_seq := id_seq l + 1\<rparr>"] obtain ats occs where
    "map message_id ms = map (\<lambda>k. Some (dec (ats k) @ CHR ''-'' #
       dec_min 6 (unat (id_seq l + 1 + of_nat k)) @ CHR ''-'' # occs k)) [0..<length rs]"
    by (auto simp: sa)
  with st sa show ?case
    by (intro exI [of _ "case_nat (unat at) ats"] exI [of _ "case_nat occ occs"])
      (simp add: r upt_conv_Cons map_Suc_upt [symmetric] comp_def add.assoc del: upt_Suc)
qed

lemma stamped_id_inject:
  assumes "dec a @ CHR ''-'' # dec_min 6 m @ CHR ''-'' # x = dec b @ CHR ''-'' # dec_min 6 n @ CHR ''-'' # y"
  shows "m = n"
proof -
  have "dec_min 6 m @ CHR ''-'' # x = dec_min 6 n @ CHR ''-'' # y"
    using assms by (simp add: dec_def split_at_separator dash_not_in_dec_min)
  then show ?thesis by (simp add: split_at_separator dash_not_in_dec_min dec_min_inject)
qed

definition demo_message :: "string option \<Rightarrow> chat_message" where
  "demo_message i =
     \<lparr>metadata = None, from_device = ''A'', body = ''hi'', message_id = i, sent_at_ms = None,
      attachment = None, delivery_status = None, delivery_error = None, retryable = None,
      retry_count = None, call_event = None, read_receipt = None\<rparr>"

definition demo_tombstone :: chat_message where
  "demo_tombstone =
     chat_erase_content ((demo_message (Some ''m''))
       \<lparr>metadata := Some (default_metadata\<lparr>md_deletion :=
          Some \<lparr>dm_scope = ForEveryone, dm_status = DeletionConfirmed, dm_administrator = None\<rparr>\<rparr>)\<rparr>)"

lemmas demo_message_defs = demo_message_def demo_tombstone_def erase_defs deletion_of_def
  default_metadata_def has_id_def

section \<open>Properties\<close>

text \<open>
  C37. Deleted content does not come back. Take any log that came about from the empty one by pushes,
  stamped pushes, upserts, delivery marks and erasures, and an id whose rows in it are all tombstones.
  After any further such changes there are as many rows with this id, all of them tombstones, and each
  shows the marker, body and attachment of a tombstone that was there or that an erasure put in.
\<close>

theorem tombstone_permanent:
  assumes "l = foldl change_log new_log past" and "find_message i l \<noteq> None"
    and "list_all (\<lambda>m. has_id i m \<longrightarrow> is_tombstone m) (log_messages l)" and "l' = foldl change_log l evs"
  shows "length (filter (has_id i) (log_messages l')) = length (filter (has_id i) (log_messages l)) \<and>
    list_all (\<lambda>m. has_id i m \<longrightarrow> is_tombstone m) (log_messages l') \<and>
    set (copies i l') \<subseteq> set (copies i l) \<union> {shown_content u |n u. Erased n u \<in> set evs}"
proof -
  let ?V = "set (copies i l) \<union> {shown_content u |n u. Erased n u \<in> set evs}" and ?n = "length (copies i l)"
  have known: "erased_known l" unfolding assms(1) by (rule log_changes.run_inv) (simp add: erased_known_def new_log_def)
  obtain t where t: "t \<in> set (log_messages l)" "has_id i t"
    using assms(2) by (auto simp: find_message_def dest: find_SomeD)
  then have "i \<in> erased_ids l" "copies i l \<noteq> []"
    using known assms(3) by (auto simp: erased_known_def list_all_iff has_id_def copies_def filter_empty_conv)
  then have start: "shows_erased (i, ?n, ?V) l"
    using assms(3) by (auto simp: shows_erased_def list_all_iff copies_def deletion_of_def)
  have "erases_within (i, ?n, ?V) ev" if "ev \<in> set evs" for ev
  proof (cases ev)
    case (Erased n u)
    with that show ?thesis by (auto simp: erases_within_def)
  qed (simp add: erases_within_def)
  with log_changes.run_keeps [OF known start, of evs] have "shows_erased (i, ?n, ?V) l'" by (simp add: assms(4))
  then show ?thesis by (auto simp: shows_erased_def list_all_iff copies_def deletion_of_def)
qed

theorem tombstone_permanent_witness:
  "let l' = foldl change_log (foldl change_log new_log [Changed (Pushed demo_tombstone)])
     [Changed (Upserted (demo_message (Some ''m''))), Changed (Pushed (demo_message (Some ''m'')))]
   in length (filter (has_id ''m'') (log_messages l')) = 1 \<and> set (copies ''m'' l') \<subseteq> {shown_content demo_tombstone}"
proof -
  let ?l = "foldl change_log new_log [Changed (Pushed demo_tombstone)]"
  have log: "log_messages (log_push demo_tombstone new_log) = [demo_tombstone]"
    by (simp add: log_push_def Let_def demo_message_defs) (simp add: new_log_def)
  have m: "has_id ''m'' demo_tombstone" "is_tombstone demo_tombstone" by (simp_all add: demo_message_defs)
  have "find_message ''m'' ?l \<noteq> None" "list_all (\<lambda>m. has_id ''m'' m \<longrightarrow> is_tombstone m) (log_messages ?l)"
    using m by (simp_all add: find_message_def log)
  from tombstone_permanent [OF refl this refl, of "[Changed (Upserted (demo_message (Some ''m''))), Changed (Pushed (demo_message (Some ''m'')))]"]
  show ?thesis using m by (simp add: Let_def log copies_def)
qed

text \<open>
  Ids stamped within one process run never repeat: up to the full range of the 64-bit counter,
  the messages stamped from one log have pairwise different ids, whatever the clock reports and
  even if the random part repeats.
\<close>

theorem stamped_ids_distinct:
  assumes "\<forall>r \<in> set rs. lacks_id (snd (snd r))" and "length rs \<le> 2 ^ 64"
  shows "distinct (map message_id (snd (stamp_all rs l)))"
proof -
  obtain ats occs where ids: "map message_id (snd (stamp_all rs l)) =
    map (\<lambda>k. Some (dec (ats k) @ CHR ''-'' # dec_min 6 (unat (id_seq l + of_nat k)) @ CHR ''-'' # occs k))
      [0..<length rs]"
    using stamp_all_ids [OF assms(1)] by blast
  have "inj_on (\<lambda>k. Some (dec (ats k) @ CHR ''-'' # dec_min 6 (unat (id_seq l + of_nat k)) @ CHR ''-'' # occs k))
      {0..<length rs}"
  proof (rule inj_onI)
    fix a b
    assume ab: "a \<in> {0..<length rs}" "b \<in> {0..<length rs}"
      and eq: "Some (dec (ats a) @ CHR ''-'' # dec_min 6 (unat (id_seq l + of_nat a)) @ CHR ''-'' # occs a) =
        Some (dec (ats b) @ CHR ''-'' # dec_min 6 (unat (id_seq l + of_nat b)) @ CHR ''-'' # occs b)"
    have "id_seq l + of_nat a = id_seq l + of_nat b"
      using stamped_id_inject eq by (metis option.inject word_unat_eq_iff)
    with ab assms(2) show "a = b" by (intro of_nat_u64_inject [of a b "id_seq l"]) auto
  qed
  then show ?thesis by (simp only: ids distinct_map set_upt distinct_upt simp_thms)
qed

theorem stamped_ids_distinct_witness:
  "distinct (map message_id (snd (stamp_all
     [(7, ''r'', demo_message None), (7, ''r'', demo_message (Some [])), (7, ''r'', demo_message None)] new_log)))"
  by (rule stamped_ids_distinct) (simp_all add: lacks_id_def demo_message_def)

text \<open>
  Insert and lookup: after an upsert the message is found under its id, unless the log already
  held a tombstone under that id, which then stays; what is found under every other id is unchanged.
\<close>

theorem upsert_lookup:
  assumes "message_id m = Some j"
  shows "find_message i (upsert m l) =
    (if i \<noteq> j then find_message i l
     else if \<exists>t. find_message j l = Some t \<and> is_tombstone t then find_message j l
     else Some m)"
  using find_message_upsert [OF assms, of i l] by (auto split: option.splits)

theorem upsert_lookup_witness:
  "find_message ''m'' (upsert (demo_message (Some ''m'')) new_log) = Some (demo_message (Some ''m'')) \<and>
   find_message ''m'' (upsert (demo_message (Some ''m'')) (upsert demo_tombstone new_log)) =
     Some demo_tombstone"
proof -
  have ids: "message_id (demo_message (Some ''m'')) = Some ''m''" "message_id demo_tombstone = Some ''m''"
    and tomb: "is_tombstone demo_tombstone"
    by (simp_all add: demo_message_defs)
  from upsert_lookup [OF ids(2), of "''m''" new_log]
  have t: "find_message ''m'' (upsert demo_tombstone new_log) = Some demo_tombstone" by simp
  from upsert_lookup [OF ids(1), of "''m''" new_log]
    upsert_lookup [OF ids(1), of "''m''" "upsert demo_tombstone new_log"] t tomb
  show ?thesis by simp
qed

text \<open>
  Recording a delivery outcome succeeds exactly when a message has the id and then changes that
  message alone, in its delivery fields alone; only a failed send is marked retryable.
\<close>

theorem mark_delivery_exact:
  "(snd (mark_delivery j st e n l) = Ok () \<longleftrightarrow> find_message j l \<noteq> None) \<and>
   (find_message j l = None \<longleftrightarrow> snd (mark_delivery j st e n l) = Err (Missing j)) \<and>
   find_message i (fst (mark_delivery j st e n l)) =
     (if i = j then map_option (\<lambda>m. m\<lparr>delivery_status := Some st, delivery_error := e,
        retryable := Some (st = Failed), retry_count := Some n\<rparr>) (find_message i l)
      else find_message i l)"
proof -
  have "snd (mark_delivery j st e n l) = (if find_message j l = None then Err (Missing j) else Ok ())"
    by (simp add: mark_delivery_def Let_def split: option.split)
  then show ?thesis by (simp add: find_message_mark set_delivery_def [abs_def] delivery_meta_def)
qed

end
