(* ===== verification/Call_Control.thy ===== *)
theory Call_Control
  imports Call_State Dm_Membership Message_Log
begin

text \<open>
  The call protocol of a DM session: \<open>private_dm_runtime/calls.rs\<close> and \<open>calls/\<close>
  (\<open>authentication\<close>, \<open>history\<close>, \<open>occupancy\<close>, \<open>offer\<close>, \<open>receive\<close>, \<open>signaling\<close>), the authority check of
  \<open>native_media.rs\<close> and the session's liveness notes of \<open>session_transport.rs\<close>.

  A session is the record of the fields the protocol reads or writes; an operation maps a session to
  the session after it and its result, so that what a failed operation already changed stays visible.
  Parameters (\<open>call_env\<close>): the MLS encryption and decryption of a control together with its JSON and
  base64 form, saving the ratchet, the transport, the engine's media protocol number and the random
  tokens. A frame the transport took is appended to \<open>ss_sent\<close>. The clock is read once per operation.
  Waking the outbox when a session becomes connected is left to the outbox and not part of this
  record.

  The theorems: every operation keeps the session's call consistent with its direction, phase and
  participants; a call becomes active only by mutual agreement; ended calls stay ended; an unanswered
  call ends at its deadline; two crossing calls merge into one.
\<close>

section \<open>The session\<close>

datatype dm_session_state = SessionPending | Handshaking | Connected

datatype session_event = HandshakeFrame | AuthenticatedFrame | CounterpartLost

fun next_state :: "dm_session_state \<Rightarrow> session_event \<Rightarrow> dm_session_state" where
  "next_state SessionPending HandshakeFrame = Handshaking"
| "next_state _ AuthenticatedFrame = Connected"
| "next_state Connected CounterpartLost = Handshaking"
| "next_state other _ = other"

record dm_session =
  ss_session_id :: string
  ss_device_id :: string
  ss_signer :: string
  ss_member_signers :: "string list"
  ss_crypto_ready :: bool
  ss_membership :: "device_membership option"
  ss_has_store :: bool
  ss_peer_moss_id :: "string option"
  ss_state :: dm_session_state
  ss_peer_joined :: bool
  ss_peer_display_name :: "string option"
  ss_recovery_hello_delay_ms :: "u64 option"
  ss_authenticated_since_tick :: bool
  ss_call :: "call_state option"
  ss_call_controls :: call_protocol_book
  ss_call_occupancy :: call_occupancy
  ss_call_ends :: call_end_retries
  ss_call_admission_blocked :: bool
  ss_messages :: "chat_message message_log"
  ss_record_dirty :: bool
  ss_sent :: "call_control list"

record ('vk, 'sg, 'sk) call_env =
  claims :: "('vk, 'sg, 'sk) claim_env"
  media_protocol :: u32
  local_peer_id :: "string option"
  encrypt_control :: "dm_session \<Rightarrow> call_control \<Rightarrow> (dm_error, string) result"
  open_control :: "dm_session \<Rightarrow> string \<Rightarrow> (dm_error, call_control \<times> string) result"
  store_crypto :: "dm_session \<Rightarrow> (dm_error, unit) result"
  route_send :: "dm_session \<Rightarrow> string \<Rightarrow> (dm_error, unit) result"
  call_token :: "dm_session \<Rightarrow> (dm_error, string) result"
  occurrence :: "dm_session \<Rightarrow> string"

type_synonym 'a outcome = "dm_session \<times> (dm_error, 'a) result"

definition note_peer_name :: "string \<Rightarrow> dm_session \<Rightarrow> dm_session" where
  "note_peer_name name s =
     (if name = [] \<or> name = ss_device_id s then s else s\<lparr>ss_peer_display_name := Some name\<rparr>)"

definition note_authenticated_frame :: "string \<Rightarrow> dm_session \<Rightarrow> dm_session" where
  "note_authenticated_frame name s =
     (let s1 = note_peer_name name s
      in if ss_crypto_ready s1 then
           s1\<lparr>ss_peer_joined := True, ss_state := next_state (ss_state s1) AuthenticatedFrame,
              ss_recovery_hello_delay_ms := None, ss_authenticated_since_tick := True\<rparr>
         else s1)"

definition ready_for_user_actions :: "dm_session \<Rightarrow> bool" where
  "ready_for_user_actions s \<longleftrightarrow> ss_state s = Connected"

definition persist_device_crypto :: "('vk, 'sg, 'sk) call_env \<Rightarrow> dm_session \<Rightarrow> (dm_error, unit) result" where
  "persist_device_crypto env s =
     (if ss_membership s = None \<or> \<not> ss_has_store s then Ok () else store_crypto env s)"

definition holds_call :: "dm_session \<Rightarrow> string \<Rightarrow> bool" where
  "holds_call s i = (case ss_call s of None \<Rightarrow> False | Some call \<Rightarrow> matches_id call i)"

section \<open>Publishing a control\<close>

definition own_control ::
    "('vk, 'sg, 'sk) call_env \<Rightarrow> dm_session \<Rightarrow> string \<Rightarrow> u64 \<Rightarrow> string \<Rightarrow> call_action \<Rightarrow> call_control" where
  "own_control env s call_id n peer action =
     \<lparr>cc_session_id = ss_session_id s, cc_call_id = call_id, cc_signer = ss_signer s,
      cc_sequence = n, cc_peer = peer, cc_name = ss_device_id s, cc_action = action,
      cc_media_protocol = media_protocol env\<rparr>"

definition publish_authenticated_call ::
    "('vk, 'sg, 'sk) call_env \<Rightarrow> string \<Rightarrow> call_action \<Rightarrow> dm_session \<Rightarrow> unit outcome" where
  "publish_authenticated_call env call_id action s =
     (let (book, allocated) = allocate_sequence (ss_call_controls s);
          s1 = s\<lparr>ss_call_controls := book\<rparr>
      in case (allocated, local_peer_id env) of
           (Some n, Some peer) \<Rightarrow>
             (let control = own_control env s1 call_id n peer action
              in case encrypt_control env s1 control of
                   Inl e \<Rightarrow> (s1, Err e)
                 | Inr ciphertext \<Rightarrow>
                     (let s2 = s1\<lparr>ss_record_dirty := True\<rparr>
                      in case persist_device_crypto env s2 of
                           Inl e \<Rightarrow> (s2, Err e)
                         | Inr _ \<Rightarrow>
                             (case route_send env s2 ciphertext of
                                Inl e \<Rightarrow> (s2, Err e)
                              | Inr _ \<Rightarrow> (s2\<lparr>ss_sent := ss_sent s2 @ [control]\<rparr>, Ok ()))))
         | _ \<Rightarrow> (s1, Err NotReady))"

definition publish_call_offer :: "('vk, 'sg, 'sk) call_env \<Rightarrow> string \<Rightarrow> dm_session \<Rightarrow> unit outcome" where
  "publish_call_offer env call_id s = publish_authenticated_call env call_id Offer s"

definition publish_call_accept :: "('vk, 'sg, 'sk) call_env \<Rightarrow> string \<Rightarrow> dm_session \<Rightarrow> unit outcome" where
  "publish_call_accept env call_id s = publish_authenticated_call env call_id Answer s"

definition publish_native_media ::
    "('vk, 'sg, 'sk) call_env \<Rightarrow> string \<Rightarrow> signal \<Rightarrow> dm_session \<Rightarrow> unit outcome" where
  "publish_native_media env call_id sg s =
     (if \<not> bounded sg \<or>
         \<not> (case ss_call s of None \<Rightarrow> False
            | Some call \<Rightarrow> cs_phase call = Active \<and> cs_call_id call = call_id)
      then (s, Ok ())
      else publish_authenticated_call env call_id (Media sg) s)"

section \<open>Ending a call\<close>

definition append_call_event_message ::
    "('vk, 'sg, 'sk) call_env \<Rightarrow> u64 \<Rightarrow> string \<Rightarrow> bool \<Rightarrow> string \<Rightarrow> u64 \<Rightarrow> string \<Rightarrow> dm_session \<Rightarrow> dm_session" where
  "append_call_event_message env now caller own kind duration call_id s =
     (let (l, m) = stamp now (occurrence env s)
            \<lparr>metadata = Some (default_metadata\<lparr>md_is_own := Some own\<rparr>), from_device = caller, body = [],
             message_id = None, sent_at_ms = None, attachment = None, delivery_status = None,
             delivery_error = None, retryable = None, retry_count = None,
             call_event = Some \<lparr>ce_kind = kind, ce_duration_ms = duration, ce_call_id = call_id\<rparr>,
             read_receipt = None\<rparr> (ss_messages s)
      in s\<lparr>ss_messages := log_push m l\<rparr>)"

definition finish_call ::
    "('vk, 'sg, 'sk) call_env \<Rightarrow> u64 \<Rightarrow> string \<Rightarrow> u64 \<Rightarrow> dm_session \<Rightarrow> dm_session" where
  "finish_call env now kind duration s =
     (case ss_call s of
        None \<Rightarrow> s
      | Some call \<Rightarrow>
          (let own = (cs_direction call = Caller);
               confirmed = (own \<or> cs_phase call = Active \<or>
                            confirmed_closed (ss_call_controls s) (cs_call_id call));
               book = close_call (cs_call_id call) confirmed (ss_call_controls s);
               book1 = (case cs_merged_call_id call of None \<Rightarrow> book | Some i \<Rightarrow> close_call i confirmed book);
               caller = (if own then ss_device_id s else cs_remote_device call)
           in append_call_event_message env now caller own kind duration (cs_call_id call)
                (s\<lparr>ss_call := None, ss_call_controls := book1, ss_record_dirty := True,
                   ss_call_occupancy := finish_occupancy (cs_call_id call) confirmed (ss_call_occupancy s)\<rparr>)))"

definition call_start :: "('vk, 'sg, 'sk) call_env \<Rightarrow> u64 \<Rightarrow> dm_session \<Rightarrow> string outcome" where
  "call_start env now s =
     (if \<not> ready_for_user_actions s then (s, Err NotReady)
      else if ss_call s \<noteq> None then (s, Err (Attachment ''another call is already in flight''))
      else
        (case call_token env s of
           Inl e \<Rightarrow> (s, Err e)
         | Inr call_id \<Rightarrow>
             (let call = (outgoing call_id [])\<lparr>cs_caller_signer := ss_signer s\<rparr>
              in case publish_call_offer env call_id (s\<lparr>ss_call := Some call\<rparr>) of
                   (s1, Inl e) \<Rightarrow> (s1\<lparr>ss_call := None\<rparr>, Err e)
                 | (s1, Inr _) \<Rightarrow>
                     (s1\<lparr>ss_call := map_option (mark_offer_sent now) (ss_call s1)\<rparr>, Ok call_id))))"

definition call_accept :: "('vk, 'sg, 'sk) call_env \<Rightarrow> u64 \<Rightarrow> string \<Rightarrow> dm_session \<Rightarrow> unit outcome" where
  "call_accept env now call_id s =
     (case ss_call s of
        None \<Rightarrow> (s, Err MissingSession)
      | Some call \<Rightarrow>
          if cs_call_id call \<noteq> call_id \<or> cs_phase call \<notin> {Ringing, Accepting}
          then (s, Err MissingSession)
          else
            (case publish_call_accept env call_id s of
               (s1, Inl e) \<Rightarrow> (s1, Err e)
             | (s1, Inr _) \<Rightarrow>
                 (s1\<lparr>ss_call := map_option (\<lambda>c. mark_offer_sent now (c\<lparr>cs_phase := Accepting\<rparr>)) (ss_call s1)\<rparr>,
                  Ok ())))"

definition call_decline ::
    "('vk, 'sg, 'sk) call_env \<Rightarrow> u64 \<Rightarrow> string \<Rightarrow> string \<Rightarrow> dm_session \<Rightarrow> unit outcome" where
  "call_decline env now call_id reason s =
     (if \<not> holds_call s call_id then (s, Ok ())
      else
        (case publish_authenticated_call env call_id (Decline reason) s of
           (s1, Inl e) \<Rightarrow> (s1, Err e)
         | (s1, Inr _) \<Rightarrow>
             (finish_call env now ''missed'' 0
                (s1\<lparr>ss_call_ends := remember_end call_id (Decline reason) now (ss_call_ends s1)\<rparr>), Ok ())))"

definition call_end ::
    "('vk, 'sg, 'sk) call_env \<Rightarrow> u64 \<Rightarrow> string \<Rightarrow> string \<Rightarrow> dm_session \<Rightarrow> unit outcome" where
  "call_end env now call_id reason s =
     (case ss_call s of
        None \<Rightarrow> (s, Ok ())
      | Some call \<Rightarrow>
          if \<not> matches_id call call_id then (s, Ok ())
          else
            (let action = End (cs_caller_signer call) reason;
                 (s1, outcome) = publish_authenticated_call env (cs_call_id call) action
                   (s\<lparr>ss_call_ends := remember_end (cs_call_id call) action now (ss_call_ends s)\<rparr>)
             in (finish_call env now (end_kind_for call reason) (duration_ms call now) s1, outcome)))"

section \<open>Sibling devices\<close>

definition observe_call_selection ::
    "u64 \<Rightarrow> call_control \<Rightarrow> string \<Rightarrow> dm_session \<Rightarrow> dm_session" where
  "observe_call_selection now control receiver s =
     (case ss_membership s of
        None \<Rightarrow> s
      | Some m \<Rightarrow>
          if call_own m receiver then
            s\<lparr>ss_call_occupancy := reserve_selected receiver (cc_call_id control) (cc_signer control) now
                (ss_call_occupancy s)\<rparr>
          else s)"

definition authoritative_call_end :: "dm_session \<Rightarrow> call_control \<Rightarrow> bool" where
  "authoritative_call_end s control =
     (case cc_action control of
        End caller _ \<Rightarrow>
          (let by_occupancy = (case permits_end (ss_call_occupancy s) (cc_signer control) (cc_call_id control) of
                 None \<Rightarrow> caller = cc_signer control | Some b \<Rightarrow> b)
           in case ss_call s of
                None \<Rightarrow> by_occupancy
              | Some call \<Rightarrow>
                  if matches_id call (cc_call_id control) then
                    cc_signer control = cs_caller_signer call \<or>
                    cs_selected_signer call = Some (cc_signer control)
                  else by_occupancy)
      | _ \<Rightarrow> False)"

definition observe_own_call :: "u64 \<Rightarrow> call_control \<Rightarrow> dm_session \<Rightarrow> dm_session" where
  "observe_own_call now control s =
     (let s1 = (if authoritative_call_end s control then
                  s\<lparr>ss_call_controls := close_call (cc_call_id control) True (ss_call_controls s),
                    ss_call_occupancy := finish_occupancy (cc_call_id control) True (ss_call_occupancy s)\<rparr>
                else s);
          update = (\<lambda>f. s1\<lparr>ss_call_occupancy := f (ss_call_occupancy s1)\<rparr>);
          signer = cc_signer control; i = cc_call_id control
      in case cc_action control of
           End _ _ \<Rightarrow> update (release signer i)
         | Decline _ \<Rightarrow> update (release signer i)
         | Occupied caller receiver \<Rightarrow> update (reserve signer i caller receiver now)
         | Selected receiver \<Rightarrow> update (reserve signer i signer (Some receiver) now)
         | _ \<Rightarrow>
             update (reserve signer i
               (case ss_call s1 of
                  None \<Rightarrow> signer
                | Some call \<Rightarrow> if cs_call_id call = i then cs_caller_signer call else signer)
               None now))"

section \<open>Receiving controls\<close>

definition same_media_protocol :: "('vk, 'sg, 'sk) call_env \<Rightarrow> call_control \<Rightarrow> bool" where
  "same_media_protocol env control \<longleftrightarrow> cc_media_protocol control = media_protocol env"

definition closed_call_offer :: "dm_session \<Rightarrow> string \<Rightarrow> bool" where
  "closed_call_offer s i \<longleftrightarrow>
     is_closed (ss_call_controls s) i \<or>
     list_ex (\<lambda>m. chat_call_id m = Some i) (log_messages (ss_messages s))"

definition install_incoming_call :: "u64 \<Rightarrow> call_control \<Rightarrow> dm_session \<Rightarrow> dm_session" where
  "install_incoming_call now control s =
     (let call = (mark_offer_sent now (ringing (cc_call_id control) (cc_name control)))
            \<lparr>cs_caller_signer := cc_signer control, cs_remote_peer := cc_peer control\<rparr>
      in note_authenticated_frame (cc_name control)
           (s\<lparr>ss_call_occupancy := admit_offer (cc_call_id control) (cc_signer control) (ss_call_occupancy s),
              ss_call := Some call\<rparr>))"

definition merge_cross_call ::
    "('vk, 'sg, 'sk) call_env \<Rightarrow> u64 \<Rightarrow> call_control \<Rightarrow> call_state \<Rightarrow> dm_session \<Rightarrow> unit outcome" where
  "merge_cross_call env now control call s =
     (if (cs_caller_signer call, cs_call_id call) \<le> (cc_signer control, cc_call_id control) then
        (s\<lparr>ss_call := Some (call\<lparr>cs_merged_call_id := Some (cc_call_id control)\<rparr>)\<rparr>, Ok ())
      else
        (let s1 = install_incoming_call now control s;
             s2 = s1\<lparr>ss_call := map_option
                   (\<lambda>c. mark_offer_sent now
                          (c\<lparr>cs_merged_call_id := Some (cs_call_id call), cs_phase := Accepting\<rparr>)) (ss_call s1)\<rparr>
         in publish_call_accept env (cc_call_id control) s2))"

definition refuse_other_engine ::
    "('vk, 'sg, 'sk) call_env \<Rightarrow> u64 \<Rightarrow> call_control \<Rightarrow> dm_session \<Rightarrow> unit outcome" where
  "refuse_other_engine env now control s =
     (let s1 = append_call_event_message env now (cc_name control) False UPDATE_REQUIRED 0 (cc_call_id control) s
      in publish_authenticated_call env (cc_call_id control) (Decline UPDATE_REQUIRED)
           (s1\<lparr>ss_call_ends :=
                 remember_end (cc_call_id control) (Decline UPDATE_REQUIRED) now (ss_call_ends s1)\<rparr>))"

definition receive_call_offer ::
    "('vk, 'sg, 'sk) call_env \<Rightarrow> u64 \<Rightarrow> call_control \<Rightarrow> dm_session \<Rightarrow> unit outcome" where
  "receive_call_offer env now control s =
     (if closed_call_offer s (cc_call_id control) \<or> selected (ss_call_occupancy s) (cc_call_id control) now
      then (s, Ok ())
      else if \<not> same_media_protocol env control then refuse_other_engine env now control s
      else
        (case ss_call s of
           Some call \<Rightarrow>
             if cs_phase call = Outgoing \<and> cs_call_id call \<noteq> cc_call_id control then
               merge_cross_call env now control call s
             else if cs_call_id call = cc_call_id control \<and> cs_caller_signer call = cc_signer control \<and>
                 cs_phase call \<in> {Accepting, Active} then
               publish_call_accept env (cc_call_id control) s
             else (s, Ok ())
         | None \<Rightarrow>
             if ss_call_admission_blocked s \<or>
                (\<exists>i \<in> calls (ss_call_occupancy s) now. i \<noteq> cc_call_id control)
             then publish_authenticated_call env (cc_call_id control) (Decline ''busy'') s
             else (install_incoming_call now control s, Ok ())))"

definition receive_native_media :: "call_control \<Rightarrow> signal \<Rightarrow> dm_session \<Rightarrow> dm_session" where
  "receive_native_media control sg s =
     (if \<not> bounded sg then s
      else
        (case ss_call s of
           None \<Rightarrow> s
         | Some call \<Rightarrow>
             if cs_phase call \<noteq> Active \<or> cs_call_id call \<noteq> cc_call_id control then s
             else
               (let remote = (if cs_direction call = Caller then cs_selected_signer call
                              else Some (cs_caller_signer call));
                    misbound = (case sg of
                        Description d \<Rightarrow>
                          bi_session_id (de_binding d) \<noteq> ss_session_id s \<or>
                          bi_call_id (de_binding d) \<noteq> cs_call_id call \<or>
                          bi_caller (de_binding d) \<noteq> cs_caller_signer call \<or>
                          cs_selected_signer call \<noteq> Some (bi_callee (de_binding d)) \<or>
                          de_offer d \<noteq> (cs_direction call = Callee)
                      | _ \<Rightarrow> False);
                    camera = (case sg of Camera _ _ \<Rightarrow> True | _ \<Rightarrow> False)
                in if remote \<noteq> Some (cc_signer control) \<or> cs_remote_peer call \<noteq> cc_peer control then s
                   else if misbound then s
                   else if camera \<and> cc_sequence control \<le> cs_native_camera_sequence call then s
                   else
                     (let call1 = (if camera then call\<lparr>cs_native_camera_sequence := cc_sequence control\<rparr> else call)
                      in s\<lparr>ss_call := Some (call1\<lparr>cs_native_controls :=
                            push_capped 16 sg (cs_native_controls call1)\<rparr>)\<rparr>))))"

definition receive_call_answer ::
    "('vk, 'sg, 'sk) call_env \<Rightarrow> u64 \<Rightarrow> call_control \<Rightarrow> dm_session \<Rightarrow> unit outcome" where
  "receive_call_answer env now control s =
     (case ss_call s of
        None \<Rightarrow> (s, Ok ())
      | Some call \<Rightarrow>
          if cs_call_id call \<noteq> cc_call_id control \<or> cs_direction call \<noteq> Caller then (s, Ok ())
          else if cs_phase call = Active then
            (case cs_selected_signer call of
               Some receiver \<Rightarrow> publish_authenticated_call env (cc_call_id control) (Selected receiver) s
             | None \<Rightarrow> (s, Ok ()))
          else if cs_phase call \<noteq> Outgoing then (s, Ok ())
          else if \<not> same_media_protocol env control then
            call_end env now (cc_call_id control) UPDATE_REQUIRED s
          else
            (case publish_authenticated_call env (cc_call_id control) (Selected (cc_signer control)) s of
               (s1, Inl e) \<Rightarrow> (s1, Err e)
             | (s1, Inr _) \<Rightarrow>
                 (note_authenticated_frame (cc_name control)
                    (s1\<lparr>ss_call := map_option (\<lambda>c. become_active now
                          (c\<lparr>cs_selected_signer := Some (cc_signer control),
                             cs_remote_peer := cc_peer control, cs_remote_device := cc_name control\<rparr>))
                          (ss_call s1)\<rparr>), Ok ())))"

definition receive_call_selection ::
    "u64 \<Rightarrow> call_control \<Rightarrow> string \<Rightarrow> dm_session \<Rightarrow> dm_session" where
  "receive_call_selection now control receiver s =
     (let s1 = (if ss_call s = None then observe_call_selection now control receiver s else s)
      in case ss_call s1 of
           None \<Rightarrow> s1
         | Some call \<Rightarrow>
             if cs_call_id call \<noteq> cc_call_id control then s1
             else if cs_caller_signer call \<noteq> cc_signer control \<or> cs_direction call \<noteq> Callee then s1
             else if cs_phase call = Active then s1
             else if receiver \<noteq> ss_signer s1 then
               (observe_call_selection now control receiver s1)\<lparr>ss_call := None\<rparr>
             else if cs_phase call \<noteq> Accepting then s1
             else
               note_authenticated_frame (cc_name control)
                 (s1\<lparr>ss_call := Some (become_active now (call\<lparr>cs_selected_signer := Some receiver\<rparr>))\<rparr>))"

definition ring_on_after_engine_refusal :: "dm_session \<Rightarrow> dm_session" where
  "ring_on_after_engine_refusal s =
     s\<lparr>ss_call := map_option (\<lambda>c. c\<lparr>cs_refused_by_other_engine := True\<rparr>) (ss_call s)\<rparr>"

definition receive_call_termination ::
    "('vk, 'sg, 'sk) call_env \<Rightarrow> u64 \<Rightarrow> call_control \<Rightarrow> dm_session \<Rightarrow> dm_session" where
  "receive_call_termination env now control s =
     (let authoritative = authoritative_call_end s control;
          s1 = s\<lparr>ss_call_occupancy := receive_end (cc_signer control) (cc_call_id control) (ss_call_occupancy s)\<rparr>;
          unmatched = (if authoritative then
             s1\<lparr>ss_call_controls := close_call (cc_call_id control) True (ss_call_controls s1)\<rparr> else s1)
      in case ss_call s1 of
           None \<Rightarrow> unmatched
         | Some call \<Rightarrow>
             if \<not> matches_id call (cc_call_id control) then unmatched
             else if \<not> (if cs_phase call = Active then
                          cc_signer control = cs_caller_signer call \<or>
                          cs_selected_signer call = Some (cc_signer control)
                        else cs_direction call = Caller \<or> cc_signer control = cs_caller_signer call)
             then s1
             else if end_reason (cc_action control) = UPDATE_REQUIRED \<and> cs_phase call = Outgoing then
               ring_on_after_engine_refusal s1
             else
               (let s2 = s1\<lparr>ss_call_controls := close_call (cs_call_id call) True (ss_call_controls s1)\<rparr>;
                    action = End (cs_caller_signer call) ''ended'';
                    s3 = (if cs_direction call = Caller then
                            fst (publish_authenticated_call env (cs_call_id call) action
                              (s2\<lparr>ss_call_ends := remember_end (cs_call_id call) action now (ss_call_ends s2)\<rparr>))
                          else s2)
                in finish_call env now (end_kind_for call (end_reason (cc_action control)))
                     (duration_ms call now) s3))"

definition apply_call_control ::
    "('vk, 'sg, 'sk) call_env \<Rightarrow> u64 \<Rightarrow> call_control \<Rightarrow> dm_session \<Rightarrow> unit outcome" where
  "apply_call_control env now control s =
     (if confirmed_closed (ss_call_controls s) (cc_call_id control) then (s, Ok ())
      else if cc_signer control = ss_signer s then (s, Ok ())
      else if (case ss_membership s of None \<Rightarrow> False | Some m \<Rightarrow> call_own m (cc_signer control)) then
        (observe_own_call now control s, Ok ())
      else
        (case cc_action control of
           Media sg \<Rightarrow> (receive_native_media control sg s, Ok ())
         | Offer \<Rightarrow> receive_call_offer env now control s
         | Answer \<Rightarrow> receive_call_answer env now control s
         | Occupied _ _ \<Rightarrow> (s, Ok ())
         | Selected receiver \<Rightarrow> (receive_call_selection now control receiver s, Ok ())
         | Decline _ \<Rightarrow> (receive_call_termination env now control s, Ok ())
         | End _ _ \<Rightarrow> (receive_call_termination env now control s, Ok ())))"

definition admitted_participants ::
    "('vk, 'sg, 'sk) call_env \<Rightarrow> device_membership \<Rightarrow> call_control \<Rightarrow> bool" where
  "admitted_participants env m control =
     (let admitted = (\<lambda>signer. call_peer (claims env) m signer \<noteq> None)
      in case cc_action control of
           Selected receiver \<Rightarrow> admitted receiver \<and> call_own m receiver \<noteq> call_own m (cc_signer control)
         | Occupied caller receiver \<Rightarrow>
             admitted caller \<and> (case receiver of None \<Rightarrow> True | Some r \<Rightarrow> r = cc_signer control)
         | End caller _ \<Rightarrow> admitted caller
         | _ \<Rightarrow> True)"

definition control_in_bounds :: "dm_session \<Rightarrow> call_control \<Rightarrow> string \<Rightarrow> bool" where
  "control_in_bounds s control signer \<longleftrightarrow>
     cc_session_id control = ss_session_id s \<and> cc_signer control = signer \<and>
     cc_call_id control \<noteq> [] \<and> length (cc_call_id control) \<le> 128 \<and>
     length (cc_name control) \<le> 256 \<and> cc_sequence control \<noteq> 0"

definition admitted_sender :: "('vk, 'sg, 'sk) call_env \<Rightarrow> dm_session \<Rightarrow> call_control \<Rightarrow> bool" where
  "admitted_sender env s control =
     (case ss_membership s of
        Some m \<Rightarrow> call_peer (claims env) m (cc_signer control) = Some (cc_peer control) \<and>
          admitted_participants env m control
      | None \<Rightarrow> cc_signer control \<noteq> ss_signer s \<and> ss_peer_moss_id s = Some (cc_peer control))"

definition decrypt_call_control ::
    "('vk, 'sg, 'sk) call_env \<Rightarrow> string \<Rightarrow> dm_session \<Rightarrow> call_control outcome" where
  "decrypt_call_control env ciphertext s =
     (let s1 = (case ss_membership s of
            None \<Rightarrow> s
          | Some m \<Rightarrow> s\<lparr>ss_call_controls :=
              retain_signers (\<lambda>signer. call_peer (claims env) m signer \<noteq> None) (ss_call_controls s)\<rparr>)
      in case open_control env s1 ciphertext of
           Inl e \<Rightarrow> (s1, Err e)
         | Inr (control, signer) \<Rightarrow>
             if \<not> control_in_bounds s1 control signer then
               (s1, Err (OpenMls ''invalid authenticated call control''))
             else if \<not> admitted_sender env s1 control then
               (s1, Err (OpenMls ''call device is not an admitted participant''))
             else
               (case persist_device_crypto env s1 of
                  Inl e \<Rightarrow> (s1, Err e) | Inr _ \<Rightarrow> (s1, Ok control)))"

definition is_terminal :: "call_control \<Rightarrow> bool" where
  "is_terminal control = (case cc_action control of End _ _ \<Rightarrow> True | Decline _ \<Rightarrow> True | _ \<Rightarrow> False)"

definition is_media :: "call_control \<Rightarrow> bool" where
  "is_media control = (case cc_action control of Media _ \<Rightarrow> True | _ \<Rightarrow> False)"

text \<open>The short-circuit condition of the handler: a media control does not touch the ordering book.\<close>

definition admit_control :: "call_control \<Rightarrow> dm_session \<Rightarrow> dm_session \<times> bool" where
  "admit_control control s =
     (if is_media control then (s, True)
      else
        (let (book, fresh) = receive (cc_signer control) (cc_sequence control) (ss_call_controls s)
         in (s\<lparr>ss_call_controls := book\<rparr>, fresh \<or> is_terminal control)))"

definition handle_call_control ::
    "('vk, 'sg, 'sk) call_env \<Rightarrow> u64 \<Rightarrow> string \<Rightarrow> string \<Rightarrow> dm_session \<Rightarrow> unit outcome" where
  "handle_call_control env now session_id ciphertext s =
     (if session_id \<noteq> ss_session_id s then (s, Ok ())
      else
        (case decrypt_call_control env ciphertext s of
           (s1, Inl e) \<Rightarrow> (s1, Err e)
         | (s1, Inr control) \<Rightarrow>
             (let (s2, admitted) = admit_control control s1;
                  (s3, outcome) = (if admitted then apply_call_control env now control s2 else (s2, Ok ()));
                  s4 = s3\<lparr>ss_record_dirty := True\<rparr>
              in case persist_device_crypto env s4 of
                   Inl e \<Rightarrow> (s4, Err e)
                 | Inr _ \<Rightarrow> (s4, outcome))))"

section \<open>The clock\<close>

fun publish_due ::
    "('vk, 'sg, 'sk) call_env \<Rightarrow> (string \<times> call_action) list \<Rightarrow> dm_session \<Rightarrow> dm_session" where
  "publish_due env [] s = s"
| "publish_due env ((call_id, action) # rest) s =
     publish_due env rest (fst (publish_authenticated_call env call_id action s))"

definition pump_call_signaling :: "('vk, 'sg, 'sk) call_env \<Rightarrow> u64 \<Rightarrow> dm_session \<Rightarrow> dm_session" where
  "pump_call_signaling env now s =
     (let (ends, resend) = due now (ss_call_ends s);
          s1 = publish_due env resend
            (s\<lparr>ss_call_occupancy := expire now (ss_call_occupancy s), ss_call_ends := ends\<rparr>)
      in case ss_call s1 of
           None \<Rightarrow> s1
         | Some call \<Rightarrow>
             if cs_phase call \<in> {Outgoing, Accepting, Ringing} \<and>
                CALL_RING_TIMEOUT_MS \<le> saturating_sub now (cs_offer_first_ms call)
             then fst (call_end env now (cs_call_id call) ''no_answer'' s1)
             else if saturating_sub now (cs_offer_last_ms call) < CALL_RESEND_MS then s1
             else
               (case outbound_control call of
                  None \<Rightarrow> s1
                | Some action \<Rightarrow>
                    (case publish_authenticated_call env (cs_call_id call) action s1 of
                       (s2, Inl _) \<Rightarrow> s2
                     | (s2, Inr _) \<Rightarrow> s2\<lparr>ss_call := map_option (mark_offer_sent now) (ss_call s2)\<rparr>)))"

section \<open>Authority of the running call\<close>

definition call_authorized :: "('vk, 'sg, 'sk) call_env \<Rightarrow> dm_session \<Rightarrow> bool" where
  "call_authorized env s =
     (case ss_call s of
        None \<Rightarrow> True
      | Some call \<Rightarrow>
          if (case ss_membership s of None \<Rightarrow> False | Some m \<Rightarrow> mb_revoked m) then False
          else if cs_caller_signer call = [] then True
          else if cs_caller_signer call \<notin> set (ss_member_signers s) \<or>
              (case cs_selected_signer call of None \<Rightarrow> False | Some x \<Rightarrow> x \<notin> set (ss_member_signers s))
          then False
          else
            (case ss_membership s of
               None \<Rightarrow> True
             | Some m \<Rightarrow>
                 if call_peer (claims env) m (ss_signer s) = None \<or>
                    call_peer (claims env) m (cs_caller_signer call) = None \<or>
                    (case cs_selected_signer call of None \<Rightarrow> False
                     | Some x \<Rightarrow> call_peer (claims env) m x = None)
                 then False
                 else
                   (case (if cs_direction call = Caller then cs_selected_signer call
                          else Some (cs_caller_signer call)) of
                      None \<Rightarrow> True
                    | Some signer \<Rightarrow> call_peer (claims env) m signer = Some (cs_remote_peer call))))"

definition reconcile_session :: "('vk, 'sg, 'sk) call_env \<Rightarrow> u64 \<Rightarrow> dm_session \<Rightarrow> dm_session" where
  "reconcile_session env now s =
     (case ss_call s of
        None \<Rightarrow> s
      | Some call \<Rightarrow>
          if \<not> call_authorized env s then finish_call env now ''ended'' (duration_ms call now) s else s)"

section \<open>All sessions\<close>

datatype call_availability = CallBusy | CallConflict

definition occupied_calls :: "dm_session list \<Rightarrow> u64 \<Rightarrow> string set" where
  "occupied_calls ss now =
     (\<Union>s \<in> set ss. calls (ss_call_occupancy s) now \<union>
        (case ss_call s of None \<Rightarrow> {} | Some call \<Rightarrow> {cs_call_id call}))"

definition call_availability_of :: "dm_session list \<Rightarrow> u64 \<Rightarrow> call_availability option" where
  "call_availability_of ss now =
     (let n = card (occupied_calls ss now)
      in if n = 0 then None else if n = 1 then Some CallBusy else Some CallConflict)"

definition admission_blocked_for :: "dm_session list \<Rightarrow> u64 \<Rightarrow> string \<Rightarrow> bool" where
  "admission_blocked_for ss now session_id \<longleftrightarrow>
     list_ex (\<lambda>s. ss_session_id s \<noteq> session_id \<and>
        (ss_call s \<noteq> None \<or> calls (ss_call_occupancy s) now \<noteq> {})) ss"

section \<open>What each operation leaves alone\<close>

lemma publish_fields [simp]:
  "ss_session_id (fst (publish_authenticated_call env i a s)) = ss_session_id s"
  "ss_device_id (fst (publish_authenticated_call env i a s)) = ss_device_id s"
  "ss_signer (fst (publish_authenticated_call env i a s)) = ss_signer s"
  "ss_membership (fst (publish_authenticated_call env i a s)) = ss_membership s"
  "ss_call (fst (publish_authenticated_call env i a s)) = ss_call s"
  "ss_call_occupancy (fst (publish_authenticated_call env i a s)) = ss_call_occupancy s"
  "ss_call_ends (fst (publish_authenticated_call env i a s)) = ss_call_ends s"
  "ss_messages (fst (publish_authenticated_call env i a s)) = ss_messages s"
  "ss_call_controls (fst (publish_authenticated_call env i a s)) = fst (allocate_sequence (ss_call_controls s))"
  by (simp_all add: publish_authenticated_call_def Let_def split: prod.split option.split sum.split)

lemma publish_sent_cases:
  obtains "ss_sent (fst (publish_authenticated_call env i a s)) = ss_sent s"
  | n peer where "snd (allocate_sequence (ss_call_controls s)) = Some n"
      and "ss_sent (fst (publish_authenticated_call env i a s)) = ss_sent s @ [own_control env s i n peer a]"
proof -
  have "ss_sent (fst (publish_authenticated_call env i a s)) = ss_sent s \<or>
    (\<exists>n peer. snd (allocate_sequence (ss_call_controls s)) = Some n \<and>
      ss_sent (fst (publish_authenticated_call env i a s)) = ss_sent s @ [own_control env s i n peer a])"
    by (auto simp: publish_authenticated_call_def Let_def own_control_def split: prod.split option.split sum.split)
  then show ?thesis using that by blast
qed

lemma note_fields [simp]:
  "ss_session_id (note_authenticated_frame n s) = ss_session_id s"
  "ss_device_id (note_authenticated_frame n s) = ss_device_id s"
  "ss_signer (note_authenticated_frame n s) = ss_signer s"
  "ss_membership (note_authenticated_frame n s) = ss_membership s"
  "ss_call (note_authenticated_frame n s) = ss_call s"
  "ss_call_occupancy (note_authenticated_frame n s) = ss_call_occupancy s"
  "ss_call_ends (note_authenticated_frame n s) = ss_call_ends s"
  "ss_messages (note_authenticated_frame n s) = ss_messages s"
  "ss_call_controls (note_authenticated_frame n s) = ss_call_controls s"
  "ss_sent (note_authenticated_frame n s) = ss_sent s"
  by (simp_all add: note_authenticated_frame_def note_peer_name_def Let_def)

lemma append_event_fields [simp]:
  "ss_session_id (append_call_event_message env now c own k d i s) = ss_session_id s"
  "ss_device_id (append_call_event_message env now c own k d i s) = ss_device_id s"
  "ss_signer (append_call_event_message env now c own k d i s) = ss_signer s"
  "ss_membership (append_call_event_message env now c own k d i s) = ss_membership s"
  "ss_call (append_call_event_message env now c own k d i s) = ss_call s"
  "ss_call_occupancy (append_call_event_message env now c own k d i s) = ss_call_occupancy s"
  "ss_call_ends (append_call_event_message env now c own k d i s) = ss_call_ends s"
  "ss_call_controls (append_call_event_message env now c own k d i s) = ss_call_controls s"
  "ss_sent (append_call_event_message env now c own k d i s) = ss_sent s"
  by (simp_all add: append_call_event_message_def split: prod.split)

lemma finish_call_fields [simp]:
  "ss_session_id (finish_call env now k d s) = ss_session_id s"
  "ss_device_id (finish_call env now k d s) = ss_device_id s"
  "ss_signer (finish_call env now k d s) = ss_signer s"
  "ss_membership (finish_call env now k d s) = ss_membership s"
  "ss_call (finish_call env now k d s) = None"
  "ss_call_ends (finish_call env now k d s) = ss_call_ends s"
  "ss_sent (finish_call env now k d s) = ss_sent s"
  by (simp_all add: finish_call_def Let_def split: option.split)

lemma observe_selection_fields [simp]:
  "ss_session_id (observe_call_selection now c r s) = ss_session_id s"
  "ss_signer (observe_call_selection now c r s) = ss_signer s"
  "ss_membership (observe_call_selection now c r s) = ss_membership s"
  "ss_call (observe_call_selection now c r s) = ss_call s"
  "ss_call_ends (observe_call_selection now c r s) = ss_call_ends s"
  "ss_call_controls (observe_call_selection now c r s) = ss_call_controls s"
  "ss_messages (observe_call_selection now c r s) = ss_messages s"
  "ss_sent (observe_call_selection now c r s) = ss_sent s"
  by (simp_all add: observe_call_selection_def split: option.split)

lemma install_fields [simp]:
  "ss_session_id (install_incoming_call now c s) = ss_session_id s"
  "ss_device_id (install_incoming_call now c s) = ss_device_id s"
  "ss_signer (install_incoming_call now c s) = ss_signer s"
  "ss_membership (install_incoming_call now c s) = ss_membership s"
  "ss_call_ends (install_incoming_call now c s) = ss_call_ends s"
  "ss_call_controls (install_incoming_call now c s) = ss_call_controls s"
  "ss_messages (install_incoming_call now c s) = ss_messages s"
  "ss_sent (install_incoming_call now c s) = ss_sent s"
  "ss_call_occupancy (install_incoming_call now c s) =
     admit_offer (cc_call_id c) (cc_signer c) (ss_call_occupancy s)"
  "ss_call (install_incoming_call now c s) =
     Some ((mark_offer_sent now (ringing (cc_call_id c) (cc_name c)))
       \<lparr>cs_caller_signer := cc_signer c, cs_remote_peer := cc_peer c\<rparr>)"
  by (simp_all add: install_incoming_call_def Let_def)

lemma mark_offer_fields [simp]:
  "cs_call_id (mark_offer_sent now c) = cs_call_id c"
  "cs_direction (mark_offer_sent now c) = cs_direction c"
  "cs_phase (mark_offer_sent now c) = cs_phase c"
  "cs_caller_signer (mark_offer_sent now c) = cs_caller_signer c"
  "cs_selected_signer (mark_offer_sent now c) = cs_selected_signer c"
  "cs_merged_call_id (mark_offer_sent now c) = cs_merged_call_id c"
  "cs_remote_peer (mark_offer_sent now c) = cs_remote_peer c"
  "cs_native_controls (mark_offer_sent now c) = cs_native_controls c"
  by (simp_all add: mark_offer_sent_def)

section \<open>The invariant of a session\<close>

definition call_wf :: "string \<Rightarrow> call_state \<Rightarrow> bool" where
  "call_wf own c \<longleftrightarrow>
     (case cs_direction c of
        Caller \<Rightarrow> cs_caller_signer c = own \<and> cs_phase c \<in> {Outgoing, Active} \<and>
          cs_selected_signer c \<noteq> Some own
      | Callee \<Rightarrow> cs_caller_signer c \<noteq> own \<and> cs_phase c \<in> {Ringing, Accepting, Active} \<and>
          cs_selected_signer c \<in> {None, Some own}) \<and>
     (cs_phase c = Active \<longleftrightarrow> cs_selected_signer c \<noteq> None) \<and>
     length (cs_native_controls c) \<le> 16"

definition sent_wf :: "dm_session \<Rightarrow> bool" where
  "sent_wf s \<longleftrightarrow>
     sorted_wrt (<) (map cc_sequence (ss_sent s)) \<and>
     (\<forall>c \<in> set (ss_sent s). cc_sequence c \<le> next_sequence (ss_call_controls s) \<and> 0 < cc_sequence c \<and>
        cc_signer c = ss_signer s \<and> cc_session_id c = ss_session_id s)"

definition session_wf :: "dm_session \<Rightarrow> bool" where
  "session_wf s \<longleftrightarrow>
     (\<forall>c. ss_call s = Some c \<longrightarrow> call_wf (ss_signer s) c) \<and> book_wf (ss_call_controls s) \<and>
     occupancy_wf (ss_call_occupancy s) \<and> retries_wf (ss_call_ends s) \<and> sent_wf s"

lemma call_wf_mark [simp]: "call_wf own (mark_offer_sent now c) = call_wf own c"
  by (simp add: call_wf_def split: call_direction.split)

lemma call_wf_updates [simp]:
  "call_wf own (c\<lparr>cs_merged_call_id := i\<rparr>) = call_wf own c"
  "call_wf own (c\<lparr>cs_native_camera_sequence := n\<rparr>) = call_wf own c"
  "call_wf own (c\<lparr>cs_refused_by_other_engine := b\<rparr>) = call_wf own c"
  by (simp_all add: call_wf_def split: call_direction.split)

lemma call_wf_native_controls:
  "call_wf own c \<Longrightarrow> length l \<le> 16 \<Longrightarrow> call_wf own (c\<lparr>cs_native_controls := l\<rparr>)"
  by (auto simp: call_wf_def split: call_direction.splits)

lemma next_sequence_close [simp]: "next_sequence (close_call i x b) = next_sequence b"
  by (simp add: close_call_def)

lemma next_sequence_receive [simp]: "next_sequence (fst (receive x n b)) = next_sequence b"
  by (simp add: receive_def)

lemma next_sequence_retain [simp]: "next_sequence (retain_signers P b) = next_sequence b"
  by (simp add: retain_signers_def)

lemma allocate_cases:
  obtains (full) "allocate_sequence b = (b, None)"
  | (fresh) n where "allocate_sequence b = (b\<lparr>next_sequence := n\<rparr>, Some n)" and "next_sequence b < n"
proof (cases "checked_add (next_sequence b) 1")
  case None
  then show ?thesis using full by (simp add: allocate_sequence_def)
next
  case (Some n)
  then have "unat n = Suc (unat (next_sequence b))" using unat_checked_add by fastforce
  then have "next_sequence b < n" by (simp add: word_less_nat_alt)
  with Some show ?thesis using fresh by (simp add: allocate_sequence_def)
qed

lemma sent_wf_publish: "sent_wf s \<Longrightarrow> sent_wf (fst (publish_authenticated_call env i a s))"
proof (cases rule: publish_sent_cases [of env i a s])
  case 1
  assume "sent_wf s"
  with 1 show ?thesis
    by (cases rule: allocate_cases [of "ss_call_controls s"]) (auto simp: sent_wf_def)
next
  case (2 n peer)
  assume wf: "sent_wf s"
  from 2(1) have "fst (allocate_sequence (ss_call_controls s)) = (ss_call_controls s)\<lparr>next_sequence := n\<rparr>"
    and less: "next_sequence (ss_call_controls s) < n"
    by (cases rule: allocate_cases [of "ss_call_controls s"]; simp)+
  moreover have "0 < n" using less by (metis word_gt_0 word_not_simps(1))
  ultimately show ?thesis using wf 2(2)
    by (auto simp: sent_wf_def own_control_def sorted_wrt_append)
qed

lemma session_wf_publish [wf_intros]:
  "session_wf s \<Longrightarrow> session_wf (fst (publish_authenticated_call env i a s))"
  by (simp add: session_wf_def sent_wf_publish book_wf_allocate)

lemma session_wf_append [wf_intros]:
  "session_wf s \<Longrightarrow> session_wf (append_call_event_message env now c own k d i s)"
  by (simp add: session_wf_def sent_wf_def)

lemma session_wf_note [wf_intros]: "session_wf s \<Longrightarrow> session_wf (note_authenticated_frame n s)"
  by (simp add: session_wf_def sent_wf_def)

lemma session_wf_ends [wf_intros]:
  "session_wf s \<Longrightarrow> retries_wf e \<Longrightarrow> session_wf (s\<lparr>ss_call_ends := e\<rparr>)"
  by (simp add: session_wf_def sent_wf_def)

lemma session_wf_occupancy [wf_intros]:
  "session_wf s \<Longrightarrow> occupancy_wf q \<Longrightarrow> session_wf (s\<lparr>ss_call_occupancy := q\<rparr>)"
  by (simp add: session_wf_def sent_wf_def)

lemma session_wf_controls [wf_intros]:
  "session_wf s \<Longrightarrow> book_wf b \<Longrightarrow> next_sequence b = next_sequence (ss_call_controls s) \<Longrightarrow>
   session_wf (s\<lparr>ss_call_controls := b\<rparr>)"
  by (simp add: session_wf_def sent_wf_def)

lemma session_wf_no_call [wf_intros]: "session_wf s \<Longrightarrow> session_wf (s\<lparr>ss_call := None\<rparr>)"
  by (simp add: session_wf_def sent_wf_def)

lemma session_wf_call [wf_intros]:
  "session_wf s \<Longrightarrow> call_wf (ss_signer s) c \<Longrightarrow> session_wf (s\<lparr>ss_call := Some c\<rparr>)"
  by (simp add: session_wf_def sent_wf_def)

lemma session_wf_flags [wf_intros]:
  "session_wf s \<Longrightarrow> session_wf (s\<lparr>ss_record_dirty := d\<rparr>)"
  "session_wf s \<Longrightarrow> session_wf (s\<lparr>ss_call_admission_blocked := b\<rparr>)"
  by (simp_all add: session_wf_def sent_wf_def)

lemma session_wfD:
  assumes "session_wf s"
  shows "book_wf (ss_call_controls s)" "occupancy_wf (ss_call_occupancy s)" "retries_wf (ss_call_ends s)"
    "ss_call s = Some c \<Longrightarrow> call_wf (ss_signer s) c"
  using assms by (simp_all add: session_wf_def)

lemma finish_call_controls_wf:
  "book_wf (ss_call_controls s) \<Longrightarrow> book_wf (ss_call_controls (finish_call env now k d s))"
  by (auto simp: finish_call_def Let_def intro!: wf_intros split: option.split)

lemma finish_call_sequence [simp]:
  "next_sequence (ss_call_controls (finish_call env now k d s)) = next_sequence (ss_call_controls s)"
  by (simp add: finish_call_def Let_def split: option.split)

lemma session_wf_finish [wf_intros]:
  assumes "session_wf s"
  shows "session_wf (finish_call env now k d s)"
proof -
  have "occupancy_wf (ss_call_occupancy (finish_call env now k d s))"
    using session_wfD(2) [OF assms]
    by (auto simp: finish_call_def Let_def intro!: wf_intros split: option.split)
  with assms finish_call_controls_wf [OF session_wfD(1) [OF assms]] show ?thesis
    by (simp add: session_wf_def sent_wf_def)
qed

lemma session_wf_end [wf_intros]:
  "session_wf s \<Longrightarrow> session_wf (fst (call_end env now i r s))"
  by (auto simp: call_end_def Let_def split: option.split prod.split dest: session_wfD(3)
      intro!: session_wf_finish retries_wf_remember session_wf_ends)
    (metis fst_conv retries_wf_remember session_wfD(3) session_wf_ends session_wf_publish)

lemma publishD:
  assumes "publish_authenticated_call env i a s = (s1, r)"
  shows "session_wf s \<Longrightarrow> session_wf s1" and "ss_call s1 = ss_call s" and "ss_signer s1 = ss_signer s"
    and "ss_call_ends s1 = ss_call_ends s" and "ss_messages s1 = ss_messages s"
    and "ss_call_controls s1 = fst (allocate_sequence (ss_call_controls s))"
    and "ss_membership s1 = ss_membership s" and "ss_session_id s1 = ss_session_id s"
  using session_wf_publish [of s env i a] publish_fields [of env i a s] assms by simp_all

lemma call_wf_outgoing: "call_wf own ((outgoing i r)\<lparr>cs_caller_signer := own\<rparr>)"
  by (simp add: call_wf_def outgoing_def)

lemma call_wf_ringing:
  "x \<noteq> own \<Longrightarrow> call_wf own ((mark_offer_sent now (ringing i n))\<lparr>cs_caller_signer := x, cs_remote_peer := p\<rparr>)"
  by (simp add: call_wf_def ringing_def mark_offer_sent_def)

lemma session_wf_start [wf_intros]:
  assumes "session_wf s"
  shows "session_wf (fst (call_start env now s))"
proof -
  have "session_wf (s\<lparr>ss_call := Some ((outgoing i [])\<lparr>cs_caller_signer := ss_signer s\<rparr>)\<rparr>)" for i
    using assms by (intro wf_intros call_wf_outgoing)
  then have step: "session_wf s1 \<and> ss_signer s1 = ss_signer s \<and>
      ss_call s1 = Some ((outgoing i [])\<lparr>cs_caller_signer := ss_signer s\<rparr>)"
    if "publish_call_offer env i (s\<lparr>ss_call := Some ((outgoing i [])\<lparr>cs_caller_signer := ss_signer s\<rparr>)\<rparr>) = (s1, r)"
    for i s1 r
    using that publishD(1-3) [of env i Offer] unfolding publish_call_offer_def by fastforce
  show ?thesis using assms
    by (auto simp: call_start_def Let_def split: sum.split prod.split intro!: wf_intros dest!: step
        simp: call_wf_outgoing)
qed

lemma session_wf_accept [wf_intros]:
  assumes "session_wf s"
  shows "session_wf (fst (call_accept env now i s))"
proof (cases "\<exists>c s1. ss_call s = Some c \<and> cs_phase c \<in> {Ringing, Accepting} \<and>
    publish_call_accept env i s = (s1, Ok ()) \<and> cs_call_id c = i")
  case True
  then obtain c s1 where c: "ss_call s = Some c" "cs_phase c \<in> {Ringing, Accepting}" "cs_call_id c = i"
    and s1: "publish_authenticated_call env i Answer s = (s1, Ok ())"
    by (auto simp: publish_call_accept_def)
  have "call_wf (ss_signer s) (c\<lparr>cs_phase := Accepting\<rparr>)"
    using session_wfD(4) [OF assms c(1)] c(2) by (auto simp: call_wf_def split: call_direction.splits)
  with c s1 publishD [OF s1] assms show ?thesis
    by (auto simp: call_accept_def publish_call_accept_def intro!: session_wf_call)
next
  case False
  with assms show ?thesis
    by (auto simp: call_accept_def publish_call_accept_def split: option.split prod.split sum.split
        dest: publishD(1))
qed

lemma session_wf_decline [wf_intros]:
  assumes "session_wf s"
  shows "session_wf (fst (call_decline env now i r s))"
proof (cases "publish_authenticated_call env i (Decline r) s")
  case (Pair s1 out)
  from publishD(1) [OF Pair assms] show ?thesis
    using assms by (auto simp: call_decline_def Pair split: sum.split intro!: wf_intros dest: session_wfD(3))
qed

lemma session_wf_media_out [wf_intros]:
  "session_wf s \<Longrightarrow> session_wf (fst (publish_native_media env i sg s))"
  by (simp add: publish_native_media_def session_wf_publish)

lemma session_wf_observe_selection [wf_intros]:
  "session_wf s \<Longrightarrow> session_wf (observe_call_selection now c r s)"
  by (auto simp: observe_call_selection_def split: option.split intro!: wf_intros dest: session_wfD(2))

lemma session_wf_observe_own [wf_intros]:
  assumes "session_wf s"
  shows "session_wf (observe_own_call now c s)"
proof -
  let ?s1 = "if authoritative_call_end s c then
      s\<lparr>ss_call_controls := close_call (cc_call_id c) True (ss_call_controls s),
        ss_call_occupancy := finish_occupancy (cc_call_id c) True (ss_call_occupancy s)\<rparr> else s"
  have wf1: "session_wf ?s1"
    using assms session_wfD(1,2) [OF assms] by (auto intro!: wf_intros)
  then have occ: "occupancy_wf (ss_call_occupancy ?s1)" by (rule session_wfD(2))
  show ?thesis
    unfolding observe_own_call_def Let_def
    by (cases "cc_action c")
      (simp_all only: call_action.case session_wf_occupancy [OF wf1] occupancy_wf_release [OF occ]
        occupancy_wf_reserve [OF occ])
qed

lemma session_wf_install [wf_intros]:
  assumes "session_wf s" and "cc_signer c \<noteq> ss_signer s"
  shows "session_wf (install_incoming_call now c s)"
  using assms session_wfD(2) [OF assms(1)]
  by (auto simp: install_incoming_call_def Let_def intro!: wf_intros call_wf_ringing)

lemma session_wf_merge:
  assumes "session_wf s" and "cc_signer c \<noteq> ss_signer s" and "ss_call s = Some call"
  shows "session_wf (fst (merge_cross_call env now c call s))"
proof -
  have keep: "session_wf (s\<lparr>ss_call := Some (call\<lparr>cs_merged_call_id := Some i\<rparr>)\<rparr>)" for i
    using session_wfD(4) [OF assms(1,3)] by (intro session_wf_call [OF assms(1)]) simp
  let ?s1 = "install_incoming_call now c s"
  have "session_wf (?s1\<lparr>ss_call := map_option (\<lambda>x. mark_offer_sent now
      (x\<lparr>cs_merged_call_id := Some (cs_call_id call), cs_phase := Accepting\<rparr>)) (ss_call ?s1)\<rparr>)"
    using session_wf_install [OF assms(1,2)] assms(2)
    by (auto intro!: session_wf_call simp: call_wf_def ringing_def mark_offer_sent_def)
  with keep show ?thesis
    by (auto simp: merge_cross_call_def Let_def publish_call_accept_def intro!: session_wf_publish)
qed

lemma session_wf_offer [wf_intros]:
  assumes "session_wf s" and "cc_signer c \<noteq> ss_signer s"
  shows "session_wf (fst (receive_call_offer env now c s))"
proof -
  have "session_wf (fst (refuse_other_engine env now c s))"
    using assms(1) session_wfD(3) [OF assms(1)]
    by (auto simp: refuse_other_engine_def Let_def intro!: wf_intros)
  with assms session_wf_merge [OF assms] session_wf_install [OF assms] session_wf_publish [OF assms(1)]
  show ?thesis
    by (auto simp: receive_call_offer_def publish_call_accept_def split: option.split)
qed

lemma session_wf_media_in [wf_intros]:
  assumes "session_wf s"
  shows "session_wf (receive_native_media c sg s)"
proof -
  have "session_wf (s\<lparr>ss_call := Some ((if b then call\<lparr>cs_native_camera_sequence := n\<rparr> else call)
      \<lparr>cs_native_controls := push_capped 16 sg (cs_native_controls call)\<rparr>)\<rparr>)"
    if "ss_call s = Some call" for call b n
  proof -
    have wf: "call_wf (ss_signer s) call" using assms that by (rule session_wfD(4))
    then have "length (push_capped 16 sg (cs_native_controls call)) \<le> 16"
      by (intro length_push_capped) (simp_all add: call_wf_def)
    with wf show ?thesis by (intro session_wf_call [OF assms] call_wf_native_controls) simp_all
  qed
  from this [where b = True] this [where b = False] assms show ?thesis
    by (auto simp: receive_native_media_def Let_def split: option.split)
qed

lemma session_wf_answer [wf_intros]:
  assumes "session_wf s" and "cc_signer c \<noteq> ss_signer s"
  shows "session_wf (fst (receive_call_answer env now c s))"
proof (cases "publish_authenticated_call env (cc_call_id c) (Selected (cc_signer c)) s")
  case (Pair s1 r)
  have act: "call_wf (ss_signer s) (become_active now (x\<lparr>cs_selected_signer := Some (cc_signer c),
      cs_remote_peer := p, cs_remote_device := d\<rparr>))"
    if "ss_call s = Some x" "cs_direction x = Caller" for x p d
    using session_wfD(4) [OF assms(1) that(1)] that(2) assms(2) by (simp add: call_wf_def become_active_def)
  show ?thesis
    using assms publishD(1-3) [OF Pair] session_wf_publish [OF assms(1)] session_wf_end [OF assms(1)]
    by (auto simp: receive_call_answer_def Pair split: option.split sum.split
        intro!: wf_intros session_wf_call act)
qed

lemma session_wf_selection [wf_intros]:
  assumes "session_wf s"
  shows "session_wf (receive_call_selection now c r s)"
proof -
  have act: "call_wf (ss_signer s) (become_active now (x\<lparr>cs_selected_signer := Some (ss_signer s)\<rparr>))"
    if "ss_call s = Some x" "cs_direction x = Callee" for x
    using session_wfD(4) [OF assms that(1)] that(2) by (simp add: call_wf_def become_active_def)
  show ?thesis
    using assms
    by (auto simp: receive_call_selection_def Let_def split: option.split
        intro!: wf_intros session_wf_call act)
qed

lemma session_wf_termination [wf_intros]:
  assumes "session_wf s"
  shows "session_wf (receive_call_termination env now c s)"
proof -
  let ?s1 = "s\<lparr>ss_call_occupancy := receive_end (cc_signer c) (cc_call_id c) (ss_call_occupancy s)\<rparr>"
  have s1: "session_wf ?s1" using assms session_wfD(2) [OF assms] by (intro wf_intros)
  have closed: "session_wf (?s1\<lparr>ss_call_controls := close_call i True (ss_call_controls s)\<rparr>)" for i
    using session_wf_controls [OF s1] session_wfD(1) [OF assms] by (simp add: book_wf_close)
  have ring: "session_wf (ring_on_after_engine_refusal ?s1)"
    using s1 session_wfD(4) [OF s1]
    by (cases "ss_call s") (auto simp: ring_on_after_engine_refusal_def intro!: session_wf_call session_wf_no_call)
  have pub: "session_wf (fst (publish_authenticated_call env i a
      (?s1\<lparr>ss_call_controls := close_call i True (ss_call_controls s),
           ss_call_ends := remember_end i a now (ss_call_ends s)\<rparr>)))" for i a
    using session_wfD(3) [OF assms]
    by (intro session_wf_publish session_wf_ends closed retries_wf_remember)
  show ?thesis
    unfolding receive_call_termination_def Let_def
    using s1 closed ring pub
    by (cases "ss_call s") (auto intro!: session_wf_finish)
qed

lemma session_wf_apply [wf_intros]:
  assumes "session_wf s"
  shows "session_wf (fst (apply_call_control env now c s))"
  using assms
  by (cases "cc_action c") (auto simp: apply_call_control_def intro!: wf_intros)

lemma decryptD:
  assumes "decrypt_call_control env ct s = (s1, r)"
  shows "session_wf s \<Longrightarrow> session_wf s1" and "ss_call s1 = ss_call s" and "ss_signer s1 = ss_signer s"
    and "ss_messages s1 = ss_messages s" and "ss_sent s1 = ss_sent s"
    and "ss_membership s1 = ss_membership s" and "closed (ss_call_controls s1) = closed (ss_call_controls s)"
    and "ss_call_occupancy s1 = ss_call_occupancy s" and "ss_session_id s1 = ss_session_id s"
    and "r = Ok c \<Longrightarrow> admitted_sender env s1 c \<and> (\<exists>x. open_control env s1 ct = Ok (c, x) \<and> control_in_bounds s1 c x)"
  using assms
  by (auto simp: decrypt_call_control_def Let_def retain_signers_def session_wf_def sent_wf_def
      book_wf_def bt_wf_retain split: option.splits sum.splits prod.splits if_splits)

lemma admit_controlD:
  assumes "admit_control c s = (s1, b)"
  shows "session_wf s \<Longrightarrow> session_wf s1" and "ss_call s1 = ss_call s" and "ss_signer s1 = ss_signer s"
    and "ss_messages s1 = ss_messages s" and "ss_sent s1 = ss_sent s" and "ss_session_id s1 = ss_session_id s"
    and "ss_membership s1 = ss_membership s" and "closed (ss_call_controls s1) = closed (ss_call_controls s)"
    and "ss_call_occupancy s1 = ss_call_occupancy s"
  using assms session_wf_controls [of s "fst (receive (cc_signer c) (cc_sequence c) (ss_call_controls s))"]
    book_wf_receive [of "ss_call_controls s"] session_wfD(1) [of s]
  by (auto simp: admit_control_def Let_def receive_def split: if_splits prod.splits)

text \<open>How a handled frame can leave the session.\<close>

lemma handle_call_control_cases:
  obtains (ignored) "fst (handle_call_control env now sid ct s) = s"
  | (refused) s1 e where "decrypt_call_control env ct s = (s1, Inl e)"
      and "handle_call_control env now sid ct s = (s1, Inl e)"
  | (duplicate) s1 c s2 where "decrypt_call_control env ct s = (s1, Ok c)" and "admit_control c s1 = (s2, False)"
      and "fst (handle_call_control env now sid ct s) = s2\<lparr>ss_record_dirty := True\<rparr>"
  | (applied) s1 c s2 where "decrypt_call_control env ct s = (s1, Ok c)" and "admit_control c s1 = (s2, True)"
      and "fst (handle_call_control env now sid ct s) =
        (fst (apply_call_control env now c s2))\<lparr>ss_record_dirty := True\<rparr>"
proof (cases "sid = ss_session_id s")
  case False
  then show ?thesis using ignored by (simp add: handle_call_control_def)
next
  case True
  obtain s1 r where d: "decrypt_call_control env ct s = (s1, r)" by fastforce
  show ?thesis
  proof (cases r)
    case (Inl e)
    with d True refused show ?thesis by (simp add: handle_call_control_def)
  next
    case (Inr c)
    obtain s2 b where a: "admit_control c s1 = (s2, b)" by fastforce
    obtain s3 q where ap: "apply_call_control env now c s2 = (s3, q)" by fastforce
    show ?thesis
    proof (cases b)
      case True
      with d Inr a ap \<open>sid = ss_session_id s\<close> applied show ?thesis
        by (simp add: handle_call_control_def Let_def split: sum.split)
    next
      case False
      with d Inr a \<open>sid = ss_session_id s\<close> duplicate show ?thesis
        by (simp add: handle_call_control_def Let_def split: sum.split)
    qed
  qed
qed

lemma session_wf_control [wf_intros]:
  assumes "session_wf s"
  shows "session_wf (fst (handle_call_control env now sid ct s))"
proof (cases rule: handle_call_control_cases [of env now sid ct s])
  case ignored
  with assms show ?thesis by simp
next
  case (refused s1 e)
  with decryptD(1) [OF refused(1) assms] show ?thesis by simp
next
  case (duplicate s1 c s2)
  have "session_wf s2" using decryptD(1) [OF duplicate(1) assms] by (rule admit_controlD(1) [OF duplicate(2)])
  with duplicate(3) show ?thesis by (simp add: session_wf_flags)
next
  case (applied s1 c s2)
  have "session_wf s2" using decryptD(1) [OF applied(1) assms] by (rule admit_controlD(1) [OF applied(2)])
  with applied(3) show ?thesis by (simp add: session_wf_flags session_wf_apply)
qed

lemma publish_due_wf: "session_wf s \<Longrightarrow> session_wf (publish_due env xs s)"
  by (induction xs arbitrary: s) (auto simp: session_wf_publish)

lemma publish_due_fields [simp]:
  "ss_call (publish_due env xs s) = ss_call s"
  "ss_signer (publish_due env xs s) = ss_signer s"
  "ss_call_ends (publish_due env xs s) = ss_call_ends s"
  by (induction xs arbitrary: s) auto

lemma session_wf_pump [wf_intros]:
  assumes "session_wf s"
  shows "session_wf (pump_call_signaling env now s)"
proof -
  obtain ends resend where due: "due now (ss_call_ends s) = (ends, resend)" by fastforce
  have "retries_wf ends" using retries_wf_due [OF session_wfD(3) [OF assms], of now] due by simp
  then have "session_wf (s\<lparr>ss_call_occupancy := expire now (ss_call_occupancy s), ss_call_ends := ends\<rparr>)"
    using assms session_wfD(2) [OF assms] by (intro wf_intros)
  then have s1: "session_wf (publish_due env resend
      (s\<lparr>ss_call_occupancy := expire now (ss_call_occupancy s), ss_call_ends := ends\<rparr>))" (is "session_wf ?s1")
    by (rule publish_due_wf)
  have mark: "session_wf (s2\<lparr>ss_call := map_option (mark_offer_sent now) (ss_call s2)\<rparr>)"
    if "session_wf s2" for s2
    using that session_wfD(4) [OF that] by (cases "ss_call s2") (auto intro!: session_wf_call session_wf_no_call)
  have "session_wf (case publish_authenticated_call env i a ?s1 of
      (s2, Inl _) \<Rightarrow> s2 | (s2, Inr _) \<Rightarrow> s2\<lparr>ss_call := map_option (mark_offer_sent now) (ss_call s2)\<rparr>)" for i a
    by (auto split: prod.split sum.split intro: mark dest: publishD(1) [OF _ s1])
  with s1 session_wf_end [OF s1] show ?thesis
    by (auto simp: pump_call_signaling_def due Let_def split: option.split)
qed

lemma session_wf_reconcile [wf_intros]:
  "session_wf s \<Longrightarrow> session_wf (reconcile_session env now s)"
  by (auto simp: reconcile_session_def split: option.split intro: session_wf_finish)

section \<open>Runs of a session\<close>

inductive call_steps :: "('vk, 'sg, 'sk) call_env \<Rightarrow> dm_session \<Rightarrow> dm_session \<Rightarrow> bool" for env where
  init: "call_steps env s s"
| start: "call_steps env s t \<Longrightarrow> call_steps env s (fst (call_start env now t))"
| accept: "call_steps env s t \<Longrightarrow> call_steps env s (fst (call_accept env now i t))"
| decline: "call_steps env s t \<Longrightarrow> call_steps env s (fst (call_decline env now i r t))"
| hang_up: "call_steps env s t \<Longrightarrow> call_steps env s (fst (call_end env now i r t))"
| control: "call_steps env s t \<Longrightarrow> call_steps env s (fst (handle_call_control env now sid ct t))"
| media: "call_steps env s t \<Longrightarrow> call_steps env s (fst (publish_native_media env i sg t))"
| pump: "call_steps env s t \<Longrightarrow> call_steps env s (pump_call_signaling env now t)"
| reconcile: "call_steps env s t \<Longrightarrow> call_steps env s (reconcile_session env now t)"
| blocked: "call_steps env s t \<Longrightarrow> call_steps env s (t\<lparr>ss_call_admission_blocked := b\<rparr>)"

lemma call_steps_wf: "call_steps env s t \<Longrightarrow> session_wf s \<Longrightarrow> session_wf t"
  by (induction rule: call_steps.induct) (auto intro: wf_intros)

section \<open>How the call changes\<close>

text \<open>A control is handled without a call starting or becoming active, unless it is one of three.\<close>

lemma observe_own_call_keeps [simp]:
  "ss_call (observe_own_call now c s) = ss_call s" "ss_messages (observe_own_call now c s) = ss_messages s"
  by (auto simp: observe_own_call_def Let_def split: call_action.split)

lemma selection_call_cases:
  assumes "ss_call (receive_call_selection now c r s) = Some x" and "cs_phase x = Active"
  shows "ss_call s = Some x \<or>
    (\<exists>y. ss_call s = Some y \<and> cs_phase y = Accepting \<and> cs_call_id y = cc_call_id c \<and>
      cs_caller_signer y = cc_signer c \<and> r = ss_signer s \<and> cs_call_id x = cc_call_id c \<and>
      cs_selected_signer x = Some (ss_signer s))"
  using assms by (auto simp: receive_call_selection_def Let_def become_active_def
      split: option.splits if_splits)

lemma finish_after_end [simp]: "ss_call (fst (call_end env now i r s)) =
    (case ss_call s of None \<Rightarrow> None | Some c \<Rightarrow> if matches_id c i then None else Some c)"
  by (auto simp: call_end_def Let_def split: option.split prod.split)

lemma answer_call_cases:
  assumes "ss_call (fst (receive_call_answer env now c s)) = Some x" and "cs_phase x = Active"
  shows "ss_call s = Some x \<or>
    (\<exists>y. ss_call s = Some y \<and> cs_phase y = Outgoing \<and> cs_call_id y = cc_call_id c \<and>
      same_media_protocol env c \<and> cs_call_id x = cc_call_id c \<and>
      cs_selected_signer x = Some (cc_signer c))"
proof (cases "publish_authenticated_call env (cc_call_id c) (Selected (cc_signer c)) s")
  case (Pair s1 q)
  from assms publishD(2) [OF Pair] show ?thesis
    by (auto simp: receive_call_answer_def Pair become_active_def
        split: option.splits if_splits sum.splits)
qed

lemma termination_call:
  "ss_call (receive_call_termination env now c s) = None \<or>
   ss_call (receive_call_termination env now c s) = ss_call s \<or>
   (\<exists>y. ss_call s = Some y \<and> cs_phase y = Outgoing \<and>
      ss_call (receive_call_termination env now c s) = Some (y\<lparr>cs_refused_by_other_engine := True\<rparr>))"
  by (auto simp: receive_call_termination_def Let_def ring_on_after_engine_refusal_def split: option.split)

lemma offer_call_cases:
  assumes "ss_call (fst (receive_call_offer env now c s)) = Some x" and "cs_phase x = Active"
  shows "ss_call s = Some x"
proof -
  have pub: "ss_call (fst (publish_call_accept env i t)) = ss_call t" for i t
    by (simp add: publish_call_accept_def)
  have eng: "ss_call (fst (refuse_other_engine env now c s)) = ss_call s"
    by (simp add: refuse_other_engine_def Let_def)
  have merge: "cs_phase y \<noteq> Active"
    if "cs_phase call = Outgoing" "ss_call (fst (merge_cross_call env now c call s)) = Some y" for call y
    using that by (auto simp: merge_cross_call_def Let_def pub split: if_splits)
  have inst: "cs_phase y \<noteq> Active" if "ss_call (install_incoming_call now c s) = Some y" for y
    using that by (auto simp: ringing_def mark_offer_sent_def)
  from assms show ?thesis
    by (auto simp: receive_call_offer_def pub eng split: option.splits if_splits dest: merge inst
        simp del: install_fields)
qed

lemma media_call_cases:
  assumes "ss_call (receive_native_media c sg s) = Some x" and "cs_phase x = Active"
  shows "\<exists>y. ss_call s = Some y \<and> cs_phase y = Active"
  using assms by (auto simp: receive_native_media_def Let_def split: option.splits if_splits)

lemma apply_call_control_cases:
  obtains (kept) "ss_call (fst (apply_call_control env now c s)) = ss_call s"
  | (dispatched) "fst (apply_call_control env now c s) =
      (case cc_action c of
         Media sg \<Rightarrow> receive_native_media c sg s
       | Offer \<Rightarrow> fst (receive_call_offer env now c s)
       | Answer \<Rightarrow> fst (receive_call_answer env now c s)
       | Occupied _ _ \<Rightarrow> s
       | Selected r \<Rightarrow> receive_call_selection now c r s
       | Decline _ \<Rightarrow> receive_call_termination env now c s
       | End _ _ \<Rightarrow> receive_call_termination env now c s)"
proof (cases "confirmed_closed (ss_call_controls s) (cc_call_id c) \<or> cc_signer c = ss_signer s \<or>
    (case ss_membership s of None \<Rightarrow> False | Some m \<Rightarrow> call_own m (cc_signer c))")
  case True
  then show ?thesis by (intro kept) (auto simp: apply_call_control_def)
next
  case False
  then show ?thesis by (intro dispatched) (cases "cc_action c"; simp add: apply_call_control_def)
qed

lemma apply_activates:
  assumes "ss_call (fst (apply_call_control env now c s)) = Some x" and "cs_phase x = Active"
    and "\<forall>y. ss_call s = Some y \<longrightarrow> cs_phase y \<noteq> Active"
  shows "\<exists>y. ss_call s = Some y \<and> cs_call_id y = cc_call_id c \<and> cs_call_id x = cc_call_id c \<and>
    (cc_action c = Answer \<and> cs_phase y = Outgoing \<and> same_media_protocol env c \<and>
       cs_selected_signer x = Some (cc_signer c) \<or>
     cc_action c = Selected (ss_signer s) \<and> cs_phase y = Accepting \<and>
       cs_caller_signer y = cc_signer c \<and> cs_selected_signer x = Some (ss_signer s))"
proof -
  from assms(2,3) have ne: "ss_call s \<noteq> Some x" by blast
  show ?thesis
  proof (cases rule: apply_call_control_cases [of env now c s])
    case kept
    with assms(1) ne show ?thesis by simp
  next
    case dispatched
    show ?thesis
    proof (cases "cc_action c")
      case (Media sg)
      with dispatched assms media_call_cases [of c sg s x] show ?thesis by auto
    next
      case Offer
      with dispatched assms ne offer_call_cases [of env now c s x] show ?thesis by auto
    next
      case Answer
      with dispatched assms ne answer_call_cases [of env now c s x] show ?thesis by auto
    next
      case (Occupied a b)
      with dispatched assms ne show ?thesis by auto
    next
      case (Selected r)
      with dispatched assms ne selection_call_cases [of now c r s x] show ?thesis by auto
    next
      case (Decline r)
      with dispatched assms ne termination_call [of env now c s] show ?thesis by auto
    next
      case (End a r)
      with dispatched assms ne termination_call [of env now c s] show ?thesis by auto
    qed
  qed
qed

lemma apply_keeps_closed:
  assumes "ss_call s = None" and "is_closed (ss_call_controls s) (cc_call_id c)"
  shows "ss_call (fst (apply_call_control env now c s)) = None \<and>
    is_closed (ss_call_controls (fst (apply_call_control env now c s))) (cc_call_id c)"
proof -
  have offer: "receive_call_offer env now c s = (s, Ok ())"
    using assms(2) by (simp add: receive_call_offer_def closed_call_offer_def)
  have ended: "ss_call (receive_call_termination env now c s) = None"
    "is_closed (ss_call_controls (receive_call_termination env now c s)) (cc_call_id c)"
    using assms by (auto simp: receive_call_termination_def Let_def is_closed_close)
  have own: "is_closed (ss_call_controls (observe_own_call now c s)) (cc_call_id c)"
    using assms(2) by (cases "cc_action c") (auto simp: observe_own_call_def Let_def is_closed_close)
  have rest: "receive_native_media c sg s = s" "receive_call_answer env now c s = (s, Ok ())"
    "ss_call (receive_call_selection now c r s) = None"
    "ss_call_controls (receive_call_selection now c r s) = ss_call_controls s" for sg r
    using assms(1) by (simp_all add: receive_native_media_def receive_call_answer_def receive_call_selection_def Let_def)
  show ?thesis
    using assms own ended by (cases "cc_action c") (simp_all add: apply_call_control_def offer rest)
qed

lemma finish_call_closes:
  assumes "ss_call s = Some c" and "cs_merged_call_id c = None"
  shows "is_closed (ss_call_controls (finish_call env now k d s)) (cs_call_id c)"
  using assms by (simp add: finish_call_def Let_def is_closed_close)

lemma is_closed_cong: "closed b = closed b' \<Longrightarrow> is_closed b i = is_closed b' i"
  by (simp add: is_closed_def)

lemma handle_keeps_closed:
  assumes "ss_call s = None" and "is_closed (ss_call_controls s) i"
    and "decrypt_call_control env ct s = (s1, Ok c)" and "cc_call_id c = i"
  shows "ss_call (fst (handle_call_control env now sid ct s)) = None \<and>
    is_closed (ss_call_controls (fst (handle_call_control env now sid ct s))) i"
proof (cases rule: handle_call_control_cases [of env now sid ct s])
  case ignored
  with assms show ?thesis by simp
next
  case (refused s1 e)
  with assms show ?thesis by simp
next
  case (duplicate t1 c' s2)
  have "ss_call s2 = None" "closed (ss_call_controls s2) = closed (ss_call_controls s)"
    using decryptD(2,7) [OF duplicate(1)] admit_controlD(2,8) [OF duplicate(2)] assms(1) by simp_all
  with duplicate(3) assms(2) show ?thesis by (simp add: is_closed_def)
next
  case (applied t1 c' s2)
  with assms(3) have [simp]: "t1 = s1" "c' = c" by auto
  have "ss_call s2 = None" using assms decryptD(2) [OF assms(3)] admit_controlD(2) [OF applied(2)] by simp
  moreover have "closed (ss_call_controls s2) = closed (ss_call_controls s)"
    using decryptD(7) [OF assms(3)] admit_controlD(8) [OF applied(2)] by simp
  then have "is_closed (ss_call_controls s2) (cc_call_id c)"
    using assms(2,4) by (simp add: is_closed_def)
  ultimately show ?thesis using applied(3) apply_keeps_closed [of s2 c env now] assms(4) by simp
qed

lemma call_end_closes:
  assumes "ss_call s = Some c" and "cs_merged_call_id c = None" and "matches_id c i"
  shows "ss_call (fst (call_end env now i r s)) = None \<and>
    is_closed (ss_call_controls (fst (call_end env now i r s))) (cs_call_id c)"
proof -
  let ?s0 = "s\<lparr>ss_call_ends := remember_end (cs_call_id c) (End (cs_caller_signer c) r) now (ss_call_ends s)\<rparr>"
  obtain s1 q where p: "publish_authenticated_call env (cs_call_id c) (End (cs_caller_signer c) r) ?s0 = (s1, q)"
    by fastforce
  have "ss_call s1 = Some c" using publishD(2) [OF p] assms(1) by simp
  with assms p finish_call_closes [of s1 c] show ?thesis by (simp add: call_end_def Let_def)
qed

section \<open>Properties\<close>

text \<open>
  Witnesses run two sessions, \<open>''A''\<close> and \<open>''B''\<close>, whose frames are a fixed table of controls and whose
  transport takes everything.
\<close>

definition demo_call_env :: "(string \<Rightarrow> call_control) \<Rightarrow> (bytes, bytes, bytes) call_env" where
  "demo_call_env frames =
     \<lparr>claims = demo_claim_env, media_protocol = 2, local_peer_id = Some ''p'',
      encrypt_control = (\<lambda>_ _. Ok ''x''), open_control = (\<lambda>_ ct. Ok (frames ct, cc_signer (frames ct))),
      store_crypto = (\<lambda>_. Ok ()), route_send = (\<lambda>_ _. Ok ()), call_token = (\<lambda>s. Ok (''call-'' @ ss_signer s)),
      occurrence = (\<lambda>_. ''o'')\<rparr>"

definition demo_session :: "string \<Rightarrow> dm_session" where
  "demo_session signer =
     \<lparr>ss_session_id = ''dm'', ss_device_id = signer, ss_signer = signer, ss_member_signers = [''A'', ''B''],
      ss_crypto_ready = True, ss_membership = None, ss_has_store = True, ss_peer_moss_id = Some ''p'',
      ss_state = Connected, ss_peer_joined = True, ss_peer_display_name = None,
      ss_recovery_hello_delay_ms = None, ss_authenticated_since_tick = False, ss_call = None,
      ss_call_controls = new_book, ss_call_occupancy = new_occupancy, ss_call_ends = [],
      ss_call_admission_blocked = False, ss_messages = new_log, ss_record_dirty = False, ss_sent = []\<rparr>"

definition demo_control :: "string \<Rightarrow> u64 \<Rightarrow> string \<Rightarrow> call_action \<Rightarrow> call_control" where
  "demo_control signer n call_id action =
     \<lparr>cc_session_id = ''dm'', cc_call_id = call_id, cc_signer = signer, cc_sequence = n, cc_peer = ''p'',
      cc_name = signer, cc_action = action, cc_media_protocol = 2\<rparr>"

lemma demo_session_wf: "session_wf (demo_session x)"
  by (simp add: session_wf_def demo_session_def sent_wf_def book_wf_new occupancy_wf_new retries_wf_Nil)

lemma demo_session_fields [simp]:
  "ss_session_id (demo_session x) = ''dm''" "ss_signer (demo_session x) = x" "ss_call (demo_session x) = None"
  "ss_membership (demo_session x) = None" "ss_peer_moss_id (demo_session x) = Some ''p''"
  "ss_call_controls (demo_session x) = new_book" "ss_state (demo_session x) = Connected"
  "ss_messages (demo_session x) = new_log" "ss_call_occupancy (demo_session x) = new_occupancy"
  "ss_call_admission_blocked (demo_session x) = False"
  by (simp_all add: demo_session_def)

lemma demo_control_fields [simp]:
  "cc_session_id (demo_control x n i a) = ''dm''" "cc_call_id (demo_control x n i a) = i"
  "cc_signer (demo_control x n i a) = x" "cc_sequence (demo_control x n i a) = n"
  "cc_peer (demo_control x n i a) = ''p''" "cc_name (demo_control x n i a) = x"
  "cc_action (demo_control x n i a) = a" "cc_media_protocol (demo_control x n i a) = 2"
  by (simp_all add: demo_control_def)

lemma demo_publish_ok:
  "next_sequence (ss_call_controls s) < 100 \<Longrightarrow> ss_membership s = None \<Longrightarrow>
   snd (publish_authenticated_call (demo_call_env f) i a s) = Ok ()"
proof -
  assume small: "next_sequence (ss_call_controls s) < 100" and m: "ss_membership s = None"
  then have "unat (next_sequence (ss_call_controls s)) < 100" by (simp add: word_less_nat_alt)
  then have "checked_add (next_sequence (ss_call_controls s)) 1 = Some (next_sequence (ss_call_controls s) + 1)"
    by (simp add: checked_add_def)
  with m show ?thesis
    by (simp add: publish_authenticated_call_def allocate_sequence_def Let_def demo_call_env_def
        persist_device_crypto_def)
qed

lemma demo_call_token: "call_token (demo_call_env f) s = Ok (''call-'' @ ss_signer s)"
  by (simp add: demo_call_env_def)

text \<open>
  C26. The session's call state stays consistent under every sequence of user actions, received
  frames, clock ticks and authority checks: a caller's call is outgoing or active and its own, a
  callee's call is ringing, accepting or active and names another caller; it is active exactly when
  a receiver is selected, on the callee's side this device; queues, reservations and retransmissions
  keep their bounds; and the controls sent carry strictly ascending sequence numbers.
\<close>

theorem call_session_invariant:
  assumes "session_wf s" and "call_steps env s t"
  shows "session_wf t"
  using assms(2,1) by (rule call_steps_wf)

theorem call_session_invariant_witness:
  "\<exists>t. call_steps (demo_call_env (\<lambda>_. demo_control ''B'' 1 ''c'' Answer)) (demo_session ''A'') t \<and>
     session_wf t \<and> ss_call t \<noteq> None"
proof -
  let ?env = "demo_call_env (\<lambda>_. demo_control ''B'' 1 ''c'' Answer)"
  let ?t = "fst (call_start ?env 1000 (demo_session ''A''))"
  have steps: "call_steps ?env (demo_session ''A'') ?t"
    by (intro call_steps.start call_steps.init)
  let ?s0 = "demo_session ''A''\<lparr>ss_call := Some ((outgoing ''call-A'' [])\<lparr>cs_caller_signer := ''A''\<rparr>)\<rparr>"
  obtain s1 q where p: "publish_authenticated_call ?env ''call-A'' Offer ?s0 = (s1, q)" by fastforce
  have "q = Ok ()"
    using demo_publish_ok [of ?s0 "\<lambda>_. demo_control ''B'' 1 ''c'' Answer" "''call-A''" Offer] p
    by (simp add: new_book_def)
  then have "ss_call ?t \<noteq> None"
    using p publishD(2) [OF p]
    by (simp add: call_start_def ready_for_user_actions_def publish_call_offer_def Let_def demo_call_token)
  with call_session_invariant [OF demo_session_wf steps] steps show ?thesis by blast
qed

text \<open>
  C7. A call becomes active only by agreement of both sides: when handling a frame makes the call
  active, the frame was an admitted sender's control for that call, and either it answered this
  device's own outgoing call with the same media protocol, and its sender is the selected receiver,
  or it is the caller's selection of this very device after this device had accepted.
\<close>

theorem call_active_by_agreement:
  assumes "ss_call (fst (handle_call_control env now sid ct s)) = Some x" and "cs_phase x = Active"
    and "\<forall>y. ss_call s = Some y \<longrightarrow> cs_phase y \<noteq> Active"
  shows "\<exists>s1 c y. decrypt_call_control env ct s = (s1, Ok c) \<and> admitted_sender env s1 c \<and>
    ss_call s = Some y \<and> cs_call_id y = cc_call_id c \<and> cs_call_id x = cc_call_id c \<and>
    (cc_action c = Answer \<and> cs_phase y = Outgoing \<and> cc_media_protocol c = media_protocol env \<and>
       cs_selected_signer x = Some (cc_signer c) \<or>
     cc_action c = Selected (ss_signer s) \<and> cs_phase y = Accepting \<and>
       cs_caller_signer y = cc_signer c \<and> cs_selected_signer x = Some (ss_signer s))"
proof (cases rule: handle_call_control_cases [of env now sid ct s])
  case ignored
  with assms show ?thesis by auto
next
  case (refused s1 e)
  with assms decryptD(2) [OF refused(1)] show ?thesis by auto
next
  case (duplicate s1 c s2)
  with assms decryptD(2) [OF duplicate(1)] admit_controlD(2) [OF duplicate(2)] show ?thesis by auto
next
  case (applied s1 c s2)
  have same: "ss_call s2 = ss_call s" "ss_signer s2 = ss_signer s"
    using decryptD(2,3) [OF applied(1)] admit_controlD(2,3) [OF applied(2)] by simp_all
  have "admitted_sender env s1 c" using decryptD(10) [OF applied(1)] by simp
  moreover have "ss_call (fst (apply_call_control env now c s2)) = Some x" using applied(3) assms(1) by simp
  ultimately show ?thesis
    using applied(1) apply_activates [of env now c s2 x] assms(2,3) same
    by (auto simp: same_media_protocol_def)
qed

theorem call_active_by_agreement_witness:
  "\<exists>s x. let env = demo_call_env (\<lambda>_. demo_control ''B'' 1 ''c'' Answer) in
     ss_call (fst (handle_call_control env 9 ''dm'' ''f'' s)) = Some x \<and> cs_phase x = Active \<and>
     (\<exists>s1 c. decrypt_call_control env ''f'' s = (s1, Ok c) \<and> cs_selected_signer x = Some (cc_signer c))"
proof -
  let ?env = "demo_call_env (\<lambda>_. demo_control ''B'' 1 ''c'' Answer)"
  let ?c = "(outgoing ''c'' [])\<lparr>cs_caller_signer := ''A''\<rparr>"
  let ?s = "demo_session ''A''\<lparr>ss_call := Some ?c\<rparr>"
  let ?b = "demo_control ''B'' 1 ''c'' Answer"
  let ?s2 = "?s\<lparr>ss_call_controls := fst (receive ''B'' 1 new_book)\<rparr>"
  have dec: "decrypt_call_control ?env ''f'' ?s = (?s, Ok ?b)"
    by (simp add: decrypt_call_control_def demo_call_env_def control_in_bounds_def admitted_sender_def
        persist_device_crypto_def)
  have adm: "admit_control ?b ?s = (?s2, True)"
    by (simp add: admit_control_def is_media_def receive_def new_book_def)
  obtain s3 q where p: "publish_authenticated_call ?env ''c'' (Selected ''B'') ?s2 = (s3, q)" by fastforce
  have "q = Ok ()"
    using demo_publish_ok [of ?s2 "\<lambda>_. ?b" "''c''" "Selected ''B''"] p by (simp add: receive_def new_book_def)
  then have "apply_call_control ?env 9 ?b ?s2 =
      (note_authenticated_frame ''B'' (s3\<lparr>ss_call := map_option (\<lambda>c. become_active 9
         (c\<lparr>cs_selected_signer := Some ''B'', cs_remote_peer := ''p'', cs_remote_device := ''B''\<rparr>)) (ss_call s3)\<rparr>), Ok ())"
    using p
    by (simp add: apply_call_control_def receive_call_answer_def outgoing_def same_media_protocol_def
        confirmed_closed_def receive_def new_book_def demo_call_env_def)
  moreover have "ss_call s3 = Some ?c" using publishD(2) [OF p] by simp
  ultimately have x: "ss_call (fst (handle_call_control ?env 9 ''dm'' ''f'' ?s)) = Some (become_active 9
      (?c\<lparr>cs_selected_signer := Some ''B'', cs_remote_peer := ''p'', cs_remote_device := ''B''\<rparr>))"
    by (simp add: handle_call_control_def dec adm Let_def split: sum.split)
  have "cs_phase (become_active 9
      (?c\<lparr>cs_selected_signer := Some ''B'', cs_remote_peer := ''p'', cs_remote_device := ''B''\<rparr>)) = Active"
    by (simp add: become_active_def)
  moreover have "\<forall>y. ss_call ?s = Some y \<longrightarrow> cs_phase y \<noteq> Active" by (simp add: outgoing_def)
  ultimately have "\<exists>s1 c. decrypt_call_control ?env ''f'' ?s = (s1, Ok c) \<and> cc_action c = Answer \<and>
      cs_selected_signer (become_active 9
        (?c\<lparr>cs_selected_signer := Some ''B'', cs_remote_peer := ''p'', cs_remote_device := ''B''\<rparr>)) = Some (cc_signer c)"
    using call_active_by_agreement [OF x] dec by (fastforce simp: outgoing_def)
  with x show ?thesis unfolding Let_def
    by (intro exI [of _ ?s] exI [of _ "become_active 9
        (?c\<lparr>cs_selected_signer := Some ''B'', cs_remote_peer := ''p'', cs_remote_device := ''B''\<rparr>)"])
      (auto simp: become_active_def)
qed

text \<open>
  An ended call stays ended: after this device ends a call that was not merged with another, no
  frame about that call brings it back, whatever it contains and however often it arrives.
\<close>

theorem ended_call_stays_ended:
  assumes "ss_call s = Some c" and "cs_merged_call_id c = None" and "matches_id c i"
    and "t = fst (call_end env now i reason s)"
  shows "ss_call t = None \<and> is_closed (ss_call_controls t) (cs_call_id c) \<and>
    (\<forall>u ct u1 control sid later. ss_call u = None \<longrightarrow> is_closed (ss_call_controls u) (cs_call_id c) \<longrightarrow>
      decrypt_call_control env ct u = (u1, Ok control) \<longrightarrow> cc_call_id control = cs_call_id c \<longrightarrow>
      ss_call (fst (handle_call_control env later sid ct u)) = None \<and>
      is_closed (ss_call_controls (fst (handle_call_control env later sid ct u))) (cs_call_id c))"
proof -
  have "ss_call t = None \<and> is_closed (ss_call_controls t) (cs_call_id c)"
    unfolding assms(4) by (rule call_end_closes [OF assms(1-3)])
  moreover have "ss_call (fst (handle_call_control env later sid ct u)) = None \<and>
      is_closed (ss_call_controls (fst (handle_call_control env later sid ct u))) (cs_call_id c)"
    if "ss_call u = None" "is_closed (ss_call_controls u) (cs_call_id c)"
      "decrypt_call_control env ct u = (u1, Ok control)" "cc_call_id control = cs_call_id c"
    for u ct u1 control sid later
    using that by (rule handle_keeps_closed)
  ultimately show ?thesis by blast
qed

theorem ended_call_stays_ended_witness:
  "\<exists>s t. let env = demo_call_env (\<lambda>_. demo_control ''B'' 1 ''c'' Offer) in
     ss_call s \<noteq> None \<and> t = fst (call_end env 7 ''c'' ''bye'' s) \<and> ss_call t = None \<and>
     is_closed (ss_call_controls t) ''c''"
proof -
  let ?s = "demo_session ''A''\<lparr>ss_call := Some ((outgoing ''c'' [])\<lparr>cs_caller_signer := ''A''\<rparr>)\<rparr>"
  let ?env = "demo_call_env (\<lambda>_. demo_control ''B'' 1 ''c'' Offer)"
  have "ss_call ?s = Some ((outgoing ''c'' [])\<lparr>cs_caller_signer := ''A''\<rparr>)" by simp
  from ended_call_stays_ended [OF this _ _ refl, of "''c''" ?env 7 "''bye''"]
  have "ss_call (fst (call_end ?env 7 ''c'' ''bye'' ?s)) = None \<and>
      is_closed (ss_call_controls (fst (call_end ?env 7 ''c'' ''bye'' ?s))) ''c''"
    by (simp add: outgoing_def matches_id_def)
  then show ?thesis unfolding Let_def
    by (intro exI [of _ ?s] exI [of _ "fst (call_end ?env 7 ''c'' ''bye'' ?s)"]) (simp del: finish_after_end)
qed

text \<open>
  C35. An unanswered call ends at its deadline: thirty seconds after the first offer, the next clock
  tick ends a call that is not active, whether or not anything can be sent, and keeps the end control
  for retransmission to the other side.
\<close>

theorem unanswered_call_times_out:
  assumes "ss_call s = Some c" and "cs_phase c \<noteq> Active"
    and "unat (cs_offer_first_ms c) + 30000 \<le> unat now"
  shows "ss_call (pump_call_signaling env now s) = None \<and>
    (\<exists>e \<in> set (ss_call_ends (pump_call_signaling env now s)). tc_call_id e = cs_call_id c \<and>
       tc_action e = End (cs_caller_signer c) ''no_answer'')"
proof -
  obtain ends resend where due: "due now (ss_call_ends s) = (ends, resend)" by fastforce
  let ?s1 = "publish_due env resend
      (s\<lparr>ss_call_occupancy := expire now (ss_call_occupancy s), ss_call_ends := ends\<rparr>)"
  have c: "ss_call ?s1 = Some c" using assms(1) by simp
  have phase: "cs_phase c \<in> {Outgoing, Accepting, Ringing}" using assms(2) by (cases "cs_phase c") auto
  have "CALL_RING_TIMEOUT_MS \<le> saturating_sub now (cs_offer_first_ms c)"
    using assms(3) by (simp add: word_le_nat_alt unat_saturating_sub CALL_RING_TIMEOUT_MS_def)
  with c phase have pump: "pump_call_signaling env now s = fst (call_end env now (cs_call_id c) ''no_answer'' ?s1)"
    by (simp add: pump_call_signaling_def due Let_def)
  let ?a = "End (cs_caller_signer c) ''no_answer''"
  have "ss_call_ends (fst (call_end env now (cs_call_id c) ''no_answer'' ?s1)) =
      remember_end (cs_call_id c) ?a now (ss_call_ends ?s1)"
    using c by (simp add: call_end_def Let_def matches_id_def split_beta)
  moreover have "\<exists>e \<in> set (remember_end i a now l). tc_call_id e = i \<and> tc_action e = a" for i a l
    by (simp add: remember_end_def Let_def)
  ultimately show ?thesis using c by (simp add: pump matches_id_def)
qed

theorem unanswered_call_times_out_witness:
  "\<exists>s. ss_call s \<noteq> None \<and>
     ss_call (pump_call_signaling (demo_call_env (\<lambda>_. demo_control ''B'' 1 ''c'' Offer)) 40000 s) = None"
proof -
  let ?s = "demo_session ''A''\<lparr>ss_call := Some (mark_offer_sent 9000 (outgoing ''c'' []))\<rparr>"
  have "ss_call ?s = Some (mark_offer_sent 9000 (outgoing ''c'' []))" by simp
  from unanswered_call_times_out [OF this, of 40000 "demo_call_env (\<lambda>_. demo_control ''B'' 1 ''c'' Offer)"]
  have "ss_call (pump_call_signaling (demo_call_env (\<lambda>_. demo_control ''B'' 1 ''c'' Offer)) 40000 ?s) = None"
    by (simp add: mark_offer_sent_def outgoing_def)
  then show ?thesis by (intro exI [of _ ?s]) simp
qed

text \<open>
  Two devices that call each other at the same time: each receives the other's offer while its own is
  outgoing. The call with the smaller caller and id survives on both sides.
\<close>

lemma cross_call_kept:
  assumes "ss_call a = Some ca" and "cs_phase ca = Outgoing" and "cs_call_id ca \<noteq> cc_call_id ob"
    and "\<not> closed_call_offer a (cc_call_id ob)" and "\<not> selected (ss_call_occupancy a) (cc_call_id ob) now"
    and "same_media_protocol env ob"
    and "(cs_caller_signer ca, cs_call_id ca) < (cc_signer ob, cc_call_id ob)"
  shows "fst (receive_call_offer env now ob a) =
    a\<lparr>ss_call := Some (ca\<lparr>cs_merged_call_id := Some (cc_call_id ob)\<rparr>)\<rparr>"
  using assms(1-6) less_imp_le [OF assms(7)]
  by (simp add: receive_call_offer_def merge_cross_call_def del: less_eq_prod_simp less_prod_simp)

lemma cross_call_yields:
  assumes "ss_call b = Some cb" and "cs_phase cb = Outgoing" and "cs_call_id cb \<noteq> cc_call_id oa"
    and "\<not> closed_call_offer b (cc_call_id oa)" and "\<not> selected (ss_call_occupancy b) (cc_call_id oa) now"
    and "same_media_protocol env oa"
    and "(cc_signer oa, cc_call_id oa) < (cs_caller_signer cb, cs_call_id cb)"
  obtains c where "ss_call (fst (receive_call_offer env now oa b)) = Some c"
    and "cs_phase c = Accepting" and "cs_direction c = Callee" and "cs_call_id c = cc_call_id oa"
    and "cs_caller_signer c = cc_signer oa" and "cs_merged_call_id c = Some (cs_call_id cb)"
    and "ss_signer (fst (receive_call_offer env now oa b)) = ss_signer b"
proof -
  have "\<not> (cs_caller_signer cb, cs_call_id cb) \<le> (cc_signer oa, cc_call_id oa)"
    using assms(7) by (simp add: not_le del: less_eq_prod_simp less_prod_simp)
  with assms(1-6) have "fst (receive_call_offer env now oa b) = fst (publish_call_accept env (cc_call_id oa)
      ((install_incoming_call now oa b)\<lparr>ss_call := map_option (\<lambda>c. mark_offer_sent now
         (c\<lparr>cs_merged_call_id := Some (cs_call_id cb), cs_phase := Accepting\<rparr>))
         (ss_call (install_incoming_call now oa b))\<rparr>))"
    by (simp add: receive_call_offer_def merge_cross_call_def Let_def del: less_eq_prod_simp less_prod_simp)
  then have "ss_call (fst (receive_call_offer env now oa b)) = Some (mark_offer_sent now
      ((mark_offer_sent now (ringing (cc_call_id oa) (cc_name oa)))\<lparr>cs_caller_signer := cc_signer oa,
        cs_remote_peer := cc_peer oa, cs_merged_call_id := Some (cs_call_id cb), cs_phase := Accepting\<rparr>))"
    and "ss_signer (fst (receive_call_offer env now oa b)) = ss_signer b"
    by (simp_all add: publish_call_accept_def)
  then show ?thesis by (intro that [of "mark_offer_sent now
      ((mark_offer_sent now (ringing (cc_call_id oa) (cc_name oa)))\<lparr>cs_caller_signer := cc_signer oa,
        cs_remote_peer := cc_peer oa, cs_merged_call_id := Some (cs_call_id cb), cs_phase := Accepting\<rparr>)"])
      (simp_all add: ringing_def)
qed

text \<open>
  Crossing calls merge into one: when two devices call each other at once and each receives the
  other's offer, both settle on the call of the smaller caller without another user action; the
  answer and the selection that follow make that same call active on both sides, with the same caller
  and the same selected receiver.
\<close>

theorem crossing_calls_merge:
  assumes a: "ss_call a = Some ca" "cs_phase ca = Outgoing" "cs_direction ca = Caller"
    and b: "ss_call b = Some cb" "cs_phase cb = Outgoing"
    and oa: "cc_signer oa = cs_caller_signer ca" "cc_call_id oa = cs_call_id ca"
    and ob: "cc_signer ob = cs_caller_signer cb" "cc_call_id ob = cs_call_id cb"
    and ids: "cs_call_id ca \<noteq> cs_call_id cb"
    and less: "(cs_caller_signer ca, cs_call_id ca) < (cs_caller_signer cb, cs_call_id cb)"
    and fresh_a: "\<not> closed_call_offer a (cs_call_id cb)" "\<not> selected (ss_call_occupancy a) (cs_call_id cb) t1"
    and fresh_b: "\<not> closed_call_offer b (cs_call_id ca)" "\<not> selected (ss_call_occupancy b) (cs_call_id ca) t2"
    and media: "same_media_protocol env_a ob" "same_media_protocol env_b oa" "same_media_protocol env_a ans"
    and a1: "a1 = fst (receive_call_offer env_a t1 ob a)" and b1: "b1 = fst (receive_call_offer env_b t2 oa b)"
    and ans: "cc_call_id ans = cs_call_id ca" "cc_signer ans = ss_signer b"
    and a2: "receive_call_answer env_a t3 ans a1 = (a2, Ok ())"
    and sel: "cc_call_id sel = cs_call_id ca" "cc_signer sel = cs_caller_signer ca"
    and b2: "b2 = receive_call_selection t4 sel (ss_signer b) b1"
  shows "\<exists>x y. ss_call a2 = Some x \<and> ss_call b2 = Some y \<and> cs_phase x = Active \<and> cs_phase y = Active \<and>
    cs_call_id x = cs_call_id ca \<and> cs_call_id y = cs_call_id ca \<and>
    cs_caller_signer x = cs_caller_signer y \<and>
    cs_selected_signer x = Some (ss_signer b) \<and> cs_selected_signer y = Some (ss_signer b)"
proof -
  have a1': "a1 = a\<lparr>ss_call := Some (ca\<lparr>cs_merged_call_id := Some (cs_call_id cb)\<rparr>)\<rparr>"
    unfolding a1 using cross_call_kept [of a ca ob t1 env_a] a ids ob fresh_a media less by simp
  obtain c where c: "ss_call b1 = Some c" "cs_phase c = Accepting" "cs_direction c = Callee"
    "cs_call_id c = cs_call_id ca" "cs_caller_signer c = cs_caller_signer ca" "ss_signer b1 = ss_signer b"
    using cross_call_yields [of b cb oa t2 env_b] b ids oa fresh_b media less unfolding b1 by metis
  obtain s1 q where p: "publish_authenticated_call env_a (cs_call_id ca) (Selected (ss_signer b)) a1 = (s1, q)"
    by fastforce
  have s1: "ss_call s1 = Some (ca\<lparr>cs_merged_call_id := Some (cs_call_id cb)\<rparr>)"
    using publishD(2) [OF p] by (simp add: a1')
  have "ss_call a1 = Some (ca\<lparr>cs_merged_call_id := Some (cs_call_id cb)\<rparr>)" by (simp add: a1')
  with a2 a ans media p s1 have "\<exists>x. ss_call a2 = Some x \<and> cs_phase x = Active \<and>
      cs_call_id x = cs_call_id ca \<and> cs_caller_signer x = cs_caller_signer ca \<and>
      cs_selected_signer x = Some (ss_signer b)"
    by (auto simp: receive_call_answer_def become_active_def split: sum.splits)
  moreover have "\<exists>y. ss_call b2 = Some y \<and> cs_phase y = Active \<and> cs_call_id y = cs_call_id ca \<and>
      cs_caller_signer y = cs_caller_signer ca \<and> cs_selected_signer y = Some (ss_signer b)"
    using c sel by (simp add: b2 receive_call_selection_def Let_def become_active_def)
  ultimately show ?thesis by auto
qed

theorem crossing_calls_merge_witness:
  "\<exists>a2 x y.
     let env = demo_call_env (\<lambda>_. demo_control ''B'' 1 ''c1'' Answer);
         a = demo_session ''A''\<lparr>ss_call := Some ((outgoing ''c1'' [])\<lparr>cs_caller_signer := ''A''\<rparr>)\<rparr>;
         b = demo_session ''B''\<lparr>ss_call := Some ((outgoing ''c2'' [])\<lparr>cs_caller_signer := ''B''\<rparr>)\<rparr>;
         a1 = fst (receive_call_offer env 5 (demo_control ''B'' 1 ''c2'' Offer) a);
         b1 = fst (receive_call_offer env 5 (demo_control ''A'' 1 ''c1'' Offer) b)
     in receive_call_answer env 6 (demo_control ''B'' 2 ''c1'' Answer) a1 = (a2, Ok ()) \<and>
        ss_call a2 = Some x \<and>
        ss_call (receive_call_selection 7 (demo_control ''A'' 2 ''c1'' (Selected ''B'')) ''B'' b1) = Some y \<and>
        cs_phase x = Active \<and> cs_phase y = Active \<and> cs_call_id x = ''c1'' \<and> cs_call_id y = ''c1''"
proof -
  let ?env = "demo_call_env (\<lambda>_. demo_control ''B'' 1 ''c1'' Answer)"
  let ?ca = "(outgoing ''c1'' [])\<lparr>cs_caller_signer := ''A''\<rparr>" and ?cb = "(outgoing ''c2'' [])\<lparr>cs_caller_signer := ''B''\<rparr>"
  let ?a = "demo_session ''A''\<lparr>ss_call := Some ?ca\<rparr>" and ?b = "demo_session ''B''\<lparr>ss_call := Some ?cb\<rparr>"
  let ?oa = "demo_control ''A'' 1 ''c1'' Offer" and ?ob = "demo_control ''B'' 1 ''c2'' Offer"
  let ?ans = "demo_control ''B'' 2 ''c1'' Answer" and ?sel = "demo_control ''A'' 2 ''c1'' (Selected ''B'')"
  have [simp]: "same_media_protocol ?env (demo_control s n i c)" for s n i c
    by (simp add: same_media_protocol_def demo_call_env_def)
  have fresh [simp]: "\<not> closed_call_offer (demo_session s\<lparr>ss_call := c\<rparr>) i"
    "\<not> selected new_occupancy i t" for s c i t
    by (simp_all add: closed_call_offer_def is_closed_def new_book_def new_log_def selected_def
        new_occupancy_def bt_values_def)
  define a1 where "a1 = fst (receive_call_offer ?env 5 ?ob ?a)"
  have a1': "a1 = ?a\<lparr>ss_call := Some (?ca\<lparr>cs_merged_call_id := Some ''c2''\<rparr>)\<rparr>"
    unfolding a1_def using cross_call_kept [of ?a ?ca ?ob 5 ?env] by (simp add: outgoing_def less_char_def)
  obtain s1 q where p: "publish_authenticated_call ?env ''c1'' (Selected ''B'') a1 = (s1, q)" by fastforce
  have q: "q = Ok ()"
    using demo_publish_ok [of a1 "\<lambda>_. demo_control ''B'' 1 ''c1'' Answer" "''c1''" "Selected ''B''"] p
    by (simp add: a1' new_book_def)
  obtain a2 where a2: "receive_call_answer ?env 6 ?ans a1 = (a2, Ok ())"
    using p q by (simp add: receive_call_answer_def a1' outgoing_def)
  note crossing_calls_merge [of ?a ?ca ?b ?cb ?oa ?ob 5 5 ?env ?env ?ans a1 "fst (receive_call_offer ?env 5 ?oa ?b)" 6 a2 ?sel
      "receive_call_selection 7 ?sel ''B'' (fst (receive_call_offer ?env 5 ?oa ?b))" 7]
  then have "\<exists>x y. ss_call a2 = Some x \<and>
      ss_call (receive_call_selection 7 ?sel ''B'' (fst (receive_call_offer ?env 5 ?oa ?b))) = Some y \<and>
      cs_phase x = Active \<and> cs_phase y = Active \<and> cs_call_id x = ''c1'' \<and> cs_call_id y = ''c1''"
    using a2 by (simp add: a1_def outgoing_def less_char_def) blast
  then show ?thesis using a2 unfolding a1_def Let_def by blast
qed

end
