(* ===== verification/Account_Ownership.thy ===== *)
theory Account_Ownership
  imports Device_Roster
begin

text \<open>
  Which account a key belongs to: the delegation chains of \<open>device_link/account_certificate.rs\<close> and
  the account proofs of \<open>message_deletion/ownership.rs\<close>.

  A certificate starts at a root key and delegates from key to key, each step signed by the key
  before it over the root, the earlier steps and the new key. An account proof binds a message
  key to the last key of a certificate. \<open>own_accounts\<close> is what the device knows of its own user from
  the local roster: which keys are the user's and which of them were removed. JSON encodings are
  parameters (\<open>account_env\<close>) beside those of the roster; the caches in front of the checks answer
  what the checks answer (theory \<open>Signature_Verification\<close>) and are left out here.

  Shown here: a verified certificate has distinct keys and every step of it is signed by its
  predecessor; issuing succeeds exactly for an unused valid key signed by the current subject; a
  proof the device creates verifies to its own account; a removed device of the user is recognised
  under each of its keys and under every proof it can produce.
\<close>

section \<open>Certificates\<close>

record delegation =
  dg_key :: string
  dg_signature :: string

record account_certificate =
  ac_root :: string
  ac_delegations :: "delegation list"

record account_proof =
  ap_certificate :: account_certificate
  ap_subject :: string
  ap_signature :: string

record ('vk, 'sg, 'sk) account_env =
  arost :: "('vk, 'sg, 'sk) roster_env"
  delegation_json :: "string \<times> delegation list \<times> string \<Rightarrow> bytes option"
  ownership_json :: "account_certificate \<times> string \<Rightarrow> bytes option"
  proof_to_json :: "account_proof \<Rightarrow> string option"
  proof_from_json :: "string \<Rightarrow> account_proof option"

definition DELEGATION_CONTEXT :: bytes where
  "DELEGATION_CONTEXT = utf8_bytes ''mosh-account-delegation-v1'' @ [0]"

definition MAX_DELEGATIONS :: nat where
  "MAX_DELEGATIONS = 32"

definition ac_new_root :: "('vk, 'sg, 'sk, 'z) account_env_scheme \<Rightarrow> 'sk \<Rightarrow> account_certificate" where
  "ac_new_root env key =
     \<lparr>ac_root = hex_encode (sigs (arost env)) (key_bytes (sigs (arost env)) (verifying_key (arost env) key)),
      ac_delegations = []\<rparr>"

definition ac_subject :: "account_certificate \<Rightarrow> string" where
  "ac_subject c = (if ac_delegations c = [] then ac_root c else dg_key (last (ac_delegations c)))"

definition ac_keys :: "account_certificate \<Rightarrow> string list" where
  "ac_keys c = ac_root c # map dg_key (ac_delegations c)"

definition ac_issuer :: "account_certificate \<Rightarrow> string option" where
  "ac_issuer c =
     (case rev (ac_delegations c) of
        [] \<Rightarrow> None
      | [_] \<Rightarrow> Some (ac_root c)
      | _ # d # _ \<Rightarrow> Some (dg_key d))"

definition ac_input ::
    "('vk, 'sg, 'sk, 'z) account_env_scheme \<Rightarrow> account_certificate \<Rightarrow> nat \<Rightarrow> string \<Rightarrow>
     (device_link_error_kind, bytes) result" where
  "ac_input env c n key =
     and_then (ok_or (delegation_json env (ac_root c, take n (ac_delegations c), key)) invalid)
       (\<lambda>json. Ok (DELEGATION_CONTEXT @ json))"

text \<open>One step of the loop in \<open>verify\<close>: the signature of the delegation at \<open>index\<close> under \<open>signer\<close>.\<close>

definition check_delegation ::
    "('vk, 'sg, 'sk, 'z) account_env_scheme \<Rightarrow> account_certificate \<Rightarrow> 'vk \<Rightarrow> nat \<Rightarrow> delegation \<Rightarrow>
     (device_link_error_kind, unit) result" where
  "check_delegation env c signer index d =
     and_then (ok_or (hex_decode (sigs (arost env)) (dg_signature d)) invalid) (\<lambda>raw.
     and_then (ac_input env c index (dg_key d)) (\<lambda>input.
     and_then (ok_or (sig_from_slice (sigs (arost env)) raw) invalid) (\<lambda>sg.
       ensure (verify_strict (sigs (arost env)) signer input sg) invalid)))"

fun verify_delegations ::
    "('vk, 'sg, 'sk, 'z) account_env_scheme \<Rightarrow> account_certificate \<Rightarrow> 'vk \<Rightarrow> string set \<Rightarrow> nat \<Rightarrow>
     delegation list \<Rightarrow> (device_link_error_kind, unit) result" where
  "verify_delegations env c signer known index [] = Ok ()"
| "verify_delegations env c signer known index (d # ds) =
     and_then (public_key (arost env) (dg_key d)) (\<lambda>nxt.
       if dg_key d \<in> known then Err invalid
       else
         and_then (check_delegation env c signer index d) (\<lambda>_.
           verify_delegations env c nxt (insert (dg_key d) known) (Suc index) ds))"

definition ac_verify ::
    "('vk, 'sg, 'sk, 'z) account_env_scheme \<Rightarrow> account_certificate \<Rightarrow> (device_link_error_kind, unit) result" where
  "ac_verify env c =
     (if MAX_DELEGATIONS < length (ac_delegations c) then Err invalid
      else
        and_then (public_key (arost env) (ac_root c)) (\<lambda>signer.
          verify_delegations env c signer {ac_root c} 0 (ac_delegations c)))"

definition ac_issue ::
    "('vk, 'sg, 'sk, 'z) account_env_scheme \<Rightarrow> account_certificate \<Rightarrow> string \<Rightarrow> 'sk \<Rightarrow>
     (device_link_error_kind, account_certificate) result" where
  "ac_issue env c subject signer =
     and_then (ac_verify env c) (\<lambda>_.
       if ac_subject c \<noteq>
          hex_encode (sigs (arost env)) (key_bytes (sigs (arost env)) (verifying_key (arost env) signer))
       then Err invalid
       else
         and_then (ac_input env c (length (ac_delegations c)) subject) (\<lambda>input.
           (let nxt = c\<lparr>ac_delegations := ac_delegations c @
                 [\<lparr>dg_key = subject,
                   dg_signature = hex_encode (sigs (arost env))
                     (sig_bytes (sigs (arost env)) (sign_with (arost env) signer input))\<rparr>]\<rparr>
            in and_then (ac_verify env nxt) (\<lambda>_. Ok nxt))))"

section \<open>Account proofs\<close>

datatype deletion_error = InvalidInput string | PermissionDenied | DeviceRevoked
  | DeletionPersistence string | Internal string

definition proof_input ::
    "('vk, 'sg, 'sk, 'z) account_env_scheme \<Rightarrow> account_proof \<Rightarrow> (string, bytes) result" where
  "proof_input env p =
     and_then (ok_or (ownership_json env (ap_certificate p, ap_subject p)) ''json'')
       (\<lambda>json. Ok (utf8_bytes ''mosh-message-account-v1'' @ [0] @ json))"

definition proof_verify ::
    "('vk, 'sg, 'sk, 'z) account_env_scheme \<Rightarrow> account_proof \<Rightarrow> string \<Rightarrow> (string, unit) result" where
  "proof_verify env p subject =
     (if ap_subject p \<noteq> subject then Err ''account subject mismatch''
      else
        and_then (map_err (\<lambda>_. ''device authorization is invalid'') (ac_verify env (ap_certificate p))) (\<lambda>_.
        and_then (proof_input env p) (\<lambda>input.
          ensure (hex_signature_ok (sigs (arost env)) (ac_subject (ap_certificate p)) (ap_signature p) input)
            ''signature error'')))"

definition verified_proof ::
    "('vk, 'sg, 'sk, 'z) account_env_scheme \<Rightarrow> string \<Rightarrow> string \<Rightarrow> (string, account_proof) result" where
  "verified_proof env text subject =
     (if 16000 < length text then Err ''account proof too large''
      else
        and_then (ok_or (proof_from_json env text) ''json'') (\<lambda>p.
        and_then (proof_verify env p subject) (\<lambda>_. Ok p)))"

definition ownership_verify ::
    "('vk, 'sg, 'sk, 'z) account_env_scheme \<Rightarrow> string \<Rightarrow> string \<Rightarrow> (string, string) result" where
  "ownership_verify env text subject =
     and_then (verified_proof env text subject) (\<lambda>p. Ok (ac_root (ap_certificate p)))"

definition proofs_same_account ::
    "('vk, 'sg, 'sk, 'z) account_env_scheme \<Rightarrow> string \<Rightarrow> string option \<Rightarrow> string \<Rightarrow> string option \<Rightarrow> bool" where
  "proofs_same_account env actor actor_proof author author_proof =
     (case (actor_proof, author_proof) of
        (Some p, Some q) \<Rightarrow>
          unwrap_or False
            (and_then (verified_proof env p actor) (\<lambda>p'.
             and_then (verified_proof env q author) (\<lambda>q'.
               Ok (ac_root (ap_certificate p') = ac_root (ap_certificate q')))))
      | _ \<Rightarrow> False)"

subsection \<open>The local identity\<close>

record 'sk account_identity =
  ai_roster :: device_roster
  ai_device :: device_descriptor
  ai_key :: 'sk
  ai_certificate :: "account_certificate option"

definition link_error_text :: "device_link_error_kind \<Rightarrow> string" where
  "link_error_text k =
     (case k of
        InvalidQr \<Rightarrow> ''invalid device link'' | Expired \<Rightarrow> ''device link expired''
      | Busy \<Rightarrow> ''a device link is already active''
      | Ineligible \<Rightarrow> ''only a fresh desktop can join another user''
      | CodeMismatch \<Rightarrow> ''device code does not match'' | Rejected \<Rightarrow> ''device link declined''
      | ConnectionLost \<Rightarrow> ''device link connection interrupted''
      | InvalidRoster \<Rightarrow> ''device authorization is invalid''
      | Storage \<Rightarrow> ''device identity storage failed'' | Unavailable \<Rightarrow> ''device linking unavailable'')"

definition identity_error :: "device_link_error_kind \<Rightarrow> deletion_error" where
  "identity_error k =
     (if k = Storage \<or> k = InvalidRoster then DeletionPersistence (link_error_text k)
      else Internal (link_error_text k))"

definition identity_revoked ::
    "('vk, 'sg, 'sk, 'z) account_env_scheme \<Rightarrow> 'sk account_identity \<Rightarrow> (device_link_error_kind, bool) result" where
  "identity_revoked env i = and_then (devices (arost env) (ai_roster i)) (\<lambda>ds. Ok (ai_device i \<notin> set ds))"

definition identity_certificate ::
    "('vk, 'sg, 'sk, 'z) account_env_scheme \<Rightarrow> 'sk account_identity \<Rightarrow>
     (device_link_error_kind, account_certificate option) result" where
  "identity_certificate env i =
     and_then (identity_revoked env i) (\<lambda>revoked.
       if revoked then Err invalid
       else if dd_signing_public_key (ai_device i) = user_id (ai_roster i) then
         Ok (Some (ac_new_root env (ai_key i)))
       else Ok (ai_certificate i))"

text \<open>
  The part of \<open>DeviceIdentity::validate\<close> about the keys; its other checks are about the journals of
  a device link in progress.
\<close>

definition validate_identity ::
    "('vk, 'sg, 'sk, 'z) account_env_scheme \<Rightarrow> 'sk account_identity \<Rightarrow> string \<Rightarrow>
     (device_link_error_kind, unit) result" where
  "validate_identity env i peer =
     and_then
       (case ai_certificate i of
          None \<Rightarrow> Ok ()
        | Some c \<Rightarrow>
            and_then (ac_verify env c) (\<lambda>_.
              ensure (ac_root c = user_id (ai_roster i) \<and>
                ac_subject c = dd_signing_public_key (ai_device i)) invalid))
       (\<lambda>_.
         if dd_moss_peer_id (ai_device i) \<noteq> peer \<or>
            hex_encode (sigs (arost env)) (key_bytes (sigs (arost env)) (verifying_key (arost env) (ai_key i))) \<noteq>
              dd_signing_public_key (ai_device i)
         then Err invalid
         else
           and_then (known_device (arost env) (ai_roster i) (dd_device_id (ai_device i))) (\<lambda>known.
             ensure (known = Some (ai_device i)) invalid))"

text \<open>\<open>opened\<close> is the outcome of \<open>DeviceIdentity::open\<close>, absent without a store or a peer id.\<close>

definition local_identity ::
    "('vk, 'sg, 'sk, 'z) account_env_scheme \<Rightarrow> (device_link_error_kind, 'sk account_identity) result option \<Rightarrow>
     (deletion_error, 'sk account_identity option) result" where
  "local_identity env opened =
     (case opened of
        None \<Rightarrow> Ok None
      | Some r \<Rightarrow>
          and_then (map_err identity_error r) (\<lambda>i.
          and_then (map_err identity_error (identity_revoked env i)) (\<lambda>revoked.
            if revoked then Err DeviceRevoked else Ok (Some i))))"

definition ownership_create ::
    "('vk, 'sg, 'sk, 'z) account_env_scheme \<Rightarrow> (device_link_error_kind, 'sk account_identity) result option \<Rightarrow>
     string \<Rightarrow> (deletion_error, string option) result" where
  "ownership_create env opened subject =
     and_then (local_identity env opened) (\<lambda>identity.
       case identity of
         None \<Rightarrow> Ok None
       | Some i \<Rightarrow>
           and_then (map_err identity_error (identity_certificate env i)) (\<lambda>certificate.
             case certificate of
               None \<Rightarrow> Ok None
             | Some c \<Rightarrow>
                 (let p = \<lparr>ap_certificate = c, ap_subject = subject, ap_signature = []\<rparr>
                  in and_then (map_err Internal (proof_input env p)) (\<lambda>input.
                     and_then (ok_or (proof_to_json env (p\<lparr>ap_signature :=
                         hex_encode (sigs (arost env))
                           (sig_bytes (sigs (arost env)) (sign_with (arost env) (ai_key i) input))\<rparr>))
                         (Internal ''json''))
                       (\<lambda>text. Ok (Some text))))))"

subsection \<open>What the device knows of its own user\<close>

record own_accounts =
  oa_accounts :: "(string, string) btree_map"
  oa_revoked :: "string set"

definition no_accounts :: own_accounts where
  "no_accounts = \<lparr>oa_accounts = [], oa_revoked = {}\<rparr>"

definition is_revoked ::
    "('vk, 'sg, 'sk, 'z) account_env_scheme \<Rightarrow> own_accounts \<Rightarrow> string \<Rightarrow> string option \<Rightarrow> bool" where
  "is_revoked env own key proof_text =
     (if key \<in> oa_revoked own then True
      else
        (case Option.bind proof_text (\<lambda>t. to_option (verified_proof env t key)) of
           None \<Rightarrow> False
         | Some p \<Rightarrow>
             (let subject = ac_subject (ap_certificate p)
              in if bt_contains (oa_accounts own) subject then subject \<in> oa_revoked own
                 else list_ex (\<lambda>k. k \<in> oa_revoked own) (ac_keys (ap_certificate p)))))"

definition own_account ::
    "('vk, 'sg, 'sk, 'z) account_env_scheme \<Rightarrow> own_accounts \<Rightarrow> string \<Rightarrow> string option \<Rightarrow> string option" where
  "own_account env own key proof_text =
     (case bt_get (oa_accounts own) key of
        Some user \<Rightarrow> Some user
      | None \<Rightarrow>
          Option.bind proof_text (\<lambda>t.
          Option.bind (to_option (verified_proof env t key)) (\<lambda>p.
            bt_get (oa_accounts own) (ac_subject (ap_certificate p)))))"

definition own_same_account ::
    "('vk, 'sg, 'sk, 'z) account_env_scheme \<Rightarrow> own_accounts \<Rightarrow> string \<Rightarrow> string option \<Rightarrow> string \<Rightarrow> string option \<Rightarrow> bool" where
  "own_same_account env own left left_proof right right_proof =
     (case own_account env own left left_proof of
        None \<Rightarrow> False
      | Some user \<Rightarrow> own_account env own right right_proof = Some user)"

text \<open>\<open>for_mls\<close> adds the MLS signers whose credential names a known key.\<close>

definition map_signer ::
    "(string \<Rightarrow> string option) \<Rightarrow> own_accounts \<Rightarrow> string \<Rightarrow> own_accounts" where
  "map_signer identity_of own signer =
     (case identity_of signer of
        None \<Rightarrow> own
      | Some identity \<Rightarrow>
          (case bt_get (oa_accounts own) identity of
             None \<Rightarrow> own
           | Some user \<Rightarrow>
               \<lparr>oa_accounts = bt_insert signer user (oa_accounts own),
                oa_revoked = (if identity \<in> oa_revoked own then insert signer (oa_revoked own)
                              else oa_revoked own)\<rparr>))"

definition for_mls :: "string list \<Rightarrow> (string \<Rightarrow> string option) \<Rightarrow> own_accounts \<Rightarrow> own_accounts" where
  "for_mls signers identity_of own = foldl (map_signer identity_of) own signers"

definition moss_accounts ::
    "('vk, 'sg, 'sk, 'z) account_env_scheme \<Rightarrow> (device_link_error_kind, 'sk account_identity) result option \<Rightarrow>
     (deletion_error, own_accounts) result" where
  "moss_accounts env opened =
     and_then (local_identity env opened) (\<lambda>identity.
       case identity of
         None \<Rightarrow> Ok no_accounts
       | Some i \<Rightarrow>
           and_then (map_err identity_error (devices (arost env) (ai_roster i))) (\<lambda>ds.
           and_then (map_err identity_error (removal_targets (arost env) (ai_roster i))) (\<lambda>removed.
             Ok \<lparr>oa_accounts = bt_of_list (concat (map (\<lambda>d.
                     [(dd_moss_peer_id d, user_id (ai_roster i)),
                      (dd_signing_public_key d, user_id (ai_roster i))]) (ds @ removed))),
                 oa_revoked = (\<Union>d \<in> set removed. {dd_moss_peer_id d, dd_signing_public_key d})\<rparr>)))"

section \<open>Verified chains\<close>

lemma verify_delegations_nth:
  "verify_delegations env c s known n ds = Ok () \<Longrightarrow> i < length ds \<Longrightarrow>
   \<exists>k. (if i = 0 then k = s else public_key (arost env) (dg_key (ds ! (i - 1))) = Ok k) \<and>
       check_delegation env c k (n + i) (ds ! i) = Ok ()"
proof (induction ds arbitrary: s known n i)
  case Nil
  then show ?case by simp
next
  case (Cons d ds)
  from Cons.prems obtain nxt where nxt: "public_key (arost env) (dg_key d) = Ok nxt"
    and here: "check_delegation env c s n d = Ok ()"
    and rest: "verify_delegations env c nxt (insert (dg_key d) known) (Suc n) ds = Ok ()"
    by (auto simp: and_then_Ok_iff split: if_splits)
  show ?case
  proof (cases i)
    case 0
    with here show ?thesis by auto
  next
    case (Suc j)
    with Cons.prems have "j < length ds" by simp
    from Cons.IH [OF rest this] obtain k where
      k: "if j = 0 then k = nxt else public_key (arost env) (dg_key (ds ! (j - 1))) = Ok k"
      and c: "check_delegation env c k (Suc n + j) (ds ! j) = Ok ()" by blast
    with nxt Suc show ?thesis by (intro exI [of _ k]) (auto simp: nth_Cons' split: if_splits)
  qed
qed

lemma verify_delegations_distinct:
  "verify_delegations env c s known n ds = Ok () \<Longrightarrow>
   distinct (map dg_key ds) \<and> known \<inter> dg_key ` set ds = {}"
proof (induction ds arbitrary: s known n)
  case Nil
  then show ?case by simp
next
  case (Cons d ds)
  then obtain nxt where "dg_key d \<notin> known"
    and "verify_delegations env c nxt (insert (dg_key d) known) (Suc n) ds = Ok ()"
    by (auto simp: and_then_Ok_iff split: if_splits)
  with Cons.IH [of nxt "insert (dg_key d) known" "Suc n"] show ?case by auto
qed

lemma verify_delegations_snoc:
  "verify_delegations env c s known n (ds @ [d]) = Ok () \<longleftrightarrow>
     verify_delegations env c s known n ds = Ok () \<and> is_ok (public_key (arost env) (dg_key d)) \<and>
     dg_key d \<notin> known \<union> dg_key ` set ds \<and>
     (\<exists>k. (if ds = [] then k = s else public_key (arost env) (dg_key (last ds)) = Ok k) \<and>
          check_delegation env c k (n + length ds) d = Ok ())"
proof (induction ds arbitrary: s known n)
  case Nil
  then show ?case by (auto simp: and_then_Ok_iff is_ok_iff)
next
  case (Cons e ds)
  show ?case
    by (cases "public_key (arost env) (dg_key e)") (auto simp: and_then_Ok_iff Cons.IH split: if_splits)
qed

lemma check_delegation_cong:
  assumes "ac_root c = ac_root c'" and "take i (ac_delegations c) = take i (ac_delegations c')"
  shows "check_delegation env c k i d = check_delegation env c' k i d"
  using assms by (simp add: check_delegation_def ac_input_def)

lemma verify_delegations_cong:
  assumes "ac_root c = ac_root c'" and "take m (ac_delegations c) = take m (ac_delegations c')"
  shows "n + length ds \<le> m \<Longrightarrow> verify_delegations env c s known n ds = verify_delegations env c' s known n ds"
proof (induction ds arbitrary: s known n)
  case Nil
  then show ?case by simp
next
  case (Cons d ds)
  have "take n (ac_delegations c) = take n (ac_delegations c')"
    using assms(2) Cons.prems by (metis add_leD1 min.absorb1 take_take)
  then show ?case
    using Cons assms(1) check_delegation_cong [of c c' n env s d]
    by (cases "public_key (arost env) (dg_key d)"; cases "check_delegation env c' s n d") auto
qed

text \<open>A certificate with one more delegation verifies when the shorter one does and the step is sound.\<close>

lemma ac_verify_snoc:
  "ac_verify env (c\<lparr>ac_delegations := ac_delegations c @ [d]\<rparr>) = Ok () \<longleftrightarrow>
     ac_verify env c = Ok () \<and> length (ac_delegations c) < MAX_DELEGATIONS \<and>
     is_ok (public_key (arost env) (dg_key d)) \<and> dg_key d \<notin> set (ac_keys c) \<and>
     (\<exists>k. public_key (arost env) (ac_subject c) = Ok k \<and>
          check_delegation env c k (length (ac_delegations c)) d = Ok ())"
proof -
  let ?c = "c\<lparr>ac_delegations := ac_delegations c @ [d]\<rparr>"
  let ?n = "length (ac_delegations c)"
  have "verify_delegations env ?c s known 0 (ac_delegations c) =
      verify_delegations env c s known 0 (ac_delegations c)" for s known
    by (rule verify_delegations_cong [where m = ?n]) simp_all
  moreover have "check_delegation env ?c k ?n d = check_delegation env c k ?n d" for k
    by (rule check_delegation_cong) simp_all
  ultimately show ?thesis
    by (cases "public_key (arost env) (ac_root c)")
      (auto simp: ac_verify_def verify_delegations_snoc ac_subject_def ac_keys_def split: if_splits)
qed

definition account_laws :: "('vk, 'sg, 'sk, 'z) account_env_scheme \<Rightarrow> bool" where
  "account_laws env \<longleftrightarrow>
     signing_laws (arost env) \<and>
     (\<forall>k. key_from_bytes (sigs (arost env)) (key_bytes (sigs (arost env)) k) = Some k) \<and>
     (\<forall>sg. length (sig_bytes (sigs (arost env)) sg) = 64) \<and>
     (\<forall>x. delegation_json env x \<noteq> None) \<and> (\<forall>x. ownership_json env x \<noteq> None) \<and>
     (\<forall>p t. proof_to_json env p = Some t \<longrightarrow> proof_from_json env t = Some p)"

abbreviation hex_key :: "('vk, 'sg, 'sk, 'z) account_env_scheme \<Rightarrow> 'sk \<Rightarrow> string" where
  "hex_key env sk \<equiv>
     hex_encode (sigs (arost env)) (key_bytes (sigs (arost env)) (verifying_key (arost env) sk))"

lemma public_key_hex_key:
  assumes "account_laws env" and "public_key (arost env) (hex_key env sk) = Ok k"
  shows "k = verifying_key (arost env) sk" and "length (key_bytes (sigs (arost env)) k) = 32"
    and "\<not> key_is_weak (sigs (arost env)) k"
  using assms by (auto simp: public_key_def account_laws_def signing_laws_def split: option.splits if_splits)

lemma signed_strict:
  assumes "signing_laws env"
  shows "verify_strict (sigs env) (verifying_key env sk) input (sign_with env sk input)"
  using assms by (auto simp: signing_laws_def signature_ok_def signature_check_def split: if_splits)

lemma signed_delegation:
  assumes "account_laws env" and "ac_input env c n key = Ok input"
  shows "check_delegation env c (verifying_key (arost env) sk) n
     \<lparr>dg_key = key, dg_signature = hex_encode (sigs (arost env))
        (sig_bytes (sigs (arost env)) (sign_with (arost env) sk input))\<rparr> = Ok ()"
  using assms signed_strict [of "arost env" sk input]
  by (simp add: check_delegation_def account_laws_def signing_laws_def)

lemma ac_input_total:
  assumes "account_laws env"
  obtains input where "ac_input env c n key = Ok input"
proof -
  obtain json where "delegation_json env (ac_root c, take n (ac_delegations c), key) = Some json"
    using assms unfolding account_laws_def by blast
  then show ?thesis using that by (simp add: ac_input_def)
qed

lemma ac_issuer_snoc: "ac_issuer (c\<lparr>ac_delegations := ac_delegations c @ [d]\<rparr>) = Some (ac_subject c)"
  by (cases "ac_delegations c" rule: rev_cases) (simp_all add: ac_issuer_def ac_subject_def)

lemma verify_delegations_keys:
  "verify_delegations env c s known n ds = Ok () \<Longrightarrow> d \<in> set ds \<Longrightarrow> is_ok (public_key (arost env) (dg_key d))"
  by (induction ds arbitrary: s known n) (auto simp: and_then_Ok_iff split: if_splits)

lemma ac_verify_keys: "ac_verify env c = Ok () \<Longrightarrow> k \<in> set (ac_keys c) \<Longrightarrow> is_ok (public_key (arost env) k)"
  by (auto simp: ac_verify_def and_then_Ok_iff ac_keys_def split: if_splits dest: verify_delegations_keys)

lemma ac_subject_in_keys: "ac_subject c \<in> set (ac_keys c)"
  by (simp add: ac_subject_def ac_keys_def)

lemma ac_verify_subject: "ac_verify env c = Ok () \<Longrightarrow> \<exists>k. public_key (arost env) (ac_subject c) = Ok k"
  using ac_verify_keys [OF _ ac_subject_in_keys] by (simp add: is_ok_iff)

text \<open>
  Issuing a certificate for a key succeeds exactly when the certificate verifies, the signing
  key is its subject, the chain is not full and the new key is a valid key that is not in the chain
  yet; then the result is the chain with the new key at its end, verified, under the same root, and
  issued by the old subject.
\<close>

theorem certificate_issue_correct:
  assumes "account_laws env"
  shows "(\<exists>c'. ac_issue env c subject sk = Ok c' \<and> ac_root c' = ac_root c \<and>
            ac_keys c' = ac_keys c @ [subject] \<and> ac_subject c' = subject \<and>
            ac_issuer c' = Some (ac_subject c) \<and> ac_verify env c' = Ok ()) \<longleftrightarrow>
         ac_verify env c = Ok () \<and> ac_subject c = hex_key env sk \<and>
         length (ac_delegations c) < MAX_DELEGATIONS \<and> is_ok (public_key (arost env) subject) \<and>
         subject \<notin> set (ac_keys c)"
    (is "?L \<longleftrightarrow> ?R")
proof
  assume ?L
  then show ?R
    by (auto simp: ac_issue_def and_then_Ok_iff Let_def ac_verify_snoc split: if_splits)
next
  assume R: ?R
  obtain input where input: "ac_input env c (length (ac_delegations c)) subject = Ok input"
    using ac_input_total [OF assms] .
  let ?d = "\<lparr>dg_key = subject, dg_signature = hex_encode (sigs (arost env))
        (sig_bytes (sigs (arost env)) (sign_with (arost env) sk input))\<rparr>"
  let ?c = "c\<lparr>ac_delegations := ac_delegations c @ [?d]\<rparr>"
  obtain k where k: "public_key (arost env) (hex_key env sk) = Ok k"
    using R ac_verify_subject [of env c] by auto
  then have "ac_verify env ?c = Ok ()"
    using R public_key_hex_key [OF assms k] signed_delegation [OF assms input, of sk]
    by (simp add: ac_verify_snoc)
  then have "ac_issue env c subject sk = Ok ?c"
    using R input by (simp add: ac_issue_def Let_def)
  with \<open>ac_verify env ?c = Ok ()\<close> show ?L
    by (intro exI [of _ ?c] conjI) (simp_all add: ac_keys_def ac_subject_def ac_issuer_snoc)
qed

text \<open>
  A concrete scheme: a key is 32 bytes and signs everything with its first byte, hex keeps its input,
  and the proofs of three root keys have one-letter encodings.
\<close>

definition demo_account_roster :: "(bytes, byte, bytes) roster_env" where
  "demo_account_roster =
     \<lparr>sigs = \<lparr>hex_decode = (\<lambda>s. Some (utf8_bytes s)), hex_encode = map (\<lambda>b. char_of (unat b)),
        key_from_bytes = Some, key_bytes = (\<lambda>k. k), key_is_weak = (\<lambda>_. False),
        sig_from_slice = (\<lambda>b. Some (hd b)), sig_bytes = (\<lambda>s. replicate 64 s),
        verify_strict = (\<lambda>k m s. s = hd k), sha256 = (\<lambda>b. b)\<rparr>,
      auth_json = (\<lambda>_. Some []), roster_json = (\<lambda>r. Some [of_nat (length r)]),
      sign_with = (\<lambda>k m. hd k), verifying_key = (\<lambda>k. k)\<rparr>"

definition demo_hex_key :: "byte \<Rightarrow> string" where
  "demo_hex_key x = map (\<lambda>b. char_of (unat b)) (demo_key x)"

definition demo_proof :: "byte \<Rightarrow> account_proof" where
  "demo_proof x =
     \<lparr>ap_certificate = \<lparr>ac_root = demo_hex_key x, ac_delegations = []\<rparr>, ap_subject = demo_hex_key x,
      ap_signature = map (\<lambda>b. char_of (unat b)) (replicate 64 x)\<rparr>"

definition demo_account_env :: "(bytes, byte, bytes) account_env" where
  "demo_account_env =
     \<lparr>arost = demo_account_roster, delegation_json = (\<lambda>_. Some []), ownership_json = (\<lambda>_. Some []),
      proof_to_json = (\<lambda>p. map_option (\<lambda>x. [char_of (unat x)]) (find (\<lambda>x. demo_proof x = p) [1, 2, 3])),
      proof_from_json = (\<lambda>t. case t of [c] \<Rightarrow> Some (demo_proof (of_nat (of_char c))) | _ \<Rightarrow> None)\<rparr>"

lemma demo_arost [simp]: "arost demo_account_env = demo_account_roster"
  by (simp add: demo_account_env_def)

lemma demo_account_laws: "account_laws demo_account_env"
  unfolding account_laws_def
proof (intro conjI allI impI)
  show "signing_laws (arost demo_account_env)"
    by (simp add: signing_laws_def demo_account_roster_def signature_ok_def signature_check_def demo_hex)
next
  fix p t
  assume "proof_to_json demo_account_env p = Some t"
  then obtain x where "find (\<lambda>x. demo_proof x = p) [1, 2, 3] = Some x" and "t = [char_of (unat x)]"
    by (auto simp: demo_account_env_def simp del: find.simps)
  then show "proof_from_json demo_account_env t = Some p"
    by (auto simp: demo_account_env_def byte_mod dest!: find_SomeD simp del: find.simps)
qed (simp_all add: demo_account_env_def demo_account_roster_def)

lemma demo_account_key: "public_key demo_account_roster (demo_hex_key x) = Ok (demo_key x)"
  by (simp add: public_key_def demo_account_roster_def demo_hex_key_def demo_hex del: map_replicate)

lemma demo_hex_key_inject: "demo_hex_key x = demo_hex_key y \<longleftrightarrow> x = y"
  by (simp add: demo_hex_key_def hex_chars_eq_iff replicate_eq_replicate byte_mod word_unat_eq_iff)

lemma demo_root_verifies:
  "ac_verify demo_account_env \<lparr>ac_root = demo_hex_key x, ac_delegations = []\<rparr> = Ok ()"
  by (simp add: ac_verify_def demo_account_key)

theorem certificate_issue_correct_witness:
  "\<exists>c'. ac_issue demo_account_env \<lparr>ac_root = demo_hex_key 1, ac_delegations = []\<rparr> (demo_hex_key 2) (demo_key 1) = Ok c' \<and>
     ac_root c' = demo_hex_key 1 \<and> ac_keys c' = [demo_hex_key 1, demo_hex_key 2] \<and>
     ac_subject c' = demo_hex_key 2 \<and> ac_verify demo_account_env c' = Ok ()"
proof -
  let ?c = "\<lparr>ac_root = demo_hex_key 1, ac_delegations = []\<rparr>"
  have keys: "ac_keys ?c = [demo_hex_key 1]" "ac_subject ?c = demo_hex_key 1"
    by (simp_all add: ac_keys_def ac_subject_def)
  have "ac_verify demo_account_env ?c = Ok () \<and> ac_subject ?c = hex_key demo_account_env (demo_key 1) \<and>
      length (ac_delegations ?c) < MAX_DELEGATIONS \<and>
      is_ok (public_key (arost demo_account_env) (demo_hex_key 2)) \<and> demo_hex_key 2 \<notin> set (ac_keys ?c)"
    using demo_root_verifies [of 1]
    by (simp add: keys demo_account_key demo_hex_key_inject MAX_DELEGATIONS_def)
      (simp add: demo_account_roster_def demo_hex_key_def)
  from certificate_issue_correct [OF demo_account_laws, THEN iffD2, OF this] show ?thesis
    by (elim exE conjE) (simp add: keys)
qed

text \<open>
  A certificate that verifies has at most 33 keys, all different and well formed, and each
  delegation is signed by the key before it over the root, the delegations before it and its key.
\<close>

theorem certificate_chain_signed:
  assumes "ac_verify env c = Ok ()" and "i < length (ac_delegations c)"
  shows "distinct (ac_keys c) \<and> length (ac_keys c) \<le> 33 \<and>
     (\<exists>key sg input.
        public_key (arost env) (ac_keys c ! i) = Ok key \<and>
        ac_input env c i (ac_keys c ! Suc i) = Ok input \<and>
        Option.bind (hex_decode (sigs (arost env)) (dg_signature (ac_delegations c ! i)))
          (sig_from_slice (sigs (arost env))) = Some sg \<and>
        verify_strict (sigs (arost env)) key input sg)"
proof -
  obtain s where root: "public_key (arost env) (ac_root c) = Ok s"
    and chain: "verify_delegations env c s {ac_root c} 0 (ac_delegations c) = Ok ()"
    and len: "length (ac_delegations c) \<le> 32"
    using assms(1) by (auto simp: ac_verify_def and_then_Ok_iff MAX_DELEGATIONS_def split: if_splits)
  obtain k where k: "if i = 0 then k = s else public_key (arost env) (dg_key (ac_delegations c ! (i - 1))) = Ok k"
    and ok: "check_delegation env c k i (ac_delegations c ! i) = Ok ()"
    using verify_delegations_nth [OF chain assms(2)] by auto
  have "public_key (arost env) (ac_keys c ! i) = Ok k"
    using k root assms(2) by (auto simp: ac_keys_def nth_Cons' split: if_splits)
  moreover have "distinct (ac_keys c)" and "length (ac_keys c) \<le> 33"
    using verify_delegations_distinct [OF chain] len by (auto simp: ac_keys_def)
  ultimately show ?thesis
    using ok assms(2) by (auto simp: check_delegation_def and_then_Ok_iff ac_keys_def)
qed

theorem certificate_chain_signed_witness:
  "\<exists>key sg input.
     public_key demo_account_roster (demo_hex_key 1) = Ok key \<and>
     ac_input demo_account_env
       \<lparr>ac_root = demo_hex_key 1, ac_delegations = [\<lparr>dg_key = demo_hex_key 2, dg_signature = ''A''\<rparr>]\<rparr>
       0 (demo_hex_key 2) = Ok input \<and>
     Option.bind (hex_decode (sigs demo_account_roster) (map (\<lambda>b. char_of (unat b)) (replicate 64 (1 :: byte))))
       (sig_from_slice (sigs demo_account_roster)) = Some sg \<and>
     verify_strict (sigs demo_account_roster) key input sg"
  using certificate_chain_signed [of demo_account_env "\<lparr>ac_root = demo_hex_key 1, ac_delegations =
      [\<lparr>dg_key = demo_hex_key 2, dg_signature = map (\<lambda>b. char_of (unat b)) (replicate 64 (1 :: byte))\<rparr>]\<rparr>" 0]
  by (simp add: ac_verify_def MAX_DELEGATIONS_def demo_account_key demo_hex_key_inject check_delegation_def
      ac_keys_def ac_input_def demo_account_env_def del: map_replicate)
    (auto simp: demo_account_roster_def demo_hex simp del: map_replicate)

section \<open>Proofs of the own account\<close>

lemma hex_signature_ok_signed:
  assumes "account_laws env" and "public_key (arost env) (hex_key env sk) = Ok k"
  shows "hex_signature_ok (sigs (arost env)) (hex_key env sk)
     (hex_encode (sigs (arost env)) (sig_bytes (sigs (arost env)) (sign_with (arost env) sk input))) input"
  using assms public_key_hex_key [OF assms] signed_strict [of "arost env" sk input]
  by (simp add: hex_signature_ok_def decode_exact_def signature_check_def account_laws_def signing_laws_def)

lemma own_certificate:
  assumes "validate_identity env i peer = Ok ()" and "identity_certificate env i = Ok (Some c)"
  shows "ac_verify env c = Ok () \<and> ac_root c = user_id (ai_roster i) \<and> ac_subject c = hex_key env (ai_key i)"
proof -
  have valid: "hex_key env (ai_key i) = dd_signing_public_key (ai_device i)"
    using assms(1) by (auto simp: validate_identity_def and_then_Ok_iff split: if_splits)
  obtain ds where "devices (arost env) (ai_roster i) = Ok ds" and "ai_device i \<in> set ds"
    using assms(2) by (auto simp: identity_certificate_def identity_revoked_def and_then_Ok_iff split: if_splits)
  then have "validate_descriptor (arost env) (ai_device i) = Ok ()" by (rule devices_valid)
  then obtain k where "public_key (arost env) (hex_key env (ai_key i)) = Ok k"
    by (auto simp: validate_descriptor_def and_then_Ok_iff valid)
  then have "ac_verify env (ac_new_root env (ai_key i)) = Ok ()"
    by (simp add: ac_verify_def ac_new_root_def)
  then show ?thesis
    using assms valid
    by (auto simp: identity_certificate_def validate_identity_def and_then_Ok_iff ac_new_root_def ac_subject_def
        split: if_splits option.splits)
qed

text \<open>
  An account proof the device makes for one of its message keys, if short enough to be accepted at
  all, verifies for that key and names the device's own user.
\<close>

theorem created_proof_verifies:
  assumes "account_laws env" and "validate_identity env i peer = Ok ()"
    and "ownership_create env (Some (Ok i)) subject = Ok (Some text)" and "length text \<le> 16000"
  shows "ownership_verify env text subject = Ok (user_id (ai_roster i))"
proof -
  from assms(3) obtain c input where c: "identity_certificate env i = Ok (Some c)"
    and input: "proof_input env \<lparr>ap_certificate = c, ap_subject = subject, ap_signature = []\<rparr> = Ok input"
    and encoded: "proof_to_json env \<lparr>ap_certificate = c, ap_subject = subject, ap_signature =
        hex_encode (sigs (arost env)) (sig_bytes (sigs (arost env)) (sign_with (arost env) (ai_key i) input))\<rparr> = Some text"
      (is "proof_to_json _ ?p = _")
    by (auto simp: ownership_create_def local_identity_def and_then_Ok_iff Let_def split: if_splits option.splits)
  note own = own_certificate [OF assms(2) c]
  obtain k where k: "public_key (arost env) (hex_key env (ai_key i)) = Ok k"
    using ac_verify_subject [of env c] own by auto
  have "proof_input env ?p = Ok input" using input by (simp add: proof_input_def)
  then have "proof_verify env ?p subject = Ok ()"
    using own hex_signature_ok_signed [OF assms(1) k, of input] by (simp add: proof_verify_def)
  moreover have "proof_from_json env text = Some ?p"
    using assms(1) encoded by (simp add: account_laws_def)
  ultimately show ?thesis
    using own assms(4) by (simp add: ownership_verify_def verified_proof_def)
qed

definition demo_own_device :: "byte \<Rightarrow> device_descriptor" where
  "demo_own_device x = new_descriptor demo_account_roster (demo_key x) (demo_hex_key (x + 100))"

lemma demo_own_device_fields:
  "dd_device_id (demo_own_device x) = device_id demo_account_roster (demo_key x)"
  "dd_signing_public_key (demo_own_device x) = demo_hex_key x"
  "dd_moss_peer_id (demo_own_device x) = demo_hex_key (x + 100)" "dd_name (demo_own_device x) = ''Desktop''"
  by (simp_all add: demo_own_device_def new_descriptor_def demo_hex_key_def DEFAULT_DEVICE_NAME_def)
    (simp_all add: demo_account_roster_def)

lemma demo_own_roster:
  obtains r where "devices demo_account_roster r = Ok [demo_own_device x]" and "user_id r = demo_hex_key x"
    and "known_device demo_account_roster r (dd_device_id (demo_own_device x)) = Ok (Some (demo_own_device x))"
proof -
  have "holds_key demo_account_roster (demo_own_device x) (demo_key x)"
    by (simp add: holds_key_def demo_own_device_fields demo_account_key) (simp add: demo_account_roster_def)
  moreover have "validate_descriptor demo_account_roster (demo_own_device x) = Ok ()"
    by (simp add: validate_descriptor_def demo_own_device_fields demo_account_key MAX_NAME_CHARS_def char_count_def
        is_continuation_def)
  ultimately obtain r where g: "genesis demo_account_roster (demo_own_device x) (demo_key x) = Ok r"
    and r: "devices demo_account_roster r = Ok [demo_own_device x]"
    using genesis_succeeds [of demo_account_roster "demo_own_device x" "demo_key x"] demo_account_laws
    by (auto simp: account_laws_def)
  from g obtain e where "r = [e]" and "au_device e = demo_own_device x"
    by (auto simp: genesis_def and_then_Ok_iff dest: signed_fields)
  with r show ?thesis
    using that by (simp add: user_id_def demo_own_device_fields known_device_def)
qed

theorem created_proof_verifies_witness:
  "\<exists>i. ownership_create demo_account_env (Some (Ok i)) (demo_hex_key 1) = Ok (Some [char_of (1 :: nat)]) \<and>
     ownership_verify demo_account_env [char_of (1 :: nat)] (demo_hex_key 1) = Ok (demo_hex_key 1)"
proof -
  obtain r where r: "devices demo_account_roster r = Ok [demo_own_device 1]" "user_id r = demo_hex_key 1"
    "known_device demo_account_roster r (dd_device_id (demo_own_device 1)) = Ok (Some (demo_own_device 1))"
    by (rule demo_own_roster)
  let ?i = "\<lparr>ai_roster = r, ai_device = demo_own_device 1, ai_key = demo_key 1, ai_certificate = None\<rparr>"
  have hex: "hex_key demo_account_env (demo_key 1) = demo_hex_key 1"
    by (simp add: demo_hex_key_def) (simp add: demo_account_roster_def)
  have sig: "hex_encode (sigs demo_account_roster) (sig_bytes (sigs demo_account_roster)
      (sign_with demo_account_roster (demo_key 1) b)) = ap_signature (demo_proof 1)" for b
    by (simp add: demo_account_roster_def demo_proof_def)
  have valid: "validate_identity demo_account_env ?i (demo_hex_key 101) = Ok ()"
    using r hex by (simp add: validate_identity_def demo_own_device_fields)
  have cert: "identity_certificate demo_account_env ?i = Ok (Some (ap_certificate (demo_proof 1)))"
    using r hex by (simp add: identity_certificate_def identity_revoked_def demo_own_device_fields ac_new_root_def
        demo_proof_def)
  have json: "proof_to_json demo_account_env (demo_proof 1) = Some [char_of (1 :: nat)]"
    "ownership_json demo_account_env q = Some []" for q
    by (simp_all add: demo_account_env_def)
  have proof_eq: "\<lparr>ap_certificate = ap_certificate (demo_proof 1), ap_subject = demo_hex_key 1,
      ap_signature = ap_signature (demo_proof 1)\<rparr> = demo_proof 1"
    by (simp add: demo_proof_def)
  have "ownership_create demo_account_env (Some (Ok ?i)) (demo_hex_key 1) = Ok (Some [char_of (1 :: nat)])"
    using r by (simp add: ownership_create_def local_identity_def identity_revoked_def cert proof_input_def json
        Let_def sig proof_eq)
  from this created_proof_verifies [OF demo_account_laws valid this] r show ?thesis
    by (intro exI [of _ ?i]) simp
qed

section \<open>Removed devices\<close>

lemma map_signer_mono:
  "oa_revoked own \<subseteq> oa_revoked (map_signer f own signer)"
  "bt_contains (oa_accounts own) k \<Longrightarrow> bt_contains (oa_accounts (map_signer f own signer)) k"
  by (auto simp: map_signer_def bt_contains_def split: option.splits)

lemma for_mls_mono:
  "oa_revoked own \<subseteq> oa_revoked (for_mls signers f own)"
  "bt_contains (oa_accounts own) k \<Longrightarrow> bt_contains (oa_accounts (for_mls signers f own)) k"
proof (induction signers arbitrary: own)
  case (Cons s signers)
  { case 1
    show ?case using Cons.IH(1) [of "map_signer f own s"] map_signer_mono(1) [of own f s]
      by (auto simp: for_mls_def)
  next
    case 2
    then show ?case using Cons.IH(2) [of "map_signer f own s"] map_signer_mono(2) [of own k f s]
      by (simp add: for_mls_def)
  }
qed (simp_all add: for_mls_def)

lemma for_mls_revokes:
  assumes "signer \<in> set signers" and "f signer = Some identity" and "identity \<in> oa_revoked own"
    and "bt_contains (oa_accounts own) identity"
  shows "signer \<in> oa_revoked (for_mls signers f own)"
proof -
  obtain before after where split: "signers = before @ signer # after"
    using assms(1) by (meson split_list)
  let ?own = "for_mls before f own"
  have "identity \<in> oa_revoked ?own" and "bt_contains (oa_accounts ?own) identity"
    using assms(3,4) for_mls_mono by blast+
  then have "signer \<in> oa_revoked (map_signer f ?own signer)"
    using assms(2) by (auto simp: map_signer_def bt_contains_def)
  moreover have "for_mls signers f own = for_mls after f (map_signer f ?own signer)"
    by (simp add: for_mls_def split)
  ultimately show ?thesis using for_mls_mono(1) by fastforce
qed

lemma moss_accounts_removed:
  assumes "moss_accounts env (Some (Ok i)) = Ok own"
    and "removal_targets (arost env) (ai_roster i) = Ok removed" and "d \<in> set removed"
    and "key = dd_moss_peer_id d \<or> key = dd_signing_public_key d"
  shows "key \<in> oa_revoked own" and "bt_contains (oa_accounts own) key"
proof -
  from assms(1,2) obtain ds where "oa_revoked own = (\<Union>d \<in> set removed. {dd_moss_peer_id d, dd_signing_public_key d})"
    and "oa_accounts own = bt_of_list (concat (map (\<lambda>d.
        [(dd_moss_peer_id d, user_id (ai_roster i)), (dd_signing_public_key d, user_id (ai_roster i))]) (ds @ removed)))"
    by (auto simp: moss_accounts_def local_identity_def and_then_Ok_iff split: if_splits)
  then show "key \<in> oa_revoked own" and "bt_contains (oa_accounts own) key"
    using assms(3,4) by (simp_all add: bt_contains_of_list image_Un) (blast, force)
qed

text \<open>
  A device that the local roster removed is recognised as revoked in every form: under its peer
  id, under its signing key, under every MLS signer whose credential names its peer id, and under
  any key for which it can produce a valid account proof.
\<close>

theorem removed_device_revoked:
  assumes "moss_accounts env (Some (Ok i)) = Ok own"
    and "removal_targets (arost env) (ai_roster i) = Ok removed" and "d \<in> set removed"
    and "key = dd_moss_peer_id d \<or> key = dd_signing_public_key d \<or>
         key \<in> set signers \<and> identity_of key = Some (dd_moss_peer_id d) \<or>
         (\<exists>t p. proof_text = Some t \<and> verified_proof env t key = Ok p \<and>
            ac_subject (ap_certificate p) = dd_signing_public_key d)"
  shows "is_revoked env (for_mls signers identity_of own) key proof_text"
proof -
  let ?own = "for_mls signers identity_of own"
  note removed = moss_accounts_removed [OF assms(1-3)]
  have dev: "dd_moss_peer_id d \<in> oa_revoked ?own" "dd_signing_public_key d \<in> oa_revoked ?own"
    using removed(1) [of "dd_moss_peer_id d"] removed(1) [of "dd_signing_public_key d"] for_mls_mono(1) by auto
  have acc: "bt_contains (oa_accounts ?own) (dd_signing_public_key d)"
    using removed(2) [of "dd_signing_public_key d"] by (simp add: for_mls_mono(2))
  show ?thesis
  proof (cases "key \<in> oa_revoked ?own")
    case True
    then show ?thesis by (simp add: is_revoked_def)
  next
    case False
    moreover have "\<not> (key \<in> set signers \<and> identity_of key = Some (dd_moss_peer_id d))"
      using False for_mls_revokes [of key signers identity_of "dd_moss_peer_id d" own]
        removed [of "dd_moss_peer_id d"] by auto
    ultimately obtain t p where "proof_text = Some t" and "verified_proof env t key = Ok p"
      and "ac_subject (ap_certificate p) = dd_signing_public_key d"
      using assms(4) dev by auto
    with dev acc show ?thesis by (simp add: is_revoked_def Let_def)
  qed
qed

lemma set_collect_removed: "set removed \<subseteq> set (collect_removed removed es)"
proof (induction es arbitrary: removed)
  case (Cons e es)
  let ?next = "if \<exists>d \<in> set removed. dd_device_id d = dd_device_id (au_device e) then removed
    else removed @ [au_device e]"
  have "set removed \<subseteq> set ?next" by auto
  also have "\<dots> \<subseteq> set (collect_removed ?next es)" by (rule Cons.IH)
  finally show ?case by simp
qed simp

text \<open>The roster of \<open>demo_rosters\<close> from which device 2 was removed.\<close>

lemma demo_removed:
  obtains r removed where "devices demo_roster_env r = Ok [demo_device 1]"
    and "removal_targets demo_roster_env r = Ok removed" and "demo_device 2 \<in> set removed"
proof -
  obtain r2 r3 where r2: "devices demo_roster_env r2 = Ok [demo_device 1, demo_device 2]"
    and rv: "revoke demo_roster_env r2 (dd_device_id (demo_device 2)) (demo_key 1) = Ok r3"
    and r3: "devices demo_roster_env r3 = Ok [demo_device 1]"
    by (rule demo_rosters)
  from rv obtain ds d dg e where ds: "devices demo_roster_env r2 = Ok ds"
    and d: "find (\<lambda>d. dd_device_id d = dd_device_id (demo_device 2)) ds = Some d"
    and e: "signed demo_roster_env REMOVAL_VERSION (Some dg)
        (device_id demo_roster_env (verifying_key demo_roster_env (demo_key 1))) d (demo_key 1) = Ok e"
    and chain: "r3 = r2 @ [e]"
    by (rule revoke_OkE)
  have "d = demo_device 2" using ds r2 d by (auto simp: demo_device_id_eq_iff split: if_splits)
  with chain signed_fields [OF e]
  have "r3 = r2 @ [e]" and "au_version e = REMOVAL_VERSION" and "au_device e = demo_device 2" by auto
  then have "removal_targets demo_roster_env r3 =
      Ok (collect_removed [demo_device 2] (filter (\<lambda>e. au_version e = REMOVAL_VERSION) (rev r2)))"
    using r3 by (simp add: removal_targets_def)
  then show ?thesis using that [OF r3] set_collect_removed [of "[demo_device 2]"] by auto
qed

theorem removed_device_revoked_witness:
  "\<exists>env i own. moss_accounts (env :: (bytes, bytes, bytes) account_env) (Some (Ok i)) = Ok own \<and>
     is_revoked env (for_mls [''leaf''] (\<lambda>_. Some (dd_moss_peer_id (demo_device 2))) own) ''leaf'' None"
proof -
  obtain r removed where r: "devices demo_roster_env r = Ok [demo_device 1]"
    and removed: "removal_targets demo_roster_env r = Ok removed" and d: "demo_device 2 \<in> set removed"
    by (rule demo_removed)
  let ?env = "\<lparr>arost = demo_roster_env, delegation_json = \<lambda>_. None, ownership_json = \<lambda>_. None,
    proof_to_json = \<lambda>_. None, proof_from_json = \<lambda>_. None\<rparr>"
  let ?i = "\<lparr>ai_roster = r, ai_device = demo_device 1, ai_key = demo_key 1, ai_certificate = None\<rparr>"
  obtain own where own: "moss_accounts ?env (Some (Ok ?i)) = Ok own"
    using r removed by (simp add: moss_accounts_def local_identity_def identity_revoked_def)
  have "is_revoked ?env (for_mls [''leaf''] (\<lambda>_. Some (dd_moss_peer_id (demo_device 2))) own) ''leaf'' None"
    by (rule removed_device_revoked [OF own _ d]) (use removed in simp_all)
  with own show ?thesis by blast
qed

end
