(* ===== verification/Fragment_Buffer.thy ===== *)
theory Fragment_Buffer
  imports Prelude
begin

text \<open>
  Splitting a deletion page into transport-sized fragments and putting it back together:
  \<open>message_deletion/fragment_buffer.rs\<close>.

  A page of at most \<open>MAX_PAGE\<close> bytes is cut into pieces of \<open>CHUNK\<close> bytes, each carrying the digest
  of the whole page. The receiver keeps at most 16 partial pages, keyed by carrier and digest, in a
  \<open>BTreeMap\<close> (evicting the first key), with the pieces of a page in a \<open>BTreeMap\<close> by offset.
  Base64 and SHA-256 are parameters. \<open>add\<close> changes the buffer on some of its error paths, so it
  returns the buffer next to the result.

  The theorems: fragments of one page delivered in any order, with repetitions, give the page back
  with the last missing one; whatever arrives, the buffer stays within 16 pages of at most
  \<open>MAX_PAGE\<close> bytes, and a page that is handed out has the announced length and digest.
\<close>

section \<open>The model\<close>

definition CHUNK :: nat where
  "CHUNK = 3000"

definition MAX_PAGE :: nat where
  "MAX_PAGE = 200000"

record page_fragment =
  pf_digest :: string
  pf_offset :: nat
  pf_total :: nat
  pf_bytes_b64 :: string

record partial_page =
  pp_total :: nat
  pp_chunks :: "(nat, bytes) btree_map"

type_synonym fragment_buffer = "(string, partial_page) btree_map"

text \<open>\<open>hex::encode(Sha256::digest(..))\<close> and the base64 helpers of \<open>conversation\<close>.\<close>

record frag_env =
  page_digest :: "bytes \<Rightarrow> string"
  b64_encode :: "bytes \<Rightarrow> string"
  b64_decode :: "string \<Rightarrow> (string, bytes) result"

definition frag_laws :: "'z frag_env_scheme \<Rightarrow> bool" where
  "frag_laws env \<longleftrightarrow>
     (\<forall>b. b64_decode env (b64_encode env b) = Ok b) \<and> (\<forall>b. length (page_digest env b) = 64)"

text \<open>\<open>slice::chunks\<close>; the code calls it with the constant size \<open>CHUNK\<close> only.\<close>

fun chunks :: "nat \<Rightarrow> 'a list \<Rightarrow> 'a list list" where
  "chunks n xs = (if n = 0 \<or> xs = [] then [] else take n xs # chunks n (drop n xs))"

declare chunks.simps [simp del]

definition split_bytes :: "'z frag_env_scheme \<Rightarrow> bytes \<Rightarrow> (string, page_fragment list) result" where
  "split_bytes env b =
     (if length b > MAX_PAGE then Err ''deletion page exceeds limit''
      else Ok (map (\<lambda>(index, c).
             \<lparr>pf_digest = page_digest env b, pf_offset = index * CHUNK, pf_total = length b,
              pf_bytes_b64 = b64_encode env c\<rparr>)
           (enumerate 0 (chunks CHUNK b))))"

definition validate_fragment :: "page_fragment \<Rightarrow> bytes \<Rightarrow> (string, unit) result" where
  "validate_fragment f b =
     (if pf_total f = 0 \<or> pf_total f > MAX_PAGE \<or> pf_offset f \<ge> pf_total f \<or>
         pf_offset f mod CHUNK \<noteq> 0 \<or> length b \<noteq> min CHUNK (pf_total f - pf_offset f) \<or>
         length (pf_digest f) \<noteq> 64
      then Err ''invalid deletion fragment'' else Ok ())"

definition page_key :: "string \<Rightarrow> page_fragment \<Rightarrow> string" where
  "page_key carrier f = carrier @ '':'' @ pf_digest f"

text \<open>\<open>pop_first\<close> when a new page would be the seventeenth.\<close>

definition make_room :: "string \<Rightarrow> fragment_buffer \<Rightarrow> fragment_buffer" where
  "make_room key pages = (if \<not> bt_contains pages key \<and> length pages \<ge> 16 then drop 1 pages else pages)"

definition page_for :: "page_fragment \<Rightarrow> string \<Rightarrow> fragment_buffer \<Rightarrow> partial_page" where
  "page_for f key pages =
     (case bt_get pages key of Some p \<Rightarrow> p | None \<Rightarrow> \<lparr>pp_total = pf_total f, pp_chunks = []\<rparr>)"

definition conflicts :: "page_fragment \<Rightarrow> bytes \<Rightarrow> partial_page \<Rightarrow> bool" where
  "conflicts f b p \<longleftrightarrow>
     pp_total p \<noteq> pf_total f \<or>
     (case bt_get (pp_chunks p) (pf_offset f) of None \<Rightarrow> False | Some old \<Rightarrow> old \<noteq> b)"

definition received_bytes :: "partial_page \<Rightarrow> nat" where
  "received_bytes p = sum_list (map length (bt_values (pp_chunks p)))"

definition add_fragment ::
    "'z frag_env_scheme \<Rightarrow> string \<Rightarrow> page_fragment \<Rightarrow> fragment_buffer \<Rightarrow>
     fragment_buffer \<times> (string, bytes option) result" where
  "add_fragment env carrier f pages =
     (case and_then (b64_decode env (pf_bytes_b64 f)) (\<lambda>b.
           and_then (validate_fragment f b) (\<lambda>_. Ok b)) of
        Inl e \<Rightarrow> (pages, Err e)
      | Inr b \<Rightarrow>
          (let key = page_key carrier f;
               room = make_room key pages;
               page = page_for f key room;
               entered = bt_insert key page room
           in if conflicts f b page then (entered, Err ''conflicting deletion fragment'')
              else
                (let page' = page\<lparr>pp_chunks := bt_insert (pf_offset f) b (pp_chunks page)\<rparr>
                 in if received_bytes page' \<noteq> pf_total f then (bt_insert key page' entered, Ok None)
                    else
                      (let out = concat (bt_values (pp_chunks page'))
                       in (bt_remove key entered,
                           if page_digest env out \<noteq> pf_digest f then Err ''deletion page digest mismatch''
                           else Ok (Some out))))))"

fun add_fragments ::
    "'z frag_env_scheme \<Rightarrow> string \<Rightarrow> page_fragment list \<Rightarrow> fragment_buffer \<Rightarrow>
     fragment_buffer \<times> (string, bytes option) result list" where
  "add_fragments env carrier [] pages = (pages, [])"
| "add_fragments env carrier (f # fs) pages =
     (let (pages1, r) = add_fragment env carrier f pages;
          (pages2, rs) = add_fragments env carrier fs pages1
      in (pages2, r # rs))"

section \<open>Cutting\<close>

lemma CHUNK_pos: "0 < CHUNK"
  by (simp add: CHUNK_def)

lemma concat_chunks: "0 < n \<Longrightarrow> concat (chunks n xs) = xs"
proof (induction n xs rule: chunks.induct)
  case (1 n xs)
  then show ?case
    by (subst chunks.simps) auto
qed

lemma nth_chunks:
  "i < length (chunks n xs) \<Longrightarrow> chunks n xs ! i = take n (drop (i * n) xs) \<and> i * n < length xs"
proof (induction n xs arbitrary: i rule: chunks.induct)
  case (1 n xs)
  show ?case
  proof (cases "n = 0 \<or> xs = []")
    case True
    with 1 show ?thesis by (simp add: chunks.simps)
  next
    case False
    then have unfold: "chunks n xs = take n xs # chunks n (drop n xs)"
      by (simp add: chunks.simps [of n xs])
    show ?thesis
    proof (cases i)
      case 0
      with False show ?thesis by (simp add: unfold)
    next
      case (Suc j)
      with 1 have "j < length (chunks n (drop n xs))" by (simp add: unfold)
      from 1(1) [OF False this] Suc show ?thesis
        by (simp add: unfold add.commute less_diff_conv)
    qed
  qed
qed

text \<open>The pieces of a page by offset, as a complete partial page holds them.\<close>

definition pieces :: "bytes \<Rightarrow> (nat, bytes) btree_map" where
  "pieces b = map (\<lambda>(index, c). (index * CHUNK, c)) (enumerate 0 (chunks CHUNK b))"

lemma map_fst_pieces: "map fst (pieces b) = map (\<lambda>i. i * CHUNK) [0..<length (chunks CHUNK b)]"
  by (rule nth_equalityI) (simp_all add: pieces_def nth_enumerate_eq)

lemma map_snd_pieces: "map snd (pieces b) = chunks CHUNK b"
  by (simp add: pieces_def enumerate_eq_zip o_def case_prod_beta)


lemma bt_wf_pieces: "bt_wf (pieces b)"
  unfolding bt_wf_def map_fst_pieces sorted_wrt_map
  by (simp add: sorted_wrt_iff_nth_less CHUNK_pos)

lemma in_piecesD:
  assumes "(at, c) \<in> set (pieces b)"
  shows "c = take CHUNK (drop at b)" and "at < length b" and "at mod CHUNK = 0"
proof -
  from assms obtain i where i: "i < length (chunks CHUNK b)" and "at = i * CHUNK" and "c = chunks CHUNK b ! i"
    by (auto simp: pieces_def in_set_enumerate_eq)
  with nth_chunks [OF i] show "c = take CHUNK (drop at b)" and "at < length b" and "at mod CHUNK = 0"
    by auto
qed

lemma concat_pieces: "concat (bt_values (pieces b)) = b"
  by (simp add: bt_values_def map_snd_pieces concat_chunks CHUNK_pos)

abbreviation offsets :: "bytes \<Rightarrow> nat set" where
  "offsets b \<equiv> fst ` set (pieces b)"

text \<open>A page with some pieces missing holds fewer bytes than it announces.\<close>

lemma sum_list_filter_less:
  fixes w :: "'a \<Rightarrow> nat"
  assumes "x \<in> set xs" and "\<not> P x" and "0 < w x"
  shows "sum_list (map w (filter P xs)) < sum_list (map w xs)"
proof -
  have "sum_list (map w xs) = sum_list (map w (filter P xs)) + sum_list (map w (filter (\<lambda>x. \<not> P x) xs))"
    by (induction xs) auto
  moreover have "w x \<le> sum_list (map w (filter (\<lambda>x. \<not> P x) xs))"
    using assms by (intro member_le_sum_list) auto
  ultimately show ?thesis using assms(3) by linarith
qed

definition some_pieces :: "bytes \<Rightarrow> nat set \<Rightarrow> partial_page" where
  "some_pieces b K = \<lparr>pp_total = length b, pp_chunks = filter (\<lambda>e. fst e \<in> K) (pieces b)\<rparr>"

lemma received_some_pieces:
  assumes "K \<subseteq> offsets b"
  shows "received_bytes (some_pieces b K) = length b \<longleftrightarrow> K = offsets b"
proof
  assume "K = offsets b"
  then have "pp_chunks (some_pieces b K) = pieces b"
    by (simp add: some_pieces_def)
  then show "received_bytes (some_pieces b K) = length b"
    using concat_pieces [of b] by (simp add: received_bytes_def length_concat [symmetric])
next
  assume *: "received_bytes (some_pieces b K) = length b"
  show "K = offsets b"
  proof (rule ccontr)
    assume "K \<noteq> offsets b"
    with assms obtain e where e: "e \<in> set (pieces b)" "fst e \<notin> K" by fastforce
    obtain at c where ec: "e = (at, c)" by fastforce
    with e in_piecesD [of at c b] have "0 < length (snd e)"
      by (simp add: CHUNK_pos)
    from sum_list_filter_less [where w = "length \<circ> snd" and P = "\<lambda>e. fst e \<in> K", OF e(1)] e(2) this
    have "received_bytes (some_pieces b K) < sum_list (map (length \<circ> snd) (pieces b))"
      by (simp add: received_bytes_def some_pieces_def bt_values_def o_def)
    also have "\<dots> = length b"
      using concat_pieces [of b] by (simp add: bt_values_def length_concat [symmetric] flip: map_map)
    finally show False using * by simp
  qed
qed

section \<open>Reassembly\<close>

definition fragment_of :: "'z frag_env_scheme \<Rightarrow> bytes \<Rightarrow> nat \<times> bytes \<Rightarrow> page_fragment" where
  "fragment_of env b e =
     \<lparr>pf_digest = page_digest env b, pf_offset = fst e, pf_total = length b,
      pf_bytes_b64 = b64_encode env (snd e)\<rparr>"

lemma split_bytes_pieces:
  "split_bytes env b = Ok fs \<longleftrightarrow> length b \<le> MAX_PAGE \<and> fs = map (fragment_of env b) (pieces b)"
  by (auto simp: split_bytes_def pieces_def fragment_of_def case_prod_unfold o_def)

text \<open>The buffer with the pieces at the offsets \<open>K\<close> of one page added to \<open>pages\<close>.\<close>

definition partial_buffer :: "string \<Rightarrow> bytes \<Rightarrow> nat set \<Rightarrow> fragment_buffer \<Rightarrow> fragment_buffer" where
  "partial_buffer key b K pages =
     (if K = {} then pages else bt_insert key (some_pieces b K) (make_room key pages))"

lemma bt_wf_make_room [wf_intros]: "bt_wf pages \<Longrightarrow> bt_wf (make_room key pages)"
  by (cases pages) (auto simp: make_room_def bt_wf_Cons)

lemma make_room_absent: "bt_get pages key = None \<Longrightarrow> bt_get (make_room key pages) key = None"
  by (auto simp: make_room_def bt_get_None_iff dest: in_set_dropD)

lemma make_room_present: "bt_get pages key = Some p \<Longrightarrow> make_room key pages = pages"
  by (simp add: make_room_def bt_contains_def)

lemma validate_piece:
  assumes "frag_laws env" and "(at, c) \<in> set (pieces b)" and "length b \<le> MAX_PAGE"
  shows "validate_fragment (fragment_of env b (at, c)) c = Ok ()"
  using assms in_piecesD [OF assms(2)]
  by (auto simp: validate_fragment_def fragment_of_def frag_laws_def)

lemma not_conflicts_some_pieces:
  assumes "(at, c) \<in> set (pieces b)"
  shows "\<not> conflicts (fragment_of env b (at, c)) c (some_pieces b K)"
  using assms by (auto simp: conflicts_def fragment_of_def some_pieces_def bt_get_filter_keys bt_wf_pieces
      bt_get_eq_Some_iff [OF bt_wf_pieces, THEN iffD2])

lemma page_for_partial_buffer:
  fixes pages :: fragment_buffer
  assumes "bt_wf pages" and "bt_get pages key = None" and "pf_total f = length b"
  shows "page_for f key (make_room key (partial_buffer key b K pages)) = some_pieces b K"
    and "bt_insert key p (make_room key (partial_buffer key b K pages)) = bt_insert key p (make_room key pages)"
proof -
  have "make_room key (partial_buffer key b K pages) =
      (if K = {} then make_room key pages else partial_buffer key b K pages)"
    by (auto simp: partial_buffer_def intro: make_room_present)
  then show "page_for f key (make_room key (partial_buffer key b K pages)) = some_pieces b K"
    and "bt_insert key p (make_room key (partial_buffer key b K pages)) = bt_insert key p (make_room key pages)"
    using assms by (auto simp: page_for_def partial_buffer_def make_room_absent some_pieces_def
        bt_insert_insert wf_intros)
qed

lemma add_piece:
  fixes pages :: fragment_buffer
  assumes laws: "frag_laws env" and wf: "bt_wf pages" and max: "length b \<le> MAX_PAGE"
    and absent: "bt_get pages key = None" and key: "key = carrier @ '':'' @ page_digest env b"
    and K: "K \<subseteq> offsets b" and e: "(at, c) \<in> set (pieces b)"
  shows "add_fragment env carrier (fragment_of env b (at, c)) (partial_buffer key b K pages) =
     (if Set.insert at K = offsets b then (make_room key pages, Ok (Some b))
      else (partial_buffer key b (Set.insert at K) pages, Ok None))"
proof -
  let ?f = "fragment_of env b (at, c)"
  have f: "b64_decode env (pf_bytes_b64 ?f) = Ok c" "page_key carrier ?f = key" "pf_total ?f = length b"
    "pf_offset ?f = at" "pf_digest ?f = page_digest env b"
    using laws key by (simp_all add: frag_laws_def fragment_of_def page_key_def)
  have at: "bt_get (pieces b) at = Some c"
    using e by (simp add: bt_get_eq_Some_iff bt_wf_pieces)
  have grown: "(some_pieces b K)\<lparr>pp_chunks := bt_insert at c (pp_chunks (some_pieces b K))\<rparr> =
      some_pieces b (Set.insert at K)"
    using bt_insert_filter_keys [OF bt_wf_pieces at] by (simp add: some_pieces_def)
  have "Set.insert at K \<subseteq> offsets b" using K e by force
  note complete = received_some_pieces [OF this]
  have whole: "concat (bt_values (pp_chunks (some_pieces b (offsets b)))) = b"
    by (simp add: some_pieces_def concat_pieces)
  have room: "bt_remove key (bt_insert key p (make_room key pages)) = make_room key pages"
    "bt_insert key q (bt_insert key p (make_room key pages)) = bt_insert key q (make_room key pages)" for p q
    using wf absent by (auto intro: bt_remove_insert bt_insert_insert make_room_absent bt_wf_make_room)
  show ?thesis
    unfolding add_fragment_def Let_def
    by (simp only: f and_then.simps validate_piece [OF laws e max] sum.case
        page_for_partial_buffer [OF wf absent f(3)] not_conflicts_some_pieces [OF e] grown complete)
      (simp add: whole room partial_buffer_def)
qed

lemma add_pieces:
  fixes pages :: fragment_buffer
  assumes laws: "frag_laws env" and wf: "bt_wf pages" and max: "length b \<le> MAX_PAGE"
    and absent: "bt_get pages key = None" and key: "key = carrier @ '':'' @ page_digest env b"
  shows "set es \<subseteq> set (pieces b) \<Longrightarrow> K \<union> fst ` set es \<subset> offsets b \<Longrightarrow>
     add_fragments env carrier (map (fragment_of env b) es) (partial_buffer key b K pages) =
     (partial_buffer key b (K \<union> fst ` set es) pages, replicate (length es) (Ok None))"
proof (induction es arbitrary: K)
  case Nil
  then show ?case by simp
next
  case (Cons e es)
  obtain at c where e: "e = (at, c)" by fastforce
  have "add_fragment env carrier (fragment_of env b (at, c)) (partial_buffer key b K pages) =
      (partial_buffer key b (Set.insert at K) pages, Ok None)"
    using Cons.prems e by (subst add_piece [OF laws wf max absent key]) auto
  moreover have "add_fragments env carrier (map (fragment_of env b) es) (partial_buffer key b (Set.insert at K) pages) =
      (partial_buffer key b (Set.insert at K \<union> fst ` set es) pages, replicate (length es) (Ok None))"
    using Cons.prems e by (intro Cons.IH) auto
  ultimately show ?case
    by (simp add: e)
qed

lemma add_fragments_append:
  "add_fragments env carrier (xs @ ys) pages =
     (let (p1, r1) = add_fragments env carrier xs pages; (p2, r2) = add_fragments env carrier ys p1
      in (p2, r1 @ r2))"
  by (induction xs arbitrary: pages) (auto simp: Let_def split: prod.splits)

lemma fragment_of_inj:
  "frag_laws env \<Longrightarrow> fragment_of env b e = fragment_of env b e' \<Longrightarrow> e = e'"
  by (metis fragment_of_def frag_laws_def page_fragment.select_convs prod.expand sum.inject(2))

text \<open>
  C38. A page that is split and whose fragments arrive in any order, possibly several times, at a
  buffer that has no page under that carrier and digest is put together again exactly: each
  fragment before the last missing one is filed and answers nothing, the last missing one answers
  the bytes of the page, and the buffer is then what it was, less the page evicted to make room.
\<close>

theorem fragments_reassemble:
  assumes "frag_laws env" and "bt_wf pages" and "split_bytes env b = Ok fs"
    and "bt_get pages (carrier @ '':'' @ page_digest env b) = None"
    and "set (ys @ [f]) = set fs" and "f \<notin> set ys"
  shows "add_fragments env carrier (ys @ [f]) pages =
     (make_room (carrier @ '':'' @ page_digest env b) pages,
      replicate (length ys) (Ok None) @ [Ok (Some b)])"
proof -
  let ?key = "carrier @ '':'' @ page_digest env b"
  have max: "length b \<le> MAX_PAGE" and fs: "fs = map (fragment_of env b) (pieces b)"
    using assms(3) by (simp_all add: split_bytes_pieces)
  have mem: "set ys \<subseteq> fragment_of env b ` set (pieces b)" "f \<in> fragment_of env b ` set (pieces b)"
    using assms(5) fs by auto
  obtain es where ys: "ys = map (fragment_of env b) es" and es: "set es \<subseteq> set (pieces b)"
    using mem(1) lists_image [of "fragment_of env b" "set (pieces b)"] unfolding lists_eq_set by blast
  obtain at c where f: "f = fragment_of env b (at, c)" and e: "(at, c) \<in> set (pieces b)"
    using mem(2) by force
  have uniq: "(at, d) \<in> set (pieces b) \<Longrightarrow> d = c" for d
    using e in_piecesD(1) by metis
  have at: "at \<notin> fst ` set es"
    using assms(6) ys f es uniq by fastforce
  have "fragment_of env b ` set (pieces b) = fragment_of env b ` (Set.insert (at, c) (set es))"
    using assms(5) fs ys f by auto
  then have "set (pieces b) = Set.insert (at, c) (set es)"
    using fragment_of_inj [OF assms(1)] by (metis inj_image_eq_iff injI)
  then have all: "Set.insert at (fst ` set es) = offsets b" by simp
  have "fst ` set es \<subset> offsets b" using at all by blast
  then have "add_fragments env carrier ys (partial_buffer ?key b {} pages) =
      (partial_buffer ?key b ({} \<union> fst ` set es) pages, replicate (length es) (Ok None))"
    unfolding ys using es by (intro add_pieces [OF assms(1,2) max assms(4)]) auto
  moreover have "add_fragment env carrier f (partial_buffer ?key b (fst ` set es) pages) =
      (make_room ?key pages, Ok (Some b))"
    unfolding f using all by (subst add_piece [OF assms(1,2) max assms(4) refl _ e]) auto
  ultimately show ?thesis
    by (simp add: add_fragments_append partial_buffer_def ys)
qed

text \<open>
  An instance of the parameters: bytes as characters for base64, a constant digest.
\<close>

definition demo_frag_env :: frag_env where
  "demo_frag_env =
     \<lparr>page_digest = \<lambda>_. replicate 64 CHR ''0'', b64_encode = map (\<lambda>w. char_of (unat w)),
      b64_decode = \<lambda>s. Ok (map (\<lambda>c. of_nat (of_char c)) s)\<rparr>"

lemma unat_byte_less: "unat (w :: byte) < 256"
  using unsigned_less [of w, where 'a = nat] by simp

lemma demo_frag_laws: "frag_laws demo_frag_env"
  by (simp add: frag_laws_def demo_frag_env_def o_def unat_byte_less)

lemma demo_pieces: "pieces (replicate 4000 1) = [(0, replicate 3000 1), (3000, replicate 1000 1)]"
  by (simp add: pieces_def CHUNK_def chunks.simps take_replicate)

theorem fragments_reassemble_witness:
  "add_fragments demo_frag_env ''alice''
     [fragment_of demo_frag_env (replicate 4000 1) (3000, replicate 1000 1),
      fragment_of demo_frag_env (replicate 4000 1) (0, replicate 3000 1)] [] =
   ([], [Ok None, Ok (Some (replicate 4000 1))])"
  using fragments_reassemble [OF demo_frag_laws, where pages = "[]" and b = "replicate 4000 1"
      and ys = "[fragment_of demo_frag_env (replicate 4000 1) (3000, replicate 1000 1)]"
      and f = "fragment_of demo_frag_env (replicate 4000 1) (0, replicate 3000 1)" and carrier = "''alice''"
      and fs = "map (fragment_of demo_frag_env (replicate 4000 1)) (pieces (replicate 4000 1))"]
  by (simp add: split_bytes_pieces demo_pieces MAX_PAGE_def make_room_def fragment_of_def insert_commute)

section \<open>Bounds\<close>

definition page_wf :: "partial_page \<Rightarrow> bool" where
  "page_wf p \<longleftrightarrow> bt_wf (pp_chunks p) \<and> pp_total p \<le> MAX_PAGE \<and>
     (\<forall>(at, c) \<in> set (pp_chunks p). at mod CHUNK = 0 \<and> at + length c \<le> pp_total p \<and> length c \<le> CHUNK)"

definition buffer_wf :: "fragment_buffer \<Rightarrow> bool" where
  "buffer_wf pages \<longleftrightarrow> bt_wf pages \<and> length pages \<le> 16 \<and> (\<forall>p \<in> set (bt_values pages). page_wf p)"

text \<open>Pieces at distinct multiples of \<open>CHUNK\<close> that fit below \<open>t\<close> hold at most \<open>t\<close> bytes together.\<close>

lemma multiples_apart: "a < b \<Longrightarrow> a mod n = 0 \<Longrightarrow> b mod n = 0 \<Longrightarrow> a + n \<le> (b :: nat)"
  by (metis dvd_imp_mod_0 mod_0_imp_dvd dvd_diff_nat dvd_imp_le le_add_diff_inverse less_imp_le_nat
      nat_add_left_cancel_le zero_less_diff)

lemma aligned_pieces_fit:
  fixes m :: "(nat, bytes) btree_map"
  assumes "bt_wf m" and "\<forall>(at, c) \<in> set m. at mod n = 0 \<and> at + length c \<le> t \<and> length c \<le> n \<and> low \<le> at"
    and "low \<le> t"
  shows "low + sum_list (map length (bt_values m)) \<le> t"
  using assms
proof (induction m arbitrary: low)
  case Nil
  then show ?case by (simp add: bt_values_def)
next
  case (Cons e m)
  obtain at c where e: "e = (at, c)" by fastforce
  have "(at + length c) + sum_list (map length (bt_values m)) \<le> t"
  proof (rule Cons.IH)
    show "bt_wf m" and "at + length c \<le> t"
      using Cons.prems by (auto simp: e bt_wf_Cons)
    show "\<forall>(a, d) \<in> set m. a mod n = 0 \<and> a + length d \<le> t \<and> length d \<le> n \<and> at + length c \<le> a"
    proof clarsimp
      fix a d
      assume a: "(a, d) \<in> set m"
      then have "at < a" using Cons.prems(1) by (force simp: e bt_wf_Cons)
      then have "at + n \<le> a"
        using Cons.prems(2) a by (intro multiples_apart) (auto simp: e)
      then show "a mod n = 0 \<and> a + length d \<le> t \<and> length d \<le> n \<and> at + length c \<le> a"
        using Cons.prems(2) a by (fastforce simp: e)
    qed
  qed
  then show ?case
    using Cons.prems(2) by (simp add: e bt_values_def)
qed

lemma page_wf_received: "page_wf p \<Longrightarrow> received_bytes p \<le> pp_total p"
  using aligned_pieces_fit [of "pp_chunks p" CHUNK "pp_total p" 0]
  by (auto simp: page_wf_def received_bytes_def)

lemma set_bt_insert_values:
  "set (bt_values (bt_insert k v m)) \<subseteq> Set.insert v (set (bt_values m))"
  by (induction m) (auto simp: bt_values_def)

lemma set_bt_insert: "set (bt_insert k v m) \<subseteq> Set.insert (k, v) (set m)"
  by (induction m) auto

lemma length_insert_make_room:
  assumes "bt_wf pages" and "length pages \<le> 16"
  shows "length (bt_insert key p (make_room key pages)) \<le> 16"
proof (cases "bt_contains pages key")
  case True
  with assms show ?thesis by (simp add: make_room_def length_bt_insert_present)
next
  case False
  have "length (bt_insert key p (make_room key pages)) \<le> Suc (length (make_room key pages))"
    by (rule length_bt_insert)
  also have "\<dots> \<le> 16" using False assms(2) by (auto simp: make_room_def)
  finally show ?thesis .
qed

lemma buffer_wf_enter:
  assumes "buffer_wf pages" and "page_wf p"
  shows "buffer_wf (bt_insert key p (make_room key pages))"
proof -
  have "set (bt_values (make_room key pages)) \<subseteq> set (bt_values pages)"
    by (auto simp: make_room_def bt_values_def dest: in_set_dropD)
  then show ?thesis
    using assms set_bt_insert_values [of key p "make_room key pages"]
    by (auto simp: buffer_wf_def length_insert_make_room intro!: wf_intros)
qed

lemma buffer_wf_remove: "buffer_wf pages \<Longrightarrow> buffer_wf (bt_remove key pages)"
  by (auto simp: buffer_wf_def bt_values_def bt_remove_def intro: bt_wf_filter le_trans [OF length_filter_le])

lemma validate_fragment_Ok_iff:
  "validate_fragment f b = Ok u \<longleftrightarrow>
     0 < pf_total f \<and> pf_total f \<le> MAX_PAGE \<and> pf_offset f < pf_total f \<and> pf_offset f mod CHUNK = 0 \<and>
     length b = min CHUNK (pf_total f - pf_offset f) \<and> length (pf_digest f) = 64"
  by (auto simp: validate_fragment_def)

lemma page_wf_insert:
  assumes "validate_fragment f b = Ok u" and "page_wf p" and "\<not> conflicts f b p"
  shows "page_wf (p\<lparr>pp_chunks := bt_insert (pf_offset f) b (pp_chunks p)\<rparr>)"
  using assms set_bt_insert [of "pf_offset f" b "pp_chunks p"]
  by (fastforce simp: page_wf_def conflicts_def validate_fragment_Ok_iff intro: wf_intros)

lemma page_wf_page_for:
  assumes "validate_fragment f b = Ok u" and "buffer_wf pages"
  shows "page_wf (page_for f key (make_room key pages))"
proof (cases "bt_get (make_room key pages) key")
  case None
  with assms show ?thesis
    by (simp add: page_for_def page_wf_def validate_fragment_Ok_iff)
next
  case (Some p)
  then have "p \<in> set (bt_values pages)"
    by (force simp: bt_values_def make_room_def dest: bt_get_mem in_set_dropD split: if_splits)
  with Some assms show ?thesis
    by (simp add: page_for_def buffer_wf_def)
qed

lemma bt_wf_of_buffer: "buffer_wf pages \<Longrightarrow> bt_wf pages"
  by (simp add: buffer_wf_def)

lemma buffer_wf_add_fragment:
  assumes "buffer_wf pages"
  shows "buffer_wf (fst (add_fragment env carrier f pages))"
proof (cases "and_then (b64_decode env (pf_bytes_b64 f)) (\<lambda>b. and_then (validate_fragment f b) (\<lambda>_. Ok b))")
  case (Inl e)
  with assms show ?thesis by (simp add: add_fragment_def)
next
  case (Inr b)
  then have valid: "validate_fragment f b = Ok ()" by (auto simp: and_then_Ok_iff)
  note page = page_wf_page_for [OF valid assms, of "page_key carrier f"]
  note grown = page_wf_insert [OF valid page]
  have twice: "bt_insert k q (bt_insert k p (make_room k pages)) = bt_insert k q (make_room k pages)" for k p q
    using assms by (intro bt_insert_insert) (simp add: buffer_wf_def wf_intros)
  from Inr page grown assms show ?thesis
    by (simp add: add_fragment_def Let_def twice buffer_wf_enter buffer_wf_remove)
qed

lemma add_fragment_output:
  assumes "buffer_wf pages" and "snd (add_fragment env carrier f pages) = Ok (Some out)"
  shows "page_digest env out = pf_digest f \<and> length out = pf_total f"
  using assms
  by (auto simp: add_fragment_def Let_def received_bytes_def length_concat split: sum.splits if_splits)

definition fragment_run ::
    "'z frag_env_scheme \<Rightarrow> (string \<times> page_fragment) list \<Rightarrow> fragment_buffer \<Rightarrow> fragment_buffer" where
  "fragment_run env arrivals pages =
     foldl (\<lambda>pages (carrier, f). fst (add_fragment env carrier f pages)) pages arrivals"

interpretation fragment_events:
  event_machine "\<lambda>pages (carrier, f). fst (add_fragment env carrier f pages)" buffer_wf for env
  by unfold_locales (auto simp: buffer_wf_add_fragment)

lemma buffer_wf_fragment_run: "buffer_wf pages \<Longrightarrow> buffer_wf (fragment_run env arrivals pages)"
  unfolding fragment_run_def by (rule fragment_events.run_inv)

text \<open>
  Whatever fragments arrive from whatever carriers, the buffer never holds more than 16 partial
  pages of at most \<open>MAX_PAGE\<close> bytes each, and a page that the next fragment completes has the length
  and the digest that fragment announces.
\<close>

theorem fragment_buffer_bounded:
  "let pages = fragment_run env arrivals []
   in length pages \<le> 16 \<and> list_all (\<lambda>p. received_bytes p \<le> MAX_PAGE) (bt_values pages) \<and>
      (case snd (add_fragment env carrier f pages) of
         Inr (Some out) \<Rightarrow> page_digest env out = pf_digest f \<and> length out = pf_total f
       | _ \<Rightarrow> True)"
proof -
  let ?pages = "fragment_run env arrivals []"
  have wf: "buffer_wf ?pages"
    by (rule buffer_wf_fragment_run) (simp add: buffer_wf_def bt_values_def)
  have "received_bytes p \<le> MAX_PAGE" if "p \<in> set (bt_values ?pages)" for p
    using page_wf_received [of p] wf that by (force simp: buffer_wf_def page_wf_def)
  with wf show ?thesis
    using add_fragment_output [OF wf, of env carrier f]
    by (auto simp: buffer_wf_def list_all_iff Let_def split: sum.split option.split)
qed

end
