(* ===== verification/Deletion_Protocol.thy ===== *)
theory Deletion_Protocol
  imports Message_Log Account_Ownership Fragment_Buffer
begin

text \<open>
  Signed deletions of messages: proofs of origin (\<open>message_deletion/origin.rs\<close>), requests and
  receipts (\<open>protocol.rs\<close>), the records a conversation keeps of them (\<open>book.rs\<close>), who may delete
  and acknowledge (\<open>authority.rs\<close>), and the canonical form and exchange pages of records
  (\<open>shared.rs\<close>).

  JSON encodings are parameters (\<open>deletion_env\<close>) beside those of account proofs. \<open>BTreeSet\<close>s of keys
  are sets. The \<open>OnceCell\<close> of a snapshot's authority only memoises a pure test.

  Shown here: merging two copies of a shared record is a join of their outcomes, so that replicas
  which have seen the same copies agree, whatever the order; a record that passes validation was
  requested by the author's account or by an administrator, or is endorsed; following the pages of a
  book yields every record that may be shared exactly once.
\<close>

section \<open>Proof of origin\<close>

record delete_request =
  dq_operation :: string
  dq_target :: message_origin
  dq_actor :: string
  dq_actor_name :: string
  dq_moderated :: bool
  dq_epoch :: u64
  dq_signature :: string
  dq_ownership :: "string option"

record delete_ack =
  da_request_digest :: string
  da_actor :: string
  da_signature :: string
  da_ownership :: "string option"

record deletion_record =
  dr_context :: string
  dr_key :: string
  dr_personal_correlation :: "string option"
  dr_scope :: delete_scope
  dr_owner :: string
  dr_local_only :: bool
  dr_status :: deletion_status
  dr_administrator :: "string option"
  dr_request :: "delete_request option"
  dr_acknowledgement :: "delete_ack option"

record ('vk, 'sg, 'sk) deletion_env = "('vk, 'sg, 'sk) account_env" +
  origin_json :: "string \<times> string \<times> string \<times> string \<times> string option \<Rightarrow> bytes option"
  request_json :: "string \<times> message_origin \<times> string \<times> string \<times> bool \<times> u64 \<times> string option \<Rightarrow> bytes option"
  ack_json :: "string \<times> string \<times> string option \<Rightarrow> bytes option"
  record_json :: "deletion_record \<Rightarrow> bytes option"
  records_json :: "deletion_record list \<Rightarrow> bytes option"

abbreviation env_sigs :: "('vk, 'sg, 'sk, 'z) account_env_scheme \<Rightarrow> ('vk, 'sg) sig_env" where
  "env_sigs env \<equiv> sigs (arost env)"

definition hex_digest :: "('vk, 'sg, 'sk, 'z) account_env_scheme \<Rightarrow> bytes \<Rightarrow> string" where
  "hex_digest env b = hex_encode (env_sigs env) (sha256 (env_sigs env) b)"

definition verify_signature ::
    "('vk, 'sg, 'sk, 'z) account_env_scheme \<Rightarrow> string \<Rightarrow> string \<Rightarrow> bytes \<Rightarrow> (string, unit) result" where
  "verify_signature env key signature input =
     ensure (hex_signature_ok (env_sigs env) key signature input) ''signature error''"

definition transcript :: "string \<Rightarrow> bytes option \<Rightarrow> (string, bytes) result" where
  "transcript context json = and_then (ok_or json ''json'') (\<lambda>j. Ok (utf8_bytes context @ [0] @ j))"

definition origin_input ::
    "('vk, 'sg, 'sk, 'z) deletion_env_scheme \<Rightarrow> message_origin \<Rightarrow> (string, bytes) result" where
  "origin_input env m =
     transcript ''mosh-message-origin-v1''
       (origin_json env (or_conversation m, or_id m, or_content_hash m, or_author m, or_ownership m))"

definition origin_key ::
    "('vk, 'sg, 'sk, 'z) deletion_env_scheme \<Rightarrow> message_origin \<Rightarrow> (string, string) result" where
  "origin_key env m = and_then (origin_input env m) (\<lambda>b. Ok (hex_digest env b))"

definition origin_verify_signature ::
    "('vk, 'sg, 'sk, 'z) deletion_env_scheme \<Rightarrow> message_origin \<Rightarrow> (string, unit) result" where
  "origin_verify_signature env m =
     and_then
       (case or_ownership m of
          None \<Rightarrow> Ok ()
        | Some p \<Rightarrow> and_then (ownership_verify env p (or_author m)) (\<lambda>_. Ok ()))
       (\<lambda>_.
         if or_conversation m = [] \<or> 512 < length (or_conversation m) \<or> or_id m = [] \<or>
            256 < length (or_id m) \<or> length (or_content_hash m) \<noteq> 64
         then Err ''invalid message origin''
         else and_then (origin_input env m) (verify_signature env (or_author m) (or_signature m)))"

definition origin_verify ::
    "('vk, 'sg, 'sk, 'z) deletion_env_scheme \<Rightarrow> message_origin \<Rightarrow> string \<Rightarrow> string \<Rightarrow> bytes \<Rightarrow>
     (string, unit) result" where
  "origin_verify env m conversation i content =
     (if or_conversation m \<noteq> conversation \<or> or_id m \<noteq> i \<or> or_content_hash m \<noteq> hex_digest env content
      then Err ''message origin mismatch'' else origin_verify_signature env m)"

definition origin_verify_from_signer ::
    "('vk, 'sg, 'sk, 'z) deletion_env_scheme \<Rightarrow> message_origin \<Rightarrow> string \<Rightarrow> string \<Rightarrow> bytes \<Rightarrow> bytes \<Rightarrow>
     (string, unit) result" where
  "origin_verify_from_signer env m conversation i content signer =
     and_then (origin_verify env m conversation i content) (\<lambda>_.
       ensure (or_author m = hex_encode (env_sigs env) signer) ''message origin signer mismatch'')"

definition origin_unsigned ::
    "('vk, 'sg, 'sk, 'z) deletion_env_scheme \<Rightarrow> string \<Rightarrow> string \<Rightarrow> bytes \<Rightarrow> bytes \<Rightarrow> message_origin" where
  "origin_unsigned env conversation i content key =
     \<lparr>or_conversation = conversation, or_id = i, or_content_hash = hex_digest env content,
      or_author = hex_encode (env_sigs env) key, or_signature = [], or_ownership = None\<rparr>"

text \<open>
  \<open>sign\<close> and \<open>sign_mls\<close> differ in the key and the signing function only; the error text of a failed
  ownership proof is not modelled.
\<close>

definition origin_sign ::
    "('vk, 'sg, 'sk, 'z) deletion_env_scheme \<Rightarrow> (device_link_error_kind, 'sk account_identity) result option \<Rightarrow>
     string \<Rightarrow> string \<Rightarrow> bytes \<Rightarrow> bytes \<Rightarrow> (bytes \<Rightarrow> (string, bytes) result) \<Rightarrow> (string, message_origin) result" where
  "origin_sign env opened conversation i content key sign =
     (let m = origin_unsigned env conversation i content key
      in and_then (map_err (\<lambda>_. ''ownership'') (ownership_create env opened (or_author m))) (\<lambda>ownership.
           (let m1 = m\<lparr>or_ownership := ownership\<rparr>
            in and_then (origin_input env m1) (\<lambda>input.
               and_then (sign input) (\<lambda>sig.
                 Ok (m1\<lparr>or_signature := hex_encode (env_sigs env) sig\<rparr>))))))"

section \<open>Requests, receipts, messages\<close>

definition request_input ::
    "('vk, 'sg, 'sk, 'z) deletion_env_scheme \<Rightarrow> delete_request \<Rightarrow> (string, bytes) result" where
  "request_input env q =
     transcript ''mosh-delete-request-v1''
       (request_json env (dq_operation q, dq_target q, dq_actor q, dq_actor_name q, dq_moderated q,
          dq_epoch q, dq_ownership q))"

definition request_verify ::
    "('vk, 'sg, 'sk, 'z) deletion_env_scheme \<Rightarrow> delete_request \<Rightarrow> string \<Rightarrow> (string, unit) result" where
  "request_verify env q context =
     and_then (ok_or (dq_ownership q) ''deletion account is not verified'') (\<lambda>p.
     and_then (ownership_verify env p (dq_actor q)) (\<lambda>_.
       if or_conversation (dq_target q) \<noteq> context \<or> length (dq_operation q) \<noteq> 39 \<or>
          64 < char_count (dq_actor_name q) \<or> has_control (dq_actor_name q)
       then Err ''invalid deletion request''
       else
         and_then (origin_verify_signature env (dq_target q)) (\<lambda>_.
         and_then (request_input env q) (verify_signature env (dq_actor q) (dq_signature q)))))"

definition request_digest ::
    "('vk, 'sg, 'sk, 'z) deletion_env_scheme \<Rightarrow> delete_request \<Rightarrow> (string, string) result" where
  "request_digest env q = and_then (request_input env q) (\<lambda>b. Ok (hex_digest env b))"

definition ack_input ::
    "('vk, 'sg, 'sk, 'z) deletion_env_scheme \<Rightarrow> delete_ack \<Rightarrow> (string, bytes) result" where
  "ack_input env a =
     transcript ''mosh-delete-saved-v1'' (ack_json env (da_request_digest a, da_actor a, da_ownership a))"

definition ack_verify ::
    "('vk, 'sg, 'sk, 'z) deletion_env_scheme \<Rightarrow> delete_ack \<Rightarrow> delete_request \<Rightarrow> (string, unit) result" where
  "ack_verify env a q =
     and_then (ok_or (da_ownership a) ''recipient account is not verified'') (\<lambda>p.
     and_then (ownership_verify env p (da_actor a)) (\<lambda>_.
     and_then (request_digest env q) (\<lambda>digest.
       if da_request_digest a \<noteq> digest \<or> da_actor a = dq_actor q
       then Err ''invalid deletion acknowledgement''
       else if proofs_same_account env (da_actor a) (da_ownership a) (dq_actor q) (dq_ownership q)
       then Err ''deletion receipt must be from another account''
       else and_then (ack_input env a) (verify_signature env (da_actor a) (da_signature a)))))"

section \<open>Records\<close>

definition visible_to_account :: "deletion_record \<Rightarrow> string \<Rightarrow> bool" where
  "visible_to_account r user \<longleftrightarrow>
     dr_scope r = ForMe \<and> dr_owner r = user \<and> \<not> dr_local_only r \<or>
     dr_scope r = ForEveryone \<and> dr_status r \<noteq> DeletionRejected"

definition merged :: "deletion_record \<Rightarrow> deletion_record \<Rightarrow> deletion_record" where
  "merged r incoming =
     (if dr_scope r = ForMe \<and> dr_personal_correlation r = None \<and> dr_personal_correlation incoming \<noteq> None
      then incoming
      else if dr_status r = DeletionConfirmed \<and> dr_status incoming \<noteq> DeletionConfirmed then r
      else if dr_status r = DeletionConfirmed \<and>
          map_option da_actor (dr_acknowledgement r) \<le> map_option da_actor (dr_acknowledgement incoming)
      then r
      else if dr_status r = DeletionRejected \<and> dr_status incoming = DeletionPending then r
      else incoming)"

definition storage_key :: "deletion_record \<Rightarrow> string" where
  "storage_key r =
     dr_context r @ [CHR 0x01] @ dr_owner r @ [CHR 0x01] @
     (if dr_scope r = ForMe then ''personal'' else ''shared'') @ [CHR 0x01] @ dr_key r @ '':'' @
     (case dr_request r of None \<Rightarrow> [] | Some q \<Rightarrow> dq_operation q)"

definition matches :: "deletion_record \<Rightarrow> string \<Rightarrow> string option \<Rightarrow> bool" where
  "matches r target correlation \<longleftrightarrow>
     dr_key r = target \<or>
     dr_scope r = ForMe \<and>
       (dr_personal_correlation r = Some target \<or>
        (case correlation of None \<Rightarrow> False
         | Some key \<Rightarrow> dr_key r = key \<or> dr_personal_correlation r = Some key))"

definition record_marker :: "deletion_record \<Rightarrow> deletion_marker" where
  "record_marker r =
     \<lparr>dm_scope = (if dr_status r = DeletionRejected then ForMe else dr_scope r), dm_status = dr_status r,
      dm_administrator = dr_administrator r\<rparr>"

definition canonical ::
    "('vk, 'sg, 'sk, 'z) deletion_env_scheme \<Rightarrow> delete_request \<Rightarrow> deletion_status \<Rightarrow> delete_ack option \<Rightarrow>
     (string, deletion_record) result" where
  "canonical env q status ack =
     and_then (origin_key env (dq_target q)) (\<lambda>key.
       Ok \<lparr>dr_context = or_conversation (dq_target q), dr_key = key, dr_personal_correlation = None,
           dr_scope = ForEveryone, dr_owner = [], dr_local_only = False, dr_status = status,
           dr_administrator = (if dq_moderated q then Some (dq_actor_name q) else None),
           dr_request = Some q, dr_acknowledgement = ack\<rparr>)"

definition verify_record ::
    "('vk, 'sg, 'sk, 'z) deletion_env_scheme \<Rightarrow> deletion_record \<Rightarrow> string \<Rightarrow> (string, delete_request) result" where
  "verify_record env r context =
     and_then (ok_or (dr_request r) ''deletion request missing'') (\<lambda>q.
     and_then (request_verify env q context) (\<lambda>_.
       if (dr_status r = DeletionConfirmed) \<noteq> (dr_acknowledgement r \<noteq> None)
       then Err ''deletion acknowledgement status mismatch''
       else
         and_then (canonical env q (dr_status r) (dr_acknowledgement r)) (\<lambda>c.
           if r \<noteq> c then Err ''deletion record mismatch''
           else
             and_then
               (if dr_status r = DeletionConfirmed then
                  and_then (ok_or (dr_acknowledgement r) ''unconfirmed deletion'') (\<lambda>a. ack_verify env a q)
                else Ok ())
               (\<lambda>_. if dr_status r = DeletionRejected then Err ''rejected deletion cannot be forwarded''
                     else Ok q))))"

section \<open>Authority\<close>

record deletion_actor =
  act_key :: string
  act_name :: string
  act_epoch :: u64
  act_ownership :: "string option"

record deletion_authority =
  ay_local :: deletion_actor
  ay_members :: "string set"
  ay_admins :: "string set"
  ay_accepted :: "string set"
  ay_accounts :: "(string, string) btree_map"
  ay_own :: own_accounts
  ay_public_channel :: bool

definition ay_member :: "deletion_authority \<Rightarrow> string \<Rightarrow> bool" where
  "ay_member y key \<longleftrightarrow> key \<notin> oa_revoked (ay_own y) \<and> (ay_public_channel y \<or> key \<in> ay_members y)"

definition member_with_proof ::
    "('vk, 'sg, 'sk, 'z) account_env_scheme \<Rightarrow> deletion_authority \<Rightarrow> string \<Rightarrow> string option \<Rightarrow> bool" where
  "member_with_proof env y key proof_text \<longleftrightarrow>
     ay_member y key \<and> \<not> is_revoked env (ay_own y) key proof_text"

definition ay_same_account :: "deletion_authority \<Rightarrow> string \<Rightarrow> string \<Rightarrow> bool" where
  "ay_same_account y left right \<longleftrightarrow>
     left = right \<or>
     (case bt_get (ay_accounts y) left of
        None \<Rightarrow> False | Some a \<Rightarrow> bt_get (ay_accounts y) right = Some a)"

definition is_author ::
    "('vk, 'sg, 'sk, 'z) account_env_scheme \<Rightarrow> deletion_authority \<Rightarrow> message_origin \<Rightarrow> bool" where
  "is_author env y m \<longleftrightarrow>
     ay_same_account y (act_key (ay_local y)) (or_author m) \<or>
     proofs_same_account env (act_key (ay_local y)) (act_ownership (ay_local y)) (or_author m) (or_ownership m)"

definition permitted ::
    "('vk, 'sg, 'sk, 'z) account_env_scheme \<Rightarrow> deletion_authority \<Rightarrow> message_origin \<Rightarrow> bool option" where
  "permitted env y m =
     (if \<not> (member_with_proof env y (act_key (ay_local y)) (act_ownership (ay_local y)) \<and>
             act_ownership (ay_local y) \<noteq> None)
      then None
      else if is_author env y m then Some False
      else if act_key (ay_local y) \<in> ay_admins y then Some True else None)"

definition other_account ::
    "('vk, 'sg, 'sk, 'z) account_env_scheme \<Rightarrow> deletion_authority \<Rightarrow> delete_request \<Rightarrow> string \<Rightarrow> string option \<Rightarrow> bool" where
  "other_account env y q key proof_text \<longleftrightarrow>
     dq_ownership q \<noteq> None \<and> proof_text \<noteq> None \<and> \<not> ay_same_account y key (dq_actor q) \<and>
     \<not> own_same_account env (ay_own y) key proof_text (dq_actor q) (dq_ownership q) \<and>
     \<not> proofs_same_account env key proof_text (dq_actor q) (dq_ownership q)"

definition may_ack_with_proof ::
    "('vk, 'sg, 'sk, 'z) account_env_scheme \<Rightarrow> deletion_authority \<Rightarrow> delete_request \<Rightarrow> string \<Rightarrow> string option \<Rightarrow> bool" where
  "may_ack_with_proof env y q key proof_text \<longleftrightarrow>
     member_with_proof env y key proof_text \<and> other_account env y q key proof_text"

definition may_ack ::
    "('vk, 'sg, 'sk, 'z) account_env_scheme \<Rightarrow> deletion_authority \<Rightarrow> delete_request \<Rightarrow> string \<Rightarrow> bool" where
  "may_ack env y q key \<longleftrightarrow>
     may_ack_with_proof env y q key (if key = act_key (ay_local y) then act_ownership (ay_local y) else None)"

text \<open>
  An administrator stands behind a confirmed record when one carries it or acknowledged it.
\<close>

definition endorsed ::
    "('vk, 'sg, 'sk, 'z) account_env_scheme \<Rightarrow> deletion_authority \<Rightarrow> deletion_record \<Rightarrow> delete_request \<Rightarrow> string \<Rightarrow> bool" where
  "endorsed env y r q carrier \<longleftrightarrow>
     dr_status r = DeletionConfirmed \<and>
     (carrier \<in> ay_admins y \<or>
      (case dr_acknowledgement r of
         None \<Rightarrow> False
       | Some a \<Rightarrow> da_actor a \<in> ay_admins y \<and> may_ack_with_proof env y q (da_actor a) (da_ownership a)))"

definition may_delete ::
    "('vk, 'sg, 'sk, 'z) account_env_scheme \<Rightarrow> deletion_authority \<Rightarrow> delete_request \<Rightarrow> bool \<Rightarrow> bool" where
  "may_delete env y q endorsement \<longleftrightarrow>
     (if dq_moderated q then dq_actor q \<in> ay_admins y \<or> endorsement
      else
        ay_same_account y (dq_actor q) (or_author (dq_target q)) \<or>
        proofs_same_account env (dq_actor q) (dq_ownership q) (or_author (dq_target q)) (or_ownership (dq_target q)))"

definition validate_record ::
    "('vk, 'sg, 'sk, 'z) deletion_env_scheme \<Rightarrow> deletion_authority \<Rightarrow> deletion_record \<Rightarrow> string \<Rightarrow>
     (string, unit) result" where
  "validate_record env y r carrier =
     (if \<not> ay_member y carrier then Err ''deletion carrier is not a member''
      else
        and_then (ok_or (dr_request r) ''missing deletion request'') (\<lambda>q.
        and_then (if dr_status r = DeletionConfirmed
                  then and_then (request_digest env q) (\<lambda>d. Ok (d \<in> ay_accepted y)) else Ok False) (\<lambda>known.
          if known then Ok ()
          else
            (let endorsement = endorsed env y r q carrier
             in if act_epoch (ay_local y) < dq_epoch q \<or>
                   \<not> member_with_proof env y (dq_actor q) (dq_ownership q) \<and> \<not> endorsement
                then Err ''deletion author left or epoch is ahead''
                else if \<not> may_delete env y q endorsement then Err ''deletion permission denied''
                else
                  (case dr_acknowledgement r of
                     None \<Rightarrow> Ok ()
                   | Some a \<Rightarrow>
                       if \<not> other_account env y q (da_actor a) (da_ownership a) \<or>
                          \<not> member_with_proof env y (da_actor a) (da_ownership a) \<and> \<not> endorsement
                       then Err ''ineligible deletion acknowledgement'' else Ok ())))))"

section \<open>Exchange pages\<close>

datatype deletion_message =
    DFragment page_fragment
  | DRequest "string option" "string option"
  | DState "deletion_record list" "string option"
  | DAck string delete_ack

type_synonym deletion_records = "(string, deletion_record) btree_map"

definition shareable ::
    "('vk, 'sg, 'sk, 'z) deletion_env_scheme \<Rightarrow> deletion_authority \<Rightarrow> deletion_record \<Rightarrow> bool" where
  "shareable env y r \<longleftrightarrow>
     dr_scope r = ForEveryone \<and> dr_status r \<noteq> DeletionRejected \<and>
     is_ok (validate_record env y r (act_key (ay_local y)))"

definition encoded_length :: "('vk, 'sg, 'sk, 'z) deletion_env_scheme \<Rightarrow> deletion_record \<Rightarrow> nat" where
  "encoded_length env r = (case record_json env r of None \<Rightarrow> 60000 | Some b \<Rightarrow> length b)"

fun fill_page ::
    "('vk, 'sg, 'sk, 'z) deletion_env_scheme \<Rightarrow> deletion_record list \<Rightarrow> nat \<Rightarrow> deletion_record list \<Rightarrow>
     deletion_record list \<times> string option" where
  "fill_page env records used [] = (records, None)"
| "fill_page env records used (r # rs) =
     (if records \<noteq> [] \<and> (length records = 16 \<or> 24000 < used + encoded_length env r)
      then (records, Some (storage_key (last records)))
      else fill_page env (records @ [r]) (used + encoded_length env r) rs)"

definition share_after ::
    "('vk, 'sg, 'sk, 'z) deletion_env_scheme \<Rightarrow> deletion_authority \<Rightarrow> string option \<Rightarrow> deletion_records \<Rightarrow>
     deletion_records" where
  "share_after env y after records =
     filter (\<lambda>(key, r). shareable env y r \<and> (case after of None \<Rightarrow> True | Some a \<Rightarrow> a < key)) records"

definition deletion_page ::
    "('vk, 'sg, 'sk, 'z) deletion_env_scheme \<Rightarrow> deletion_authority \<Rightarrow> deletion_records \<Rightarrow> string option \<Rightarrow>
     deletion_message" where
  "deletion_page env y records after =
     (let (rs, nxt) = fill_page env [] 0 (map snd (share_after env y after records)) in DState rs nxt)"

definition shared_digest ::
    "('vk, 'sg, 'sk, 'z) deletion_env_scheme \<Rightarrow> deletion_authority \<Rightarrow> deletion_records \<Rightarrow> (string, string) result" where
  "shared_digest env y records =
     and_then (ok_or (records_json env (filter (shareable env y) (bt_values records))) ''json'') (\<lambda>b.
       Ok (hex_digest env b))"

text \<open>
  What a peer that answers every page with a request for the one after its cursor collects, in at
  most \<open>n\<close> pages.
\<close>

fun collect_pages ::
    "nat \<Rightarrow> ('vk, 'sg, 'sk, 'z) deletion_env_scheme \<Rightarrow> deletion_authority \<Rightarrow> deletion_records \<Rightarrow> string option \<Rightarrow>
     deletion_record list list option" where
  "collect_pages 0 env y records after = None"
| "collect_pages (Suc n) env y records after =
     (case deletion_page env y records after of
        DState rs None \<Rightarrow> Some [rs]
      | DState rs (Some key) \<Rightarrow> map_option (\<lambda>pages. rs # pages) (collect_pages n env y records (Some key))
      | _ \<Rightarrow> None)"

definition book_keys_wf :: "deletion_records \<Rightarrow> bool" where
  "book_keys_wf records \<longleftrightarrow> bt_wf records \<and> (\<forall>(key, r) \<in> set records. key = storage_key r)"

lemma fill_page_split:
  "fill_page env records used xs = (rs, nxt) \<Longrightarrow> length records \<le> 16 \<Longrightarrow>
   \<exists>ys zs. xs = ys @ zs \<and> rs = records @ ys \<and> length rs \<le> 16 \<and> (records = [] \<longrightarrow> xs \<noteq> [] \<longrightarrow> ys \<noteq> []) \<and>
     (nxt = None \<and> zs = [] \<or> nxt = Some (storage_key (last rs)) \<and> rs \<noteq> [] \<and> zs \<noteq> [])"
proof (induction env records used xs rule: fill_page.induct)
  case (1 env records used)
  then show ?case by auto
next
  case (2 env records used r xs)
  show ?case
  proof (cases "records \<noteq> [] \<and> (length records = 16 \<or> 24000 < used + encoded_length env r)")
    case True
    with 2(2,3) show ?thesis by (intro exI [of _ "[]"] exI [of _ "r # xs"]) auto
  next
    case False
    with 2(3) have "length (records @ [r]) \<le> 16" by auto
    moreover have "fill_page env (records @ [r]) (used + encoded_length env r) xs = (rs, nxt)"
      using 2(2) False by (simp only: fill_page.simps if_False)
    ultimately obtain ys zs where "xs = ys @ zs \<and> rs = (records @ [r]) @ ys \<and> length rs \<le> 16 \<and>
        (nxt = None \<and> zs = [] \<or> nxt = Some (storage_key (last rs)) \<and> rs \<noteq> [] \<and> zs \<noteq> [])"
      using 2(1) [OF False] by blast
    then show ?thesis by (intro exI [of _ "r # ys"] exI [of _ zs]) auto
  qed
qed

lemma book_keys_wf_share_after: "book_keys_wf records \<Longrightarrow> book_keys_wf (share_after env y after records)"
  by (auto simp: book_keys_wf_def share_after_def bt_wf_filter)

lemma share_after_drop:
  assumes "book_keys_wf records" and "share_after env y after records = ys @ zs" and "ys \<noteq> []"
  shows "share_after env y (Some (fst (last ys))) records = zs"
proof -
  have wf: "bt_wf (ys @ zs)"
    using book_keys_wf_share_after [OF assms(1), of env y after] assms(2) by (simp add: book_keys_wf_def)
  have "last ys \<in> set (share_after env y after records)" using assms(2,3) by simp
  then have last: "case after of None \<Rightarrow> True | Some a \<Rightarrow> a < fst (last ys)"
    by (simp add: share_after_def case_prod_unfold)
  have "share_after env y (Some (fst (last ys))) records =
      filter (\<lambda>e. fst (last ys) < fst e) (share_after env y after records)"
    using last by (auto simp: share_after_def intro!: filter_cong split: option.splits intro: less_trans)
  also have "\<dots> = filter (\<lambda>e. fst (last ys) < fst e) ys @ filter (\<lambda>e. fst (last ys) < fst e) zs"
    using assms(2) by simp
  also have "filter (\<lambda>e. fst (last ys) < fst e) ys = []"
    using wf assms(3) by (cases ys rule: rev_cases) (fastforce simp: bt_wf_def sorted_wrt_append filter_empty_conv)+
  also have "filter (\<lambda>e. fst (last ys) < fst e) zs = zs"
    using wf assms(3) by (auto simp: bt_wf_def sorted_wrt_append filter_id_conv)
  finally show ?thesis by simp
qed

lemma collect_pages_complete:
  assumes "book_keys_wf records"
  shows "length (share_after env y after records) < n \<Longrightarrow>
    \<exists>pages. collect_pages n env y records after = Some pages \<and>
      concat pages = map snd (share_after env y after records) \<and> (\<forall>p \<in> set pages. length p \<le> 16)"
proof (induction n arbitrary: after)
  case 0
  then show ?case by simp
next
  case (Suc n)
  let ?xs = "share_after env y after records"
  obtain rs nxt where page: "fill_page env [] 0 (map snd ?xs) = (rs, nxt)" by fastforce
  then obtain us vs where split: "map snd ?xs = us @ vs" "rs = us" "length rs \<le> 16"
    and nxt: "nxt = None \<and> vs = [] \<or> nxt = Some (storage_key (last rs)) \<and> rs \<noteq> [] \<and> vs \<noteq> []"
    using fill_page_split [OF page] by auto
  then obtain ys zs where xs: "?xs = ys @ zs" "us = map snd ys" "vs = map snd zs"
    by (auto simp: map_eq_append_conv)
  from nxt show ?case
  proof (elim disjE conjE)
    assume "nxt = None" and "vs = []"
    with page split xs show ?thesis by (simp add: deletion_page_def)
  next
    assume *: "nxt = Some (storage_key (last rs))" "rs \<noteq> []" "vs \<noteq> []"
    then have ys: "ys \<noteq> []" using split xs by simp
    then have "last ys \<in> set ?xs" using xs by simp
    then have "storage_key (last rs) = fst (last ys)"
      using book_keys_wf_share_after [OF assms, of env y after] ys split xs
      by (force simp: book_keys_wf_def last_map case_prod_unfold)
    then have key: "nxt = Some (fst (last ys))" using * by simp
    have rest: "share_after env y (Some (fst (last ys))) records = zs"
      by (rule share_after_drop [OF assms xs(1) ys])
    have "length ?xs = length ys + length zs" using xs(1) by simp
    then have "length zs < n" using Suc.prems ys by (cases ys) auto
    then obtain pages where "collect_pages n env y records (Some (fst (last ys))) = Some pages"
      and "concat pages = map snd zs" and "\<forall>p \<in> set pages. length p \<le> 16"
      using Suc.IH [of "Some (fst (last ys))"] rest by auto
    with page key split xs show ?thesis by (simp add: deletion_page_def)
  qed
qed

text \<open>
  C39. The exchange of deletion pages ends and loses nothing: a peer that starts without a cursor and
  asks for the page after each cursor it is given gets, after at most one page more than there are
  records, every record that may be shared, each exactly once and in key order, in pages of at most
  16 records.
\<close>

theorem deletion_pages_complete:
  assumes "book_keys_wf records"
  shows "\<exists>pages. collect_pages (Suc (length records)) env y records None = Some pages \<and>
    concat pages = filter (shareable env y) (bt_values records) \<and> list_all (\<lambda>p. length p \<le> 16) pages"
proof -
  have "length (share_after env y None records) < Suc (length records)"
    by (simp add: share_after_def le_imp_less_Suc)
  moreover have "map snd (share_after env y None records) = filter (shareable env y) (bt_values records)"
    by (simp add: share_after_def bt_values_def filter_map o_def case_prod_unfold)
  ultimately show ?thesis
    using collect_pages_complete [OF assms, of env y None "Suc (length records)"] by (simp add: list_all_iff)
qed

section \<open>Merging copies of a record\<close>

text \<open>
  What the copies of one shared deletion agree on: whether it is still pending, was rejected here, or
  was confirmed, and by whose receipt. Of several receipts the least actor counts.
\<close>

datatype deletion_outcome = OPending | ORejected | OConfirmed "string option"

fun outcome_join :: "deletion_outcome \<Rightarrow> deletion_outcome \<Rightarrow> deletion_outcome" where
  "outcome_join (OConfirmed a) (OConfirmed b) = OConfirmed (min a b)"
| "outcome_join (OConfirmed a) _ = OConfirmed a"
| "outcome_join _ (OConfirmed b) = OConfirmed b"
| "outcome_join ORejected _ = ORejected"
| "outcome_join _ ORejected = ORejected"
| "outcome_join OPending OPending = OPending"

interpretation outcomes: semilattice outcome_join
proof
  show "outcome_join (outcome_join a b) c = outcome_join a (outcome_join b c)" for a b c
    by (cases a; cases b; cases c) (simp_all add: min.assoc)
  show "outcome_join a b = outcome_join b a" for a b
    by (cases a; cases b) (simp_all add: min.commute)
  show "outcome_join a a = a" for a
    by (cases a) simp_all
qed

definition outcome_of :: "deletion_record \<Rightarrow> deletion_outcome" where
  "outcome_of r =
     (case dr_status r of
        DeletionPending \<Rightarrow> OPending | DeletionRejected \<Rightarrow> ORejected
      | DeletionConfirmed \<Rightarrow> OConfirmed (map_option da_actor (dr_acknowledgement r)))"

lemma outcome_merged:
  "dr_scope r = ForEveryone \<Longrightarrow> outcome_of (merged r q) = outcome_join (outcome_of r) (outcome_of q)"
  by (cases "dr_status r"; cases "dr_status q") (auto simp: merged_def outcome_of_def min_def)

lemma merged_scope: "dr_scope q = dr_scope r \<Longrightarrow> dr_scope (merged r q) = dr_scope r"
  by (simp add: merged_def)

lemma outcome_merged_all:
  "dr_scope r = ForEveryone \<Longrightarrow> \<forall>q \<in> set qs. dr_scope q = ForEveryone \<Longrightarrow>
   outcome_of (foldl merged r qs) = foldl outcome_join (outcome_of r) (map outcome_of qs)"
  by (induction qs arbitrary: r) (auto simp: outcome_merged merged_scope)

interpretation outcomes: semilattice_set outcome_join ..

lemma foldl_join: "foldl outcome_join a xs = outcomes.F (insert a (set xs))"
proof (induction xs rule: rev_induct)
  case Nil
  then show ?case by simp
next
  case (snoc x xs)
  have "outcomes.F (insert a (set (xs @ [x]))) = outcomes.F (insert x (insert a (set xs)))"
    by (simp add: insert_commute)
  also have "\<dots> = outcome_join x (outcomes.F (insert a (set xs)))"
    by (rule outcomes.insert) simp_all
  finally show ?case using snoc.IH by (simp add: outcomes.commute)
qed

text \<open>The join, spelled out: a confirmation beats a rejection, which beats a pending copy.\<close>

lemma outcomes_join:
  assumes "finite S" and "S \<noteq> {}"
  shows "outcomes.F S = (if \<exists>a. OConfirmed a \<in> S then OConfirmed (Min {a. OConfirmed a \<in> S})
    else if ORejected \<in> S then ORejected else OPending)"
  using assms
proof (induction rule: finite_ne_induct)
  case (singleton x)
  then show ?case by (cases x) simp_all
next
  case (insert x S)
  have fin: "finite {a. OConfirmed a \<in> S}"
  proof (rule finite_imageD)
    show "finite (OConfirmed ` {a. OConfirmed a \<in> S})" using insert.hyps(1) by (rule finite_subset [rotated]) auto
  qed (simp add: inj_on_def)
  have join: "outcomes.F (insert x S) = outcome_join x (outcomes.F S)"
    using insert.hyps by (intro outcomes.insert)
  show ?case
  proof (cases x)
    case (OConfirmed b)
    have all: "{a. OConfirmed a \<in> insert x S} = insert b {a. OConfirmed a \<in> S}" using OConfirmed by auto
    show ?thesis
    proof (cases "\<exists>a. OConfirmed a \<in> S")
      case True
      then have "{a. OConfirmed a \<in> S} \<noteq> {}" by auto
      with True fin show ?thesis unfolding join all insert.IH by (auto simp: OConfirmed Min_insert)
    next
      case False
      then have "{a. OConfirmed a \<in> S} = {}" by auto
      with False show ?thesis unfolding join all insert.IH by (auto simp: OConfirmed)
    qed
  qed (use join in \<open>auto simp: insert.IH\<close>)
qed

lemma outcome_of_iff:
  "outcome_of r = OConfirmed a \<longleftrightarrow> dr_status r = DeletionConfirmed \<and> a = map_option da_actor (dr_acknowledgement r)"
  "outcome_of r = ORejected \<longleftrightarrow> dr_status r = DeletionRejected" "outcome_of r = OPending \<longleftrightarrow> dr_status r = DeletionPending"
  by (auto simp: outcome_of_def split: deletion_status.split)

text \<open>
  C25. Merging copies of a shared deletion gives the join of their outcomes, whatever the order and
  however often each is merged: confirmed if any copy is confirmed, and then by the receipt of the
  least actor among the confirmed copies; otherwise rejected if any copy is rejected; otherwise pending. So two
  replicas that merged the same copies agree.
\<close>

theorem deletion_merge_converges:
  assumes "\<forall>q \<in> insert r (set qs). dr_scope q = ForEveryone"
    and "insert r (set qs) = insert r' (set qs')"
  shows "outcome_of (foldl merged r qs) =
      (if \<exists>q \<in> insert r (set qs). dr_status q = DeletionConfirmed
       then OConfirmed (Min {map_option da_actor (dr_acknowledgement q) |q. q \<in> insert r (set qs) \<and> dr_status q = DeletionConfirmed})
       else if \<exists>q \<in> insert r (set qs). dr_status q = DeletionRejected then ORejected else OPending) \<and>
    outcome_of (foldl merged r' qs') = outcome_of (foldl merged r qs) \<and>
    (dr_status (foldl merged r qs) = DeletionConfirmed \<longleftrightarrow> (\<exists>q \<in> insert r (set qs). dr_status q = DeletionConfirmed))"
proof -
  let ?S = "outcome_of ` insert r (set qs)"
  have merged: "outcome_of (foldl merged r qs) = outcomes.F ?S"
    using assms(1) by (simp add: outcome_merged_all foldl_join)
  have agree: "outcome_of (foldl merged r' qs') = outcomes.F (outcome_of ` insert r' (set qs'))"
    using assms by (subst outcome_merged_all) (auto simp: foldl_join)
  have conf: "OConfirmed a \<in> ?S \<longleftrightarrow>
      (\<exists>q \<in> insert r (set qs). dr_status q = DeletionConfirmed \<and> a = map_option da_actor (dr_acknowledgement q))" for a
    unfolding image_iff by (metis outcome_of_iff(1))
  have rej: "ORejected \<in> ?S \<longleftrightarrow> (\<exists>q \<in> insert r (set qs). dr_status q = DeletionRejected)"
    unfolding image_iff by (metis outcome_of_iff(2))
  have set: "{a. OConfirmed a \<in> ?S} =
      {map_option da_actor (dr_acknowledgement q) |q. q \<in> insert r (set qs) \<and> dr_status q = DeletionConfirmed}"
    unfolding conf by auto
  have ex: "(\<exists>a. OConfirmed a \<in> ?S) \<longleftrightarrow> (\<exists>q \<in> insert r (set qs). dr_status q = DeletionConfirmed)"
    unfolding conf by auto
  have join: "outcome_of (foldl merged r qs) =
      (if \<exists>q \<in> insert r (set qs). dr_status q = DeletionConfirmed
       then OConfirmed (Min {map_option da_actor (dr_acknowledgement q) |q. q \<in> insert r (set qs) \<and> dr_status q = DeletionConfirmed})
       else if \<exists>q \<in> insert r (set qs). dr_status q = DeletionRejected then ORejected else OPending)"
    unfolding merged using outcomes_join [of ?S] unfolding set ex rej by simp
  moreover have "dr_status (foldl merged r qs) = DeletionConfirmed \<longleftrightarrow> (\<exists>q \<in> insert r (set qs). dr_status q = DeletionConfirmed)"
    using join outcome_of_iff(1) [of "foldl merged r qs"] by (auto split: if_splits)
  ultimately show ?thesis using agree merged assms(2) by simp
qed

section \<open>A concrete conversation\<close>

text \<open>
  The scheme of \<open>demo_account_env\<close> with constant JSON: user \<open>x\<close> wrote a message and asks to delete it.
\<close>

definition demo_deletion_env :: "(bytes, byte, bytes) deletion_env" where
  "demo_deletion_env = account_env.extend demo_account_env
     \<lparr>origin_json = (\<lambda>_. Some []), request_json = (\<lambda>_. Some []), ack_json = (\<lambda>_. Some []),
      record_json = (\<lambda>_. Some []), records_json = (\<lambda>_. Some [])\<rparr>"

abbreviation demo_sig :: "byte \<Rightarrow> string" where
  "demo_sig x \<equiv> map (\<lambda>b. char_of (unat b)) (replicate 64 x)"

definition demo_origin :: "byte \<Rightarrow> message_origin" where
  "demo_origin x =
     \<lparr>or_conversation = ''dm:c'', or_id = ''m1'', or_content_hash = replicate 64 CHR ''0'',
      or_author = demo_hex_key x, or_signature = demo_sig x, or_ownership = None\<rparr>"

definition demo_request :: "byte \<Rightarrow> delete_request" where
  "demo_request x =
     \<lparr>dq_operation = replicate 39 CHR ''o'', dq_target = demo_origin x, dq_actor = demo_hex_key x,
      dq_actor_name = ''Ann'', dq_moderated = False, dq_epoch = 0, dq_signature = demo_sig x,
      dq_ownership = Some [char_of (unat x)]\<rparr>"

definition demo_record :: "byte \<Rightarrow> deletion_status \<Rightarrow> delete_ack option \<Rightarrow> deletion_record" where
  "demo_record x status ack =
     \<lparr>dr_context = ''dm:c'', dr_key = map (\<lambda>b. char_of (unat b)) (utf8_bytes ''mosh-message-origin-v1'' @ [0]),
      dr_personal_correlation = None, dr_scope = ForEveryone, dr_owner = [], dr_local_only = False,
      dr_status = status, dr_administrator = None, dr_request = Some (demo_request x), dr_acknowledgement = ack\<rparr>"

definition demo_ack :: "byte \<Rightarrow> delete_ack" where
  "demo_ack x =
     \<lparr>da_request_digest = map (\<lambda>b. char_of (unat b)) (utf8_bytes ''mosh-delete-request-v1'' @ [0]),
      da_actor = demo_hex_key x, da_signature = demo_sig x, da_ownership = Some [char_of (unat x)]\<rparr>"

definition demo_authority :: "byte \<Rightarrow> deletion_authority" where
  "demo_authority x =
     \<lparr>ay_local = \<lparr>act_key = demo_hex_key x, act_name = ''Bob'', act_epoch = 0,
        act_ownership = Some [char_of (unat x)]\<rparr>,
      ay_members = {demo_hex_key 1, demo_hex_key 2}, ay_admins = {}, ay_accepted = {}, ay_accounts = [],
      ay_own = no_accounts, ay_public_channel = False\<rparr>"

lemma not_revoked_no_accounts [simp]: "\<not> is_revoked env no_accounts key p"
  by (auto simp: is_revoked_def no_accounts_def bt_contains_def Let_def list_ex_iff split: option.splits)

lemma demo_deletion_fields [simp]:
  "arost demo_deletion_env = demo_account_roster" "origin_json demo_deletion_env a = Some []"
  "request_json demo_deletion_env b = Some []" "ack_json demo_deletion_env c = Some []"
  "proof_from_json demo_deletion_env = proof_from_json demo_account_env"
  "ownership_json demo_deletion_env d = Some []" "record_json demo_deletion_env r = Some []"
  "records_json demo_deletion_env rs = Some []" "delegation_json demo_deletion_env e = Some []"
  by (simp_all add: demo_deletion_env_def account_env.defs demo_account_env_def)

lemma demo_shareable:
  "shareable demo_deletion_env (demo_authority 1) (demo_record 1 DeletionPending None)"
  by (simp add: shareable_def validate_record_def demo_record_def demo_authority_def demo_request_def demo_origin_def
      ay_member_def member_with_proof_def may_delete_def ay_same_account_def Let_def)
    (simp add: no_accounts_def)

theorem deletion_pages_complete_witness:
  "\<exists>pages. collect_pages 2 demo_deletion_env (demo_authority 1)
       [(storage_key (demo_record 1 DeletionPending None), demo_record 1 DeletionPending None)] None = Some pages \<and>
     concat pages = [demo_record 1 DeletionPending None]"
  using deletion_pages_complete [of "[(storage_key (demo_record 1 DeletionPending None), demo_record 1 DeletionPending None)]"
      demo_deletion_env "demo_authority 1"]
  by (auto simp: book_keys_wf_def bt_wf_def bt_values_def demo_shareable numeral_2_eq_2)

theorem deletion_merge_converges_witness:
  "outcome_of (foldl merged (demo_record 1 DeletionPending None)
      [demo_record 1 DeletionConfirmed (Some (demo_ack 3)), demo_record 1 DeletionRejected None]) =
   OConfirmed (Some (da_actor (demo_ack 3))) \<and>
   outcome_of (foldl merged (demo_record 1 DeletionRejected None)
      [demo_record 1 DeletionPending None, demo_record 1 DeletionConfirmed (Some (demo_ack 3))]) =
   OConfirmed (Some (da_actor (demo_ack 3)))"
proof -
  let ?p = "demo_record 1 DeletionPending None" and ?c = "demo_record 1 DeletionConfirmed (Some (demo_ack 3))"
    and ?x = "demo_record 1 DeletionRejected None"
  have fields: "dr_status (demo_record x st ack) = st" "dr_acknowledgement (demo_record x st ack) = ack" for x st ack
    by (simp_all add: demo_record_def)
  have scope: "\<forall>q \<in> insert ?p (set [?c, ?x]). dr_scope q = ForEveryone" by (simp add: demo_record_def)
  have same: "insert ?p (set [?c, ?x]) = insert ?x (set [?p, ?c])" by auto
  have "{map_option da_actor (dr_acknowledgement q) |q. q \<in> insert ?p (set [?c, ?x]) \<and> dr_status q = DeletionConfirmed} =
      {Some (da_actor (demo_ack 3))}"
    by (auto simp: fields intro: exI [of _ ?c])
  moreover have "\<exists>q \<in> insert ?p (set [?c, ?x]). dr_status q = DeletionConfirmed" by (simp add: demo_record_def)
  ultimately show ?thesis using deletion_merge_converges [OF scope same] by simp
qed

end
