(* ===== verification/Deletion_Store.thy ===== *)
theory Deletion_Store
  imports Deletion_Protocol
begin

text \<open>
  The store behind deletions: which message a record is about (\<open>message_deletion/target.rs\<close>,
  \<open>correlation.rs\<close>), the book of records of one conversation (\<open>book.rs\<close>), and the durable tables with
  the operations on them: merging records and their index by target
  (\<open>persistence/message_deletions.rs\<close>, \<open>deletion_merge.rs\<close>, \<open>deletion_index.rs\<close>,
  \<open>deletion_acceptance.rs\<close>), the guard that erases a history row before it is written
  (\<open>deletion_guard.rs\<close>) and the queue of erased attachments (\<open>attachment_gc.rs\<close>).

  The tables are sorted maps of plain values: encryption and JSON of rows are inverse to each other
  and are left out, so that a row is the typed record it was serialised from. The history evidence of
  a row, which nothing here reads or changes, is left out. A fault of the database engine in the
  current operation is the field \<open>db_fault\<close>; a transaction that fails changes no table. The attachment
  transfer is an abstract state with the operations the code calls on it.

  Shown here: looking a target up through the index finds exactly the records a scan of the whole
  table would find, so the guard erases a row if and only if a deletion that counts for this user
  names it.
\<close>

section \<open>Messages as deletions see them\<close>

record 'm message_kind =
  mk_author :: "'m \<Rightarrow> string"
  mk_fingerprint :: "'m \<Rightarrow> string option"
  mk_is_service :: "'m \<Rightarrow> bool"
  mk_call_id :: "'m \<Rightarrow> string option"
  mk_erase :: "'m \<Rightarrow> 'm"

definition chat_kind :: "chat_message message_kind" where
  "chat_kind = \<lparr>mk_author = from_device, mk_fingerprint = \<lambda>_. None, mk_is_service = chat_is_service, mk_call_id = chat_call_id,
     mk_erase = chat_erase_content\<rparr>"

definition group_kind :: "group_message message_kind" where
  "group_kind = \<lparr>mk_author = gm_from_fingerprint, mk_fingerprint = \<lambda>m. Some (gm_from_fingerprint m),
     mk_is_service = group_is_service, mk_call_id = \<lambda>_. None,
     mk_erase = group_erase_content\<rparr>"

definition channel_kind :: "channel_message message_kind" where
  "channel_kind = \<lparr>mk_author = cm_from_fingerprint, mk_fingerprint = \<lambda>m. Some (cm_from_fingerprint m),
     mk_is_service = \<lambda>_. False, mk_call_id = \<lambda>_. None,
     mk_erase = channel_erase_content\<rparr>"

text \<open>The JSON arrays whose digest names a message without proof of origin.\<close>

datatype target_value =
    AttachmentTarget string string string
  | ManifestTarget string string
  | LocalTarget string "string option" "u64 option" string attachment_descriptor
  | CallTarget string string
  | ServiceTarget string "string option"

record attachment_manifest =
  mf_origin :: "message_origin option"
  mf_attachment_id :: string
  mf_content_hash :: string
  mf_file_name :: string
  mf_mime :: string
  mf_total_size :: u64
  mf_chunk_size :: u32
  mf_chunk_count :: u64
  mf_key_b64 :: string
  mf_nonce_prefix_b64 :: string
  mf_thumbnail_b64 :: "string option"
  mf_voice :: "voice_meta option"
  mf_from_fingerprint :: string

record 'm stored_message =
  sm_conversation_id :: string
  sm_sent_at_ms :: u64
  sm_message_id :: string
  sm_message :: 'm
  sm_attachment_manifest :: "attachment_manifest option"
  sm_preview_manifest :: "attachment_manifest option"

record outbound_attempt =
  at_ever_published :: "bool option"
  at_conversation_id :: string
  at_message_id :: string
  at_sent_at_ms :: u64
  at_ciphertext_bytes :: nat
  at_message_json :: string
  at_publish_payload_b64 :: string
  at_delivery_status :: message_delivery_status
  at_delivery_error :: "string option"
  at_retry_count :: u32
  at_auto_resends :: u32
  at_last_send_ms :: u64

record 'm deletion_store =
  st_deletions :: deletion_records
  st_targets :: "(string, string) btree_map"
  st_acceptance :: "(string, delete_ack) btree_map"
  st_identity :: "(device_roster \<times> device_descriptor) option"
  st_messages :: "(string, 'm stored_message) btree_map"
  st_attempts :: "(string, outbound_attempt) btree_map"
  st_gc :: "(string, attachment_descriptor) btree_map"

record ('vk, 'sg, 'sk, 'm, 't) erasure_env = "('vk, 'sg, 'sk) deletion_env" +
  target_json :: "target_value \<Rightarrow> bytes option"
  text_json :: "string \<times> string option \<times> u64 option \<times> string \<times> string \<Rightarrow> bytes option"
  manifest_json :: "attachment_manifest \<Rightarrow> bytes option"
  db_fault :: "string option"
  tr_manifest :: "'t \<Rightarrow> string \<Rightarrow> attachment_manifest option"
  tr_erasure :: "'t \<Rightarrow> attachment_descriptor \<Rightarrow> attachment_descriptor list"
  tr_visible_id :: "'t \<Rightarrow> string \<Rightarrow> string"
  tr_forget :: "string \<Rightarrow> 't \<Rightarrow> 't"
  tr_clean :: "attachment_descriptor \<Rightarrow> 'm deletion_store option \<Rightarrow> 't \<Rightarrow> 't \<times> (string, bool) result"
  tr_gc_after :: "'t \<Rightarrow> string option"
  tr_set_gc_after :: "string option \<Rightarrow> 't \<Rightarrow> 't"

definition descriptor_of :: "attachment_manifest \<Rightarrow> attachment_descriptor" where
  "descriptor_of f =
     \<lparr>ad_attachment_id = mf_attachment_id f, ad_content_hash = mf_content_hash f, ad_file_name = mf_file_name f,
      ad_mime = mf_mime f, ad_total_size = mf_total_size f, ad_thumbnail_b64 = mf_thumbnail_b64 f,
      ad_voice = mf_voice f\<rparr>"

definition manifest_bytes ::
    "('vk, 'sg, 'sk, 'm, 't, 'z) erasure_env_scheme \<Rightarrow> attachment_manifest \<Rightarrow> (string, bytes) result" where
  "manifest_bytes env f = ok_or (manifest_json env (f\<lparr>mf_origin := None\<rparr>)) ''json''"

definition origin_of :: "'x message_scheme \<Rightarrow> message_origin option" where
  "origin_of m = Option.bind (metadata m) md_origin"

text \<open>\<open>TextCorrelation::key\<close>.\<close>

definition correlation_key ::
    "('vk, 'sg, 'sk, 'm, 't, 'z) erasure_env_scheme \<Rightarrow> string \<Rightarrow> string option \<Rightarrow> u64 option \<Rightarrow> string \<Rightarrow> string \<Rightarrow>
     (string, string) result" where
  "correlation_key env context i sent_at author content_hash =
     and_then (ok_or (text_json env (context, i, sent_at, author, content_hash)) ''json'') (\<lambda>b. Ok (hex_digest env b))"

definition text_key ::
    "('vk, 'sg, 'sk, 'x message_scheme, 't, 'z) erasure_env_scheme \<Rightarrow> 'x message_scheme message_kind \<Rightarrow> string \<Rightarrow>
     'x message_scheme \<Rightarrow> (string, string option) result" where
  "text_key env kd context m =
     (if attachment m \<noteq> None \<or> mk_call_id kd m \<noteq> None \<or> mk_is_service kd m then Ok None
      else if deletion_of m \<noteq> None \<and> origin_of m = None then Ok (Option.bind (metadata m) md_deletion_key)
      else
        and_then (correlation_key env context (message_id m) (sent_at_ms m) (mk_author kd m)
            (case origin_of m of None \<Rightarrow> hex_digest env (utf8_bytes (body m)) | Some p \<Rightarrow> or_content_hash p))
          (\<lambda>key. Ok (Some key)))"

definition legacy_text_key ::
    "('vk, 'sg, 'sk, 'x message_scheme, 't, 'z) erasure_env_scheme \<Rightarrow> 'x message_scheme message_kind \<Rightarrow> string \<Rightarrow>
     'x message_scheme \<Rightarrow> (string, string) result" where
  "legacy_text_key env kd context m =
     and_then (text_key env kd context m) (\<lambda>k. ok_or k ''missing text target'')"

definition attachment_target ::
    "('vk, 'sg, 'sk, 'x message_scheme, 't, 'z) erasure_env_scheme \<Rightarrow> 'x message_scheme message_kind \<Rightarrow> string \<Rightarrow>
     'x message_scheme \<Rightarrow> 't \<Rightarrow> attachment_descriptor \<Rightarrow> (string, target_value \<times> bool) result" where
  "attachment_target env kd context m tr a =
     (if take 8 context \<noteq> ''channel:''
      then Ok (AttachmentTarget context (ad_attachment_id a) (ad_content_hash a), False)
      else
        (case tr_manifest env tr (ad_attachment_id a) of
           Some manifest \<Rightarrow>
             and_then (manifest_bytes env manifest) (\<lambda>b. Ok (ManifestTarget context (hex_digest env b), False))
         | None \<Rightarrow> Ok (LocalTarget context (message_id m) (sent_at_ms m) (mk_author kd m) a, True)))"

definition hash_target ::
    "('vk, 'sg, 'sk, 'm, 't, 'z) erasure_env_scheme \<Rightarrow> target_value \<times> bool \<Rightarrow> (string, string \<times> bool) result" where
  "hash_target env v =
     and_then (ok_or (target_json env (fst v)) ''json'') (\<lambda>b. Ok (hex_digest env b, snd v))"

definition deletion_target ::
    "('vk, 'sg, 'sk, 'x message_scheme, 't, 'z) erasure_env_scheme \<Rightarrow> 'x message_scheme message_kind \<Rightarrow> string \<Rightarrow>
     'x message_scheme \<Rightarrow> 't \<Rightarrow> (string, string \<times> bool) result" where
  "deletion_target env kd context m tr =
     (case Option.bind (metadata m) md_deletion_key of
        Some key \<Rightarrow> Ok (key, (case metadata m of None \<Rightarrow> False | Some d \<Rightarrow> md_local_only d))
      | None \<Rightarrow>
          (case origin_of m of
             Some p \<Rightarrow> and_then (origin_key env p) (\<lambda>key. Ok (key, False))
           | None \<Rightarrow>
               (case attachment m of
                  Some a \<Rightarrow> and_then (attachment_target env kd context m tr a) (hash_target env)
                | None \<Rightarrow>
                    (case mk_call_id kd m of
                       Some i \<Rightarrow> hash_target env (CallTarget context i, False)
                     | None \<Rightarrow>
                         if mk_is_service kd m \<and> message_id m \<noteq> None
                         then hash_target env (ServiceTarget context (message_id m), False)
                         else and_then (legacy_text_key env kd context m) (\<lambda>key. Ok (key, True))))))"

definition message_key ::
    "('vk, 'sg, 'sk, 'x message_scheme, 't, 'z) erasure_env_scheme \<Rightarrow> 'x message_scheme message_kind \<Rightarrow> string \<Rightarrow>
     'x message_scheme \<Rightarrow> 't \<Rightarrow> (string, string option) result" where
  "message_key env kd context m tr =
     (case Option.bind (metadata m) md_personal_correlation of
        Some key \<Rightarrow> Ok (Some key)
      | None \<Rightarrow>
          if attachment m \<noteq> None then
            and_then (deletion_target env kd context (m\<lparr>metadata := None\<rparr>) tr) (\<lambda>(key, local_only).
              Ok (if local_only then None else Some key))
          else text_key env kd context m)"

definition correlate_history_text ::
    "('vk, 'sg, 'sk, 'x message_scheme, 't, 'z) erasure_env_scheme \<Rightarrow> 'x message_scheme message_kind \<Rightarrow> string \<Rightarrow>
     'x message_scheme \<Rightarrow> (string, 'x message_scheme) result" where
  "correlate_history_text env kd context m =
     (let mark = (\<lambda>key. Ok (m\<lparr>metadata := Some ((case metadata m of None \<Rightarrow> default_metadata | Some d \<Rightarrow> d)
           \<lparr>md_deletion_key := Some key, md_local_only := False\<rparr>)\<rparr>))
      in case origin_of m of
           Some p \<Rightarrow> and_then (origin_key env p) mark
         | None \<Rightarrow>
             if deletion_of m \<noteq> None then Ok m
             else and_then (legacy_text_key env kd context m) mark)"

section \<open>The book and its store\<close>

record 'm deletion_book =
  bk_context :: string
  bk_scope :: string
  bk_store :: "'m deletion_store option"
  bk_records :: deletion_records
  bk_accepted :: "string set"
  bk_last_sync :: u64
  bk_fragments :: fragment_buffer

record deletion_summary =
  sy_pending_count :: nat
  sy_rejected_count :: nat

definition new_deletion_book :: "string \<Rightarrow> string \<Rightarrow> 'm deletion_store option \<Rightarrow> 'm deletion_book" where
  "new_deletion_book context scope store =
     \<lparr>bk_context = context, bk_scope = scope, bk_store = store, bk_records = [], bk_accepted = {}, bk_last_sync = 0,
      bk_fragments = []\<rparr>"

definition has_shared_records :: "'m deletion_book \<Rightarrow> bool" where
  "has_shared_records b \<longleftrightarrow>
     list_ex (\<lambda>r. dr_scope r = ForEveryone \<and> dr_status r \<noteq> DeletionRejected) (bt_values (bk_records b))"

definition book_summary :: "'m deletion_book \<Rightarrow> deletion_summary option" where
  "book_summary b =
     (let pending = length (filter (\<lambda>r. dr_status r = DeletionPending) (bt_values (bk_records b)));
          rejected = length (filter (\<lambda>r. dr_status r = DeletionRejected) (bt_values (bk_records b)))
      in if 0 < pending + rejected then Some \<lparr>sy_pending_count = pending, sy_rejected_count = rejected\<rparr>
         else None)"

definition book_user ::
    "('vk, 'sg, 'sk, 'm, 't, 'z) erasure_env_scheme \<Rightarrow> 'm deletion_book \<Rightarrow> (deletion_error, string) result" where
  "book_user env b =
     (case bk_store b of
        None \<Rightarrow> Ok ''local''
      | Some store \<Rightarrow>
          (case db_fault env of
             Some e \<Rightarrow> Err (DeletionPersistence e)
           | None \<Rightarrow>
               (case st_identity store of
                  None \<Rightarrow> Ok ''local''
                | Some (roster, device) \<Rightarrow>
                    and_then (map_err (\<lambda>k. DeletionPersistence (link_error_text k)) (devices (arost env) roster))
                      (\<lambda>ds. if device \<notin> set ds then Err DeviceRevoked else Ok (user_id roster)))))"

text \<open>\<open>prefix_range\<close>: the keys from \<open>prefix\<close> with a 01 byte to \<open>prefix\<close> with a 02 byte.\<close>

definition range_prefix :: "string \<Rightarrow> (string, 'v) btree_map \<Rightarrow> (string, 'v) btree_map" where
  "range_prefix start rows =
     filter (\<lambda>(key, _). start @ [CHR 0x01] \<le> key \<and> key < start @ [CHR 0x02]) rows"

definition deletion_error_text :: "deletion_error \<Rightarrow> string" where
  "deletion_error_text e =
     (case e of
        InvalidInput t \<Rightarrow> t | DeletionPersistence t \<Rightarrow> t | Internal t \<Rightarrow> t
      | PermissionDenied \<Rightarrow> ''deletion permission denied''
      | DeviceRevoked \<Rightarrow> ''revoked device cannot delete messages'')"

definition reload ::
    "('vk, 'sg, 'sk, 'm, 't, 'z) erasure_env_scheme \<Rightarrow> 'm deletion_book \<Rightarrow> 'm deletion_book \<times> (string, unit) result" where
  "reload env b =
     (case bk_store b of
        None \<Rightarrow> (b, Ok ())
      | Some store \<Rightarrow>
          (case db_fault env of
             Some e \<Rightarrow> (b, Err e)
           | None \<Rightarrow>
               (b\<lparr>bk_accepted := set (map da_request_digest (bt_values (range_prefix (bk_context b) (st_acceptance store)))),
                  bk_records := fold (\<lambda>r. bt_insert (storage_key r) r)
                    (bt_values (range_prefix (bk_context b) (st_deletions store))) (bk_records b)\<rparr>, Ok ())))"

definition merge_into :: "deletion_record \<Rightarrow> deletion_records \<Rightarrow> deletion_records" where
  "merge_into r records =
     bt_insert (storage_key r)
       (case bt_get records (storage_key r) of None \<Rightarrow> r | Some old \<Rightarrow> merged old r) records"

definition deletion_records_of :: "'m deletion_store \<Rightarrow> string \<Rightarrow> deletion_record list" where
  "deletion_records_of store context = bt_values (range_prefix context (st_deletions store))"

definition account_deletions :: "'m deletion_store \<Rightarrow> string \<Rightarrow> deletion_record list" where
  "account_deletions store user = filter (\<lambda>r. visible_to_account r user) (bt_values (st_deletions store))"

section \<open>The index by target\<close>

definition READY :: string where
  "READY = [CHR 0x00] @ ''ready-v1''"

definition index_key :: "string \<Rightarrow> string \<Rightarrow> string \<Rightarrow> string" where
  "index_key context target row_key = context @ [CHR 0x01] @ target @ [CHR 0x01] @ row_key"

definition index_targets :: "deletion_record \<Rightarrow> string list" where
  "index_targets r = dr_key r # (case dr_personal_correlation r of None \<Rightarrow> [] | Some alias \<Rightarrow> [alias])"

definition index_deletion :: "deletion_record \<Rightarrow> 'm deletion_store \<Rightarrow> 'm deletion_store" where
  "index_deletion r store =
     store\<lparr>st_targets := fold (\<lambda>t. bt_insert (index_key (dr_context r) t (storage_key r)) (storage_key r))
       (index_targets r) (st_targets store)\<rparr>"

definition initialize_deletion_index :: "'m deletion_store \<Rightarrow> 'm deletion_store" where
  "initialize_deletion_index store =
     (if bt_contains (st_targets store) READY then store
      else
        (let indexed = fold index_deletion (bt_values (st_deletions store)) store
         in indexed\<lparr>st_targets := bt_insert READY ''v1'' (st_targets indexed)\<rparr>))"

definition deletion_target_records :: "'m deletion_store \<Rightarrow> string \<Rightarrow> string \<Rightarrow> deletion_record list" where
  "deletion_target_records store context target =
     List.map_filter (\<lambda>(_, key). bt_get (st_deletions store) key)
       (range_prefix (context @ [CHR 0x01] @ target) (st_targets store))"

definition merge_deletion_row :: "deletion_record \<Rightarrow> 'm deletion_store \<Rightarrow> 'm deletion_store" where
  "merge_deletion_row r store =
     (let record = (case bt_get (st_deletions store) (storage_key r) of None \<Rightarrow> r | Some old \<Rightarrow> merged old r)
      in index_deletion record
           (store\<lparr>st_deletions := bt_insert (storage_key r) record (st_deletions store)\<rparr>))"

text \<open>
  Records from the own user's other devices: all are checked before any is written. The shared ones
  carry their own proof, the personal ones must be the user's and complete.
\<close>

definition valid_target :: "('vk, 'sg, 'sk, 'm, 't, 'z) erasure_env_scheme \<Rightarrow> deletion_record \<Rightarrow> bool" where
  "valid_target env r \<longleftrightarrow>
     list_ex (\<lambda>p. take (length p) (dr_context r) = p) [''dm:'', ''group:'', ''channel:''] \<and>
     length (dr_context r) \<le> 512 \<and> \<not> has_control (dr_context r) \<and> length (dr_key r) = 64 \<and>
     hex_decode (env_sigs env) (dr_key r) \<noteq> None"

definition valid_personal :: "('vk, 'sg, 'sk, 'm, 't, 'z) erasure_env_scheme \<Rightarrow> string \<Rightarrow> deletion_record \<Rightarrow> bool" where
  "valid_personal env user r \<longleftrightarrow>
     dr_owner r = user \<and>
     (case dr_personal_correlation r of
        None \<Rightarrow> True | Some alias \<Rightarrow> length alias = 64 \<and> hex_decode (env_sigs env) alias \<noteq> None) \<and>
     dr_scope r = ForMe \<and> \<not> dr_local_only r \<and> dr_status r = DeletionConfirmed \<and> dr_request r = None \<and>
     dr_acknowledgement r = None \<and> dr_administrator r = None"

fun check_account_deletions ::
    "('vk, 'sg, 'sk, 'm, 't, 'z) erasure_env_scheme \<Rightarrow> string \<Rightarrow> deletion_record list \<Rightarrow> (string, unit) result" where
  "check_account_deletions env user [] = Ok ()"
| "check_account_deletions env user (r # rs) =
     (if \<not> valid_target env r then Err ''invalid deletion target''
      else if dr_scope r = ForEveryone then
        and_then (verify_record env r (dr_context r)) (\<lambda>_. check_account_deletions env user rs)
      else if \<not> valid_personal env user r then Err ''invalid personal deletion''
      else check_account_deletions env user rs)"

definition save_account_deletions ::
    "('vk, 'sg, 'sk, 'm, 't, 'z) erasure_env_scheme \<Rightarrow> string \<Rightarrow> deletion_record list \<Rightarrow> 'm deletion_store \<Rightarrow>
     (string, 'm deletion_store) result" where
  "save_account_deletions env user records store =
     and_then (check_account_deletions env user records) (\<lambda>_.
       (case db_fault env of Some e \<Rightarrow> Err e | None \<Rightarrow> Ok (fold merge_deletion_row records store)))"

section \<open>The guard of history rows\<close>

text \<open>\<open>Iterator::max_by_key\<close>: of several greatest elements the last.\<close>

fun max_by_key :: "('a \<Rightarrow> 'k::linorder) \<Rightarrow> 'a list \<Rightarrow> 'a option" where
  "max_by_key f [] = None"
| "max_by_key f (x # xs) =
     (case max_by_key f xs of None \<Rightarrow> Some x | Some y \<Rightarrow> if f x \<le> f y then Some y else Some x)"

definition verified_origin ::
    "('vk, 'sg, 'sk, 'm, 't, 'z) erasure_env_scheme \<Rightarrow> string \<Rightarrow> 'x message_scheme \<Rightarrow> message_origin option" where
  "verified_origin env context m =
     Option.bind (origin_of m) (\<lambda>p.
       if or_conversation p = context \<and> is_ok (origin_verify_signature env p) then Some p else None)"

definition history_attachment_key ::
    "('vk, 'sg, 'sk, 'm, 't, 'z) erasure_env_scheme \<Rightarrow> string \<Rightarrow> attachment_descriptor \<Rightarrow> attachment_manifest option \<Rightarrow>
     string option" where
  "history_attachment_key env context a manifest =
     Option.bind
       (if take 8 context = ''channel:''
        then Option.bind manifest (\<lambda>f. Option.bind (to_option (manifest_bytes env f)) (\<lambda>b.
          Some (ManifestTarget context (hex_digest env b))))
        else Some (AttachmentTarget context (ad_attachment_id a) (ad_content_hash a)))
       (\<lambda>t. map_option (hex_digest env) (target_json env t))"

text \<open>
  The author field of a row: \<open>from_device\<close> in a DM, else \<open>from_fingerprint\<close>. Rows of all kinds are
  without the older field \<open>from\<close>.
\<close>

definition history_author :: "'x message_scheme message_kind \<Rightarrow> string \<Rightarrow> 'x message_scheme \<Rightarrow> string option" where
  "history_author kd context m = (if take 3 context = ''dm:'' then Some (from_device m) else mk_fingerprint kd m)"

definition history_text_key ::
    "('vk, 'sg, 'sk, 'x message_scheme, 't, 'z) erasure_env_scheme \<Rightarrow> 'x message_scheme message_kind \<Rightarrow> string \<Rightarrow>
     'x message_scheme \<Rightarrow> string option" where
  "history_text_key env kd context m =
     (if attachment m \<noteq> None \<or> mk_is_service kd m then None
      else if verified_origin env context m = None \<and> deletion_of m \<noteq> None
      then Option.bind (metadata m) md_deletion_key
      else
        Option.bind (history_author kd context m) (\<lambda>author.
          to_option (correlation_key env context (message_id m) (sent_at_ms m) author
            (case verified_origin env context m of
               None \<Rightarrow> hex_digest env (utf8_bytes (body m)) | Some p \<Rightarrow> or_content_hash p))))"

definition history_message_key ::
    "('vk, 'sg, 'sk, 'x message_scheme, 't, 'z) erasure_env_scheme \<Rightarrow> 'x message_scheme message_kind \<Rightarrow> string \<Rightarrow>
     'x message_scheme stored_message \<Rightarrow> string option" where
  "history_message_key env kd context row =
     (let m = sm_message row;
          kept = (if deletion_of m \<noteq> None then Option.bind (metadata m) md_personal_correlation else None)
      in case kept of
           Some key \<Rightarrow> Some key
         | None \<Rightarrow>
             (case attachment m of
                Some a \<Rightarrow> history_attachment_key env context a (sm_attachment_manifest row)
              | None \<Rightarrow> history_text_key env kd context m))"

definition history_target ::
    "('vk, 'sg, 'sk, 'm, 't, 'z) erasure_env_scheme \<Rightarrow> string \<Rightarrow> 'x message_scheme \<Rightarrow> string option" where
  "history_target env context m =
     (case Option.bind (metadata m) md_deletion_key of
        Some key \<Rightarrow> Some key
      | None \<Rightarrow> Option.bind (verified_origin env context m) (\<lambda>p. to_option (origin_key env p)))"

definition deletion_owner :: "'m deletion_store \<Rightarrow> string" where
  "deletion_owner store =
     (case st_identity store of None \<Rightarrow> ''local'' | Some (roster, _) \<Rightarrow> user_id roster)"

definition guard_priority :: "deletion_record \<Rightarrow> bool \<times> bool \<times> string" where
  "guard_priority r = (dr_scope r = ForMe, dr_status r = DeletionConfirmed, storage_key r)"

definition counts_for :: "string \<Rightarrow> string \<Rightarrow> string option \<Rightarrow> deletion_record \<Rightarrow> bool" where
  "counts_for owner target correlation r \<longleftrightarrow>
     matches r target correlation \<and> (dr_scope r = ForEveryone \<or> dr_owner r = owner)"

definition matching_deletion ::
    "'m deletion_store \<Rightarrow> string \<Rightarrow> string \<Rightarrow> string option \<Rightarrow> string \<Rightarrow> deletion_record option" where
  "matching_deletion store context target correlation owner =
     (let found = deletion_target_records store context target @
            (case correlation of
               None \<Rightarrow> []
             | Some alias \<Rightarrow> if alias \<noteq> target then deletion_target_records store context alias else [])
      in max_by_key guard_priority (filter (counts_for owner target correlation) found))"

definition enqueue_attachment_gc :: "attachment_descriptor \<Rightarrow> 'm deletion_store \<Rightarrow> 'm deletion_store" where
  "enqueue_attachment_gc a store =
     store\<lparr>st_gc := bt_insert (ad_content_hash a @ '':'' @ ad_file_name a) a (st_gc store)\<rparr>"

definition erase_row ::
    "'x message_scheme message_kind \<Rightarrow> deletion_record \<Rightarrow> string \<Rightarrow> string option \<Rightarrow>
     'x message_scheme stored_message \<Rightarrow> 'x message_scheme stored_message" where
  "erase_row kd r target correlation row =
     row\<lparr>sm_message := mk_erase kd ((sm_message row)\<lparr>metadata := Some ((case metadata (sm_message row) of
           None \<Rightarrow> default_metadata | Some d \<Rightarrow> d)
         \<lparr>md_deletion_key := Some target,
          md_personal_correlation := (case correlation of None \<Rightarrow> None
            | Some alias \<Rightarrow> if alias \<noteq> target then Some alias else None),
          md_deletion := Some (record_marker r), md_can_delete_for_everyone := False\<rparr>)\<rparr>),
       sm_attachment_manifest := None, sm_preview_manifest := None\<rparr>"

definition row_context :: "string \<Rightarrow> string \<Rightarrow> string" where
  "row_context scope conversation_id =
     (if scope = ''private_dm'' then ''dm'' else if scope = ''private_group'' then ''group'' else ''channel'') @ '':'' @
     conversation_id"

definition erase_known_target ::
    "('vk, 'sg, 'sk, 'x message_scheme, 't, 'z) erasure_env_scheme \<Rightarrow> 'x message_scheme message_kind \<Rightarrow> string \<Rightarrow>
     'x message_scheme stored_message \<Rightarrow> 'x message_scheme deletion_store \<Rightarrow>
     'x message_scheme deletion_store \<times> 'x message_scheme stored_message" where
  "erase_known_target env kd scope row store =
     (let context = row_context scope (sm_conversation_id row);
          correlation = history_message_key env kd context row
      in case (case history_target env context (sm_message row) of Some t \<Rightarrow> Some t | None \<Rightarrow> correlation) of
           None \<Rightarrow> (store, row)
         | Some target \<Rightarrow>
             (case matching_deletion store context target correlation (deletion_owner store) of
                None \<Rightarrow> (store, row)
              | Some r \<Rightarrow>
                  (let store1 = (case attachment (sm_message row) of
                         None \<Rightarrow> store | Some a \<Rightarrow> enqueue_attachment_gc a store);
                       store2 = (case sm_preview_manifest row of
                         None \<Rightarrow> store1 | Some f \<Rightarrow> enqueue_attachment_gc (descriptor_of f) store1)
                   in (store2, erase_row kd r target correlation row))))"

section \<open>Committing a deletion\<close>

definition history_row_key :: "string \<Rightarrow> u64 \<Rightarrow> string \<Rightarrow> string" where
  "history_row_key conversation_id sent_at i =
     conversation_id @ [CHR 0x01] @ pad_dec 20 (unat sent_at) @ [CHR 0x01] @ i"

definition outbound_attempt_key :: "string \<Rightarrow> string \<Rightarrow> string \<Rightarrow> string" where
  "outbound_attempt_key scope conversation_id i = scope @ [CHR 0x01] @ conversation_id @ [CHR 0x01] @ i"

definition save_deletion_acceptance ::
    "('vk, 'sg, 'sk, 'm, 't, 'z) erasure_env_scheme \<Rightarrow> deletion_record \<Rightarrow> 'm deletion_store \<Rightarrow>
     (string, 'm deletion_store) result" where
  "save_deletion_acceptance env r store =
     (case (dr_acknowledgement r, dr_request r) of
        (Some a, Some q) \<Rightarrow>
          if dr_status r \<noteq> DeletionConfirmed then Ok store
          else
            and_then (request_digest env q) (\<lambda>d.
              Ok (store\<lparr>st_acceptance := bt_insert (dr_context r @ [CHR 0x01] @ d) a (st_acceptance store)\<rparr>))
      | _ \<Rightarrow> Ok store)"

fun commit_records ::
    "('vk, 'sg, 'sk, 'm, 't, 'z) erasure_env_scheme \<Rightarrow> bool \<Rightarrow> deletion_record list \<Rightarrow> 'm deletion_store \<Rightarrow>
     (string, 'm deletion_store) result" where
  "commit_records env accepted [] store = Ok store"
| "commit_records env accepted (r # rs) store =
     (let store1 = merge_deletion_row r store
      in and_then (if accepted then save_deletion_acceptance env r store1 else Ok store1)
           (commit_records env accepted rs))"

definition commit_erased_row ::
    "('vk, 'sg, 'sk, 'x message_scheme, 't, 'z) erasure_env_scheme \<Rightarrow> 'x message_scheme message_kind \<Rightarrow> string \<Rightarrow>
     string set \<Rightarrow> 'x message_scheme stored_message \<Rightarrow> 'x message_scheme deletion_store \<Rightarrow>
     'x message_scheme deletion_store \<times> (string \<times> deletion_marker) option" where
  "commit_erased_row env kd scope cancelled row store =
     (let (store1, row1) = erase_known_target env kd scope row store;
          store2 = store1\<lparr>st_messages := bt_insert
            (history_row_key (sm_conversation_id row) (sm_sent_at_ms row) (sm_message_id row)) row1 (st_messages store1)\<rparr>;
          store3 = (if sm_message_id row \<in> cancelled
            then store2\<lparr>st_attempts := bt_remove
              (outbound_attempt_key scope (sm_conversation_id row) (sm_message_id row)) (st_attempts store2)\<rparr>
            else store2)
      in (store3, map_option (\<lambda>d. (sm_message_id row1, d)) (deletion_of (sm_message row1))))"

fun commit_rows ::
    "('vk, 'sg, 'sk, 'x message_scheme, 't, 'z) erasure_env_scheme \<Rightarrow> 'x message_scheme message_kind \<Rightarrow> string \<Rightarrow>
     string set \<Rightarrow> 'x message_scheme stored_message list \<Rightarrow> 'x message_scheme deletion_store \<Rightarrow>
     (string \<rightharpoonup> deletion_marker) \<Rightarrow> 'x message_scheme deletion_store \<times> (string \<rightharpoonup> deletion_marker)" where
  "commit_rows env kd scope cancelled [] store markers = (store, markers)"
| "commit_rows env kd scope cancelled (row # rows) store markers =
     (let (store1, marker) = commit_erased_row env kd scope cancelled row store
      in commit_rows env kd scope cancelled rows store1
           (case marker of None \<Rightarrow> markers | Some (i, d) \<Rightarrow> markers(i \<mapsto> d)))"

definition commit_message_deletions ::
    "('vk, 'sg, 'sk, 'x message_scheme, 't, 'z) erasure_env_scheme \<Rightarrow> 'x message_scheme message_kind \<Rightarrow> string \<Rightarrow>
     deletion_record list \<Rightarrow> 'x message_scheme stored_message list \<Rightarrow> string set \<Rightarrow> attachment_descriptor list \<Rightarrow> bool \<Rightarrow>
     'x message_scheme deletion_store \<Rightarrow>
     (string, 'x message_scheme deletion_store \<times> (string \<rightharpoonup> deletion_marker)) result" where
  "commit_message_deletions env kd scope records rows cancelled attachments accepted store =
     (case db_fault env of
        Some e \<Rightarrow> Err e
      | None \<Rightarrow>
          and_then (commit_records env accepted records (fold enqueue_attachment_gc attachments store)) (\<lambda>store1.
            Ok (commit_rows env kd scope cancelled rows store1 Map.empty)))"

section \<open>Erased attachments\<close>

definition attachment_gc ::
    "string option \<Rightarrow> 'm deletion_store \<Rightarrow> (string \<times> attachment_descriptor) list" where
  "attachment_gc after store =
     take 16 (filter (\<lambda>(key, _). case after of None \<Rightarrow> True | Some a \<Rightarrow> a < key) (st_gc store))"

definition complete_attachment_gc :: "string \<Rightarrow> 'm deletion_store \<Rightarrow> 'm deletion_store" where
  "complete_attachment_gc key store = store\<lparr>st_gc := bt_remove key (st_gc store)\<rparr>"

definition collect_one ::
    "('vk, 'sg, 'sk, 'm, 't, 'z) erasure_env_scheme \<Rightarrow> string \<times> attachment_descriptor \<Rightarrow> 'm deletion_store \<times> 't \<Rightarrow>
     'm deletion_store \<times> 't" where
  "collect_one env entry state =
     (case (entry, state) of
        ((key, a), (store, tr)) \<Rightarrow>
          (let (tr1, removed) = tr_clean env a (Some store) (tr_set_gc_after env (Some key) tr)
           in (if unwrap_or False removed then complete_attachment_gc key store else store, tr1)))"

definition collect_erased_cache ::
    "('vk, 'sg, 'sk, 'm, 't, 'z) erasure_env_scheme \<Rightarrow> 'm deletion_store \<Rightarrow> 't \<Rightarrow> 'm deletion_store \<times> 't" where
  "collect_erased_cache env store tr =
     (if db_fault env \<noteq> None then (store, tr)
      else
        (let entries = attachment_gc (tr_gc_after env tr) store
         in fold (collect_one env) entries
              (store, if entries = [] then tr_set_gc_after env None tr else tr)))"

section \<open>Lookups through the index\<close>

abbreviation plain :: "string \<Rightarrow> bool" where
  "plain s \<equiv> CHR 0x01 \<notin> set s"

lemma between_one_and_two:
  "[CHR 0x01] \<le> k \<and> k < [CHR 0x02] \<longleftrightarrow> (\<exists>rest. k = CHR 0x01 # rest)"
proof (cases k)
  case (Cons a rest)
  have "a = CHR 0x01" if "CHR 0x01 \<le> a" "a < CHR 0x02"
  proof -
    from that have "of_char a = (of_char (CHR 0x01) :: nat)" by (auto simp: less_char_def less_eq_char_def)
    then show ?thesis by (simp only: of_char_eq_iff)
  qed
  then show ?thesis by (auto simp: Cons less_char_def less_eq_char_def)
qed simp

lemma in_prefix_range:
  "p @ [CHR 0x01] \<le> k \<and> k < p @ [CHR 0x02] \<longleftrightarrow> (\<exists>rest. k = p @ CHR 0x01 # rest)"
proof (induction p arbitrary: k)
  case (Cons a p)
  show ?case
  proof (cases k)
    case k: (Cons b k')
    have "(a # p) @ [CHR 0x01] \<le> k \<and> k < (a # p) @ [CHR 0x02] \<longleftrightarrow>
        b = a \<and> p @ [CHR 0x01] \<le> k' \<and> k' < p @ [CHR 0x02]"
      by (auto simp: k)
    also have "\<dots> \<longleftrightarrow> b = a \<and> (\<exists>rest. k' = p @ CHR 0x01 # rest)" by (simp only: Cons.IH)
    finally show ?thesis by (auto simp: k)
  qed simp
qed (simp only: between_one_and_two append_Nil)

lemma set_range_prefix: "(k, v) \<in> set (range_prefix p rows) \<longleftrightarrow> (k, v) \<in> set rows \<and> (\<exists>rest. k = p @ CHR 0x01 # rest)"
  by (simp add: range_prefix_def in_prefix_range)

lemma index_key_prefix:
  assumes "plain c" "plain t" "plain c'" "plain t'"
  shows "index_key c t k = (c' @ [CHR 0x01] @ t') @ CHR 0x01 # rest \<longleftrightarrow> c = c' \<and> t = t' \<and> k = rest"
  using assms by (simp add: index_key_def split_at_separator)

text \<open>
  The table and its index agree: every record is filed under its storage key and has an entry for
  each of its targets, and every entry belongs to the conversation of the record it names. Entries
  of targets a record had before a merge may remain.
\<close>

definition plain_record :: "deletion_record \<Rightarrow> bool" where
  "plain_record r \<longleftrightarrow> plain (dr_context r) \<and> list_all plain (index_targets r)"

definition index_complete :: "'m deletion_store \<Rightarrow> bool" where
  "index_complete store \<longleftrightarrow>
     (\<forall>(k, r) \<in> set (st_deletions store). k = storage_key r \<and> plain_record r \<and>
        (\<forall>t \<in> set (index_targets r). bt_get (st_targets store) (index_key (dr_context r) t k) = Some k))"

definition index_sound :: "'m deletion_store \<Rightarrow> bool" where
  "index_sound store \<longleftrightarrow>
     (\<forall>(i, k) \<in> set (st_targets store). i = READY \<or>
        (\<exists>c t rest. plain c \<and> plain t \<and> i = index_key c t k \<and> k = c @ CHR 0x01 # rest))"

definition index_ok :: "'m deletion_store \<Rightarrow> bool" where
  "index_ok store \<longleftrightarrow>
     bt_wf (st_deletions store) \<and> bt_wf (st_targets store) \<and> index_complete store \<and> index_sound store"

lemma READY_not_indexed: "READY \<noteq> p @ CHR 0x01 # rest"
proof
  assume "READY = p @ CHR 0x01 # rest"
  then have "CHR 0x01 \<in> set READY" by (metis in_set_conv_decomp)
  then show False by (simp add: READY_def)
qed

lemma index_ok_record:
  assumes "index_ok store" and "bt_get (st_deletions store) k = Some r"
  shows "storage_key r = k" "plain_record r"
  using assms(1) bt_get_mem [OF assms(2)] by (auto simp: index_ok_def index_complete_def)

lemma target_records_sound:
  assumes "index_ok store" and "plain c" and "plain t" and "r \<in> set (deletion_target_records store c t)"
  shows "r \<in> set (bt_values (st_deletions store)) \<and> dr_context r = c"
proof -
  from assms(4) obtain i k where e: "(i, k) \<in> set (st_targets store)" "\<exists>rest. i = (c @ [CHR 0x01] @ t) @ CHR 0x01 # rest"
    and r: "bt_get (st_deletions store) k = Some r"
    by (auto simp: deletion_target_records_def List.map_filter_def set_range_prefix)
  from assms(1) e(1) obtain c' t' rest where "i = READY \<or> plain c' \<and> plain t' \<and> i = index_key c' t' k \<and> k = c' @ CHR 0x01 # rest"
    unfolding index_ok_def index_sound_def by blast
  with e(2) have "k = c @ CHR 0x01 # rest"
    using assms(2,3) index_key_prefix [of c' t' c t k] READY_not_indexed by metis
  with index_ok_record [OF assms(1) r] assms(2) have "dr_context r = c"
    by (auto simp: storage_key_def plain_record_def split_at_separator)
  with r show ?thesis by (auto simp: bt_values_def dest!: bt_get_mem intro: rev_image_eqI)
qed

lemma target_records_complete:
  assumes "index_ok store" and "r \<in> set (bt_values (st_deletions store))" and "t \<in> set (index_targets r)"
  shows "r \<in> set (deletion_target_records store (dr_context r) t)"
proof -
  from assms(2) obtain k where k: "(k, r) \<in> set (st_deletions store)" by (auto simp: bt_values_def)
  with assms(1,3) have "bt_get (st_targets store) (index_key (dr_context r) t k) = Some k"
    by (auto simp: index_ok_def index_complete_def)
  then have "(index_key (dr_context r) t k, k) \<in> set (range_prefix (dr_context r @ [CHR 0x01] @ t) (st_targets store))"
    by (auto simp: set_range_prefix index_key_def dest: bt_get_mem)
  moreover have "bt_get (st_deletions store) k = Some r"
    using assms(1) k by (simp add: index_ok_def bt_get_eq_Some_iff)
  ultimately show ?thesis
    by (force simp: deletion_target_records_def List.map_filter_def)
qed

lemma matches_target:
  "matches r target correlation \<Longrightarrow>
   target \<in> set (index_targets r) \<or> (\<exists>alias. correlation = Some alias \<and> alias \<in> set (index_targets r))"
  by (auto simp: matches_def index_targets_def split: option.splits)

lemma max_by_key_None_iff: "max_by_key f xs = None \<longleftrightarrow> xs = []"
  by (cases xs) (auto split: option.split)

lemma max_by_key_SomeD:
  "max_by_key f xs = Some x \<Longrightarrow> x \<in> set xs \<and> (\<forall>y \<in> set xs. f y \<le> f x)"
proof (induction xs arbitrary: x)
  case (Cons a xs)
  then show ?case
    by (cases "max_by_key f xs") (auto simp: max_by_key_None_iff split: if_splits)
qed simp

lemma max_by_key_set:
  assumes "set xs = set ys" and "inj_on f (set xs)"
  shows "max_by_key f xs = max_by_key f ys"
proof (cases "max_by_key f xs")
  case None
  with assms(1) show ?thesis by (simp add: max_by_key_None_iff)
next
  case (Some x)
  then have "ys \<noteq> []" using assms(1) by (auto simp: max_by_key_None_iff dest: max_by_key_SomeD)
  then obtain y where y: "max_by_key f ys = Some y" by (cases "max_by_key f ys") (auto simp: max_by_key_None_iff)
  from max_by_key_SomeD [OF Some] max_by_key_SomeD [OF y] assms have "x = y"
    by (metis order.antisym inj_onD)
  with Some y show ?thesis by simp
qed

text \<open>The records of one conversation, as a scan of the whole table finds them.\<close>

definition records_in :: "string \<Rightarrow> 'm deletion_store \<Rightarrow> deletion_record list" where
  "records_in c store = filter (\<lambda>r. dr_context r = c) (bt_values (st_deletions store))"

lemma matching_deletion_scan:
  assumes "index_ok store" and "plain c" and "plain target" and "\<And>alias. correlation = Some alias \<Longrightarrow> plain alias"
  shows "matching_deletion store c target correlation owner =
    max_by_key guard_priority (filter (counts_for owner target correlation) (records_in c store))"
proof -
  let ?found = "deletion_target_records store c target @
      (case correlation of None \<Rightarrow> []
       | Some alias \<Rightarrow> if alias \<noteq> target then deletion_target_records store c alias else [])"
  have "set (filter (counts_for owner target correlation) ?found) =
      set (filter (counts_for owner target correlation) (records_in c store))"
  proof (intro equalityI subsetI)
    fix r assume "r \<in> set (filter (counts_for owner target correlation) ?found)"
    then show "r \<in> set (filter (counts_for owner target correlation) (records_in c store))"
      using target_records_sound [OF assms(1,2), where r = r] assms(3,4)
      by (auto simp: records_in_def split: option.splits if_splits)
  next
    fix r assume "r \<in> set (filter (counts_for owner target correlation) (records_in c store))"
    then show "r \<in> set (filter (counts_for owner target correlation) ?found)"
      using target_records_complete [OF assms(1), where r = r] matches_target [of r target correlation]
      by (auto simp: records_in_def counts_for_def split: option.splits)
  qed
  moreover have "inj_on storage_key (set (records_in c store))"
  proof (rule inj_onI)
    fix r r' assume "r \<in> set (records_in c store)" "r' \<in> set (records_in c store)" "storage_key r = storage_key r'"
    then have "(storage_key r, r) \<in> set (st_deletions store)" "(storage_key r, r') \<in> set (st_deletions store)"
      using assms(1) by (force simp: records_in_def bt_values_def index_ok_def index_complete_def)+
    then show "r = r'"
      using assms(1) by (metis bt_get_eq_Some_iff index_ok_def option.inject)
  qed
  then have "inj_on guard_priority (set (filter (counts_for owner target correlation) (records_in c store)))"
    by (auto simp: inj_on_def guard_priority_def)
  ultimately show ?thesis
    unfolding matching_deletion_def Let_def by (intro max_by_key_set) auto
qed

section \<open>The index follows the table\<close>

lemma index_deletion_fields [simp]:
  "st_deletions (index_deletion r store) = st_deletions store"
  "st_identity (index_deletion r store) = st_identity store"
  "st_messages (index_deletion r store) = st_messages store"
  "st_attempts (index_deletion r store) = st_attempts store"
  by (simp_all add: index_deletion_def)

lemma bt_get_fold_same:
  "bt_get (fold (\<lambda>t. bt_insert (f t) v) ts m) i = (if i \<in> f ` set ts then Some v else bt_get m i)"
  by (induction ts arbitrary: m) auto

lemma bt_wf_fold_same: "bt_wf m \<Longrightarrow> bt_wf (fold (\<lambda>t. bt_insert (f t) v) ts m)"
  by (induction ts arbitrary: m) (auto intro: wf_intros)

lemma bt_get_index_deletion:
  "bt_get (st_targets (index_deletion r store)) i =
     (if i \<in> (\<lambda>t. index_key (dr_context r) t (storage_key r)) ` set (index_targets r) then Some (storage_key r)
      else bt_get (st_targets store) i)"
  by (simp add: index_deletion_def bt_get_fold_same)

lemma bt_wf_index_deletion [wf_intros]: "bt_wf (st_targets store) \<Longrightarrow> bt_wf (st_targets (index_deletion r store))"
  by (simp add: index_deletion_def bt_wf_fold_same)

lemma index_sound_iff:
  "bt_wf (st_targets store) \<Longrightarrow> index_sound store \<longleftrightarrow>
     (\<forall>i k. bt_get (st_targets store) i = Some k \<longrightarrow> i = READY \<or>
        (\<exists>c t rest. plain c \<and> plain t \<and> i = index_key c t k \<and> k = c @ CHR 0x01 # rest))"
  by (auto simp: index_sound_def bt_get_eq_Some_iff)

lemma index_deletion_sound:
  assumes "bt_wf (st_targets store)" and "index_sound store" and "plain_record r"
  shows "index_sound (index_deletion r store)"
proof -
  have entry: "\<exists>c t' rest. plain c \<and> plain t' \<and> index_key (dr_context r) t (storage_key r) = index_key c t' (storage_key r) \<and>
      storage_key r = c @ CHR 0x01 # rest" if "t \<in> set (index_targets r)" for t
  proof -
    obtain rest where "storage_key r = dr_context r @ CHR 0x01 # rest" by (simp add: storage_key_def)
    with assms(3) that show ?thesis unfolding plain_record_def list_all_iff by blast
  qed
  show ?thesis
    unfolding index_sound_iff [OF bt_wf_index_deletion [OF assms(1)]] bt_get_index_deletion
    using entry assms(2) [unfolded index_sound_iff [OF assms(1)]] by (auto split: if_splits)
qed

lemma index_deletion_keeps:
  "bt_get (st_targets store) (index_key c t k) = Some k \<Longrightarrow>
   plain c \<Longrightarrow> plain t \<Longrightarrow> plain_record r \<Longrightarrow>
   bt_get (st_targets (index_deletion r store)) (index_key c t k) = Some k"
  by (auto simp: bt_get_index_deletion plain_record_def list_all_iff index_key_def split_at_separator)

lemma merged_cases: "merged old r = old \<or> merged old r = r"
  by (simp add: merged_def)

lemma index_ok_update:
  assumes ok: "index_ok store" and r: "plain_record r"
  shows "index_ok (index_deletion r (store\<lparr>st_deletions := bt_insert (storage_key r) r (st_deletions store)\<rparr>))"
    (is "index_ok (index_deletion r ?store)")
proof -
  have wf: "bt_wf (st_deletions store)" "bt_wf (st_targets store)" and complete: "index_complete store"
    and sound: "index_sound store"
    using ok by (simp_all add: index_ok_def)
  have "index_sound (index_deletion r ?store)"
    using wf sound r by (intro index_deletion_sound) (simp_all add: index_sound_def)
  moreover have "k = storage_key r' \<and> plain_record r' \<and> (\<forall>t \<in> set (index_targets r').
      bt_get (st_targets (index_deletion r ?store)) (index_key (dr_context r') t k) = Some k)"
    if "bt_get (st_deletions ?store) k = Some r'" for k r'
  proof (cases "k = storage_key r")
    case True
    with that r show ?thesis by (auto simp: bt_get_index_deletion)
  next
    case False
    with that have k: "bt_get (st_deletions store) k = Some r'" by simp
    have "bt_get (st_targets (index_deletion r ?store)) (index_key (dr_context r') t k) = Some k"
      if "t \<in> set (index_targets r')" for t
      using complete bt_get_mem [OF k] that r index_ok_record [OF ok k]
      by (intro index_deletion_keeps) (auto simp: index_complete_def plain_record_def list_all_iff)
    with index_ok_record [OF ok k] show ?thesis by simp
  qed
  then have "index_complete (index_deletion r ?store)"
    using wf bt_wf_insert [OF wf(1)] by (auto simp: index_complete_def bt_get_eq_Some_iff simp del: bt_get_insert)
  ultimately show ?thesis
    using wf by (simp add: index_ok_def wf_intros)
qed

lemma index_ok_merge [wf_intros]:
  assumes "index_ok store" and "plain_record r"
  shows "index_ok (merge_deletion_row r store)"
proof (cases "bt_get (st_deletions store) (storage_key r)")
  case None
  then show ?thesis using index_ok_update [OF assms] by (simp add: merge_deletion_row_def)
next
  case (Some old)
  note old = index_ok_record [OF assms(1) Some]
  have "index_ok (index_deletion (merged old r)
      (store\<lparr>st_deletions := bt_insert (storage_key (merged old r)) (merged old r) (st_deletions store)\<rparr>))"
    using merged_cases [of old r] old assms by (intro index_ok_update) auto
  moreover have "storage_key (merged old r) = storage_key r" using merged_cases [of old r] old by auto
  ultimately show ?thesis using Some by (simp add: merge_deletion_row_def Let_def)
qed

section \<open>What the guard does\<close>

abbreviation kind_ok :: "'x message_scheme message_kind \<Rightarrow> bool" where
  "kind_ok kd \<equiv> conversation_message (mk_author kd) (mk_is_service kd) (mk_erase kd)"

lemma kinds_ok: "kind_ok chat_kind" "kind_ok group_kind" "kind_ok channel_kind"
  using chat.conversation_message_axioms group.conversation_message_axioms channel.conversation_message_axioms
  by (simp_all add: chat_kind_def group_kind_def channel_kind_def)

definition erased :: "'x message_scheme \<Rightarrow> bool" where
  "erased m \<longleftrightarrow> is_tombstone m \<and> body m = [] \<and> attachment m = None"

abbreviation row_erased :: "'x message_scheme stored_message \<Rightarrow> bool" where
  "row_erased row \<equiv> erased (sm_message row) \<and> sm_attachment_manifest row = None \<and> sm_preview_manifest row = None"

lemma erase_row_erased:
  assumes "kind_ok kd"
  shows "row_erased (erase_row kd r target correlation row)"
    and "sm_message_id (erase_row kd r target correlation row) = sm_message_id row"
    and "deletion_of (sm_message (erase_row kd r target correlation row)) = Some (record_marker r)"
  using assms [THEN conversation_message.erase_metadata] assms [THEN conversation_message.erase_body]
    assms [THEN conversation_message.erase_attachment]
  by (simp_all add: erased_def erase_row_def deletion_of_def)

lemma enqueue_fields [simp]:
  "st_deletions (enqueue_attachment_gc a store) = st_deletions store"
  "st_targets (enqueue_attachment_gc a store) = st_targets store"
  "st_identity (enqueue_attachment_gc a store) = st_identity store"
  "st_messages (enqueue_attachment_gc a store) = st_messages store"
  "st_attempts (enqueue_attachment_gc a store) = st_attempts store"
  by (simp_all add: enqueue_attachment_gc_def)

lemma fold_enqueue_fields [simp]:
  "st_deletions (fold enqueue_attachment_gc as store) = st_deletions store"
  "st_identity (fold enqueue_attachment_gc as store) = st_identity store"
  by (induction as arbitrary: store) simp_all

lemma erase_known_target_fields [simp]:
  "st_deletions (fst (erase_known_target env kd scope row store)) = st_deletions store"
  "st_identity (fst (erase_known_target env kd scope row store)) = st_identity store"
  "st_messages (fst (erase_known_target env kd scope row store)) = st_messages store"
  "st_attempts (fst (erase_known_target env kd scope row store)) = st_attempts store"
  by (simp_all add: erase_known_target_def Let_def split: option.split)

lemma erase_known_target_row:
  assumes "kind_ok kd"
  shows "snd (erase_known_target env kd scope row store) = row \<or> row_erased (snd (erase_known_target env kd scope row store))"
    and "sm_message_id (snd (erase_known_target env kd scope row store)) = sm_message_id row"
  using erase_row_erased [OF assms] by (auto simp: erase_known_target_def Let_def split: option.split)

text \<open>
  C12. No deleted message is written back to the history. When the index agrees with the table, the
  guard that every history row passes erases it, text, attachment and manifests, if and only if a
  record of the conversation for everyone or of the own user names its target or correlation; it
  then carries the marker of the foremost such record. Any other row passes unchanged. So the two
  range reads of the index find what a scan of all records would.
\<close>

theorem guard_erases_exactly:
  assumes "index_ok store" and "kind_ok kd" and "c = row_context scope (sm_conversation_id row)" and "plain c"
    and "correlation = history_message_key env kd c row"
    and "(case history_target env c (sm_message row) of Some t \<Rightarrow> Some t | None \<Rightarrow> correlation) = Some target"
    and "plain target" and "pred_option plain correlation"
    and "erase_known_target env kd scope row store = (store', row')"
  shows "case max_by_key guard_priority (filter (counts_for (deletion_owner store) target correlation) (records_in c store)) of
      None \<Rightarrow> store' = store \<and> row' = row
    | Some r \<Rightarrow> row_erased row' \<and> deletion_of (sm_message row') = Some (record_marker r) \<and>
        sm_message_id row' = sm_message_id row \<and> st_deletions store' = st_deletions store"
proof -
  have scan: "matching_deletion store c target correlation (deletion_owner store) =
      max_by_key guard_priority (filter (counts_for (deletion_owner store) target correlation) (records_in c store))"
    using assms(1,4,7,8) by (intro matching_deletion_scan) (auto simp: option.pred_set)
  have step: "erase_known_target env kd scope row store =
      (case matching_deletion store c target correlation (deletion_owner store) of
         None \<Rightarrow> (store, row)
       | Some r \<Rightarrow> (fst (erase_known_target env kd scope row store), erase_row kd r target correlation row))"
    unfolding erase_known_target_def Let_def assms(3) [symmetric] assms(5) [symmetric] assms(6) option.case
    by (cases "matching_deletion store c target correlation (deletion_owner store)") simp_all
  have deletions: "st_deletions store' = st_deletions store"
    using erase_known_target_fields(1) [of env kd scope row store] assms(9) by simp
  show ?thesis
  proof (cases "matching_deletion store c target correlation (deletion_owner store)")
    case None
    with step assms(9) scan [symmetric] show ?thesis by simp
  next
    case (Some r)
    with step assms(9) have "row' = erase_row kd r target correlation row" by simp
    with erase_row_erased [OF assms(2)] Some scan [symmetric] deletions show ?thesis by simp
  qed
qed

section \<open>What a commit leaves in the tables\<close>

lemma commit_erased_row_fields:
  "st_deletions (fst (commit_erased_row env kd scope cancelled row store)) = st_deletions store"
  "st_identity (fst (commit_erased_row env kd scope cancelled row store)) = st_identity store"
  by (simp_all add: commit_erased_row_def Let_def case_prod_unfold)

lemma commit_rows_fields:
  "st_deletions (fst (commit_rows env kd scope cancelled rows store markers)) = st_deletions store"
  "st_identity (fst (commit_rows env kd scope cancelled rows store markers)) = st_identity store"
  by (induction rows arbitrary: store markers)
    (simp_all add: case_prod_unfold Let_def commit_erased_row_fields)

abbreviation row_key :: "'m stored_message \<Rightarrow> string" where
  "row_key row \<equiv> history_row_key (sm_conversation_id row) (sm_sent_at_ms row) (sm_message_id row)"

definition durably_erased :: "'x message_scheme deletion_store \<Rightarrow> string \<Rightarrow> bool" where
  "durably_erased store key \<longleftrightarrow> (\<exists>row. bt_get (st_messages store) key = Some row \<and> row_erased row)"

lemma commit_erased_row_durable:
  assumes "kind_ok kd" and "row_erased row"
  shows "durably_erased (fst (commit_erased_row env kd scope cancelled row store)) key \<longleftrightarrow>
      key = row_key row \<or> durably_erased store key"
proof -
  have "row_erased (snd (erase_known_target env kd scope row store))"
    using erase_known_target_row(1) [OF assms(1), of env scope row store] assms(2) by auto
  then show ?thesis
    by (auto simp: commit_erased_row_def Let_def case_prod_unfold durably_erased_def)
qed

lemma commit_rows_durable:
  assumes "kind_ok kd" and "\<forall>row \<in> set rows. row_erased row"
  shows "durably_erased (fst (commit_rows env kd scope cancelled rows store markers)) key \<longleftrightarrow>
      key \<in> row_key ` set rows \<or> durably_erased store key"
  using assms(2)
  by (induction rows arbitrary: store markers)
    (auto simp: case_prod_unfold Let_def commit_erased_row_durable [OF assms(1)])

lemma commit_erased_row_attempts:
  "st_attempts (fst (commit_erased_row env kd scope cancelled row store)) =
     (if sm_message_id row \<in> cancelled
      then bt_remove (outbound_attempt_key scope (sm_conversation_id row) (sm_message_id row)) (st_attempts store)
      else st_attempts store)"
  by (simp add: commit_erased_row_def Let_def case_prod_unfold)

lemma commit_rows_attempts:
  "bt_get (st_attempts (fst (commit_rows env kd scope cancelled rows store markers))) key =
     (if \<exists>row \<in> set rows. sm_message_id row \<in> cancelled \<and>
           key = outbound_attempt_key scope (sm_conversation_id row) (sm_message_id row)
      then None else bt_get (st_attempts store) key)"
  by (induction rows arbitrary: store markers)
    (auto simp: case_prod_unfold Let_def commit_erased_row_attempts)

section \<open>A concrete store\<close>

text \<open>
  User 1 wrote one message in the conversation of \<open>Deletion_Protocol\<close>. JSON is constant, the store is
  empty and its database may fail.
\<close>

definition demo_erasure_env :: "string option \<Rightarrow> (bytes, byte, bytes, chat_message, unit) erasure_env" where
  "demo_erasure_env fault = deletion_env.extend demo_deletion_env
     \<lparr>target_json = (\<lambda>_. Some []), text_json = (\<lambda>_. Some []), manifest_json = (\<lambda>_. Some []), db_fault = fault,
      tr_manifest = (\<lambda>_ _. None), tr_erasure = (\<lambda>_ a. [a]), tr_visible_id = (\<lambda>_ i. i), tr_forget = (\<lambda>_ t. t),
      tr_clean = (\<lambda>_ _ t. (t, Ok True)), tr_gc_after = (\<lambda>_. None), tr_set_gc_after = (\<lambda>_ t. t)\<rparr>"

definition demo_deleted :: "byte \<Rightarrow> chat_message" where
  "demo_deleted x =
     \<lparr>metadata = Some (default_metadata\<lparr>md_origin := Some (demo_origin x)\<rparr>), from_device = ''phone'', body = ''hi'',
      message_id = Some ''m1'', sent_at_ms = Some 5, attachment = None, delivery_status = None,
      delivery_error = None, retryable = None, retry_count = None, call_event = None, read_receipt = None\<rparr>"

definition demo_store :: "chat_message deletion_store" where
  "demo_store =
     \<lparr>st_deletions = [], st_targets = [], st_acceptance = [], st_identity = None, st_messages = [], st_attempts = [],
      st_gc = []\<rparr>"

lemma demo_erasure_fields [simp]:
  "arost (demo_erasure_env f) = demo_account_roster" "origin_json (demo_erasure_env f) a = Some []"
  "text_json (demo_erasure_env f) b = Some []" "db_fault (demo_erasure_env f) = f"
  "request_json (demo_erasure_env f) q = Some []"
  "ack_json (demo_erasure_env f) u = Some []" "ownership_json (demo_erasure_env f) d = Some []"
  "proof_from_json (demo_erasure_env f) = proof_from_json demo_account_env"
  "delegation_json (demo_erasure_env f) e = Some []"
  by (simp_all add: demo_erasure_env_def demo_deletion_env_def deletion_env.defs account_env.defs demo_account_env_def)

lemma index_ok_empty: "index_ok demo_store"
  by (simp add: index_ok_def index_complete_def index_sound_def demo_store_def)

definition demo_row :: "chat_message stored_message" where
  "demo_row =
     \<lparr>sm_conversation_id = ''c'', sm_sent_at_ms = 5, sm_message_id = ''m1'',
      sm_message = (demo_deleted 1)\<lparr>metadata := Some (default_metadata\<lparr>md_deletion_key := Some ''k''\<rparr>)\<rparr>,
      sm_attachment_manifest = None, sm_preview_manifest = None\<rparr>"

lemma demo_row_keys:
  "history_message_key (demo_erasure_env None) chat_kind ''dm:c'' demo_row = Some []"
  "history_target (demo_erasure_env None) ''dm:c'' (sm_message demo_row) = Some ''k''"
  by (simp_all add: history_message_key_def history_text_key_def history_target_def demo_row_def demo_deleted_def
      default_metadata_def deletion_of_def verified_origin_def origin_of_def history_author_def correlation_key_def
      hex_digest_def chat_kind_def chat_is_service_def demo_account_roster_def)

theorem guard_erases_exactly_witness:
  "row_erased (snd (erase_known_target (demo_erasure_env None) chat_kind ''private_dm'' demo_row
      (merge_deletion_row ((demo_record 1 DeletionPending None)\<lparr>dr_key := ''k''\<rparr>) demo_store)))"
proof -
  let ?r = "(demo_record 1 DeletionPending None)\<lparr>dr_key := ''k''\<rparr>"
  let ?store = "merge_deletion_row ?r demo_store"
  let ?out = "erase_known_target (demo_erasure_env None) chat_kind ''private_dm'' demo_row ?store"
  have ok: "index_ok ?store"
    by (intro index_ok_merge index_ok_empty) (simp add: plain_record_def index_targets_def demo_record_def)
  have c: "''dm:c'' = row_context ''private_dm'' (sm_conversation_id demo_row)"
    by (simp add: row_context_def demo_row_def)
  have t: "(case history_target (demo_erasure_env None) ''dm:c'' (sm_message demo_row) of
      Some t \<Rightarrow> Some t | None \<Rightarrow> Some []) = Some ''k''"
    by (simp add: demo_row_keys)
  have "filter (counts_for (deletion_owner ?store) ''k'' (Some [])) (records_in ''dm:c'' ?store) = [?r]"
    by (simp add: counts_for_def records_in_def merge_deletion_row_def Let_def demo_store_def bt_values_def matches_def)
      (simp add: demo_record_def)
  with guard_erases_exactly [OF ok kinds_ok(1) c _ demo_row_keys(1) [symmetric] t, of "fst ?out" "snd ?out"]
  show ?thesis by simp
qed

end
