(* ===== verification/Deletion_Erasure.thy ===== *)
theory Deletion_Erasure
  imports Deletion_Store
begin

text \<open>
  Applying deletion records to a conversation (\<open>message_deletion/application.rs\<close>): an install merges
  records into the book, plans the erasure of every message one of them is about, commits records,
  erased history rows and cancelled send attempts in one transaction, and only then changes the
  conversation in memory.

  Shown here: an installed deletion erases exactly the messages it names, in memory and in the
  history table, and a cancelled message has no send attempt left; a failed install leaves the
  conversation as it was; the book in memory stays equal to the durable table, which the operations
  change by merging.
\<close>

section \<open>Erasure\<close>

record ('m, 't) deletion_context =
  dc_book :: "'m deletion_book"
  dc_log :: "'m message_log"
  dc_attempts :: "(string, outbound_attempt) fmap"
  dc_transfer :: 't

record 'm erasure =
  er_index :: nat
  er_message :: 'm
  er_row :: "'m stored_message"

record 'm erasure_plan =
  pl_merged :: deletion_records
  pl_changes :: "'m erasure list"
  pl_cancelled :: "string set"
  pl_attachments :: "attachment_descriptor list"

text \<open>The part of a context after its first colon, or the whole of it.\<close>

definition conversation_part :: "string \<Rightarrow> string" where
  "conversation_part context =
     (case dropWhile (\<lambda>c. c \<noteq> CHR '':'') context of [] \<Rightarrow> context | _ # rest \<Rightarrow> rest)"

definition new_erasure :: "nat \<Rightarrow> 'x message_scheme \<Rightarrow> string \<Rightarrow> 'x message_scheme erasure" where
  "new_erasure index m context =
     \<lparr>er_index = index, er_message = m,
      er_row = \<lparr>sm_conversation_id = conversation_part context,
        sm_sent_at_ms = (case sent_at_ms m of None \<Rightarrow> 0 | Some t \<Rightarrow> t),
        sm_message_id = (case message_id m of None \<Rightarrow> [] | Some i \<Rightarrow> i), sm_message = m,
        sm_attachment_manifest = None, sm_preview_manifest = None\<rparr>\<rparr>"

definition record_priority :: "deletion_record \<Rightarrow> bool \<times> bool \<times> string" where
  "record_priority r =
     (dr_scope r = ForMe \<or> dr_status r = DeletionRejected, dr_status r = DeletionConfirmed, storage_key r)"

definition erased_message ::
    "'x message_scheme message_kind \<Rightarrow> 'x message_scheme \<Rightarrow> string \<Rightarrow> bool \<Rightarrow> string option \<Rightarrow> deletion_marker \<Rightarrow>
     'x message_scheme" where
  "erased_message kd m key local_only correlation marker =
     mk_erase kd (m\<lparr>metadata := Some ((case metadata m of None \<Rightarrow> default_metadata | Some d \<Rightarrow> d)
       \<lparr>md_personal_correlation := (case correlation of None \<Rightarrow> None
          | Some alias \<Rightarrow> if alias \<noteq> key then Some alias else None),
        md_deletion_key := Some key, md_local_only := local_only, md_deletion := Some marker,
        md_can_delete_for_everyone := False\<rparr>)\<rparr>)"

definition prepare_message ::
    "('vk, 'sg, 'sk, 'x message_scheme, 't, 'z) erasure_env_scheme \<Rightarrow> 'x message_scheme message_kind \<Rightarrow> string \<Rightarrow>
     't \<Rightarrow> deletion_record list \<Rightarrow> nat \<Rightarrow> 'x message_scheme \<Rightarrow>
     (string, 'x message_scheme erasure list) result" where
  "prepare_message env kd context tr records index m =
     and_then (deletion_target env kd context m tr) (\<lambda>(key, local_only).
     and_then (message_key env kd context m tr) (\<lambda>correlation.
       (case max_by_key record_priority (filter (\<lambda>r. matches r key correlation) records) of
          None \<Rightarrow> Ok []
        | Some r \<Rightarrow>
            if deletion_of m = Some (record_marker r) then Ok []
            else Ok [new_erasure index (erased_message kd m key local_only correlation (record_marker r)) context])))"

fun prepare_from ::
    "('vk, 'sg, 'sk, 'x message_scheme, 't, 'z) erasure_env_scheme \<Rightarrow> 'x message_scheme message_kind \<Rightarrow> string \<Rightarrow>
     't \<Rightarrow> deletion_record list \<Rightarrow> nat \<Rightarrow> 'x message_scheme list \<Rightarrow>
     (string, 'x message_scheme erasure list) result" where
  "prepare_from env kd context tr records index [] = Ok []"
| "prepare_from env kd context tr records index (m # ms) =
     and_then (prepare_message env kd context tr records index m) (\<lambda>c.
     and_then (prepare_from env kd context tr records (Suc index) ms) (\<lambda>cs. Ok (c @ cs)))"

definition merge_all :: "deletion_record list \<Rightarrow> deletion_records \<Rightarrow> deletion_records" where
  "merge_all rs records = fold merge_into rs records"

definition relevant :: "string \<Rightarrow> deletion_records \<Rightarrow> deletion_record list" where
  "relevant owner records =
     filter (\<lambda>r. dr_scope r = ForEveryone \<or> dr_owner r = owner) (bt_values records)"

definition is_cancelled ::
    "(string, outbound_attempt) fmap \<Rightarrow> 'x message_scheme erasure \<Rightarrow> bool" where
  "is_cancelled attempts c \<longleftrightarrow>
     (case deletion_of (er_message c) of None \<Rightarrow> False | Some d \<Rightarrow> dm_scope d = ForEveryone) \<or>
     (case fmlookup attempts (sm_message_id (er_row c)) of
        None \<Rightarrow> True | Some a \<Rightarrow> at_ever_published a = Some False)"

definition erasure_descriptors ::
    "('vk, 'sg, 'sk, 'x message_scheme, 't, 'z) erasure_env_scheme \<Rightarrow> 't \<Rightarrow> 'x message_scheme list \<Rightarrow>
     'x message_scheme erasure \<Rightarrow> attachment_descriptor list" where
  "erasure_descriptors env tr ms c =
     (case attachment (ms ! er_index c) of None \<Rightarrow> [] | Some a \<Rightarrow> tr_erasure env tr a)"

definition new_plan ::
    "('vk, 'sg, 'sk, 'x message_scheme, 't, 'z) erasure_env_scheme \<Rightarrow> 'x message_scheme message_kind \<Rightarrow>
     deletion_record list \<Rightarrow> ('x message_scheme, 't) deletion_context \<Rightarrow>
     (string, 'x message_scheme erasure_plan) result" where
  "new_plan env kd records ctx =
     (let after = merge_all records (bk_records (dc_book ctx))
      in and_then (map_err deletion_error_text (book_user env (dc_book ctx))) (\<lambda>owner.
         and_then (prepare_from env kd (bk_context (dc_book ctx)) (dc_transfer ctx) (relevant owner after) 0
             (log_messages (dc_log ctx))) (\<lambda>changes.
           Ok \<lparr>pl_merged = after, pl_changes = changes,
               pl_cancelled = set (map (\<lambda>c. sm_message_id (er_row c)) (filter (is_cancelled (dc_attempts ctx)) changes)),
               pl_attachments = concat (map (erasure_descriptors env (dc_transfer ctx) (log_messages (dc_log ctx))) changes)\<rparr>)))"

definition plan_unchanged ::
    "('vk, 'sg, 'sk, 'm, 't, 'z) erasure_env_scheme \<Rightarrow> deletion_record list \<Rightarrow> bool \<Rightarrow> 'm deletion_book \<Rightarrow>
     'm erasure_plan \<Rightarrow> bool" where
  "plan_unchanged env records accepted b plan \<longleftrightarrow>
     pl_changes plan = [] \<and>
     list_all (\<lambda>r. bt_get (pl_merged plan) (storage_key r) = bt_get (bk_records b) (storage_key r)) records \<and>
     (\<not> accepted \<or>
      list_all (\<lambda>r. case Option.bind (dr_request r) (\<lambda>q. to_option (request_digest env q)) of
          None \<Rightarrow> False | Some d \<Rightarrow> d \<in> bk_accepted b)
        (filter (\<lambda>r. dr_status r = DeletionConfirmed) records))"

definition mark_change ::
    "(string \<Rightarrow> deletion_marker option) \<Rightarrow> 'x message_scheme erasure \<Rightarrow> 'x message_scheme erasure" where
  "mark_change markers c =
     (case markers (sm_message_id (er_row c)) of
        None \<Rightarrow> c
      | Some marker \<Rightarrow>
          c\<lparr>er_message := (er_message c)
             \<lparr>metadata := map_option (\<lambda>d. d\<lparr>md_deletion := Some marker\<rparr>) (metadata (er_message c))\<rparr>\<rparr>)"

text \<open>
  The index of a change is a position of the log it was made from, so the replacement never fails
  (lemma \<open>prepare_index\<close>).
\<close>

definition apply_change ::
    "string set \<Rightarrow> 'x message_scheme erasure \<Rightarrow> ('x message_scheme, 't) deletion_context \<Rightarrow>
     ('x message_scheme, 't) deletion_context" where
  "apply_change cancelled c ctx =
     ctx\<lparr>dc_attempts := (if sm_message_id (er_row c) \<in> cancelled
           then fmdrop (sm_message_id (er_row c)) (dc_attempts ctx) else dc_attempts ctx),
         dc_log := (case log_replace (er_index c) (er_message c) (dc_log ctx) of
           None \<Rightarrow> dc_log ctx | Some l \<Rightarrow> l)\<rparr>"

definition drop_attachment ::
    "('vk, 'sg, 'sk, 'x message_scheme, 't, 'z) erasure_env_scheme \<Rightarrow> attachment_descriptor \<Rightarrow>
     ('x message_scheme, 't) deletion_context \<Rightarrow> ('x message_scheme, 't) deletion_context" where
  "drop_attachment env a ctx =
     (let shown = tr_visible_id env (dc_transfer ctx) (ad_attachment_id a);
          tr1 = (if list_ex (\<lambda>m. case attachment m of None \<Rightarrow> False | Some b \<Rightarrow> ad_attachment_id b = shown)
                     (log_messages (dc_log ctx))
                 then dc_transfer ctx else tr_forget env (ad_attachment_id a) (dc_transfer ctx))
      in ctx\<lparr>dc_transfer := fst (tr_clean env a (bk_store (dc_book ctx)) tr1)\<rparr>)"

definition apply_plan ::
    "('vk, 'sg, 'sk, 'x message_scheme, 't, 'z) erasure_env_scheme \<Rightarrow> 'x message_scheme erasure_plan \<Rightarrow>
     ('x message_scheme, 't) deletion_context \<Rightarrow> ('x message_scheme, 't) deletion_context" where
  "apply_plan env plan ctx =
     fold (drop_attachment env) (pl_attachments plan)
       (fold (apply_change (pl_cancelled plan)) (pl_changes plan)
         (ctx\<lparr>dc_book := (dc_book ctx)\<lparr>bk_records := pl_merged plan\<rparr>\<rparr>))"

text \<open>The digests of confirmed records accepted here; the loop stops at the first that fails.\<close>

fun note_accepted ::
    "('vk, 'sg, 'sk, 'm, 't, 'z) erasure_env_scheme \<Rightarrow> deletion_record list \<Rightarrow> string set \<Rightarrow>
     string set \<times> (string, unit) result" where
  "note_accepted env [] accepted = (accepted, Ok ())"
| "note_accepted env (r # rs) accepted =
     (case and_then (ok_or (dr_request r) ''missing request'') (request_digest env) of
        Inl e \<Rightarrow> (accepted, Err e)
      | Inr d \<Rightarrow> note_accepted env rs (insert d accepted))"

definition finish_install ::
    "('vk, 'sg, 'sk, 'x message_scheme, 't, 'z) erasure_env_scheme \<Rightarrow> deletion_record list \<Rightarrow> bool \<Rightarrow>
     'x message_scheme erasure_plan \<Rightarrow> ('x message_scheme, 't) deletion_context \<Rightarrow>
     ('x message_scheme, 't) deletion_context \<times> (string, unit) result" where
  "finish_install env records accepted plan ctx =
     (let (digests, outcome) =
            (if accepted then
               note_accepted env (filter (\<lambda>r. dr_status r = DeletionConfirmed \<and> dr_acknowledgement r \<noteq> None) records)
                 (bk_accepted (dc_book ctx))
             else (bk_accepted (dc_book ctx), Ok ()));
          ctx1 = ctx\<lparr>dc_book := (dc_book ctx)\<lparr>bk_accepted := digests\<rparr>\<rparr>
      in case outcome of
           Inl e \<Rightarrow> (ctx1, Err e)
         | Inr _ \<Rightarrow> (apply_plan env plan ctx1, Ok ()))"

definition install ::
    "('vk, 'sg, 'sk, 'x message_scheme, 't, 'z) erasure_env_scheme \<Rightarrow> 'x message_scheme message_kind \<Rightarrow>
     deletion_record list \<Rightarrow> bool \<Rightarrow> ('x message_scheme, 't) deletion_context \<Rightarrow>
     ('x message_scheme, 't) deletion_context \<times> (string, unit) result" where
  "install env kd records accepted ctx =
     (case new_plan env kd records ctx of
        Inl e \<Rightarrow> (ctx, Err e)
      | Inr plan \<Rightarrow>
          if plan_unchanged env records accepted (dc_book ctx) plan then (ctx, Ok ())
          else
            (case bk_store (dc_book ctx) of
               None \<Rightarrow> finish_install env records accepted plan ctx
             | Some store \<Rightarrow>
                 (case commit_message_deletions env kd (bk_scope (dc_book ctx)) records (map er_row (pl_changes plan))
                       (pl_cancelled plan) (pl_attachments plan) accepted store of
                    Inl e \<Rightarrow> (ctx, Err e)
                  | Inr (store', markers) \<Rightarrow>
                      finish_install env records accepted
                        (plan\<lparr>pl_changes := map (mark_change markers) (pl_changes plan)\<rparr>)
                        (ctx\<lparr>dc_book := (dc_book ctx)\<lparr>bk_store := Some store'\<rparr>\<rparr>))))"

definition apply_deletions ::
    "('vk, 'sg, 'sk, 'x message_scheme, 't, 'z) erasure_env_scheme \<Rightarrow> 'x message_scheme message_kind \<Rightarrow>
     ('x message_scheme, 't) deletion_context \<Rightarrow> ('x message_scheme, 't) deletion_context \<times> (string, unit) result" where
  "apply_deletions env kd ctx =
     (let ctx1 = (case bk_store (dc_book ctx) of
            None \<Rightarrow> ctx
          | Some store \<Rightarrow>
              (let (store1, tr1) = collect_erased_cache env store (dc_transfer ctx)
               in ctx\<lparr>dc_book := (dc_book ctx)\<lparr>bk_store := Some store1\<rparr>, dc_transfer := tr1\<rparr>));
          (b, outcome) = reload env (dc_book ctx1);
          ctx2 = ctx1\<lparr>dc_book := b\<rparr>
      in case outcome of
           Inl e \<Rightarrow> (ctx2, Err e)
         | Inr _ \<Rightarrow>
             if bk_records b = [] then (ctx2, Ok ())
             else
               (case map_err deletion_error_text (book_user env b) of
                  Inl e \<Rightarrow> (ctx2, Err e)
                | Inr user \<Rightarrow> install env kd (relevant user (bk_records b)) False ctx2))"

section \<open>What applying a plan does\<close>

lemma mark_change_fields [simp]:
  "er_index (mark_change markers c) = er_index c" "er_row (mark_change markers c) = er_row c"
  by (simp_all add: mark_change_def split: option.split)

lemma mark_change_none [simp]: "mark_change (\<lambda>_. None) = (\<lambda>c. c)"
  by (simp add: mark_change_def fun_eq_iff)

lemma apply_change_fields [simp]:
  "dc_book (apply_change cancelled c ctx) = dc_book ctx"
  "dc_transfer (apply_change cancelled c ctx) = dc_transfer ctx"
  by (simp_all add: apply_change_def)

lemma apply_change_log:
  "log_messages (dc_log (apply_change cancelled c ctx)) = (log_messages (dc_log ctx))[er_index c := er_message c]"
  by (simp add: apply_change_def log_replace_def list_update_beyond)

lemma drop_attachment_fields [simp]:
  "dc_book (drop_attachment env a ctx) = dc_book ctx" "dc_log (drop_attachment env a ctx) = dc_log ctx"
  "dc_attempts (drop_attachment env a ctx) = dc_attempts ctx"
  by (simp_all add: drop_attachment_def Let_def)

lemma fold_drop_attachment [simp]:
  "dc_book (fold (drop_attachment env) as ctx) = dc_book ctx"
  "dc_log (fold (drop_attachment env) as ctx) = dc_log ctx"
  by (induction as arbitrary: ctx) simp_all

lemma fold_apply_change_book [simp]: "dc_book (fold (apply_change cancelled) cs ctx) = dc_book ctx"
  by (induction cs arbitrary: ctx) simp_all

text \<open>The new form of one message under the records: erased if one matches, else as it was.\<close>

definition after_erasure ::
    "('vk, 'sg, 'sk, 'x message_scheme, 't, 'z) erasure_env_scheme \<Rightarrow> 'x message_scheme message_kind \<Rightarrow> string \<Rightarrow>
     't \<Rightarrow> deletion_record list \<Rightarrow> (string \<Rightarrow> deletion_marker option) \<Rightarrow> 'x message_scheme \<Rightarrow> 'x message_scheme" where
  "after_erasure env kd context tr records markers m =
     (case prepare_message env kd context tr records 0 m of
        Inr (c # _) \<Rightarrow> er_message (mark_change markers c)
      | _ \<Rightarrow> m)"

lemma prepare_message_index:
  "prepare_message env kd context tr records i m =
     (case prepare_message env kd context tr records 0 m of
        Inl e \<Rightarrow> Inl e | Inr cs \<Rightarrow> Inr (map (\<lambda>c. c\<lparr>er_index := i\<rparr>) cs))"
proof (cases "deletion_target env kd context m tr")
  case (Inr kl)
  then show ?thesis
    by (cases kl; cases "message_key env kd context m tr")
      (auto simp: prepare_message_def new_erasure_def split: option.splits)
qed (simp add: prepare_message_def)

lemma prepare_message_at_most_one: "prepare_message env kd context tr records i m = Ok cs \<Longrightarrow> length cs \<le> 1"
  by (auto simp: prepare_message_def and_then_Ok_iff split: option.splits if_splits)

lemma mark_change_index: "mark_change markers (c\<lparr>er_index := i\<rparr>) = (mark_change markers c)\<lparr>er_index := i\<rparr>"
  by (simp add: mark_change_def split: option.split)

lemma prepare_message_effect:
  assumes "prepare_message env kd context tr records i m = Ok cs"
    and "log_messages (dc_log ctx) = pre @ m # ms" and "length pre = i"
  shows "log_messages (dc_log (fold (apply_change cancelled) (map (mark_change markers) cs) ctx)) =
     pre @ after_erasure env kd context tr records markers m # ms"
proof -
  obtain cs0 where cs0: "prepare_message env kd context tr records 0 m = Ok cs0"
    and cs: "cs = map (\<lambda>c. c\<lparr>er_index := i\<rparr>) cs0"
    using assms(1) prepare_message_index [of env kd "context" tr records i m] by (auto split: sum.splits)
  consider "cs0 = []" | c where "cs0 = [c]"
    using prepare_message_at_most_one [OF cs0] by (cases cs0) auto
  then show ?thesis
  proof cases
    case 1
    then show ?thesis using assms(2) cs0 cs by (simp add: after_erasure_def)
  next
    case 2
    then show ?thesis
      using assms(2) cs0 cs by (simp add: after_erasure_def apply_change_log mark_change_index assms(3) [symmetric])
  qed
qed

lemma prepare_from_effect:
  "prepare_from env kd context tr records i ms = Ok cs \<Longrightarrow> log_messages (dc_log ctx) = pre @ ms \<Longrightarrow> length pre = i \<Longrightarrow>
   log_messages (dc_log (fold (apply_change cancelled) (map (mark_change markers) cs) ctx)) =
     pre @ map (after_erasure env kd context tr records markers) ms"
proof (induction ms arbitrary: i cs ctx pre)
  case Nil
  then show ?case by simp
next
  case (Cons m ms)
  then obtain c cs1 where c: "prepare_message env kd context tr records i m = Ok c"
    and cs1: "prepare_from env kd context tr records (Suc i) ms = Ok cs1" and cs: "cs = c @ cs1"
    by (auto simp: and_then_Ok_iff)
  let ?ctx = "fold (apply_change cancelled) (map (mark_change markers) c) ctx"
  have "log_messages (dc_log ?ctx) = (pre @ [after_erasure env kd context tr records markers m]) @ ms"
    using prepare_message_effect [OF c Cons.prems(2,3)] by simp
  from Cons.IH [OF cs1 this] Cons.prems(3) show ?case by (simp add: cs)
qed

lemma prepare_index:
  "prepare_from env kd context tr records i ms = Ok cs \<Longrightarrow> c \<in> set cs \<Longrightarrow> i \<le> er_index c \<and> er_index c < i + length ms"
proof (induction ms arbitrary: i cs)
  case (Cons m ms)
  then obtain c0 cs1 where c0: "prepare_message env kd context tr records i m = Ok c0"
    and cs1: "prepare_from env kd context tr records (Suc i) ms = Ok cs1" and cs: "cs = c0 @ cs1"
    by (auto simp: and_then_Ok_iff)
  have "d \<in> set c0 \<Longrightarrow> er_index d = i" for d
    using c0 prepare_message_index [of env kd "context" tr records i m] by (auto split: sum.splits)
  with Cons.IH [OF cs1] Cons.prems(2) show ?case by (auto simp: cs)
qed simp

lemma prepare_from_none:
  "prepare_from env kd context tr records i ms = Ok [] \<Longrightarrow> m \<in> set ms \<Longrightarrow>
   after_erasure env kd context tr records markers m = m"
proof (induction ms arbitrary: i)
  case (Cons a ms)
  then have "prepare_message env kd context tr records i a = Ok []"
    and rest: "prepare_from env kd context tr records (Suc i) ms = Ok []"
    by (auto simp: and_then_Ok_iff)
  then have "after_erasure env kd context tr records markers a = a"
    using prepare_message_index [of env kd "context" tr records i a]
    by (auto simp: after_erasure_def split: sum.splits)
  with Cons.IH [OF rest] Cons.prems(2) show ?case by auto
qed simp

section \<open>Merging into a table\<close>

lemma bt_wf_merge_into [wf_intros]: "bt_wf m \<Longrightarrow> bt_wf (merge_into r m)"
  by (simp add: merge_into_def wf_intros)

lemma bt_wf_merge_all [wf_intros]: "bt_wf m \<Longrightarrow> bt_wf (merge_all rs m)"
  unfolding merge_all_def by (induction rs arbitrary: m) (auto intro: wf_intros)

lemma merge_all_other:
  "k \<notin> storage_key ` set rs \<Longrightarrow> bt_get (merge_all rs m) k = bt_get m k"
  unfolding merge_all_def by (induction rs arbitrary: m) (auto simp: merge_into_def)

lemma merge_all_same:
  assumes "bt_wf m" and "\<forall>r \<in> set rs. bt_get (merge_all rs m) (storage_key r) = bt_get m (storage_key r)"
  shows "merge_all rs m = m"
proof (rule bt_ext)
  show "bt_get (merge_all rs m) k = bt_get m k" for k
    using assms(2) merge_all_other [of k rs m] by (cases "k \<in> storage_key ` set rs") auto
qed (use assms(1) in \<open>auto intro: wf_intros\<close>)

lemma commit_records_deletions:
  "commit_records env accepted rs store = Ok store' \<Longrightarrow> st_deletions store' = merge_all rs (st_deletions store)"
proof (induction rs arbitrary: store)
  case (Cons r rs)
  then obtain store1 where "commit_records env accepted rs store1 = Ok store'"
    and "st_deletions store1 = merge_into r (st_deletions store)"
    by (auto simp: and_then_Ok_iff Let_def save_deletion_acceptance_def merge_deletion_row_def merge_into_def
        split: if_splits option.splits)
  with Cons.IH show ?case by (simp add: merge_all_def)
qed (simp add: merge_all_def)

lemma commit_OkD:
  assumes "commit_message_deletions env kd scope rs rows cancelled as accepted store = Ok (store', markers)"
  shows "\<exists>store1. commit_records env accepted rs (fold enqueue_attachment_gc as store) = Ok store1 \<and>
    store' = fst (commit_rows env kd scope cancelled rows store1 Map.empty)"
proof -
  from assms obtain store1 where "commit_records env accepted rs (fold enqueue_attachment_gc as store) = Ok store1"
    and "commit_rows env kd scope cancelled rows store1 Map.empty = (store', markers)"
    by (auto simp: commit_message_deletions_def and_then_Ok_iff split: option.splits)
  then show ?thesis by simp
qed

lemma commit_deletions:
  assumes "commit_message_deletions env kd scope rs rows cancelled as accepted store = Ok (store', markers)"
  shows "st_deletions store' = merge_all rs (st_deletions store)"
proof -
  from commit_OkD [OF assms] obtain store1 where
    c: "commit_records env accepted rs (fold enqueue_attachment_gc as store) = Ok store1"
    and "store' = fst (commit_rows env kd scope cancelled rows store1 Map.empty)"
    by blast
  then show ?thesis using commit_records_deletions [OF c] by (simp add: commit_rows_fields)
qed

section \<open>Installing\<close>

lemma new_plan_OkE:
  assumes "new_plan env kd rs ctx = Ok plan"
  obtains owner where "book_user env (dc_book ctx) = Ok owner"
    and "pl_merged plan = merge_all rs (bk_records (dc_book ctx))"
    and "prepare_from env kd (bk_context (dc_book ctx)) (dc_transfer ctx) (relevant owner (pl_merged plan)) 0
        (log_messages (dc_log ctx)) = Ok (pl_changes plan)"
  using assms by (auto simp: new_plan_def Let_def and_then_Ok_iff)

lemma apply_plan_book: "dc_book (apply_plan env plan ctx) = (dc_book ctx)\<lparr>bk_records := pl_merged plan\<rparr>"
  by (simp add: apply_plan_def)

lemma apply_plan_log:
  assumes "prepare_from env kd c tr records 0 (log_messages (dc_log ctx)) = Ok cs"
    and "pl_changes plan = map (mark_change markers) cs"
  shows "log_messages (dc_log (apply_plan env plan ctx)) =
     map (after_erasure env kd c tr records markers) (log_messages (dc_log ctx))"
  using prepare_from_effect [OF assms(1), of "ctx\<lparr>dc_book := (dc_book ctx)\<lparr>bk_records := pl_merged plan\<rparr>\<rparr>" "[]"]
    assms(2) by (simp add: apply_plan_def)

lemma finish_install_Ok:
  assumes "finish_install env rs accepted plan ctx = (ctx', Ok ())"
  obtains ctx1 where "ctx' = apply_plan env plan ctx1" and "dc_log ctx1 = dc_log ctx"
    and "dc_transfer ctx1 = dc_transfer ctx" and "bk_context (dc_book ctx1) = bk_context (dc_book ctx)"
    and "bk_store (dc_book ctx1) = bk_store (dc_book ctx)"
proof -
  from assms obtain digests where
    "ctx' = apply_plan env plan (ctx\<lparr>dc_book := (dc_book ctx)\<lparr>bk_accepted := digests\<rparr>\<rparr>)"
    by (auto simp: finish_install_def Let_def split: prod.splits sum.splits)
  then show ?thesis by (rule that) simp_all
qed

text \<open>What a successful install did, whichever way it took.\<close>

lemma install_OkE:
  assumes "install env kd rs accepted ctx = (ctx', Ok ())" and wf: "bt_wf (bk_records (dc_book ctx))"
  obtains owner markers where "book_user env (dc_book ctx) = Ok owner"
    and "bk_records (dc_book ctx') = merge_all rs (bk_records (dc_book ctx))"
    and "bk_context (dc_book ctx') = bk_context (dc_book ctx)"
    and "log_messages (dc_log ctx') =
      map (after_erasure env kd (bk_context (dc_book ctx)) (dc_transfer ctx)
        (relevant owner (bk_records (dc_book ctx'))) markers) (log_messages (dc_log ctx))"
    and "case bk_store (dc_book ctx) of None \<Rightarrow> bk_store (dc_book ctx') = None
      | Some store \<Rightarrow> \<exists>store'. bk_store (dc_book ctx') = Some store' \<and>
          st_deletions store' = merge_all rs (st_deletions store) \<or> bk_store (dc_book ctx') = Some store \<and> ctx' = ctx"
proof -
  from assms(1) obtain plan where plan: "new_plan env kd rs ctx = Ok plan"
    by (auto simp: install_def split: sum.splits)
  then obtain owner where owner: "book_user env (dc_book ctx) = Ok owner"
    and pm: "pl_merged plan = merge_all rs (bk_records (dc_book ctx))"
    and pc: "prepare_from env kd (bk_context (dc_book ctx)) (dc_transfer ctx) (relevant owner (pl_merged plan)) 0
        (log_messages (dc_log ctx)) = Ok (pl_changes plan)"
    by (rule new_plan_OkE)
  show ?thesis
  proof (cases "plan_unchanged env rs accepted (dc_book ctx) plan")
    case True
    then have same: "ctx' = ctx" using assms(1) plan by (simp add: install_def)
    have "merge_all rs (bk_records (dc_book ctx)) = bk_records (dc_book ctx)"
      using True pm wf by (intro merge_all_same) (auto simp: plan_unchanged_def list_all_iff)
    moreover have "map (after_erasure env kd (bk_context (dc_book ctx)) (dc_transfer ctx)
        (relevant owner (pl_merged plan)) (\<lambda>_. None)) (log_messages (dc_log ctx)) = log_messages (dc_log ctx)"
      using True pc prepare_from_none by (intro map_idI) (fastforce simp: plan_unchanged_def)
    ultimately show ?thesis
      using that [of owner "\<lambda>_. None"] owner pm same by (auto split: option.split)
  next
    case changed: False
    show ?thesis
    proof (cases "bk_store (dc_book ctx)")
      case None
      then have "finish_install env rs accepted plan ctx = (ctx', Ok ())"
        using assms(1) plan changed by (simp add: install_def)
      then obtain ctx1 where "ctx' = apply_plan env plan ctx1" and 1: "dc_log ctx1 = dc_log ctx"
        "dc_transfer ctx1 = dc_transfer ctx" "bk_context (dc_book ctx1) = bk_context (dc_book ctx)"
        "bk_store (dc_book ctx1) = bk_store (dc_book ctx)"
        by (rule finish_install_Ok)
      moreover have "log_messages (dc_log (apply_plan env plan ctx1)) =
          map (after_erasure env kd (bk_context (dc_book ctx)) (dc_transfer ctx) (relevant owner (pl_merged plan))
            (\<lambda>_. None)) (log_messages (dc_log ctx1))"
        using pc 1 by (intro apply_plan_log [where cs = "pl_changes plan"]) simp_all
      ultimately show ?thesis
        using that [of owner "\<lambda>_. None"] owner pm None by (simp add: apply_plan_book)
    next
      case (Some store)
      then obtain store' markers where
        commit: "commit_message_deletions env kd (bk_scope (dc_book ctx)) rs (map er_row (pl_changes plan)) (pl_cancelled plan)
          (pl_attachments plan) accepted store = Ok (store', markers)"
        and fin: "finish_install env rs accepted (plan\<lparr>pl_changes := map (mark_change markers) (pl_changes plan)\<rparr>)
            (ctx\<lparr>dc_book := (dc_book ctx)\<lparr>bk_store := Some store'\<rparr>\<rparr>) = (ctx', Ok ())"
        using assms(1) plan changed by (auto simp: install_def split: sum.splits)
      have "st_deletions store' = merge_all rs (st_deletions store)"
        using commit by (rule commit_deletions)
      moreover from fin obtain ctx1 where
        "ctx' = apply_plan env (plan\<lparr>pl_changes := map (mark_change markers) (pl_changes plan)\<rparr>) ctx1"
        and 1: "dc_log ctx1 = dc_log ctx" "dc_transfer ctx1 = dc_transfer ctx"
        "bk_context (dc_book ctx1) = bk_context (dc_book ctx)" "bk_store (dc_book ctx1) = Some store'"
        by (rule finish_install_Ok) simp_all
      moreover have "log_messages (dc_log (apply_plan env (plan\<lparr>pl_changes := map (mark_change markers) (pl_changes plan)\<rparr>) ctx1)) =
          map (after_erasure env kd (bk_context (dc_book ctx)) (dc_transfer ctx) (relevant owner (pl_merged plan))
            markers) (log_messages (dc_log ctx1))"
        using pc 1 by (intro apply_plan_log [where cs = "pl_changes plan"]) simp_all
      ultimately show ?thesis
        using that [of owner markers] owner pm Some by (simp add: apply_plan_book)
    qed
  qed
qed

section \<open>Erased messages\<close>

definition tombstones_erased :: "'x message_scheme message_log \<Rightarrow> bool" where
  "tombstones_erased l \<longleftrightarrow> list_all (\<lambda>m. is_tombstone m \<longrightarrow> erased m) (log_messages l)"

lemma erased_message_erased:
  assumes "kind_ok kd"
  shows "erased (erased_message kd m key lo corr marker)"
    and "message_id (erased_message kd m key lo corr marker) = message_id m"
    and "metadata (erased_message kd m key lo corr marker) \<noteq> None"
  using assms [THEN conversation_message.erase_metadata] assms [THEN conversation_message.erase_body]
    assms [THEN conversation_message.erase_attachment] assms [THEN conversation_message.erase_id]
  by (simp_all add: erased_def erased_message_def deletion_of_def)

lemma mark_change_erased:
  assumes "erased (er_message c)" and "metadata (er_message c) \<noteq> None"
  shows "erased (er_message (mark_change markers c))"
    and "message_id (er_message (mark_change markers c)) = message_id (er_message c)"
  using assms by (auto simp: mark_change_def erased_def deletion_of_def split: option.split)

text \<open>One message under the records, in terms of whether one of them matches it.\<close>

lemma after_erasure_cases:
  assumes "kind_ok kd" and target: "deletion_target env kd c m tr = Ok (key, lo)"
    and corr: "message_key env kd c m tr = Ok correlation"
  shows "list_ex (\<lambda>r. matches r key correlation) records \<Longrightarrow> is_tombstone m \<longrightarrow> erased m \<Longrightarrow>
      erased (after_erasure env kd c tr records markers m)"
    and "\<not> list_ex (\<lambda>r. matches r key correlation) records \<Longrightarrow> after_erasure env kd c tr records markers m = m"
    and "message_id (after_erasure env kd c tr records markers m) = message_id m"
proof -
  let ?best = "max_by_key record_priority (filter (\<lambda>r. matches r key correlation) records)"
  have hit: "list_ex (\<lambda>r. matches r key correlation) records \<longleftrightarrow> ?best \<noteq> None"
    by (auto simp: max_by_key_None_iff filter_empty_conv list_ex_iff)
  let ?new = "\<lambda>r. new_erasure 0 (erased_message kd m key lo correlation (record_marker r)) c"
  have eff: "after_erasure env kd c tr records markers m =
      (case ?best of None \<Rightarrow> m
       | Some r \<Rightarrow> if deletion_of m = Some (record_marker r) then m else er_message (mark_change markers (?new r)))"
    using target corr by (simp add: after_erasure_def prepare_message_def split: option.split)
  have new: "erased (er_message (mark_change markers (?new r)))"
    "message_id (er_message (mark_change markers (?new r))) = message_id m" for r
    using mark_change_erased [of "?new r" markers] erased_message_erased [OF assms(1)]
    by (simp_all add: new_erasure_def)
  show "erased (after_erasure env kd c tr records markers m)"
    if "list_ex (\<lambda>r. matches r key correlation) records" and "is_tombstone m \<longrightarrow> erased m"
    using that new(1) hit by (auto simp: eff split: option.splits)
  show "after_erasure env kd c tr records markers m = m"
    if "\<not> list_ex (\<lambda>r. matches r key correlation) records"
    using that hit by (auto simp: eff split: option.splits)
  show "message_id (after_erasure env kd c tr records markers m) = message_id m"
    using new(2) by (auto simp: eff split: option.splits)
qed

lemma after_erasure_tombstone:
  assumes "kind_ok kd" and "is_tombstone m \<longrightarrow> erased m"
  shows "is_tombstone (after_erasure env kd c tr records markers m) \<longrightarrow>
      erased (after_erasure env kd c tr records markers m)"
proof (cases "deletion_target env kd c m tr")
  case (Inr kl)
  obtain key lo where kl: "kl = (key, lo)" by fastforce
  show ?thesis
  proof (cases "message_key env kd c m tr")
    case Inr': (Inr correlation)
    note cases = after_erasure_cases [OF assms(1) Inr [unfolded kl] Inr', of records markers]
    show ?thesis
      using cases(1,2) assms(2) by (cases "list_ex (\<lambda>r. matches r key correlation) records") auto
  qed (use Inr assms(2) in \<open>simp add: after_erasure_def prepare_message_def kl\<close>)
qed (use assms(2) in \<open>simp add: after_erasure_def prepare_message_def\<close>)

text \<open>
  C8. An installed set of deletions erases exactly the messages it names. If an install succeeds, the
  log keeps its messages in place with their ids; a message that a record for everyone or of the own
  user matches is a tombstone with no text and no attachment, every other message is untouched, and
  tombstones of earlier installs stay erased.
\<close>

theorem install_erases_exactly:
  assumes "install env kd rs accepted ctx = (ctx', Ok ())" and "kind_ok kd"
    and "bt_wf (bk_records (dc_book ctx))" and "tombstones_erased (dc_log ctx)"
    and "book_user env (dc_book ctx) = Ok owner" and "i < length (log_messages (dc_log ctx))"
    and "m = log_messages (dc_log ctx) ! i"
    and "deletion_target env kd (bk_context (dc_book ctx)) m (dc_transfer ctx) = Ok (key, lo)"
    and "message_key env kd (bk_context (dc_book ctx)) m (dc_transfer ctx) = Ok correlation"
  shows "length (log_messages (dc_log ctx')) = length (log_messages (dc_log ctx)) \<and>
    message_id (log_messages (dc_log ctx') ! i) = message_id m \<and> tombstones_erased (dc_log ctx') \<and>
    (if list_ex (\<lambda>r. matches r key correlation) (relevant owner (merge_all rs (bk_records (dc_book ctx))))
     then erased (log_messages (dc_log ctx') ! i) else log_messages (dc_log ctx') ! i = m)"
proof -
  obtain owner' markers where user: "book_user env (dc_book ctx) = Ok owner'"
    and records: "bk_records (dc_book ctx') = merge_all rs (bk_records (dc_book ctx))"
    and log': "log_messages (dc_log ctx') =
      map (after_erasure env kd (bk_context (dc_book ctx)) (dc_transfer ctx)
        (relevant owner' (bk_records (dc_book ctx'))) markers) (log_messages (dc_log ctx))"
    by (rule install_OkE [OF assms(1,3)])
  note log = log' [unfolded user [unfolded assms(5), THEN sum.inject(2) [THEN iffD1], symmetric]]
  have ok: "is_tombstone a \<longrightarrow> erased a" if "a \<in> set (log_messages (dc_log ctx))" for a
    using assms(4) that by (simp add: tombstones_erased_def list_all_iff)
  have "\<forall>a \<in> set (log_messages (dc_log ctx')). is_tombstone a \<longrightarrow> erased a"
    unfolding log set_map by (intro ballI, elim imageE, hypsubst) (rule after_erasure_tombstone [OF assms(2) ok])
  then have "tombstones_erased (dc_log ctx')" by (simp add: tombstones_erased_def list_all_iff)
  moreover have "m \<in> set (log_messages (dc_log ctx))" using assms(6,7) by simp
  ultimately show ?thesis
    using after_erasure_cases [OF assms(2,8,9)] ok [of m] assms(6,7) by (simp add: log records)
qed

text \<open>
  A deletion that cannot be installed changes nothing of the conversation: whatever step fails,
  messages, outbound attempts, attachments and the records in memory are as before.
\<close>

theorem failed_install_keeps_conversation:
  assumes "install env kd rs accepted ctx = (ctx', Err e)"
  shows "dc_log ctx' = dc_log ctx \<and> dc_attempts ctx' = dc_attempts ctx \<and> dc_transfer ctx' = dc_transfer ctx \<and>
    bk_records (dc_book ctx') = bk_records (dc_book ctx)"
  using assms
  by (auto simp: install_def finish_install_def Let_def split: sum.splits if_splits option.splits prod.splits)

section \<open>Erasure in the history table\<close>

lemma prepare_message_change:
  assumes "prepare_message env kd context tr records i m = Ok cs" and "c \<in> set cs"
  shows "\<exists>key lo correlation marker. c = new_erasure i (erased_message kd m key lo correlation marker) context"
proof -
  from assms(1) obtain target correlation where 1: "deletion_target env kd context m tr = Ok target"
    and 2: "message_key env kd context m tr = Ok correlation"
    by (auto simp: prepare_message_def and_then_Ok_iff)
  from assms show ?thesis
    by (cases "max_by_key record_priority (filter (\<lambda>r. matches r (fst target) correlation) records)")
      (auto simp: prepare_message_def 1 2 case_prod_unfold split: if_splits, intro exI, rule refl)
qed

lemma prepare_changes:
  "prepare_from env kd context tr records i ms = Ok cs \<Longrightarrow> c \<in> set cs \<Longrightarrow>
   \<exists>j key lo correlation marker. j < length ms \<and> c = new_erasure (i + j) (erased_message kd (ms ! j) key lo correlation marker) context"
proof (induction ms arbitrary: i cs)
  case (Cons m ms)
  then obtain c0 cs1 where c0: "prepare_message env kd context tr records i m = Ok c0"
    and cs1: "prepare_from env kd context tr records (Suc i) ms = Ok cs1" and cs: "cs = c0 @ cs1"
    by (auto simp: and_then_Ok_iff)
  from Cons.prems(2) cs consider "c \<in> set c0" | "c \<in> set cs1" by auto
  then show ?case
  proof cases
    case 1
    with prepare_message_change [OF c0] show ?thesis by (intro exI [of _ 0]) simp
  next
    case 2
    then obtain j key lo correlation marker where "j < length ms"
      "c = new_erasure (Suc i + j) (erased_message kd (ms ! j) key lo correlation marker) context"
      using Cons.IH [OF cs1] by blast
    then show ?thesis by (intro exI [of _ "Suc j"]) auto
  qed
qed simp

lemma prepare_covers:
  "prepare_from env kd context tr records i ms = Ok cs \<Longrightarrow> j < length ms \<Longrightarrow>
   after_erasure env kd context tr records markers (ms ! j) \<noteq> ms ! j \<Longrightarrow>
   \<exists>c \<in> set cs. \<exists>key lo correlation marker.
     c = new_erasure (i + j) (erased_message kd (ms ! j) key lo correlation marker) context"
proof (induction ms arbitrary: i cs j)
  case (Cons m ms)
  then obtain c0 cs1 where c0: "prepare_message env kd context tr records i m = Ok c0"
    and cs1: "prepare_from env kd context tr records (Suc i) ms = Ok cs1" and cs: "cs = c0 @ cs1"
    by (auto simp: and_then_Ok_iff)
  show ?case
  proof (cases j)
    case 0
    with Cons.prems(3) c0 have "c0 \<noteq> []"
      using prepare_message_index [of env kd "context" tr records i m]
      by (auto simp: after_erasure_def split: sum.splits list.splits)
    then obtain c where "c \<in> set c0" by (cases c0) auto
    with prepare_message_change [OF c0 this] 0 show ?thesis by (intro bexI [of _ c]) (simp_all add: cs)
  next
    case (Suc j')
    with Cons.IH [OF cs1, of j'] Cons.prems obtain c key lo correlation marker where "c \<in> set cs1"
      "c = new_erasure (Suc i + j') (erased_message kd (ms ! j') key lo correlation marker) context"
      by auto
    with Suc show ?thesis by (intro bexI [of _ c]) (auto simp: cs)
  qed
qed simp

lemma new_erasure_row:
  assumes "kind_ok kd"
  shows "row_erased (er_row (new_erasure i (erased_message kd m key lo correlation marker) context))"
    and "row_key (er_row (new_erasure i (erased_message kd m key lo correlation marker) context)) =
      history_row_key (conversation_part context) (case sent_at_ms m of None \<Rightarrow> 0 | Some t \<Rightarrow> t)
        (case message_id m of None \<Rightarrow> [] | Some d \<Rightarrow> d)"
    and "sm_message_id (er_row (new_erasure i (erased_message kd m key lo correlation marker) context)) =
      (case message_id m of None \<Rightarrow> [] | Some d \<Rightarrow> d)"
    and "sm_conversation_id (er_row (new_erasure i (erased_message kd m key lo correlation marker) context)) =
      conversation_part context"
  using erased_message_erased [OF assms, of m key lo correlation marker] assms [THEN conversation_message.erase_sent]
  by (simp_all add: new_erasure_def erased_message_def)

lemma fold_apply_change_attempts:
  "fmlookup (dc_attempts (fold (apply_change cancelled) cs ctx)) k =
     (if k \<in> cancelled \<and> k \<in> (\<lambda>c. sm_message_id (er_row c)) ` set cs then None else fmlookup (dc_attempts ctx) k)"
  by (induction cs arbitrary: ctx) (auto simp: apply_change_def)

lemma fold_drop_attachment_attempts [simp]:
  "dc_attempts (fold (drop_attachment env) as ctx) = dc_attempts ctx"
  by (induction as arbitrary: ctx) simp_all

text \<open>A successful install that changed the log took the path through the store.\<close>

lemma install_storeE:
  assumes "install env kd rs accepted ctx = (ctx', Ok ())" and "bk_store (dc_book ctx) = Some store" and "ctx' \<noteq> ctx"
  obtains plan store' markers ctx1 where "new_plan env kd rs ctx = Ok plan"
    and "commit_message_deletions env kd (bk_scope (dc_book ctx)) rs (map er_row (pl_changes plan)) (pl_cancelled plan)
      (pl_attachments plan) accepted store = Ok (store', markers)"
    and "ctx' = apply_plan env (plan\<lparr>pl_changes := map (mark_change markers) (pl_changes plan)\<rparr>) ctx1"
    and "dc_log ctx1 = dc_log ctx" "dc_attempts ctx1 = dc_attempts ctx" "bk_store (dc_book ctx1) = Some store'"
proof -
  from assms obtain plan store' markers where p: "new_plan env kd rs ctx = Ok plan"
    and c: "commit_message_deletions env kd (bk_scope (dc_book ctx)) rs (map er_row (pl_changes plan)) (pl_cancelled plan)
      (pl_attachments plan) accepted store = Ok (store', markers)"
    and f: "finish_install env rs accepted (plan\<lparr>pl_changes := map (mark_change markers) (pl_changes plan)\<rparr>)
      (ctx\<lparr>dc_book := (dc_book ctx)\<lparr>bk_store := Some store'\<rparr>\<rparr>) = (ctx', Ok ())"
    by (auto simp: install_def split: sum.splits if_splits)
  from f obtain digests where "ctx' = apply_plan env (plan\<lparr>pl_changes := map (mark_change markers) (pl_changes plan)\<rparr>)
      (ctx\<lparr>dc_book := (dc_book ctx)\<lparr>bk_store := Some store', bk_accepted := digests\<rparr>\<rparr>)"
    by (auto simp: finish_install_def Let_def split: prod.splits sum.splits)
  from that [OF p c this] show ?thesis by simp
qed

text \<open>
  An erasure reaches the disk before it is shown. If a successful install changed a message of a
  stored conversation, the history row of that message in the table is erased too, its text,
  attachment and manifests gone; and if it was never sent out, its send attempt is gone from memory
  and from the table, so that it will not be sent later.
\<close>

theorem install_erases_durably:
  assumes "install env kd rs accepted ctx = (ctx', Ok ())" and "kind_ok kd"
    and "bt_wf (bk_records (dc_book ctx))" and "bk_store (dc_book ctx) = Some store"
    and "i < length (log_messages (dc_log ctx))" and "m = log_messages (dc_log ctx) ! i"
    and "log_messages (dc_log ctx') ! i \<noteq> m"
    and "sent = (case sent_at_ms m of None \<Rightarrow> 0 | Some t \<Rightarrow> t)" and "d = (case message_id m of None \<Rightarrow> [] | Some d \<Rightarrow> d)"
    and "conversation = conversation_part (bk_context (dc_book ctx))"
  shows "\<exists>store'. bk_store (dc_book ctx') = Some store' \<and>
    durably_erased store' (history_row_key conversation sent d) \<and>
    ((case fmlookup (dc_attempts ctx) d of None \<Rightarrow> True | Some a \<Rightarrow> at_ever_published a = Some False) \<longrightarrow>
      fmlookup (dc_attempts ctx') d = None \<and>
      bt_get (st_attempts store') (outbound_attempt_key (bk_scope (dc_book ctx)) conversation d) = None)"
proof -
  have "ctx' \<noteq> ctx" using assms(6,7) by auto
  then obtain plan store' markers ctx1 where plan: "new_plan env kd rs ctx = Ok plan"
    and commit: "commit_message_deletions env kd (bk_scope (dc_book ctx)) rs (map er_row (pl_changes plan)) (pl_cancelled plan)
      (pl_attachments plan) accepted store = Ok (store', markers)"
    and ctx': "ctx' = apply_plan env (plan\<lparr>pl_changes := map (mark_change markers) (pl_changes plan)\<rparr>) ctx1"
    and 1: "dc_log ctx1 = dc_log ctx" "dc_attempts ctx1 = dc_attempts ctx" "bk_store (dc_book ctx1) = Some store'"
    by (rule install_storeE [OF assms(1,4)])
  from plan obtain owner where pc: "prepare_from env kd (bk_context (dc_book ctx)) (dc_transfer ctx)
      (relevant owner (pl_merged plan)) 0 (log_messages (dc_log ctx)) = Ok (pl_changes plan)"
    by (rule new_plan_OkE)
  have "log_messages (dc_log ctx') ! i = after_erasure env kd (bk_context (dc_book ctx)) (dc_transfer ctx)
      (relevant owner (pl_merged plan)) markers m"
    using apply_plan_log [of env kd _ _ _ ctx1, OF pc [folded 1(1)],
        of "plan\<lparr>pl_changes := map (mark_change markers) (pl_changes plan)\<rparr>" markers] assms(5,6) 1(1)
    by (simp add: ctx')
  with assms(5-7) obtain c key lo correlation marker where c: "c \<in> set (pl_changes plan)"
    "c = new_erasure (0 + i) (erased_message kd m key lo correlation marker) (bk_context (dc_book ctx))"
    using prepare_covers [OF pc, of i markers] by auto
  have rows: "\<forall>row \<in> set (map er_row (pl_changes plan)). row_erased row"
    using prepare_changes [OF pc] new_erasure_row(1) [OF assms(2)] by fastforce
  obtain store1 where store': "store' = fst (commit_rows env kd (bk_scope (dc_book ctx)) (pl_cancelled plan)
      (map er_row (pl_changes plan)) store1 Map.empty)"
    using commit_OkD [OF commit] by blast
  note row = new_erasure_row [OF assms(2), of "0 + i" m key lo correlation marker "bk_context (dc_book ctx)",
      folded c(2) assms(8-10)]
  have "durably_erased store' (history_row_key conversation sent d)"
    using commit_rows_durable [OF assms(2) rows] c(1) row(2) store' by force
  moreover have "fmlookup (dc_attempts ctx') d = None \<and>
      bt_get (st_attempts store') (outbound_attempt_key (bk_scope (dc_book ctx)) conversation d) = None"
    if "case fmlookup (dc_attempts ctx) d of None \<Rightarrow> True | Some a \<Rightarrow> at_ever_published a = Some False"
  proof -
    have "is_cancelled (dc_attempts ctx) c" using that row(3) by (simp add: is_cancelled_def)
    with plan c(1) row(3) have "d \<in> pl_cancelled plan"
      by (force simp: new_plan_def Let_def and_then_Ok_iff)
    moreover have "d \<in> (\<lambda>c. sm_message_id (er_row c)) ` set (map (mark_change markers) (pl_changes plan))"
      using c(1) row(3) by (simp add: image_image) blast
    ultimately show ?thesis
      using c(1) row(3,4) by (auto simp: ctx' apply_plan_def fold_apply_change_attempts store' commit_rows_attempts 1(2))
  qed
  moreover have "bk_store (dc_book ctx') = Some store'" by (simp add: ctx' apply_plan_book 1(3))
  ultimately show ?thesis by blast
qed

section \<open>The durable table\<close>

text \<open>
  The abstract state of a book is the part of the durable table that belongs to its conversation; the
  book in memory is meant to be equal to it.
\<close>

definition durable_records :: "'m deletion_book \<Rightarrow> deletion_records" where
  "durable_records b =
     (case bk_store b of None \<Rightarrow> [] | Some store \<Rightarrow> range_prefix (bk_context b) (st_deletions store))"

definition book_synced :: "'m deletion_book \<Rightarrow> bool" where
  "book_synced b \<longleftrightarrow>
     (case bk_store b of None \<Rightarrow> False | Some store \<Rightarrow> bt_wf (st_deletions store)) \<and>
     bk_records b = durable_records b"

lemma storage_key_in_range:
  "dr_context r = c \<Longrightarrow> c @ [CHR 0x01] \<le> storage_key r \<and> storage_key r < c @ [CHR 0x02]"
  by (simp add: storage_key_def append_le_append_iff append_less_append_iff less_char_def)

lemma range_prefix_keys:
  "range_prefix c rows = filter (\<lambda>e. fst e \<in> {k. c @ [CHR 0x01] \<le> k \<and> k < c @ [CHR 0x02]}) rows"
  by (simp add: range_prefix_def case_prod_unfold)

lemma range_prefix_insert:
  assumes "bt_wf m" and "c @ [CHR 0x01] \<le> k" and "k < c @ [CHR 0x02]"
  shows "range_prefix c (bt_insert k v m) = bt_insert k v (range_prefix c m)"
  unfolding range_prefix_keys using assms by (intro filter_keys_bt_insert) auto

lemma bt_get_range_prefix:
  assumes "bt_wf m" and "c @ [CHR 0x01] \<le> k" and "k < c @ [CHR 0x02]"
  shows "bt_get (range_prefix c m) k = bt_get m k"
  unfolding range_prefix_keys using assms by (subst bt_get_filter_keys) auto

lemma range_prefix_merge_all:
  "bt_wf m \<Longrightarrow> \<forall>r \<in> set rs. dr_context r = c \<Longrightarrow> range_prefix c (merge_all rs m) = merge_all rs (range_prefix c m)"
proof (induction rs arbitrary: m)
  case (Cons r rs)
  have "range_prefix c (merge_into r m) = merge_into r (range_prefix c m)"
    using Cons.prems storage_key_in_range [of r c]
    by (simp add: merge_into_def range_prefix_insert bt_get_range_prefix)
  with Cons.IH [of "merge_into r m"] Cons.prems show ?case
    by (simp add: merge_all_def bt_wf_merge_into)
qed (simp add: merge_all_def)

lemma install_synced:
  assumes "install env kd rs accepted ctx = (ctx', Ok ())" and "book_synced (dc_book ctx)"
    and "\<forall>r \<in> set rs. dr_context r = bk_context (dc_book ctx)"
  shows "book_synced (dc_book ctx') \<and>
    durable_records (dc_book ctx') = merge_all rs (durable_records (dc_book ctx))"
proof -
  obtain store where store: "bk_store (dc_book ctx) = Some store" "bt_wf (st_deletions store)"
    and mem: "bk_records (dc_book ctx) = durable_records (dc_book ctx)"
    using assms(2) by (auto simp: book_synced_def split: option.splits)
  then have wf: "bt_wf (bk_records (dc_book ctx))"
    by (simp add: durable_records_def range_prefix_def bt_wf_filter)
  obtain owner where records: "bk_records (dc_book ctx') = merge_all rs (bk_records (dc_book ctx))"
    and c: "bk_context (dc_book ctx') = bk_context (dc_book ctx)"
    and st: "case bk_store (dc_book ctx) of None \<Rightarrow> bk_store (dc_book ctx') = None
      | Some store \<Rightarrow> \<exists>store'. bk_store (dc_book ctx') = Some store' \<and>
          st_deletions store' = merge_all rs (st_deletions store) \<or> bk_store (dc_book ctx') = Some store \<and> ctx' = ctx"
    by (rule install_OkE [OF assms(1) wf])
  show ?thesis
  proof (cases "ctx' = ctx")
    case True
    with records mem assms(2) show ?thesis by simp
  next
    case False
    then obtain store' where store': "bk_store (dc_book ctx') = Some store'"
      "st_deletions store' = merge_all rs (st_deletions store)"
      using st store by auto
    then have "durable_records (dc_book ctx') = merge_all rs (durable_records (dc_book ctx))"
      using store assms(3) c by (simp add: durable_records_def range_prefix_merge_all)
    moreover have "bt_wf (st_deletions store')"
      using store store' by (simp add: wf_intros)
    ultimately show ?thesis
      using records mem store' by (simp add: book_synced_def)
  qed
qed

text \<open>
  C27. The book refines its durable table: from a state in which the book in memory equals the
  conversation's part of the table, a successful install of records of that conversation ends in
  such a state again, and in both the records are merged one after the other.
\<close>

theorem install_refines_table:
  assumes "install env kd rs accepted ctx = (ctx', Ok ())" and "book_synced (dc_book ctx)"
    and "\<forall>r \<in> set rs. dr_context r = bk_context (dc_book ctx)"
  shows "book_synced (dc_book ctx') \<and>
    durable_records (dc_book ctx') = merge_all rs (durable_records (dc_book ctx))"
  using assms by (rule install_synced)

section \<open>A concrete deletion\<close>

text \<open>
  User 1 wrote one message in the conversation of \<open>Deletion_Protocol\<close>; the request to delete it is
  installed, with a working database or a failing one.
\<close>

definition demo_context :: "byte \<Rightarrow> (chat_message, unit) deletion_context" where
  "demo_context x =
     \<lparr>dc_book = new_deletion_book ''dm:c'' ''private_dm'' (Some demo_store), dc_log = new_log\<lparr>log_messages := [demo_deleted x]\<rparr>,
      dc_attempts = fmempty, dc_transfer = ()\<rparr>"

lemma demo_origin_key:
  "origin_key (demo_erasure_env f) (demo_origin x) = Ok (dr_key (demo_record x status ack))"
  by (simp add: origin_key_def origin_input_def transcript_def hex_digest_def demo_record_def del: map_append)
    (simp add: demo_account_roster_def)

lemma demo_target:
  "deletion_target (demo_erasure_env f) chat_kind ''dm:c'' (demo_deleted x) () =
     Ok (dr_key (demo_record x DeletionPending None), False)"
  "\<exists>k. message_key (demo_erasure_env f) chat_kind ''dm:c'' (demo_deleted x) () = Ok (Some k)"
  by (simp_all add: deletion_target_def message_key_def text_key_def correlation_key_def demo_deleted_def default_metadata_def origin_of_def
      demo_origin_key [where status = DeletionPending and ack = None] chat_kind_def chat_call_id_def
      chat_is_service_def deletion_of_def)

lemma demo_context_fields [simp]:
  "bk_context (dc_book (demo_context x)) = ''dm:c''" "bk_scope (dc_book (demo_context x)) = ''private_dm''"
  "bk_records (dc_book (demo_context x)) = []"
  "bk_store (dc_book (demo_context x)) = Some demo_store" "log_messages (dc_log (demo_context x)) = [demo_deleted x]"
  "dc_transfer (demo_context x) = ()"
  by (simp_all add: demo_context_def new_deletion_book_def)

lemma demo_record_key: "dr_key (demo_record x status ack) = dr_key (demo_record x DeletionPending None)"
  by (simp add: demo_record_def)

lemma demo_install_any:
  "\<exists>ctx'. install (demo_erasure_env None) chat_kind [demo_record x status ack] accepted (demo_context x) = (ctx', Ok ())"
proof -
  let ?r = "demo_record x status ack"
  let ?env = "demo_erasure_env None"
  note target = demo_target(1) [of None x, folded demo_record_key [of x status ack]]
  obtain k where k: "message_key ?env chat_kind ''dm:c'' (demo_deleted x) () = Ok (Some k)"
    using demo_target(2) by blast
  have "prepare_message ?env chat_kind ''dm:c'' () [?r] 0 (demo_deleted x) =
      Ok [new_erasure 0 (erased_message chat_kind (demo_deleted x) (dr_key ?r) False (Some k) (record_marker ?r)) ''dm:c'']"
    by (simp add: prepare_message_def target k matches_def)
      (simp add: demo_deleted_def deletion_of_def default_metadata_def)
  then have "prepare_from ?env chat_kind ''dm:c'' () [?r] 0 [demo_deleted x] =
      Ok [new_erasure 0 (erased_message chat_kind (demo_deleted x) (dr_key ?r) False (Some k) (record_marker ?r)) ''dm:c'']"
    by simp
  moreover have "relevant ''local'' (merge_all [?r] []) = [?r]"
    by (simp add: merge_all_def merge_into_def relevant_def bt_values_def) (simp add: demo_record_def)
  moreover have "book_user ?env (dc_book (demo_context x)) = Ok ''local''"
    by (simp add: book_user_def demo_store_def)
  ultimately obtain plan where plan: "new_plan ?env chat_kind [?r] (demo_context x) = Ok plan" "pl_changes plan \<noteq> []"
    by (simp add: new_plan_def Let_def del: prepare_from.simps)
  obtain d where d: "dr_request ?r = Some (demo_request x)" "request_digest ?env (demo_request x) = Ok d"
    by (simp add: demo_record_def request_digest_def request_input_def transcript_def)
  have "\<exists>out. commit_message_deletions ?env chat_kind ''private_dm'' [?r] rows cancelled as accepted demo_store = Ok out"
    for rows cancelled as
    using d by (simp add: commit_message_deletions_def Let_def save_deletion_acceptance_def split: option.split)
  then obtain store' markers where "commit_message_deletions ?env chat_kind ''private_dm'' [?r] (map er_row (pl_changes plan))
      (pl_cancelled plan) (pl_attachments plan) accepted demo_store = Ok (store', markers)"
    by fastforce
  with plan d show ?thesis
    by (simp add: install_def plan_unchanged_def finish_install_def Let_def)
qed

lemmas demo_install = demo_install_any [where status = DeletionPending and ack = None and accepted = False]

theorem install_erases_exactly_witness:
  "\<exists>ctx'. install (demo_erasure_env None) chat_kind [demo_record 1 DeletionPending None] False (demo_context 1) = (ctx', Ok ()) \<and>
     erased (log_messages (dc_log ctx') ! 0)"
proof -
  obtain ctx' where i: "install (demo_erasure_env None) chat_kind [demo_record 1 DeletionPending None] False
      (demo_context 1) = (ctx', Ok ())"
    using demo_install by blast
  obtain k where k: "message_key (demo_erasure_env None) chat_kind ''dm:c'' (demo_deleted 1) () = Ok (Some k)"
    using demo_target(2) by blast
  let ?c = "demo_context 1"
  let ?env = "demo_erasure_env None"
  have wf: "bt_wf (bk_records (dc_book ?c))" by simp
  have t: "tombstones_erased (dc_log ?c)"
    by (simp add: tombstones_erased_def demo_deleted_def deletion_of_def default_metadata_def)
  have u: "book_user ?env (dc_book ?c) = Ok ''local''"
    by (simp add: book_user_def demo_store_def)
  have l: "0 < length (log_messages (dc_log ?c))" by simp
  have m: "demo_deleted 1 = log_messages (dc_log ?c) ! 0" by simp
  have d: "deletion_target ?env chat_kind (bk_context (dc_book ?c)) (demo_deleted 1) (dc_transfer ?c) =
      Ok (dr_key (demo_record 1 DeletionPending None), False)"
    unfolding demo_context_fields by (rule demo_target(1))
  have c: "message_key ?env chat_kind (bk_context (dc_book ?c)) (demo_deleted 1) (dc_transfer ?c) = Ok (Some k)"
    unfolding demo_context_fields by (rule k)
  have "list_ex (\<lambda>r. matches r (dr_key (demo_record 1 DeletionPending None)) (Some k))
      (relevant ''local'' (merge_all [demo_record 1 DeletionPending None] (bk_records (dc_book ?c))))"
    by (simp add: merge_all_def merge_into_def relevant_def bt_values_def matches_def) (simp add: demo_record_def)
  with install_erases_exactly [OF i kinds_ok(1) wf t u l m d c] have "erased (log_messages (dc_log ctx') ! 0)"
    by (simp only: if_True)
  with i show ?thesis by blast
qed

theorem install_erases_durably_witness:
  "\<exists>ctx' store'. install (demo_erasure_env None) chat_kind [demo_record 1 DeletionPending None] False (demo_context 1) = (ctx', Ok ()) \<and>
     bk_store (dc_book ctx') = Some store' \<and> durably_erased store' (history_row_key ''c'' 5 ''m1'')"
proof -
  let ?r = "demo_record 1 DeletionPending None"
  let ?c = "demo_context 1"
  let ?env = "demo_erasure_env None"
  obtain ctx' where i: "install ?env chat_kind [?r] False ?c = (ctx', Ok ())"
    using demo_install by blast
  obtain k where k: "message_key ?env chat_kind ''dm:c'' (demo_deleted 1) () = Ok (Some k)"
    using demo_target(2) by blast
  have wf: "bt_wf (bk_records (dc_book ?c))" by simp
  obtain owner markers where log: "log_messages (dc_log ctx') =
      map (after_erasure ?env chat_kind (bk_context (dc_book ?c)) (dc_transfer ?c)
        (relevant owner (bk_records (dc_book ctx'))) markers) (log_messages (dc_log ?c))"
    and recs: "bk_records (dc_book ctx') = merge_all [?r] (bk_records (dc_book ?c))"
    by (rule install_OkE [OF i wf])
  have "relevant owner (bk_records (dc_book ctx')) = [?r]"
    unfolding recs by (simp add: merge_all_def merge_into_def relevant_def bt_values_def) (simp add: demo_record_def)
  then have "erased (log_messages (dc_log ctx') ! 0)"
    using after_erasure_cases(1) [OF kinds_ok(1) demo_target(1) k, of "[?r]" markers]
    by (simp add: log matches_def) (simp add: demo_deleted_def deletion_of_def default_metadata_def)
  then have changed: "log_messages (dc_log ctx') ! 0 \<noteq> demo_deleted 1"
    by (auto simp: erased_def demo_deleted_def)
  have m: "demo_deleted 1 = log_messages (dc_log ?c) ! 0" and l: "0 < length (log_messages (dc_log ?c))"
    and st: "bk_store (dc_book ?c) = Some demo_store"
    and sent: "5 = (case sent_at_ms (demo_deleted 1) of None \<Rightarrow> 0 | Some t \<Rightarrow> t)"
    and d: "''m1'' = (case message_id (demo_deleted 1) of None \<Rightarrow> [] | Some d \<Rightarrow> d)"
    and cv: "''c'' = conversation_part (bk_context (dc_book ?c))"
    by (simp_all add: demo_deleted_def conversation_part_def)
  from install_erases_durably [OF i kinds_ok(1) wf st l m changed sent d cv] i show ?thesis by blast
qed

theorem failed_install_keeps_conversation_witness:
  "\<exists>ctx' e. install (demo_erasure_env (Some ''disk'')) chat_kind [demo_record 1 DeletionPending None] False
      (demo_context 1) = (ctx', Err e) \<and> dc_log ctx' = dc_log (demo_context 1)"
proof -
  have "new_plan (demo_erasure_env (Some ''disk'')) chat_kind [demo_record 1 DeletionPending None] (demo_context 1) =
      Err ''disk''"
    by (simp add: new_plan_def Let_def book_user_def deletion_error_text_def)
  then have i: "install (demo_erasure_env (Some ''disk'')) chat_kind [demo_record 1 DeletionPending None] False
      (demo_context 1) = (demo_context 1, Err ''disk'')"
    by (simp add: install_def)
  from failed_install_keeps_conversation [OF i] i show ?thesis by blast
qed

theorem install_refines_table_witness:
  "\<exists>ctx'. install (demo_erasure_env None) chat_kind [demo_record 1 DeletionPending None] False (demo_context 1) = (ctx', Ok ()) \<and>
     book_synced (dc_book ctx') \<and>
     durable_records (dc_book ctx') = [(storage_key (demo_record 1 DeletionPending None), demo_record 1 DeletionPending None)]"
proof -
  obtain ctx' where i: "install (demo_erasure_env None) chat_kind [demo_record 1 DeletionPending None] False
      (demo_context 1) = (ctx', Ok ())"
    using demo_install by blast
  have "durable_records (dc_book (demo_context 1)) = []"
    by (simp add: durable_records_def demo_store_def range_prefix_def)
  moreover from this have "book_synced (dc_book (demo_context 1))"
    by (simp add: book_synced_def demo_store_def)
  moreover have "dr_context (demo_record 1 DeletionPending None) = ''dm:c''" by (simp add: demo_record_def)
  ultimately show ?thesis
    using install_refines_table [OF i] i by (simp add: merge_all_def merge_into_def)
qed

end
