(* ===== verification/Deletion_Exchange.thy ===== *)
theory Deletion_Exchange
  imports Deletion_Erasure
begin

text \<open>
  Deletions between devices: deleting for oneself (\<open>message_deletion/personal.rs\<close>) and for everyone,
  accepting and acknowledging records (\<open>shared.rs\<close>), the messages devices exchange about them
  (\<open>receive.rs\<close>, \<open>fragments.rs\<close>), the end of a pending deletion that is no longer allowed
  (\<open>lifecycle.rs\<close>) and what the interface is shown (\<open>snapshot.rs\<close>).

  Signing is the argument \<open>sign\<close> of the operations, as in the code; the random operation ids of one
  call are the argument \<open>fresh\<close>. The JSON of messages is the record \<open>deletion_codec\<close>. Opening the
  device identity, which \<open>delete_for_me\<close> does first, is its outcome.

  Shown here: whatever arrives, a shared record enters or changes in the book only if its request is
  signed and its requester was entitled to delete, or an administrator stands behind it; a receipt
  goes out only for a deletion that is durable; deleting for oneself erases every selected message;
  a pending deletion of this device that is no longer allowed is rejected and stays a personal one.
\<close>

section \<open>Selecting and requesting\<close>

record deletion_codec = frag_env +
  message_json :: "deletion_message \<Rightarrow> bytes option"
  message_from_json :: "bytes \<Rightarrow> deletion_message option"

record delete_messages_result =
  rs_deleted_count :: nat
  rs_local_only_count :: nat
  rs_pending_count :: nat

definition validate_selection :: "'x message_scheme list \<Rightarrow> string list \<Rightarrow> (deletion_error, string set) result" where
  "validate_selection ms ids =
     (if ids = [] \<or> 1000 < length ids then Err (InvalidInput ''select between 1 and 1000 messages'')
      else if list_ex (\<lambda>i. length (filter (\<lambda>m. message_id m = Some i) ms) \<noteq> 1) ids
      then Err (InvalidInput ''selected message is missing or ambiguous'')
      else Ok (set ids))"

definition selected_messages :: "string set \<Rightarrow> 'x message_scheme list \<Rightarrow> 'x message_scheme list" where
  "selected_messages ids ms = filter (\<lambda>m. case message_id m of None \<Rightarrow> False | Some i \<Rightarrow> i \<in> ids) ms"

definition shown_name :: "string \<Rightarrow> string" where
  "shown_name name = concat (filter (\<lambda>c. \<not> has_control c) (take 64 (utf8_chars name)))"

definition request_for ::
    "('vk, 'sg, 'sk, 'x message_scheme, 't, 'z) erasure_env_scheme \<Rightarrow> 'x message_scheme message_kind \<Rightarrow>
     'x message_scheme \<Rightarrow> string \<Rightarrow> deletion_actor \<Rightarrow> bool option \<Rightarrow> string \<Rightarrow> (bytes \<Rightarrow> (string, string) result) \<Rightarrow>
     (deletion_error, delete_request) result" where
  "request_for env kd m context actor moderated operation sign =
     and_then (ok_or moderated PermissionDenied) (\<lambda>moderated.
       if mk_is_service kd m \<or> deletion_of m \<noteq> None
       then Err (InvalidInput ''message cannot be deleted for everyone'')
       else
         and_then (ok_or (origin_of m) PermissionDenied) (\<lambda>target.
           (let q = \<lparr>dq_operation = operation, dq_target = target, dq_actor = act_key actor,
                dq_actor_name = shown_name (act_name actor), dq_moderated = moderated, dq_epoch = act_epoch actor,
                dq_signature = [], dq_ownership = act_ownership actor\<rparr>
            in and_then (map_err Internal (and_then (request_input env q) sign)) (\<lambda>signature.
                 (let q1 = q\<lparr>dq_signature := signature\<rparr>
                  in and_then (map_err Internal (request_verify env q1 context)) (\<lambda>_. Ok q1))))))"

fun admit_records ::
    "('vk, 'sg, 'sk, 'x message_scheme, 't, 'z) erasure_env_scheme \<Rightarrow> 'x message_scheme message_kind \<Rightarrow> string \<Rightarrow>
     deletion_actor \<Rightarrow> ('x message_scheme \<Rightarrow> bool option) \<Rightarrow> (nat \<Rightarrow> string) \<Rightarrow> (bytes \<Rightarrow> (string, string) result) \<Rightarrow> nat \<Rightarrow>
     'x message_scheme list \<Rightarrow> (deletion_error, deletion_record list) result" where
  "admit_records env kd context actor permit fresh sign n [] = Ok []"
| "admit_records env kd context actor permit fresh sign n (m # ms) =
     and_then (request_for env kd m context actor (permit m) (fresh n) sign) (\<lambda>q.
     and_then (map_err Internal (canonical env q DeletionPending None)) (\<lambda>r.
     and_then (admit_records env kd context actor permit fresh sign (Suc n) ms) (\<lambda>rs. Ok (r # rs))))"

text \<open>\<open>map_result\<close> applies a function to the outcome of an operation with a state.\<close>

definition map_result :: "(('e, 'a) result \<Rightarrow> ('f, 'b) result) \<Rightarrow> 's \<times> ('e, 'a) result \<Rightarrow> 's \<times> ('f, 'b) result" where
  "map_result f out = (fst out, f (snd out))"

definition admit ::
    "('vk, 'sg, 'sk, 'x message_scheme, 't, 'z) erasure_env_scheme \<Rightarrow> 'x message_scheme message_kind \<Rightarrow> string list \<Rightarrow>
     deletion_actor \<Rightarrow> ('x message_scheme \<Rightarrow> bool option) \<Rightarrow> (nat \<Rightarrow> string) \<Rightarrow> (bytes \<Rightarrow> (string, string) result) \<Rightarrow>
     ('x message_scheme, 't) deletion_context \<Rightarrow>
     ('x message_scheme, 't) deletion_context \<times> (deletion_error, delete_messages_result) result" where
  "admit env kd ids actor permit fresh sign ctx =
     (if bk_store (dc_book ctx) = None
      then (ctx, Err (DeletionPersistence ''shared deletion requires encrypted storage''))
      else
        (case and_then (validate_selection (log_messages (dc_log ctx)) ids) (\<lambda>chosen.
                admit_records env kd (bk_context (dc_book ctx)) actor permit fresh sign 0
                  (selected_messages chosen (log_messages (dc_log ctx)))) of
           Inl e \<Rightarrow> (ctx, Err e)
         | Inr records \<Rightarrow>
             map_result (\<lambda>r. and_then (map_err DeletionPersistence r) (\<lambda>_.
                 Ok \<lparr>rs_deleted_count = length records, rs_local_only_count = 0, rs_pending_count = length records\<rparr>))
               (install env kd records False ctx)))"

section \<open>Accepting and acknowledging\<close>

definition sign_ack ::
    "('vk, 'sg, 'sk, 'z) deletion_env_scheme \<Rightarrow> delete_request \<Rightarrow> deletion_actor \<Rightarrow> (bytes \<Rightarrow> (string, string) result) \<Rightarrow>
     (string, delete_ack) result" where
  "sign_ack env q actor sign =
     and_then (request_digest env q) (\<lambda>d.
       (let a = \<lparr>da_request_digest = d, da_actor = act_key actor, da_signature = [],
            da_ownership = act_ownership actor\<rparr>
        in and_then (and_then (ack_input env a) sign) (\<lambda>signature. Ok (a\<lparr>da_signature := signature\<rparr>))))"

definition accepted_record ::
    "('vk, 'sg, 'sk, 'z) deletion_env_scheme \<Rightarrow> deletion_record \<Rightarrow> delete_request \<Rightarrow> deletion_actor \<Rightarrow> bool \<Rightarrow>
     (bytes \<Rightarrow> (string, string) result) \<Rightarrow> (string, deletion_record) result" where
  "accepted_record env r q actor acks sign =
     (if dr_acknowledgement r = None \<and> acks \<and> act_key actor \<noteq> dq_actor q then
        and_then (sign_ack env q actor sign) (\<lambda>a.
          Ok (r\<lparr>dr_acknowledgement := Some a, dr_status := DeletionConfirmed\<rparr>))
      else Ok r)"

definition own_receipt :: "deletion_actor \<Rightarrow> deletion_record \<Rightarrow> deletion_message option" where
  "own_receipt actor r =
     (case dr_acknowledgement r of
        None \<Rightarrow> None
      | Some a \<Rightarrow> if da_actor a = act_key actor then Some (DAck (dr_key r) a) else None)"

definition accept ::
    "('vk, 'sg, 'sk, 'x message_scheme, 't, 'z) erasure_env_scheme \<Rightarrow> 'x message_scheme message_kind \<Rightarrow> deletion_record \<Rightarrow>
     deletion_actor \<Rightarrow> bool \<Rightarrow> (bytes \<Rightarrow> (string, string) result) \<Rightarrow> ('x message_scheme, 't) deletion_context \<Rightarrow>
     ('x message_scheme, 't) deletion_context \<times> (string, deletion_message option) result" where
  "accept env kd r actor acks sign ctx =
     (case and_then (verify_record env r (bk_context (dc_book ctx))) (\<lambda>q.
             if bk_store (dc_book ctx) = None then Err ''cannot acknowledge unsaved deletion''
             else accepted_record env r q actor acks sign) of
        Inl e \<Rightarrow> (ctx, Err e)
      | Inr r1 \<Rightarrow>
          map_result (\<lambda>out. and_then out (\<lambda>_. Ok (own_receipt actor r1))) (install env kd [r1] True ctx))"

definition has_digest :: "('vk, 'sg, 'sk, 'z) deletion_env_scheme \<Rightarrow> string \<Rightarrow> deletion_record \<Rightarrow> bool" where
  "has_digest env d r \<longleftrightarrow>
     (case dr_request r of None \<Rightarrow> False | Some q \<Rightarrow> to_option (request_digest env q) = Some d)"

definition acknowledge ::
    "('vk, 'sg, 'sk, 'x message_scheme, 't, 'z) erasure_env_scheme \<Rightarrow> 'x message_scheme message_kind \<Rightarrow> string \<Rightarrow>
     delete_ack \<Rightarrow> ('x message_scheme, 't) deletion_context \<Rightarrow>
     ('x message_scheme, 't) deletion_context \<times> (string, unit) result" where
  "acknowledge env kd key a ctx =
     (case find (\<lambda>r. dr_key r = key \<and> has_digest env (da_request_digest a) r) (bt_values (bk_records (dc_book ctx))) of
        None \<Rightarrow> (ctx, Ok ())
      | Some r \<Rightarrow>
          if dr_status r = DeletionRejected then (ctx, Ok ())
          else
            (case and_then (ok_or (dr_request r) ''missing request'') (ack_verify env a) of
               Inl e \<Rightarrow> (ctx, Err e)
             | Inr _ \<Rightarrow>
                 install env kd [r\<lparr>dr_status := DeletionConfirmed, dr_acknowledgement := Some a\<rparr>] True ctx))"

section \<open>Messages\<close>

definition split_message ::
    "'z deletion_codec_scheme \<Rightarrow> deletion_message \<Rightarrow> (string, deletion_message list) result" where
  "split_message cd msg =
     and_then (ok_or (message_json cd msg) ''json'') (\<lambda>b.
       if length b \<le> CHUNK then Ok [msg]
       else and_then (split_bytes cd b) (\<lambda>fs. Ok (map DFragment fs)))"

definition assemble ::
    "'z deletion_codec_scheme \<Rightarrow> string \<Rightarrow> deletion_message \<Rightarrow> 'm deletion_book \<Rightarrow>
     'm deletion_book \<times> (string, deletion_message option) result" where
  "assemble cd carrier msg b =
     (case msg of
        DFragment f \<Rightarrow>
          (let (buffer, out) = add_fragment cd carrier f (bk_fragments b)
           in (b\<lparr>bk_fragments := buffer\<rparr>,
               and_then out (\<lambda>page.
                 (case page of
                    None \<Rightarrow> Ok None
                  | Some bytes \<Rightarrow>
                      and_then (ok_or (message_from_json cd bytes) ''json'') (\<lambda>inner.
                        (case inner of
                           DFragment _ \<Rightarrow> Err ''nested deletion fragments''
                         | _ \<Rightarrow> Ok (Some inner)))))))
      | _ \<Rightarrow> (b, Ok (Some msg)))"

definition currently_admissible ::
    "('vk, 'sg, 'sk, 'z) deletion_env_scheme \<Rightarrow> string \<Rightarrow> deletion_record \<Rightarrow> string \<Rightarrow> deletion_authority \<Rightarrow>
     (string, deletion_record) result" where
  "currently_admissible env context r carrier y =
     and_then (verify_record env r context) (\<lambda>q.
       if is_ok (validate_record env y r carrier) then Ok r
       else
         and_then (if dr_status r \<noteq> DeletionConfirmed then validate_record env y r carrier else Ok ()) (\<lambda>_.
         and_then (canonical env q DeletionPending None) (\<lambda>pending.
         and_then (validate_record env y pending carrier) (\<lambda>_. Ok pending))))"

fun receive_records ::
    "('vk, 'sg, 'sk, 'x message_scheme, 't, 'z) erasure_env_scheme \<Rightarrow> 'x message_scheme message_kind \<Rightarrow> string \<Rightarrow>
     deletion_authority \<Rightarrow> (bytes \<Rightarrow> (string, string) result) \<Rightarrow> deletion_record list \<Rightarrow>
     ('x message_scheme, 't) deletion_context \<Rightarrow>
     ('x message_scheme, 't) deletion_context \<times> (string, deletion_message list) result" where
  "receive_records env kd carrier y sign [] ctx = (ctx, Ok [])"
| "receive_records env kd carrier y sign (r # rs) ctx =
     (case currently_admissible env (bk_context (dc_book ctx)) r carrier y of
        Inl e \<Rightarrow> (ctx, Err e)
      | Inr r1 \<Rightarrow>
          if dr_status r1 = DeletionPending \<and> act_ownership (ay_local y) = None
          then receive_records env kd carrier y sign rs ctx
          else
            (case dr_request r1 of
               None \<Rightarrow> (ctx, Err ''missing request'')
             | Some q \<Rightarrow>
                 (case accept env kd r1 (ay_local y) (may_ack env y q (act_key (ay_local y))) sign ctx of
                    (ctx1, Inl e) \<Rightarrow> (ctx1, Err e)
                  | (ctx1, Inr ack) \<Rightarrow>
                      map_result (\<lambda>out. and_then out (\<lambda>replies.
                          Ok ((case ack of None \<Rightarrow> [] | Some a \<Rightarrow> [a]) @ replies)))
                        (receive_records env kd carrier y sign rs ctx1))))"

definition receive_state ::
    "('vk, 'sg, 'sk, 'x message_scheme, 't, 'z) erasure_env_scheme \<Rightarrow> 'x message_scheme message_kind \<Rightarrow>
     deletion_record list \<Rightarrow> string option \<Rightarrow> string \<Rightarrow> deletion_authority \<Rightarrow> (bytes \<Rightarrow> (string, string) result) \<Rightarrow>
     ('x message_scheme, 't) deletion_context \<Rightarrow>
     ('x message_scheme, 't) deletion_context \<times> (string, deletion_message list) result" where
  "receive_state env kd records nxt carrier y sign ctx =
     (if 16 < length records \<or> (case nxt of None \<Rightarrow> False | Some n \<Rightarrow> 1024 < length n)
      then (ctx, Err ''deletion page too large'')
      else
        map_result (\<lambda>out. and_then out (\<lambda>replies.
            Ok (replies @ (if nxt = None then [] else [DRequest nxt None]))))
          (receive_records env kd carrier y sign records ctx))"

definition receive_request ::
    "('vk, 'sg, 'sk, 'z) deletion_env_scheme \<Rightarrow> string option \<Rightarrow> string option \<Rightarrow> deletion_authority \<Rightarrow>
     deletion_records \<Rightarrow> (string, deletion_message list) result" where
  "receive_request env after digest y records =
     and_then (shared_digest env y records) (\<lambda>local_digest.
       if after = None \<and> digest = Some local_digest then Ok []
       else
         Ok (deletion_page env y records after #
             (if after = None \<and> digest \<noteq> None \<and> act_ownership (ay_local y) \<noteq> None
              then [DRequest None (Some local_digest)] else [])))"

definition receive_ack ::
    "('vk, 'sg, 'sk, 'x message_scheme, 't, 'z) erasure_env_scheme \<Rightarrow> 'x message_scheme message_kind \<Rightarrow> string \<Rightarrow>
     delete_ack \<Rightarrow> string \<Rightarrow> deletion_authority \<Rightarrow> ('x message_scheme, 't) deletion_context \<Rightarrow>
     ('x message_scheme, 't) deletion_context \<times> (string, deletion_message list) result" where
  "receive_ack env kd key a carrier y ctx =
     (case find (has_digest env (da_request_digest a)) (bt_values (bk_records (dc_book ctx))) of
        None \<Rightarrow> (ctx, Ok [])
      | Some r \<Rightarrow>
          (case dr_request r of
             None \<Rightarrow> (ctx, Ok [])
           | Some q \<Rightarrow>
               (case validate_record env y r carrier of
                  Inl e \<Rightarrow> (ctx, Err e)
                | Inr _ \<Rightarrow>
                    if da_actor a \<noteq> carrier \<or> \<not> may_ack_with_proof env y q carrier (da_ownership a)
                    then (ctx, Err ''ineligible acknowledgement carrier'')
                    else map_result (\<lambda>out. and_then out (\<lambda>_. Ok [])) (acknowledge env kd key a ctx))))"

definition receive_deletion ::
    "('vk, 'sg, 'sk, 'x message_scheme, 't, 'z) erasure_env_scheme \<Rightarrow> 'y deletion_codec_scheme \<Rightarrow>
     'x message_scheme message_kind \<Rightarrow> deletion_message \<Rightarrow> string \<Rightarrow> deletion_authority \<Rightarrow>
     (bytes \<Rightarrow> (string, string) result) \<Rightarrow> ('x message_scheme, 't) deletion_context \<Rightarrow>
     ('x message_scheme, 't) deletion_context \<times> (string, deletion_message list) result" where
  "receive_deletion env cd kd msg carrier y sign ctx =
     (if \<not> ay_member y carrier then (ctx, Err ''unknown deletion carrier'')
      else
        (let (b, out) = assemble cd carrier msg (dc_book ctx);
             ctx1 = ctx\<lparr>dc_book := b\<rparr>
         in case out of
              Inl e \<Rightarrow> (ctx1, Err e)
            | Inr None \<Rightarrow> (ctx1, Ok [])
            | Inr (Some (DFragment _)) \<Rightarrow> (ctx1, Err ''unexpected deletion fragment'')
            | Inr (Some (DRequest after digest)) \<Rightarrow> (ctx1, receive_request env after digest y (bk_records b))
            | Inr (Some (DState records nxt)) \<Rightarrow> receive_state env kd records nxt carrier y sign ctx1
            | Inr (Some (DAck key a)) \<Rightarrow> receive_ack env kd key a carrier y ctx1))"

section \<open>Personal deletions and the end of pending ones\<close>

definition personal_record ::
    "('vk, 'sg, 'sk, 'x message_scheme, 't, 'z) erasure_env_scheme \<Rightarrow> 'x message_scheme message_kind \<Rightarrow> string \<Rightarrow> string \<Rightarrow>
     't \<Rightarrow> 'x message_scheme \<Rightarrow> (deletion_error, deletion_record) result" where
  "personal_record env kd context owner tr m =
     and_then (map_err Internal (deletion_target env kd context m tr)) (\<lambda>(key, local_only).
     and_then (map_err Internal (message_key env kd context m tr)) (\<lambda>correlation.
       Ok \<lparr>dr_context = context, dr_key = key,
           dr_personal_correlation = (case correlation of None \<Rightarrow> None
             | Some alias \<Rightarrow> if alias \<noteq> key then Some alias else None),
           dr_scope = ForMe, dr_owner = owner, dr_local_only = local_only, dr_status = DeletionConfirmed,
           dr_administrator = None, dr_request = None, dr_acknowledgement = None\<rparr>))"

fun map_results :: "('a \<Rightarrow> ('e, 'b) result) \<Rightarrow> 'a list \<Rightarrow> ('e, 'b list) result" where
  "map_results f [] = Ok []"
| "map_results f (x # xs) = and_then (f x) (\<lambda>y. and_then (map_results f xs) (\<lambda>ys. Ok (y # ys)))"

definition delete_for_me ::
    "('vk, 'sg, 'sk, 'x message_scheme, 't, 'z) erasure_env_scheme \<Rightarrow> 'x message_scheme message_kind \<Rightarrow> string list \<Rightarrow>
     (string, unit) result option \<Rightarrow> ('x message_scheme, 't) deletion_context \<Rightarrow>
     ('x message_scheme, 't) deletion_context \<times> (deletion_error, delete_messages_result) result" where
  "delete_for_me env kd ids opened ctx =
     (case (bk_store (dc_book ctx), opened) of
        (Some _, Some (Inl e)) \<Rightarrow> (ctx, Err (DeletionPersistence e))
      | _ \<Rightarrow>
          (let (b, out) = reload env (dc_book ctx);
               ctx1 = ctx\<lparr>dc_book := b\<rparr>
           in case and_then (map_err DeletionPersistence out) (\<lambda>_.
                    and_then (validate_selection (log_messages (dc_log ctx1)) ids) (\<lambda>chosen.
                    and_then (book_user env b) (\<lambda>owner.
                      map_results (personal_record env kd (bk_context b) owner (dc_transfer ctx1))
                        (selected_messages chosen (log_messages (dc_log ctx1)))))) of
                Inl e \<Rightarrow> (ctx1, Err e)
              | Inr records \<Rightarrow>
                  map_result (\<lambda>r. and_then (map_err DeletionPersistence r) (\<lambda>_.
                      Ok \<lparr>rs_deleted_count = length records,
                          rs_local_only_count = length (filter dr_local_only records), rs_pending_count = 0\<rparr>))
                    (install env kd records False ctx1)))"

definition personal_rejection ::
    "('vk, 'sg, 'sk, 'x message_scheme, 't, 'z) erasure_env_scheme \<Rightarrow> 'x message_scheme message_kind \<Rightarrow>
     ('x message_scheme, 't) deletion_context \<Rightarrow> deletion_record \<Rightarrow> delete_request \<Rightarrow> string \<Rightarrow>
     (string, deletion_record) result" where
  "personal_rejection env kd ctx r q owner =
     and_then
       (case find (\<lambda>m. message_id m = Some (or_id (dq_target q))) (log_messages (dc_log ctx)) of
          None \<Rightarrow> Ok None
        | Some m \<Rightarrow> message_key env kd (bk_context (dc_book ctx)) m (dc_transfer ctx))
       (\<lambda>correlation.
         Ok \<lparr>dr_context = dr_context r, dr_key = dr_key r, dr_personal_correlation = correlation, dr_scope = ForMe,
             dr_owner = owner, dr_local_only = False, dr_status = DeletionConfirmed, dr_administrator = None,
             dr_request = None, dr_acknowledgement = None\<rparr>)"

definition is_refused :: "string \<Rightarrow> (delete_request \<Rightarrow> bool) \<Rightarrow> deletion_record \<Rightarrow> bool" where
  "is_refused local_key allowed r \<longleftrightarrow>
     dr_status r = DeletionPending \<and>
     (case dr_request r of None \<Rightarrow> False | Some q \<Rightarrow> dq_actor q = local_key \<and> \<not> allowed q)"

definition rejection ::
    "('vk, 'sg, 'sk, 'x message_scheme, 't, 'z) erasure_env_scheme \<Rightarrow> 'x message_scheme message_kind \<Rightarrow>
     ('x message_scheme, 't) deletion_context \<Rightarrow> string \<Rightarrow> deletion_record \<Rightarrow> (string, deletion_record list) result" where
  "rejection env kd ctx owner r =
     and_then (ok_or (dr_request r) ''missing request'') (\<lambda>q.
     and_then (personal_rejection env kd ctx r q owner) (\<lambda>p. Ok [r\<lparr>dr_status := DeletionRejected\<rparr>, p]))"

definition reject_local_pending ::
    "('vk, 'sg, 'sk, 'x message_scheme, 't, 'z) erasure_env_scheme \<Rightarrow> 'x message_scheme message_kind \<Rightarrow> string \<Rightarrow>
     (delete_request \<Rightarrow> bool) \<Rightarrow> ('x message_scheme, 't) deletion_context \<Rightarrow>
     ('x message_scheme, 't) deletion_context \<times> (string, unit) result" where
  "reject_local_pending env kd local_key allowed ctx =
     (let (b, out) = reload env (dc_book ctx);
          ctx1 = ctx\<lparr>dc_book := b\<rparr>
      in case out of
           Inl e \<Rightarrow> (ctx1, Err e)
         | Inr _ \<Rightarrow>
             if bk_records b = [] then (ctx1, Ok ())
             else
               (case and_then (map_err deletion_error_text (book_user env b)) (\<lambda>owner.
                       map_results (rejection env kd ctx1 owner)
                         (filter (is_refused local_key allowed) (bt_values (bk_records b)))) of
                  Inl e \<Rightarrow> (ctx1, Err e)
                | Inr changes \<Rightarrow> install env kd (concat changes) False ctx1))"

definition reconcile ::
    "('vk, 'sg, 'sk, 'x message_scheme, 't, 'z) erasure_env_scheme \<Rightarrow> 'x message_scheme message_kind \<Rightarrow>
     deletion_authority \<Rightarrow> bool \<Rightarrow> ('x message_scheme, 't) deletion_context \<Rightarrow>
     ('x message_scheme, 't) deletion_context \<times> (string, unit) result" where
  "reconcile env kd y leaving ctx =
     reject_local_pending env kd (act_key (ay_local y)) (\<lambda>q.
       \<not> leaving \<and> member_with_proof env y (dq_actor q) (dq_ownership q) \<and>
       (\<not> dq_moderated q \<or> dq_actor q \<in> ay_admins y)) ctx"

definition cancel_pending ::
    "('vk, 'sg, 'sk, 'x message_scheme, 't, 'z) erasure_env_scheme \<Rightarrow> 'x message_scheme message_kind \<Rightarrow> string \<Rightarrow>
     ('x message_scheme, 't) deletion_context \<Rightarrow> ('x message_scheme, 't) deletion_context \<times> (string, unit) result" where
  "cancel_pending env kd local_key ctx = reject_local_pending env kd local_key (\<lambda>_. False) ctx"

section \<open>What the interface is shown\<close>

definition snapshot_message ::
    "('vk, 'sg, 'sk, 'x message_scheme, 't, 'z) erasure_env_scheme \<Rightarrow> 'x message_scheme message_kind \<Rightarrow> 't \<Rightarrow>
     'x message_scheme deletion_book \<Rightarrow> deletion_authority option \<Rightarrow> 'x message_scheme \<Rightarrow> 'x message_scheme" where
  "snapshot_message env kd tr b ay m =
     (let d = (case metadata m of None \<Rightarrow> default_metadata | Some d \<Rightarrow> d);
          local_only = (case deletion_target env kd (bk_context b) m tr of Inl _ \<Rightarrow> True | Inr (_, l) \<Rightarrow> l);
          can_delete =
            (\<not> mk_is_service kd m \<and> md_deletion d = None \<and> bk_store b \<noteq> None \<and>
             (case md_origin d of
                None \<Rightarrow> False
              | Some p \<Rightarrow>
                  or_conversation p = bk_context b \<and> is_ok (origin_verify_signature env p) \<and>
                  (case ay of None \<Rightarrow> False | Some y \<Rightarrow> permitted env y p \<noteq> None)));
          own = (case md_origin d of None \<Rightarrow> md_is_own d | Some p \<Rightarrow> map_option (\<lambda>y. is_author env y p) ay)
      in m\<lparr>metadata := Some (d\<lparr>md_local_only := local_only, md_can_delete_for_everyone := can_delete,
           md_is_own := own\<rparr>)\<rparr>)"

definition snapshot_messages ::
    "('vk, 'sg, 'sk, 'x message_scheme, 't, 'z) erasure_env_scheme \<Rightarrow> 'x message_scheme message_kind \<Rightarrow>
     'x message_scheme message_log \<Rightarrow> 't \<Rightarrow> 'x message_scheme deletion_book \<Rightarrow> deletion_authority option \<Rightarrow>
     'x message_scheme list" where
  "snapshot_messages env kd l tr b ay = map (snapshot_message env kd tr b ay) (visible l)"

section \<open>What an install does to the records\<close>

lemma map_result_eq [simp]: "map_result f (s, r) = (s, f r)"
  by (simp add: map_result_def)

lemma install_records:
  assumes "install env kd rs accepted ctx = (ctx', out)" and "bt_wf (bk_records (dc_book ctx))"
  shows "bk_records (dc_book ctx') = (if is_ok out then merge_all rs (bk_records (dc_book ctx)) else bk_records (dc_book ctx))"
    and "bk_context (dc_book ctx') = bk_context (dc_book ctx)"
    and "bt_wf (bk_records (dc_book ctx'))"
proof -
  have "bk_records (dc_book ctx') = (if is_ok out then merge_all rs (bk_records (dc_book ctx)) else bk_records (dc_book ctx)) \<and>
      bk_context (dc_book ctx') = bk_context (dc_book ctx)"
  proof (cases out)
    case (Inl e)
    then show ?thesis
      using assms(1)
      by (auto simp: install_def finish_install_def Let_def split: sum.splits if_splits option.splits prod.splits)
  next
    case (Inr u)
    with assms have i: "install env kd rs accepted ctx = (ctx', Ok ())" by simp
    from install_OkE [OF i assms(2)] Inr show ?thesis by (metis is_ok_simps(2))
  qed
  then show "bk_records (dc_book ctx') = (if is_ok out then merge_all rs (bk_records (dc_book ctx)) else bk_records (dc_book ctx))"
    and "bk_context (dc_book ctx') = bk_context (dc_book ctx)"
    and "bt_wf (bk_records (dc_book ctx'))"
    using assms(2) by (auto intro: wf_intros)
qed

lemma merge_one_changed:
  assumes "bt_get (merge_all [r] m) k = Some x" and "bt_get m k \<noteq> Some x"
  shows "x = r"
  using assms merged_cases by (auto simp: merge_all_def merge_into_def split: if_splits option.splits) metis

section \<open>Only entitled requests\<close>

text \<open>
  An administrator stands behind a request when one carries it or has signed a receipt for it from
  another account. A request is entitled if it was accepted here before, or if its requester is a
  member (or an administrator stands behind it) and it is either of the author's own account or a
  moderation by an administrator.
\<close>

definition admin_behind ::
    "('vk, 'sg, 'sk, 'z) deletion_env_scheme \<Rightarrow> deletion_authority \<Rightarrow> delete_request \<Rightarrow> string \<Rightarrow> bool" where
  "admin_behind env y q carrier \<longleftrightarrow>
     carrier \<in> ay_admins y \<or>
     (\<exists>a. ack_verify env a q = Ok () \<and> da_actor a \<in> ay_admins y \<and>
        may_ack_with_proof env y q (da_actor a) (da_ownership a))"

definition entitled ::
    "('vk, 'sg, 'sk, 'z) deletion_env_scheme \<Rightarrow> deletion_authority \<Rightarrow> delete_request \<Rightarrow> string \<Rightarrow> bool" where
  "entitled env y q carrier \<longleftrightarrow>
     (\<exists>d. request_digest env q = Ok d \<and> d \<in> ay_accepted y) \<or>
     (member_with_proof env y (dq_actor q) (dq_ownership q) \<or> admin_behind env y q carrier) \<and>
       (if dq_moderated q then dq_actor q \<in> ay_admins y \<or> admin_behind env y q carrier
        else
          ay_same_account y (dq_actor q) (or_author (dq_target q)) \<or>
          proofs_same_account env (dq_actor q) (dq_ownership q) (or_author (dq_target q)) (or_ownership (dq_target q)))"

lemma verify_recordD:
  assumes "verify_record env r c = Ok q"
  shows "dr_request r = Some q" and "request_verify env q c = Ok ()" and "or_conversation (dq_target q) = c"
    and "dr_context r = c" and "dr_status r \<noteq> DeletionRejected"
    and "\<And>a. dr_acknowledgement r = Some a \<Longrightarrow> dr_status r = DeletionConfirmed \<and> ack_verify env a q = Ok ()"
    and "dr_acknowledgement r = None \<Longrightarrow> dr_status r = DeletionPending"
proof -
  from assms have 1: "dr_request r = Some q" "request_verify env q c = Ok ()"
    and st: "(dr_status r = DeletionConfirmed) = (dr_acknowledgement r \<noteq> None)"
    and c: "canonical env q (dr_status r) (dr_acknowledgement r) = Ok r" and nr: "dr_status r \<noteq> DeletionRejected"
    and ack: "dr_status r = DeletionConfirmed \<Longrightarrow> and_then (ok_or (dr_acknowledgement r) ''unconfirmed deletion'') (\<lambda>a. ack_verify env a q) = Ok ()"
    by (auto simp: verify_record_def and_then_Ok_iff split: if_splits)
  show "dr_request r = Some q" "request_verify env q c = Ok ()" "dr_status r \<noteq> DeletionRejected" by (fact 1 nr)+
  show conv: "or_conversation (dq_target q) = c"
    using 1(2) by (auto simp: request_verify_def and_then_Ok_iff split: if_splits)
  have "dr_context r = or_conversation (dq_target q)"
    using c by (auto simp: canonical_def and_then_Ok_iff dest: arg_cong [where f = dr_context])
  with conv show "dr_context r = c" by simp
  show "dr_status r = DeletionConfirmed \<and> ack_verify env a q = Ok ()" if "dr_acknowledgement r = Some a" for a
    using that st ack by auto
  show "dr_status r = DeletionPending" if "dr_acknowledgement r = None"
    using that st nr by (cases "dr_status r") auto
qed

lemma validate_entitled:
  assumes "validate_record env y r carrier = Ok ()" and "dr_request r = Some q"
    and "\<And>a. dr_acknowledgement r = Some a \<Longrightarrow> ack_verify env a q = Ok ()"
  shows "entitled env y q carrier"
proof -
  have "endorsed env y r q carrier \<Longrightarrow> admin_behind env y q carrier"
    using assms(3) by (auto simp: endorsed_def admin_behind_def split: option.splits)
  then show ?thesis
    using assms(1,2)
    by (auto simp: validate_record_def entitled_def and_then_Ok_iff may_delete_def Let_def split: if_splits)
qed

lemma admissible_entitled:
  assumes "currently_admissible env c r carrier y = Ok r1"
  shows "\<exists>q. dr_request r1 = Some q \<and> request_verify env q c = Ok () \<and> entitled env y q carrier"
proof -
  from assms obtain q where v: "verify_record env r c = Ok q"
    and alt: "r1 = r \<and> validate_record env y r carrier = Ok () \<or>
      canonical env q DeletionPending None = Ok r1 \<and> validate_record env y r1 carrier = Ok ()"
    by (auto simp: currently_admissible_def and_then_Ok_iff is_ok_iff split: if_splits)
  note q = verify_recordD [OF v]
  from alt show ?thesis
  proof
    assume "r1 = r \<and> validate_record env y r carrier = Ok ()"
    with validate_entitled [of env y r carrier q] q show ?thesis by auto
  next
    assume p: "canonical env q DeletionPending None = Ok r1 \<and> validate_record env y r1 carrier = Ok ()"
    then have "dr_request r1 = Some q" "dr_acknowledgement r1 = None" by (auto simp: canonical_def and_then_Ok_iff)
    with validate_entitled [of env y r1 carrier q] p q show ?thesis by auto
  qed
qed

lemma accepted_record_fields:
  assumes "accepted_record env r q actor acks sign = Ok r1"
  shows "dr_request r1 = dr_request r" "dr_key r1 = dr_key r" "dr_context r1 = dr_context r" "dr_owner r1 = dr_owner r"
    "dr_scope r1 = dr_scope r"
  using assms by (auto simp: accepted_record_def and_then_Ok_iff split: if_splits)

lemma accept_cases:
  assumes "accept env kd r actor acks sign ctx = (ctx', out)"
  obtains (refused) "ctx' = ctx" "\<not> is_ok out"
    | (installed) q r1 out' where "verify_record env r (bk_context (dc_book ctx)) = Ok q" "bk_store (dc_book ctx) \<noteq> None"
      "accepted_record env r q actor acks sign = Ok r1" "install env kd [r1] True ctx = (ctx', out')"
      "out = and_then out' (\<lambda>_. Ok (own_receipt actor r1))"
proof (cases "and_then (verify_record env r (bk_context (dc_book ctx))) (\<lambda>q.
    if bk_store (dc_book ctx) = None then Err ''cannot acknowledge unsaved deletion''
    else accepted_record env r q actor acks sign)")
  case (Inl e)
  with assms refused show ?thesis by (auto simp: accept_def)
next
  case (Inr r1)
  then obtain q where "verify_record env r (bk_context (dc_book ctx)) = Ok q" "bk_store (dc_book ctx) \<noteq> None"
    "accepted_record env r q actor acks sign = Ok r1"
    by (auto simp: and_then_Ok_iff split: if_splits)
  moreover obtain ctx1 out' where i: "install env kd [r1] True ctx = (ctx1, out')" by fastforce
  ultimately show ?thesis
    using assms installed Inr by (simp add: accept_def)
qed

text \<open>
  How the records of a book may change: the conversation and the order of the table stay, and each
  record that is not one of the old ones satisfies \<open>P\<close>.
\<close>

definition only_adds :: "(deletion_record \<Rightarrow> bool) \<Rightarrow> 'm deletion_book \<Rightarrow> 'm deletion_book \<Rightarrow> bool" where
  "only_adds P b b' \<longleftrightarrow>
     bk_context b' = bk_context b \<and> bt_wf (bk_records b') \<and>
     (\<forall>k x. bt_get (bk_records b') k = Some x \<longrightarrow> bt_get (bk_records b) k = Some x \<or> P x)"

lemma only_adds_refl: "bt_wf (bk_records b) \<Longrightarrow> only_adds P b b"
  by (simp add: only_adds_def)

lemma only_adds_trans: "only_adds P b b1 \<Longrightarrow> only_adds P b1 b2 \<Longrightarrow> only_adds P b b2"
  by (fastforce simp: only_adds_def)

lemma only_adds_mono: "only_adds P b b' \<Longrightarrow> (\<And>x. P x \<Longrightarrow> Q x) \<Longrightarrow> only_adds Q b b'"
  by (fastforce simp: only_adds_def)

lemma install_only_adds:
  assumes "install env kd [r] accepted ctx = (ctx', out)" and "bt_wf (bk_records (dc_book ctx))"
  shows "only_adds (\<lambda>x. x = r) (dc_book ctx) (dc_book ctx')"
  using install_records [OF assms] merge_one_changed [of r "bk_records (dc_book ctx)"] assms(2)
  by (auto simp: only_adds_def split: if_splits)

lemma accept_only_adds:
  assumes "accept env kd r actor acks sign ctx = (ctx', out)" and "bt_wf (bk_records (dc_book ctx))"
  shows "only_adds (\<lambda>x. dr_request x = dr_request r) (dc_book ctx) (dc_book ctx')"
  using assms(1)
proof (cases rule: accept_cases)
  case (installed q r1 out')
  from install_only_adds [OF installed(4) assms(2)] accepted_record_fields(1) [OF installed(3)]
  show ?thesis by (auto elim: only_adds_mono)
qed (use assms(2) in \<open>auto intro: only_adds_refl\<close>)

abbreviation asked_for :: "('vk, 'sg, 'sk, 'z) deletion_env_scheme \<Rightarrow> string \<Rightarrow> deletion_authority \<Rightarrow> string \<Rightarrow> deletion_record \<Rightarrow> bool" where
  "asked_for env c y carrier x \<equiv>
     \<exists>q. dr_request x = Some q \<and> request_verify env q c = Ok () \<and> entitled env y q carrier"

lemma receive_records_only_adds:
  "receive_records env kd carrier y sign rs ctx = (ctx', out) \<Longrightarrow> bt_wf (bk_records (dc_book ctx)) \<Longrightarrow>
   only_adds (asked_for env (bk_context (dc_book ctx)) y carrier) (dc_book ctx) (dc_book ctx')"
proof (induction rs arbitrary: ctx ctx' out)
  case Nil
  then show ?case by (simp add: only_adds_refl)
next
  case (Cons r rs)
  show ?case
  proof (cases "currently_admissible env (bk_context (dc_book ctx)) r carrier y")
    case (Inl e)
    with Cons.prems show ?thesis by (simp add: only_adds_refl)
  next
    case (Inr r1)
    from admissible_entitled [OF Inr] obtain q where q: "dr_request r1 = Some q"
      and asked: "asked_for env (bk_context (dc_book ctx)) y carrier r1" by blast
    show ?thesis
    proof (cases "dr_status r1 = DeletionPending \<and> act_ownership (ay_local y) = None")
      case True
      with Cons Inr show ?thesis by simp
    next
      case False
      obtain ctx1 out1 where a: "accept env kd r1 (ay_local y) (may_ack env y q (act_key (ay_local y))) sign ctx = (ctx1, out1)"
        by fastforce
      have step: "only_adds (asked_for env (bk_context (dc_book ctx)) y carrier) (dc_book ctx) (dc_book ctx1)"
        using accept_only_adds [OF a Cons.prems(2)] asked by (auto elim!: only_adds_mono)
      show ?thesis
      proof (cases out1)
        case Inl': (Inl e)
        with Cons.prems Inr False q a step show ?thesis by simp
      next
        case Inr': (Inr ack)
        obtain ctx2 out2 where rest: "receive_records env kd carrier y sign rs ctx1 = (ctx2, out2)" by fastforce
        with Cons.prems Inr False q a Inr' have "ctx' = ctx2" by simp
        with only_adds_trans [OF step] Cons.IH [OF rest] step show ?thesis by (simp add: only_adds_def)
      qed
    qed
  qed
qed

abbreviation confirms_known ::
    "('vk, 'sg, 'sk, 'z) deletion_env_scheme \<Rightarrow> deletion_records \<Rightarrow> string \<Rightarrow> deletion_record \<Rightarrow> bool" where
  "confirms_known env records carrier x \<equiv>
     \<exists>old q a. old \<in> set (bt_values records) \<and> dr_request old = Some q \<and> dr_key old = dr_key x \<and>
       dr_request x = Some q \<and> dr_acknowledgement x = Some a \<and> ack_verify env a q = Ok () \<and> da_actor a = carrier"

lemma acknowledge_only_adds:
  assumes "acknowledge env kd key a ctx = (ctx', out)" and "bt_wf (bk_records (dc_book ctx))"
  shows "only_adds (confirms_known env (bk_records (dc_book ctx)) (da_actor a)) (dc_book ctx) (dc_book ctx')"
proof (cases "find (\<lambda>r. dr_key r = key \<and> has_digest env (da_request_digest a) r) (bt_values (bk_records (dc_book ctx)))")
  case None
  with assms show ?thesis by (simp add: acknowledge_def only_adds_refl)
next
  case (Some r)
  then have r: "r \<in> set (bt_values (bk_records (dc_book ctx)))" by (auto dest: find_SomeD)
  show ?thesis
  proof (cases "dr_status r = DeletionRejected \<or> \<not> is_ok (and_then (ok_or (dr_request r) ''missing request'') (ack_verify env a))")
    case True
    with assms Some show ?thesis by (auto simp: acknowledge_def only_adds_refl split: sum.splits if_splits)
  next
    case False
    then obtain q where q: "dr_request r = Some q" "ack_verify env a q = Ok ()"
      by (auto simp: is_ok_iff and_then_Ok_iff)
    with assms(1) Some False have
      "install env kd [r\<lparr>dr_status := DeletionConfirmed, dr_acknowledgement := Some a\<rparr>] True ctx = (ctx', out)"
      by (simp add: acknowledge_def)
    from install_only_adds [OF this assms(2)] show ?thesis
      by (rule only_adds_mono) (use r q in auto)
  qed
qed

lemma receive_ack_only_adds:
  assumes "receive_ack env kd key a carrier y ctx = (ctx', out)" and "bt_wf (bk_records (dc_book ctx))"
  shows "only_adds (confirms_known env (bk_records (dc_book ctx)) carrier) (dc_book ctx) (dc_book ctx')"
proof (cases "ctx' = ctx")
  case False
  obtain ctx1 out1 where a: "acknowledge env kd key a ctx = (ctx1, out1)" by fastforce
  with False assms(1) have "ctx' = ctx1" "da_actor a = carrier"
    by (auto simp: receive_ack_def split: option.splits sum.splits if_splits)
  with acknowledge_only_adds [OF a assms(2)] show ?thesis by simp
qed (use assms(2) in \<open>simp add: only_adds_refl\<close>)

lemma receive_state_only_adds:
  assumes "receive_state env kd rs nxt carrier y sign ctx = (ctx', out)" and "bt_wf (bk_records (dc_book ctx))"
  shows "only_adds (asked_for env (bk_context (dc_book ctx)) y carrier) (dc_book ctx) (dc_book ctx')"
proof -
  obtain ctx1 out1 where r: "receive_records env kd carrier y sign rs ctx = (ctx1, out1)" by fastforce
  with assms(1) have "ctx' = ctx \<or> ctx' = ctx1" by (auto simp: receive_state_def split: if_splits)
  with receive_records_only_adds [OF r assms(2)] assms(2) show ?thesis by (auto intro: only_adds_refl)
qed

lemma assemble_records:
  assumes "assemble cd carrier msg b = (b', out)"
  shows "bk_records b' = bk_records b" "bk_context b' = bk_context b" "bk_store b' = bk_store b"
  using assms by (auto simp: assemble_def Let_def split: deletion_message.splits prod.splits)

text \<open>
  C1. A message of a peer deletes nothing by itself. Whatever a member sends, fragments, pages of
  records or receipts, well formed or not, a record of the book is new or changed afterwards only if
  its request is signed for this conversation and entitled, by the author's own account, by an
  administrator or with one behind it, or accepted here before; or if it only confirms, with the
  carrier's verified receipt, a request the book already held. A carrier that is no member changes
  nothing.
\<close>

theorem deletion_authorized:
  assumes "receive_deletion env cd kd msg carrier y sign ctx = (ctx', out)"
    and "bt_wf (bk_records (dc_book ctx))"
    and "bt_get (bk_records (dc_book ctx')) k = Some r" and "bt_get (bk_records (dc_book ctx)) k \<noteq> Some r"
  shows "ay_member y carrier \<and>
    (asked_for env (bk_context (dc_book ctx)) y carrier r \<or> confirms_known env (bk_records (dc_book ctx)) carrier r)"
proof -
  have member: "ay_member y carrier"
    using assms by (auto simp: receive_deletion_def split: if_splits)
  obtain b got where a: "assemble cd carrier msg (dc_book ctx) = (b, got)" by fastforce
  note b = assemble_records [OF a]
  let ?ctx = "ctx\<lparr>dc_book := b\<rparr>"
  from b assms(2) have wf: "bt_wf (bk_records (dc_book ?ctx))" by simp
  have "only_adds (\<lambda>x. asked_for env (bk_context b) y carrier x \<or> confirms_known env (bk_records b) carrier x) b (dc_book ctx')"
  proof (cases "ctx' = ?ctx")
    case True
    then show ?thesis using wf by (simp add: only_adds_refl)
  next
    case False
    with assms(1) member a consider
        rs nxt where "receive_state env kd rs nxt carrier y sign ?ctx = (ctx', out)"
      | key ack where "receive_ack env kd key ack carrier y ?ctx = (ctx', out)"
      by (auto simp: receive_deletion_def Let_def split: sum.splits option.splits deletion_message.splits)
    then show ?thesis
      by cases (use receive_state_only_adds [OF _ wf] receive_ack_only_adds [OF _ wf] in \<open>fastforce elim: only_adds_mono\<close>)+
  qed
  with member b assms(3,4) show ?thesis by (auto simp: only_adds_def)
qed

section \<open>Receipts\<close>

lemma merged_confirmed: "dr_status r = DeletionConfirmed \<Longrightarrow> dr_status (merged old r) = DeletionConfirmed"
  by (simp add: merged_def)

lemma own_receipt_Some:
  assumes "own_receipt actor r = Some receipt"
  obtains a where "receipt = DAck (dr_key r) a" "da_actor a = act_key actor" "dr_acknowledgement r = Some a"
  using assms by (auto simp: own_receipt_def split: option.splits if_splits)

lemma accepted_record_confirmed:
  assumes "verify_record env r c = Ok q" and "accepted_record env r q actor acks sign = Ok r1"
    and "dr_acknowledgement r1 = Some a"
  shows "dr_status r1 = DeletionConfirmed"
  using assms verify_recordD(6) [OF assms(1)]
  by (auto simp: accepted_record_def and_then_Ok_iff split: if_splits)

text \<open>
  C13. A receipt is a promise kept: a device answers a deletion with its own receipt only once the
  deletion is in its durable table as a confirmed one, under the key of the record it was sent.
\<close>

theorem receipt_means_saved:
  assumes "accept env kd r actor acks sign ctx = (ctx', Ok (Some receipt))" and "book_synced (dc_book ctx)"
  shows "\<exists>a store' saved. receipt = DAck (dr_key r) a \<and> da_actor a = act_key actor \<and>
    bk_store (dc_book ctx') = Some store' \<and> bt_get (st_deletions store') (storage_key r) = Some saved \<and>
    dr_status saved = DeletionConfirmed"
  using assms(1)
proof (cases rule: accept_cases)
  case (installed q r1 out')
  have "and_then out' (\<lambda>_. Ok (own_receipt actor r1)) = Ok (Some receipt)" using installed(5) by simp
  with installed(4) have i: "install env kd [r1] True ctx = (ctx', Ok ())" and own: "own_receipt actor r1 = Some receipt"
    by (auto simp: and_then_Ok_iff)
  note f = accepted_record_fields [OF installed(3)]
  obtain a where a: "receipt = DAck (dr_key r1) a" "da_actor a = act_key actor" "dr_acknowledgement r1 = Some a"
    using own by (rule own_receipt_Some)
  have confirmed: "dr_status r1 = DeletionConfirmed"
    using accepted_record_confirmed [OF installed(1,3) a(3)] .
  have key: "storage_key r1 = storage_key r" by (simp add: storage_key_def f)
  have c: "dr_context r1 = bk_context (dc_book ctx)" using f verify_recordD(4) [OF installed(1)] by simp
  from install_synced [OF i assms(2)] c have synced: "book_synced (dc_book ctx')"
    and dur: "durable_records (dc_book ctx') = merge_all [r1] (durable_records (dc_book ctx))" by simp_all
  from dur obtain saved where "bt_get (durable_records (dc_book ctx')) (storage_key r) = Some saved"
    "dr_status saved = DeletionConfirmed"
    using merged_confirmed [OF confirmed] confirmed
    by (auto simp: merge_all_def merge_into_def key split: option.splits)
  moreover obtain store' where "bk_store (dc_book ctx') = Some store'" "bt_wf (st_deletions store')"
    using synced by (auto simp: book_synced_def split: option.splits)
  moreover have "bk_context (dc_book ctx') = bk_context (dc_book ctx)"
    using install_records(2) [OF i] assms(2)
    by (auto simp: book_synced_def durable_records_def range_prefix_def bt_wf_filter split: option.splits)
  ultimately show ?thesis
    using a f storage_key_in_range [OF c] by (auto simp: durable_records_def bt_get_range_prefix key)
qed simp

section \<open>The end of pending deletions\<close>

lemma merge_all_snoc: "merge_all (rs @ [r]) m = merge_into r (merge_all rs m)"
  by (simp add: merge_all_def)

lemma merged_not_pending: "dr_status r \<noteq> DeletionPending \<Longrightarrow> dr_status (merged old r) \<noteq> DeletionPending"
  by (auto simp: merged_def)

lemma merge_all_not_pending:
  "\<forall>r \<in> set rs. dr_status r \<noteq> DeletionPending \<Longrightarrow> k \<in> storage_key ` set rs \<Longrightarrow>
   bt_get (merge_all rs m) k = Some x \<Longrightarrow> dr_status x \<noteq> DeletionPending"
proof (induction rs arbitrary: x rule: rev_induct)
  case (snoc r rs)
  then show ?case
    using merged_not_pending [of r]
    by (auto simp: merge_all_snoc merge_into_def split: if_splits option.splits)
qed simp

lemma map_results_mem:
  "map_results f xs = Ok ys \<Longrightarrow> x \<in> set xs \<Longrightarrow> \<exists>y \<in> set ys. f x = Ok y"
  by (induction xs arbitrary: ys) (auto simp: and_then_Ok_iff)

lemma map_results_from:
  "map_results f xs = Ok ys \<Longrightarrow> y \<in> set ys \<Longrightarrow> \<exists>x \<in> set xs. f x = Ok y"
  by (induction xs arbitrary: ys) (auto simp: and_then_Ok_iff)

lemma map_results_length: "map_results f xs = Ok ys \<Longrightarrow> length ys = length xs"
  by (induction xs arbitrary: ys) (auto simp: and_then_Ok_iff)

lemma rejection_Ok:
  assumes "rejection env kd ctx owner r = Ok c"
  shows "r\<lparr>dr_status := DeletionRejected\<rparr> \<in> set c" and "\<forall>x \<in> set c. dr_status x \<noteq> DeletionPending"
  using assms by (auto simp: rejection_def personal_rejection_def and_then_Ok_iff)

lemma book_keys_wf_fold_insert:
  "book_keys_wf m \<Longrightarrow> book_keys_wf (fold (\<lambda>r. bt_insert (storage_key r) r) rs m)"
proof (induction rs arbitrary: m)
  case (Cons r rs)
  have "book_keys_wf (bt_insert (storage_key r) r m)"
    using Cons.prems by (auto simp: book_keys_wf_def wf_intros bt_get_eq_Some_iff [symmetric] split: if_splits)
  with Cons.IH show ?case by simp
qed simp

lemma reload_keys: "book_keys_wf (bk_records b) \<Longrightarrow> reload env b = (b', out) \<Longrightarrow> book_keys_wf (bk_records b')"
  by (auto simp: reload_def book_keys_wf_fold_insert split: option.splits)

lemma reload_context: "reload env b = (b', out) \<Longrightarrow> bk_context b' = bk_context b \<and> bk_store b' = bk_store b"
  by (auto simp: reload_def split: option.splits)

lemma reject_local_pending_leaves:
  assumes "reject_local_pending env kd local_key allowed ctx = (ctx', Ok ())"
    and "book_keys_wf (bk_records (dc_book ctx))" and "r \<in> set (bt_values (bk_records (dc_book ctx')))"
  shows "\<not> is_refused local_key allowed r"
proof -
  obtain b out where re: "reload env (dc_book ctx) = (b, out)" by fastforce
  note wf = reload_keys [OF assms(2) re]
  let ?ctx = "ctx\<lparr>dc_book := b\<rparr>"
  show ?thesis
  proof (cases "bk_records b = []")
    case True
    with assms(1,3) re show ?thesis by (auto simp: reject_local_pending_def Let_def bt_values_def split: sum.splits)
  next
    case False
    with assms(1) re obtain owner changes where
      ch: "map_results (rejection env kd ?ctx owner) (filter (is_refused local_key allowed) (bt_values (bk_records b))) = Ok changes"
      and i: "install env kd (concat changes) False ?ctx = (ctx', Ok ())"
      by (auto simp: reject_local_pending_def Let_def and_then_Ok_iff split: sum.splits)
    have recs: "bk_records (dc_book ctx') = merge_all (concat changes) (bk_records b)" and wf': "bt_wf (bk_records (dc_book ctx'))"
      using install_records [OF i] wf by (simp_all add: book_keys_wf_def)
    from assms(3) wf' obtain k where k: "bt_get (bk_records (dc_book ctx')) k = Some r"
      by (auto simp: bt_values_def bt_get_eq_Some_iff)
    have np: "\<forall>x \<in> set (concat changes). dr_status x \<noteq> DeletionPending"
      using map_results_from [OF ch] rejection_Ok(2) by fastforce
    show ?thesis
    proof (cases "k \<in> storage_key ` set (concat changes)")
      case True
      with merge_all_not_pending [OF np] k recs have "dr_status r \<noteq> DeletionPending" by metis
      then show ?thesis by (simp add: is_refused_def)
    next
      case outside: False
      with k recs have old: "bt_get (bk_records b) k = Some r" by (simp add: merge_all_other)
      then have "k = storage_key r" and mem: "r \<in> set (bt_values (bk_records b))"
        using wf by (auto simp: book_keys_wf_def bt_values_def dest!: bt_get_mem intro: rev_image_eqI)
      show ?thesis
      proof
        assume "is_refused local_key allowed r"
        with mem obtain c where c: "c \<in> set changes" "rejection env kd ?ctx owner r = Ok c"
          using map_results_mem [OF ch, of r] by auto
        moreover have "storage_key (r\<lparr>dr_status := DeletionRejected\<rparr>) = k"
          using \<open>k = storage_key r\<close> by (simp add: storage_key_def)
        ultimately show False using outside rejection_Ok(1) [OF c(2)] by force
      qed
    qed
  qed
qed

text \<open>
  No deletion stays pending that this device may no longer ask for. After a successful
  reconciliation, every pending request of this device left in the book is one its current authority
  still allows: the device is not leaving, it is a member with its proof, and it is an administrator
  if the request is a moderation. All others have been rejected.
\<close>

theorem reconcile_rejects:
  assumes "reconcile env kd y leaving ctx = (ctx', Ok ())" and "book_keys_wf (bk_records (dc_book ctx))"
    and "r \<in> set (bt_values (bk_records (dc_book ctx')))" and "dr_status r = DeletionPending"
    and "dr_request r = Some q" and "dq_actor q = act_key (ay_local y)"
  shows "\<not> leaving \<and> member_with_proof env y (dq_actor q) (dq_ownership q) \<and>
    (dq_moderated q \<longrightarrow> dq_actor q \<in> ay_admins y)"
  using reject_local_pending_leaves [OF assms(1) [unfolded reconcile_def] assms(2,3)] assms(4-6)
  by (simp add: is_refused_def)

section \<open>Deleting for oneself\<close>

text \<open>
  In a regular record the separators of the storage key do not occur in its parts: the key is a hex
  digest, context and owner are identifiers.
\<close>

definition regular :: "deletion_record \<Rightarrow> bool" where
  "regular r \<longleftrightarrow> plain (dr_context r) \<and> plain (dr_owner r) \<and> CHR '':'' \<notin> set (dr_key r)"

definition regular_records :: "deletion_records \<Rightarrow> bool" where
  "regular_records m \<longleftrightarrow> bt_wf m \<and> (\<forall>k r. bt_get m k = Some r \<longrightarrow> k = storage_key r \<and> regular r)"

lemma storage_key_inject:
  assumes "regular r" and "regular r'" and "storage_key r = storage_key r'"
  shows "dr_owner r = dr_owner r'" and "dr_key r = dr_key r'"
proof -
  define kind where "kind x = (if dr_scope x = ForMe then ''personal'' else ''shared'')" for x :: deletion_record
  have plain: "plain (kind x)" for x by (simp add: kind_def)
  define op where "op x = (case dr_request x of None \<Rightarrow> [] | Some q \<Rightarrow> dq_operation q)" for x :: deletion_record
  have key: "storage_key x = dr_context x @ CHR 0x01 # dr_owner x @ CHR 0x01 # kind x @ CHR 0x01 # dr_key x @ CHR '':'' # op x" for x
    by (simp add: storage_key_def kind_def op_def)
  from assms show "dr_owner r = dr_owner r'" "dr_key r = dr_key r'"
    by (simp_all add: key regular_def split_at_separator plain)
qed

lemma regular_merge_into:
  assumes "regular_records m" and "regular r"
  shows "regular_records (merge_into r m)"
    and "\<exists>x. bt_get (merge_into r m) (storage_key r) = Some x \<and> storage_key x = storage_key r \<and> regular x"
proof -
  have new: "storage_key (merged old r) = storage_key r \<and> regular (merged old r)"
    if "bt_get m (storage_key r) = Some old" for old
    using merged_cases [of old r] assms that by (auto simp: regular_records_def)
  then show "regular_records (merge_into r m)"
    and "\<exists>x. bt_get (merge_into r m) (storage_key r) = Some x \<and> storage_key x = storage_key r \<and> regular x"
    using assms by (auto simp: regular_records_def merge_into_def wf_intros split: option.splits)
qed

lemma regular_merge_all:
  "regular_records m \<Longrightarrow> \<forall>r \<in> set rs. regular r \<Longrightarrow> regular_records (merge_all rs m)"
  by (induction rs rule: rev_induct) (simp_all add: merge_all_snoc regular_merge_into, simp add: merge_all_def)

lemma merge_all_present:
  "regular_records m \<Longrightarrow> \<forall>r \<in> set rs. regular r \<Longrightarrow> r \<in> set rs \<Longrightarrow>
   \<exists>x. bt_get (merge_all rs m) (storage_key r) = Some x \<and> dr_owner x = dr_owner r \<and> dr_key x = dr_key r"
proof (induction rs rule: rev_induct)
  case (snoc r' rs)
  have reg: "regular_records (merge_all rs m)" using snoc.prems by (simp add: regular_merge_all)
  show ?case
  proof (cases "storage_key r = storage_key r'")
    case True
    with regular_merge_into(2) [OF reg, of r'] snoc.prems obtain x where
      "bt_get (merge_into r' (merge_all rs m)) (storage_key r) = Some x" "storage_key x = storage_key r" "regular x"
      by auto
    with storage_key_inject [of x r] snoc.prems show ?thesis by (auto simp: merge_all_snoc)
  next
    case False
    with snoc show ?thesis by (auto simp: merge_all_snoc merge_into_def)
  qed
qed simp

lemma length_filter_disjoint:
  "(\<And>x. x \<in> set xs \<Longrightarrow> \<not> (P x \<and> Q x)) \<Longrightarrow>
   length (filter (\<lambda>x. P x \<or> Q x) xs) = length (filter P xs) + length (filter Q xs)"
  by (induction xs) auto

lemma length_selected:
  "finite I \<Longrightarrow> \<forall>i \<in> I. length (filter (\<lambda>m. message_id m = Some i) ms) = 1 \<Longrightarrow> length (selected_messages I ms) = card I"
proof (induction I rule: finite_induct)
  case empty
  then show ?case by (simp add: selected_messages_def split: option.split)
next
  case (insert i I)
  have "selected_messages (insert i I) ms =
      filter (\<lambda>m. message_id m = Some i \<or> (case message_id m of None \<Rightarrow> False | Some j \<Rightarrow> j \<in> I)) ms"
    unfolding selected_messages_def by (rule filter_cong) (auto split: option.split)
  then have "length (selected_messages (insert i I) ms) =
      length (filter (\<lambda>m. message_id m = Some i) ms) + length (selected_messages I ms)"
    using insert.hyps by (simp add: length_filter_disjoint selected_messages_def)
  with insert show ?case by simp
qed

lemma delete_for_me_OkE:
  assumes "delete_for_me env kd ids opened ctx = (ctx', Ok res)"
  obtains b out owner records where "reload env (dc_book ctx) = (b, out)"
    and "validate_selection (log_messages (dc_log ctx)) ids = Ok (set ids)" and "book_user env b = Ok owner"
    and "map_results (personal_record env kd (bk_context b) owner (dc_transfer ctx))
      (selected_messages (set ids) (log_messages (dc_log ctx))) = Ok records"
    and "install env kd records False (ctx\<lparr>dc_book := b\<rparr>) = (ctx', Ok ())" and "rs_deleted_count res = length records"
proof -
  obtain b out where re: "reload env (dc_book ctx) = (b, out)" by fastforce
  let ?steps = "and_then (map_err DeletionPersistence out) (\<lambda>_.
      and_then (validate_selection (log_messages (dc_log ctx)) ids) (\<lambda>chosen.
      and_then (book_user env b) (\<lambda>owner.
        map_results (personal_record env kd (bk_context b) owner (dc_transfer ctx))
          (selected_messages chosen (log_messages (dc_log ctx))))))"
  have "delete_for_me env kd ids opened ctx =
      (case ?steps of
         Inl e \<Rightarrow> (ctx\<lparr>dc_book := b\<rparr>, Err e)
       | Inr records \<Rightarrow>
           map_result (\<lambda>r. and_then (map_err DeletionPersistence r) (\<lambda>_.
               Ok \<lparr>rs_deleted_count = length records,
                   rs_local_only_count = length (filter dr_local_only records), rs_pending_count = 0\<rparr>))
             (install env kd records False (ctx\<lparr>dc_book := b\<rparr>)))"
    using assms re by (auto simp: delete_for_me_def Let_def split: option.splits sum.splits)
  note eq = this [unfolded assms]
  then obtain records where rec: "?steps = Ok records" by (cases ?steps) auto
  obtain ctx1 r where i: "install env kd records False (ctx\<lparr>dc_book := b\<rparr>) = (ctx1, r)" by fastforce
  have "and_then (map_err DeletionPersistence r) (\<lambda>_.
      Ok \<lparr>rs_deleted_count = length records,
          rs_local_only_count = length (filter dr_local_only records), rs_pending_count = 0\<rparr>) = Ok res \<and> ctx1 = ctx'"
    using eq by (simp add: rec i)
  then have "ctx1 = ctx'" "r = Ok ()" "rs_deleted_count res = length records" by (auto simp: and_then_Ok_iff)
  moreover from rec obtain chosen owner where v: "validate_selection (log_messages (dc_log ctx)) ids = Ok chosen"
    and u: "book_user env b = Ok owner"
    and m: "map_results (personal_record env kd (bk_context b) owner (dc_transfer ctx))
      (selected_messages chosen (log_messages (dc_log ctx))) = Ok records"
    unfolding and_then_Ok_iff by blast
  moreover from v have "chosen = set ids" by (simp add: validate_selection_def split: if_splits)
  ultimately show ?thesis using that [OF re _ u] i by simp
qed

lemma personal_record_Ok:
  assumes "personal_record env kd c owner tr m = Ok r"
  shows "dr_context r = c" "dr_owner r = owner" "dr_scope r = ForMe"
    and "\<exists>lo correlation. deletion_target env kd c m tr = Ok (dr_key r, lo) \<and> message_key env kd c m tr = Ok correlation"
  using assms by (auto simp: personal_record_def and_then_Ok_iff)

text \<open>
  Deleting for oneself does what it says: on success the result counts the distinct messages
  selected, and every selected message is a tombstone in the log, without text or attachment. The
  keys of records are taken to be free of the separators of the table.
\<close>

theorem delete_for_me_erases:
  assumes "delete_for_me env kd ids opened ctx = (ctx', Ok res)" and "kind_ok kd"
    and "tombstones_erased (dc_log ctx)" and "regular_records (bk_records (fst (reload env (dc_book ctx))))"
    and "plain (bk_context (dc_book ctx))" and "book_user env (fst (reload env (dc_book ctx))) = Ok owner" and "plain owner"
    and "\<forall>m \<in> set (log_messages (dc_log ctx)). \<forall>key lo.
      deletion_target env kd (bk_context (dc_book ctx)) m (dc_transfer ctx) = Ok (key, lo) \<longrightarrow> CHR '':'' \<notin> set key"
    and "i < length (log_messages (dc_log ctx))" and "message_id (log_messages (dc_log ctx) ! i) = Some d" and "d \<in> set ids"
  shows "erased (log_messages (dc_log ctx') ! i) \<and> rs_deleted_count res = card (set ids)"
proof -
  obtain b out owner' records where re: "reload env (dc_book ctx) = (b, out)"
    and v: "validate_selection (log_messages (dc_log ctx)) ids = Ok (set ids)" and u: "book_user env b = Ok owner'"
    and m: "map_results (personal_record env kd (bk_context b) owner' (dc_transfer ctx))
      (selected_messages (set ids) (log_messages (dc_log ctx))) = Ok records"
    and inst: "install env kd records False (ctx\<lparr>dc_book := b\<rparr>) = (ctx', Ok ())" and n: "rs_deleted_count res = length records"
    by (rule delete_for_me_OkE [OF assms(1)])
  have owner: "owner' = owner" and reg: "regular_records (bk_records b)" and c: "bk_context b = bk_context (dc_book ctx)"
    using u assms(4,6) re reload_context [OF re] by simp_all
  let ?m = "log_messages (dc_log ctx) ! i"
  have "?m \<in> set (selected_messages (set ids) (log_messages (dc_log ctx)))"
    using assms(9-11) by (simp add: selected_messages_def)
  then obtain r where r: "r \<in> set records" "personal_record env kd (bk_context b) owner' (dc_transfer ctx) ?m = Ok r"
    using map_results_mem [OF m] by blast
  obtain lo correlation where t: "deletion_target env kd (bk_context b) ?m (dc_transfer ctx) = Ok (dr_key r, lo)"
    and k: "message_key env kd (bk_context b) ?m (dc_transfer ctx) = Ok correlation"
    using personal_record_Ok(4) [OF r(2)] by blast
  have "regular x" if "x \<in> set records" for x
  proof -
    from map_results_from [OF m that] obtain a where "a \<in> set (log_messages (dc_log ctx))"
      "personal_record env kd (bk_context b) owner' (dc_transfer ctx) a = Ok x"
      by (auto simp: selected_messages_def)
    with personal_record_Ok [of env kd "bk_context b" owner' "dc_transfer ctx" a x] assms(5,7,8) owner c
    show ?thesis by (auto simp: regular_def)
  qed
  then obtain x where x: "bt_get (merge_all records (bk_records b)) (storage_key r) = Some x"
    "dr_owner x = owner" "dr_key x = dr_key r"
    using merge_all_present [OF reg _ r(1)] personal_record_Ok(2) [OF r(2)] owner by auto
  have wf: "bt_wf (bk_records (dc_book (ctx\<lparr>dc_book := b\<rparr>)))" using reg by (simp add: regular_records_def)
  obtain owner'' markers where o: "book_user env (dc_book (ctx\<lparr>dc_book := b\<rparr>)) = Ok owner''"
    and recs: "bk_records (dc_book ctx') = merge_all records (bk_records (dc_book (ctx\<lparr>dc_book := b\<rparr>)))"
    and log: "log_messages (dc_log ctx') =
      map (after_erasure env kd (bk_context (dc_book (ctx\<lparr>dc_book := b\<rparr>))) (dc_transfer (ctx\<lparr>dc_book := b\<rparr>))
        (relevant owner'' (bk_records (dc_book ctx'))) markers) (log_messages (dc_log (ctx\<lparr>dc_book := b\<rparr>)))"
    by (rule install_OkE [OF inst wf])
  have "x \<in> set (relevant owner'' (bk_records (dc_book ctx')))"
    using x o u owner bt_get_mem [OF x(1)] by (auto simp: relevant_def recs bt_values_def intro: rev_image_eqI)
  then have "list_ex (\<lambda>y. matches y (dr_key r) correlation) (relevant owner'' (bk_records (dc_book ctx')))"
    using x(3) by (auto simp: list_ex_iff matches_def)
  moreover have "is_tombstone ?m \<longrightarrow> erased ?m"
    using assms(3,9) by (simp add: tombstones_erased_def list_all_length)
  ultimately have "erased (log_messages (dc_log ctx') ! i)"
    using after_erasure_cases(1) [OF assms(2) t k] assms(9) by (simp add: log)
  moreover have "\<forall>j \<in> set ids. length (filter (\<lambda>m. message_id m = Some j) (log_messages (dc_log ctx))) = 1"
    using v by (simp add: validate_selection_def list_ex_iff split: if_splits)
  then have "length records = card (set ids)"
    using map_results_length [OF m] length_selected [of "set ids"] by simp
  ultimately show ?thesis using n by simp
qed

section \<open>A concrete exchange\<close>

text \<open>
  User 1 asks to delete the message of \<open>Deletion_Store\<close>; the device of user 2, a member of the same
  conversation, receives the record.
\<close>

lemma demo_signature: "hex_signature_ok (sigs demo_account_roster) (demo_hex_key x) (demo_sig x) input"
  by (simp add: hex_signature_ok_def decode_exact_def signature_check_def demo_account_roster_def demo_hex_key_def demo_hex
      del: map_replicate)

lemma demo_root_ok: "ac_verify (demo_erasure_env f) \<lparr>ac_root = demo_hex_key x, ac_delegations = []\<rparr> = Ok ()"
  by (simp add: ac_verify_def demo_account_key)

lemma demo_proof_verified: "verified_proof (demo_erasure_env f) [char_of (unat x)] (demo_hex_key x) = Ok (demo_proof x)"
proof -
  have "proof_verify (demo_erasure_env f) (demo_proof x) (demo_hex_key x) = Ok ()"
    using demo_signature [of x] demo_root_ok
    by (simp add: proof_verify_def demo_proof_def proof_input_def ac_subject_def)
  then show ?thesis by (simp add: verified_proof_def demo_account_env_def byte_mod)
qed

lemma demo_signature_verifies:
  "verify_signature (demo_erasure_env f) (demo_hex_key x) (demo_sig x) input = Ok ()"
  using demo_signature [of x input] by (simp add: verify_signature_def del: map_replicate)

lemma demo_origin_verifies: "origin_verify_signature (demo_erasure_env f) (demo_origin x) = Ok ()"
  using demo_signature_verifies
  by (simp add: origin_verify_signature_def demo_origin_def origin_input_def transcript_def del: map_replicate)

lemma demo_request_verifies: "request_verify (demo_erasure_env f) (demo_request x) ''dm:c'' = Ok ()"
proof -
  have "or_conversation (demo_origin x) = ''dm:c''" "char_count ''Ann'' \<le> 64"
    by (simp_all add: demo_origin_def char_count_def is_continuation_def)
  then show ?thesis
    using demo_signature_verifies demo_origin_verifies
    by (simp add: request_verify_def demo_request_def ownership_verify_def demo_proof_verified request_input_def transcript_def
        del: map_replicate)
qed

lemma demo_canonical:
  "canonical (demo_erasure_env f) (demo_request x) status ack = Ok (demo_record x status ack)"
  using demo_origin_key [of f x status ack]
  by (simp add: canonical_def demo_request_def demo_record_def demo_origin_def)

lemma demo_record_verifies:
  "verify_record (demo_erasure_env f) (demo_record x DeletionPending None) ''dm:c'' = Ok (demo_request x)"
proof -
  have "dr_request (demo_record x DeletionPending None) = Some (demo_request x)"
    "dr_status (demo_record x DeletionPending None) = DeletionPending"
    "dr_acknowledgement (demo_record x DeletionPending None) = None"
    by (simp_all add: demo_record_def)
  then show ?thesis by (simp add: verify_record_def demo_request_verifies demo_canonical)
qed

definition demo_sign :: "bytes \<Rightarrow> (string, string) result" where
  "demo_sign input = Ok (demo_sig 2)"

lemma demo_sign_ack: "sign_ack (demo_erasure_env f) (demo_request x) (ay_local (demo_authority 2)) demo_sign = Ok (demo_ack 2)"
  by (simp add: sign_ack_def request_digest_def request_input_def transcript_def ack_input_def demo_sign_def demo_authority_def
      demo_ack_def hex_digest_def Let_def del: map_replicate)
    (simp add: demo_account_roster_def)

lemma demo_accepts:
  "\<exists>ctx'. accept (demo_erasure_env None) chat_kind (demo_record 1 DeletionPending None) (ay_local (demo_authority 2)) True
      demo_sign (demo_context 1) = (ctx', Ok (Some (DAck (dr_key (demo_record 1 DeletionPending None)) (demo_ack 2)))) \<and>
     install (demo_erasure_env None) chat_kind [demo_record 1 DeletionConfirmed (Some (demo_ack 2))] True (demo_context 1) =
       (ctx', Ok ())"
proof -
  let ?r = "demo_record 1 DeletionPending None"
  let ?r1 = "demo_record 1 DeletionConfirmed (Some (demo_ack 2))"
  have "accepted_record (demo_erasure_env None) ?r (demo_request 1) (ay_local (demo_authority 2)) True demo_sign = Ok ?r1"
    using demo_hex_key_inject [of 2 1]
    by (simp add: accepted_record_def demo_sign_ack) (simp add: demo_record_def demo_authority_def demo_request_def)
  moreover have "own_receipt (ay_local (demo_authority 2)) ?r1 = Some (DAck (dr_key ?r) (demo_ack 2))"
    by (simp add: own_receipt_def demo_record_def demo_ack_def demo_authority_def)
  moreover obtain ctx' where "install (demo_erasure_env None) chat_kind [?r1] True (demo_context 1) = (ctx', Ok ())"
    using demo_install_any by blast
  ultimately show ?thesis
    by (intro exI [of _ ctx']) (simp add: accept_def demo_record_verifies)
qed

theorem receipt_means_saved_witness:
  "\<exists>ctx' store' saved. accept (demo_erasure_env None) chat_kind (demo_record 1 DeletionPending None)
      (ay_local (demo_authority 2)) True demo_sign (demo_context 1) =
        (ctx', Ok (Some (DAck (dr_key (demo_record 1 DeletionPending None)) (demo_ack 2)))) \<and>
     bk_store (dc_book ctx') = Some store' \<and>
     bt_get (st_deletions store') (storage_key (demo_record 1 DeletionPending None)) = Some saved \<and>
     dr_status saved = DeletionConfirmed"
proof -
  obtain ctx' where a: "accept (demo_erasure_env None) chat_kind (demo_record 1 DeletionPending None)
      (ay_local (demo_authority 2)) True demo_sign (demo_context 1) =
        (ctx', Ok (Some (DAck (dr_key (demo_record 1 DeletionPending None)) (demo_ack 2))))"
    using demo_accepts by blast
  have "book_synced (dc_book (demo_context 1))"
    by (simp add: book_synced_def durable_records_def demo_store_def range_prefix_def)
  from receipt_means_saved [OF a this] a show ?thesis by blast
qed

definition demo_codec :: deletion_codec where
  "demo_codec = \<lparr>page_digest = (\<lambda>_. []), b64_encode = (\<lambda>_. []), b64_decode = (\<lambda>_. Ok []), message_json = (\<lambda>_. None),
     message_from_json = (\<lambda>_. None)\<rparr>"

lemma demo_valid:
  "validate_record (demo_erasure_env None) (demo_authority 2) (demo_record 1 DeletionPending None) (demo_hex_key 1) = Ok ()"
  by (simp add: validate_record_def demo_record_def demo_authority_def demo_request_def demo_origin_def
      ay_member_def member_with_proof_def may_delete_def ay_same_account_def Let_def)
    (simp add: no_accounts_def)

lemma demo_may_ack: "may_ack (demo_erasure_env None) (demo_authority 2) (demo_request 1) (demo_hex_key 2)"
proof -
  have "\<not> proofs_same_account (demo_erasure_env None) (demo_hex_key 2) (Some [char_of (unat (2 :: byte))]) (demo_hex_key 1)
      (Some [char_of (unat (1 :: byte))])"
    unfolding proofs_same_account_def option.case prod.case demo_proof_verified
    using demo_hex_key_inject [of 2 1] by (simp add: demo_proof_def)
  moreover have "own_account (demo_erasure_env None) no_accounts key p = None" for key p
    by (simp add: own_account_def no_accounts_def split: Option.bind_split)
  ultimately show ?thesis
    using demo_hex_key_inject [of 2 1]
    by (simp add: may_ack_def may_ack_with_proof_def member_with_proof_def other_account_def demo_authority_def demo_request_def
        ay_same_account_def own_same_account_def ay_member_def) (simp add: no_accounts_def)
qed

theorem deletion_authorized_witness:
  "\<exists>ctx' out k r. receive_deletion (demo_erasure_env None) demo_codec chat_kind
      (DState [demo_record 1 DeletionPending None] None) (demo_hex_key 1) (demo_authority 2) demo_sign (demo_context 1) =
      (ctx', out) \<and> bt_get (bk_records (dc_book ctx')) k = Some r \<and>
     (asked_for (demo_erasure_env None) ''dm:c'' (demo_authority 2) (demo_hex_key 1) r \<or>
      confirms_known (demo_erasure_env None) [] (demo_hex_key 1) r)"
proof -
  let ?env = "demo_erasure_env None"
  let ?y = "demo_authority 2"
  let ?r = "demo_record 1 DeletionPending None"
  let ?r1 = "demo_record 1 DeletionConfirmed (Some (demo_ack 2))"
  obtain ctx' where a: "accept ?env chat_kind ?r (ay_local ?y) True demo_sign (demo_context 1) =
      (ctx', Ok (Some (DAck (dr_key ?r) (demo_ack 2))))"
    and i: "install ?env chat_kind [?r1] True (demo_context 1) = (ctx', Ok ())"
    using demo_accepts by blast
  have adm: "currently_admissible ?env ''dm:c'' ?r (demo_hex_key 1) ?y = Ok ?r"
    by (simp add: currently_admissible_def demo_record_verifies demo_valid)
  have member: "ay_member ?y (demo_hex_key 1)"
    by (simp add: ay_member_def demo_authority_def no_accounts_def)
  have may: "may_ack ?env ?y (demo_request 1) (act_key (ay_local ?y))"
    using demo_may_ack by (simp add: demo_authority_def)
  have r: "dr_request ?r = Some (demo_request 1)" and own: "act_ownership (ay_local ?y) \<noteq> None"
    by (simp_all add: demo_record_def demo_authority_def)
  have "receive_records ?env chat_kind (demo_hex_key 1) ?y demo_sign [?r] (demo_context 1) =
      (ctx', Ok [DAck (dr_key ?r) (demo_ack 2)])"
    using own by (simp add: adm r may a)
  then have rec: "receive_deletion ?env demo_codec chat_kind (DState [?r] None) (demo_hex_key 1) ?y demo_sign (demo_context 1) =
      (ctx', Ok [DAck (dr_key ?r) (demo_ack 2)])"
    using member by (simp add: receive_deletion_def assemble_def receive_state_def del: receive_records.simps)
  have wf: "bt_wf (bk_records (dc_book (demo_context 1)))" by simp
  have got: "bt_get (bk_records (dc_book ctx')) (storage_key ?r1) = Some ?r1"
    using install_records(1) [OF i wf] by (simp add: merge_all_def merge_into_def bt_get_def)
  have fresh: "bt_get (bk_records (dc_book (demo_context 1))) (storage_key ?r1) \<noteq> Some ?r1" by simp
  from deletion_authorized [OF rec wf got fresh] rec got show ?thesis by (simp only: demo_context_fields) blast
qed

definition demo_pending :: "(chat_message, unit) deletion_context" where
  "demo_pending =
     \<lparr>dc_book = (new_deletion_book ''dm:c'' ''private_dm'' None)
        \<lparr>bk_records := [(storage_key (demo_record 1 DeletionPending None), demo_record 1 DeletionPending None)]\<rparr>,
      dc_log = new_log, dc_attempts = fmempty, dc_transfer = ()\<rparr>"

lemma demo_member: "member_with_proof (demo_erasure_env None) (demo_authority 1) (demo_hex_key 1) p"
  by (simp add: member_with_proof_def demo_authority_def ay_member_def) (simp add: no_accounts_def)

theorem reconcile_rejects_witness:
  "\<exists>ctx'. reconcile (demo_erasure_env None) chat_kind (demo_authority 1) False demo_pending = (ctx', Ok ()) \<and>
     bt_values (bk_records (dc_book ctx')) = [demo_record 1 DeletionPending None] \<and>
     member_with_proof (demo_erasure_env None) (demo_authority 1) (demo_hex_key 1) (dq_ownership (demo_request 1))"
proof -
  let ?env = "demo_erasure_env None"
  let ?r = "demo_record 1 DeletionPending None"
  have "\<not> is_refused (demo_hex_key 1) (\<lambda>q. \<not> False \<and> member_with_proof ?env (demo_authority 1) (dq_actor q) (dq_ownership q) \<and>
      (\<not> dq_moderated q \<or> dq_actor q \<in> ay_admins (demo_authority 1))) ?r"
    using demo_member by (simp add: is_refused_def demo_record_def demo_request_def)
  then have re: "reconcile ?env chat_kind (demo_authority 1) False demo_pending = (demo_pending, Ok ())"
    by (simp add: reconcile_def reject_local_pending_def reload_def demo_pending_def new_deletion_book_def bt_values_def book_user_def
        install_def new_plan_def Let_def merge_all_def plan_unchanged_def new_log_def) (simp add: demo_authority_def)
  have wf: "book_keys_wf (bk_records (dc_book demo_pending))"
    by (simp add: demo_pending_def book_keys_wf_def bt_wf_def)
  have mem: "?r \<in> set (bt_values (bk_records (dc_book demo_pending)))"
    by (simp add: demo_pending_def bt_values_def)
  have st: "dr_status ?r = DeletionPending" and q: "dr_request ?r = Some (demo_request 1)"
    and a: "dq_actor (demo_request 1) = act_key (ay_local (demo_authority 1))"
    and key: "dq_actor (demo_request 1) = demo_hex_key 1"
    by (simp_all add: demo_record_def demo_request_def demo_authority_def)
  from reconcile_rejects [OF re wf mem st q a] re show ?thesis
    by (simp add: key) (simp add: demo_pending_def bt_values_def)
qed

definition demo_unsaved :: "(chat_message, unit) deletion_context" where
  "demo_unsaved =
     \<lparr>dc_book = new_deletion_book ''dm:c'' ''private_dm'' None, dc_log = new_log\<lparr>log_messages := [demo_deleted 1]\<rparr>,
      dc_attempts = fmempty, dc_transfer = ()\<rparr>"

lemma demo_unsaved_fields [simp]:
  "bk_context (dc_book demo_unsaved) = ''dm:c''" "bk_store (dc_book demo_unsaved) = None"
  "bk_records (dc_book demo_unsaved) = []" "log_messages (dc_log demo_unsaved) = [demo_deleted 1]"
  "dc_transfer demo_unsaved = ()" "reload (demo_erasure_env None) (dc_book demo_unsaved) = (dc_book demo_unsaved, Ok ())"
  "book_user (demo_erasure_env None) (dc_book demo_unsaved) = Ok ''local''"
  by (simp_all add: demo_unsaved_def new_deletion_book_def reload_def book_user_def)

theorem delete_for_me_erases_witness:
  "\<exists>ctx' res. delete_for_me (demo_erasure_env None) chat_kind [''m1''] None demo_unsaved = (ctx', Ok res) \<and>
     erased (log_messages (dc_log ctx') ! 0) \<and> rs_deleted_count res = 1"
proof -
  let ?env = "demo_erasure_env None"
  let ?k = "dr_key (demo_record 1 DeletionPending None)"
  obtain c where c: "message_key ?env chat_kind ''dm:c'' (demo_deleted 1) () = Ok (Some c)"
    using demo_target(2) by blast
  have m: "message_id (demo_deleted 1) = Some ''m1''" "deletion_of (demo_deleted 1) = None"
    by (simp_all add: demo_deleted_def deletion_of_def default_metadata_def)
  have v: "validate_selection [demo_deleted 1] [''m1''] = Ok {''m1''}" "selected_messages {''m1''} [demo_deleted 1] = [demo_deleted 1]"
    by (simp_all add: validate_selection_def selected_messages_def m)
  obtain r where r: "personal_record ?env chat_kind ''dm:c'' ''local'' () (demo_deleted 1) = Ok r"
    by (simp add: personal_record_def demo_target(1) c)
  note rf = personal_record_Ok [OF r]
  have key: "dr_key r = ?k" using rf(4) demo_target(1) [of None 1] by simp
  have "\<exists>plan. new_plan ?env chat_kind [r] demo_unsaved = Ok plan"
    by (simp add: new_plan_def Let_def prepare_message_def demo_target(1) c split: option.split)
  then obtain plan where plan: "new_plan ?env chat_kind [r] demo_unsaved = Ok plan" by blast
  have "\<exists>ctx'. install ?env chat_kind [r] False demo_unsaved = (ctx', Ok ())"
    by (simp add: install_def plan finish_install_def Let_def)
  then obtain ctx' where i: "install ?env chat_kind [r] False demo_unsaved = (ctx', Ok ())" by blast
  then obtain res where d: "delete_for_me ?env chat_kind [''m1''] None demo_unsaved = (ctx', Ok res)"
    by (simp add: delete_for_me_def Let_def v r i)
  have t: "tombstones_erased (dc_log demo_unsaved)" by (simp add: tombstones_erased_def m)
  have reg: "regular_records (bk_records (fst (reload ?env (dc_book demo_unsaved))))" by (simp add: regular_records_def)
  have p: "plain (bk_context (dc_book demo_unsaved))" "plain ''local''" by simp_all
  have u: "book_user ?env (fst (reload ?env (dc_book demo_unsaved))) = Ok ''local''" by simp
  have "CHR '':'' \<notin> set ?k" by (simp add: demo_record_def utf8_bytes_def char_of_def)
  then have k: "\<forall>m \<in> set (log_messages (dc_log demo_unsaved)). \<forall>key lo.
      deletion_target ?env chat_kind (bk_context (dc_book demo_unsaved)) m (dc_transfer demo_unsaved) = Ok (key, lo) \<longrightarrow> CHR '':'' \<notin> set key"
    by (simp add: demo_target(1))
  have l: "0 < length (log_messages (dc_log demo_unsaved))" "message_id (log_messages (dc_log demo_unsaved) ! 0) = Some ''m1''"
    "''m1'' \<in> set [''m1'']"
    by (simp_all add: m)
  from delete_for_me_erases [OF d kinds_ok(1) t reg p(1) u p(2) k l] d show ?thesis by (intro exI [of _ ctx'] exI [of _ res]) simp
qed

end
