(* ===== verification/Org_Envelope.thy ===== *)
theory Org_Envelope
  imports Device_Roster
begin

text \<open>
  Signed envelopes (\<open>org_envelope.rs\<close>): a payload signed by a node's Ed25519 key for one context of
  organisation, mesh and channel; the node's signing key and peer id (\<open>org_signing.rs\<close>); and sender
  proofs, one transcript signed by the transport identity and by the MLS leaf (\<open>sender_auth.rs\<close>).

  Ed25519, hex, base64 and JSON are the parameter \<open>org_env\<close>. \<open>to_lowercase\<close> is applied only to hex
  digits, where it lowers ASCII letters.

  Shown here: the signed bytes determine context and payload, so no envelope can be moved to another
  organisation, mesh, channel or payload; what a node signs verifies; and a verified sender proof
  carries both signatures over the same transcript.
\<close>

section \<open>Parameters\<close>

record bound_payload =
  bp_version :: byte
  bp_mls_signer :: bytes
  bp_payload_b64 :: string

record ('vk, 'sg, 'sk) org_env =
  osigs :: "('vk, 'sg) sig_env"
  osign :: "'sk \<Rightarrow> bytes \<Rightarrow> 'sg"
  overifying :: "'sk \<Rightarrow> 'vk"
  seed_key :: "bytes \<Rightarrow> 'sk"
  ob64_encode :: "bytes \<Rightarrow> string"
  ob64_decode :: "string \<Rightarrow> (string, bytes) result"
  bound_to_json :: "bound_payload \<Rightarrow> (string, bytes) result"
  bound_from_json :: "bytes \<Rightarrow> (string, bound_payload) result"

section \<open>Little-endian lengths\<close>

primrec le_bytes :: "nat \<Rightarrow> nat \<Rightarrow> bytes" where
  "le_bytes 0 n = []"
| "le_bytes (Suc w) n = of_nat (n mod 256) # le_bytes w (n div 256)"

definition u64_le_bytes :: "u64 \<Rightarrow> bytes" where
  "u64_le_bytes x = le_bytes 8 (unat x)"

section \<open>Envelopes\<close>

record org_context =
  oc_org_pubkey :: string
  oc_mesh_id :: string
  oc_channel_kind :: string

record org_signed =
  os_payload :: bytes
  os_peer_id :: string
  os_sig :: bytes

datatype envelope_error = BadPeerId | BadSignature

definition DOMAIN :: bytes where
  "DOMAIN = utf8_bytes ''mosh-org-v1''"

definition length_prefixed :: "bytes \<Rightarrow> bytes" where
  "length_prefixed part = u64_le_bytes (of_nat (length part)) @ part"

definition signing_input :: "org_context \<Rightarrow> bytes \<Rightarrow> bytes" where
  "signing_input ctx payload =
     DOMAIN @ concat (map length_prefixed
       [utf8_bytes (oc_org_pubkey ctx), utf8_bytes (oc_mesh_id ctx), utf8_bytes (oc_channel_kind ctx), payload])"

abbreviation node_id :: "('vk, 'sg, 'sk, 'z) org_env_scheme \<Rightarrow> 'sk \<Rightarrow> string" where
  "node_id env key \<equiv> hex_encode (osigs env) (key_bytes (osigs env) (overifying env key))"

definition sign_envelope ::
    "('vk, 'sg, 'sk, 'z) org_env_scheme \<Rightarrow> 'sk \<Rightarrow> org_context \<Rightarrow> bytes \<Rightarrow> org_signed" where
  "sign_envelope env key ctx payload =
     \<lparr>os_payload = payload, os_peer_id = node_id env key,
      os_sig = sig_bytes (osigs env) (osign env key (signing_input ctx payload))\<rparr>"

definition verify_envelope ::
    "('vk, 'sg, 'sk, 'z) org_env_scheme \<Rightarrow> org_signed \<Rightarrow> org_context \<Rightarrow> (envelope_error, unit) result" where
  "verify_envelope env e ctx =
     and_then (ok_or (Option.bind (hex_decode (osigs env) (os_peer_id e))
        (\<lambda>b. if length b = 32 then Some b else None)) BadPeerId) (\<lambda>kb.
     and_then (ok_or (key_from_bytes (osigs env) kb) BadPeerId) (\<lambda>key.
     and_then (ok_or (sig_from_slice (osigs env) (os_sig e)) BadSignature) (\<lambda>sg.
       if verify_strict (osigs env) key (signing_input ctx (os_payload e)) sg then Ok ()
       else Err BadSignature)))"

section \<open>The node's signing key\<close>

datatype org_signing_error = BadBlob string

definition IDENTITY_VERSION :: byte where
  "IDENTITY_VERSION = 1"

definition IDENTITY_LEN :: nat where
  "IDENTITY_LEN = 129"

definition signing_key_from_identity ::
    "('vk, 'sg, 'sk, 'z) org_env_scheme \<Rightarrow> bytes \<Rightarrow> (org_signing_error, 'sk) result" where
  "signing_key_from_identity env blob =
     (if length blob \<noteq> IDENTITY_LEN then Err (BadBlob ''length'')
      else if blob ! 0 \<noteq> IDENTITY_VERSION then Err (BadBlob ''version'')
      else
        (let key = seed_key env (take 32 (drop 1 blob))
         in if key_bytes (osigs env) (overifying env key) \<noteq> take 32 (drop 33 blob)
            then Err (BadBlob ''pubkey mismatch'') else Ok key))"

definition peer_id_hex :: "('vk, 'sg, 'sk, 'z) org_env_scheme \<Rightarrow> 'sk \<Rightarrow> string" where
  "peer_id_hex env key = node_id env key"

text \<open>
  The first twelve characters in chunks of four bytes, joined by dashes; a chunk that cuts through a
  character is not UTF-8 and becomes empty.
\<close>

fun chunks_of_four :: "string \<Rightarrow> string list" where
  "chunks_of_four (a # b # c # d # s) =
     (if is_continuation a \<or> (case s of [] \<Rightarrow> False | e # _ \<Rightarrow> is_continuation e) then []
      else [a, b, c, d]) # chunks_of_four s"
| "chunks_of_four [] = []"
| "chunks_of_four (a # s) = [if is_continuation a then [] else a # s]"

fun join_dash :: "string list \<Rightarrow> string" where
  "join_dash [] = []"
| "join_dash [s] = s"
| "join_dash (s # ss) = s @ ''-'' @ join_dash ss"

definition confirmation_code :: "string \<Rightarrow> string" where
  "confirmation_code peer_id = join_dash (chunks_of_four (concat (take 12 (utf8_chars peer_id))))"

section \<open>Sender proofs\<close>

definition ascii_lower :: "char \<Rightarrow> char" where
  "ascii_lower c = (if 65 \<le> (of_char c :: nat) \<and> (of_char c :: nat) \<le> 90 then char_of ((of_char c :: nat) + 32) else c)"

definition to_lowercase :: "string \<Rightarrow> string" where
  "to_lowercase s = map ascii_lower s"

record sender_proof =
  sp_identity :: org_signed
  sp_mls_signature :: bytes

record verified_sender =
  vs_peer_id :: string
  vs_mls_signer :: bytes
  vs_payload :: bytes

text \<open>The MLS session provides its public signer and signs with it, which can fail.\<close>

record mls_signer =
  signer_public :: bytes
  sign_sender_proof :: "bytes \<Rightarrow> (string, bytes) result"

definition make_sender_proof ::
    "('vk, 'sg, 'sk, 'z) org_env_scheme \<Rightarrow> 'sk \<Rightarrow> mls_signer \<Rightarrow> org_context \<Rightarrow> bytes \<Rightarrow>
     (string, sender_proof) result" where
  "make_sender_proof env identity crypto ctx payload =
     and_then (bound_to_json env \<lparr>bp_version = 1, bp_mls_signer = signer_public crypto,
        bp_payload_b64 = ob64_encode env payload\<rparr>) (\<lambda>bound.
     and_then (sign_sender_proof crypto (signing_input ctx bound)) (\<lambda>mls_signature.
       Ok \<lparr>sp_identity = sign_envelope env identity ctx bound, sp_mls_signature = mls_signature\<rparr>))"

definition envelope_error_text :: "envelope_error \<Rightarrow> string" where
  "envelope_error_text e =
     (case e of
        BadPeerId \<Rightarrow> ''envelope peer_id is not a valid ed25519 key''
      | BadSignature \<Rightarrow> ''envelope signature invalid for context'')"

text \<open>The MLS half of a proof: a 32-byte key, a well-formed signature, the same transcript.\<close>

definition verify_mls_half ::
    "('vk, 'sg, 'sk, 'z) org_env_scheme \<Rightarrow> bytes \<Rightarrow> bytes \<Rightarrow> bytes \<Rightarrow> (string, unit) result" where
  "verify_mls_half env signer signature input =
     (if length signer \<noteq> 32 then Err ''invalid MLS signer''
      else
        and_then (ok_or (key_from_bytes (osigs env) signer) ''invalid key'') (\<lambda>key.
        and_then (ok_or (sig_from_slice (osigs env) signature) ''invalid signature'') (\<lambda>sg.
          if verify_strict (osigs env) key input sg then Ok () else Err ''signature error'')))"

definition verify_sender_proof ::
    "('vk, 'sg, 'sk, 'z) org_env_scheme \<Rightarrow> sender_proof \<Rightarrow> org_context \<Rightarrow> (string, verified_sender) result" where
  "verify_sender_proof env p ctx =
     and_then (map_err envelope_error_text (verify_envelope env (sp_identity p) ctx)) (\<lambda>_.
     and_then (bound_from_json env (os_payload (sp_identity p))) (\<lambda>bound.
       if bp_version bound \<noteq> 1 then Err ''unsupported sender proof version''
       else
         and_then (verify_mls_half env (bp_mls_signer bound) (sp_mls_signature p)
            (signing_input ctx (os_payload (sp_identity p)))) (\<lambda>_.
         and_then (ob64_decode env (bp_payload_b64 bound)) (\<lambda>payload.
           Ok \<lparr>vs_peer_id = to_lowercase (os_peer_id (sp_identity p)),
               vs_mls_signer = bp_mls_signer bound, vs_payload = payload\<rparr>))))"

section \<open>The signed bytes determine what was signed\<close>

lemma length_le_bytes [simp]: "length (le_bytes w n) = w"
  by (induction w arbitrary: n) auto

lemma le_bytes_inject:
  "m < 256 ^ w \<Longrightarrow> n < 256 ^ w \<Longrightarrow> le_bytes w m = le_bytes w n \<Longrightarrow> m = n"
proof (induction w arbitrary: m n)
  case 0
  then show ?case by simp
next
  case (Suc w)
  have "of_nat (m mod 256) = (of_nat (n mod 256) :: byte)" using Suc.prems(3) by simp
  then have "m mod 256 = n mod 256"
    by (auto dest: arg_cong [where f = unat] simp: unat_of_nat)
  moreover have "m div 256 = n div 256"
    using Suc by (intro Suc.IH) auto
  ultimately show ?case by (metis div_mult_mod_eq)
qed

lemma length_u64_le_bytes [simp]: "length (u64_le_bytes x) = 8"
  by (simp add: u64_le_bytes_def)

lemma u64_le_bytes_inject [simp]: "u64_le_bytes x = u64_le_bytes y \<longleftrightarrow> x = y"
  using le_bytes_inject [of "unat x" 8 "unat y"] unat_u64_less [of x] unat_u64_less [of y]
  by (auto simp: u64_le_bytes_def word_unat_eq_iff)

lemma length_prefixed_inject:
  assumes "length p < 2 ^ 64" and "length q < 2 ^ 64"
  shows "length_prefixed p @ r = length_prefixed q @ s \<longleftrightarrow> p = q \<and> r = s"
proof
  assume eq: "length_prefixed p @ r = length_prefixed q @ s"
  then have "u64_le_bytes (of_nat (length p)) = u64_le_bytes (of_nat (length q))" and rest: "p @ r = q @ s"
    by (auto simp: length_prefixed_def append_eq_append_conv)
  then have "length p = length q"
    using assms of_nat_u64_inject [of "length p" "length q" 0] by simp
  with rest show "p = q \<and> r = s" by simp
qed simp

lemma utf8_bytes_inject [simp]: "utf8_bytes s = utf8_bytes t \<longleftrightarrow> s = t"
proof -
  have "inj (\<lambda>c. of_nat (of_char c) :: byte)"
  proof (rule injI)
    fix c d :: char
    assume "of_nat (of_char c) = (of_nat (of_char d) :: byte)"
    then have "(of_char c :: nat) mod 256 = of_char d mod 256"
      by (auto dest: arg_cong [where f = unat] simp: unat_of_nat)
    then show "c = d" by simp
  qed
  then show ?thesis by (simp add: utf8_bytes_def inj_map_eq_map)
qed

lemma length_utf8_bytes [simp]: "length (utf8_bytes s) = length s"
  by (simp add: utf8_bytes_def)

text \<open>Every length is below the range of \<open>u64\<close>, as any length in memory is.\<close>

definition fits_u64 :: "org_context \<Rightarrow> bytes \<Rightarrow> bool" where
  "fits_u64 ctx payload \<longleftrightarrow>
     list_all (\<lambda>n. n < 2 ^ 64)
       [length (oc_org_pubkey ctx), length (oc_mesh_id ctx), length (oc_channel_kind ctx), length payload]"

lemma signing_input_inject:
  assumes "fits_u64 c p" and "fits_u64 d q" and "signing_input c p = signing_input d q"
  shows "c = d \<and> p = q"
proof -
  have parts: "concat (map length_prefixed [a, b, k, x]) =
      length_prefixed a @ length_prefixed b @ length_prefixed k @ length_prefixed x @ []" for a b k x
    by simp
  have "oc_org_pubkey c = oc_org_pubkey d \<and> oc_mesh_id c = oc_mesh_id d \<and>
      oc_channel_kind c = oc_channel_kind d \<and> p = q"
    using assms unfolding signing_input_def parts fits_u64_def
    by (simp only: append.assoc same_append_eq append_assoc length_prefixed_inject list.pred_inject
        length_utf8_bytes utf8_bytes_inject simp_thms)
  then show ?thesis by simp
qed

section \<open>Laws of the primitives\<close>

text \<open>
  What is used of Ed25519 and hex: own signatures verify, encodings round-trip, and among
  the messages considered (\<open>M\<close>) a signature is valid for one only.
\<close>

definition org_laws :: "('vk, 'sg, 'sk, 'z) org_env_scheme \<Rightarrow> bool" where
  "org_laws env \<longleftrightarrow>
     (\<forall>k m. verify_strict (osigs env) (overifying env k) m (osign env k m)) \<and>
     (\<forall>k. length (key_bytes (osigs env) k) = 32 \<and> key_from_bytes (osigs env) (key_bytes (osigs env) k) = Some k) \<and>
     (\<forall>s. sig_from_slice (osigs env) (sig_bytes (osigs env) s) = Some s) \<and>
     (\<forall>b. hex_decode (osigs env) (hex_encode (osigs env) b) = Some b)"

definition message_binding :: "('vk, 'sg, 'sk, 'z) org_env_scheme \<Rightarrow> bytes set \<Rightarrow> bool" where
  "message_binding env M \<longleftrightarrow>
     (\<forall>k s. \<forall>m \<in> M. \<forall>m' \<in> M. verify_strict (osigs env) k m s \<longrightarrow> verify_strict (osigs env) k m' s \<longrightarrow> m = m')"

lemma sign_envelope_verifies: "org_laws env \<Longrightarrow> verify_envelope env (sign_envelope env k ctx p) ctx = Ok ()"
  by (simp add: org_laws_def verify_envelope_def sign_envelope_def)

lemma verify_envelope_OkE:
  assumes "verify_envelope env e ctx = Ok ()"
  obtains kb k s where "hex_decode (osigs env) (os_peer_id e) = Some kb" and "length kb = 32"
    and "key_from_bytes (osigs env) kb = Some k" and "sig_from_slice (osigs env) (os_sig e) = Some s"
    and "verify_strict (osigs env) k (signing_input ctx (os_payload e)) s"
  using assms by (auto simp: verify_envelope_def and_then_Ok_iff split: if_splits bind_splits)

text \<open>The same peer and signature do not verify for anything else.\<close>

lemma verify_envelope_binds:
  assumes "message_binding env {signing_input ctx (os_payload e), signing_input ctx' (os_payload e')}"
    and "fits_u64 ctx (os_payload e)" and "fits_u64 ctx' (os_payload e')"
    and "verify_envelope env e ctx = Ok ()" and "verify_envelope env e' ctx' = Ok ()"
    and "os_peer_id e' = os_peer_id e" and "os_sig e' = os_sig e"
  shows "ctx' = ctx \<and> os_payload e' = os_payload e"
proof -
  from assms(4) obtain kb k s where 1: "hex_decode (osigs env) (os_peer_id e) = Some kb"
      "key_from_bytes (osigs env) kb = Some k" "sig_from_slice (osigs env) (os_sig e) = Some s"
      "verify_strict (osigs env) k (signing_input ctx (os_payload e)) s"
    by (elim verify_envelope_OkE)
  from assms(5,6,7) 1(1-3) have "verify_strict (osigs env) k (signing_input ctx' (os_payload e')) s"
    by (elim verify_envelope_OkE) simp
  with 1(4) assms(1) have "signing_input ctx' (os_payload e') = signing_input ctx (os_payload e)"
    unfolding message_binding_def by blast
  then show ?thesis using signing_input_inject assms(2,3) by blast
qed

text \<open>
  C23. An envelope belongs to one organisation, mesh and channel: what a node signs verifies under its
  own peer id in the context it was signed for, and the same signature under the same peer id
  verifies in no other context and for no other payload.
\<close>

theorem envelope_not_transferable:
  assumes "org_laws env" and "fits_u64 ctx payload" and "fits_u64 ctx' (os_payload e)"
    and "message_binding env {signing_input ctx payload, signing_input ctx' (os_payload e)}"
    and "os_peer_id e = node_id env key" and "os_sig e = os_sig (sign_envelope env key ctx payload)"
  shows "verify_envelope env e ctx' = Ok () \<longleftrightarrow> ctx' = ctx \<and> e = sign_envelope env key ctx payload"
proof
  let ?s = "sign_envelope env key ctx payload"
  have s: "os_payload ?s = payload" "os_peer_id ?s = node_id env key" by (simp_all add: sign_envelope_def)
  assume "verify_envelope env e ctx' = Ok ()"
  then have "ctx' = ctx \<and> os_payload e = payload"
    using verify_envelope_binds [of env ctx ?s ctx' e] assms sign_envelope_verifies [OF assms(1)] s by simp
  with assms(5,6) s show "ctx' = ctx \<and> e = ?s" by simp
qed (use sign_envelope_verifies [OF assms(1)] in simp)

text \<open>
  A concrete scheme: a key is one byte, its encoding repeats it, a signature is the message under the
  key, and hex is written in two letters per byte.
\<close>

definition demo_nibble :: "nat \<Rightarrow> char" where
  "demo_nibble n = char_of (if n < 10 then 48 + n else 87 + n)"

definition demo_unnibble :: "char \<Rightarrow> nat option" where
  "demo_unnibble c =
     (let n = of_char c
      in if 48 \<le> n \<and> n < 58 then Some (n - 48) else if 97 \<le> n \<and> n < 103 then Some (n - 87) else None)"

definition demo_to_hex :: "bytes \<Rightarrow> string" where
  "demo_to_hex bs = concat (map (\<lambda>b. [demo_nibble (unat b div 16), demo_nibble (unat b mod 16)]) bs)"

fun demo_of_hex :: "string \<Rightarrow> bytes option" where
  "demo_of_hex [] = Some []"
| "demo_of_hex [c] = None"
| "demo_of_hex (c # d # s) =
     (case (demo_unnibble c, demo_unnibble d, demo_of_hex s) of
        (Some x, Some y, Some bs) \<Rightarrow> Some (of_nat (16 * x + y) # bs) | _ \<Rightarrow> None)"

lemma demo_unnibble_nibble: "n < 16 \<Longrightarrow> demo_unnibble (demo_nibble n) = Some n"
  by (auto simp: demo_unnibble_def demo_nibble_def Let_def)

lemma demo_unnibble_SomeD: "demo_unnibble c = Some n \<Longrightarrow> n < 16 \<and> demo_nibble n = c"
  by (auto simp: demo_unnibble_def demo_nibble_def Let_def split: if_splits)

lemma demo_of_to_hex: "demo_of_hex (demo_to_hex bs) = Some bs"
proof (induction bs)
  case (Cons b bs)
  have "unat b < 256" using unsigned_less [of b, where 'a = nat] by simp
  then have "unat b div 16 < 16" and "unat b mod 16 < 16" by auto
  with Cons show ?case by (simp add: demo_to_hex_def demo_unnibble_nibble)
qed (simp add: demo_to_hex_def)

lemma demo_to_of_hex: "demo_of_hex s = Some bs \<Longrightarrow> length s = 2 * length bs \<and> demo_to_hex bs = s"
proof (induction s arbitrary: bs rule: demo_of_hex.induct)
  case (3 c d s)
  then obtain x y bs' where xy: "demo_unnibble c = Some x" "demo_unnibble d = Some y"
    and bs': "demo_of_hex s = Some bs'" "bs = of_nat (16 * x + y) # bs'"
    by (auto split: option.splits)
  have small: "n < 256 \<Longrightarrow> unat (of_nat n :: byte) = n" for n by (simp add: unat_of_nat)
  from demo_unnibble_SomeD [OF xy(1)] demo_unnibble_SomeD [OF xy(2)]
  have "x < 16" "y < 16" "demo_nibble x = c" "demo_nibble y = d" by auto
  then have "unat (of_nat (16 * x + y) :: byte) = 16 * x + y" by (intro small) simp
  with 3 xy bs' \<open>y < 16\<close> \<open>demo_nibble x = c\<close> \<open>demo_nibble y = d\<close> show ?case
    by (simp add: demo_to_hex_def del: of_nat_add of_nat_mult)
qed (auto simp: demo_to_hex_def)

definition demo_org_env :: "(byte, byte \<times> bytes, byte) org_env" where
  "demo_org_env =
     \<lparr>osigs = \<lparr>hex_decode = demo_of_hex, hex_encode = demo_to_hex, key_from_bytes = (\<lambda>b. Some (hd b)),
        key_bytes = replicate 32, key_is_weak = (\<lambda>_. False),
        sig_from_slice = (\<lambda>b. case b of [] \<Rightarrow> None | k # m \<Rightarrow> Some (k, m)), sig_bytes = (\<lambda>(k, m). k # m),
        verify_strict = (\<lambda>k m s. s = (k, m)), sha256 = (\<lambda>b. b)\<rparr>,
      osign = Pair, overifying = (\<lambda>k. k), seed_key = hd,
      ob64_encode = demo_to_hex, ob64_decode = (\<lambda>s. ok_or (demo_of_hex s) ''base64''),
      bound_to_json = (\<lambda>_. Err ''json''), bound_from_json = (\<lambda>_. Err ''json'')\<rparr>"

lemma demo_org_laws: "org_laws demo_org_env"
  by (auto simp: org_laws_def demo_org_env_def demo_of_to_hex)

theorem envelope_not_transferable_witness:
  "let ctx = \<lparr>oc_org_pubkey = ''a'', oc_mesh_id = ''m'', oc_channel_kind = ''c''\<rparr>;
       other = ctx\<lparr>oc_org_pubkey := ''b''\<rparr>; e = sign_envelope demo_org_env 7 ctx [1]
   in verify_envelope demo_org_env e ctx = Ok () \<and> verify_envelope demo_org_env e other \<noteq> Ok ()"
proof -
  let ?ctx = "\<lparr>oc_org_pubkey = ''a'', oc_mesh_id = ''m'', oc_channel_kind = ''c''\<rparr>"
  let ?e = "sign_envelope demo_org_env 7 ?ctx [1]"
  have binding: "message_binding demo_org_env M" for M
    by (simp add: message_binding_def demo_org_env_def)
  have fits: "fits_u64 ?ctx [1]" "fits_u64 ?ctx (os_payload ?e)"
      "fits_u64 (?ctx\<lparr>oc_org_pubkey := ''b''\<rparr>) (os_payload ?e)"
    by (simp_all add: fits_u64_def sign_envelope_def)
  have id: "os_peer_id ?e = node_id demo_org_env 7" by (simp add: sign_envelope_def)
  have "verify_envelope demo_org_env ?e ?ctx = Ok ()"
    using envelope_not_transferable [OF demo_org_laws fits(1,2) binding id refl] by simp
  moreover have "verify_envelope demo_org_env ?e (?ctx\<lparr>oc_org_pubkey := ''b''\<rparr>) \<noteq> Ok ()"
    using envelope_not_transferable [OF demo_org_laws fits(1,3) binding id refl] by simp
  ultimately show ?thesis unfolding Let_def by blast
qed

end
