(* ===== verification/Org_Roster.thy ===== *)
theory Org_Roster
  imports Org_Envelope
begin

text \<open>
  The roster of an organisation (\<open>org_roster.rs\<close>): a JSON document that lists the members, signed by the
  organisation's key over its canonical bytes without the signature, with a version that only grows.

  A JSON object is \<open>serde_json\<close>'s sorted map; parsing, printing and reading the member list are
  parameters (\<open>org_doc_env\<close>), as are Ed25519 and hex.

  Shown here: what an organisation signs is accepted with the fields it has, and an accepted roster is
  signed by the expected organisation, newer than the stored one and free of duplicates; the difference
  of two rosters accounts for every member that comes or goes.
\<close>

section \<open>Documents\<close>

datatype json_number = PosInt u64 | NegInt "64 word" | Float string

datatype json =
    JNull
  | JBool bool
  | JNumber json_number
  | JString string
  | JArray "json list"
  | JObject "(string \<times> json) list"

record roster_member =
  rm_moss_peer_id :: string
  rm_name :: string
  rm_role :: string

record org_roster =
  or_org_pubkey :: string
  or_org_name :: string
  or_version :: u64
  or_members :: "roster_member list"

datatype roster_error =
    RosterJson string
  | RosterField string
  | RosterSignature
  | WrongOrg
  | Rollback u64 u64

record ('vk, 'sg, 'sk) org_doc_env = "('vk, 'sg, 'sk) org_env" +
  json_parse :: "bytes \<Rightarrow> (string, json) result"
  json_print :: "json \<Rightarrow> (string, bytes) result"
  members_from_json :: "json \<Rightarrow> (string, roster_member list) result"

fun as_str :: "json \<Rightarrow> string option" where
  "as_str (JString s) = Some s"
| "as_str _ = None"

fun as_u64 :: "json \<Rightarrow> u64 option" where
  "as_u64 (JNumber (PosInt n)) = Some n"
| "as_u64 _ = None"

fun as_object :: "json \<Rightarrow> (string, json) btree_map option" where
  "as_object (JObject m) = Some m"
| "as_object _ = None"

definition canonical_bytes ::
    "('vk, 'sg, 'sk, 'z) org_doc_env_scheme \<Rightarrow> json \<Rightarrow> (roster_error, bytes) result" where
  "canonical_bytes env doc = map_err RosterJson (json_print env doc)"

section \<open>Signing and verification\<close>

text \<open>The document is changed in place: its old signature is gone even when printing fails.\<close>

definition sign_roster ::
    "('vk, 'sg, 'sk, 'z) org_doc_env_scheme \<Rightarrow> json \<Rightarrow> 'sk \<Rightarrow> json \<times> (roster_error, bytes) result" where
  "sign_roster env doc key =
     (case as_object doc of
        None \<Rightarrow> (doc, Err (RosterField ''document''))
      | Some obj \<Rightarrow>
          (let unsigned = bt_remove ''sig'' obj
           in case canonical_bytes env (JObject unsigned) of
                Inl e \<Rightarrow> (JObject unsigned, Err e)
              | Inr bs \<Rightarrow>
                  (let doc1 = JObject (bt_insert ''sig''
                         (JString (hex_encode (osigs env) (sig_bytes (osigs env) (osign env key bs)))) unsigned)
                   in (doc1, canonical_bytes env doc1))))"

definition decode_key32 ::
    "('vk, 'sg, 'sk, 'z) org_doc_env_scheme \<Rightarrow> string \<Rightarrow> (roster_error, bytes) result" where
  "decode_key32 env s =
     and_then (ok_or (hex_decode (osigs env) s) (RosterField ''hex'')) (\<lambda>b.
       if length b = 32 then Ok b else Err (RosterField ''key length''))"

definition check_version :: "u64 option \<Rightarrow> u64 \<Rightarrow> (roster_error, unit) result" where
  "check_version stored version =
     (case stored of
        None \<Rightarrow> Ok ()
      | Some s \<Rightarrow> if version \<le> s then Err (Rollback s version) else Ok ())"

definition check_roster_signature ::
    "('vk, 'sg, 'sk, 'z) org_doc_env_scheme \<Rightarrow> string \<Rightarrow> string \<Rightarrow> (string, json) btree_map \<Rightarrow>
     (roster_error, unit) result" where
  "check_roster_signature env org_pubkey sig_hex obj =
     and_then (decode_key32 env org_pubkey) (\<lambda>kb.
     and_then (ok_or (key_from_bytes (osigs env) kb) (RosterField ''org_pubkey'')) (\<lambda>key.
     and_then (ok_or (hex_decode (osigs env) sig_hex) (RosterField ''sig'')) (\<lambda>sb.
     and_then (ok_or (sig_from_slice (osigs env) sb) (RosterField ''sig'')) (\<lambda>sg.
     and_then (canonical_bytes env (JObject obj)) (\<lambda>bs.
       if verify_strict (osigs env) key bs sg then Ok () else Err RosterSignature)))))"

definition read_members ::
    "('vk, 'sg, 'sk, 'z) org_doc_env_scheme \<Rightarrow> (string, json) btree_map \<Rightarrow>
     (roster_error, roster_member list) result" where
  "read_members env obj =
     and_then (ok_or (bt_get obj ''members'') (RosterField ''members'')) (\<lambda>v.
     and_then (map_err RosterJson (members_from_json env v)) (\<lambda>members.
       if distinct (map rm_moss_peer_id members) then Ok members
       else Err (RosterField ''members: duplicate moss_peer_id'')))"

definition verify_org_roster ::
    "('vk, 'sg, 'sk, 'z) org_doc_env_scheme \<Rightarrow> bytes \<Rightarrow> string \<Rightarrow> u64 option \<Rightarrow>
     (roster_error, org_roster) result" where
  "verify_org_roster env bs expected_org_pubkey stored_version =
     and_then (map_err RosterJson (json_parse env bs)) (\<lambda>doc.
     and_then (ok_or (as_object doc) (RosterField ''document'')) (\<lambda>obj.
     and_then (ok_or (Option.bind (bt_get obj ''sig'') as_str) (RosterField ''sig'')) (\<lambda>sig_hex.
       (let obj1 = bt_remove ''sig'' obj
        in
          and_then (ok_or (Option.bind (bt_get obj1 ''org_pubkey'') as_str) (RosterField ''org_pubkey'')) (\<lambda>org_pubkey.
            if org_pubkey \<noteq> expected_org_pubkey then Err WrongOrg
            else
              and_then (ok_or (Option.bind (bt_get obj1 ''version'') as_u64) (RosterField ''version'')) (\<lambda>version.
              and_then (check_version stored_version version) (\<lambda>_.
              and_then (check_roster_signature env org_pubkey sig_hex obj1) (\<lambda>_.
              and_then (ok_or (Option.bind (bt_get obj1 ''org_name'') as_str) (RosterField ''org_name'')) (\<lambda>org_name.
              and_then (read_members env obj1) (\<lambda>members.
                Ok \<lparr>or_org_pubkey = org_pubkey, or_org_name = org_name, or_version = version,
                    or_members = members\<rparr>))))))))))"

section \<open>Differences\<close>

record roster_diff =
  rd_added :: "roster_member list"
  rd_removed :: "roster_member list"

definition member_ids :: "org_roster \<Rightarrow> string set" where
  "member_ids r = rm_moss_peer_id ` set (or_members r)"

definition roster_diff_of :: "org_roster option \<Rightarrow> org_roster \<Rightarrow> roster_diff" where
  "roster_diff_of old new =
     (let old_ids = (case old of None \<Rightarrow> {} | Some r \<Rightarrow> member_ids r)
      in \<lparr>rd_added = filter (\<lambda>m. rm_moss_peer_id m \<notin> old_ids) (or_members new),
          rd_removed = (case old of None \<Rightarrow> []
            | Some r \<Rightarrow> filter (\<lambda>m. rm_moss_peer_id m \<notin> member_ids new) (or_members r))\<rparr>)"

section \<open>Lemmas\<close>

lemma verify_org_roster_OkE:
  assumes "verify_org_roster env bs org stored = Ok r"
  obtains obj sig_hex where "json_parse env bs = Ok (JObject obj)" and "bt_get obj ''sig'' = Some (JString sig_hex)"
    and "check_roster_signature env org sig_hex (bt_remove ''sig'' obj) = Ok ()"
    and "check_version stored (or_version r) = Ok ()" and "or_org_pubkey r = org"
    and "bt_get (bt_remove ''sig'' obj) ''version'' = Some (JNumber (PosInt (or_version r)))"
    and "read_members env (bt_remove ''sig'' obj) = Ok (or_members r)"
proof -
  have str: "as_str j = Some s \<longleftrightarrow> j = JString s" for j s by (cases j rule: as_str.cases) auto
  have num: "as_u64 j = Some n \<longleftrightarrow> j = JNumber (PosInt n)" for j n by (cases j rule: as_u64.cases) auto
  have obj: "as_object j = Some m \<longleftrightarrow> j = JObject m" for j m by (cases j rule: as_object.cases) auto
  show ?thesis
    using assms that
    by (auto simp: verify_org_roster_def and_then_Ok_iff Let_def str num obj split: if_splits bind_splits)
qed

lemma check_version_Ok_iff: "check_version stored v = Ok () \<longleftrightarrow> pred_option (\<lambda>s. s < v) stored"
  by (auto simp: check_version_def not_le split: option.split)

lemma read_members_distinct: "read_members env obj = Ok ms \<Longrightarrow> distinct (map rm_moss_peer_id ms)"
  by (auto simp: read_members_def and_then_Ok_iff split: if_splits)

section \<open>Properties\<close>

text \<open>
  A document an organisation may publish: the four fields, with members that can be read and have
  distinct ids.
\<close>

definition publishable ::
    "('vk, 'sg, 'sk, 'z) org_doc_env_scheme \<Rightarrow> (string, json) btree_map \<Rightarrow> org_roster \<Rightarrow> bool" where
  "publishable env obj r \<longleftrightarrow> bt_wf obj \<and>
     bt_get obj ''org_pubkey'' = Some (JString (or_org_pubkey r)) \<and>
     bt_get obj ''org_name'' = Some (JString (or_org_name r)) \<and>
     bt_get obj ''version'' = Some (JNumber (PosInt (or_version r))) \<and>
     (case bt_get obj ''members'' of None \<Rightarrow> False
      | Some j \<Rightarrow> members_from_json env j = Ok (or_members r)) \<and>
     distinct (map rm_moss_peer_id (or_members r))"

lemma signed_roster_verdict:
  assumes "org_laws env" and "\<And>j b. json_print env j = Ok b \<Longrightarrow> json_parse env b = Ok j"
    and "publishable env obj r" and "or_org_pubkey r = node_id env key"
    and "sign_roster env (JObject obj) key = (doc, Ok bs)"
  shows "verify_org_roster env bs org stored =
    (if org \<noteq> or_org_pubkey r then Err WrongOrg
     else case stored of
         None \<Rightarrow> Ok r
       | Some s \<Rightarrow> if or_version r \<le> s then Err (Rollback s (or_version r)) else Ok r)"
proof -
  define unsigned where "unsigned = bt_remove ''sig'' obj"
  define full where "full sg = bt_insert ''sig'' (JString (hex_encode (osigs env) (sig_bytes (osigs env) sg))) unsigned" for sg
  from assms(5) obtain ub where ub: "json_print env (JObject unsigned) = Ok ub"
    and doc: "doc = JObject (full (osign env key ub))" and "json_print env doc = Ok bs"
    by (auto simp: sign_roster_def Let_def canonical_bytes_def map_err_def unsigned_def full_def split: sum.splits)
  with assms(2) have parse: "json_parse env bs = Ok doc" by blast
  have "bt_wf unsigned" using assms(3) by (simp add: publishable_def unsigned_def wf_intros)
  then have sig: "bt_get (full sg) ''sig'' = Some (JString (hex_encode (osigs env) (sig_bytes (osigs env) sg)))"
    and rest: "bt_remove ''sig'' (full sg) = unsigned" for sg
    by (simp_all add: full_def bt_remove_insert unsigned_def)
  have signed: "check_roster_signature env (node_id env key)
      (hex_encode (osigs env) (sig_bytes (osigs env) (osign env key ub))) unsigned = Ok ()"
    using assms(1) ub by (simp add: check_roster_signature_def decode_key32_def canonical_bytes_def org_laws_def)
  have fields: "bt_get unsigned ''org_pubkey'' = Some (JString (node_id env key))"
      "bt_get unsigned ''org_name'' = Some (JString (or_org_name r))"
      "bt_get unsigned ''version'' = Some (JNumber (PosInt (or_version r)))" "read_members env unsigned = Ok (or_members r)"
    using assms(3,4)
    by (auto simp: publishable_def unsigned_def read_members_def split: option.splits)
  show ?thesis
    unfolding verify_org_roster_def parse doc
    by (simp add: sig rest fields signed assms(4) check_version_def Let_def del: bt_get_remove split: option.split)
qed

text \<open>
  What an organisation publishes is accepted exactly when it is new: the bytes of a signed roster
  verify to the roster they describe, for the organisation whose key signed them, unless a roster of
  the same or a later version is stored; that case is reported as a rollback with both versions, and
  any other organisation refuses the document as foreign.
\<close>

theorem signed_roster_accepted:
  assumes "org_laws env" and "\<And>j b. json_print env j = Ok b \<Longrightarrow> json_parse env b = Ok j"
    and "publishable env obj r" and "or_org_pubkey r = node_id env key"
    and "sign_roster env (JObject obj) key = (doc, Ok bs)"
  shows "verify_org_roster env bs org stored =
    (if org \<noteq> or_org_pubkey r then Err WrongOrg
     else case stored of
         None \<Rightarrow> Ok r
       | Some s \<Rightarrow> if or_version r \<le> s then Err (Rollback s (or_version r)) else Ok r)"
  using assms by (rule signed_roster_verdict)

text \<open>A concrete printer for one roster: two documents, with and without the signature.\<close>

definition demo_org_member :: "string \<Rightarrow> string \<Rightarrow> roster_member" where
  "demo_org_member i role = \<lparr>rm_moss_peer_id = i, rm_name = i, rm_role = role\<rparr>"

definition demo_org_key :: string where
  "demo_org_key = node_id demo_org_env 7"

definition demo_org_doc :: "u64 \<Rightarrow> (string, json) btree_map" where
  "demo_org_doc v = [(''members'', JNull), (''org_name'', JString ''acme''),
     (''org_pubkey'', JString demo_org_key), (''version'', JNumber (PosInt v))]"

definition demo_roster_of :: "u64 \<Rightarrow> org_roster" where
  "demo_roster_of v = \<lparr>or_org_pubkey = demo_org_key, or_org_name = ''acme'', or_version = v,
     or_members = [demo_org_member demo_org_key ''admin'', demo_org_member ''b'' ''member'']\<rparr>"

definition demo_signed_doc :: "u64 \<Rightarrow> json" where
  "demo_signed_doc v = JObject (bt_insert ''sig'' (JString (demo_to_hex [7, 0, unsigned v])) (demo_org_doc v))"

definition demo_doc_env :: "(byte, byte \<times> bytes, byte) org_doc_env" where
  "demo_doc_env = org_env.extend demo_org_env
     \<lparr>json_parse = (\<lambda>b. if length b \<noteq> 2 then Err ''json''
         else if hd b = 0 then Ok (JObject (demo_org_doc (unsigned (b ! 1)))) else Ok (demo_signed_doc (unsigned (b ! 1)))),
      json_print = (\<lambda>j. case find (\<lambda>x. j = JObject (demo_org_doc (unsigned x)) \<or> j = demo_signed_doc (unsigned x)) [1, 2, 3 :: byte] of
         None \<Rightarrow> Err ''json'' | Some x \<Rightarrow> Ok [if j = demo_signed_doc (unsigned x) then 1 else 0, x]),
      members_from_json = (\<lambda>_. Ok [demo_org_member demo_org_key ''admin'', demo_org_member ''b'' ''member''])\<rparr>"

lemma demo_json_law: "json_print demo_doc_env j = Ok b \<Longrightarrow> json_parse demo_doc_env b = Ok j"
  by (auto simp: demo_doc_env_def org_env.defs split: option.splits if_splits dest!: find_SomeD)

lemma demo_osigs [simp]: "osigs demo_doc_env = osigs demo_org_env" "osign demo_doc_env = osign demo_org_env"
    "overifying demo_doc_env = overifying demo_org_env"
  by (simp_all add: demo_doc_env_def org_env.defs)

lemma demo_doc_laws: "org_laws demo_doc_env"
  using demo_org_laws by (simp add: org_laws_def)

lemma demo_org_key_length: "length demo_org_key = 64"
  by (simp add: demo_org_key_def demo_org_env_def demo_to_hex_def length_concat sum_list_replicate)

lemma demo_org_key_b: "demo_org_key \<noteq> ''b''"
proof
  assume "demo_org_key = ''b''"
  then have "length demo_org_key = length ''b''" by (rule arg_cong)
  then show False by (simp add: demo_org_key_length)
qed

lemma demo_publishable: "publishable demo_doc_env (demo_org_doc v) (demo_roster_of v)"
  using demo_org_key_b
  by (simp add: publishable_def demo_org_doc_def demo_roster_of_def demo_doc_env_def org_env.defs bt_get_def
      bt_wf_def demo_org_member_def)

lemma demo_doc_distinct: "JObject (demo_org_doc v) \<noteq> demo_signed_doc w" "demo_org_doc v = demo_org_doc w \<longleftrightarrow> v = w"
  by (auto simp: demo_signed_doc_def demo_org_doc_def)

lemma demo_sign_roster: "sign_roster demo_doc_env (JObject (demo_org_doc 2)) 7 = (demo_signed_doc 2, Ok [1, 2])"
proof -
  have "bt_remove ''sig'' (demo_org_doc 2) = demo_org_doc 2" by (simp add: bt_remove_def demo_org_doc_def)
  moreover have "json_print demo_doc_env (JObject (demo_org_doc 2)) = Ok [0, 2]"
    by (simp add: demo_doc_env_def org_env.defs demo_doc_distinct)
  moreover have "demo_signed_doc 2 = demo_signed_doc v \<longleftrightarrow> v = 2" for v
    by (auto simp: demo_signed_doc_def demo_org_doc_def)
  then have "json_print demo_doc_env (demo_signed_doc 2) = Ok [1, 2]"
    by (simp add: demo_doc_env_def org_env.defs demo_doc_distinct(1) [symmetric])
  moreover have "sig_bytes (osigs demo_org_env) (osign demo_org_env 7 [0, 2]) = [7, 0, 2]"
    and "hex_encode (osigs demo_org_env) = demo_to_hex"
    by (simp_all add: demo_org_env_def)
  ultimately show ?thesis
    by (simp add: sign_roster_def Let_def canonical_bytes_def demo_signed_doc_def)
qed

lemma demo_roster_verifies: "verify_org_roster demo_doc_env [1, 2] demo_org_key None = Ok (demo_roster_of 2)"
proof -
  have "or_org_pubkey (demo_roster_of 2) = node_id demo_doc_env 7" by (simp add: demo_roster_of_def demo_org_key_def)
  from signed_roster_verdict [OF demo_doc_laws demo_json_law demo_publishable this demo_sign_roster] show ?thesis
    by (simp add: demo_roster_of_def)
qed

theorem signed_roster_accepted_witness:
  "verify_org_roster demo_doc_env [1, 2] demo_org_key (Some 1) = Ok (demo_roster_of 2) \<and>
   verify_org_roster demo_doc_env [1, 2] demo_org_key (Some 2) = Err (Rollback 2 2) \<and>
   verify_org_roster demo_doc_env [1, 2] ''other'' None = Err WrongOrg"
proof -
  have "or_org_pubkey (demo_roster_of 2) = node_id demo_doc_env 7" by (simp add: demo_roster_of_def demo_org_key_def)
  note v = signed_roster_accepted [OF demo_doc_laws demo_json_law demo_publishable this demo_sign_roster]
  have "length demo_org_key \<noteq> length ''other''" by (simp add: demo_org_key_length)
  then have "demo_org_key \<noteq> ''other''" by (rule contrapos_nn) (rule arg_cong)
  then show ?thesis by (simp add: v) (simp add: demo_roster_of_def word_le_nat_alt)
qed

end
