(* ===== verification/Invite.thy ===== *)
theory Invite
  imports Org_Envelope
begin

unbundle bit_operations_syntax

text \<open>
  Invitations into a direct conversation: the URI and its parser (\<open>private_dm_runtime/invite.rs\<close>), the
  proof that the inviting installation owns it (\<open>invite_ownership.rs\<close>) and the compact form with fixed
  widths (\<open>compact_invite.rs\<close>).

  The URL library, base64 and hex are parameters (\<open>invite_env\<close>); a URL is an abstract value \<open>'u\<close> with the
  accessors the code calls. Case mapping is applied to hex digits only, hence the ASCII one.

  Shown here: the compact form of an invitation decodes to the invitation it was made from, with
  target and token; an offered invitation that verifies was signed by the offering node and by the
  MLS key whose fingerprint it carries.
\<close>

section \<open>Parameters and data\<close>

record ('vk, 'sg, 'sk, 'u) invite_env = "('vk, 'sg, 'sk) org_env" +
  url_parse :: "string \<Rightarrow> (string, 'u) result"
  url_scheme :: "'u \<Rightarrow> string"
  url_host :: "'u \<Rightarrow> string option"
  url_pairs :: "'u \<Rightarrow> (string \<times> string) list"
  url_fragment :: "'u \<Rightarrow> string option"
  url_clear_query :: "'u \<Rightarrow> 'u"
  url_extend_pairs :: "'u \<Rightarrow> (string \<times> string) list \<Rightarrow> 'u"
  url_text :: "'u \<Rightarrow> string"
  hex_upper :: "bytes \<Rightarrow> string"
  url64_encode :: "bytes \<Rightarrow> string"
  url64_decode :: "string \<Rightarrow> (string, bytes) result"
  sender_to_json :: "sender_proof \<Rightarrow> (string, bytes) result"
  sender_from_json :: "bytes \<Rightarrow> (string, sender_proof) result"

record parsed_invite =
  pi_mesh_id :: string
  pi_session_id :: string
  pi_peer_address :: "string option"
  pi_fingerprint :: string
  pi_peer_moss_id :: "string option"

definition INVITE_PREFIX :: string where
  "INVITE_PREFIX = ''mosh://invite''"

definition FINGERPRINT_HEX_LEN :: nat where
  "FINGERPRINT_HEX_LEN = 32"

definition MOSS_PEER_ID_HEX_LEN :: nat where
  "MOSS_PEER_ID_HEX_LEN = 64"

definition is_ascii_hexdigit :: "char \<Rightarrow> bool" where
  "is_ascii_hexdigit c \<longleftrightarrow>
     is_ascii_digit c \<or> (65 \<le> (of_char c :: nat) \<and> (of_char c :: nat) \<le> 70) \<or>
     (97 \<le> (of_char c :: nat) \<and> (of_char c :: nat) \<le> 102)"

definition ascii_upper :: "char \<Rightarrow> char" where
  "ascii_upper c =
     (if 97 \<le> (of_char c :: nat) \<and> (of_char c :: nat) \<le> 122 then char_of ((of_char c :: nat) - 32) else c)"

definition is_ascii_uppercase :: "char \<Rightarrow> bool" where
  "is_ascii_uppercase c \<longleftrightarrow> 65 \<le> (of_char c :: nat) \<and> (of_char c :: nat) \<le> 90"

definition starts_with :: "string \<Rightarrow> string \<Rightarrow> bool" where
  "starts_with p s \<longleftrightarrow> strip_prefix p s \<noteq> None"

definition build_invite_uri :: "string \<Rightarrow> string \<Rightarrow> string \<Rightarrow> string option \<Rightarrow> string" where
  "build_invite_uri mesh session fp moss =
     INVITE_PREFIX @ ''?mesh='' @ mesh @ ''&session='' @ session @
     (case moss of None \<Rightarrow> [] | Some i \<Rightarrow> ''&moss='' @ i) @ ''#fp='' @ fp"

section \<open>The compact form\<close>

definition COMPACT_PREFIX :: string where
  "COMPACT_PREFIX = ''mosh://invite/''"

definition HEADER_BYTES :: nat where
  "HEADER_BYTES = 82"

definition SIGNATURE_BYTES :: nat where
  "SIGNATURE_BYTES = 128"

definition TARGET :: byte where
  "TARGET = 1"

definition TOKEN :: byte where
  "TOKEN = 2"

record decoded_invite =
  di_invite :: parsed_invite
  di_target :: "string option"
  di_token :: "string option"
  di_owner :: verified_sender

definition compact_context :: "string \<Rightarrow> org_context" where
  "compact_context mesh =
     \<lparr>oc_org_pubkey = [], oc_mesh_id = mesh, oc_channel_kind = ''dm-invite-owner-v2''\<rparr>"

text \<open>The URL of a generated invitation always parses; the code panics otherwise.\<close>

definition canonical_invite ::
    "('vk, 'sg, 'sk, 'u, 'z) invite_env_scheme \<Rightarrow> parsed_invite \<Rightarrow> string option \<Rightarrow> string option \<Rightarrow>
     string option" where
  "canonical_invite env invite target token =
     (case url_parse env (build_invite_uri (pi_mesh_id invite) (pi_session_id invite)
          (pi_fingerprint invite) (pi_peer_moss_id invite)) of
        Inl _ \<Rightarrow> None
      | Inr u \<Rightarrow>
          (let u1 = (case token of None \<Rightarrow> u | Some t \<Rightarrow> url_extend_pairs env u [(''token'', t)]);
               u2 = (case target of None \<Rightarrow> u1 | Some t \<Rightarrow> url_extend_pairs env u1 [(''target'', t)])
           in Some (url_text env u2)))"

definition token_bytes :: "('vk, 'sg, 'sk, 'u, 'z) invite_env_scheme \<Rightarrow> string \<Rightarrow> string \<Rightarrow> bytes option" where
  "token_bytes env token pre =
     Option.bind (strip_prefix pre token) (\<lambda>hex.
       if length hex \<noteq> 16 \<or> list_ex is_ascii_uppercase hex then None
       else Option.bind (hex_decode (osigs env) hex) (\<lambda>b. if length b = 8 then Some b else None))"

definition slice :: "nat \<Rightarrow> nat \<Rightarrow> bytes \<Rightarrow> bytes" where
  "slice a b bs = take (b - a) (drop a bs)"

definition compact_verify ::
    "('vk, 'sg, 'sk, 'u, 'z) invite_env_scheme \<Rightarrow> bytes \<Rightarrow> nat \<Rightarrow> string \<Rightarrow> (string, unit) result" where
  "compact_verify env bs payload_len mesh =
     and_then (map_err envelope_error_text (verify_envelope env
        \<lparr>os_payload = take payload_len bs, os_peer_id = hex_encode (osigs env) (slice 18 50 bs),
         os_sig = slice payload_len (payload_len + 64) bs\<rparr> (compact_context mesh))) (\<lambda>_.
       verify_mls_half env (slice 50 82 bs) (drop (payload_len + 64) bs)
         (signing_input (compact_context mesh) (take payload_len bs)))"

definition compact_payload_len :: "byte \<Rightarrow> nat" where
  "compact_payload_len flags =
     HEADER_BYTES + (if flags AND TOKEN \<noteq> 0 then 8 else 0) + (if flags AND TARGET \<noteq> 0 then 32 else 0)"

definition compact_fields :: "('vk, 'sg, 'sk, 'u, 'z) invite_env_scheme \<Rightarrow> bytes \<Rightarrow> parsed_invite" where
  "compact_fields env bs =
     \<lparr>pi_mesh_id = ''mesh-'' @ hex_encode (osigs env) (slice 2 10 bs),
      pi_session_id = ''session-'' @ hex_encode (osigs env) (slice 10 18 bs),
      pi_peer_address = None, pi_fingerprint = hex_upper env (slice 50 66 bs),
      pi_peer_moss_id = Some (hex_encode (osigs env) (slice 18 50 bs))\<rparr>"

definition compact_decode ::
    "('vk, 'sg, 'sk, 'u, 'z) invite_env_scheme \<Rightarrow> string \<Rightarrow> (string, decoded_invite) result" where
  "compact_decode env raw =
     and_then (ok_or (strip_prefix COMPACT_PREFIX raw) ''invalid compact invite prefix'') (\<lambda>encoded.
     and_then (url64_decode env encoded) (\<lambda>bs.
       if url64_encode env bs \<noteq> encoded \<or> length bs < HEADER_BYTES + SIGNATURE_BYTES \<or> bs ! 0 \<noteq> 1 \<or>
          bs ! 1 AND NOT (TARGET OR TOKEN) \<noteq> 0
       then Err ''invalid compact invitation''
       else
         (let flags = bs ! 1; payload_len = compact_payload_len flags
          in if length bs \<noteq> payload_len + SIGNATURE_BYTES then Err ''invalid compact invitation length''
             else
               (let invite = compact_fields env bs
                in and_then (compact_verify env bs payload_len (pi_mesh_id invite)) (\<lambda>_.
                   (let token = (if flags AND TOKEN \<noteq> 0
                          then Some (''invite-'' @ hex_encode (osigs env) (slice 82 90 bs)) else None);
                        target_start = HEADER_BYTES + (if token \<noteq> None then 8 else 0);
                        target = (if flags AND TARGET \<noteq> 0
                          then Some (hex_encode (osigs env) (slice target_start (target_start + 32) bs)) else None)
                    in and_then (ok_or (canonical_invite env invite target token) ''generated invitation URL'') (\<lambda>text.
                         Ok \<lparr>di_invite = invite, di_target = target, di_token = token,
                             di_owner = \<lparr>vs_peer_id = hex_encode (osigs env) (slice 18 50 bs),
                               vs_mls_signer = slice 50 82 bs, vs_payload = utf8_bytes text\<rparr>\<rparr>)))))))"

text \<open>A raw text goes to the compact decoder unless its path is empty before the query.\<close>

definition is_compact :: "string \<Rightarrow> bool" where
  "is_compact raw \<longleftrightarrow> starts_with COMPACT_PREFIX raw \<and> \<not> starts_with ''mosh://invite/?'' raw"

section \<open>Ownership of an invitation\<close>

definition owner_context :: "parsed_invite \<Rightarrow> org_context" where
  "owner_context invite =
     \<lparr>oc_org_pubkey = [], oc_mesh_id = pi_mesh_id invite, oc_channel_kind = ''dm-invite-owner-v1''\<rparr>"

text \<open>Removing the proof from the query, and refusing a second one.\<close>

fun split_pairs ::
    "(string \<times> string) list \<Rightarrow> string option \<Rightarrow> (string, (string \<times> string) list \<times> string option) result" where
  "split_pairs [] p = Ok ([], p)"
| "split_pairs ((k, v) # kvs) p =
     (if k = ''proof'' then
        (if p \<noteq> None then Err ''duplicate invite proof'' else split_pairs kvs (Some v))
      else and_then (split_pairs kvs p) (\<lambda>(rest, q). Ok ((k, v) # rest, q)))"

definition split_invite ::
    "('vk, 'sg, 'sk, 'u, 'z) invite_env_scheme \<Rightarrow> string \<Rightarrow> (string, 'u \<times> string option) result" where
  "split_invite env raw =
     and_then (url_parse env raw) (\<lambda>u.
     and_then (split_pairs (url_pairs env u) None) (\<lambda>(pairs, p).
       Ok (url_extend_pairs env (url_clear_query env u) pairs, p)))"

definition verify_invite_owner ::
    "('vk, 'sg, 'sk, 'u, 'z) invite_env_scheme \<Rightarrow> string \<Rightarrow> parsed_invite \<Rightarrow>
     (string, verified_sender option) result" where
  "verify_invite_owner env raw invite =
     (if is_compact raw then and_then (compact_decode env raw) (\<lambda>d. Ok (Some (di_owner d)))
      else
        and_then (split_invite env raw) (\<lambda>(unsigned, p).
          case p of
            None \<Rightarrow> Ok None
          | Some text \<Rightarrow>
              and_then (url64_decode env text) (\<lambda>json.
              and_then (sender_from_json env json) (\<lambda>proof.
              and_then (verify_sender_proof env proof (owner_context invite)) (\<lambda>owner.
                if vs_payload owner \<noteq> utf8_bytes (url_text env unsigned) \<or>
                   pi_peer_moss_id invite \<noteq> Some (vs_peer_id owner) \<or>
                   hex_upper env (take 16 (vs_mls_signer owner)) \<noteq> pi_fingerprint invite
                then Err ''invite ownership proof does not match the invitation''
                else Ok (Some owner))))))"

definition query_values :: "('vk, 'sg, 'sk, 'u, 'z) invite_env_scheme \<Rightarrow> string \<Rightarrow> 'u \<Rightarrow> string list" where
  "query_values env key u = map snd (filter (\<lambda>(k, _). k = key) (url_pairs env u))"

definition target_peer ::
    "('vk, 'sg, 'sk, 'u, 'z) invite_env_scheme \<Rightarrow> string \<Rightarrow> (string, string option) result" where
  "target_peer env raw =
     (if is_compact raw then and_then (compact_decode env raw) (\<lambda>d. Ok (di_target d))
      else
        and_then (url_parse env raw) (\<lambda>u.
          (case query_values env ''target'' u of
             [] \<Rightarrow> Ok None
           | [t] \<Rightarrow>
               if length t = 64 \<and> list_all is_ascii_hexdigit t then Ok (Some (to_lowercase t))
               else Err ''invitation requires one valid target identity''
           | _ \<Rightarrow> Err ''invitation requires one valid target identity'')))"

definition invitation_token ::
    "('vk, 'sg, 'sk, 'u, 'z) invite_env_scheme \<Rightarrow> string \<Rightarrow> (string, string option) result" where
  "invitation_token env raw =
     (if is_compact raw then and_then (compact_decode env raw) (\<lambda>d. Ok (di_token d))
      else
        and_then (url_parse env raw) (\<lambda>u.
          (case query_values env ''token'' u of
             [] \<Rightarrow> Ok None
           | [t] \<Rightarrow>
               (case strip_prefix ''invite-'' t of
                  None \<Rightarrow> Err ''invitation requires one valid admission token''
                | Some hex \<Rightarrow>
                    if length hex = 16 \<and> list_all is_ascii_hexdigit hex then Ok (Some t)
                    else Err ''invitation requires one valid admission token'')
           | _ \<Rightarrow> Err ''invitation requires one valid admission token'')))"

section \<open>Parsing\<close>

definition optional_query :: "('vk, 'sg, 'sk, 'u, 'z) invite_env_scheme \<Rightarrow> 'u \<Rightarrow> string \<Rightarrow> string option" where
  "optional_query env u key =
     Option.bind (find (\<lambda>(k, _). k = key) (url_pairs env u)) (\<lambda>(_, v). if v = [] then None else Some v)"

definition query :: "('vk, 'sg, 'sk, 'u, 'z) invite_env_scheme \<Rightarrow> 'u \<Rightarrow> string \<Rightarrow> (string, string) result" where
  "query env u key = ok_or (optional_query env u key) (''missing '' @ key)"

definition parse_fingerprint :: "string option \<Rightarrow> (string, string) result" where
  "parse_fingerprint fragment =
     and_then (ok_or (Option.bind fragment (strip_prefix ''fp='')) ''missing fingerprint'') (\<lambda>raw.
       (let normalized = map ascii_upper (filter (\<lambda>c. c \<noteq> CHR ''-'') raw)
        in if length normalized \<noteq> FINGERPRINT_HEX_LEN \<or> \<not> list_all is_ascii_hexdigit normalized
           then Err ''invalid fingerprint'' else Ok normalized))"

text \<open>The error is the text inside \<open>InvalidInvite\<close>.\<close>

definition parse_invite ::
    "('vk, 'sg, 'sk, 'u, 'z) invite_env_scheme \<Rightarrow> string \<Rightarrow> (string, parsed_invite) result" where
  "parse_invite env raw =
     (if is_compact raw then and_then (compact_decode env raw) (\<lambda>d. Ok (di_invite d))
      else
        and_then (url_parse env raw) (\<lambda>u.
          if url_scheme env u \<noteq> ''mosh'' \<or> url_host env u \<noteq> Some ''invite'' then Err ''wrong scheme''
          else
            and_then (query env u ''mesh'') (\<lambda>mesh.
            and_then (query env u ''session'') (\<lambda>session.
            and_then (parse_fingerprint (url_fragment env u)) (\<lambda>fp.
              (let invite = \<lparr>pi_mesh_id = mesh, pi_session_id = session,
                     pi_peer_address = optional_query env u ''peer'', pi_fingerprint = fp,
                     pi_peer_moss_id = Option.bind (map_option to_lowercase (optional_query env u ''moss''))
                       (\<lambda>i. if length i = MOSS_PEER_ID_HEX_LEN \<and> list_all is_ascii_hexdigit i then Some i else None)\<rparr>
               in and_then (verify_invite_owner env raw invite) (\<lambda>_.
                  and_then (target_peer env raw) (\<lambda>_.
                  and_then (invitation_token env raw) (\<lambda>_. Ok invite)))))))))"

definition invite_error_text :: "string \<Rightarrow> string" where
  "invite_error_text e = ''invalid invite: '' @ e"

definition verify_offered_invite ::
    "('vk, 'sg, 'sk, 'u, 'z) invite_env_scheme \<Rightarrow> string \<Rightarrow> string \<Rightarrow> string \<Rightarrow> (string, unit) result" where
  "verify_offered_invite env raw expected_peer expected_target =
     and_then (map_err invite_error_text (parse_invite env raw)) (\<lambda>invite.
     and_then (verify_invite_owner env raw invite) (\<lambda>found.
     and_then (ok_or found ''offered invitation requires an ownership proof'') (\<lambda>owner.
       if vs_peer_id owner \<noteq> expected_peer then Err ''DM owner differs from the offering member''
       else
         and_then (target_peer env raw) (\<lambda>target.
           if target \<noteq> Some expected_target then Err ''DM owner differs from the offering member''
           else Ok ()))))"

section \<open>Signing\<close>

definition mls_fingerprint :: "('vk, 'sg, 'sk, 'u, 'z) invite_env_scheme \<Rightarrow> mls_signer \<Rightarrow> string" where
  "mls_fingerprint env crypto = hex_upper env (take 16 (signer_public crypto))"

definition compact_body ::
    "('vk, 'sg, 'sk, 'u, 'z) invite_env_scheme \<Rightarrow> 'sk \<Rightarrow> mls_signer \<Rightarrow> bytes \<Rightarrow> bytes \<Rightarrow> bytes option \<Rightarrow>
     bytes option \<Rightarrow> bytes" where
  "compact_body env identity crypto mesh session token target =
     [1, (if target \<noteq> None then TARGET else 0) OR (if token \<noteq> None then TOKEN else 0)] @ mesh @ session @
     key_bytes (osigs env) (overifying env identity) @ signer_public crypto @
     (case token of None \<Rightarrow> [] | Some t \<Rightarrow> t) @ (case target of None \<Rightarrow> [] | Some t \<Rightarrow> t)"

definition finish_compact ::
    "('vk, 'sg, 'sk, 'u, 'z) invite_env_scheme \<Rightarrow> 'sk \<Rightarrow> mls_signer \<Rightarrow> string \<Rightarrow> bytes \<Rightarrow> (string, string) result" where
  "finish_compact env identity crypto mesh_id bs =
     and_then (sign_sender_proof crypto (signing_input (compact_context mesh_id) bs)) (\<lambda>mls_signature.
       Ok (COMPACT_PREFIX @ url64_encode env
         (bs @ os_sig (sign_envelope env identity (compact_context mesh_id) bs) @ mls_signature)))"

definition compact_sign ::
    "('vk, 'sg, 'sk, 'u, 'z) invite_env_scheme \<Rightarrow> string \<Rightarrow> 'sk \<Rightarrow> mls_signer \<Rightarrow>
     (string, string option) result" where
  "compact_sign env raw identity crypto =
     and_then (map_err invite_error_text (parse_invite env raw)) (\<lambda>invite.
     and_then (target_peer env raw) (\<lambda>target.
     and_then (invitation_token env raw) (\<lambda>token.
       if canonical_invite env invite target token \<noteq> Some raw then Ok None
       else
         (case (token_bytes env (pi_mesh_id invite) ''mesh-'', token_bytes env (pi_session_id invite) ''session-'') of
            (Some mesh, Some session) \<Rightarrow>
              if pi_peer_moss_id invite \<noteq> Some (node_id env identity) \<or>
                 pi_fingerprint invite \<noteq> mls_fingerprint env crypto
              then Err ''invitation is not owned by the signing installation''
              else
                (case (case token of None \<Rightarrow> Some None | Some t \<Rightarrow> map_option Some (token_bytes env t ''invite-'')) of
                   None \<Rightarrow> Ok None
                 | Some tok \<Rightarrow>
                     and_then (case target of None \<Rightarrow> Ok None
                        | Some t \<Rightarrow> and_then (ok_or (hex_decode (osigs env) t) ''hex'') (\<lambda>b. Ok (Some b))) (\<lambda>tgt.
                     and_then (finish_compact env identity crypto (pi_mesh_id invite)
                        (compact_body env identity crypto mesh session tok tgt)) (\<lambda>s. Ok (Some s))))
          | _ \<Rightarrow> Ok None))))"

definition sign_invite ::
    "('vk, 'sg, 'sk, 'u, 'z) invite_env_scheme \<Rightarrow> string \<Rightarrow> 'sk \<Rightarrow> mls_signer \<Rightarrow> (string, string) result" where
  "sign_invite env raw identity crypto =
     and_then (split_invite env raw) (\<lambda>(unsigned, _).
     and_then (compact_sign env (url_text env unsigned) identity crypto) (\<lambda>compact.
       case compact of
         Some s \<Rightarrow> Ok s
       | None \<Rightarrow>
           and_then (map_err invite_error_text (parse_invite env (url_text env unsigned))) (\<lambda>invite.
             if pi_peer_moss_id invite \<noteq> Some (node_id env identity) \<or>
                pi_fingerprint invite \<noteq> mls_fingerprint env crypto
             then Err ''invitation is not owned by the signing installation''
             else
               and_then (make_sender_proof env identity crypto (owner_context invite)
                  (utf8_bytes (url_text env unsigned))) (\<lambda>proof.
               and_then (sender_to_json env proof) (\<lambda>json.
                 Ok (url_text env (url_extend_pairs env unsigned [(''proof'', url64_encode env json)])))))))"

section \<open>The compact form round-trips\<close>

text \<open>
  What is used of the encodings: base64 round-trips and never begins with a question mark, hex text
  is twice as long as its bytes and comes back when it has no capital letters, signatures have 64
  bytes.
\<close>

definition invite_laws :: "('vk, 'sg, 'sk, 'u, 'z) invite_env_scheme \<Rightarrow> bool" where
  "invite_laws env \<longleftrightarrow> org_laws env \<and>
     (\<forall>b. url64_decode env (url64_encode env b) = Ok b) \<and>
     (\<forall>b. \<not> starts_with ''?'' (url64_encode env b)) \<and>
     (\<forall>h b. hex_decode (osigs env) h = Some b \<longrightarrow> length h = 2 * length b \<and>
        (list_ex is_ascii_uppercase h \<or> hex_encode (osigs env) b = h)) \<and>
     (\<forall>s. length (sig_bytes (osigs env) s) = 64)"

definition mls_signs :: "('vk, 'sg, 'sk, 'u, 'z) invite_env_scheme \<Rightarrow> mls_signer \<Rightarrow> bool" where
  "mls_signs env crypto \<longleftrightarrow> length (signer_public crypto) = 32 \<and>
     (\<forall>m s. sign_sender_proof crypto m = Ok s \<longrightarrow>
        length s = 64 \<and> verify_mls_half env (signer_public crypto) s m = Ok ())"

lemma starts_with_append: "starts_with p (p @ s)"
  by (simp add: starts_with_def strip_prefix_def)

lemma is_compact_encoded:
  assumes "\<not> starts_with ''?'' s"
  shows "is_compact (COMPACT_PREFIX @ s)"
  using assms by (auto simp: is_compact_def COMPACT_PREFIX_def starts_with_def strip_prefix_def split: if_splits)

lemma compact_flags:
  fixes token :: "'a option" and target :: "'b option"
  defines "f \<equiv> (if target \<noteq> None then TARGET else 0) OR (if token \<noteq> None then TOKEN else 0)"
  shows "f AND NOT (TARGET OR TOKEN) = 0" and "f AND TOKEN \<noteq> 0 \<longleftrightarrow> token \<noteq> None"
    and "f AND TARGET \<noteq> 0 \<longleftrightarrow> target \<noteq> None"
  by (simp_all add: f_def TARGET_def TOKEN_def)

lemma compact_layout:
  assumes "length mesh = 8" and "length session = 8" and "length key = 32" and "length signer = 32"
    and "length sig1 = 64" and "bs = [1, f] @ mesh @ session @ key @ signer @ tok @ tgt @ sig1 @ sig2"
    and "n = 82 + length tok + length tgt"
  shows "slice 2 10 bs = mesh" and "slice 10 18 bs = session" and "slice 18 50 bs = key"
    and "slice 50 66 bs = take 16 signer" and "slice 50 82 bs = signer"
    and "slice 82 (82 + length tok) bs = tok"
    and "slice (82 + length tok) (82 + length tok + length tgt) bs = tgt"
    and "take n bs = [1, f] @ mesh @ session @ key @ signer @ tok @ tgt"
    and "slice n (n + 64) bs = sig1" and "drop (n + 64) bs = sig2"
  using assms by (simp_all add: slice_def take_Cons' drop_Cons')

lemma token_bytes_SomeD:
  assumes "invite_laws env" and "token_bytes env t pre = Some b"
  shows "length b = 8 \<and> t = pre @ hex_encode (osigs env) b"
  using assms
  by (auto simp: token_bytes_def strip_prefix_def invite_laws_def split: if_splits bind_splits)
    (metis append_take_drop_id)

lemma is_ascii_uppercase_lower: "\<not> list_ex is_ascii_uppercase (to_lowercase s)"
proof -
  have "\<not> is_ascii_uppercase (ascii_lower c)" for c
    by (auto simp: is_ascii_uppercase_def ascii_lower_def)
  then show ?thesis by (simp add: to_lowercase_def list_ex_iff)
qed

lemma target_peer_bytes:
  assumes "invite_laws env" and "\<not> is_compact raw" and "target_peer env raw = Ok (Some t)"
    and "hex_decode (osigs env) t = Some b"
  shows "length b = 32 \<and> hex_encode (osigs env) b = t"
proof -
  from assms(2,3) obtain url where "url_parse env raw = Ok url" and
    "(case query_values env ''target'' url of [] \<Rightarrow> Ok None
       | [t] \<Rightarrow> if length t = 64 \<and> list_all is_ascii_hexdigit t then Ok (Some (to_lowercase t))
           else Err ''invitation requires one valid target identity''
       | _ \<Rightarrow> Err ''invitation requires one valid target identity'') = Ok (Some t)"
    by (auto simp: target_peer_def and_then_Ok_iff)
  then obtain u where t: "t = to_lowercase u" and "length u = 64"
    by (cases "query_values env ''target'' url" rule: remdups_adj.cases) (auto split: if_splits)
  then have "length t = 64" by (simp add: to_lowercase_def)
  with assms(1,4) t is_ascii_uppercase_lower [of u] show ?thesis
    by (auto simp: invite_laws_def)
qed

text \<open>Decoding what \<open>finish_compact\<close> encodes.\<close>

lemma compact_decode_finish:
  assumes laws: "invite_laws env" and mls: "mls_signs env crypto"
    and mesh: "length mesh = 8" and session: "length session = 8"
    and tok: "token = map_option (\<lambda>b. ''invite-'' @ hex_encode (osigs env) b) tok" "pred_option (\<lambda>b. length b = 8) tok"
    and tgt: "target = map_option (hex_encode (osigs env)) tgt" "pred_option (\<lambda>b. length b = 32) tgt"
    and invite: "invite = \<lparr>pi_mesh_id = ''mesh-'' @ hex_encode (osigs env) mesh,
        pi_session_id = ''session-'' @ hex_encode (osigs env) session, pi_peer_address = None,
        pi_fingerprint = mls_fingerprint env crypto, pi_peer_moss_id = Some (node_id env identity)\<rparr>"
    and canon: "canonical_invite env invite target token = Some raw"
    and fin: "finish_compact env identity crypto (pi_mesh_id invite)
        (compact_body env identity crypto mesh session tok tgt) = Ok s"
  shows "compact_decode env s = Ok \<lparr>di_invite = invite, di_target = target, di_token = token,
     di_owner = \<lparr>vs_peer_id = node_id env identity, vs_mls_signer = signer_public crypto,
       vs_payload = utf8_bytes raw\<rparr>\<rparr>"
proof -
  let ?ctx = "compact_context (pi_mesh_id invite)"
  let ?f = "(if tgt \<noteq> None then TARGET else 0) OR (if tok \<noteq> None then TOKEN else 0)"
  let ?tk = "case tok of None \<Rightarrow> [] | Some b \<Rightarrow> b" and ?tg = "case tgt of None \<Rightarrow> [] | Some b \<Rightarrow> b"
  let ?key = "key_bytes (osigs env) (overifying env identity)"
  define body where "body = compact_body env identity crypto mesh session tok tgt"
  define sig1 where "sig1 = os_sig (sign_envelope env identity ?ctx body)"
  from fin obtain sig2 where sig2: "sign_sender_proof crypto (signing_input ?ctx body) = Ok sig2"
    and s: "s = COMPACT_PREFIX @ url64_encode env (body @ sig1 @ sig2)"
    by (auto simp: finish_compact_def and_then_Ok_iff body_def sig1_def)
  define bs where "bs = body @ sig1 @ sig2"
  define n where "n = 82 + length ?tk + length ?tg"
  have len: "length ?key = 32" "length (signer_public crypto) = 32" "length sig1 = 64" "length sig2 = 64"
    using laws mls sig2 by (auto simp: invite_laws_def org_laws_def mls_signs_def sig1_def sign_envelope_def)
  have split: "bs = [1, ?f] @ mesh @ session @ ?key @ signer_public crypto @ ?tk @ ?tg @ sig1 @ sig2"
    by (simp add: bs_def body_def compact_body_def)
  note layout = compact_layout [OF mesh session len(1,2,3) split n_def]
  have n: "n = compact_payload_len ?f"
    using tok(2) tgt(2)
    by (cases tok; cases tgt) (simp_all add: n_def compact_payload_len_def HEADER_BYTES_def TARGET_def TOKEN_def)
  have body: "take n bs = body" using layout(8) by (simp add: body_def compact_body_def)
  have "verify_envelope env (sign_envelope env identity ?ctx body) ?ctx = Ok ()"
    using laws by (intro sign_envelope_verifies) (simp add: invite_laws_def)
  moreover have "sign_envelope env identity ?ctx body =
      \<lparr>os_payload = take n bs, os_peer_id = hex_encode (osigs env) (slice 18 50 bs), os_sig = slice n (n + 64) bs\<rparr>"
    by (simp add: body layout sig1_def) (simp add: sign_envelope_def)
  moreover have "verify_mls_half env (slice 50 82 bs) (drop (n + 64) bs) (signing_input ?ctx (take n bs)) = Ok ()"
    using mls sig2 by (simp add: layout(5,10) body mls_signs_def)
  ultimately have verified: "compact_verify env bs n (pi_mesh_id invite) = Ok ()"
    by (simp add: compact_verify_def)
  have fields: "compact_fields env bs = invite"
    by (simp add: compact_fields_def layout invite mls_fingerprint_def)
  have head: "bs ! 0 = 1" "bs ! Suc 0 = ?f" and length: "length bs = n + 128"
    by (simp_all add: split n_def mesh session len)
  have n: "compact_payload_len (bs ! Suc 0) = n" "82 \<le> n" using n by (simp_all add: head n_def)
  have flags: "bs ! Suc 0 AND NOT (TARGET OR TOKEN) = 0" by (simp only: head compact_flags)
  have token: "(if bs ! Suc 0 AND TOKEN \<noteq> 0 then Some (''invite-'' @ hex_encode (osigs env) (slice 82 90 bs)) else None) = token"
    using layout(6) tok by (cases tok; cases tgt) (simp_all add: head TARGET_def TOKEN_def)
  have target: "(if bs ! Suc 0 AND TARGET \<noteq> 0 then Some (hex_encode (osigs env)
      (slice (HEADER_BYTES + (if token \<noteq> None then 8 else 0)) (HEADER_BYTES + (if token \<noteq> None then 8 else 0) + 32) bs))
      else None) = target"
    using layout(7) tok tgt by (cases tok; cases tgt) (simp_all add: head TARGET_def TOKEN_def HEADER_BYTES_def)
  have decoded: "url64_decode env (url64_encode env bs) = Ok bs" using laws by (simp add: invite_laws_def)
  have "\<not> (url64_encode env bs \<noteq> url64_encode env bs \<or> length bs < HEADER_BYTES + SIGNATURE_BYTES \<or>
      bs ! 0 \<noteq> 1 \<or> bs ! 1 AND NOT (TARGET OR TOKEN) \<noteq> 0)"
    using n(2) flags by (simp add: head(1) length HEADER_BYTES_def SIGNATURE_BYTES_def)
  moreover have "length bs = compact_payload_len (bs ! 1) + SIGNATURE_BYTES"
    by (simp add: n length SIGNATURE_BYTES_def)
  ultimately show ?thesis
    using decoded verified token target canon
    by (simp add: compact_decode_def s bs_def [symmetric] Let_def strip_prefix_def n(1) fields layout(3,5)
        del: not_None_eq split del: if_split)
qed

lemma parse_compact:
  "compact_decode env s = Ok d \<Longrightarrow> is_compact s \<Longrightarrow>
   parse_invite env s = Ok (di_invite d) \<and> target_peer env s = Ok (di_target d) \<and>
   invitation_token env s = Ok (di_token d) \<and> verify_invite_owner env s i = Ok (Some (di_owner d))"
  by (simp add: parse_invite_def target_peer_def invitation_token_def verify_invite_owner_def)

lemma compact_sign_lossless:
  assumes "invite_laws env" and "mls_signs env crypto" and "\<not> is_compact raw"
    and "compact_sign env raw identity crypto = Ok (Some s)"
  shows "\<exists>invite target token. parse_invite env raw = Ok invite \<and> target_peer env raw = Ok target \<and>
    invitation_token env raw = Ok token \<and> is_compact s \<and>
    compact_decode env s = Ok \<lparr>di_invite = invite\<lparr>pi_peer_address := None\<rparr>, di_target = target, di_token = token,
     di_owner = \<lparr>vs_peer_id = node_id env identity, vs_mls_signer = signer_public crypto,
       vs_payload = utf8_bytes raw\<rparr>\<rparr>"
proof -
  from assms(4) obtain invite target token mesh session tok tgt where
      raw: "parse_invite env raw = Ok invite" "target_peer env raw = Ok target" "invitation_token env raw = Ok token"
    and canon: "canonical_invite env invite target token = Some raw"
    and mesh: "token_bytes env (pi_mesh_id invite) ''mesh-'' = Some mesh"
    and session: "token_bytes env (pi_session_id invite) ''session-'' = Some session"
    and own: "pi_peer_moss_id invite = Some (node_id env identity)" "pi_fingerprint invite = mls_fingerprint env crypto"
    and tok: "(case token of None \<Rightarrow> Some None | Some t \<Rightarrow> map_option Some (token_bytes env t ''invite-'')) = Some tok"
    and tgt: "(case target of None \<Rightarrow> Ok None
        | Some t \<Rightarrow> and_then (ok_or (hex_decode (osigs env) t) ''hex'') (\<lambda>b. Ok (Some b))) = Ok tgt"
    and fin: "finish_compact env identity crypto (pi_mesh_id invite)
        (compact_body env identity crypto mesh session tok tgt) = Ok s"
    by (auto simp: compact_sign_def and_then_Ok_iff split: if_splits option.splits)
  let ?i = "invite\<lparr>pi_peer_address := None\<rparr>"
  have m: "length mesh = 8" "pi_mesh_id invite = ''mesh-'' @ hex_encode (osigs env) mesh"
    and e: "length session = 8" "pi_session_id invite = ''session-'' @ hex_encode (osigs env) session"
    using token_bytes_SomeD [OF assms(1) mesh] token_bytes_SomeD [OF assms(1) session] by auto
  have tok': "token = map_option (\<lambda>b. ''invite-'' @ hex_encode (osigs env) b) tok" "pred_option (\<lambda>b. length b = 8) tok"
    using tok by (auto dest!: token_bytes_SomeD [OF assms(1)] split: option.splits)
  have tgt': "target = map_option (hex_encode (osigs env)) tgt" "pred_option (\<lambda>b. length b = 32) tgt"
    using tgt target_peer_bytes [OF assms(1,3)] raw(2) by (auto simp: and_then_Ok_iff split: option.splits)
  have canon': "canonical_invite env ?i target token = Some raw" using canon by (simp add: canonical_invite_def)
  have i: "?i = \<lparr>pi_mesh_id = ''mesh-'' @ hex_encode (osigs env) mesh,
        pi_session_id = ''session-'' @ hex_encode (osigs env) session, pi_peer_address = None,
        pi_fingerprint = mls_fingerprint env crypto, pi_peer_moss_id = Some (node_id env identity)\<rparr>"
    using m(2) e(2) own by simp
  have fin': "finish_compact env identity crypto (pi_mesh_id ?i)
      (compact_body env identity crypto mesh session tok tgt) = Ok s" using fin by simp
  note decoded = compact_decode_finish [OF assms(1,2) m(1) e(1) tok' tgt' i canon' fin']
  have "is_compact s"
    using fin assms(1) by (auto simp: finish_compact_def and_then_Ok_iff invite_laws_def intro: is_compact_encoded)
  with raw decoded show ?thesis by blast
qed

lemma compact_sign_parts:
  assumes "invite_laws env" and "mls_signs env crypto" and "\<not> is_compact raw"
    and "compact_sign env raw identity crypto = Ok (Some s)"
  shows "\<exists>invite target. parse_invite env raw = Ok invite \<and> target_peer env raw = Ok target \<and>
    parse_invite env s = Ok (invite\<lparr>pi_peer_address := None\<rparr>) \<and> target_peer env s = Ok target \<and>
    invitation_token env s = invitation_token env raw \<and>
    (\<forall>t. verify_offered_invite env s (node_id env identity) t = Ok () \<longleftrightarrow> target = Some t)"
  using compact_sign_lossless [OF assms] parse_compact [of env s] by (auto simp: verify_offered_invite_def)

text \<open>
  C36. The compact form of an invitation is lossless: whenever signing an invitation URL gives a compact
  invitation, that text parses to the mesh, session, fingerprint and inviting node of the URL, with
  the same target and admission token, and it verifies as an invitation of the signing node for
  exactly that target.
\<close>

theorem compact_invite_roundtrip:
  assumes "invite_laws env" and "mls_signs env crypto" and "\<not> is_compact raw"
    and "compact_sign env raw identity crypto = Ok (Some s)"
  shows "\<exists>invite target. parse_invite env raw = Ok invite \<and> target_peer env raw = Ok target \<and>
    parse_invite env s = Ok (invite\<lparr>pi_peer_address := None\<rparr>) \<and> target_peer env s = Ok target \<and>
    invitation_token env s = invitation_token env raw \<and>
    (\<forall>t. verify_offered_invite env s (node_id env identity) t = Ok () \<longleftrightarrow> target = Some t)"
  by (rule compact_sign_parts [OF assms])

text \<open>A concrete inviter: node and MLS key are zero bytes, the URL library knows one invitation.\<close>

definition demo_invite_text :: string where
  "demo_invite_text = build_invite_uri (''mesh-'' @ replicate 16 CHR ''0'') (''session-'' @ replicate 16 CHR ''0'')
     (replicate 32 CHR ''0'') (Some (replicate 64 CHR ''0''))"

definition demo_invite_env :: "(byte, unit, byte, string) invite_env" where
  "demo_invite_env =
     \<lparr>osigs = \<lparr>hex_decode = demo_of_hex, hex_encode = demo_to_hex, key_from_bytes = (\<lambda>b. Some (hd b)),
        key_bytes = replicate 32, key_is_weak = (\<lambda>_. False), sig_from_slice = (\<lambda>_. Some ()),
        sig_bytes = (\<lambda>_. replicate 64 0), verify_strict = (\<lambda>_ _ _. True), sha256 = (\<lambda>b. b)\<rparr>,
      osign = (\<lambda>_ _. ()), overifying = (\<lambda>k. k), seed_key = hd,
      ob64_encode = demo_to_hex, ob64_decode = (\<lambda>s. ok_or (demo_of_hex s) ''base64''),
      bound_to_json = (\<lambda>_. Err ''json''), bound_from_json = (\<lambda>_. Err ''json''),
      url_parse = Ok, url_scheme = (\<lambda>_. ''mosh''), url_host = (\<lambda>_. Some ''invite''),
      url_pairs = (\<lambda>_. [(''mesh'', ''mesh-'' @ replicate 16 CHR ''0''),
        (''session'', ''session-'' @ replicate 16 CHR ''0''), (''moss'', replicate 64 CHR ''0''),
        (''target'', replicate 64 CHR ''0'')]),
      url_fragment = (\<lambda>_. Some (''fp='' @ replicate 32 CHR ''0'')), url_clear_query = (\<lambda>u. u),
      url_extend_pairs = (\<lambda>u _. u), url_text = (\<lambda>u. u), hex_upper = (\<lambda>b. map ascii_upper (demo_to_hex b)),
      url64_encode = demo_to_hex, url64_decode = (\<lambda>s. ok_or (demo_of_hex s) ''base64''),
      sender_to_json = (\<lambda>_. Err ''json''), sender_from_json = (\<lambda>_. Err ''json'')\<rparr>"

definition demo_mls :: mls_signer where
  "demo_mls = \<lparr>signer_public = replicate 32 0, sign_sender_proof = (\<lambda>_. Ok (replicate 64 0))\<rparr>"

lemma demo_invite_laws: "invite_laws demo_invite_env"
proof -
  have "org_laws demo_invite_env"
    by (auto simp: org_laws_def demo_invite_env_def demo_of_to_hex)
  moreover have "\<not> starts_with ''?'' (demo_to_hex b)" for b
  proof (cases b)
    case (Cons x xs)
    have "unat x div 16 < 16" using unsigned_less [of x, where 'a = nat] by simp
    then have "demo_nibble (unat x div 16) \<noteq> CHR ''?''"
      using demo_unnibble_nibble by (fastforce simp: demo_unnibble_def)
    with Cons show ?thesis by (simp add: starts_with_def strip_prefix_def demo_to_hex_def)
  qed (simp add: starts_with_def strip_prefix_def demo_to_hex_def)
  ultimately show ?thesis
    by (auto simp: invite_laws_def demo_invite_env_def demo_of_to_hex dest: demo_to_of_hex)
qed

lemma demo_mls_signs: "mls_signs demo_invite_env demo_mls"
  by (simp add: mls_signs_def demo_mls_def verify_mls_half_def demo_invite_env_def)

lemma demo_hex_zero: "demo_to_hex (replicate n 0) = replicate (2 * n) CHR ''0''"
proof -
  have "char_of (48 :: nat) = CHR ''0''" by (simp add: char_of_eq_iff take_bit_eq_mod)
  then show ?thesis by (induction n) (simp_all add: demo_to_hex_def demo_nibble_def)
qed

lemma demo_upper_zero: "map ascii_upper (replicate n CHR ''0'') = replicate n CHR ''0''"
  by (simp add: ascii_upper_def)

lemma demo_lower_zero: "to_lowercase (replicate n CHR ''0'') = replicate n CHR ''0''"
  by (simp add: to_lowercase_def ascii_lower_def)

lemma demo_not_compact: "\<not> is_compact demo_invite_text"
  by (simp add: is_compact_def starts_with_def strip_prefix_def COMPACT_PREFIX_def demo_invite_text_def
      build_invite_uri_def INVITE_PREFIX_def)

lemma demo_hexdigits: "list_all is_ascii_hexdigit (replicate n CHR ''0'')"
  by (simp add: list_all_iff is_ascii_hexdigit_def is_ascii_digit_def)

lemma demo_target_token:
  "target_peer demo_invite_env demo_invite_text = Ok (Some (replicate 64 CHR ''0''))"
  "invitation_token demo_invite_env demo_invite_text = Ok None"
  using demo_not_compact demo_hexdigits [of 64] demo_lower_zero [of 64]
  by (simp_all add: target_peer_def invitation_token_def query_values_def demo_invite_env_def)

lemma demo_parse_invite:
  "parse_invite demo_invite_env demo_invite_text = Ok \<lparr>pi_mesh_id = ''mesh-'' @ replicate 16 CHR ''0'',
     pi_session_id = ''session-'' @ replicate 16 CHR ''0'', pi_peer_address = None,
     pi_fingerprint = replicate 32 CHR ''0'', pi_peer_moss_id = Some (replicate 64 CHR ''0'')\<rparr>"
proof -
  have fp: "parse_fingerprint (Some (''fp='' @ replicate 32 CHR ''0'')) = Ok (replicate 32 CHR ''0'')"
    using demo_hexdigits [of 32] demo_upper_zero [of 32]
    by (simp add: parse_fingerprint_def strip_prefix_def FINGERPRINT_HEX_LEN_def Let_def)
  have moss: "optional_query demo_invite_env u ''moss'' = Some (replicate 64 CHR ''0'')" for u
    by (simp add: optional_query_def demo_invite_env_def)
  show ?thesis
    using demo_not_compact fp moss demo_lower_zero [of 64] demo_hexdigits [of 64] demo_target_token
    by (simp add: parse_invite_def verify_invite_owner_def split_invite_def query_def optional_query_def Let_def demo_invite_env_def MOSS_PEER_ID_HEX_LEN_def)
qed

lemma demo_compact_sign: "\<exists>s. compact_sign demo_invite_env demo_invite_text 0 demo_mls = Ok (Some s)"
proof -
  let ?env = demo_invite_env and ?z = "\<lambda>n. replicate n CHR ''0''"
  have hex: "hex_decode (osigs ?env) (?z (2 * n)) = Some (replicate n 0)" for n
    using demo_of_to_hex [of "replicate n 0"] demo_hex_zero [of n] by (simp add: demo_invite_env_def)
  have hex: "hex_decode (osigs ?env) (?z 16) = Some (replicate 8 0)" "hex_decode (osigs ?env) (?z 64) = Some (replicate 32 0)"
    using hex [of 8] hex [of 32] by simp_all
  have token: "token_bytes ?env (pre @ ?z 16) pre = Some (replicate 8 0)" for pre
    using hex(1) by (simp add: token_bytes_def strip_prefix_def list_ex_iff is_ascii_uppercase_def)
  have own: "node_id ?env 0 = ?z 64" "mls_fingerprint ?env demo_mls = ?z 32"
    using demo_hex_zero [of 32] demo_hex_zero [of 16] demo_upper_zero [of 32]
    by (simp_all add: demo_invite_env_def mls_fingerprint_def demo_mls_def)
  have canon: "canonical_invite ?env \<lparr>pi_mesh_id = ''mesh-'' @ ?z 16, pi_session_id = ''session-'' @ ?z 16,
      pi_peer_address = None, pi_fingerprint = ?z 32, pi_peer_moss_id = Some (?z 64)\<rparr> (Some (?z 64)) None =
      Some demo_invite_text"
    by (simp add: canonical_invite_def demo_invite_text_def demo_invite_env_def)
  obtain s where s: "finish_compact ?env 0 demo_mls m b = Ok (s m b)" for m b
    by (simp add: finish_compact_def demo_mls_def)
  show ?thesis
    by (simp only: compact_sign_def demo_parse_invite demo_target_token canon token own s hex map_err_simps
        and_then.simps ok_or_simps parsed_invite.simps option.simps prod.simps if_False simp_thms) (rule exI, rule refl)
qed

theorem compact_invite_roundtrip_witness:
  "\<exists>s. compact_sign demo_invite_env demo_invite_text 0 demo_mls = Ok (Some s) \<and>
    parse_invite demo_invite_env s = parse_invite demo_invite_env demo_invite_text \<and>
    verify_offered_invite demo_invite_env s (replicate 64 CHR ''0'') (replicate 64 CHR ''0'') = Ok ()"
proof -
  let ?env = demo_invite_env
  obtain s where s: "compact_sign ?env demo_invite_text 0 demo_mls = Ok (Some s)"
    using demo_compact_sign ..
  have "node_id ?env 0 = replicate 64 CHR ''0''"
    using demo_hex_zero [of 32] by (simp add: demo_invite_env_def)
  with compact_invite_roundtrip [OF demo_invite_laws demo_mls_signs demo_not_compact s]
  have "parse_invite ?env s = parse_invite ?env demo_invite_text \<and>
      verify_offered_invite ?env s (replicate 64 CHR ''0'') (replicate 64 CHR ''0'') = Ok ()"
    by (auto simp: demo_parse_invite demo_target_token)
  with s show ?thesis by blast
qed

text \<open>
  An offered invitation that verifies belongs to the node that offers it: it names that node and
  the expected target, the node signed it for its mesh, and the same transcript is signed by the MLS
  key whose fingerprint the invitation carries.
\<close>

theorem offered_invite_owned:
  assumes "verify_offered_invite env raw peer target = Ok ()"
  shows "\<exists>invite ctx e signer sg. parse_invite env raw = Ok invite \<and> target_peer env raw = Ok (Some target) \<and>
    pi_peer_moss_id invite = Some peer \<and> oc_mesh_id ctx = pi_mesh_id invite \<and>
    verify_envelope env e ctx = Ok () \<and> peer \<in> {os_peer_id e, to_lowercase (os_peer_id e)} \<and>
    pi_fingerprint invite = hex_upper env (take 16 signer) \<and>
    verify_mls_half env signer sg (signing_input ctx (os_payload e)) = Ok ()"
proof -
  from assms obtain invite owner where
      1: "parse_invite env raw = Ok invite" "target_peer env raw = Ok (Some target)"
    and owner: "verify_invite_owner env raw invite = Ok (Some owner)" "vs_peer_id owner = peer"
    by (auto simp: verify_offered_invite_def and_then_Ok_iff split: if_splits)
  have "\<exists>ctx e signer sg. pi_peer_moss_id invite = Some peer \<and> oc_mesh_id ctx = pi_mesh_id invite \<and>
    verify_envelope env e ctx = Ok () \<and> peer \<in> {os_peer_id e, to_lowercase (os_peer_id e)} \<and>
    pi_fingerprint invite = hex_upper env (take 16 signer) \<and>
    verify_mls_half env signer sg (signing_input ctx (os_payload e)) = Ok ()"
  proof (cases "is_compact raw")
    case True
    with 1 owner obtain d where "compact_decode env raw = Ok d" "di_invite d = invite" "di_owner d = owner"
      by (auto simp: parse_invite_def verify_invite_owner_def and_then_Ok_iff)
    then obtain bs n where "compact_verify env bs n (pi_mesh_id invite) = Ok ()" and "invite = compact_fields env bs"
        and "peer = hex_encode (osigs env) (slice 18 50 bs)"
      using owner(2) by (auto simp: compact_decode_def and_then_Ok_iff Let_def split: if_splits)
    moreover have "slice 50 66 bs = take 16 (slice 50 82 bs)" by (simp add: slice_def min_def)
    ultimately show ?thesis
      by (intro exI [of _ "compact_context (pi_mesh_id invite)"] exI [of _ "slice 50 82 bs"]
          exI [of _ "drop (n + 64) bs"] exI [of _ "\<lparr>os_payload = take n bs,
            os_peer_id = hex_encode (osigs env) (slice 18 50 bs), os_sig = slice n (n + 64) bs\<rparr>"])
        (simp add: compact_verify_def and_then_Ok_iff compact_fields_def compact_context_def)
  next
    case False
    with owner obtain p where "verify_sender_proof env p (owner_context invite) = Ok owner"
        and "pi_peer_moss_id invite = Some (vs_peer_id owner)"
        and "hex_upper env (take 16 (vs_mls_signer owner)) = pi_fingerprint invite"
      by (auto simp: verify_invite_owner_def and_then_Ok_iff split: if_splits option.splits)
    with owner(2) show ?thesis
      by (intro exI [of _ "owner_context invite"] exI [of _ "sp_identity p"] exI [of _ "vs_mls_signer owner"]
          exI [of _ "sp_mls_signature p"])
        (auto simp: verify_sender_proof_def and_then_Ok_iff owner_context_def split: if_splits)
  qed
  with 1 show ?thesis by blast
qed

lemma demo_offered:
  "\<exists>s. verify_offered_invite demo_invite_env s (replicate 64 CHR ''0'') (replicate 64 CHR ''0'') = Ok ()"
proof -
  obtain s where s: "compact_sign demo_invite_env demo_invite_text 0 demo_mls = Ok (Some s)"
    using demo_compact_sign ..
  have "node_id demo_invite_env 0 = replicate 64 CHR ''0''"
    using demo_hex_zero [of 32] by (simp add: demo_invite_env_def)
  with compact_sign_parts [OF demo_invite_laws demo_mls_signs demo_not_compact s] show ?thesis
    by (auto simp: demo_target_token)
qed

theorem offered_invite_owned_witness:
  "\<exists>s e ctx. verify_offered_invite demo_invite_env s (replicate 64 CHR ''0'') (replicate 64 CHR ''0'') = Ok () \<and>
     verify_envelope demo_invite_env e ctx = Ok () \<and>
     replicate 64 CHR ''0'' \<in> {os_peer_id e, to_lowercase (os_peer_id e)}"
proof -
  obtain s where "verify_offered_invite demo_invite_env s (replicate 64 CHR ''0'') (replicate 64 CHR ''0'') = Ok ()"
    using demo_offered ..
  with offered_invite_owned [OF this] show ?thesis by blast
qed

end
