(* ===== verification/Org_Session.thy ===== *)
theory Org_Session
  imports Org_Roster Invite
begin

text \<open>
  A member's side of an organisation (\<open>org_runtime.rs\<close> and \<open>org_runtime/\<close>): the verified roster,
  offers of conversations from other members, links to conversations, accepted offers that wait for
  their conversation to be durable, and the durable record with its reconciliation
  (\<open>persistence/org_acceptances.rs\<close>, the organisation rows of \<open>persistence/records.rs\<close>).

  A row of the durable tables is a value or the error its decryption or decoding gives; a failing
  transaction (\<open>od_fault\<close>) changes nothing. Frames handed to the transport are the output of an
  operation. The transport, JSON and the URL library are parameters. The map of joined organisations
  is a list in the order the code would iterate over it. The operations on offers are those of one
  session; in the code the runtime finds the session first and, before it reads offers or targets,
  drains the inbound frames (\<open>org_drain_inbound\<close>).
\<close>

section \<open>Data\<close>

record org_dm_offer =
  do_offer_id :: string
  do_from_peer_id :: string
  do_from_name :: string
  do_invite_uri :: string

record org_group_offer =
  go_offer_id :: string
  go_from_peer_id :: string
  go_from_name :: string
  go_group_label :: "string option"
  go_group_invite_uri :: string

record org_dm_link =
  dl_peer_id :: string
  dl_session_id :: "string option"

record pending_join_recovery =
  pj_provider_snapshot :: bytes
  pj_participant_id :: string
  pj_mls_group_id :: bytes
  pj_key_package :: "bytes option"

datatype pending_acceptance =
    PendingDm string bytes org_dm_offer "pending_join_recovery option"
  | PendingGroup string bytes org_group_offer "pending_join_recovery option"

fun acceptance_conversation_id :: "pending_acceptance \<Rightarrow> string" where
  "acceptance_conversation_id (PendingDm c _ _ _) = c"
| "acceptance_conversation_id (PendingGroup c _ _ _) = c"

fun acceptance_signer_public :: "pending_acceptance \<Rightarrow> bytes" where
  "acceptance_signer_public (PendingDm _ s _ _) = s"
| "acceptance_signer_public (PendingGroup _ s _ _) = s"

fun acceptance_recovery :: "pending_acceptance \<Rightarrow> pending_join_recovery option" where
  "acceptance_recovery (PendingDm _ _ _ r) = r"
| "acceptance_recovery (PendingGroup _ _ _ r) = r"

record persisted_org_record =
  po_org_pubkey :: string
  po_org_name :: string
  po_mesh_id :: string
  po_display_name :: string
  po_listen_port :: "16 word"
  po_static_peer :: "string option"
  po_dm_links :: "org_dm_link list"
  po_resolved_offer_ids :: "string set"
  po_pending_acceptances :: "(string, pending_acceptance) btree_map"

record 'sk org_session =
  og_org_pubkey :: string
  og_org_name :: string
  og_mesh_id :: string
  og_display_name :: string
  og_listen_port :: "16 word"
  og_static_peer :: "string option"
  og_control_channel :: string
  og_signer :: 'sk
  og_own_peer_id :: string
  og_roster :: "org_roster option"
  og_roster_bytes :: "bytes option"
  og_dm_offers :: "org_dm_offer list"
  og_group_offers :: "org_group_offer list"
  og_dm_links :: "org_dm_link list"
  og_seen_offer_ids :: "string set"
  og_resolved_offer_ids :: "string set"
  og_pending_acceptances :: "(string, pending_acceptance) btree_map"

datatype org_error =
    InvalidBundle string
  | DuplicateOrg string
  | NotJoined string
  | IdentityUnavailable
  | MossError string
  | OrgPersistence string
  | OrgCodec string

datatype org_wire = WireRoster string | WireSigned string string string

datatype org_message =
    Hello string string
  | DmOffer string string string string
  | GroupOffer string string string "string option" string

text \<open>The native conversations an acceptance can become durable in.\<close>

record dm_native =
  dn_session_id :: string
  dn_signer_public :: bytes
  dn_group_id :: bytes

record group_native =
  gn_group_id :: string
  gn_signer_public :: bytes
  gn_mls_group_id :: bytes
  gn_joined :: bool

text \<open>A row that cannot be read: its encryption is broken, or its content does not decode.\<close>

datatype row_error = Undecryptable string | Undecodable string

fun row_error_text :: "row_error \<Rightarrow> string" where
  "row_error_text (Undecryptable e) = e"
| "row_error_text (Undecodable e) = e"

type_synonym 'a row_table = "(string, (row_error, 'a) result) btree_map"

record org_store =
  os_records :: "persisted_org_record row_table"
  os_rosters :: "bytes row_table"
  os_sessions :: "dm_native row_table"
  os_groups :: "group_native row_table"
  os_dm_snapshots :: "bytes row_table"
  os_group_snapshots :: "bytes row_table"

record ('vk, 'sg, 'sk, 'u) org_session_env = "('vk, 'sg, 'sk, 'u) invite_env" +
  od_docs :: "('vk, 'sg, 'sk) org_doc_env"
  od_wire_from :: "bytes \<Rightarrow> (string, org_wire) result"
  od_wire_to :: "org_wire \<Rightarrow> (string, bytes) result"
  od_message_from :: "bytes \<Rightarrow> (string, org_message) result"
  od_message_to :: "org_message \<Rightarrow> (string, bytes) result"
  od_publish :: "string \<Rightarrow> string \<Rightarrow> bytes \<Rightarrow> (string, unit) result"
  od_open_room :: "string \<Rightarrow> 16 word \<Rightarrow> string option \<Rightarrow> (string, unit) result"
  od_identity :: "(string, bytes option) result"
  od_fault :: "string option"

definition ORG_CONTROL_PREFIX :: string where
  "ORG_CONTROL_PREFIX = ''org-control/''"

definition ORG_CHANNEL_KIND :: string where
  "ORG_CHANNEL_KIND = ''org-control''"

definition ORG_BUNDLE_PREFIX :: string where
  "ORG_BUNDLE_PREFIX = ''mosh://org''"

section \<open>The durable record\<close>

definition read_row :: "'a row_table \<Rightarrow> string \<Rightarrow> (string, 'a option) result" where
  "read_row t k = (case bt_get t k of None \<Rightarrow> Ok None | Some (Inl e) \<Rightarrow> Err (row_error_text e) | Some (Inr x) \<Rightarrow> Ok (Some x))"

definition native_acceptance_is_durable :: "org_store \<Rightarrow> pending_acceptance \<Rightarrow> (string, bool) result" where
  "native_acceptance_is_durable store p =
     (case p of
        PendingDm i signer _ _ \<Rightarrow>
          and_then (read_row (os_sessions store) i) (\<lambda>row.
            (case row of
               None \<Rightarrow> Ok False
             | Some st \<Rightarrow>
                 if \<not> (dn_session_id st = i \<and> dn_signer_public st = signer \<and> dn_group_id st \<noteq> []) then Ok False
                 else and_then (read_row (os_dm_snapshots store) i) (\<lambda>snap.
                        Ok (case snap of None \<Rightarrow> False | Some b \<Rightarrow> b \<noteq> []))))
      | PendingGroup i signer _ _ \<Rightarrow>
          and_then (read_row (os_groups store) i) (\<lambda>row.
            (case row of
               None \<Rightarrow> Ok False
             | Some st \<Rightarrow>
                 if \<not> (gn_group_id st = i \<and> gn_signer_public st = signer \<and> gn_joined st \<and> gn_mls_group_id st \<noteq> [])
                 then Ok False
                 else and_then (read_row (os_group_snapshots store) i) (\<lambda>snap.
                        Ok (case snap of None \<Rightarrow> False | Some b \<Rightarrow> b \<noteq> [])))))"

datatype native_table = SessionsTable | GroupsTable

definition matches_native :: "pending_acceptance \<Rightarrow> native_table \<times> string \<Rightarrow> bool" where
  "matches_native p native \<longleftrightarrow>
     (case p of PendingDm _ _ _ _ \<Rightarrow> fst native = SessionsTable | PendingGroup _ _ _ _ \<Rightarrow> fst native = GroupsTable) \<and>
     acceptance_conversation_id p = snd native"

fun completed_acceptances ::
    "org_store \<Rightarrow> (native_table \<times> string) option \<Rightarrow> (string, pending_acceptance) btree_map \<Rightarrow>
     (string, string list) result" where
  "completed_acceptances store native [] = Ok []"
| "completed_acceptances store native ((i, p) # ps) =
     (if (case native of None \<Rightarrow> False | Some n \<Rightarrow> \<not> matches_native p n)
      then completed_acceptances store native ps
      else
        and_then (native_acceptance_is_durable store p) (\<lambda>durable.
        and_then (completed_acceptances store native ps) (\<lambda>rest. Ok (if durable then i # rest else rest))))"

definition resolve_completed :: "string list \<Rightarrow> persisted_org_record \<Rightarrow> persisted_org_record" where
  "resolve_completed ids r =
     r\<lparr>po_pending_acceptances := fold bt_remove ids (po_pending_acceptances r),
       po_resolved_offer_ids := po_resolved_offer_ids r \<union> set ids\<rparr>"

definition retire_completed_acceptances ::
    "org_store \<Rightarrow> (native_table \<times> string) option \<Rightarrow> persisted_org_record \<Rightarrow>
     (string, bool \<times> persisted_org_record) result" where
  "retire_completed_acceptances store native r =
     and_then (completed_acceptances store native (po_pending_acceptances r)) (\<lambda>ids.
       Ok (ids \<noteq> [], resolve_completed ids r))"

definition merge_stored :: "persisted_org_record \<Rightarrow> persisted_org_record \<Rightarrow> persisted_org_record" where
  "merge_stored stored candidate =
     candidate\<lparr>po_resolved_offer_ids := po_resolved_offer_ids candidate \<union> po_resolved_offer_ids stored,
       po_pending_acceptances := fold (\<lambda>(i, p) m. if bt_contains m i then m else bt_insert i p m)
         (po_pending_acceptances stored) (po_pending_acceptances candidate)\<rparr>"

definition drop_resolved :: "persisted_org_record \<Rightarrow> persisted_org_record" where
  "drop_resolved r =
     r\<lparr>po_pending_acceptances := bt_retain (\<lambda>i _. i \<notin> po_resolved_offer_ids r) (po_pending_acceptances r)\<rparr>"

definition save_org_record :: "string \<Rightarrow> persisted_org_record \<Rightarrow> org_store \<Rightarrow> org_store" where
  "save_org_record org r store = store\<lparr>os_records := bt_insert org (Ok r) (os_records store)\<rparr>"

definition write_org_record ::
    "string \<Rightarrow> persisted_org_record \<Rightarrow> org_store \<Rightarrow> (string, org_store \<times> persisted_org_record) result" where
  "write_org_record org candidate store =
     and_then (read_row (os_records store) org) (\<lambda>stored.
       (let merged = (case stored of None \<Rightarrow> candidate | Some s \<Rightarrow> merge_stored s candidate)
        in and_then (retire_completed_acceptances store None (drop_resolved merged)) (\<lambda>(_, r).
             Ok (save_org_record org r store, r))))"

text \<open>A transaction is committed or leaves the store as it was.\<close>

definition put_reconciled_org_record ::
    "('vk, 'sg, 'sk, 'u, 'z) org_session_env_scheme \<Rightarrow> persisted_org_record \<Rightarrow> org_store \<Rightarrow>
     org_store \<times> (string, persisted_org_record) result" where
  "put_reconciled_org_record env record store =
     (case and_then (write_org_record (po_org_pubkey record) record store) (\<lambda>x.
             case od_fault env of Some e \<Rightarrow> Err e | None \<Rightarrow> Ok x) of
        Inl e \<Rightarrow> (store, Err e)
      | Inr (store1, r) \<Rightarrow> (store1, Ok r))"

text \<open>Called inside the transaction that makes a native conversation durable.\<close>

fun retire_rows ::
    "native_table \<times> string \<Rightarrow> persisted_org_record row_table \<Rightarrow> org_store \<Rightarrow> (string, org_store) result" where
  "retire_rows native [] store = Ok store"
| "retire_rows native ((org, Inl _) # rows) store = retire_rows native rows store"
| "retire_rows native ((org, Inr r) # rows) store =
     and_then (retire_completed_acceptances store (Some native) r) (\<lambda>(changed, r1).
       retire_rows native rows (if changed then save_org_record org r1 store else store))"

definition retire_accepted_offers :: "native_table \<times> string \<Rightarrow> org_store \<Rightarrow> (string, org_store) result" where
  "retire_accepted_offers native store = retire_rows native (os_records store) store"

definition put_org_roster ::
    "('vk, 'sg, 'sk, 'u, 'z) org_session_env_scheme \<Rightarrow> string \<Rightarrow> bytes \<Rightarrow> org_store \<Rightarrow> org_store" where
  "put_org_roster env org bs store =
     (case od_fault env of Some _ \<Rightarrow> store | None \<Rightarrow> store\<lparr>os_rosters := bt_insert org (Ok bs) (os_rosters store)\<rparr>)"

definition delete_org ::
    "('vk, 'sg, 'sk, 'u, 'z) org_session_env_scheme \<Rightarrow> string \<Rightarrow> org_store \<Rightarrow> org_store \<times> (string, unit) result" where
  "delete_org env org store =
     (case od_fault env of
        Some e \<Rightarrow> (store, Err e)
      | None \<Rightarrow> (store\<lparr>os_records := bt_remove org (os_records store),
                        os_rosters := bt_remove org (os_rosters store)\<rparr>, Ok ()))"

definition persist_org_record ::
    "('vk, 'sg, 'sk, 'u, 'z) org_session_env_scheme \<Rightarrow> persisted_org_record \<Rightarrow> org_store option \<Rightarrow>
     org_store option \<times> (org_error, persisted_org_record) result" where
  "persist_org_record env record store =
     (case store of
        None \<Rightarrow> (None, Ok record)
      | Some st \<Rightarrow>
          (let (st1, out) = put_reconciled_org_record env record st in (Some st1, map_err OrgPersistence out)))"

section \<open>One organisation\<close>

definition to_record :: "'sk org_session \<Rightarrow> persisted_org_record" where
  "to_record s =
     \<lparr>po_org_pubkey = og_org_pubkey s, po_org_name = og_org_name s, po_mesh_id = og_mesh_id s,
      po_display_name = og_display_name s, po_listen_port = og_listen_port s, po_static_peer = og_static_peer s,
      po_dm_links = og_dm_links s, po_resolved_offer_ids = og_resolved_offer_ids s,
      po_pending_acceptances = og_pending_acceptances s\<rparr>"

definition sender_in_roster :: "'sk org_session \<Rightarrow> string \<Rightarrow> bool" where
  "sender_in_roster s peer \<longleftrightarrow>
     (case og_roster s of None \<Rightarrow> False | Some r \<Rightarrow> list_ex (\<lambda>m. rm_moss_peer_id m = peer) (or_members r))"

definition in_roster :: "'sk org_session \<Rightarrow> bool" where
  "in_roster s = sender_in_roster s (og_own_peer_id s)"

definition org_ctx :: "'sk org_session \<Rightarrow> org_context" where
  "org_ctx s = \<lparr>oc_org_pubkey = og_org_pubkey s, oc_mesh_id = og_mesh_id s, oc_channel_kind = ORG_CHANNEL_KIND\<rparr>"

definition publish_signed ::
    "('vk, 'sg, 'sk, 'u, 'z) org_session_env_scheme \<Rightarrow> 'sk org_session \<Rightarrow> org_message \<Rightarrow> (org_error, bytes) result" where
  "publish_signed env s msg =
     and_then (map_err OrgCodec (od_message_to env msg)) (\<lambda>payload.
       (let e = sign_envelope env (og_signer s) (org_ctx s) payload
        in and_then (map_err OrgCodec (od_wire_to env
              (WireSigned (ob64_encode env (os_payload e)) (os_peer_id e) (ob64_encode env (os_sig e))))) (\<lambda>bs.
           and_then (map_err MossError (od_publish env (og_mesh_id s) (og_control_channel s) bs)) (\<lambda>_. Ok bs))))"

definition publish_hello ::
    "('vk, 'sg, 'sk, 'u, 'z) org_session_env_scheme \<Rightarrow> 'sk org_session \<Rightarrow> bytes list" where
  "publish_hello env s =
     (case publish_signed env s (Hello (og_own_peer_id s) (og_display_name s)) of Inl _ \<Rightarrow> [] | Inr bs \<Rightarrow> [bs])"

definition publish_roster ::
    "('vk, 'sg, 'sk, 'u, 'z) org_session_env_scheme \<Rightarrow> 'sk org_session \<Rightarrow> bytes list" where
  "publish_roster env s =
     (case og_roster_bytes s of
        None \<Rightarrow> []
      | Some b \<Rightarrow>
          (case od_wire_to env (WireRoster (ob64_encode env b)) of
             Inl _ \<Rightarrow> []
           | Inr bs \<Rightarrow> (case od_publish env (og_mesh_id s) (og_control_channel s) bs of Inl _ \<Rightarrow> [] | Inr _ \<Rightarrow> [bs])))"

definition accept_offer :: "string \<Rightarrow> string \<Rightarrow> string \<Rightarrow> 'sk org_session \<Rightarrow> 'sk org_session \<times> bool" where
  "accept_offer sender target i s =
     (if target \<noteq> og_own_peer_id s then (s, False)
      else if \<not> sender_in_roster s sender then (s, False)
      else if i \<in> og_resolved_offer_ids s then (s, False)
      else (s\<lparr>og_seen_offer_ids := insert i (og_seen_offer_ids s)\<rparr>, i \<notin> og_seen_offer_ids s))"

definition receive_dm_offer ::
    "('vk, 'sg, 'sk, 'u, 'z) org_session_env_scheme \<Rightarrow> string \<Rightarrow> string \<Rightarrow> string \<Rightarrow> string \<Rightarrow> string \<Rightarrow>
     'sk org_session \<Rightarrow> 'sk org_session" where
  "receive_dm_offer env sender target i name uri s =
     (if \<not> is_ok (verify_offered_invite env uri sender target) then s
      else
        (let (s1, fresh) = accept_offer sender target i s
         in if \<not> fresh then s1
            else s1\<lparr>og_dm_offers := og_dm_offers s1 @
              [\<lparr>do_offer_id = i, do_from_peer_id = sender, do_from_name = name, do_invite_uri = uri\<rparr>]\<rparr>))"

definition org_handle_message ::
    "('vk, 'sg, 'sk, 'u, 'z) org_session_env_scheme \<Rightarrow> string \<Rightarrow> org_message \<Rightarrow> 'sk org_session \<Rightarrow>
     'sk org_session \<times> bytes list" where
  "org_handle_message env sender msg s =
     (case msg of
        Hello _ _ \<Rightarrow> (s, if sender \<noteq> og_own_peer_id s then publish_roster env s else [])
      | DmOffer i target name uri \<Rightarrow> (receive_dm_offer env sender target i name uri s, [])
      | GroupOffer i target name label uri \<Rightarrow>
          (let (s1, fresh) = accept_offer sender target i s
           in if \<not> fresh then (s1, [])
              else (s1\<lparr>og_group_offers := og_group_offers s1 @
                [\<lparr>go_offer_id = i, go_from_peer_id = sender, go_from_name = name, go_group_label = label,
                  go_group_invite_uri = uri\<rparr>]\<rparr>, [])))"

definition absorb_roster_bytes ::
    "('vk, 'sg, 'sk, 'u, 'z) org_session_env_scheme \<Rightarrow> bytes \<Rightarrow> 'sk org_session \<times> org_store option \<Rightarrow>
     ('sk org_session \<times> org_store option) \<times> bytes list" where
  "absorb_roster_bytes env bs = (\<lambda>(s, store).
     (case verify_org_roster (od_docs env) bs (og_org_pubkey s) (map_option or_version (og_roster s)) of
        Inr r \<Rightarrow>
          ((s\<lparr>og_roster := Some r, og_roster_bytes := Some bs\<rparr>,
            map_option (put_org_roster env (og_org_pubkey s) bs) store), [])
      | Inl (Rollback stored received) \<Rightarrow>
          ((s, store), if received < stored then publish_roster env s else [])
      | Inl _ \<Rightarrow> ((s, store), [])))"

definition ingest_payload ::
    "('vk, 'sg, 'sk, 'u, 'z) org_session_env_scheme \<Rightarrow> bytes \<Rightarrow> 'sk org_session \<times> org_store option \<Rightarrow>
     ('sk org_session \<times> org_store option) \<times> bytes list" where
  "ingest_payload env payload = (\<lambda>(s, store).
     (case od_wire_from env payload of
        Inl _ \<Rightarrow> ((s, store), [])
      | Inr (WireRoster roster_b64) \<Rightarrow>
          (case ob64_decode env roster_b64 of
             Inl _ \<Rightarrow> ((s, store), [])
           | Inr bs \<Rightarrow> absorb_roster_bytes env bs (s, store))
      | Inr (WireSigned payload_b64 peer sig_b64) \<Rightarrow>
          (case (ob64_decode env payload_b64, ob64_decode env sig_b64) of
             (Inr inner, Inr sg) \<Rightarrow>
               (let e = \<lparr>os_payload = inner, os_peer_id = peer, os_sig = sg\<rparr>
                in if \<not> is_ok (verify_envelope env e (org_ctx s)) then ((s, store), [])
                   else
                     (case od_message_from env inner of
                        Inl _ \<Rightarrow> ((s, store), [])
                      | Inr msg \<Rightarrow>
                          (let (s1, sent) = org_handle_message env peer msg s in ((s1, store), sent))))
           | _ \<Rightarrow> ((s, store), []))))"

section \<open>Accepted offers\<close>

definition prune_resolved_acceptances :: "'sk org_session \<Rightarrow> 'sk org_session" where
  "prune_resolved_acceptances s =
     s\<lparr>og_pending_acceptances := bt_retain (\<lambda>i _. i \<notin> og_resolved_offer_ids s) (og_pending_acceptances s),
       og_dm_offers := filter (\<lambda>x. do_offer_id x \<notin> og_resolved_offer_ids s) (og_dm_offers s),
       og_group_offers := filter (\<lambda>x. go_offer_id x \<notin> og_resolved_offer_ids s) (og_group_offers s)\<rparr>"

definition restore_one :: "string \<times> pending_acceptance \<Rightarrow> 'sk org_session \<Rightarrow> 'sk org_session" where
  "restore_one = (\<lambda>(i, p) s.
     if i \<in> og_resolved_offer_ids s then s
     else
       (let s1 = s\<lparr>og_seen_offer_ids := insert i (og_seen_offer_ids s)\<rparr>
        in case p of
             PendingDm _ _ x _ \<Rightarrow> s1\<lparr>og_dm_offers := og_dm_offers s1 @ [x]\<rparr>
           | PendingGroup _ _ x _ \<Rightarrow> s1\<lparr>og_group_offers := og_group_offers s1 @ [x]\<rparr>))"

definition restore_pending_offers :: "'sk org_session \<Rightarrow> 'sk org_session" where
  "restore_pending_offers s = fold restore_one (og_pending_acceptances s) s"

definition reexpose_acceptance :: "string \<Rightarrow> 'sk org_session \<Rightarrow> 'sk org_session" where
  "reexpose_acceptance i s =
     (if i \<in> og_resolved_offer_ids s then s
      else
        (case bt_get (og_pending_acceptances s) i of
           Some (PendingDm _ _ x _) \<Rightarrow>
             if list_ex (\<lambda>y. do_offer_id y = i) (og_dm_offers s) then s
             else s\<lparr>og_dm_offers := og_dm_offers s @ [x]\<rparr>
         | Some (PendingGroup _ _ x _) \<Rightarrow>
             if list_ex (\<lambda>y. go_offer_id y = i) (og_group_offers s) then s
             else s\<lparr>og_group_offers := og_group_offers s @ [x]\<rparr>
         | None \<Rightarrow> s))"

definition offer_recovery :: "string \<Rightarrow> 'sk org_session \<Rightarrow> (bytes \<times> pending_join_recovery) option" where
  "offer_recovery i s =
     Option.bind (bt_get (og_pending_acceptances s) i) (\<lambda>p.
       map_option (\<lambda>r. (acceptance_signer_public p, r)) (acceptance_recovery p))"

definition upsert_link :: "string \<Rightarrow> string option \<Rightarrow> org_dm_link list \<Rightarrow> org_dm_link list" where
  "upsert_link peer session links =
     (if list_ex (\<lambda>l. dl_peer_id l = peer) links
      then update_first (\<lambda>l. dl_peer_id l = peer)
             (\<lambda>l. if session \<noteq> None then l\<lparr>dl_session_id := session\<rparr> else l) links
      else links @ [\<lparr>dl_peer_id = peer, dl_session_id = session\<rparr>])"

definition commit_offer ::
    "('vk, 'sg, 'sk, 'u, 'z) org_session_env_scheme \<Rightarrow> string \<Rightarrow> (string \<times> string option) option \<Rightarrow>
     pending_acceptance option \<Rightarrow> 'sk org_session \<times> org_store option \<Rightarrow>
     ('sk org_session \<times> org_store option) \<times> (org_error, unit) result" where
  "commit_offer env i link acceptance = (\<lambda>(s, store).
     (let r0 = to_record s;
          r1 = (case link of None \<Rightarrow> r0
                | Some (peer, session) \<Rightarrow> r0\<lparr>po_dm_links := upsert_link peer session (po_dm_links r0)\<rparr>);
          r2 = (case acceptance of
                  Some p \<Rightarrow> r1\<lparr>po_pending_acceptances := bt_insert i p (po_pending_acceptances r1)\<rparr>
                | None \<Rightarrow> r1\<lparr>po_pending_acceptances := bt_remove i (po_pending_acceptances r1),
                             po_resolved_offer_ids := insert i (po_resolved_offer_ids r1)\<rparr>);
          (store1, out) = persist_org_record env r2 store
      in case out of
           Inl e \<Rightarrow> ((s, store1), Err e)
         | Inr r \<Rightarrow>
             (let s1 = prune_resolved_acceptances (s\<lparr>og_dm_links := po_dm_links r,
                    og_resolved_offer_ids := po_resolved_offer_ids r,
                    og_pending_acceptances := po_pending_acceptances r\<rparr>)
              in ((s1\<lparr>og_dm_offers := filter (\<lambda>x. do_offer_id x \<noteq> i) (og_dm_offers s1),
                     og_group_offers := filter (\<lambda>x. go_offer_id x \<noteq> i) (og_group_offers s1)\<rparr>, store1), Ok ()))))"

definition peek_dm_offer ::
    "('vk, 'sg, 'sk, 'u, 'z) org_session_env_scheme \<Rightarrow> string \<Rightarrow> 'sk org_session \<Rightarrow> (org_error, org_dm_offer) result" where
  "peek_dm_offer env i s =
     and_then (ok_or (find (\<lambda>x. do_offer_id x = i) (og_dm_offers s)) (OrgCodec (''unknown dm offer '' @ i))) (\<lambda>x.
       if \<not> in_roster s \<or> \<not> sender_in_roster s (do_from_peer_id x)
       then Err (OrgCodec ''DM offer requires current roster members'')
       else and_then (map_err OrgCodec (verify_offered_invite env (do_invite_uri x) (do_from_peer_id x) (og_own_peer_id s)))
              (\<lambda>_. Ok x))"

definition peek_group_offer :: "string \<Rightarrow> 'sk org_session \<Rightarrow> (org_error, org_group_offer) result" where
  "peek_group_offer i s =
     ok_or (find (\<lambda>x. go_offer_id x = i) (og_group_offers s)) (OrgCodec (''unknown group offer '' @ i))"

definition accept_dm_offer ::
    "('vk, 'sg, 'sk, 'u, 'z) org_session_env_scheme \<Rightarrow> string \<Rightarrow> 'sk org_session \<times> org_store option \<Rightarrow>
     ('sk org_session \<times> org_store option) \<times> (org_error, org_dm_offer) result" where
  "accept_dm_offer env i = (\<lambda>(s, store).
     (case peek_dm_offer env i s of
        Inl e \<Rightarrow> ((s, store), Err e)
      | Inr x \<Rightarrow>
          (let (st, out) = commit_offer env i (Some (do_from_peer_id x, None)) None (s, store)
           in (st, and_then out (\<lambda>_. Ok x)))))"

definition accept_group_offer ::
    "('vk, 'sg, 'sk, 'u, 'z) org_session_env_scheme \<Rightarrow> string \<Rightarrow> 'sk org_session \<times> org_store option \<Rightarrow>
     ('sk org_session \<times> org_store option) \<times> (org_error, org_group_offer) result" where
  "accept_group_offer env i = (\<lambda>(s, store).
     (case peek_group_offer i s of
        Inl e \<Rightarrow> ((s, store), Err e)
      | Inr x \<Rightarrow>
          (let (st, out) = commit_offer env i None None (s, store) in (st, and_then out (\<lambda>_. Ok x)))))"

definition dismiss_dm_offer ::
    "('vk, 'sg, 'sk, 'u, 'z) org_session_env_scheme \<Rightarrow> string \<Rightarrow> 'sk org_session \<times> org_store option \<Rightarrow>
     ('sk org_session \<times> org_store option) \<times> (org_error, unit) result" where
  "dismiss_dm_offer env i = (\<lambda>(s, store).
     if \<not> list_ex (\<lambda>x. do_offer_id x = i) (og_dm_offers s) then ((s, store), Ok ())
     else commit_offer env i None None (s, store))"

definition dismiss_group_offer ::
    "('vk, 'sg, 'sk, 'u, 'z) org_session_env_scheme \<Rightarrow> string \<Rightarrow> 'sk org_session \<times> org_store option \<Rightarrow>
     ('sk org_session \<times> org_store option) \<times> (org_error, unit) result" where
  "dismiss_group_offer env i = (\<lambda>(s, store).
     if \<not> list_ex (\<lambda>x. go_offer_id x = i) (og_group_offers s) then ((s, store), Ok ())
     else commit_offer env i None None (s, store))"

definition complete_dm_offer ::
    "('vk, 'sg, 'sk, 'u, 'z) org_session_env_scheme \<Rightarrow> string \<Rightarrow> string \<Rightarrow> bytes \<Rightarrow> pending_join_recovery \<Rightarrow>
     'sk org_session \<times> org_store option \<Rightarrow> ('sk org_session \<times> org_store option) \<times> (org_error, unit) result" where
  "complete_dm_offer env i session signer recovery = (\<lambda>(s, store).
     (case peek_dm_offer env i s of
        Inl e \<Rightarrow> ((s, store), Err e)
      | Inr x \<Rightarrow> commit_offer env i (Some (do_from_peer_id x, Some session))
                   (Some (PendingDm session signer x (Some recovery))) (s, store)))"

definition complete_group_offer ::
    "('vk, 'sg, 'sk, 'u, 'z) org_session_env_scheme \<Rightarrow> string \<Rightarrow> string \<Rightarrow> bytes \<Rightarrow> pending_join_recovery \<Rightarrow>
     'sk org_session \<times> org_store option \<Rightarrow> ('sk org_session \<times> org_store option) \<times> (org_error, unit) result" where
  "complete_group_offer env i gid signer recovery = (\<lambda>(s, store).
     (case peek_group_offer i s of
        Inl e \<Rightarrow> ((s, store), Err e)
      | Inr x \<Rightarrow> commit_offer env i None (Some (PendingGroup gid signer x (Some recovery))) (s, store)))"

section \<open>Offers to other members\<close>

definition persist_record ::
    "('vk, 'sg, 'sk, 'u, 'z) org_session_env_scheme \<Rightarrow> persisted_org_record \<Rightarrow> 'sk org_session \<times> org_store option \<Rightarrow>
     ('sk org_session \<times> org_store option) \<times> (org_error, persisted_org_record) result" where
  "persist_record env r = (\<lambda>(s, store).
     (let (store1, out) = persist_org_record env r store
      in case out of
           Inl e \<Rightarrow> ((s, store1), Err e)
         | Inr r1 \<Rightarrow>
             ((prune_resolved_acceptances
                (s\<lparr>og_resolved_offer_ids := og_resolved_offer_ids s \<union> po_resolved_offer_ids r1\<rparr>), store1), Ok r1)))"

definition send_dm_offer ::
    "('vk, 'sg, 'sk, 'u, 'z) org_session_env_scheme \<Rightarrow> string \<Rightarrow> string \<Rightarrow> (org_error, string) result \<Rightarrow>
     'sk org_session \<times> org_store option \<Rightarrow>
     ('sk org_session \<times> org_store option) \<times> (org_error, bytes) result" where
  "send_dm_offer env target uri random_id = (\<lambda>(s, store).
     if \<not> in_roster s \<or> \<not> sender_in_roster s target then ((s, store), Err (OrgCodec ''DM offer requires roster members''))
     else
       (case and_then (map_err OrgCodec (verify_offered_invite env uri (og_own_peer_id s) target)) (\<lambda>_. random_id) of
          Inl e \<Rightarrow> ((s, store), Err e)
        | Inr i \<Rightarrow>
            (let r = to_record s;
                 ((s1, store1), out) = persist_record env (r\<lparr>po_dm_links := upsert_link target None (po_dm_links r)\<rparr>) (s, store)
             in case out of
                  Inl e \<Rightarrow> ((s1, store1), Err e)
                | Inr r1 \<Rightarrow>
                    (case publish_signed env s1 (DmOffer i target (og_display_name s) uri) of
                       Inl e \<Rightarrow> ((s1, store1), Err e)
                     | Inr bs \<Rightarrow> ((s1\<lparr>og_dm_links := po_dm_links r1\<rparr>, store1), Ok bs)))))"

definition send_group_offer ::
    "('vk, 'sg, 'sk, 'u, 'z) org_session_env_scheme \<Rightarrow> string \<Rightarrow> string \<Rightarrow> string option \<Rightarrow>
     (org_error, string) result \<Rightarrow> 'sk org_session \<Rightarrow> (org_error, bytes) result" where
  "send_group_offer env target uri label random_id s =
     and_then random_id (\<lambda>i. publish_signed env s (GroupOffer i target (og_display_name s) label uri))"

definition validate_group_targets :: "string list \<Rightarrow> 'sk org_session \<Rightarrow> (org_error, unit) result" where
  "validate_group_targets targets s =
     (if \<not> in_roster s then Err (OrgCodec ''org membership is pending'')
      else
        (case find (\<lambda>t. \<not> sender_in_roster s t) targets of
           None \<Rightarrow> Ok ()
         | Some t \<Rightarrow> Err (OrgCodec (''group invitation target is not in org roster: '' @ t))))"

definition link_dm ::
    "('vk, 'sg, 'sk, 'u, 'z) org_session_env_scheme \<Rightarrow> string \<Rightarrow> string \<Rightarrow> 'sk org_session \<times> org_store option \<Rightarrow>
     ('sk org_session \<times> org_store option) \<times> (org_error, unit) result" where
  "link_dm env peer session = (\<lambda>(s, store).
     (let s1 = s\<lparr>og_dm_links := upsert_link peer (Some session) (og_dm_links s)\<rparr>;
          (st, out) = persist_record env (to_record s1) (s1, store)
      in (st, and_then out (\<lambda>_. Ok ()))))"

section \<open>Joined organisations\<close>

record parsed_org_bundle =
  pb_org_pubkey :: string
  pb_org_name :: string
  pb_mesh_id :: string

definition org_query ::
    "('vk, 'sg, 'sk, 'u, 'z) org_session_env_scheme \<Rightarrow> 'u \<Rightarrow> string \<Rightarrow> (org_error, string) result" where
  "org_query env u key = ok_or (optional_query env u key) (InvalidBundle (''missing '' @ key))"

definition parse_org_bundle ::
    "('vk, 'sg, 'sk, 'u, 'z) org_session_env_scheme \<Rightarrow> string \<Rightarrow> (org_error, parsed_org_bundle) result" where
  "parse_org_bundle env uri =
     (if \<not> starts_with ORG_BUNDLE_PREFIX uri then Err (InvalidBundle ''not a mosh://org URI'')
      else
        and_then (map_err (\<lambda>e. InvalidBundle (''parse: '' @ e)) (url_parse env uri)) (\<lambda>u.
        and_then (org_query env u ''mesh'') (\<lambda>mesh.
        and_then (org_query env u ''name'') (\<lambda>name.
        and_then (ok_or (url_fragment env u) (InvalidBundle ''missing #org fragment'')) (\<lambda>fragment.
        and_then (ok_or (strip_prefix ''org='' fragment) (InvalidBundle ''fragment is not org=<pubkey>'')) (\<lambda>key.
          (let pubkey = to_lowercase key
           in if length pubkey \<noteq> 64 \<or> \<not> list_all is_ascii_hexdigit pubkey
              then Err (InvalidBundle ''org pubkey must be 64 hex chars'')
              else Ok \<lparr>pb_org_pubkey = pubkey, pb_org_name = name, pb_mesh_id = mesh\<rparr>)))))))"

record 'sk org_runtime =
  rt_orgs :: "(string \<times> 'sk org_session) list"
  rt_store :: "org_store option"

definition load_roster ::
    "('vk, 'sg, 'sk, 'u, 'z) org_session_env_scheme \<Rightarrow> string \<Rightarrow> org_store option \<Rightarrow> (org_roster \<times> bytes) option" where
  "load_roster env org store =
     Option.bind store (\<lambda>st.
       (case read_row (os_rosters st) org of
          Inr (Some bs) \<Rightarrow>
            (case verify_org_roster (od_docs env) bs org None of Inl _ \<Rightarrow> None | Inr r \<Rightarrow> Some (r, bs))
        | _ \<Rightarrow> None))"

definition org_signing_key ::
    "('vk, 'sg, 'sk, 'u, 'z) org_session_env_scheme \<Rightarrow> org_store option \<Rightarrow> (org_error, 'sk) result" where
  "org_signing_key env store =
     and_then (ok_or store IdentityUnavailable) (\<lambda>_.
     and_then (map_err OrgPersistence (od_identity env)) (\<lambda>blob.
     and_then (ok_or blob IdentityUnavailable) (\<lambda>b.
       map_err (\<lambda>_. IdentityUnavailable) (signing_key_from_identity env b))))"

definition build_session ::
    "('vk, 'sg, 'sk, 'u, 'z) org_session_env_scheme \<Rightarrow> persisted_org_record \<Rightarrow> 'sk \<Rightarrow> org_store option \<Rightarrow> 'sk org_session" where
  "build_session env r signer store =
     (let loaded = load_roster env (po_org_pubkey r) store
      in restore_pending_offers
           \<lparr>og_org_pubkey = po_org_pubkey r, og_org_name = po_org_name r, og_mesh_id = po_mesh_id r,
            og_display_name = po_display_name r, og_listen_port = po_listen_port r, og_static_peer = po_static_peer r,
            og_control_channel = ORG_CONTROL_PREFIX @ po_mesh_id r, og_signer = signer,
            og_own_peer_id = peer_id_hex env signer, og_roster = map_option fst loaded,
            og_roster_bytes = map_option snd loaded, og_dm_offers = [], og_group_offers = [],
            og_dm_links = po_dm_links r, og_seen_offer_ids = {}, og_resolved_offer_ids = po_resolved_offer_ids r,
            og_pending_acceptances = po_pending_acceptances r\<rparr>)"

text \<open>A record of a new organisation is persisted before its session exists.\<close>

definition join_org ::
    "('vk, 'sg, 'sk, 'u, 'z) org_session_env_scheme \<Rightarrow> string \<Rightarrow> string \<Rightarrow> 16 word \<Rightarrow> string option \<Rightarrow>
     'sk org_runtime \<Rightarrow> 'sk org_runtime \<times> (org_error, 'sk org_session \<times> bytes list) result" where
  "join_org env bundle_uri display port static rt =
     (case parse_org_bundle env bundle_uri of
        Inl e \<Rightarrow> (rt, Err e)
      | Inr b \<Rightarrow>
          if map_of (rt_orgs rt) (pb_org_pubkey b) \<noteq> None then (rt, Err (DuplicateOrg (pb_org_pubkey b)))
          else
            (case and_then (map_err MossError (od_open_room env (pb_mesh_id b) port static))
                    (\<lambda>_. org_signing_key env (rt_store rt)) of
               Inl e \<Rightarrow> (rt, Err e)
             | Inr signer \<Rightarrow>
                 (let (store1, out) = persist_org_record env
                        \<lparr>po_org_pubkey = pb_org_pubkey b, po_org_name = pb_org_name b, po_mesh_id = pb_mesh_id b,
                         po_display_name = display, po_listen_port = port, po_static_peer = static, po_dm_links = [],
                         po_resolved_offer_ids = {}, po_pending_acceptances = []\<rparr> (rt_store rt)
                  in case out of
                       Inl e \<Rightarrow> (rt\<lparr>rt_store := store1\<rparr>, Err e)
                     | Inr r \<Rightarrow>
                         (let s = build_session env r signer store1
                          in (rt\<lparr>rt_store := store1, rt_orgs := rt_orgs rt @ [(og_org_pubkey s, s)]\<rparr>,
                              Ok (s, publish_hello env s))))))"

definition leave_org ::
    "('vk, 'sg, 'sk, 'u, 'z) org_session_env_scheme \<Rightarrow> string \<Rightarrow> 'sk org_runtime \<Rightarrow>
     'sk org_runtime \<times> (org_error, unit) result" where
  "leave_org env org rt =
     (case map_of (rt_orgs rt) org of
        None \<Rightarrow> (rt, Err (NotJoined org))
      | Some _ \<Rightarrow>
          (let orgs1 = filter (\<lambda>x. fst x \<noteq> org) (rt_orgs rt)
           in case rt_store rt of
                None \<Rightarrow> (rt\<lparr>rt_orgs := orgs1\<rparr>, Ok ())
              | Some st \<Rightarrow>
                  (let (st1, out) = delete_org env org st
                   in (rt\<lparr>rt_orgs := orgs1, rt_store := Some st1\<rparr>, map_err OrgPersistence out))))"

text \<open>The first organisation that listens on the channel takes the frame.\<close>

fun ingest_in ::
    "('vk, 'sg, 'sk, 'u, 'z) org_session_env_scheme \<Rightarrow> string \<Rightarrow> bytes \<Rightarrow> (string \<times> 'sk org_session) list \<Rightarrow>
     org_store option \<Rightarrow> (string \<times> 'sk org_session) list \<times> org_store option \<times> bytes list" where
  "ingest_in env channel payload [] store = ([], store, [])"
| "ingest_in env channel payload ((k, s) # orgs) store =
     (if og_control_channel s = channel then
        (let ((s1, store1), sent) = ingest_payload env payload (s, store) in ((k, s1) # orgs, store1, sent))
      else
        (let (orgs1, store1, sent) = ingest_in env channel payload orgs store in ((k, s) # orgs1, store1, sent)))"

fun org_drain_inbound ::
    "('vk, 'sg, 'sk, 'u, 'z) org_session_env_scheme \<Rightarrow> (string \<times> bytes) list \<Rightarrow> 'sk org_runtime \<Rightarrow>
     'sk org_runtime \<times> bytes list" where
  "org_drain_inbound env [] rt = (rt, [])"
| "org_drain_inbound env ((channel, payload) # frames) rt =
     (let (orgs1, store1, sent) = ingest_in env channel payload (rt_orgs rt) (rt_store rt);
          (rt1, rest) = org_drain_inbound env frames (rt\<lparr>rt_orgs := orgs1, rt_store := store1\<rparr>)
      in (rt1, sent @ rest))"

definition refresh_acceptance :: "org_store \<Rightarrow> 'sk org_session \<Rightarrow> 'sk org_session" where
  "refresh_acceptance store s =
     (if og_pending_acceptances s = [] then s
      else
        (case read_row (os_records store) (og_org_pubkey s) of
           Inr (Some r) \<Rightarrow>
             prune_resolved_acceptances (s\<lparr>og_resolved_offer_ids := og_resolved_offer_ids s \<union> po_resolved_offer_ids r\<rparr>)
         | _ \<Rightarrow> s))"

definition refresh_acceptances :: "'sk org_runtime \<Rightarrow> 'sk org_runtime" where
  "refresh_acceptances rt =
     (case rt_store rt of
        None \<Rightarrow> rt
      | Some st \<Rightarrow> rt\<lparr>rt_orgs := map (\<lambda>(k, s). (k, refresh_acceptance st s)) (rt_orgs rt)\<rparr>)"

definition org_poll ::
    "('vk, 'sg, 'sk, 'u, 'z) org_session_env_scheme \<Rightarrow> string \<Rightarrow> (string \<times> bytes) list \<Rightarrow> 'sk org_runtime \<Rightarrow>
     'sk org_runtime \<times> (org_error, 'sk org_session \<times> bytes list) result" where
  "org_poll env org frames rt =
     (let (rt1, sent) = org_drain_inbound env frames rt; rt2 = refresh_acceptances rt1
      in case map_of (rt_orgs rt2) org of
           None \<Rightarrow> (rt2, Err (NotJoined org))
         | Some s \<Rightarrow> (rt2, Ok (s, sent @ (if in_roster s then [] else publish_hello env s))))"

fun rehydrate_rows ::
    "('vk, 'sg, 'sk, 'u, 'z) org_session_env_scheme \<Rightarrow> persisted_org_record row_table \<Rightarrow> 'sk org_runtime \<Rightarrow> 'sk org_runtime" where
  "rehydrate_rows env [] rt = rt"
| "rehydrate_rows env ((_, Inl _) # rows) rt = rehydrate_rows env rows rt"
| "rehydrate_rows env ((_, Inr r) # rows) rt =
     rehydrate_rows env rows
       (if map_of (rt_orgs rt) (po_org_pubkey r) \<noteq> None then rt
        else
          (case and_then (map_err MossError (od_open_room env (po_mesh_id r) (po_listen_port r) (po_static_peer r)))
                  (\<lambda>_. org_signing_key env (rt_store rt)) of
             Inl _ \<Rightarrow> rt
           | Inr signer \<Rightarrow>
               (let s = build_session env r signer (rt_store rt)
                in rt\<lparr>rt_orgs := rt_orgs rt @ [(og_org_pubkey s, s)]\<rparr>)))"

text \<open>Listing the rows fails as a whole when one of them cannot be decrypted.\<close>

definition org_rehydrate ::
    "('vk, 'sg, 'sk, 'u, 'z) org_session_env_scheme \<Rightarrow> 'sk org_runtime \<Rightarrow> 'sk org_runtime" where
  "org_rehydrate env rt =
     (case rt_store rt of
        None \<Rightarrow> rt
      | Some st \<Rightarrow>
          if list_ex (\<lambda>(_, row). case row of Inl (Undecryptable _) \<Rightarrow> True | _ \<Rightarrow> False) (os_records st) then rt
          else rehydrate_rows env (os_records st) rt)"

section \<open>The roster only advances\<close>

definition org_version :: "'sk org_session \<Rightarrow> u64 option" where
  "org_version s = map_option or_version (og_roster s)"

definition org_verified :: "('vk, 'sg, 'sk, 'u, 'z) org_session_env_scheme \<Rightarrow> 'sk org_session \<Rightarrow> bool" where
  "org_verified env s \<longleftrightarrow>
     (case (og_roster s, og_roster_bytes s) of
        (None, None) \<Rightarrow> True
      | (Some r, Some bs) \<Rightarrow> verify_org_roster (od_docs env) bs (og_org_pubkey s) None = Ok r
      | _ \<Rightarrow> False)"

lemma verify_without_stored:
  "verify_org_roster env bs org stored = Ok r \<Longrightarrow> verify_org_roster env bs org None = Ok r"
  by (auto simp: verify_org_roster_def and_then_Ok_iff Let_def check_version_def split: if_splits)

lemma verify_version: "verify_org_roster env bs org (Some v) = Ok r \<Longrightarrow> v < or_version r"
  by (elim verify_org_roster_OkE) (simp add: check_version_Ok_iff)

lemma accept_offer_fields [simp]:
  "og_roster (fst (accept_offer a b c s)) = og_roster s"
  "og_roster_bytes (fst (accept_offer a b c s)) = og_roster_bytes s"
  "og_org_pubkey (fst (accept_offer a b c s)) = og_org_pubkey s"
  "og_own_peer_id (fst (accept_offer a b c s)) = og_own_peer_id s"
  "og_mesh_id (fst (accept_offer a b c s)) = og_mesh_id s"
  "og_dm_offers (fst (accept_offer a b c s)) = og_dm_offers s"
  "og_group_offers (fst (accept_offer a b c s)) = og_group_offers s"
  "og_resolved_offer_ids (fst (accept_offer a b c s)) = og_resolved_offer_ids s"
  "og_pending_acceptances (fst (accept_offer a b c s)) = og_pending_acceptances s"
  by (simp_all add: accept_offer_def)

lemma org_handle_message_fields:
  "og_roster (fst (org_handle_message env p msg s)) = og_roster s"
  "og_roster_bytes (fst (org_handle_message env p msg s)) = og_roster_bytes s"
  "og_org_pubkey (fst (org_handle_message env p msg s)) = og_org_pubkey s"
  "og_resolved_offer_ids (fst (org_handle_message env p msg s)) = og_resolved_offer_ids s"
  "og_pending_acceptances (fst (org_handle_message env p msg s)) = og_pending_acceptances s"
  by (cases msg; simp add: org_handle_message_def receive_dm_offer_def case_prod_unfold Let_def)+

text \<open>A frame either brings a new roster or a message; the cases of \<open>ingest_payload\<close>.\<close>

lemma ingest_payload_cases:
  obtains (dropped) "ingest_payload env payload (s, store) = ((s, store), [])"
  | (roster) bs where "ingest_payload env payload (s, store) = absorb_roster_bytes env bs (s, store)"
  | (message) e msg where "verify_envelope env e (org_ctx s) = Ok ()" and "od_message_from env (os_payload e) = Ok msg"
      and "ingest_payload env payload (s, store) =
        ((fst (org_handle_message env (os_peer_id e) msg s), store), snd (org_handle_message env (os_peer_id e) msg s))"
proof (cases "od_wire_from env payload")
  case (Inl e)
  then show ?thesis by (intro dropped) (simp add: ingest_payload_def)
next
  case (Inr w)
  show ?thesis
  proof (cases w)
    case (WireRoster r)
    with Inr show ?thesis
      by (cases "ob64_decode env r") (auto simp: ingest_payload_def intro: dropped roster)
  next
    case (WireSigned p i g)
    show ?thesis
    proof (cases "ob64_decode env p"; cases "ob64_decode env g")
      fix b c
      assume b: "ob64_decode env p = Inr b" and c: "ob64_decode env g = Inr c"
      let ?e = "\<lparr>os_payload = b, os_peer_id = i, os_sig = c\<rparr>"
      show ?thesis
      proof (cases "is_ok (verify_envelope env ?e (org_ctx s)) \<and> is_ok (od_message_from env b)")
        case True
        then obtain msg where "verify_envelope env ?e (org_ctx s) = Ok ()" "od_message_from env b = Ok msg"
          by (auto simp: is_ok_iff)
        with Inr WireSigned b c show ?thesis
          by (intro message [of ?e msg]) (simp_all add: ingest_payload_def case_prod_unfold Let_def)
      next
        case False
        with Inr WireSigned b c show ?thesis
          by (intro dropped) (auto simp: ingest_payload_def Let_def is_ok_def split: sum.splits)
      qed
    qed (use Inr WireSigned in \<open>auto simp: ingest_payload_def intro!: dropped\<close>)
  qed
qed

lemma absorb_roster_cases:
  obtains (kept) sent where "absorb_roster_bytes env bs (s, store) = ((s, store), sent)"
  | (newer) r where "verify_org_roster (od_docs env) bs (og_org_pubkey s) (org_version s) = Ok r"
      and "absorb_roster_bytes env bs (s, store) =
        ((s\<lparr>og_roster := Some r, og_roster_bytes := Some bs\<rparr>,
          map_option (put_org_roster env (og_org_pubkey s) bs) store), [])"
proof (cases "verify_org_roster (od_docs env) bs (og_org_pubkey s) (org_version s)")
  case (Inl e)
  then show ?thesis
    by (cases e) (auto simp: absorb_roster_bytes_def org_version_def intro: kept)
next
  case (Inr r)
  then show ?thesis by (intro newer) (auto simp: absorb_roster_bytes_def org_version_def)
qed

lemma org_verified_cong:
  "og_roster s' = og_roster s \<Longrightarrow> og_roster_bytes s' = og_roster_bytes s \<Longrightarrow> og_org_pubkey s' = og_org_pubkey s \<Longrightarrow>
   org_verified env s' = org_verified env s"
  by (simp add: org_verified_def split: option.split)

definition advanced :: "'sk org_session \<Rightarrow> 'sk org_session \<Rightarrow> bool" where
  "advanced s s' \<longleftrightarrow> og_org_pubkey s' = og_org_pubkey s \<and>
     (og_roster s' = og_roster s \<or> org_version s < org_version s')"

lemma ingest_payload_advances:
  assumes "ingest_payload env payload (s, store) = ((s', store'), sent)"
  shows "advanced s s' \<and> (org_verified env s \<longrightarrow> org_verified env s')"
proof (cases rule: ingest_payload_cases [of env payload s store])
  case dropped
  with assms show ?thesis by (simp add: advanced_def)
next
  case (roster bs)
  with assms show ?thesis
  proof (cases rule: absorb_roster_cases [of env bs s store])
    case (newer r)
    with roster assms have s': "s' = s\<lparr>og_roster := Some r, og_roster_bytes := Some bs\<rparr>" by simp
    have "org_version s < Some (or_version r)"
      using newer(1) verify_version by (cases "org_version s") auto
    with newer(1) show ?thesis
      by (auto simp: s' advanced_def org_version_def org_verified_def dest: verify_without_stored)
  qed (simp add: advanced_def)
next
  case (message e msg)
  then have s': "s' = fst (org_handle_message env (os_peer_id e) msg s)" using assms by simp
  show ?thesis
    using org_verified_cong [of s' s env] by (simp add: s' advanced_def org_handle_message_fields)
qed

section \<open>Records stay well-formed and resolutions are kept\<close>

fun acceptance_offer_id :: "pending_acceptance \<Rightarrow> string" where
  "acceptance_offer_id (PendingDm _ _ x _) = do_offer_id x"
| "acceptance_offer_id (PendingGroup _ _ x _) = go_offer_id x"

definition pending_wf :: "(string, pending_acceptance) btree_map \<Rightarrow> bool" where
  "pending_wf m \<longleftrightarrow> bt_wf m \<and> (\<forall>i p. bt_get m i = Some p \<longrightarrow> acceptance_offer_id p = i)"

definition record_wf :: "string \<Rightarrow> persisted_org_record \<Rightarrow> bool" where
  "record_wf org r \<longleftrightarrow> po_org_pubkey r = org \<and> pending_wf (po_pending_acceptances r)"

definition store_wf :: "string \<Rightarrow> org_store \<Rightarrow> bool" where
  "store_wf org st \<longleftrightarrow> bt_wf (os_records st) \<and>
     (\<forall>r. bt_get (os_records st) org = Some (Ok r) \<longrightarrow> record_wf org r)"

definition stored_resolved :: "string \<Rightarrow> org_store \<Rightarrow> string set" where
  "stored_resolved org st =
     (case bt_get (os_records st) org of Some (Inr r) \<Rightarrow> po_resolved_offer_ids r | _ \<Rightarrow> {})"

lemma pending_wf_insert: "pending_wf m \<Longrightarrow> acceptance_offer_id p = i \<Longrightarrow> pending_wf (bt_insert i p m)"
  by (auto simp: pending_wf_def wf_intros)

lemma pending_wf_remove: "pending_wf m \<Longrightarrow> pending_wf (bt_remove i m)"
  by (auto simp: pending_wf_def wf_intros)

lemma pending_wf_retain: "pending_wf m \<Longrightarrow> pending_wf (bt_retain P m)"
  by (auto simp: pending_wf_def wf_intros bt_get_retain split: option.splits if_splits)

lemma pending_wf_removes: "pending_wf m \<Longrightarrow> pending_wf (fold bt_remove is m)"
  by (induction "is" arbitrary: m) (simp_all add: pending_wf_remove)

lemma pending_wf_or_insert:
  "pending_wf m \<Longrightarrow> \<forall>(i, p) \<in> set ps. acceptance_offer_id p = i \<Longrightarrow>
   pending_wf (fold (\<lambda>(i, p) m. if bt_contains m i then m else bt_insert i p m) ps m)"
  by (induction ps arbitrary: m) (auto simp: pending_wf_insert)

lemma pending_wf_elements: "pending_wf m \<Longrightarrow> \<forall>(i, p) \<in> set m. acceptance_offer_id p = i"
  by (auto simp: pending_wf_def bt_get_def dest!: bt_wf_distinct)

lemma resolve_completed_wf: "record_wf org r \<Longrightarrow> record_wf org (resolve_completed ids r)"
  by (simp add: record_wf_def resolve_completed_def pending_wf_removes)

lemma write_org_record_keeps:
  assumes "record_wf org cand" and "store_wf org st" and "write_org_record org cand st = Ok (st', r)"
  shows "record_wf org r" and "store_wf org st'" and "bt_get (os_records st') org = Some (Ok r)"
    and "po_resolved_offer_ids cand \<union> stored_resolved org st \<subseteq> po_resolved_offer_ids r"
    and "po_dm_links r = po_dm_links cand"
proof -
  from assms(3) obtain stored ids where stored: "read_row (os_records st) org = Ok stored"
    and r: "r = resolve_completed ids (drop_resolved (case stored of None \<Rightarrow> cand | Some x \<Rightarrow> merge_stored x cand))"
    and st': "st' = save_org_record org r st"
    by (auto simp: write_org_record_def Let_def and_then_Ok_iff retire_completed_acceptances_def)
  have row: "bt_get (os_records st) org = map_option Ok stored" if "stored \<noteq> None \<or> bt_get (os_records st) org = None"
    using stored that by (auto simp: read_row_def split: option.splits sum.splits)
  let ?m = "case stored of None \<Rightarrow> cand | Some x \<Rightarrow> merge_stored x cand"
  have "record_wf org ?m"
  proof (cases stored)
    case (Some x)
    with row assms(2) have "pending_wf (po_pending_acceptances x)" by (simp add: store_wf_def record_wf_def)
    with Some assms(1) show ?thesis
      by (simp add: record_wf_def merge_stored_def pending_wf_or_insert pending_wf_elements)
  qed (use assms(1) in simp)
  then have "record_wf org (drop_resolved ?m)" by (simp add: record_wf_def drop_resolved_def pending_wf_retain)
  then show wf: "record_wf org r" by (simp add: r resolve_completed_wf)
  have "bt_wf (os_records st)" using assms(2) by (simp add: store_wf_def)
  then show saved: "bt_get (os_records st') org = Some (Ok r)" by (simp add: st' save_org_record_def)
  with wf assms(2) show "store_wf org st'" by (auto simp: store_wf_def st' save_org_record_def wf_intros)
  have "po_resolved_offer_ids cand \<union> stored_resolved org st \<subseteq> po_resolved_offer_ids ?m"
  proof (cases stored)
    case None
    with stored have "bt_get (os_records st) org = None" by (auto simp: read_row_def split: option.splits sum.splits)
    with None show ?thesis by (simp add: stored_resolved_def)
  next
    case (Some x)
    with row show ?thesis by (simp add: stored_resolved_def merge_stored_def)
  qed
  then show "po_resolved_offer_ids cand \<union> stored_resolved org st \<subseteq> po_resolved_offer_ids r"
    by (auto simp: r resolve_completed_def drop_resolved_def)
  show "po_dm_links r = po_dm_links cand"
    by (simp add: r resolve_completed_def drop_resolved_def merge_stored_def split: option.split)
qed

section \<open>Sessions stay well-formed\<close>

definition org_session_wf :: "'sk org_session \<Rightarrow> bool" where
  "org_session_wf s \<longleftrightarrow> pending_wf (og_pending_acceptances s) \<and>
     (\<forall>x \<in> set (og_dm_offers s). do_offer_id x \<notin> og_resolved_offer_ids s) \<and>
     (\<forall>x \<in> set (og_group_offers s). go_offer_id x \<notin> og_resolved_offer_ids s)"

definition org_wf :: "'sk org_session \<times> org_store option \<Rightarrow> bool" where
  "org_wf = (\<lambda>(s, store). org_session_wf s \<and> pred_option (store_wf (og_org_pubkey s)) store)"

text \<open>The offer \<open>i\<close> is settled, in memory and in the durable record.\<close>

definition settled :: "string \<Rightarrow> 'sk org_session \<times> org_store option \<Rightarrow> bool" where
  "settled i = (\<lambda>(s, store). i \<in> og_resolved_offer_ids s \<and>
     pred_option (\<lambda>st. i \<in> stored_resolved (og_org_pubkey s) st) store)"

lemma record_wf_to_record: "org_session_wf s \<Longrightarrow> record_wf (og_org_pubkey s) (to_record s)"
  by (simp add: org_session_wf_def record_wf_def to_record_def)

lemma persist_org_record_keeps:
  assumes "record_wf org cand" and "pred_option (store_wf org) store"
    and "persist_org_record env cand store = (store', out)"
  shows "pred_option (store_wf org) store'"
    and "pred_option (\<lambda>st. i \<in> stored_resolved org st) store \<Longrightarrow> pred_option (\<lambda>st. i \<in> stored_resolved org st) store'"
    and "out = Ok r \<Longrightarrow> record_wf org r \<and> po_resolved_offer_ids cand \<subseteq> po_resolved_offer_ids r \<and>
      po_dm_links r = po_dm_links cand \<and>
      pred_option (\<lambda>st. stored_resolved org st = po_resolved_offer_ids r) store'"
proof -
  have org: "po_org_pubkey cand = org" using assms(1) by (simp add: record_wf_def)
  have "pred_option (store_wf org) store' \<and>
      (pred_option (\<lambda>st. i \<in> stored_resolved org st) store \<longrightarrow> pred_option (\<lambda>st. i \<in> stored_resolved org st) store') \<and>
      (out = Ok r \<longrightarrow> record_wf org r \<and> po_resolved_offer_ids cand \<subseteq> po_resolved_offer_ids r \<and>
         po_dm_links r = po_dm_links cand \<and> pred_option (\<lambda>st. stored_resolved org st = po_resolved_offer_ids r) store')"
  proof (cases store)
    case None
    with assms show ?thesis by (auto simp: persist_org_record_def)
  next
    case (Some st)
    show ?thesis
    proof (cases "and_then (write_org_record org cand st) (\<lambda>x. case od_fault env of Some e \<Rightarrow> Err e | None \<Rightarrow> Ok x)")
      case (Inl e)
      with Some assms(2,3) org show ?thesis
        by (auto simp: persist_org_record_def put_reconciled_org_record_def)
    next
      case (Inr x)
      then obtain st1 r1 where x: "x = (st1, r1)" and w: "write_org_record org cand st = Ok (st1, r1)"
        by (cases x) (auto simp: and_then_Ok_iff split: option.splits)
      have "store_wf org st" using assms(2) Some by simp
      note keeps = write_org_record_keeps [OF assms(1) this w]
      from Inr x Some assms(3) org have "store' = Some st1" and "out = Ok r1"
        by (auto simp: persist_org_record_def put_reconciled_org_record_def)
      with keeps Some show ?thesis by (auto simp: stored_resolved_def)
    qed
  qed
  then show "pred_option (store_wf org) store'"
    and "pred_option (\<lambda>st. i \<in> stored_resolved org st) store \<Longrightarrow> pred_option (\<lambda>st. i \<in> stored_resolved org st) store'"
    and "out = Ok r \<Longrightarrow> record_wf org r \<and> po_resolved_offer_ids cand \<subseteq> po_resolved_offer_ids r \<and>
      po_dm_links r = po_dm_links cand \<and>
      pred_option (\<lambda>st. stored_resolved org st = po_resolved_offer_ids r) store'"
    by blast+
qed

lemma org_session_wf_prune: "pending_wf (og_pending_acceptances s) \<Longrightarrow> org_session_wf (prune_resolved_acceptances s)"
  by (simp add: org_session_wf_def prune_resolved_acceptances_def pending_wf_retain)

lemma prune_fields [simp]:
  "og_org_pubkey (prune_resolved_acceptances s) = og_org_pubkey s"
  "og_resolved_offer_ids (prune_resolved_acceptances s) = og_resolved_offer_ids s"
  by (simp_all add: prune_resolved_acceptances_def)

lemma upsert_link_irrelevant:
  "record_wf org (r\<lparr>po_dm_links := ls\<rparr>) = record_wf org r" "po_resolved_offer_ids (r\<lparr>po_dm_links := ls\<rparr>) = po_resolved_offer_ids r"
  by (simp_all add: record_wf_def)

lemma commit_offer_keeps:
  assumes "org_wf (s, store)" and "pred_option (\<lambda>p. acceptance_offer_id p = i) acceptance"
    and "commit_offer env i link acceptance (s, store) = (st', out)"
  shows "org_wf st' \<and> (settled j (s, store) \<longrightarrow> settled j st') \<and> og_org_pubkey (fst st') = og_org_pubkey s \<and>
    (out = Ok () \<longrightarrow> acceptance = None \<longrightarrow> settled i st')"
proof -
  let ?org = "og_org_pubkey s" and ?r0 = "to_record s"
  let ?r1 = "case link of None \<Rightarrow> ?r0 | Some (peer, session) \<Rightarrow> ?r0\<lparr>po_dm_links := upsert_link peer session (po_dm_links ?r0)\<rparr>"
  let ?r2 = "case acceptance of
      Some p \<Rightarrow> ?r1\<lparr>po_pending_acceptances := bt_insert i p (po_pending_acceptances ?r1)\<rparr>
    | None \<Rightarrow> ?r1\<lparr>po_pending_acceptances := bt_remove i (po_pending_acceptances ?r1),
                 po_resolved_offer_ids := insert i (po_resolved_offer_ids ?r1)\<rparr>"
  have wf: "org_session_wf s" "pred_option (store_wf ?org) store" using assms(1) by (auto simp: org_wf_def)
  have r1: "record_wf ?org ?r1" "po_resolved_offer_ids ?r1 = og_resolved_offer_ids s"
    using record_wf_to_record [OF wf(1)] by (auto simp: record_wf_def to_record_def split: option.split)
  have r2: "record_wf ?org ?r2" "og_resolved_offer_ids s \<subseteq> po_resolved_offer_ids ?r2"
      "acceptance = None \<Longrightarrow> i \<in> po_resolved_offer_ids ?r2"
    using r1 assms(2) by (auto simp: record_wf_def pending_wf_insert pending_wf_remove split: option.split)
  obtain store1 res where p: "persist_org_record env ?r2 store = (store1, res)" by fastforce
  note keeps = persist_org_record_keeps [OF r2(1) wf(2) p]
  show ?thesis
  proof (cases res)
    case (Inl e)
    with assms(3) p have "st' = (s, store1)" "out = Err e" by (auto simp: commit_offer_def Let_def)
    with keeps(1) keeps(2) [of j] wf(1) show ?thesis by (auto simp: org_wf_def settled_def)
  next
    case (Inr r)
    let ?s = "s\<lparr>og_dm_links := po_dm_links r, og_resolved_offer_ids := po_resolved_offer_ids r,
        og_pending_acceptances := po_pending_acceptances r\<rparr>"
    let ?s1 = "prune_resolved_acceptances ?s"
    have st': "st' = (?s1\<lparr>og_dm_offers := filter (\<lambda>x. do_offer_id x \<noteq> i) (og_dm_offers ?s1),
        og_group_offers := filter (\<lambda>x. go_offer_id x \<noteq> i) (og_group_offers ?s1)\<rparr>, store1)" "out = Ok ()"
      using Inr assms(3) p by (auto simp: commit_offer_def Let_def)
    have "org_session_wf ?s1" using keeps(3) [of r] Inr by (intro org_session_wf_prune) (simp add: record_wf_def)
    with st' keeps(1) have "org_wf st'" by (auto simp: org_wf_def org_session_wf_def)
    moreover have "settled j st'" if "j \<in> po_resolved_offer_ids ?r2" for j
      using that keeps(3) [of r] Inr by (cases store1) (auto simp: settled_def st')
    ultimately show ?thesis using r2(2,3) by (auto simp: settled_def st')
  qed
qed

text \<open>Everything that happens to an organisation while it is joined, restarts included.\<close>

datatype 'sk org_event =
    Ingested bytes
  | AcceptedDm string
  | AcceptedGroup string
  | DismissedDm string
  | DismissedGroup string
  | CompletedDm string string bytes pending_join_recovery
  | CompletedGroup string string bytes pending_join_recovery
  | SentDmOffer string string "(org_error, string) result"
  | LinkedDm string string
  | Reexposed string
  | Refreshed
  | NativeSaved "native_table \<times> string"
  | Restarted 'sk

fun org_step ::
    "('vk, 'sg, 'sk, 'u, 'z) org_session_env_scheme \<Rightarrow> 'sk org_session \<times> org_store option \<Rightarrow> 'sk org_event \<Rightarrow>
     'sk org_session \<times> org_store option" where
  "org_step env st (Ingested payload) = fst (ingest_payload env payload st)"
| "org_step env st (AcceptedDm i) = fst (accept_dm_offer env i st)"
| "org_step env st (AcceptedGroup i) = fst (accept_group_offer env i st)"
| "org_step env st (DismissedDm i) = fst (dismiss_dm_offer env i st)"
| "org_step env st (DismissedGroup i) = fst (dismiss_group_offer env i st)"
| "org_step env st (CompletedDm i c signer r) = fst (complete_dm_offer env i c signer r st)"
| "org_step env st (CompletedGroup i c signer r) = fst (complete_group_offer env i c signer r st)"
| "org_step env st (SentDmOffer target uri i) = fst (send_dm_offer env target uri i st)"
| "org_step env st (LinkedDm peer session) = fst (link_dm env peer session st)"
| "org_step env (s, store) (Reexposed i) = (reexpose_acceptance i s, store)"
| "org_step env (s, store) Refreshed =
     ((case store of None \<Rightarrow> s | Some db \<Rightarrow> refresh_acceptance db s), store)"
| "org_step env (s, store) (NativeSaved native) =
     (s, Option.bind store (\<lambda>db. case retire_accepted_offers native db of Inl _ \<Rightarrow> Some db | Inr db1 \<Rightarrow> Some db1))"
| "org_step env (s, store) (Restarted signer) =
     (case Option.bind store (\<lambda>db. bt_get (os_records db) (og_org_pubkey s)) of
        Some (Inr r) \<Rightarrow> (build_session env r signer store, store)
      | _ \<Rightarrow> (s, store))"

definition kept :: "'sk org_session \<times> org_store option \<Rightarrow> 'sk org_session \<times> org_store option \<Rightarrow> bool" where
  "kept st st' \<longleftrightarrow> org_wf st' \<and> (\<forall>j. settled j st \<longrightarrow> settled j st')"

lemma kept_refl: "org_wf st \<Longrightarrow> kept st st"
  by (simp add: kept_def)

lemma commit_offer_kept:
  assumes "org_wf st" and "pred_option (\<lambda>p. acceptance_offer_id p = i) acceptance"
  shows "kept st (fst (commit_offer env i link acceptance st))"
proof -
  obtain s store where st: "st = (s, store)" by fastforce
  obtain st' out where c: "commit_offer env i link acceptance (s, store) = (st', out)" by fastforce
  from commit_offer_keeps [OF assms(1) [unfolded st] assms(2) c] show ?thesis by (simp add: st c kept_def)
qed

lemma peek_dm_offer_id: "peek_dm_offer env i s = Ok x \<Longrightarrow> do_offer_id x = i"
  by (auto simp: peek_dm_offer_def and_then_Ok_iff split: if_splits dest: find_SomeD)

lemma peek_group_offer_id: "peek_group_offer i s = Ok x \<Longrightarrow> go_offer_id x = i"
  by (auto simp: peek_group_offer_def dest: find_SomeD)

lemma accept_offer_fresh: "snd (accept_offer p t i s) \<Longrightarrow> i \<notin> og_resolved_offer_ids s \<and> sender_in_roster s p \<and> t = og_own_peer_id s \<and> i \<notin> og_seen_offer_ids s"
  by (auto simp: accept_offer_def split: if_splits)

lemma org_session_wf_handle_message: "org_session_wf s \<Longrightarrow> org_session_wf (fst (org_handle_message env p msg s))"
  by (cases msg)
    (auto simp: org_handle_message_def receive_dm_offer_def org_session_wf_def case_prod_unfold Let_def dest: accept_offer_fresh)

lemma store_wf_roster: "store_wf org (put_org_roster env o' bs st) = store_wf org st"
  "stored_resolved org (put_org_roster env o' bs st) = stored_resolved org st"
  by (simp_all add: put_org_roster_def store_wf_def stored_resolved_def split: option.split)

lemma ingest_kept:
  assumes "org_wf (s, store)"
  shows "kept (s, store) (fst (ingest_payload env payload (s, store)))"
proof (cases rule: ingest_payload_cases [of env payload s store])
  case (roster bs)
  with assms show ?thesis
  proof (cases rule: absorb_roster_cases [of env bs s store])
    case (newer r)
    with roster assms show ?thesis
      by (cases store) (auto simp: kept_def org_wf_def settled_def org_session_wf_def store_wf_roster)
  qed (simp add: kept_refl)
next
  case (message e msg)
  with assms show ?thesis
    by (auto simp: kept_def org_wf_def settled_def org_handle_message_fields org_session_wf_handle_message)
qed (use assms in \<open>simp add: kept_refl\<close>)

lemma org_session_wf_more_resolved:
  "org_session_wf s \<Longrightarrow> org_session_wf (prune_resolved_acceptances (s\<lparr>og_resolved_offer_ids := X\<rparr>))"
  by (rule org_session_wf_prune) (simp add: org_session_wf_def)

lemma persist_record_kept:
  assumes "org_wf (s, store)" and "record_wf (og_org_pubkey s) r"
  shows "kept (s, store) (fst (persist_record env r (s, store)))"
proof -
  have wf: "org_session_wf s" "pred_option (store_wf (og_org_pubkey s)) store" using assms(1) by (auto simp: org_wf_def)
  obtain store1 out where p: "persist_org_record env r store = (store1, out)" by fastforce
  note keeps = persist_org_record_keeps [OF assms(2) wf(2) p]
  show ?thesis
  proof (cases out)
    case (Inl e)
    with p keeps wf(1) show ?thesis by (auto simp: persist_record_def kept_def org_wf_def settled_def)
  next
    case (Inr r1)
    with org_session_wf_more_resolved [OF wf(1)] p keeps show ?thesis by (auto simp: persist_record_def kept_def org_wf_def settled_def)
  qed
qed

lemma org_wf_links: "org_wf (s\<lparr>og_dm_links := ls\<rparr>, store) = org_wf (s, store)"
  "settled i (s\<lparr>og_dm_links := ls\<rparr>, store) = settled i (s, store)"
  by (simp_all add: org_wf_def org_session_wf_def settled_def)

lemma send_dm_offer_kept:
  assumes "org_wf (s, store)"
  shows "kept (s, store) (fst (send_dm_offer env target uri rid (s, store)))"
proof -
  let ?r = "(to_record s)\<lparr>po_dm_links := upsert_link target None (po_dm_links (to_record s))\<rparr>"
  have "record_wf (og_org_pubkey s) ?r"
    using assms record_wf_to_record [of s] by (simp add: org_wf_def record_wf_def)
  note persisted = persist_record_kept [OF assms this, of env]
  obtain s1 store1 out where p: "persist_record env ?r (s, store) = ((s1, store1), out)" by (metis prod.collapse)
  have "fst (send_dm_offer env target uri rid (s, store)) = (s, store) \<or>
      fst (send_dm_offer env target uri rid (s, store)) = (s1, store1) \<or>
      (\<exists>ls. fst (send_dm_offer env target uri rid (s, store)) = (s1\<lparr>og_dm_links := ls\<rparr>, store1))"
    using p by (auto simp: send_dm_offer_def Let_def split: sum.split)
  with persisted p assms show ?thesis by (auto simp: kept_refl kept_def org_wf_links)
qed

lemma link_dm_kept:
  assumes "org_wf (s, store)"
  shows "kept (s, store) (fst (link_dm env peer session (s, store)))"
proof -
  let ?s = "s\<lparr>og_dm_links := upsert_link peer (Some session) (og_dm_links s)\<rparr>"
  have "kept (?s, store) (fst (persist_record env (to_record ?s) (?s, store)))"
    using assms by (intro persist_record_kept record_wf_to_record) (auto simp: org_wf_links org_wf_def org_session_wf_def)
  then show ?thesis by (simp add: kept_def link_dm_def Let_def case_prod_unfold org_wf_links)
qed

lemma reexpose_wf: "org_session_wf s \<Longrightarrow> org_session_wf (reexpose_acceptance i s)"
proof (cases "bt_get (og_pending_acceptances s) i")
  case (Some p)
  moreover assume "org_session_wf s"
  ultimately show ?thesis
    by (cases p) (auto simp: reexpose_acceptance_def org_session_wf_def pending_wf_def dest!: spec [of _ i])
qed (simp add: reexpose_acceptance_def)

lemma reexpose_fields [simp]:
  "og_org_pubkey (reexpose_acceptance i s) = og_org_pubkey s"
  "og_resolved_offer_ids (reexpose_acceptance i s) = og_resolved_offer_ids s"
  by (simp_all add: reexpose_acceptance_def split: option.split pending_acceptance.split)

lemma refresh_wf: "org_session_wf s \<Longrightarrow> org_session_wf (refresh_acceptance db s)"
  by (simp add: refresh_acceptance_def org_session_wf_more_resolved split: sum.split option.split)

lemma refresh_fields [simp]:
  "og_org_pubkey (refresh_acceptance db s) = og_org_pubkey s"
  "og_resolved_offer_ids s \<subseteq> og_resolved_offer_ids (refresh_acceptance db s)"
  by (auto simp: refresh_acceptance_def split: sum.split option.split)

lemma fold_restore_one:
  assumes "\<forall>(i, p) \<in> set ps. acceptance_offer_id p = i" and "org_session_wf s"
  shows "org_session_wf (fold restore_one ps s) \<and> og_org_pubkey (fold restore_one ps s) = og_org_pubkey s \<and>
    og_resolved_offer_ids (fold restore_one ps s) = og_resolved_offer_ids s"
  using assms
proof (induction ps arbitrary: s)
  case (Cons e ps)
  obtain i p where e: "e = (i, p)" by fastforce
  have "org_session_wf (restore_one e s) \<and> og_org_pubkey (restore_one e s) = og_org_pubkey s \<and>
      og_resolved_offer_ids (restore_one e s) = og_resolved_offer_ids s"
    using Cons.prems by (cases p) (auto simp: e restore_one_def org_session_wf_def Let_def)
  with Cons show ?case by simp
qed simp

lemma build_session_kept:
  assumes "record_wf org r"
  shows "org_session_wf (build_session env r signer store) \<and> og_org_pubkey (build_session env r signer store) = org \<and>
    og_resolved_offer_ids (build_session env r signer store) = po_resolved_offer_ids r"
proof -
  have wf: "pending_wf (po_pending_acceptances r)" "po_org_pubkey r = org"
    using assms by (simp_all add: record_wf_def)
  obtain s0 where "build_session env r signer store = fold restore_one (po_pending_acceptances r) s0"
    and "og_pending_acceptances s0 = po_pending_acceptances r" "og_dm_offers s0 = []" "og_group_offers s0 = []"
      "og_org_pubkey s0 = org" "og_resolved_offer_ids s0 = po_resolved_offer_ids r"
    by (simp add: build_session_def restore_pending_offers_def Let_def wf)
  moreover from this wf have "org_session_wf s0" by (simp add: org_session_wf_def)
  ultimately show ?thesis using fold_restore_one [OF pending_wf_elements [OF wf(1)], of s0] by simp
qed

lemma retire_rows_keeps:
  assumes "bt_wf rows" and "store_wf org st" and "retire_rows native rows st = Ok st'"
    and "\<And>r. bt_get rows org = Some (Ok r) \<Longrightarrow> bt_get (os_records st) org = Some (Ok r)"
  shows "store_wf org st' \<and> stored_resolved org st \<subseteq> stored_resolved org st'"
  using assms
proof (induction rows arbitrary: st)
  case (Cons row rows)
  obtain k v where row: "row = (k, v)" by fastforce
  have rows: "bt_wf rows" and fresh: "bt_get rows k = None"
    using Cons.prems(1) by (auto simp: row bt_wf_Cons bt_get_def map_of_eq_None_iff)
  have old: "bt_get (os_records st) org = Some (Ok r)" "k \<noteq> org" if "bt_get rows org = Some (Ok r)" for r
  proof -
    show "k \<noteq> org" using that fresh by auto
    then show "bt_get (os_records st) org = Some (Ok r)"
      using that Cons.prems(4) [of r] row by (simp add: bt_get_def)
  qed
  show ?case
  proof (cases v)
    case (Inl e)
    with Cons.prems(3) row Cons.IH [OF rows Cons.prems(2)] old show ?thesis by simp
  next
    case (Inr r)
    with Cons.prems(3) row obtain changed r1 where c: "retire_completed_acceptances st (Some native) r = Ok (changed, r1)"
      and rest: "retire_rows native rows (if changed then save_org_record k r1 st else st) = Ok st'"
      by (auto simp: and_then_Ok_iff)
    from c obtain ids where r1: "r1 = resolve_completed ids r"
      by (auto simp: retire_completed_acceptances_def and_then_Ok_iff)
    have wf: "bt_wf (os_records st)" using Cons.prems(2) by (simp add: store_wf_def)
    let ?st = "if changed then save_org_record k r1 st else st"
    have own: "bt_get (os_records st) org = Some (Ok r)" if "k = org"
      using Cons.prems(4) [of r] that Inr row by (simp add: bt_get_def)
    have "store_wf org ?st"
      using Cons.prems(2) wf own by (auto simp: store_wf_def save_org_record_def wf_intros r1 resolve_completed_wf)
    moreover have "stored_resolved org st \<subseteq> stored_resolved org ?st"
      using wf own by (auto simp: stored_resolved_def save_org_record_def r1 resolve_completed_def)
    moreover have "bt_get (os_records ?st) org = Some (Ok r')" if "bt_get rows org = Some (Ok r')" for r'
      using old [OF that] wf by (simp add: save_org_record_def)
    ultimately show ?thesis using Cons.IH [OF rows _ rest] by blast
  qed
qed simp

lemma org_step_kept:
  assumes "org_wf st"
  shows "kept st (org_step env st ev)"
proof -
  obtain s store where st: "st = (s, store)" by fastforce
  have wf: "org_session_wf s" "pred_option (store_wf (og_org_pubkey s)) store" using assms by (auto simp: org_wf_def st)
  have none: "kept st (fst (commit_offer env i link None st))" for i link
    by (rule commit_offer_kept [OF assms]) simp
  note simps = kept_refl [OF assms] commit_offer_kept [OF assms] none
  show ?thesis
  proof (cases ev)
    case (Ingested payload)
    with assms show ?thesis by (simp add: st ingest_kept)
  next
    case (AcceptedDm i)
    with simps show ?thesis by (auto simp: accept_dm_offer_def st case_prod_unfold Let_def split: sum.split)
  next
    case (AcceptedGroup i)
    with simps show ?thesis by (auto simp: accept_group_offer_def st case_prod_unfold Let_def split: sum.split)
  next
    case (DismissedDm i)
    with simps show ?thesis by (auto simp: dismiss_dm_offer_def st)
  next
    case (DismissedGroup i)
    with simps show ?thesis by (auto simp: dismiss_group_offer_def st)
  next
    case (CompletedDm i c signer r)
    with assms show ?thesis
      by (auto simp: complete_dm_offer_def st kept_refl dest: peek_dm_offer_id intro!: commit_offer_kept split: sum.split)
  next
    case (CompletedGroup i c signer r)
    with assms show ?thesis
      by (auto simp: complete_group_offer_def st kept_refl dest: peek_group_offer_id intro!: commit_offer_kept split: sum.split)
  next
    case (SentDmOffer target uri i)
    with assms show ?thesis by (simp add: st send_dm_offer_kept)
  next
    case (LinkedDm peer session)
    with assms show ?thesis by (simp add: st link_dm_kept)
  next
    case (Reexposed i)
    with assms show ?thesis by (auto simp: st kept_def org_wf_def settled_def reexpose_wf)
  next
    case Refreshed
    with assms show ?thesis
      by (cases store) (auto simp: st kept_def org_wf_def settled_def refresh_wf intro: subsetD [OF refresh_fields(2)])
  next
    case (NativeSaved native)
    have "store_wf (og_org_pubkey s) db' \<and> stored_resolved (og_org_pubkey s) db \<subseteq> stored_resolved (og_org_pubkey s) db'"
      if "store = Some db" and "retire_accepted_offers native db = Ok db'" for db db'
      using that wf(2) by (intro retire_rows_keeps [of "os_records db"]) (auto simp: retire_accepted_offers_def store_wf_def)
    with NativeSaved wf show ?thesis
      by (cases store) (auto simp: st kept_def org_wf_def settled_def split: sum.split)
  next
    case (Restarted signer)
    show ?thesis
    proof (cases "Option.bind store (\<lambda>db. bt_get (os_records db) (og_org_pubkey s))")
      case (Some row)
      then obtain db where db: "store = Some db" "bt_get (os_records db) (og_org_pubkey s) = Some row"
        by (auto simp: bind_eq_Some_conv)
      show ?thesis
      proof (cases row)
        case (Inr r)
        with db wf(2) have "record_wf (og_org_pubkey s) r" by (simp add: store_wf_def)
        from build_session_kept [OF this, of env signer store] show ?thesis
          using Restarted Inr db wf(2) by (auto simp: st kept_def org_wf_def settled_def stored_resolved_def)
      qed (use Restarted db simps in \<open>simp add: st\<close>)
    qed (use Restarted simps in \<open>simp add: st\<close>)
  qed
qed

text \<open>The events of a run may each meet a different environment, failing storage included.\<close>

interpretation org_events: keeping_machine "\<lambda>st (env, ev). org_step env st ev" org_wf settled "\<lambda>_ _. True"
  using org_step_kept by unfold_locales (auto simp: kept_def case_prod_unfold)

section \<open>The roster across restarts\<close>

definition same_roster :: "'sk org_session \<times> org_store option \<Rightarrow> 'sk org_session \<times> org_store option \<Rightarrow> bool" where
  "same_roster = (\<lambda>(s, store) (s', store').
     og_roster s' = og_roster s \<and> og_roster_bytes s' = og_roster_bytes s \<and> og_org_pubkey s' = og_org_pubkey s \<and>
     map_option os_rosters store' = map_option os_rosters store)"

lemma same_roster_refl [simp]: "same_roster st st"
  by (simp add: same_roster_def case_prod_unfold)

lemma prune_roster [simp]:
  "og_roster (prune_resolved_acceptances s) = og_roster s" "og_roster_bytes (prune_resolved_acceptances s) = og_roster_bytes s"
  by (simp_all add: prune_resolved_acceptances_def)

lemma write_org_record_rosters: "write_org_record org r st = Ok (st', r') \<Longrightarrow> os_rosters st' = os_rosters st"
  by (auto simp: write_org_record_def Let_def and_then_Ok_iff save_org_record_def)

lemma persist_org_record_rosters:
  "map_option os_rosters (fst (persist_org_record env r store)) = map_option os_rosters store"
proof (cases store)
  case (Some st)
  show ?thesis
  proof (cases "write_org_record (po_org_pubkey r) r st")
    case (Inr x)
    obtain st1 r1 where "x = (st1, r1)" by fastforce
    with Inr write_org_record_rosters [of "po_org_pubkey r" r st st1 r1] show ?thesis
      by (simp add: Some persist_org_record_def put_reconciled_org_record_def split: option.split)
  qed (simp add: Some persist_org_record_def put_reconciled_org_record_def)
qed (simp add: persist_org_record_def)

lemma commit_offer_roster: "same_roster st (fst (commit_offer env i link acceptance st))"
proof -
  obtain s store where st: "st = (s, store)" by fastforce
  obtain r where c: "commit_offer env i link acceptance (s, store) =
    (case persist_org_record env r store of
       (store1, Inl e) \<Rightarrow> ((s, store1), Err e)
     | (store1, Inr r) \<Rightarrow>
         (let s1 = prune_resolved_acceptances (s\<lparr>og_dm_links := po_dm_links r,
                og_resolved_offer_ids := po_resolved_offer_ids r, og_pending_acceptances := po_pending_acceptances r\<rparr>)
          in ((s1\<lparr>og_dm_offers := filter (\<lambda>x. do_offer_id x \<noteq> i) (og_dm_offers s1),
                 og_group_offers := filter (\<lambda>x. go_offer_id x \<noteq> i) (og_group_offers s1)\<rparr>, store1), Ok ())))"
    unfolding commit_offer_def prod.case Let_def by blast
  obtain store1 out where p: "persist_org_record env r store = (store1, out)" by fastforce
  with persist_org_record_rosters [of env r store] have "map_option os_rosters store1 = map_option os_rosters store"
    by simp
  then show ?thesis by (cases out) (simp_all add: st c p same_roster_def Let_def)
qed

lemma persist_record_roster: "same_roster st (fst (persist_record env r st))"
proof -
  obtain s store where st: "st = (s, store)" by fastforce
  show ?thesis using persist_org_record_rosters [of env r store]
    by (auto simp: st persist_record_def same_roster_def split: prod.split sum.split)
qed

lemma send_dm_offer_roster: "same_roster st (fst (send_dm_offer env target uri i st))"
proof -
  obtain s store where st: "st = (s, store)" by fastforce
  let ?r = "(to_record s)\<lparr>po_dm_links := upsert_link target None (po_dm_links (to_record s))\<rparr>"
  obtain s1 store1 out where "persist_record env ?r (s, store) = ((s1, store1), out)" by (metis prod.collapse)
  then show ?thesis using persist_record_roster [of "(s, store)" env ?r]
    by (auto simp: st send_dm_offer_def Let_def same_roster_def split: sum.split)
qed

lemma link_dm_roster: "same_roster st (fst (link_dm env peer session st))"
proof -
  obtain s store where st: "st = (s, store)" by fastforce
  let ?s = "s\<lparr>og_dm_links := upsert_link peer (Some session) (og_dm_links s)\<rparr>"
  show ?thesis using persist_record_roster [of "(?s, store)" env "to_record ?s"]
    by (simp add: st link_dm_def Let_def case_prod_unfold same_roster_def)
qed

lemma retire_rows_rosters: "retire_rows native rows st = Ok st' \<Longrightarrow> os_rosters st' = os_rosters st"
proof (induction native rows st rule: retire_rows.induct)
  case (3 native org r rows store)
  then show ?case by (fastforce simp: and_then_Ok_iff save_org_record_def split: if_splits)
qed simp_all

lemma step_same_roster:
  assumes "\<nexists>payload. ev = Ingested payload" and "\<nexists>signer. ev = Restarted signer"
  shows "same_roster st (org_step env st ev)"
proof -
  obtain s store where st: "st = (s, store)" by fastforce
  note [simp] = commit_offer_roster [of "(s, store)"] send_dm_offer_roster link_dm_roster
  show ?thesis
  proof (cases ev)
    case (NativeSaved native)
    then show ?thesis
      by (cases store) (auto simp: st same_roster_def retire_accepted_offers_def dest: retire_rows_rosters split: sum.split)
  next
    case Refreshed
    then show ?thesis
      by (cases store) (auto simp: st same_roster_def refresh_acceptance_def split: sum.split option.split)
  next
    case (Reexposed i)
    then show ?thesis
      by (simp add: st same_roster_def reexpose_acceptance_def split: option.split pending_acceptance.split)
  qed (use assms in \<open>simp_all add: st accept_dm_offer_def accept_group_offer_def dismiss_dm_offer_def
      dismiss_group_offer_def complete_dm_offer_def complete_group_offer_def case_prod_unfold Let_def split: sum.split\<close>)
qed

definition roster_inv ::
    "('vk, 'sg, 'sk, 'u, 'z) org_session_env_scheme \<Rightarrow> 'sk org_session \<times> org_store option \<Rightarrow> bool" where
  "roster_inv env = (\<lambda>(s, store). od_fault env = None \<and> org_wf (s, store) \<and> org_verified env s \<and>
     pred_option (\<lambda>db. bt_wf (os_rosters db) \<and>
       bt_get (os_rosters db) (og_org_pubkey s) = map_option Ok (og_roster_bytes s)) store)"

definition at_least :: "string \<times> u64 option \<Rightarrow> 'sk org_session \<times> org_store option \<Rightarrow> bool" where
  "at_least = (\<lambda>(org, v) (s, store). og_org_pubkey s = org \<and> v \<le> org_version s)"

lemma same_roster_keeps:
  assumes "same_roster st st'" and "roster_inv env st" and "org_wf st'"
  shows "roster_inv env st' \<and> (at_least k st \<longrightarrow> at_least k st')"
  using assms org_verified_cong [of "fst st'" "fst st" env]
  by (cases "snd st"; cases "snd st'")
    (auto simp: roster_inv_def same_roster_def at_least_def org_version_def case_prod_unfold)

lemma ingest_roster:
  assumes "roster_inv env (s, store)"
  shows "roster_inv env (fst (ingest_payload env payload (s, store))) \<and>
    (at_least k (s, store) \<longrightarrow> at_least k (fst (ingest_payload env payload (s, store))))"
proof -
  obtain s' store' sent where i: "ingest_payload env payload (s, store) = ((s', store'), sent)" by (metis prod.collapse)
  note adv = ingest_payload_advances [OF i]
  have "org_wf (s', store')" using ingest_kept [of s store env payload] assms i by (simp add: kept_def roster_inv_def)
  moreover have "at_least k (s, store) \<longrightarrow> at_least k (s', store')"
    using adv by (auto simp: at_least_def advanced_def org_version_def dest: order.strict_implies_order order.trans)
  moreover have "pred_option (\<lambda>db. bt_wf (os_rosters db) \<and>
      bt_get (os_rosters db) (og_org_pubkey s') = map_option Ok (og_roster_bytes s')) store'"
  proof (cases rule: ingest_payload_cases [of env payload s store])
    case (roster bs)
    then show ?thesis
    proof (cases rule: absorb_roster_cases [of env bs s store])
      case (newer r)
      with roster i assms show ?thesis
        by (cases store) (auto simp: roster_inv_def put_org_roster_def wf_intros)
    qed (use roster i assms in \<open>auto simp: roster_inv_def\<close>)
  qed (use i assms in \<open>auto simp: roster_inv_def org_handle_message_fields\<close>)
  ultimately show ?thesis using adv assms by (simp add: i roster_inv_def)
qed

lemma restore_one_roster [simp]:
  "og_roster (restore_one e s) = og_roster s" "og_roster_bytes (restore_one e s) = og_roster_bytes s"
  by (simp_all add: restore_one_def Let_def case_prod_unfold split: pending_acceptance.split)

lemma fold_restore_roster [simp]:
  "og_roster (fold restore_one es s) = og_roster s" "og_roster_bytes (fold restore_one es s) = og_roster_bytes s"
  by (induction es arbitrary: s) simp_all

lemma restart_same_roster:
  assumes "roster_inv env (s, store)"
  shows "same_roster (s, store) (org_step env (s, store) (Restarted signer))"
proof (cases "Option.bind store (\<lambda>db. bt_get (os_records db) (og_org_pubkey s))")
  case (Some row)
  then obtain db where db: "store = Some db" "bt_get (os_records db) (og_org_pubkey s) = Some row"
    by (auto simp: bind_eq_Some_conv)
  show ?thesis
  proof (cases row)
    case (Inr r)
    with db assms have r: "record_wf (og_org_pubkey s) r" by (auto simp: roster_inv_def org_wf_def store_wf_def)
    have "load_roster env (og_org_pubkey s) store =
        (case (og_roster s, og_roster_bytes s) of (Some r, Some bs) \<Rightarrow> Some (r, bs) | _ \<Rightarrow> None)"
      using assms db by (auto simp: roster_inv_def load_roster_def read_row_def org_verified_def split: option.splits)
    moreover have "og_roster s = None \<longleftrightarrow> og_roster_bytes s = None"
      using assms by (auto simp: roster_inv_def org_verified_def split: option.splits)
    moreover have "og_org_pubkey (build_session env r signer store) = og_org_pubkey s"
      using build_session_kept [OF r, of env signer store] by simp
    ultimately show ?thesis using r db Inr
      by (auto simp: same_roster_def build_session_def restore_pending_offers_def record_wf_def Let_def split: option.splits)
  qed (use db in simp)
qed simp

lemma step_roster:
  assumes "roster_inv env st"
  shows "roster_inv env (org_step env st ev) \<and> (at_least k st \<longrightarrow> at_least k (org_step env st ev))"
proof -
  obtain s store where st: "st = (s, store)" by fastforce
  have "org_wf st" using assms by (auto simp: roster_inv_def)
  then have wf: "org_wf (org_step env st ev)" using org_step_kept [of st env ev] by (simp add: kept_def)
  show ?thesis
  proof (cases "\<exists>payload. ev = Ingested payload")
    case True
    with assms show ?thesis by (auto simp: st ingest_roster)
  next
    case False
    then have "same_roster st (org_step env st ev)"
      using restart_same_roster [OF assms [unfolded st]] step_same_roster [of ev st env] st
      by (cases "\<exists>signer. ev = Restarted signer") (blast, simp)
    then show ?thesis using assms wf by (rule same_roster_keeps)
  qed
qed

interpretation org_rosters: keeping_machine "org_step env" "roster_inv env" at_least "\<lambda>_ _. True" for env
  by unfold_locales (use step_roster in blast)+

section \<open>A concrete organisation\<close>

definition demo_org_ctx :: org_context where
  "demo_org_ctx = \<lparr>oc_org_pubkey = demo_org_key, oc_mesh_id = ''m'', oc_channel_kind = ORG_CHANNEL_KIND\<rparr>"

definition demo_session_env :: "(byte, byte \<times> bytes, byte, string) org_session_env" where
  "demo_session_env = org_env.extend demo_org_env
     \<lparr>url_parse = Ok, url_scheme = (\<lambda>u. u), url_host = (\<lambda>_. None), url_pairs = (\<lambda>_. []), url_fragment = (\<lambda>_. None),
      url_clear_query = (\<lambda>u. u), url_extend_pairs = (\<lambda>u _. u), url_text = (\<lambda>u. u), hex_upper = demo_to_hex,
      url64_encode = demo_to_hex, url64_decode = (\<lambda>_. Err ''base64''), sender_to_json = (\<lambda>_. Err ''json''),
      sender_from_json = (\<lambda>_. Err ''json''), od_docs = demo_doc_env,
      od_wire_from = (\<lambda>p. if p = [0] then Ok (WireRoster (demo_to_hex [1, 2]))
        else (let e = sign_envelope demo_org_env 7 demo_org_ctx [9]
              in Ok (WireSigned (demo_to_hex [9]) (os_peer_id e) (demo_to_hex (os_sig e))))),
      od_wire_to = (\<lambda>_. Ok []), od_message_from = (\<lambda>_. Ok (GroupOffer ''o1'' demo_org_key ''n'' None ''g'')),
      od_message_to = (\<lambda>_. Ok []), od_publish = (\<lambda>_ _ _. Ok ()), od_open_room = (\<lambda>_ _ _. Ok ()),
      od_identity = Ok None, od_fault = None\<rparr>"

definition demo_org_session :: "org_roster option \<Rightarrow> byte org_session" where
  "demo_org_session r =
     \<lparr>og_org_pubkey = demo_org_key, og_org_name = ''acme'', og_mesh_id = ''m'', og_display_name = ''n'',
      og_listen_port = 0, og_static_peer = None, og_control_channel = ''c'', og_signer = 7, og_own_peer_id = demo_org_key,
      og_roster = r, og_roster_bytes = None, og_dm_offers = [], og_group_offers = [], og_dm_links = [],
      og_seen_offer_ids = {}, og_resolved_offer_ids = {}, og_pending_acceptances = []\<rparr>"

definition demo_org_roster :: org_roster where
  "demo_org_roster = \<lparr>or_org_pubkey = demo_org_key, or_org_name = ''acme'', or_version = 1,
     or_members = [demo_org_member demo_org_key ''admin'']\<rparr>"

definition demo_group_offer :: org_group_offer where
  "demo_group_offer = \<lparr>go_offer_id = ''o1'', go_from_peer_id = demo_org_key, go_from_name = ''n'',
     go_group_label = None, go_group_invite_uri = ''g''\<rparr>"

definition demo_org_store :: org_store where
  "demo_org_store = \<lparr>os_records = [], os_rosters = [], os_sessions = [], os_groups = [], os_dm_snapshots = [],
     os_group_snapshots = []\<rparr>"

lemma demo_session_sigs [simp]:
  "osigs demo_session_env = osigs demo_org_env" "osign demo_session_env = osign demo_org_env"
  "overifying demo_session_env = overifying demo_org_env" "od_docs demo_session_env = demo_doc_env"
  "ob64_decode demo_session_env (demo_to_hex b) = Ok b"
  by (simp_all add: demo_session_env_def org_env.defs demo_org_env_def demo_of_to_hex)

lemma demo_ingest_roster:
  "ingest_payload demo_session_env [0] (demo_org_session None, Some demo_org_store) =
   (((demo_org_session None)\<lparr>og_roster := Some (demo_roster_of 2), og_roster_bytes := Some [1, 2]\<rparr>,
     Some (demo_org_store\<lparr>os_rosters := [(demo_org_key, Ok [1, 2])]\<rparr>)), [])"
proof -
  have "od_wire_from demo_session_env [0] = Ok (WireRoster (demo_to_hex [1, 2]))" "od_fault demo_session_env = None"
    by (simp_all add: demo_session_env_def org_env.defs)
  then show ?thesis
    by (simp add: ingest_payload_def absorb_roster_bytes_def demo_org_session_def demo_roster_verifies put_org_roster_def
        demo_org_store_def)
qed

lemma demo_ingest_offer:
  "ingest_payload demo_session_env [5] (demo_org_session (Some demo_org_roster), None) =
   (((demo_org_session (Some demo_org_roster))\<lparr>og_group_offers := [demo_group_offer], og_seen_offer_ids := {''o1''}\<rparr>, None), [])"
proof -
  let ?e = "sign_envelope demo_org_env 7 demo_org_ctx [9]"
  have e: "?e = \<lparr>os_payload = [9], os_peer_id = demo_org_key, os_sig = os_sig ?e\<rparr>"
    by (simp add: sign_envelope_def demo_org_key_def)
  have "verify_envelope demo_session_env x ctx = verify_envelope demo_org_env x ctx" for x ctx
    by (simp add: verify_envelope_def)
  moreover have "od_wire_from demo_session_env [5] = Ok (WireSigned (demo_to_hex [9]) demo_org_key (demo_to_hex (os_sig ?e)))"
      "od_message_from demo_session_env [9] = Ok (GroupOffer ''o1'' demo_org_key ''n'' None ''g'')"
    by (simp_all add: demo_session_env_def org_env.defs Let_def sign_envelope_def demo_org_key_def)
  moreover have "org_ctx (demo_org_session r) = demo_org_ctx" for r
    by (simp add: org_ctx_def demo_org_session_def demo_org_ctx_def)
  ultimately show ?thesis using sign_envelope_verifies [OF demo_org_laws, of 7 demo_org_ctx "[9]"]
    by (simp add: ingest_payload_def Let_def e [symmetric] is_ok_def)
      (simp add: org_handle_message_def accept_offer_def demo_org_session_def sender_in_roster_def demo_org_roster_def
        demo_org_member_def demo_group_offer_def)
qed

section \<open>What holds of an organisation\<close>

lemma ingest_offer_cases:
  assumes "ingest_payload env payload (s, store) = ((s', store'), sent)"
  obtains (same) "og_dm_offers s' = og_dm_offers s" "og_group_offers s' = og_group_offers s"
    | (message) e msg where "verify_envelope env e (org_ctx s) = Ok ()" "od_message_from env (os_payload e) = Ok msg"
        "s' = fst (org_handle_message env (os_peer_id e) msg s)"
proof (cases rule: ingest_payload_cases [of env payload s store])
  case (roster bs)
  then show ?thesis
    by (cases rule: absorb_roster_cases [of env bs s store]) (use assms same in auto)
qed (use assms that in auto)

text \<open>
  C15. While a member stays in an organisation its roster only advances: while storage works, whatever
  frames arrive and whatever the member does in it, restarts included, the roster in force is signed by
  the same organisation key, its version never decreases, and the bytes on disk are the ones in force.
  Leaving deletes the stored roster; joining again starts a new membership, outside these runs.
\<close>

theorem org_roster_only_advances:
  assumes "roster_inv env (s, store)"
  shows "roster_inv env (foldl (org_step env) (s, store) evs) \<and>
    og_org_pubkey (fst (foldl (org_step env) (s, store) evs)) = og_org_pubkey s \<and>
    org_version s \<le> org_version (fst (foldl (org_step env) (s, store) evs))"
proof -
  have "at_least (og_org_pubkey s, org_version s) (s, store)" by (simp add: at_least_def)
  from org_rosters.run_keeps [OF assms this, of evs] org_rosters.run_inv [OF assms, of evs] show ?thesis
    by (simp add: at_least_def case_prod_unfold)
qed

theorem org_roster_only_advances_witness:
  "let st = fst (ingest_payload demo_session_env [0] (demo_org_session None, Some demo_org_store))
   in org_version (fst st) = Some 2 \<and>
      Some 2 \<le> org_version (fst (foldl (org_step demo_session_env) st [Restarted 7, Ingested [0], LinkedDm ''p'' ''q'']))"
proof -
  let ?s = "(demo_org_session None)\<lparr>og_roster := Some (demo_roster_of 2), og_roster_bytes := Some [1, 2]\<rparr>"
  let ?db = "demo_org_store\<lparr>os_rosters := [(demo_org_key, Ok [1, 2])]\<rparr>"
  have "roster_inv demo_session_env (?s, Some ?db)"
    using demo_roster_verifies
    by (simp add: roster_inv_def demo_session_env_def org_env.defs org_wf_def org_session_wf_def pending_wf_def store_wf_def
        demo_org_store_def demo_org_session_def org_verified_def bt_wf_def bt_get_def)
  from org_roster_only_advances [OF this, of "[Restarted 7, Ingested [0], LinkedDm ''p'' ''q'']"]
  show ?thesis unfolding demo_ingest_roster Let_def by (simp add: org_version_def demo_roster_of_def del: foldl_Cons)
qed

text \<open>
  C20. An offer of a conversation appears only from an authentic frame: the envelope is signed for this
  organisation, mesh and channel by the offering peer, that peer is in the roster in force, the offer
  names this device, its id is neither settled nor seen, and an invitation to a direct conversation is
  verified to be the offering peer's own invitation for this device.
\<close>

theorem offers_authenticated:
  assumes "ingest_payload env payload (s, store) = ((s', store'), sent)"
  shows "(\<forall>x \<in> set (og_dm_offers s') - set (og_dm_offers s).
      (\<exists>e. verify_envelope env e (org_ctx s) = Ok () \<and> os_peer_id e = do_from_peer_id x \<and>
        od_message_from env (os_payload e) =
          Ok (DmOffer (do_offer_id x) (og_own_peer_id s) (do_from_name x) (do_invite_uri x))) \<and>
      sender_in_roster s (do_from_peer_id x) \<and> do_offer_id x \<notin> og_resolved_offer_ids s \<union> og_seen_offer_ids s \<and>
      verify_offered_invite env (do_invite_uri x) (do_from_peer_id x) (og_own_peer_id s) = Ok ()) \<and>
    (\<forall>x \<in> set (og_group_offers s') - set (og_group_offers s).
      (\<exists>e. verify_envelope env e (org_ctx s) = Ok () \<and> os_peer_id e = go_from_peer_id x \<and>
        od_message_from env (os_payload e) =
          Ok (GroupOffer (go_offer_id x) (og_own_peer_id s) (go_from_name x) (go_group_label x) (go_group_invite_uri x))) \<and>
      sender_in_roster s (go_from_peer_id x) \<and> go_offer_id x \<notin> og_resolved_offer_ids s \<union> og_seen_offer_ids s)"
  using assms
proof (cases rule: ingest_offer_cases)
  case (message e msg)
  show ?thesis
  proof (cases msg)
    case (Hello i name)
    with message show ?thesis by (simp add: org_handle_message_def)
  next
    case (DmOffer i target name uri)
    with message show ?thesis
      by (auto simp: org_handle_message_def receive_dm_offer_def case_prod_unfold Let_def is_ok_iff
          dest!: accept_offer_fresh split: if_splits)
  next
    case (GroupOffer i target name label uri)
    with message show ?thesis
      by (auto simp: org_handle_message_def case_prod_unfold Let_def dest!: accept_offer_fresh split: if_splits)
  qed
qed simp

theorem offers_authenticated_witness:
  "let s = demo_org_session (Some demo_org_roster); ((s', _), _) = ingest_payload demo_session_env [5] (s, None)
   in og_group_offers s' = [demo_group_offer] \<and> sender_in_roster s (go_from_peer_id demo_group_offer) \<and>
      (\<exists>e. verify_envelope demo_session_env e (org_ctx s) = Ok () \<and> os_peer_id e = go_from_peer_id demo_group_offer)"
proof -
  have "demo_group_offer \<notin> set (og_group_offers (demo_org_session (Some demo_org_roster)))"
    by (simp add: demo_org_session_def)
  with offers_authenticated [OF demo_ingest_offer] show ?thesis by (auto simp: demo_ingest_offer Let_def)
qed

lemma accept_dm_commits:
  assumes "accept_dm_offer env i st0 = (st, Ok x)"
  shows "\<exists>link. commit_offer env i link None st0 = (st, Ok ())"
proof -
  obtain s store where st0: "st0 = (s, store)" by fastforce
  with assms obtain y where "peek_dm_offer env i s = Ok y" by (auto simp: accept_dm_offer_def split: sum.splits)
  with assms st0 show ?thesis
    by (cases "commit_offer env i (Some (do_from_peer_id y, None)) None (s, store)")
      (auto simp: accept_dm_offer_def and_then_Ok_iff)
qed

lemma accept_group_commits:
  assumes "accept_group_offer env i st0 = (st, Ok x)"
  shows "\<exists>link. commit_offer env i link None st0 = (st, Ok ())"
proof -
  obtain s store where st0: "st0 = (s, store)" by fastforce
  with assms obtain y where "peek_group_offer i s = Ok y" by (auto simp: accept_group_offer_def split: sum.splits)
  with assms st0 show ?thesis
    by (cases "commit_offer env i None None (s, store)") (auto simp: accept_group_offer_def and_then_Ok_iff)
qed

lemma dismiss_commits:
  "i \<in> do_offer_id ` set (og_dm_offers (fst st0)) \<and> dismiss_dm_offer env i st0 = (st, Ok ()) \<or>
   i \<in> go_offer_id ` set (og_group_offers (fst st0)) \<and> dismiss_group_offer env i st0 = (st, Ok ()) \<Longrightarrow>
   commit_offer env i None None st0 = (st, Ok ())"
  by (cases st0) (auto simp: dismiss_dm_offer_def dismiss_group_offer_def list_ex_iff split: if_splits)

text \<open>
  What is resolved belongs to the membership: leaving deletes the record, and joining again starts with
  nothing resolved, so the same signed frame then shows its offer once more.
\<close>

lemma fresh_record_written:
  assumes "persist_org_record env cand store = (store1, Ok r)" and "po_pending_acceptances cand = []"
    and "\<And>st. store = Some st \<Longrightarrow> bt_get (os_records st) (po_org_pubkey cand) = None"
  shows "r = cand"
proof (cases store)
  case (Some st)
  have same: "drop_resolved cand = cand" "resolve_completed [] cand = cand"
    using assms(2) by (cases cand; simp add: drop_resolved_def resolve_completed_def bt_retain_def)+
  have "write_org_record (po_org_pubkey cand) cand st = Ok (save_org_record (po_org_pubkey cand) cand st, cand)"
    using assms(3) [OF Some] by (simp add: write_org_record_def read_row_def same retire_completed_acceptances_def assms(2))
  with assms(1) Some show ?thesis
    by (auto simp: persist_org_record_def put_reconciled_org_record_def Let_def split: option.splits)
qed (use assms(1) in \<open>simp add: persist_org_record_def\<close>)

lemma rejoined_starts_anew:
  assumes "leave_org env org rt = (rt1, Ok ())"
    and "join_org env' uri display port static rt1 = (rt2, Ok (s, sent))" and "map_option pb_org_pubkey (to_option (parse_org_bundle env' uri)) = Some org"
  shows "og_resolved_offer_ids s = {} \<and> og_pending_acceptances s = [] \<and> og_dm_offers s = [] \<and> og_group_offers s = []"
proof -
  have gone: "rt_store rt1 = Some st \<Longrightarrow> bt_get (os_records st) org = None" for st
    using assms(1) by (auto simp: leave_org_def delete_org_def Let_def split: option.splits)
  obtain b where b: "parse_org_bundle env' uri = Ok b" "pb_org_pubkey b = org"
    using assms(3) by (cases "parse_org_bundle env' uri") auto
  let ?cand = "\<lparr>po_org_pubkey = org, po_org_name = pb_org_name b, po_mesh_id = pb_mesh_id b,
         po_display_name = display, po_listen_port = port, po_static_peer = static, po_dm_links = [],
         po_resolved_offer_ids = {}, po_pending_acceptances = []\<rparr>"
  obtain signer st1 r where s: "s = build_session env' r signer st1" "persist_org_record env' ?cand (rt_store rt1) = (st1, Ok r)"
    using assms(2) b by (auto simp: join_org_def Let_def split: sum.splits if_splits prod.splits)
  have "r = ?cand" by (rule fresh_record_written [OF s(2)]) (simp_all add: gone)
  then show ?thesis by (simp add: s(1) build_session_def restore_pending_offers_def Let_def)
qed

text \<open>
  C21. While a member stays in an organisation, an offer that was accepted or dismissed never comes
  back: whatever happens to the joined organisation afterwards, the same frame again, failing storage
  and restarts included, no offer with its id is shown. The promise ends with the membership: leaving
  deletes the record, and after joining again (rejoined_starts_anew) nothing is resolved.
\<close>

theorem resolved_offer_never_returns:
  assumes "org_wf st0"
    and "(\<exists>x. accept_dm_offer env i st0 = (st, Ok x)) \<or> (\<exists>x. accept_group_offer env i st0 = (st, Ok x)) \<or>
      i \<in> do_offer_id ` set (og_dm_offers (fst st0)) \<and> dismiss_dm_offer env i st0 = (st, Ok ()) \<or>
      i \<in> go_offer_id ` set (og_group_offers (fst st0)) \<and> dismiss_group_offer env i st0 = (st, Ok ())"
  shows "i \<notin> do_offer_id ` set (og_dm_offers (fst (foldl (\<lambda>st (env, ev). org_step env st ev) st evs))) \<union>
    go_offer_id ` set (og_group_offers (fst (foldl (\<lambda>st (env, ev). org_step env st ev) st evs)))"
proof -
  from assms(2) obtain link where "commit_offer env i link None st0 = (st, Ok ())"
    using accept_dm_commits accept_group_commits dismiss_commits by blast
  with assms(1) have "org_wf st" "settled i st"
    using commit_offer_keeps [of "fst st0" "snd st0" i None env link st "Ok ()" i] by simp_all
  from org_events.run_keeps [OF this, of evs] org_events.run_inv [OF this(1), of evs]
  show ?thesis by (auto simp: settled_def org_wf_def org_session_wf_def case_prod_unfold)
qed

theorem resolved_offer_never_returns_witness:
  "let s = (demo_org_session (Some demo_org_roster))\<lparr>og_group_offers := [demo_group_offer], og_seen_offer_ids := {''o1''}\<rparr>;
       (st, out) = dismiss_group_offer demo_session_env ''o1'' (s, None)
   in out = Ok () \<and>
      ''o1'' \<notin> go_offer_id ` set (og_group_offers (fst (foldl (\<lambda>st (env, ev). org_step env st ev) st
        [(demo_session_env, Ingested [5]), (demo_session_env, Restarted 7)])))"
proof -
  let ?s = "(demo_org_session (Some demo_org_roster))\<lparr>og_group_offers := [demo_group_offer], og_seen_offer_ids := {''o1''}\<rparr>"
  obtain st where d: "dismiss_group_offer demo_session_env ''o1'' (?s, None) = (st, Ok ())"
    by (simp add: dismiss_group_offer_def demo_group_offer_def commit_offer_def persist_org_record_def Let_def)
  have "org_wf (?s, None)"
    by (simp add: org_wf_def org_session_wf_def pending_wf_def demo_org_session_def bt_wf_def bt_get_def)
  moreover have "''o1'' \<in> go_offer_id ` set (og_group_offers (fst (?s, None)))" by (simp add: demo_group_offer_def)
  ultimately show ?thesis
    using resolved_offer_never_returns [where evs = "[(demo_session_env, Ingested [5]), (demo_session_env, Restarted 7)]"
        and env = demo_session_env and i = "''o1''" and st = st] d
    by (simp add: Let_def del: foldl_Cons)
qed

section \<open>No acceptance is lost\<close>

lemma completed_acceptances_iff:
  assumes "completed_acceptances st native ps = Ok ids" and "distinct (map fst ps)" and "(i, p) \<in> set ps"
  shows "i \<in> set ids \<longleftrightarrow> pred_option (matches_native p) native \<and> native_acceptance_is_durable st p = Ok True"
  using assms
proof (induction st native ps arbitrary: ids rule: completed_acceptances.induct)
  case (2 store native j q ps)
  have only: "set ids' \<subseteq> fst ` set ps" if "completed_acceptances store native ps = Ok ids'" for ids'
    using that
  proof (induction store native ps arbitrary: ids' rule: completed_acceptances.induct)
    case (2 store native j q ps)
    then show ?case by (fastforce simp: and_then_Ok_iff split: if_splits)
  qed simp
  show ?case
  proof (cases "i = j")
    case True
    with 2(4,5) have "q = p" "i \<notin> fst ` set ps" by (auto simp: image_iff)
    with True 2(3) only show ?thesis
      by (cases native) (auto simp: and_then_Ok_iff split: if_splits)
  next
    case False
    with 2 show ?thesis by (cases native) (auto simp: and_then_Ok_iff split: if_splits)
  qed
qed simp

lemma bt_get_removes: "bt_wf m \<Longrightarrow> bt_get (fold bt_remove is m) i = (if i \<in> set is then None else bt_get m i)"
  by (induction "is" arbitrary: m) (simp_all add: wf_intros)

lemma bt_get_or_insert:
  "bt_wf m \<Longrightarrow> distinct (map fst ps) \<Longrightarrow>
   bt_get (fold (\<lambda>(i, p) m. if bt_contains m i then m else bt_insert i p m) ps m) i =
     (case bt_get m i of Some p \<Rightarrow> Some p | None \<Rightarrow> map_of ps i)"
proof (induction ps arbitrary: m)
  case (Cons e ps)
  obtain j q where e: "e = (j, q)" by fastforce
  with Cons show ?case
    by (auto simp: wf_intros bt_contains_def image_iff split: option.splits dest: map_of_SomeD)
qed (simp split: option.split)

text \<open>
  C22. Writing the record of an organisation loses no accepted offer. An acceptance that the new record
  or the stored one waits for, and that neither says is settled, is still waited for in the row written,
  unless the conversation it belongs to is durable with its key and snapshot; then the offer is settled.
\<close>

theorem acceptance_never_lost:
  assumes "record_wf org cand" and "store_wf org st" and "write_org_record org cand st = Ok (st', r)"
    and "i \<notin> po_resolved_offer_ids cand \<union> stored_resolved org st"
    and "bt_get (po_pending_acceptances cand) i = Some p \<or>
      bt_get (po_pending_acceptances cand) i = None \<and>
      (\<exists>old. bt_get (os_records st) org = Some (Ok old) \<and> bt_get (po_pending_acceptances old) i = Some p)"
  shows "bt_get (os_records st') org = Some (Ok r) \<and>
    (if native_acceptance_is_durable st p = Ok True
     then i \<in> po_resolved_offer_ids r \<and> bt_get (po_pending_acceptances r) i = None
     else i \<notin> po_resolved_offer_ids r \<and> bt_get (po_pending_acceptances r) i = Some p)"
proof -
  from assms(3) obtain stored ids where stored: "read_row (os_records st) org = Ok stored"
    and ids: "completed_acceptances st None (po_pending_acceptances
        (drop_resolved (case stored of None \<Rightarrow> cand | Some x \<Rightarrow> merge_stored x cand))) = Ok ids"
    and r: "r = resolve_completed ids (drop_resolved (case stored of None \<Rightarrow> cand | Some x \<Rightarrow> merge_stored x cand))"
    by (auto simp: write_org_record_def Let_def and_then_Ok_iff retire_completed_acceptances_def)
  define m where "m = (case stored of None \<Rightarrow> cand | Some x \<Rightarrow> merge_stored x cand)"
  have row: "bt_get (os_records st) org = map_option Ok stored"
    using stored by (auto simp: read_row_def split: option.splits sum.splits)
  then have old: "pending_wf (po_pending_acceptances x)" if "stored = Some x" for x
    using assms(2) that by (simp add: store_wf_def record_wf_def)
  have cand: "bt_wf (po_pending_acceptances cand)" using assms(1) by (simp add: record_wf_def pending_wf_def)
  have "pending_wf (po_pending_acceptances m)"
    using assms(1) old
    by (auto simp: m_def merge_stored_def pending_wf_or_insert pending_wf_elements record_wf_def split: option.split)
  moreover have "bt_get (po_pending_acceptances m) i = Some p" "i \<notin> po_resolved_offer_ids m"
    using assms(1,4,5) row old cand
    by (auto simp: m_def merge_stored_def stored_resolved_def bt_get_or_insert pending_wf_def bt_wf_distinct
        simp flip: bt_get_def split: option.splits)
  ultimately have wf: "bt_wf (po_pending_acceptances m)" "bt_get (po_pending_acceptances m) i = Some p"
      "i \<notin> po_resolved_offer_ids m" by (simp_all add: pending_wf_def)
  have d: "bt_wf (po_pending_acceptances (drop_resolved m))" "bt_get (po_pending_acceptances (drop_resolved m)) i = Some p"
    using wf by (simp_all add: drop_resolved_def wf_intros bt_get_retain)
  then have "(i, p) \<in> set (po_pending_acceptances (drop_resolved m))" by (auto simp: bt_get_def dest: map_of_SomeD)
  from completed_acceptances_iff [OF ids [folded m_def] bt_wf_distinct [OF d(1)] this]
  have "i \<in> set ids \<longleftrightarrow> native_acceptance_is_durable st p = Ok True" by simp
  moreover have "i \<in> po_resolved_offer_ids r \<longleftrightarrow> i \<in> set ids"
      "bt_get (po_pending_acceptances r) i = (if i \<in> set ids then None else Some p)"
    using wf d by (auto simp: r [folded m_def] resolve_completed_def drop_resolved_def bt_get_removes)
  ultimately show ?thesis using write_org_record_keeps(3) [OF assms(1-3)] by simp
qed

theorem acceptance_never_lost_witness:
  "let p = PendingGroup ''g'' [1] demo_group_offer None;
       cand = (to_record (demo_org_session None))\<lparr>po_pending_acceptances := [(''o1'', p)]\<rparr>
   in \<exists>st r. write_org_record demo_org_key cand demo_org_store = Ok (st, r) \<and>
        bt_get (po_pending_acceptances r) ''o1'' = Some p"
proof -
  let ?p = "PendingGroup ''g'' [1] demo_group_offer None"
  let ?cand = "(to_record (demo_org_session None))\<lparr>po_pending_acceptances := [(''o1'', ?p)]\<rparr>"
  have durable: "native_acceptance_is_durable demo_org_store ?p = Ok False"
    by (simp add: native_acceptance_is_durable_def demo_org_store_def read_row_def bt_get_def)
  then obtain st r where w: "write_org_record demo_org_key ?cand demo_org_store = Ok (st, r)"
    by (auto simp: write_org_record_def read_row_def demo_org_store_def bt_get_def to_record_def demo_org_session_def
        drop_resolved_def bt_retain_def retire_completed_acceptances_def)
  have "record_wf demo_org_key ?cand" "store_wf demo_org_key demo_org_store"
    by (simp_all add: record_wf_def store_wf_def pending_wf_def to_record_def demo_org_session_def demo_org_store_def
        bt_wf_def bt_get_def demo_group_offer_def)
  from acceptance_never_lost [OF this w, of "''o1''" ?p] durable w show ?thesis
    by (auto simp: Let_def to_record_def demo_org_session_def stored_resolved_def demo_org_store_def bt_get_def)
qed

end
