(* ===== verification/Group_Commit_Log.thy ===== *)
theory Group_Commit_Log
  imports Prelude
begin

text \<open>
  The durable commit log a group admin replays to a member that missed commits
  (\<open>persistence/group_commits.rs\<close>). Rows live in one ordered table of all groups, under the
  key \<open>group_id/epoch\<close> with the epoch zero-padded to twenty digits; the log of one group is
  read as a key range. The table is a \<open>BTreeMap\<close> from row keys to encrypted blobs. The cipher
  and the outcome of a database transaction are parameters (\<open>dek_env\<close>): a transaction that
  fails leaves the table as it was.

  The theorems: decimal padding makes the byte order of the keys the numeric order of the
  epochs, so the range read returns exactly the group's epochs from the requested one on, in
  ascending order; rows of other groups are neither returned nor overwritten.
\<close>

section \<open>Model\<close>

datatype persistence_error = Db string | Crypto string

record dek_env =
  encrypt_blob :: "bytes \<Rightarrow> (persistence_error, bytes) result"
  decrypt_blob :: "bytes \<Rightarrow> (persistence_error, bytes) result"
  tx_commits :: bool

type_synonym rows = "(string, bytes) btree_map"

definition db_put :: "dek_env \<Rightarrow> string \<Rightarrow> bytes \<Rightarrow> rows \<Rightarrow> (persistence_error, rows) result" where
  "db_put env key plaintext t =
     and_then (encrypt_blob env plaintext)
       (\<lambda>blob. if tx_commits env then Ok (bt_insert key blob t) else Err (Db ''transaction''))"

definition commit_log_key :: "string \<Rightarrow> u64 \<Rightarrow> string" where
  "commit_log_key group_id epoch = group_id @ ''/'' @ pad_dec 20 (unat epoch)"

definition append_group_commit ::
    "dek_env \<Rightarrow> string \<Rightarrow> u64 \<Rightarrow> bytes \<Rightarrow> rows \<Rightarrow> (persistence_error, rows) result" where
  "append_group_commit env group_id epoch commit t =
     (if CHR ''/'' \<in> set group_id then Err (Db (''group_id must not contain '' @ group_id))
      else db_put env (commit_log_key group_id epoch) commit t)"

text \<open>\<open>str::parse::<u64>\<close> on a string of ASCII digits: the value, or an error when it does not fit.\<close>

definition parse_u64 :: "string \<Rightarrow> u64 option" where
  "parse_u64 s =
     (let n = foldl (\<lambda>acc c. 10 * acc + digit_val c) 0 s
      in if s \<noteq> [] \<and> list_all is_ascii_digit s \<and> n < 2 ^ 64 then Some (of_nat n) else None)"

definition parse_log_key :: "string \<Rightarrow> string \<Rightarrow> u64 option" where
  "parse_log_key group_id key =
     (case strip_prefix (group_id @ ''/'') key of
        None \<Rightarrow> None
      | Some epoch_str \<Rightarrow>
          if length epoch_str \<noteq> 20 \<or> \<not> list_all is_ascii_digit epoch_str then None
          else parse_u64 epoch_str)"

fun collect_commits ::
    "dek_env \<Rightarrow> string \<Rightarrow> rows \<Rightarrow> (persistence_error, (u64 \<times> bytes) list) result" where
  "collect_commits env group_id [] = Ok []"
| "collect_commits env group_id ((key, blob) # rest) =
     (case parse_log_key group_id key of
        None \<Rightarrow> collect_commits env group_id rest
      | Some epoch \<Rightarrow>
          and_then (decrypt_blob env blob) (\<lambda>bytes.
          and_then (collect_commits env group_id rest) (\<lambda>out. Ok ((epoch, bytes) # out))))"

definition list_group_commits_from ::
    "dek_env \<Rightarrow> string \<Rightarrow> u64 \<Rightarrow> rows \<Rightarrow> (persistence_error, (u64 \<times> bytes) list) result" where
  "list_group_commits_from env group_id from_epoch t =
     (let start = commit_log_key group_id from_epoch;
          stop = group_id @ ''/'' @ replicate 21 (CHR ''9'')
      in collect_commits env group_id (filter (\<lambda>(k, v). start \<le> k \<and> k < stop) t))"

lemma pad_u64_inject: "pad_dec 20 (unat (e :: u64)) = pad_dec 20 (unat e') \<longleftrightarrow> e = e'"
  by (simp only: pad_dec_inject [OF unat_u64_less_dec unat_u64_less_dec] word_unat_eq_iff)

lemma pad_u64_less_iff: "pad_dec 20 (unat (e :: u64)) < pad_dec 20 (unat e') \<longleftrightarrow> e < e'"
  by (simp only: pad_dec_less_iff [OF unat_u64_less_dec unat_u64_less_dec] word_less_nat_alt)

lemma parse_u64_pad_dec [simp]: "parse_u64 (pad_dec 20 (unat e)) = Some e"
proof -
  have "pad_dec 20 (unat e) \<noteq> []"
    by (metis length_pad_dec list.size(3) zero_neq_numeral)
  then show ?thesis
    using unat_u64_less [of e]
    by (simp add: parse_u64_def Let_def dec_value_pad_dec [OF unat_u64_less_dec])
qed

lemma parse_u64_Some_pad:
  assumes "parse_u64 s = Some e" and "length s = 20"
  shows "s = pad_dec 20 (unat e)"
proof -
  from assms(1) have s: "list_all is_ascii_digit s" and e: "unat e = dec_value s"
    by (auto simp: parse_u64_def Let_def unat_of_nat take_bit_eq_mod split: if_splits)
  from pad_dec_dec_value [OF s] show ?thesis
    by (simp add: e assms(2))
qed

section \<open>Keys\<close>

lemma parse_log_key_iff: "parse_log_key g k = Some e \<longleftrightarrow> k = commit_log_key g e"
proof
  assume l: "parse_log_key g k = Some e"
  then have "take (Suc (length g)) k = g @ ''/''" and
    "parse_u64 (drop (Suc (length g)) k) = Some e" and "length (drop (Suc (length g)) k) = 20"
    by (auto simp: parse_log_key_def strip_prefix_def split: if_splits)
  then show "k = commit_log_key g e"
    unfolding commit_log_key_def
    by (metis append_assoc append_take_drop_id parse_u64_Some_pad)
next
  assume "k = commit_log_key g e"
  then show "parse_log_key g k = Some e"
    by (simp add: parse_log_key_def strip_prefix_def commit_log_key_def)
qed

lemma commit_log_key_inject:
  assumes "CHR ''/'' \<notin> set g" and "CHR ''/'' \<notin> set g'"
  shows "commit_log_key g e = commit_log_key g' e' \<longleftrightarrow> g = g' \<and> e = e'"
proof
  assume eq: "commit_log_key g e = commit_log_key g' e'"
  then have "g @ CHR ''/'' # pad_dec 20 (unat e) = g' @ CHR ''/'' # pad_dec 20 (unat e')"
    by (simp add: commit_log_key_def)
  then have "g = g'" and "pad_dec 20 (unat e) = pad_dec 20 (unat e')"
    by (simp_all add: append_eq_append_conv)
  then show "g = g' \<and> e = e'"
    by (simp add: pad_u64_inject)
qed auto

lemma commit_log_key_le_iff: "commit_log_key g e \<le> commit_log_key g e' \<longleftrightarrow> e \<le> e'"
proof -
  have "commit_log_key g e' < commit_log_key g e \<longleftrightarrow> e' < e"
    by (simp add: commit_log_key_def append_less_append_iff pad_u64_less_iff)
  then show ?thesis by (metis linorder_not_le)
qed

lemma commit_log_key_less_iff: "commit_log_key g e < commit_log_key g e' \<longleftrightarrow> e < e'"
  by (simp add: commit_log_key_le_iff flip: linorder_not_le)

lemma digits_less_nines:
  "list_all is_ascii_digit s \<Longrightarrow> length s < n \<Longrightarrow> s < replicate n (CHR ''9'')"
proof (induction s arbitrary: n)
  case Nil
  then show ?case by (cases n) auto
next
  case (Cons c s)
  then obtain m where n: "n = Suc m" and "length s < m" by (cases n) auto
  with Cons have "s < replicate m (CHR ''9'')" by simp
  moreover have "c \<le> CHR ''9''"
    using Cons.prems(1) by (simp add: less_eq_char_def is_ascii_digit_def)
  ultimately show ?case by (auto simp: n)
qed

lemma commit_log_key_below_stop: "commit_log_key g e < g @ ''/'' @ replicate 21 (CHR ''9'')"
  unfolding commit_log_key_def append_less_append_iff
  by (rule digits_less_nines) auto

section \<open>Reading the log\<close>

lemma collect_commits_set:
  assumes "collect_commits env g t = Ok out"
  shows "(e, b) \<in> set out \<longleftrightarrow> (\<exists>blob. (commit_log_key g e, blob) \<in> set t \<and> decrypt_blob env blob = Ok b)"
  using assms
proof (induction env g t arbitrary: out rule: collect_commits.induct)
  case (1 env g)
  then show ?case by simp
next
  case (2 env g key blob rest)
  show ?case
  proof (cases "parse_log_key g key")
    case None
    then have "key \<noteq> commit_log_key g e" by (metis option.discI parse_log_key_iff)
    with 2 None show ?thesis by auto
  next
    case (Some ep)
    then have key: "key = commit_log_key g ep" by (simp add: parse_log_key_iff)
    have eq: "commit_log_key g e = commit_log_key g ep \<longleftrightarrow> e = ep"
      by (metis commit_log_key_le_iff order_antisym order_refl)
    from 2 Some show ?thesis
      by (auto simp: and_then_Ok_iff key eq)
  qed
qed

lemma collect_commits_sorted:
  assumes "collect_commits env g t = Ok out" and "bt_wf t"
  shows "sorted_wrt (<) (map fst out)"
  using assms
proof (induction env g t arbitrary: out rule: collect_commits.induct)
  case (1 env g)
  then show ?case by simp
next
  case (2 env g key blob rest)
  show ?case
  proof (cases "parse_log_key g key")
    case None
    with 2 show ?thesis by (auto simp: bt_wf_Cons)
  next
    case (Some ep)
    then have key: "key = commit_log_key g ep" by (simp add: parse_log_key_iff)
    from 2 Some obtain b out' where out: "out = (ep, b) # out'"
      and rest: "collect_commits env g rest = Ok out'"
      by (auto simp: and_then_Ok_iff)
    have wf: "bt_wf rest" and above: "\<forall>k' \<in> fst ` set rest. key < k'"
      using 2(4) by (auto simp: bt_wf_Cons)
    have "ep < e" if "(e, b') \<in> set out'" for e b'
    proof -
      from that collect_commits_set [OF rest] above
      have "commit_log_key g ep < commit_log_key g e" by (force simp: key)
      then show ?thesis by (metis commit_log_key_le_iff linorder_not_le)
    qed
    with 2 Some rest wf out show ?thesis by fastforce
  qed
qed

text \<open>What a reader of the log relies on: an append is found at its epoch and nowhere else.\<close>

lemma append_group_commit_lookup:
  assumes "append_group_commit env g e c t = Ok t'"
  obtains blob where "encrypt_blob env c = Ok blob" and "t' = bt_insert (commit_log_key g e) blob t"
  using assms by (auto simp: append_group_commit_def db_put_def and_then_Ok_iff split: if_splits)

lemma append_group_commit_wf [wf_intros]:
  "append_group_commit env g e c t = Ok t' \<Longrightarrow> bt_wf t \<Longrightarrow> bt_wf t'"
  by (erule append_group_commit_lookup) (simp add: bt_wf_insert)

lemma list_group_commits_spec:
  assumes "bt_wf t" and "list_group_commits_from env g from t = Ok out"
  shows "sorted_wrt (<) (map fst out)"
    and "(e, b) \<in> set out \<longleftrightarrow>
      from \<le> e \<and> (\<exists>blob. bt_get t (commit_log_key g e) = Some blob \<and> decrypt_blob env blob = Ok b)"
proof -
  let ?t = "filter (\<lambda>(k, v). commit_log_key g from \<le> k \<and> k < g @ ''/'' @ replicate 21 (CHR ''9'')) t"
  have c: "collect_commits env g ?t = Ok out"
    using assms(2) by (simp add: list_group_commits_from_def Let_def)
  have wf: "bt_wf ?t" using assms(1) by (rule bt_wf_filter)
  show "sorted_wrt (<) (map fst out)" using c wf by (rule collect_commits_sorted)
  show "(e, b) \<in> set out \<longleftrightarrow>
      from \<le> e \<and> (\<exists>blob. bt_get t (commit_log_key g e) = Some blob \<and> decrypt_blob env blob = Ok b)"
    using commit_log_key_below_stop [of g e]
    by (auto simp: collect_commits_set [OF c] bt_get_eq_Some_iff [OF assms(1)] commit_log_key_le_iff)
qed

lemma append_group_commit_get:
  assumes "append_group_commit env g e c t = Ok t'" and "CHR ''/'' \<notin> set h"
  shows "bt_get t' (commit_log_key h k) =
    (if h = g \<and> k = e then to_option (encrypt_blob env c) else bt_get t (commit_log_key h k))"
proof -
  have "CHR ''/'' \<notin> set g"
    using assms(1) by (simp add: append_group_commit_def split: if_splits)
  with assms show ?thesis
    by (elim append_group_commit_lookup) (auto simp: commit_log_key_inject)
qed

text \<open>
  After a commit was appended for a group and an epoch, reading any group's log from any epoch
  returns, in strictly ascending epoch order, exactly that group's rows of the table before plus
  the appended one: the appended commit itself comes back at its epoch, and no row of another
  group is returned or lost.
\<close>

theorem append_then_list_commits:
  assumes "bt_wf t" and "append_group_commit env g e c t = Ok t'" and "CHR ''/'' \<notin> set h"
    and "\<And>blob. encrypt_blob env c = Ok blob \<Longrightarrow> decrypt_blob env blob = Ok c"
    and "list_group_commits_from env h from t' = Ok out"
  shows "sorted_wrt (<) (map fst out) \<and>
    ((k, b) \<in> set out \<longleftrightarrow> from \<le> k \<and>
      (if h = g \<and> k = e then b = c
       else \<exists>blob. bt_get t (commit_log_key h k) = Some blob \<and> decrypt_blob env blob = Ok b))"
proof -
  have wf: "bt_wf t'" using assms(2,1) by (rule append_group_commit_wf)
  obtain blob where "encrypt_blob env c = Ok blob"
    using assms(2) by (rule append_group_commit_lookup)
  with list_group_commits_spec [OF wf assms(5)] append_group_commit_get [OF assms(2,3)] assms(4)
  show ?thesis by auto
qed

theorem append_then_list_commits_witness:
  "sorted_wrt (<) (map fst [(5 :: u64, [1 :: byte]), (12, [7])]) \<and>
   ((12 :: u64, [7 :: byte]) \<in> set [(5, [1]), (12, [7])] \<longleftrightarrow> 3 \<le> (12 :: u64) \<and>
     (if ''g'' = ''g'' \<and> (12 :: u64) = 12 then [7 :: byte] = [7]
      else \<exists>blob. bt_get [(commit_log_key ''g'' 5, [1])] (commit_log_key ''g'' 12) = Some blob \<and>
        decrypt_blob \<lparr>encrypt_blob = Ok, decrypt_blob = Ok, tx_commits = True\<rparr> blob = Ok [7]))"
proof (rule append_then_list_commits)
  let ?env = "\<lparr>encrypt_blob = Ok, decrypt_blob = Ok, tx_commits = True\<rparr>"
  let ?t = "[(commit_log_key ''g'' 5, [1 :: byte])]"
  show "bt_wf ?t" by (simp add: bt_wf_def)
  show "append_group_commit ?env ''g'' 12 [7] ?t =
      Ok [(commit_log_key ''g'' 5, [1]), (commit_log_key ''g'' 12, [7])]"
    by (simp add: append_group_commit_def db_put_def commit_log_key_less_iff)
  show "list_group_commits_from ?env ''g'' 3 [(commit_log_key ''g'' 5, [1]), (commit_log_key ''g'' 12, [7])] =
      Ok [(5, [1]), (12, [7])]"
    using commit_log_key_below_stop [of "''g''" 5] commit_log_key_below_stop [of "''g''" 12]
    by (simp add: list_group_commits_from_def commit_log_key_le_iff parse_log_key_iff [THEN iffD2])
qed auto

end
