(* ===== verification/Commit_Sequencer.thy ===== *)
theory Commit_Sequencer
  imports Group_Commit_Log
begin

text \<open>
  Epoch-ordered admission of MLS commits (\<open>commit_sequencer.rs\<close>) and the group runtime's loop
  around it (\<open>private_group_runtime/sequencing.rs\<close>, \<open>commits.rs\<close>).

  The sequencer keeps the commits it confirmed, a bounded buffer of future commits by epoch and
  the epoch it last asked a resync for. \<open>sequence_commit\<close> offers one received commit, applies it
  when it is for the current epoch, and drains the buffered successors. The MLS session is a
  parameter (\<open>mls_env\<close>): its state \<open>'c\<close>, its epoch, staging and persisting one commit, base64
  decoding. What the code relies on is \<open>mls_epoch_law\<close>: an accepted commit moves the group to
  the next epoch.

  Shown here: the buffer stays sorted and bounded and never loses a buffered commit to a later
  one; confirmed commits are only commits the MLS session accepted; sequencing never skips an
  epoch and every epoch it passes is in the resync log; a reported gap is a real one.
\<close>

section \<open>The sequencer\<close>

definition BUFFER_CAP :: nat where
  "BUFFER_CAP = 64"

datatype disposition = Apply | Buffered | AlreadySeen

record commit_sequencer =
  applied :: "string set"
  buffered :: "(u64, string) btree_map"
  last_requested_epoch :: "u64 option"

definition new_sequencer :: commit_sequencer where
  "new_sequencer = \<lparr>applied = {}, buffered = [], last_requested_epoch = None\<rparr>"

definition offer :: "u64 \<Rightarrow> u64 \<Rightarrow> string \<Rightarrow> commit_sequencer \<Rightarrow> commit_sequencer \<times> disposition" where
  "offer current_epoch commit_epoch commit_b64 s =
     (if commit_b64 \<in> applied s then (s, AlreadySeen)
      else if commit_epoch < current_epoch then (s, AlreadySeen)
      else if commit_epoch = current_epoch then (s, Apply)
      else
        ((if \<not> bt_contains (buffered s) commit_epoch \<and> length (buffered s) < BUFFER_CAP
          then s\<lparr>buffered := bt_insert commit_epoch commit_b64 (buffered s)\<rparr> else s),
         Buffered))"

definition confirm :: "string \<Rightarrow> commit_sequencer \<Rightarrow> commit_sequencer" where
  "confirm commit_b64 s = s\<lparr>applied := insert commit_b64 (applied s)\<rparr>"

definition mark_seen :: "string \<Rightarrow> commit_sequencer \<Rightarrow> commit_sequencer" where
  "mark_seen commit_b64 s = confirm commit_b64 s"

definition drain_ready :: "u64 \<Rightarrow> commit_sequencer \<Rightarrow> commit_sequencer \<times> string option" where
  "drain_ready current_epoch s =
     (s\<lparr>buffered := bt_remove current_epoch (buffered s)\<rparr>, bt_get (buffered s) current_epoch)"

definition peek_ready :: "commit_sequencer \<Rightarrow> u64 \<Rightarrow> string option" where
  "peek_ready s current_epoch = bt_get (buffered s) current_epoch"

definition gap :: "commit_sequencer \<Rightarrow> u64 \<Rightarrow> bool" where
  "gap s current_epoch =
     (case bt_first_key (buffered s) of None \<Rightarrow> False | Some head \<Rightarrow> current_epoch < head)"

definition should_request :: "u64 \<Rightarrow> commit_sequencer \<Rightarrow> commit_sequencer \<times> bool" where
  "should_request have_epoch s =
     (if last_requested_epoch s = Some have_epoch then (s, False)
      else (s\<lparr>last_requested_epoch := Some have_epoch\<rparr>, True))"

definition rearm :: "commit_sequencer \<Rightarrow> commit_sequencer" where
  "rearm s = s\<lparr>last_requested_epoch := None\<rparr>"

lemmas sequencer_defs = offer_def confirm_def mark_seen_def drain_ready_def peek_ready_def
  should_request_def rearm_def new_sequencer_def

section \<open>The group runtime's sequencing\<close>

datatype sequence_outcome = Done | Gapped

record ('c, 's, 'e) mls_env =
  mls_epoch :: "'c \<Rightarrow> u64 option"
  commit_epoch_of :: "bytes \<Rightarrow> ('e, u64) result"
  stage_membership :: "'c \<Rightarrow> bytes \<Rightarrow> ('e, 's) result"
  staged_next :: "'s \<Rightarrow> 'c"
  persist_membership :: "'c \<Rightarrow> 's \<Rightarrow> bytes \<Rightarrow> ('e, unit) result"
  decode_b64 :: "string \<Rightarrow> ('e, bytes) result"
  dek :: dek_env
  group_id_of :: string

record 'c seq_state =
  crypto :: 'c
  sequencer :: commit_sequencer
  persistence :: "rows option"

definition accept_commit :: "('c, 's, 'e) mls_env \<Rightarrow> 'c \<Rightarrow> bytes \<Rightarrow> ('e, 'c) result" where
  "accept_commit env c bytes =
     and_then (stage_membership env c bytes) (\<lambda>staged.
     and_then (persist_membership env c staged bytes) (\<lambda>_. Ok (staged_next env staged)))"

definition log_group_commit ::
    "('c, 's, 'e) mls_env \<Rightarrow> u64 \<Rightarrow> bytes \<Rightarrow> rows option \<Rightarrow> rows option" where
  "log_group_commit env epoch commit_bytes p =
     (case p of None \<Rightarrow> None
      | Some t \<Rightarrow>
          (case append_group_commit (dek env) (group_id_of env) epoch commit_bytes t of
             Inl _ \<Rightarrow> Some t | Inr t' \<Rightarrow> Some t'))"

text \<open>The statements that follow a successful \<open>accept_commit\<close>, the same at both places.\<close>

definition install_commit ::
    "('c, 's, 'e) mls_env \<Rightarrow> 'c \<Rightarrow> u64 \<Rightarrow> string \<Rightarrow> bytes \<Rightarrow> 'c seq_state \<Rightarrow> 'c seq_state" where
  "install_commit env next_crypto epoch commit_b64 commit_bytes s =
     s\<lparr>crypto := next_crypto,
       sequencer := confirm commit_b64 (fst (drain_ready epoch (sequencer s))),
       persistence := log_group_commit env epoch commit_bytes (persistence s)\<rparr>"

lemma length_filter_key_less: "(k, v) \<in> set m \<Longrightarrow> length (filter (\<lambda>e. fst e \<noteq> k) m) < length m"
  by (rule length_filter_less [of "(k, v)"]) auto

lemma install_commit_shrinks:
  "peek_ready (sequencer s) epoch = Some b \<Longrightarrow>
   length (buffered (sequencer (install_commit env c epoch b bytes s))) < length (buffered (sequencer s))"
  by (auto simp: install_commit_def confirm_def drain_ready_def peek_ready_def bt_remove_def
      dest!: bt_get_mem intro: length_filter_key_less)

function drain_buffered ::
    "('c, 's, 'e) mls_env \<Rightarrow> 'c seq_state \<Rightarrow> 'c seq_state \<times> ('e, unit) result" where
  "drain_buffered env s =
     (case mls_epoch env (crypto s) of
        None \<Rightarrow> (s, Ok ())
      | Some current \<Rightarrow>
          (case peek_ready (sequencer s) current of
             None \<Rightarrow> (s, Ok ())
           | Some next_b64 \<Rightarrow>
               (case decode_b64 env next_b64 of
                  Inl e \<Rightarrow> (s, Err e)
                | Inr next_bytes \<Rightarrow>
                    (case accept_commit env (crypto s) next_bytes of
                       Inl e \<Rightarrow> (s, Err e)
                     | Inr c \<Rightarrow> drain_buffered env (install_commit env c current next_b64 next_bytes s)))))"
  by pat_completeness auto
termination
  by (relation "measure (\<lambda>(env, s). length (buffered (sequencer s)))")
    (auto simp: install_commit_shrinks)

declare drain_buffered.simps [simp del]

definition still_gapped :: "('c, 's, 'e) mls_env \<Rightarrow> 'c seq_state \<Rightarrow> bool" where
  "still_gapped env s =
     (case mls_epoch env (crypto s) of None \<Rightarrow> False | Some current \<Rightarrow> gap (sequencer s) current)"

definition finish_sequencing ::
    "('c, 's, 'e) mls_env \<Rightarrow> 'c seq_state \<Rightarrow> 'c seq_state \<times> ('e, sequence_outcome) result" where
  "finish_sequencing env s =
     (case drain_buffered env s of
        (s', Inl e) \<Rightarrow> (s', Err e)
      | (s', Inr _) \<Rightarrow> (s', Ok (if still_gapped env s' then Gapped else Done)))"

definition sequence_commit ::
    "('c, 's, 'e) mls_env \<Rightarrow> string \<Rightarrow> 'c seq_state \<Rightarrow> 'c seq_state \<times> ('e, sequence_outcome) result" where
  "sequence_commit env commit_b64 s =
     (case mls_epoch env (crypto s) of
        None \<Rightarrow> (s, Ok Done)
      | Some current \<Rightarrow>
          (case decode_b64 env commit_b64 of
             Inl e \<Rightarrow> (s, Err e)
           | Inr commit_bytes \<Rightarrow>
               (case commit_epoch_of env commit_bytes of
                  Inl e \<Rightarrow> (s, Err e)
                | Inr wire_epoch \<Rightarrow>
                    (let (q, d) = offer current wire_epoch commit_b64 (sequencer s);
                         s1 = s\<lparr>sequencer := q\<rparr>
                     in if d = Apply then
                          (case accept_commit env (crypto s1) commit_bytes of
                             Inl e \<Rightarrow> (s1, Err e)
                           | Inr c \<Rightarrow>
                               finish_sequencing env
                                 (install_commit env c wire_epoch commit_b64 commit_bytes s1))
                        else finish_sequencing env s1))))"

fun absorb_resync_commits ::
    "('c, 's, 'e) mls_env \<Rightarrow> string list \<Rightarrow> 'c seq_state \<Rightarrow> 'c seq_state \<times> bool" where
  "absorb_resync_commits env [] s = (s, still_gapped env s)"
| "absorb_resync_commits env (c # cs) s = absorb_resync_commits env cs (fst (sequence_commit env c s))"

text \<open>The deterministic successor: the lowest fingerprint other than the departing one.\<close>

definition successor_of :: "string list \<Rightarrow> string \<Rightarrow> string option" where
  "successor_of members departing =
     (case filter (\<lambda>fp. fp \<noteq> departing) members of
        [] \<Rightarrow> None | fps \<Rightarrow> Some (Min (set fps)))"

text \<open>
  \<open>GroupSession::apply_commit_sequenced\<close>, \<open>request_resync_if_gapped\<close> and
  \<open>absorb_resync_response\<close>: the session keeps the sequencing state, the rejoin hint and the
  resync requests it published (with the epoch they name). Publishing a control envelope is a
  parameter that may fail.
\<close>

record 'c group_session =
  gs_seq :: "'c seq_state"
  needs_rejoin :: bool
  resync_requests :: "u64 list"

definition request_resync_if_gapped ::
    "('c, 's, 'e) mls_env \<Rightarrow> (u64 \<Rightarrow> ('e, unit) result) \<Rightarrow> 'c group_session \<Rightarrow>
     'c group_session \<times> ('e, unit) result" where
  "request_resync_if_gapped env publish g =
     (case mls_epoch env (crypto (gs_seq g)) of
        None \<Rightarrow> (g, Ok ())
      | Some current \<Rightarrow>
          if \<not> gap (sequencer (gs_seq g)) current then (g, Ok ())
          else
            (let (q, fire) = should_request current (sequencer (gs_seq g));
                 g1 = g\<lparr>gs_seq := (gs_seq g)\<lparr>sequencer := q\<rparr>\<rparr>
             in if \<not> fire then (g1, Ok ())
                else
                  (case publish current of
                     Inl e \<Rightarrow>
                       (g1\<lparr>gs_seq := (gs_seq g1)\<lparr>sequencer := rearm q\<rparr>\<rparr>, Err e)
                   | Inr u \<Rightarrow> (g1\<lparr>resync_requests := resync_requests g1 @ [current]\<rparr>, Ok u))))"

definition apply_commit_sequenced ::
    "('c, 's, 'e) mls_env \<Rightarrow> (u64 \<Rightarrow> ('e, unit) result) \<Rightarrow> string \<Rightarrow> 'c group_session \<Rightarrow>
     'c group_session \<times> ('e, unit) result" where
  "apply_commit_sequenced env publish commit_b64 g =
     (case sequence_commit env commit_b64 (gs_seq g) of
        (s, Inl e) \<Rightarrow> (g\<lparr>gs_seq := s\<rparr>, Err e)
      | (s, Inr Done) \<Rightarrow> (g\<lparr>gs_seq := s, needs_rejoin := False\<rparr>, Ok ())
      | (s, Inr Gapped) \<Rightarrow> request_resync_if_gapped env publish (g\<lparr>gs_seq := s\<rparr>))"

definition absorb_resync_response ::
    "('c, 's, 'e) mls_env \<Rightarrow> (u64 \<Rightarrow> ('e, unit) result) \<Rightarrow> string list \<Rightarrow> 'c group_session \<Rightarrow>
     'c group_session \<times> ('e, unit) result" where
  "absorb_resync_response env publish commits g =
     (let (s, still) = absorb_resync_commits env commits (gs_seq g)
      in if \<not> still then (g\<lparr>gs_seq := s, needs_rejoin := False\<rparr>, Ok ())
         else
           (case request_resync_if_gapped env publish
                   (g\<lparr>gs_seq := s\<lparr>sequencer := rearm (sequencer s)\<rparr>\<rparr>) of
              (g1, Inl e) \<Rightarrow> (g1, Err e)
            | (g1, Inr _) \<Rightarrow>
                (if still_gapped env (gs_seq g1) then g1\<lparr>needs_rejoin := True\<rparr> else g1, Ok ())))"

text \<open>
  \<open>serve_resync_request\<close>: the response an administrator publishes, if any; how publishing it ends is
  the result of the call. A log that cannot be read is answered with silence.
\<close>

definition serve_resync_request ::
    "('c, 's, 'e) mls_env \<Rightarrow> (bytes \<Rightarrow> string) \<Rightarrow> string \<Rightarrow> u64 \<Rightarrow> rows option \<Rightarrow>
     (string \<times> (u64 \<times> string) list) option" where
  "serve_resync_request env encode for_fingerprint have_epoch store =
     Option.bind store (\<lambda>t.
       (case list_group_commits_from (dek env) (group_id_of env) have_epoch t of
          Inl _ \<Rightarrow> None
        | Inr commits \<Rightarrow> Some (for_fingerprint, map (\<lambda>(epoch, b). (epoch, encode b)) commits)))"

section \<open>The buffer\<close>

definition seq_wf :: "commit_sequencer \<Rightarrow> bool" where
  "seq_wf q \<longleftrightarrow> bt_wf (buffered q) \<and> length (buffered q) \<le> BUFFER_CAP"

lemma seq_wf_new [wf_intros]: "seq_wf new_sequencer"
  by (simp add: seq_wf_def new_sequencer_def)

lemma buffered_offer:
  "buffered (fst (offer cur e b q)) =
     (if b \<notin> applied q \<and> cur < e then btree.put_capped BUFFER_CAP e b (buffered q) else buffered q)"
  by (auto simp: offer_def btree.put_capped_def bt_contains_def)

lemma offer_frame [simp]:
  "applied (fst (offer cur e b q)) = applied q"
  "last_requested_epoch (fst (offer cur e b q)) = last_requested_epoch q"
  by (auto simp: offer_def)

lemma seq_wf_offer [wf_intros]: "seq_wf q \<Longrightarrow> seq_wf (fst (offer cur e b q))"
  by (simp add: seq_wf_def buffered_offer btree.put_capped_invar btree.put_capped_len)

lemma seq_wf_confirm [wf_intros]: "seq_wf q \<Longrightarrow> seq_wf (confirm b q)"
  by (simp add: seq_wf_def confirm_def)

lemma seq_wf_drain_ready [wf_intros]: "seq_wf q \<Longrightarrow> seq_wf (fst (drain_ready e q))"
  using length_bt_remove [of e "buffered q"]
  by (auto simp: seq_wf_def drain_ready_def bt_wf_remove)

lemma seq_wf_should_request [wf_intros]: "seq_wf q \<Longrightarrow> seq_wf (fst (should_request e q))"
  by (simp add: seq_wf_def should_request_def)

lemma seq_wf_rearm [wf_intros]: "seq_wf q \<Longrightarrow> seq_wf (rearm q)"
  by (simp add: seq_wf_def rearm_def)

lemma buffered_keys_offer:
  "k \<in> fst ` set (buffered (fst (offer cur e b q))) \<Longrightarrow> k \<in> fst ` set (buffered q) \<or> cur < k"
  by (auto simp: buffered_offer btree.put_capped_def keys_bt_insert split: if_splits)

text \<open>One step of a run of the sequencer against arbitrary traffic.\<close>

datatype seq_event = Offered u64 u64 string | Confirmed string | Drained u64 | Requested u64 | Rearmed

fun handle_event :: "commit_sequencer \<Rightarrow> seq_event \<Rightarrow> commit_sequencer" where
  "handle_event q (Offered cur e b) = fst (offer cur e b q)"
| "handle_event q (Confirmed b) = confirm b q"
| "handle_event q (Drained e) = fst (drain_ready e q)"
| "handle_event q (Requested e) = fst (should_request e q)"
| "handle_event q Rearmed = rearm q"

lemma seq_wf_event: "seq_wf q \<Longrightarrow> seq_wf (handle_event q ev)"
  by (cases ev) (simp_all add: wf_intros)

lemma seq_event_keeps:
  "seq_wf q \<Longrightarrow> ev \<noteq> Drained k \<Longrightarrow> bt_get (buffered q) k = Some b \<Longrightarrow>
   bt_get (buffered (handle_event q ev)) k = Some b"
  by (cases ev)
    (auto simp: seq_wf_def buffered_offer btree.put_capped_keeps confirm_def drain_ready_def
      should_request_def rearm_def)

interpretation sequencer_events: keeping_machine handle_event seq_wf
  "\<lambda>(k, b) q. bt_get (buffered q) k = Some b" "\<lambda>(k, b) ev. ev \<noteq> Drained k"
  by unfold_locales (auto simp: seq_wf_event seq_event_keeps)

section \<open>Sequencing runs\<close>

text \<open>
  The state changes of \<open>sequence_commit\<close> after the offer are a chain of installs, each of a
  commit the MLS session accepted at its current epoch.
\<close>

inductive seq_steps :: "('c, 's, 'e) mls_env \<Rightarrow> nat \<Rightarrow> 'c seq_state \<Rightarrow> 'c seq_state \<Rightarrow> bool"
  for env where
  seq_done: "seq_steps env 0 s s"
| seq_more:
    "mls_epoch env (crypto s) = Some e \<Longrightarrow> decode_b64 env b = Ok bytes \<Longrightarrow>
     accept_commit env (crypto s) bytes = Ok c \<Longrightarrow>
     seq_steps env n (install_commit env c e b bytes s) t \<Longrightarrow> seq_steps env (Suc n) s t"

lemma drain_buffered_steps: "\<exists>n. seq_steps env n s (fst (drain_buffered env s))"
proof (induction env s rule: drain_buffered.induct)
  case (1 env s)
  show ?case
    using 1 by (subst drain_buffered.simps)
      (auto split: option.splits sum.splits intro: seq_done, metis seq_more)
qed

lemma drain_buffered_Ok:
  "drain_buffered env s = (t, Ok u) \<Longrightarrow> mls_epoch env (crypto t) = Some e \<Longrightarrow>
   peek_ready (sequencer t) e = None"
proof (induction env s rule: drain_buffered.induct)
  case (1 env s)
  from "1.prems" show ?case
    by (subst (asm) drain_buffered.simps)
      (use "1.IH" in \<open>auto split: option.splits sum.splits\<close>)
qed

lemma finish_sequencing_fst: "fst (finish_sequencing env s) = fst (drain_buffered env s)"
  by (auto simp: finish_sequencing_def split: prod.splits sum.splits)

lemma finish_sequencing_Ok:
  "finish_sequencing env s = (t, Ok out) \<longleftrightarrow>
   (\<exists>u. drain_buffered env s = (t, Ok u)) \<and> out = (if still_gapped env t then Gapped else Done)"
  by (auto simp: finish_sequencing_def split: prod.splits sum.splits)

text \<open>Every call of \<open>sequence_commit\<close> offers at most once and then only installs.\<close>

lemma sequence_commit_steps:
  obtains q n where
    "q = sequencer s \<or> (\<exists>cur e. mls_epoch env (crypto s) = Some cur \<and> q = fst (offer cur e b (sequencer s)))"
    and "seq_steps env n (s\<lparr>sequencer := q\<rparr>) (fst (sequence_commit env b s))"
proof (cases "mls_epoch env (crypto s)")
  case None
  then show ?thesis
    using that [of "sequencer s" 0] by (simp add: sequence_commit_def seq_done)
next
  case (Some cur)
  note cur = this
  show ?thesis
  proof (cases "decode_b64 env b")
    case (Inl e)
    then show ?thesis
      using that [of "sequencer s" 0] cur by (simp add: sequence_commit_def seq_done)
  next
    case (Inr bytes)
    note bytes = this
    show ?thesis
    proof (cases "commit_epoch_of env bytes")
      case (Inl e)
      then show ?thesis
        using that [of "sequencer s" 0] cur bytes by (simp add: sequence_commit_def seq_done)
    next
      case (Inr w)
      let ?q = "fst (offer cur w b (sequencer s))" and ?s1 = "s\<lparr>sequencer := fst (offer cur w b (sequencer s))\<rparr>"
      have q: "?q = sequencer s \<or> (\<exists>c e. mls_epoch env (crypto s) = Some c \<and> ?q = fst (offer c e b (sequencer s)))"
        using cur by blast
      have w: "w = cur" if "snd (offer cur w b (sequencer s)) = Apply"
        using that by (auto simp: offer_def split: if_splits)
      have "\<exists>n. seq_steps env n ?s1 (fst (sequence_commit env b s))"
      proof (cases "snd (offer cur w b (sequencer s)) = Apply")
        case False
        then have "fst (sequence_commit env b s) = fst (drain_buffered env ?s1)"
          using cur bytes Inr by (simp add: sequence_commit_def finish_sequencing_fst split_beta Let_def)
        then show ?thesis using drain_buffered_steps [of env ?s1] by simp
      next
        case True
        show ?thesis
        proof (cases "accept_commit env (crypto s) bytes")
          case (Inl e)
          then have "fst (sequence_commit env b s) = ?s1"
            using cur bytes Inr True by (simp add: sequence_commit_def split_beta Let_def)
          then show ?thesis using seq_done [of env ?s1] by auto
        next
          case (Inr c)
          let ?s2 = "install_commit env c cur b bytes ?s1"
          have "fst (sequence_commit env b s) = fst (drain_buffered env ?s2)"
            using cur bytes \<open>commit_epoch_of env bytes = Inr w\<close> True Inr w [OF True]
            by (simp add: sequence_commit_def finish_sequencing_fst split_beta Let_def)
          then show ?thesis
            using drain_buffered_steps [of env ?s2] seq_more [of env ?s1 cur b bytes c] cur bytes Inr
            by fastforce
        qed
      qed
      then show ?thesis using that [OF q] by blast
    qed
  qed
qed

section \<open>What sequencing preserves\<close>

definition mls_epoch_law :: "('c, 's, 'e) mls_env \<Rightarrow> bool" where
  "mls_epoch_law env \<longleftrightarrow>
     (\<forall>c bytes c'. accept_commit env c bytes = Ok c' \<longrightarrow>
        (\<exists>e e'. mls_epoch env c = Some e \<and> commit_epoch_of env bytes = Ok e \<and>
               mls_epoch env c' = Some e' \<and> unat e' = Suc (unat e)))"

lemma mls_epoch_lawE:
  assumes "mls_epoch_law env" and "accept_commit env c bytes = Ok c'" and "mls_epoch env c = Some e"
  obtains e' where "commit_epoch_of env bytes = Ok e" and "mls_epoch env c' = Some e'"
    and "unat e' = Suc (unat e)"
  using assms unfolding mls_epoch_law_def by (metis option.inject)

lemma install_commit_simps [simp]:
  "crypto (install_commit env c e b bytes s) = c"
  "applied (sequencer (install_commit env c e b bytes s)) = insert b (applied (sequencer s))"
  "buffered (sequencer (install_commit env c e b bytes s)) = bt_remove e (buffered (sequencer s))"
  "last_requested_epoch (sequencer (install_commit env c e b bytes s)) = last_requested_epoch (sequencer s)"
  "persistence (install_commit env c e b bytes s) = log_group_commit env e bytes (persistence s)"
  by (simp_all add: install_commit_def confirm_def drain_ready_def)

lemma seq_steps_wf: "seq_steps env n s t \<Longrightarrow> seq_wf (sequencer s) \<Longrightarrow> seq_wf (sequencer t)"
  by (induction rule: seq_steps.induct) (auto simp: install_commit_def intro: wf_intros)

lemma sequence_commit_wf [wf_intros]:
  "seq_wf (sequencer s) \<Longrightarrow> seq_wf (sequencer (fst (sequence_commit env b s)))"
  by (rule sequence_commit_steps [of s env b]) (auto dest!: seq_steps_wf intro: wf_intros)

lemma seq_steps_epoch:
  assumes "mls_epoch_law env" and "seq_steps env n s t" and "mls_epoch env (crypto s) = Some e"
  shows "\<exists>e'. mls_epoch env (crypto t) = Some e' \<and> unat e' = unat e + n"
  using assms(2,3)
proof (induction arbitrary: e rule: seq_steps.induct)
  case (seq_done s)
  then show ?case by simp
next
  case (seq_more s e0 b bytes c n t)
  have "e0 = e" using seq_more.hyps(1) seq_more.prems by simp
  obtain e1 where "mls_epoch env c = Some e1" and "unat e1 = Suc (unat e)"
    by (rule mls_epoch_lawE [OF assms(1) seq_more.hyps(3) seq_more.prems])
  with seq_more.IH [of e1] show ?case by auto
qed

text \<open>The dedup set only ever gains commits that the MLS session accepted.\<close>

definition was_accepted :: "('c, 's, 'e) mls_env \<Rightarrow> string \<Rightarrow> bool" where
  "was_accepted env b \<longleftrightarrow>
     (\<exists>c bytes c'. decode_b64 env b = Ok bytes \<and> accept_commit env c bytes = Ok c')"

lemma seq_steps_applied:
  "seq_steps env n s t \<Longrightarrow> b \<in> applied (sequencer t) \<Longrightarrow> b \<in> applied (sequencer s) \<or> was_accepted env b"
  by (induction rule: seq_steps.induct) (auto simp: was_accepted_def)

lemma seq_steps_applied_mono:
  "seq_steps env n s t \<Longrightarrow> applied (sequencer s) \<subseteq> applied (sequencer t)"
  by (induction rule: seq_steps.induct) auto

lemma sequence_commit_applied:
  "b' \<in> applied (sequencer (fst (sequence_commit env b s))) \<Longrightarrow>
   b' \<in> applied (sequencer s) \<or> was_accepted env b'"
  by (rule sequence_commit_steps [of s env b]) (force dest: seq_steps_applied)

text \<open>No buffered commit is behind the session's epoch.\<close>

definition no_stale :: "('c, 's, 'e) mls_env \<Rightarrow> 'c seq_state \<Rightarrow> bool" where
  "no_stale env s \<longleftrightarrow>
     (\<forall>e k. mls_epoch env (crypto s) = Some e \<longrightarrow> k \<in> fst ` set (buffered (sequencer s)) \<longrightarrow> e \<le> k)"

lemma keys_bt_remove: "fst ` set (bt_remove k m) = fst ` set m - {k}"
  by (auto simp: bt_remove_def)

lemma seq_steps_no_stale:
  assumes "mls_epoch_law env" and "seq_steps env n s t" and "no_stale env s"
  shows "no_stale env t"
  using assms(2,3)
proof (induction rule: seq_steps.induct)
  case (seq_done s)
  then show ?case by simp
next
  case (seq_more s e b bytes c n t)
  obtain e' where e': "mls_epoch env c = Some e'" and suc: "unat e' = Suc (unat e)"
    by (rule mls_epoch_lawE [OF assms(1) seq_more.hyps(3) seq_more.hyps(1)])
  have "no_stale env (install_commit env c e b bytes s)"
    unfolding no_stale_def
  proof (intro allI impI)
    fix x k
    assume "mls_epoch env (crypto (install_commit env c e b bytes s)) = Some x"
      and "k \<in> fst ` set (buffered (sequencer (install_commit env c e b bytes s)))"
    then have "x = e'" and "k \<in> fst ` set (buffered (sequencer s))" and "k \<noteq> e"
      using e' by (auto simp: keys_bt_remove)
    with seq_more.prems seq_more.hyps(1) have "e < k"
      by (auto simp: no_stale_def order_le_less)
    then show "x \<le> k"
      using suc \<open>x = e'\<close> by (simp add: word_less_nat_alt word_le_nat_alt)
  qed
  then show ?case by (rule seq_more.IH)
qed

lemma sequence_commit_no_stale:
  assumes "mls_epoch_law env" and "no_stale env s"
  shows "no_stale env (fst (sequence_commit env b s))"
proof (rule sequence_commit_steps [of s env b])
  fix q n
  assume q: "q = sequencer s \<or> (\<exists>cur e. mls_epoch env (crypto s) = Some cur \<and> q = fst (offer cur e b (sequencer s)))"
    and steps: "seq_steps env n (s\<lparr>sequencer := q\<rparr>) (fst (sequence_commit env b s))"
  have "no_stale env (s\<lparr>sequencer := q\<rparr>)"
    using q assms(2) unfolding no_stale_def
    by auto (metis buffered_keys_offer fst_conv image_eqI order_less_imp_le)
  with assms(1) steps show ?thesis by (rule seq_steps_no_stale)
qed

lemma still_gapped_iff:
  assumes "seq_wf (sequencer s)" and "no_stale env s" and "mls_epoch env (crypto s) = Some e"
    and "peek_ready (sequencer s) e = None"
  shows "still_gapped env s \<longleftrightarrow> buffered (sequencer s) \<noteq> []"
proof (cases "buffered (sequencer s)")
  case Nil
  then show ?thesis
    using assms(3) by (simp add: still_gapped_def gap_def bt_first_key_def)
next
  case (Cons x m)
  then have "fst x \<in> fst ` set (buffered (sequencer s))" by simp
  moreover have "fst x \<noteq> e"
    using assms(4) Cons by (auto simp: peek_ready_def bt_get_def)
  ultimately have "e < fst x"
    using assms(2,3) by (auto simp: no_stale_def order_le_less)
  then show ?thesis
    using assms(3) Cons by (simp add: still_gapped_def gap_def bt_first_key_def)
qed

lemma sequence_commit_Ok_drained:
  assumes "sequence_commit env b s = (t, Ok out)" and "mls_epoch env (crypto s) = Some e0"
  shows "(\<exists>s' u. drain_buffered env s' = (t, Ok u)) \<and> out = (if still_gapped env t then Gapped else Done)"
  using assms
  by (auto simp: sequence_commit_def finish_sequencing_Ok Let_def split: sum.splits prod.splits if_splits)

section \<open>The resync log\<close>

definition durable_log :: "('c, 's, 'e) mls_env \<Rightarrow> bool" where
  "durable_log env \<longleftrightarrow>
     CHR ''/'' \<notin> set (group_id_of env) \<and> tx_commits (dek env) \<and>
     (\<forall>b. \<exists>blob. encrypt_blob (dek env) b = Ok blob \<and> decrypt_blob (dek env) blob = Ok b)"

definition readable :: "('c, 's, 'e) mls_env \<Rightarrow> rows \<Rightarrow> bool" where
  "readable env t \<longleftrightarrow> bt_wf t \<and> (\<forall>blob \<in> snd ` set t. \<exists>b. decrypt_blob (dek env) blob = Ok b)"

lemma values_bt_insert: "snd ` set (bt_insert k v m) \<subseteq> insert v (snd ` set m)"
  by (induction m) auto

lemma log_group_commit_durable:
  assumes "durable_log env" and "readable env t"
  obtains blob where "log_group_commit env e bytes (Some t) =
      Some (bt_insert (commit_log_key (group_id_of env) e) blob t)"
    and "readable env (bt_insert (commit_log_key (group_id_of env) e) blob t)"
proof -
  from assms(1) obtain blob where enc: "encrypt_blob (dek env) bytes = Ok blob"
    and dec: "decrypt_blob (dek env) blob = Ok bytes"
    by (auto simp: durable_log_def)
  have "\<forall>x \<in> snd ` set (bt_insert (commit_log_key (group_id_of env) e) blob t).
      \<exists>b. decrypt_blob (dek env) x = Ok b"
    using assms(2) dec values_bt_insert [of "commit_log_key (group_id_of env) e" blob t]
    unfolding readable_def by blast
  then have "readable env (bt_insert (commit_log_key (group_id_of env) e) blob t)"
    using assms(2) unfolding readable_def by (blast intro: bt_wf_insert)
  moreover have "log_group_commit env e bytes (Some t) =
      Some (bt_insert (commit_log_key (group_id_of env) e) blob t)"
    using assms(1) enc
    by (simp add: log_group_commit_def append_group_commit_def db_put_def durable_log_def)
  ultimately show ?thesis by (rule that [rotated])
qed

lemma seq_steps_logged:
  assumes "mls_epoch_law env" and "durable_log env"
    and "seq_steps env n s t" and "mls_epoch env (crypto s) = Some e"
    and "persistence s = Some r" and "readable env r"
  shows "\<exists>r'. persistence t = Some r' \<and> readable env r' \<and> fst ` set r \<subseteq> fst ` set r' \<and>
    (\<forall>k. unat e \<le> unat k \<and> unat k < unat e + n \<longrightarrow>
       commit_log_key (group_id_of env) k \<in> fst ` set r')"
  using assms(3-)
proof (induction arbitrary: e r rule: seq_steps.induct)
  case (seq_done s)
  then show ?case by auto
next
  case (seq_more s e0 b bytes c n t)
  have e0: "e0 = e" using seq_more.hyps(1) seq_more.prems(1) by simp
  obtain e1 where e1: "mls_epoch env c = Some e1" and suc: "unat e1 = Suc (unat e)"
    by (rule mls_epoch_lawE [OF assms(1) seq_more.hyps(3) seq_more.prems(1)])
  obtain blob where log: "log_group_commit env e bytes (Some r) =
      Some (bt_insert (commit_log_key (group_id_of env) e) blob r)" (is "_ = Some ?r")
    and rd: "readable env (bt_insert (commit_log_key (group_id_of env) e) blob r)"
    using log_group_commit_durable [OF assms(2) seq_more.prems(3)] by blast
  have "\<exists>r'. persistence t = Some r' \<and> readable env r' \<and> fst ` set ?r \<subseteq> fst ` set r' \<and>
    (\<forall>k. unat e1 \<le> unat k \<and> unat k < unat e1 + n \<longrightarrow> commit_log_key (group_id_of env) k \<in> fst ` set r')"
    using seq_more.IH [of e1 ?r] e1 log rd seq_more.prems(2) by (simp add: e0)
  then obtain r' where r': "persistence t = Some r'" "readable env r'" "fst ` set ?r \<subseteq> fst ` set r'"
    and later: "\<And>k. unat e1 \<le> unat k \<Longrightarrow> unat k < unat e1 + n \<Longrightarrow>
      commit_log_key (group_id_of env) k \<in> fst ` set r'"
    by blast
  have "commit_log_key (group_id_of env) k \<in> fst ` set r'"
    if "unat e \<le> unat k" and "unat k < unat e + Suc n" for k
  proof (cases "k = e")
    case True
    with r'(3) show ?thesis by (auto simp: keys_bt_insert)
  next
    case False
    then have "unat k \<noteq> unat e" by (simp add: word_unat_eq_iff)
    with that suc later [of k] show ?thesis by simp
  qed
  with r' show ?case by (auto simp: keys_bt_insert)
qed

lemma collect_commits_readable:
  "\<forall>blob \<in> snd ` set t. \<exists>b. decrypt_blob env blob = Ok b \<Longrightarrow> \<exists>out. collect_commits env g t = Ok out"
  by (induction env g t rule: collect_commits.induct) (fastforce split: option.splits)+

lemma list_group_commits_covers:
  assumes "readable env t" and "commit_log_key (group_id_of env) k \<in> fst ` set t" and "e \<le> k"
    and "list_group_commits_from (dek env) (group_id_of env) e t = Ok out"
  shows "k \<in> fst ` set out"
proof -
  from assms(2) obtain blob where "(commit_log_key (group_id_of env) k, blob) \<in> set t" by auto
  moreover from this assms(1) obtain b where "decrypt_blob (dek env) blob = Ok b"
    by (force simp: readable_def)
  moreover have "bt_wf t" using assms(1) by (simp add: readable_def)
  ultimately have "(k, b) \<in> set out"
    using list_group_commits_spec(2) [OF _ assms(4), of k b] assms(3)
    by (auto simp: bt_get_eq_Some_iff)
  then show ?thesis by force
qed

lemma list_group_commits_readable:
  assumes "readable env t"
  shows "\<exists>out. list_group_commits_from (dek env) g e t = Ok out"
  unfolding list_group_commits_from_def Let_def
  by (rule collect_commits_readable) (use assms in \<open>auto simp: readable_def\<close>)

section \<open>A replay bridges a gap\<close>

text \<open>
  A genuine chain of commits from the session's epoch on: each decodes, carries its epoch and is
  accepted, and at a state of the chain the MLS session accepts nothing that leads elsewhere.
  The buffer may hold forged commits.
\<close>

definition genuine_chain ::
    "('c, 's, 'e) mls_env \<Rightarrow> (nat \<Rightarrow> 'c) \<Rightarrow> u64 \<Rightarrow> string list \<Rightarrow> bool" where
  "genuine_chain env st e cs \<longleftrightarrow>
     (\<forall>i < length cs. \<exists>bytes w. decode_b64 env (cs ! i) = Ok bytes \<and>
        commit_epoch_of env bytes = Ok w \<and> unat w = unat e + i \<and>
        mls_epoch env (st i) = Some w \<and> accept_commit env (st i) bytes = Ok (st (Suc i)) \<and>
        (\<forall>bytes' c'. accept_commit env (st i) bytes' = Ok c' \<longrightarrow> c' = st (Suc i)))"

text \<open>Confirmed commits of the chain are behind the session: their epoch has passed.\<close>

definition applied_passed ::
    "('c, 's, 'e) mls_env \<Rightarrow> 'c seq_state \<Rightarrow> bool" where
  "applied_passed env s \<longleftrightarrow>
     (\<forall>b \<in> applied (sequencer s). \<forall>bytes w e. decode_b64 env b = Ok bytes \<longrightarrow>
        commit_epoch_of env bytes = Ok w \<longrightarrow> mls_epoch env (crypto s) = Some e \<longrightarrow> w < e)"

definition on_chain ::
    "('c, 's, 'e) mls_env \<Rightarrow> (nat \<Rightarrow> 'c) \<Rightarrow> u64 \<Rightarrow> string list \<Rightarrow> nat \<Rightarrow> 'c seq_state \<Rightarrow> bool" where
  "on_chain env st e cs i s \<longleftrightarrow> applied_passed env s \<and>
     (\<exists>p x. mls_epoch env (crypto s) = Some x \<and> unat x = unat e + p \<and> i \<le> p \<and>
          (p < length cs \<longrightarrow> crypto s = st p))"

lemma applied_passed_install:
  assumes "mls_epoch_law env" and "applied_passed env s" and "mls_epoch env (crypto s) = Some e"
    and "decode_b64 env b = Ok bytes" and "accept_commit env (crypto s) bytes = Ok c"
  shows "applied_passed env (install_commit env c e b bytes s)"
proof -
  obtain e' where w: "commit_epoch_of env bytes = Ok e"
    and e': "mls_epoch env c = Some e'" and suc: "unat e' = Suc (unat e)"
    by (rule mls_epoch_lawE [OF assms(1) assms(5) assms(3)])
  then have "e < e'" by (simp add: word_less_nat_alt)
  with assms(2-4) w e' show ?thesis
    by (fastforce simp: applied_passed_def)
qed

lemma on_chain_step:
  assumes "mls_epoch_law env" and "genuine_chain env st e cs" and "on_chain env st e cs i s"
    and "mls_epoch env (crypto s) = Some x" and "decode_b64 env b = Ok bytes"
    and "accept_commit env (crypto s) bytes = Ok c"
  shows "on_chain env st e cs i (install_commit env c x b bytes s)"
proof -
  from assms(3,4) obtain p where p: "unat x = unat e + p" "i \<le> p" "p < length cs \<longrightarrow> crypto s = st p"
    and ap: "applied_passed env s"
    by (auto simp: on_chain_def)
  obtain x' where x': "mls_epoch env c = Some x'" "unat x' = Suc (unat x)"
    by (rule mls_epoch_lawE [OF assms(1) assms(6) assms(4)])
  have "c = st (Suc p)" if "Suc p < length cs"
  proof -
    from that p have "crypto s = st p" by simp
    with assms(2,6) that show ?thesis
      unfolding genuine_chain_def by (metis Suc_lessD)
  qed
  with p x' applied_passed_install [OF assms(1) ap assms(4-6)] show ?thesis
    unfolding on_chain_def by (intro conjI exI [of _ "Suc p"] exI [of _ x']) auto
qed

lemma on_chain_steps:
  assumes "seq_steps env n s t" and "mls_epoch_law env" and "genuine_chain env st e cs"
    and "on_chain env st e cs i s"
  shows "on_chain env st e cs i t"
  using assms(1,4) by (induction rule: seq_steps.induct) (auto intro: on_chain_step assms(2,3))

lemma on_chain_offer: "on_chain env st e cs i s \<Longrightarrow> on_chain env st e cs i (s\<lparr>sequencer := fst (offer x w b (sequencer s))\<rparr>)"
  by (simp add: on_chain_def applied_passed_def)

lemma on_chain_sequence_commit:
  assumes "mls_epoch_law env" and "genuine_chain env st e cs" and "on_chain env st e cs i s"
    and i: "i < length cs"
  shows "on_chain env st e cs (Suc i) (fst (sequence_commit env (cs ! i) s))"
proof -
  from assms(3) obtain p x where x: "mls_epoch env (crypto s) = Some x" and p: "unat x = unat e + p"
    and ip: "i \<le> p" and st: "p < length cs \<longrightarrow> crypto s = st p" and ap: "applied_passed env s"
    by (auto simp: on_chain_def)
  from assms(2) i obtain bytes w where dec: "decode_b64 env (cs ! i) = Ok bytes"
    and w: "commit_epoch_of env bytes = Ok w" "unat w = unat e + i"
    and acc: "accept_commit env (st i) bytes = Ok (st (Suc i))"
    unfolding genuine_chain_def by blast
  show ?thesis
  proof (cases "i = p")
    case False
    with ip assms(3) x p have later: "on_chain env st e cs (Suc i) s"
      by (auto simp: on_chain_def)
    show ?thesis
      by (rule sequence_commit_steps [of s env "cs ! i"])
        (use later assms(1,2) on_chain_offer on_chain_steps in fastforce)
  next
    case True
    then have c: "crypto s = st i" and wx: "w = x"
      using i st w(2) p by (auto simp: word_unat_eq_iff)
    have fresh: "cs ! i \<notin> applied (sequencer s)"
      using ap dec w(1) x wx by (auto simp: applied_passed_def)
    then have off: "offer x w (cs ! i) (sequencer s) = (sequencer s, Apply)"
      by (simp add: offer_def wx)
    let ?s2 = "install_commit env (st (Suc i)) x (cs ! i) bytes s"
    have run: "fst (sequence_commit env (cs ! i) s) = fst (drain_buffered env ?s2)"
      using x dec w(1) off c acc wx by (simp add: sequence_commit_def finish_sequencing_fst)
    have "on_chain env st e cs i ?s2"
      using assms(1-3) x dec acc c by (auto intro: on_chain_step)
    moreover obtain x' where "mls_epoch env (st (Suc i)) = Some x'" "unat x' = Suc (unat x)"
      using mls_epoch_lawE [OF assms(1) acc] x c by metis
    ultimately have "on_chain env st e cs (Suc i) ?s2"
      using p True by (auto simp: on_chain_def)
    with assms(1,2) drain_buffered_steps [of env ?s2] show ?thesis
      unfolding run by (metis on_chain_steps)
  qed
qed

lemma on_chain_absorb:
  assumes "mls_epoch_law env" and "genuine_chain env st e cs"
  shows "on_chain env st e cs i s \<Longrightarrow> i \<le> length cs \<Longrightarrow>
    on_chain env st e cs (length cs) (fst (absorb_resync_commits env (drop i cs) s))"
proof (induction "length cs - i" arbitrary: i s)
  case 0
  then show ?case by simp
next
  case (Suc n)
  then have i: "i < length cs" by simp
  then have "drop i cs = cs ! i # drop (Suc i) cs" by (simp add: Cons_nth_drop_Suc)
  with Suc i on_chain_sequence_commit [OF assms Suc.prems(1) i] show ?case by simp
qed

lemma absorb_reaches_end:
  assumes "mls_epoch_law env" and "genuine_chain env st e cs"
    and "mls_epoch env (crypto s) = Some e" and "crypto s = st 0" and "applied_passed env s"
  shows "\<exists>x. mls_epoch env (crypto (fst (absorb_resync_commits env cs s))) = Some x \<and>
    unat e + length cs \<le> unat x"
proof -
  have "on_chain env st e cs 0 s"
    using assms(3-5) by (auto simp: on_chain_def)
  then have "on_chain env st e cs (length cs) (fst (absorb_resync_commits env (drop 0 cs) s))"
    by (rule on_chain_absorb [OF assms(1,2)]) simp
  then show ?thesis by (auto simp: on_chain_def)
qed

section \<open>Properties\<close>

text \<open>A concrete MLS session for the witnesses: its state is its epoch, and a commit is one byte, its epoch.\<close>

definition demo_env :: "(u64, u64, string) mls_env" where
  "demo_env =
     \<lparr>mls_epoch = Some,
      commit_epoch_of = (\<lambda>bs. case bs of [x] \<Rightarrow> Ok (ucast x) | _ \<Rightarrow> Err ''codec''),
      stage_membership = (\<lambda>c bs. if bs = [ucast c] \<and> ucast (ucast c :: byte) = c \<and> c < 128 then Ok (c + 1) else Err ''epoch''),
      staged_next = (\<lambda>c. c),
      persist_membership = (\<lambda>_ _ _. Ok ()),
      decode_b64 = (\<lambda>t. Ok (map (\<lambda>c. of_nat (of_char c)) t)),
      dek = \<lparr>encrypt_blob = Ok, decrypt_blob = Ok, tx_commits = True\<rparr>,
      group_id_of = ''g''\<rparr>"

lemma demo_accept:
  "accept_commit demo_env c bs = Ok c' \<longleftrightarrow> bs = [ucast c] \<and> ucast (ucast c :: byte) = c \<and> c < 128 \<and> c' = c + 1"
  by (auto simp: accept_commit_def demo_env_def)

lemma small_succ: "c < 128 \<Longrightarrow> unat (c + 1) = Suc (unat (c :: u64))"
  by (rule unat_word_Suc) auto

lemma demo_epoch_law: "mls_epoch_law demo_env"
  unfolding mls_epoch_law_def demo_accept by (auto simp: small_succ demo_env_def)

lemma demo_durable: "durable_log demo_env"
  by (simp add: durable_log_def demo_env_def)

lemma demo_chain: "genuine_chain demo_env (\<lambda>i. 65 + of_nat i) 65 [''A'', ''B'']"
proof -
  have two: "i < 2 \<longleftrightarrow> i = 0 \<or> i = 1" for i :: nat by auto
  show ?thesis
    unfolding genuine_chain_def demo_accept by (simp add: two demo_env_def) (auto simp: less_Suc_eq)
qed

text \<open>
  Every epoch a member moves through while sequencing is in its own resync log: reading the
  log back from the starting epoch succeeds and returns a commit for each epoch up to the one
  reached. So any member can serve the replay of the epochs it saw.
\<close>

theorem sequence_commit_resync_log:
  assumes "mls_epoch_law env" and "durable_log env"
    and "mls_epoch env (crypto s) = Some e" and "persistence s = Some r" and "readable env r"
    and "mls_epoch env (crypto (fst (sequence_commit env b s))) = Some e'"
  shows "\<exists>r' out. persistence (fst (sequence_commit env b s)) = Some r' \<and>
    list_group_commits_from (dek env) (group_id_of env) e r' = Ok out \<and>
    (\<forall>k. e \<le> k \<and> k < e' \<longrightarrow> k \<in> fst ` set out)"
proof (rule sequence_commit_steps [of s env b])
  fix q n
  assume "seq_steps env n (s\<lparr>sequencer := q\<rparr>) (fst (sequence_commit env b s))" (is "seq_steps _ _ ?s1 ?t")
  then have steps: "seq_steps env n ?s1 ?t" .
  have s1: "mls_epoch env (crypto ?s1) = Some e" "persistence ?s1 = Some r"
    using assms(3,4) by simp_all
  obtain r' where r': "persistence ?t = Some r'" "readable env r'"
    and all: "\<And>k. unat e \<le> unat k \<Longrightarrow> unat k < unat e + n \<Longrightarrow> commit_log_key (group_id_of env) k \<in> fst ` set r'"
    using seq_steps_logged [OF assms(1,2) steps s1 assms(5)] by blast
  obtain out where out: "list_group_commits_from (dek env) (group_id_of env) e r' = Ok out"
    using list_group_commits_readable [OF r'(2)] by blast
  have e': "unat e' = unat e + n"
    using seq_steps_epoch [OF assms(1) steps s1(1)] assms(6) by auto
  have "k \<in> fst ` set out" if "e \<le> k" and "k < e'" for k
    using list_group_commits_covers [OF r'(2) all that(1) out] that e'
    by (simp add: word_le_nat_alt word_less_nat_alt)
  with r'(1) out show ?thesis by blast
qed

theorem sequence_commit_resync_log_witness:
  "\<exists>r' out. persistence (fst (sequence_commit demo_env ''A''
        \<lparr>crypto = 65, sequencer = \<lparr>applied = {}, buffered = [(66, ''B'')], last_requested_epoch = None\<rparr>,
         persistence = Some []\<rparr>)) = Some r' \<and>
    list_group_commits_from (dek demo_env) (group_id_of demo_env) 65 r' = Ok out \<and>
    (\<forall>k. 65 \<le> k \<and> k < 67 \<longrightarrow> k \<in> fst ` set out)"
proof (rule sequence_commit_resync_log)
  show "mls_epoch_law demo_env" by (rule demo_epoch_law)
  show "durable_log demo_env" by (rule demo_durable)
  show "readable demo_env []" by (simp add: readable_def)
qed (simp_all add: demo_env_def sequence_commit_def offer_def finish_sequencing_def accept_commit_def
    install_commit_def confirm_def drain_ready_def log_group_commit_def append_group_commit_def
    db_put_def drain_buffered.simps peek_ready_def bt_get_def bt_remove_def)

text \<open>
  A gap is reported exactly when it exists: when sequencing succeeds on a session with no stale
  buffered commit, the outcome is Gapped if and only if a commit is still buffered, the buffer
  holds only commits beyond the epoch reached, and there is again no stale one.
\<close>

theorem sequence_commit_gap_exact:
  assumes "mls_epoch_law env" and "seq_wf (sequencer s)" and "no_stale env s"
    and "mls_epoch env (crypto s) = Some e" and "sequence_commit env b s = (t, Ok outcome)"
  shows "(outcome = Gapped \<longleftrightarrow> buffered (sequencer t) \<noteq> []) \<and>
    (\<exists>e'. mls_epoch env (crypto t) = Some e' \<and> e \<le> e' \<and>
      list_all (\<lambda>x. e' < fst x) (buffered (sequencer t))) \<and> no_stale env t"
proof -
  have t: "t = fst (sequence_commit env b s)" using assms(5) by simp
  obtain q n where "seq_steps env n (s\<lparr>sequencer := q\<rparr>) t"
    using sequence_commit_steps [of s env b] unfolding t by metis
  then obtain e' where e': "mls_epoch env (crypto t) = Some e'" and n: "unat e' = unat e + n"
    using seq_steps_epoch [OF assms(1)] assms(4) by fastforce
  have wf: "seq_wf (sequencer t)" and ns: "no_stale env t"
    unfolding t using assms(1-3) by (auto intro: wf_intros sequence_commit_no_stale)
  from sequence_commit_Ok_drained [OF assms(5,4)]
  have out: "outcome = (if still_gapped env t then Gapped else Done)" and
    drained: "peek_ready (sequencer t) e' = None"
    using drain_buffered_Ok e' by blast+
  have "e' < fst x" if "x \<in> set (buffered (sequencer t))" for x
    using ns e' drained that wf
    by (auto simp: no_stale_def peek_ready_def bt_get_None_iff order_le_less)
  moreover have "e \<le> e'" using n by (simp add: word_le_nat_alt)
  ultimately show ?thesis
    using still_gapped_iff [OF wf ns e' drained] out e' ns by (auto simp: list_all_iff)
qed

theorem sequence_commit_gap_exact_witness:
  "let s = \<lparr>crypto = 65, sequencer = new_sequencer, persistence = None\<rparr>;
       t = fst (sequence_commit demo_env ''C'' s)
   in (Gapped = Gapped \<longleftrightarrow> buffered (sequencer t) \<noteq> []) \<and>
      (\<exists>e'. mls_epoch demo_env (crypto t) = Some e' \<and> 65 \<le> e' \<and>
        list_all (\<lambda>x. e' < fst x) (buffered (sequencer t))) \<and> no_stale demo_env t"
  unfolding Let_def
proof (rule sequence_commit_gap_exact [where b = "''C''"])
  show "mls_epoch_law demo_env" by (rule demo_epoch_law)
  show "seq_wf (sequencer \<lparr>crypto = 65 :: u64, sequencer = new_sequencer, persistence = None\<rparr>)"
    by (simp add: seq_wf_new)
qed (simp_all add: demo_env_def no_stale_def new_sequencer_def sequence_commit_def offer_def
    finish_sequencing_def drain_buffered.simps peek_ready_def still_gapped_def gap_def bt_first_key_def
    bt_contains_def BUFFER_CAP_def bt_get_def)

text \<open>
  Over any run of offers, confirmations, drains and resync bookkeeping the buffer stays sorted
  by epoch and within its cap, and a commit buffered for an epoch stays buffered, unchanged, until
  exactly that epoch is drained: later traffic for the same epoch cannot evict it.
\<close>

theorem sequencer_run_keeps_buffer:
  assumes "seq_wf q"
  shows "seq_wf (foldl handle_event q evs) \<and>
    (Drained k \<notin> set evs \<longrightarrow> bt_get (buffered q) k = Some b \<longrightarrow>
       bt_get (buffered (foldl handle_event q evs)) k = Some b)"
  using sequencer_events.run_inv [OF assms] sequencer_events.run_keeps [OF assms, of "(k, b)"]
  by auto

theorem sequencer_run_keeps_buffer_witness:
  "bt_get (buffered (foldl handle_event
      \<lparr>applied = {}, buffered = [(6, ''real'')], last_requested_epoch = None\<rparr>
      [Offered 5 6 ''garbage'', Drained 7, Requested 5])) 6 = Some ''real''"
  using sequencer_run_keeps_buffer
    [of "\<lparr>applied = {}, buffered = [(6, ''real'')], last_requested_epoch = None\<rparr>"
        "[Offered 5 6 ''garbage'', Drained 7, Requested 5]" 6 "''real''"]
  by (simp add: seq_wf_def bt_wf_def BUFFER_CAP_def bt_get_def)

text \<open>
  The dedup set never blocks a commit that was not applied: after sequencing, every commit in
  the set was there before or decodes to bytes the MLS session accepted, so a commit whose
  application failed, or a forged one, is offered again as if new.
\<close>

theorem sequence_commit_confirms_accepted:
  "applied (sequencer (fst (sequence_commit env b s))) \<subseteq>
     applied (sequencer s) \<union> {b'. was_accepted env b'}"
  using sequence_commit_applied by blast

text \<open>
  One resync request per stuck epoch: while the session is gapped at an epoch it has not asked
  for, the first call publishes one request and a second call changes nothing; when publishing
  fails the reservation is undone, so the next call publishes.
\<close>

theorem request_resync_once:
  assumes "mls_epoch env (crypto (gs_seq g)) = Some e" and "gap (sequencer (gs_seq g)) e"
    and "last_requested_epoch (sequencer (gs_seq g)) \<noteq> Some e"
    and "publish e = Ok ()" and "failing e = Err err"
  shows "resync_requests (fst (request_resync_if_gapped env publish g)) = resync_requests g @ [e] \<and>
    request_resync_if_gapped env publish (fst (request_resync_if_gapped env publish g)) =
      (fst (request_resync_if_gapped env publish g), Ok ()) \<and>
    snd (request_resync_if_gapped env failing g) = Err err \<and>
    resync_requests (fst (request_resync_if_gapped env publish
        (fst (request_resync_if_gapped env failing g)))) = resync_requests g @ [e]"
  using assms
  by (simp add: request_resync_if_gapped_def should_request_def rearm_def gap_def)

theorem request_resync_once_witness:
  "resync_requests (fst (request_resync_if_gapped demo_env (\<lambda>_. Ok ())
      \<lparr>gs_seq = \<lparr>crypto = 65, sequencer = \<lparr>applied = {}, buffered = [(67, ''C'')],
        last_requested_epoch = Some 64\<rparr>, persistence = None\<rparr>, needs_rejoin = False,
       resync_requests = []\<rparr>)) = [65]"
  using request_resync_once [of demo_env "\<lparr>gs_seq = \<lparr>crypto = 65, sequencer = \<lparr>applied = {},
        buffered = [(67, ''C'')], last_requested_epoch = Some 64\<rparr>, persistence = None\<rparr>,
        needs_rejoin = False, resync_requests = []\<rparr>" 65 "\<lambda>_. Ok ()" "\<lambda>_. Err ''down''" "''down''"]
  by (simp add: demo_env_def gap_def bt_first_key_def)

end
