(* ===== verification/Group_Control.thy ===== *)
theory Group_Control
  imports Org_Roster Commit_Sequencer
begin

text \<open>
  The control channel of a group (\<open>private_group_runtime/control.rs\<close>, \<open>org_gate.rs\<close>, the dispatch of
  \<open>commits.rs\<close> and \<open>authentication.rs\<close>, \<open>wires.rs\<close>, \<open>history/own_transition.rs\<close>,
  \<open>history/admission.rs\<close>, \<open>history/welcome.rs\<close>): who may move the MLS tree of a group, and how.

  In a plain group authority follows the MLS tree and one administrator; in a group of an organisation
  it follows the signed roster. Every handler takes the group's state and returns it with the result
  of the call; \<open>gt_sent\<close> lists the frames published. The organisation's stored roster bytes are what
  the store holds when the event is handled (\<open>ge_roster_row\<close>). MLS operations, JSON and the clock are
  parameters; the device's own fingerprint is that of its signing key and does not change. What is
  written as history evidence is named by \<open>evidence\<close>; its encoding and the write are parameters, the
  guard on the roster inside the transaction is modelled. A frame of an application component is
  handed to it (\<open>ge_application\<close>) once its sender is authenticated.
\<close>

section \<open>Data\<close>

text \<open>The last two stand for \<open>Codec\<close> with the text of a roster or envelope error.\<close>

datatype group_error =
    GMoss string | GCodec string | GPersistence string | GOpenMls string | GNotReady | GPayloadTooLarge
  | GRosterRejected roster_error | GEnvelopeRejected envelope_error

text \<open>Application frames carry a payload of their own component.\<close>

datatype 'a control_envelope =
    HistoryFrame string 'a
  | PlusMetadata string 'a
  | MessageDeletionFrame string 'a
  | NameMetadata string 'a
  | AttachmentManifestFrame string 'a
  | DmOfferFrame string 'a
  | TypingFrame string 'a
  | KeyPackage (kp_group: string) (kp_participant: string) (kp_device: string) (kp_fingerprint: string)
      (kp_b64: string) (kp_joiner: "sender_proof option")
  | Welcome (we_group: string) (we_participant: string) (we_fingerprint: string) (we_welcome: string)
      (we_commit: string) (we_tree: string) (we_binding: "sender_proof option")
  | Commit (cm_group: string) (cm_fingerprint: string) (cm_b64: string) (cm_version: "u64 option")
      (cm_binding: "sender_proof option")
  | AdminHandoff string string string
  | SelfRemove (sr_group: string) (sr_fingerprint: string) (sr_proposal: string) (sr_names: "string option")
  | ResyncRequest (rq_group: string) (rq_fingerprint: string) (rq_epoch: u64)
  | ResyncResponse (rs_group: string) (rs_fingerprint: string) (rs_commits: "(u64 \<times> string) list")

definition is_application :: "'a control_envelope \<Rightarrow> bool" where
  "is_application e \<longleftrightarrow>
     (case e of
        AttachmentManifestFrame _ _ \<Rightarrow> True | HistoryFrame _ _ \<Rightarrow> True | PlusMetadata _ _ \<Rightarrow> True
      | MessageDeletionFrame _ _ \<Rightarrow> True | DmOfferFrame _ _ \<Rightarrow> True | TypingFrame _ _ \<Rightarrow> True
      | NameMetadata _ _ \<Rightarrow> True | _ \<Rightarrow> False)"

fun envelope_group_id :: "'a control_envelope \<Rightarrow> string" where
  "envelope_group_id (HistoryFrame g _) = g"
| "envelope_group_id (PlusMetadata g _) = g"
| "envelope_group_id (MessageDeletionFrame g _) = g"
| "envelope_group_id (NameMetadata g _) = g"
| "envelope_group_id (AttachmentManifestFrame g _) = g"
| "envelope_group_id (DmOfferFrame g _) = g"
| "envelope_group_id (TypingFrame g _) = g"
| "envelope_group_id (KeyPackage g _ _ _ _ _) = g"
| "envelope_group_id (Welcome g _ _ _ _ _ _) = g"
| "envelope_group_id (Commit g _ _ _ _) = g"
| "envelope_group_id (AdminHandoff g _ _) = g"
| "envelope_group_id (SelfRemove g _ _ _) = g"
| "envelope_group_id (ResyncRequest g _ _) = g"
| "envelope_group_id (ResyncResponse g _ _) = g"

record history_context =
  hc_group_id :: bytes
  hc_epoch :: u64
  hc_hash :: string

record add_outcome =
  ao_welcome :: bytes
  ao_tree :: bytes
  ao_commit :: bytes

record 'c staged_admission =
  sa_next :: 'c
  sa_context :: history_context
  sa_author :: bytes
  sa_author_identity :: string

record admission_association =
  as_domain :: string
  as_version :: byte
  as_conversation :: string
  as_mesh :: string
  as_org :: "string option"
  as_group_id :: string
  as_prior :: "u64 \<times> string"
  as_next :: "u64 \<times> string"
  as_commit_hash :: string
  as_welcome_hash :: string
  as_tree_hash :: string
  as_admitted_key :: string
  as_joiner_hash :: "string option"
  as_claimed_at :: u64

record key_package_claim =
  kc_domain :: string
  kc_version :: byte
  kc_conversation :: string
  kc_mesh :: string
  kc_org :: "string option"
  kc_package_hash :: string
  kc_mls :: string
  kc_moss :: string

record admission_replay =
  ar_welcome :: bytes
  ar_commit :: bytes
  ar_last_replay :: "nat option"

record roster_lagged_commit =
  lc_roster_version :: u64
  lc_sender_peer_id :: string
  lc_commit_b64 :: string

datatype 'c evidence =
    PendingAuthority bytes bytes bytes
  | PendingAssociation bytes sender_proof
  | OwnTransition 'c 'c bytes bytes
  | OwnAdmission 'c 'c add_outcome sender_proof "sender_proof option" string admission_replay
  | PinnedAdmission "'c staged_admission" string string string "sender_proof option"

record ('c, 'sk) group_ctl =
  gt_group_id :: string
  gt_mesh_id :: string
  gt_control_channel :: string
  gt_participant_id :: string
  gt_device_fingerprint :: string
  gt_admin_fingerprint :: string
  gt_is_admin :: bool
  gt_joined :: bool
  gt_org_pubkey :: "string option"
  gt_org_signer :: "'sk option"
  gt_session :: "'c group_session"
  gt_pending_join_package :: "bytes option"
  gt_admission_replays :: "(string, admission_replay) btree_map"
  gt_roster_cache :: "(bytes \<times> org_roster) option"
  gt_incoming_org_control :: "bytes option"
  gt_roster_lag :: "roster_lagged_commit list"
  gt_version_seen :: "u64 option"
  gt_sent :: "bytes list"

record ('c, 's, 'vk, 'sg, 'sk, 'a) group_env =
  ge_mls :: "('c, 's, group_error) mls_env"
  ge_docs :: "('vk, 'sg, 'sk) org_doc_env"
  ge_roster_row :: "string \<Rightarrow> (group_error, bytes option) result"
  ge_signed_from :: "bytes \<Rightarrow> (group_error, org_signed) result"
  ge_signed_to :: "org_signed \<Rightarrow> (group_error, bytes) result"
  ge_control_from :: "bytes \<Rightarrow> (group_error, 'a control_envelope) result"
  ge_control_to :: "'a control_envelope \<Rightarrow> (group_error, bytes) result"
  ge_proof_from :: "bytes \<Rightarrow> sender_proof option"
  ge_proof_to :: "sender_proof \<Rightarrow> (group_error, bytes) result"
  ge_claim_to :: "key_package_claim \<Rightarrow> (group_error, bytes) result"
  ge_association_to :: "admission_association \<Rightarrow> (group_error, bytes) result"
  ge_association_from :: "bytes \<Rightarrow> (group_error, admission_association) result"
  ge_base64 :: "bytes \<Rightarrow> string"
  ge_sha256 :: "bytes \<Rightarrow> bytes"
  ge_publish :: "bytes \<Rightarrow> (group_error, unit) result"
  ge_identity_signer :: "(group_error, 'sk) result"
  ge_evidence :: "'c evidence \<Rightarrow> (group_error, bytes) result"
  ge_commit :: "bytes \<Rightarrow> (group_error, unit) result"
  ge_saved_replay :: "string \<Rightarrow> (group_error, admission_replay option) result"
  ge_now_ms :: u64
  ge_instant :: nat
  ge_ready :: "'c \<Rightarrow> bool"
  ge_signer :: "'c \<Rightarrow> mls_signer"
  ge_fingerprint :: string
  ge_member_fingerprints :: "'c \<Rightarrow> string list"
  ge_member_identities :: "'c \<Rightarrow> string list"
  ge_identity_for_signer :: "'c \<Rightarrow> bytes \<Rightarrow> string option"
  ge_history_context :: "'c \<Rightarrow> (group_error, history_context) result"
  ge_commit_header :: "bytes \<Rightarrow> (group_error, bytes \<times> u64) result"
  ge_receive_candidate :: "'c \<Rightarrow> (group_error, 'c) result"
  ge_remove_by_identity :: "'c \<Rightarrow> string \<Rightarrow> (group_error, 'c \<times> bytes) result"
  ge_commit_departure :: "'c \<Rightarrow> bytes \<Rightarrow> (group_error, 'c \<times> bytes) result"
  ge_add_member :: "'c \<Rightarrow> bytes \<Rightarrow> (group_error, 'c \<times> add_outcome) result"
  ge_replace_member :: "'c \<Rightarrow> string \<Rightarrow> bytes \<Rightarrow> (group_error, 'c \<times> add_outcome) result"
  ge_key_package_identity :: "'c \<Rightarrow> bytes \<Rightarrow> (group_error, string) result"
  ge_key_package_signer :: "'c \<Rightarrow> bytes \<Rightarrow> (group_error, string) result"
  ge_signer_is_member :: "'c \<Rightarrow> bytes \<Rightarrow> (group_error, bool) result"
  ge_stage_admission :: "'c \<Rightarrow> bytes \<Rightarrow> bytes \<Rightarrow> string \<Rightarrow> string option \<Rightarrow>
    (group_error, 'c staged_admission) result"
  ge_application :: "'a control_envelope \<Rightarrow> verified_sender \<Rightarrow> bytes \<Rightarrow> 'c \<Rightarrow> 'c \<times> (group_error, unit) result"

definition ROSTER_LAG_CAP :: nat where
  "ROSTER_LAG_CAP = 16"

definition ROSTER_LAG_HORIZON :: u64 where
  "ROSTER_LAG_HORIZON = 64"

definition MAX_PUBLISH_BYTES :: nat where
  "MAX_PUBLISH_BYTES = 65536"

definition ADMISSION_DOMAIN :: string where
  "ADMISSION_DOMAIN = ''mosh-history-admission-association-v1''"

text \<open>The MLS session of a group, and a call that stops at the first error.\<close>

definition gt_crypto :: "('c, 'sk) group_ctl \<Rightarrow> 'c" where
  "gt_crypto g = crypto (gs_seq (gt_session g))"

definition set_crypto :: "'c \<Rightarrow> ('c, 'sk) group_ctl \<Rightarrow> ('c, 'sk) group_ctl" where
  "set_crypto c g = g\<lparr>gt_session := (gt_session g)\<lparr>gs_seq := (gs_seq (gt_session g))\<lparr>crypto := c\<rparr>\<rparr>\<rparr>"

definition gt_persistence :: "('c, 'sk) group_ctl \<Rightarrow> rows option" where
  "gt_persistence g = persistence (gs_seq (gt_session g))"

fun and_next :: "'g \<times> ('e, 'x) result \<Rightarrow> ('g \<Rightarrow> 'x \<Rightarrow> 'g \<times> ('e, 'y) result) \<Rightarrow> 'g \<times> ('e, 'y) result" where
  "and_next (g, Inl e) f = (g, Err e)"
| "and_next (g, Inr x) f = f g x"

section \<open>Authority from the roster\<close>

definition control_context :: "('c, 'sk) group_ctl \<Rightarrow> org_context" where
  "control_context g = \<lparr>oc_org_pubkey = (case gt_org_pubkey g of None \<Rightarrow> [] | Some k \<Rightarrow> k),
     oc_mesh_id = gt_mesh_id g, oc_channel_kind = gt_control_channel g\<rparr>"

record verified_control =
  vc_payload :: bytes
  vc_sender :: "string option"
  vc_original_org :: "bytes option"

definition unwrap_control ::
    "('c, 's, 'vk, 'sg, 'sk, 'a) group_env \<Rightarrow> bytes \<Rightarrow> ('c, 'sk) group_ctl \<Rightarrow> (group_error, verified_control) result" where
  "unwrap_control env payload g =
     (case gt_org_pubkey g of
        None \<Rightarrow> Ok \<lparr>vc_payload = payload, vc_sender = None, vc_original_org = None\<rparr>
      | Some org \<Rightarrow>
          and_then (ge_signed_from env payload) (\<lambda>e.
          and_then (map_err GEnvelopeRejected (verify_envelope (ge_docs env) e (control_context g))) (\<lambda>_.
            Ok \<lparr>vc_payload = os_payload e, vc_sender = Some (os_peer_id e), vc_original_org = Some payload\<rparr>)))"

text \<open>The roster in force, verified again only when the stored bytes change.\<close>

definition org_roster_checked ::
    "('c, 's, 'vk, 'sg, 'sk, 'a) group_env \<Rightarrow> ('c, 'sk) group_ctl \<Rightarrow>
     ('c, 'sk) group_ctl \<times> (group_error, org_roster) result" where
  "org_roster_checked env g =
     (case gt_org_pubkey g of
        None \<Rightarrow> (g, Err GNotReady)
      | Some org \<Rightarrow>
          if gt_persistence g = None then (g, Err GNotReady)
          else
            (case and_then (ge_roster_row env org) (\<lambda>row. ok_or row GNotReady) of
               Inl e \<Rightarrow> (g, Err e)
             | Inr bs \<Rightarrow>
                 (case Option.bind (gt_roster_cache g) (\<lambda>(cached, r). if cached = bs then Some r else None) of
                    Some r \<Rightarrow> (g, Ok r)
                  | None \<Rightarrow>
                      (case verify_org_roster (ge_docs env) bs org None of
                         Inl e \<Rightarrow> (g, Err (GRosterRejected e))
                       | Inr r \<Rightarrow> (g\<lparr>gt_roster_cache := Some (bs, r)\<rparr>, Ok r)))))"

definition group_org_roster ::
    "('c, 's, 'vk, 'sg, 'sk, 'a) group_env \<Rightarrow> ('c, 'sk) group_ctl \<Rightarrow> ('c, 'sk) group_ctl \<times> org_roster option" where
  "group_org_roster env g = (let (g1, out) = org_roster_checked env g in (g1, to_option out))"

definition lists_member :: "org_roster \<Rightarrow> string \<Rightarrow> bool" where
  "lists_member r peer = list_ex (\<lambda>m. rm_moss_peer_id m = peer) (or_members r)"

definition lists_admin :: "org_roster \<Rightarrow> string \<Rightarrow> bool" where
  "lists_admin r peer = list_ex (\<lambda>m. rm_moss_peer_id m = peer \<and> rm_role m = ''admin'') (or_members r)"

definition roster_contains ::
    "('c, 's, 'vk, 'sg, 'sk, 'a) group_env \<Rightarrow> string \<Rightarrow> ('c, 'sk) group_ctl \<Rightarrow> ('c, 'sk) group_ctl \<times> bool" where
  "roster_contains env peer g =
     (let (g1, r) = group_org_roster env g in (g1, case r of None \<Rightarrow> False | Some r \<Rightarrow> lists_member r peer))"

definition roster_role_is_admin ::
    "('c, 's, 'vk, 'sg, 'sk, 'a) group_env \<Rightarrow> string \<Rightarrow> ('c, 'sk) group_ctl \<Rightarrow> ('c, 'sk) group_ctl \<times> bool" where
  "roster_role_is_admin env peer g =
     (let (g1, r) = group_org_roster env g in (g1, case r of None \<Rightarrow> False | Some r \<Rightarrow> lists_admin r peer))"

definition own_roster_version ::
    "('c, 's, 'vk, 'sg, 'sk, 'a) group_env \<Rightarrow> ('c, 'sk) group_ctl \<Rightarrow> ('c, 'sk) group_ctl \<times> u64 option" where
  "own_roster_version env g = (let (g1, r) = group_org_roster env g in (g1, map_option or_version r))"

definition own_peer_id :: "('c, 's, 'vk, 'sg, 'sk, 'a) group_env \<Rightarrow> ('c, 'sk) group_ctl \<Rightarrow> string option" where
  "own_peer_id env g = map_option (peer_id_hex (ge_docs env)) (gt_org_signer g)"

definition try_acting_admin ::
    "('c, 's, 'vk, 'sg, 'sk, 'a) group_env \<Rightarrow> ('c, 'sk) group_ctl \<Rightarrow>
     ('c, 'sk) group_ctl \<times> (group_error, bool) result" where
  "try_acting_admin env g =
     (case gt_org_pubkey g of
        None \<Rightarrow> (g, Ok (gt_is_admin g))
      | Some _ \<Rightarrow>
          (case own_peer_id env g of
             None \<Rightarrow> (g, Err GNotReady)
           | Some i \<Rightarrow> and_next (org_roster_checked env g) (\<lambda>g1 r. (g1, Ok (lists_admin r i)))))"

definition acting_admin ::
    "('c, 's, 'vk, 'sg, 'sk, 'a) group_env \<Rightarrow> ('c, 'sk) group_ctl \<Rightarrow> ('c, 'sk) group_ctl \<times> bool" where
  "acting_admin env g = (let (g1, out) = try_acting_admin env g in (g1, to_option out = Some True))"

definition reconcile_admin ::
    "('c, 's, 'vk, 'sg, 'sk, 'a) group_env \<Rightarrow> ('c, 'sk) group_ctl \<Rightarrow> ('c, 'sk) group_ctl" where
  "reconcile_admin env g =
     (if gt_org_pubkey g \<noteq> None \<or> \<not> gt_joined g then g
      else
        (let members = ge_member_fingerprints env (gt_crypto g)
         in if gt_admin_fingerprint g \<in> set members then g
            else
              (case successor_of members (gt_admin_fingerprint g) of
                 None \<Rightarrow> g
               | Some nxt \<Rightarrow>
                   g\<lparr>gt_is_admin := (nxt = ge_fingerprint env), gt_admin_fingerprint := nxt\<rparr>)))"

definition should_commit_departure ::
    "('c, 's, 'vk, 'sg, 'sk, 'a) group_env \<Rightarrow> string \<Rightarrow> ('c, 'sk) group_ctl \<Rightarrow> ('c, 'sk) group_ctl \<times> bool" where
  "should_commit_departure env leaver g =
     (if gt_org_pubkey g \<noteq> None then acting_admin env g
      else if leaver \<noteq> gt_admin_fingerprint g then (g, gt_is_admin g)
      else (g, successor_of (ge_member_fingerprints env (gt_crypto g)) leaver = Some (ge_fingerprint env)))"

definition commit_author_authorized ::
    "('c, 's, 'vk, 'sg, 'sk, 'a) group_env \<Rightarrow> string \<Rightarrow> string option \<Rightarrow> ('c, 'sk) group_ctl \<Rightarrow>
     ('c, 'sk) group_ctl \<times> bool" where
  "commit_author_authorized env from_fp sender g =
     (if gt_org_pubkey g \<noteq> None
      then (case sender of None \<Rightarrow> (g, False) | Some p \<Rightarrow> roster_role_is_admin env p g)
      else (g, from_fp = gt_admin_fingerprint g))"

section \<open>Publishing\<close>

definition control_payload ::
    "('c, 's, 'vk, 'sg, 'sk, 'a) group_env \<Rightarrow> 'a control_envelope \<Rightarrow> ('c, 'sk) group_ctl \<Rightarrow> (group_error, bytes) result" where
  "control_payload env e g =
     and_then (ge_control_to env e) (\<lambda>payload.
     and_then
       (case (gt_org_pubkey g, gt_org_signer g) of
          (Some _, Some key) \<Rightarrow> ge_signed_to env (sign_envelope (ge_docs env) key (control_context g) payload)
        | _ \<Rightarrow> Ok payload) (\<lambda>bs.
       if MAX_PUBLISH_BYTES < length bs then Err GPayloadTooLarge else Ok bs))"

definition publish_frame ::
    "('c, 's, 'vk, 'sg, 'sk, 'a) group_env \<Rightarrow> bytes \<Rightarrow> ('c, 'sk) group_ctl \<Rightarrow> ('c, 'sk) group_ctl \<times> (group_error, unit) result" where
  "publish_frame env bs g =
     (case ge_publish env bs of Inl e \<Rightarrow> (g, Err e) | Inr _ \<Rightarrow> (g\<lparr>gt_sent := gt_sent g @ [bs]\<rparr>, Ok ()))"

definition publish_control ::
    "('c, 's, 'vk, 'sg, 'sk, 'a) group_env \<Rightarrow> 'a control_envelope \<Rightarrow> ('c, 'sk) group_ctl \<Rightarrow>
     ('c, 'sk) group_ctl \<times> (group_error, unit) result" where
  "publish_control env e g =
     (case control_payload env e g of Inl x \<Rightarrow> (g, Err x) | Inr bs \<Rightarrow> publish_frame env bs g)"

definition org_history_guard ::
    "('c, 's, 'vk, 'sg, 'sk, 'a) group_env \<Rightarrow> string \<Rightarrow> bool \<Rightarrow> ('c, 'sk) group_ctl \<Rightarrow>
     (group_error, (string \<times> bytes) option) result" where
  "org_history_guard env author require_admin g =
     (case gt_org_pubkey g of
        None \<Rightarrow> Ok None
      | Some org \<Rightarrow>
          (case gt_roster_cache g of
             None \<Rightarrow> Err GNotReady
           | Some (bs, r) \<Rightarrow>
               if (if require_admin then lists_admin r author else lists_member r author) \<and>
                  (case own_peer_id env g of None \<Rightarrow> False | Some own \<Rightarrow> lists_member r own)
               then Ok (Some (org, bs)) else Err GNotReady))"

text \<open>The transaction refuses when the stored roster is not the one the guard was made from.\<close>

definition commit_history_admission ::
    "('c, 's, 'vk, 'sg, 'sk, 'a) group_env \<Rightarrow> (string \<times> bytes) option \<Rightarrow> bytes \<Rightarrow> (group_error, unit) result" where
  "commit_history_admission env guard bs =
     (case guard of
        None \<Rightarrow> ge_commit env bs
      | Some (org, expected) \<Rightarrow>
          and_then (ge_roster_row env org) (\<lambda>row.
            if row \<noteq> Some expected then Err (GPersistence ''history organization authority changed'')
            else ge_commit env bs))"

definition log_commit ::
    "('c, 's, 'vk, 'sg, 'sk, 'a) group_env \<Rightarrow> u64 \<Rightarrow> bytes \<Rightarrow> ('c, 'sk) group_ctl \<Rightarrow> ('c, 'sk) group_ctl" where
  "log_commit env epoch raw g =
     g\<lparr>gt_session := (gt_session g)\<lparr>gs_seq := (gs_seq (gt_session g))\<lparr>persistence :=
       log_group_commit (ge_mls env) epoch raw (gt_persistence g)\<rparr>\<rparr>\<rparr>"

text \<open>An own removal: evidence and snapshot are durable before the session moves.\<close>

definition publish_membership_change ::
    "('c, 's, 'vk, 'sg, 'sk, 'a) group_env \<Rightarrow> 'c \<Rightarrow> bytes \<Rightarrow> ('c, 'sk) group_ctl \<Rightarrow>
     ('c, 'sk) group_ctl \<times> (group_error, unit) result" where
  "publish_membership_change env candidate raw g =
     (case and_then (ge_history_context env (gt_crypto g)) (\<lambda>prior.
             and_then (ge_history_context env candidate) (\<lambda>_. Ok prior)) of
        Inl e \<Rightarrow> (g, Err e)
      | Inr prior \<Rightarrow>
          (let (g1, version) = own_roster_version env g
           in case control_payload env
                 (Commit (gt_group_id g) (ge_fingerprint env) (ge_base64 env raw) version None) g1 of
                Inl e \<Rightarrow> (g1, Err e)
              | Inr bs \<Rightarrow>
                  (case (if gt_persistence g1 = None then Ok ()
                         else
                           and_then (ge_evidence env (OwnTransition (gt_crypto g1) candidate raw bs)) (\<lambda>ev.
                           and_then (org_history_guard env (gt_device_fingerprint g1) True g1) (\<lambda>guard.
                             commit_history_admission env guard ev))) of
                     Inl e \<Rightarrow> (g1, Err e)
                   | Inr _ \<Rightarrow> publish_frame env bs (log_commit env (hc_epoch prior) raw (set_crypto candidate g1)))))"

section \<open>Commits\<close>

definition sequenced ::
    "('c, 's, 'vk, 'sg, 'sk, 'a) group_env \<Rightarrow> string \<Rightarrow> ('c, 'sk) group_ctl \<Rightarrow>
     ('c, 'sk) group_ctl \<times> (group_error, unit) result" where
  "sequenced env commit_b64 g =
     (let publish = (\<lambda>epoch. and_then (control_payload env (ResyncRequest (gt_group_id g) (ge_fingerprint env) epoch) g)
            (ge_publish env));
          (s, out) = apply_commit_sequenced (ge_mls env) publish commit_b64 (gt_session g)
      in (g\<lparr>gt_session := s\<rparr>, out))"

definition within_horizon :: "u64 option \<Rightarrow> u64 \<Rightarrow> bool" where
  "within_horizon own claimed \<longleftrightarrow>
     (let base = (case own of None \<Rightarrow> 0 | Some v \<Rightarrow> v)
      in unat base + unat ROSTER_LAG_HORIZON < 2 ^ 64 \<and> claimed \<le> base + ROSTER_LAG_HORIZON)"

definition apply_org_commit ::
    "('c, 's, 'vk, 'sg, 'sk, 'a) group_env \<Rightarrow> string \<Rightarrow> u64 option \<Rightarrow> string option \<Rightarrow> ('c, 'sk) group_ctl \<Rightarrow>
     ('c, 'sk) group_ctl \<times> (group_error, unit) result" where
  "apply_org_commit env commit_b64 version sender g =
     (case sender of
        None \<Rightarrow> (g, Ok ())
      | Some p \<Rightarrow>
          (let (g1, admin) = roster_role_is_admin env p g
           in if admin then sequenced env commit_b64 g1
              else
                (let (g2, own) = own_roster_version env g1
                 in if own < version
                    then
                      (let claimed = (case version of None \<Rightarrow> 0 | Some v \<Rightarrow> v);
                           (g3, own3) = own_roster_version env g2
                       in if \<not> within_horizon own3 claimed then (g3, Ok ())
                          else
                            (g3\<lparr>gt_roster_lag := push_capped ROSTER_LAG_CAP
                                \<lparr>lc_roster_version = claimed, lc_sender_peer_id = p, lc_commit_b64 = commit_b64\<rparr>
                                (gt_roster_lag g3)\<rparr>, Ok ()))
                    else (g2, Ok ()))))"

fun retry_entries ::
    "('c, 's, 'vk, 'sg, 'sk, 'a) group_env \<Rightarrow> u64 option \<Rightarrow> roster_lagged_commit list \<Rightarrow> ('c, 'sk) group_ctl \<Rightarrow>
     ('c, 'sk) group_ctl" where
  "retry_entries env mine [] g = g"
| "retry_entries env mine (x # xs) g =
     (let (g1, admin) = roster_role_is_admin env (lc_sender_peer_id x) g
      in retry_entries env mine xs
           (if admin then fst (sequenced env (lc_commit_b64 x) g1)
            else if mine < Some (lc_roster_version x) then g1\<lparr>gt_roster_lag := gt_roster_lag g1 @ [x]\<rparr>
            else g1))"

definition retry_roster_lagged ::
    "('c, 's, 'vk, 'sg, 'sk, 'a) group_env \<Rightarrow> ('c, 'sk) group_ctl \<Rightarrow> ('c, 'sk) group_ctl" where
  "retry_roster_lagged env g =
     (if gt_roster_lag g = [] then g
      else
        (let (g1, mine) = own_roster_version env g
         in retry_entries env mine (gt_roster_lag g1) (g1\<lparr>gt_roster_lag := []\<rparr>)))"

definition kick ::
    "('c, 's, 'vk, 'sg, 'sk, 'a) group_env \<Rightarrow> string \<Rightarrow> ('c, 'sk) group_ctl \<Rightarrow> ('c, 'sk) group_ctl" where
  "kick env peer g =
     (case and_then (ge_receive_candidate env (gt_crypto g)) (\<lambda>c. ge_remove_by_identity env c peer) of
        Inl _ \<Rightarrow> g
      | Inr (candidate, raw) \<Rightarrow> fst (publish_membership_change env candidate raw g))"

definition reconcile_roster_membership ::
    "('c, 's, 'vk, 'sg, 'sk, 'a) group_env \<Rightarrow> ('c, 'sk) group_ctl \<Rightarrow> ('c, 'sk) group_ctl" where
  "reconcile_roster_membership env g =
     (case group_org_roster env g of
        (g1, None) \<Rightarrow> g1
      | (g1, Some r) \<Rightarrow>
          if \<not> gt_joined g1 then g1
          else
            (let (g2, admin) = acting_admin env g1
             in if \<not> admin then g2
                else fold (kick env)
                  (filter (\<lambda>i. Some i \<noteq> own_peer_id env g2 \<and> \<not> lists_member r i)
                    (ge_member_identities env (gt_crypto g2))) g2))"

definition sync_roster_state ::
    "('c, 's, 'vk, 'sg, 'sk, 'a) group_env \<Rightarrow> ('c, 'sk) group_ctl \<Rightarrow> ('c, 'sk) group_ctl" where
  "sync_roster_state env g =
     (if gt_org_pubkey g = None then g
      else
        (let (g1, current) = own_roster_version env g
         in if current = gt_version_seen g1 then g1
            else reconcile_roster_membership env (retry_roster_lagged env (g1\<lparr>gt_version_seen := current\<rparr>))))"

section \<open>Admissions\<close>

definition hex_hash :: "('c, 's, 'vk, 'sg, 'sk, 'a) group_env \<Rightarrow> bytes \<Rightarrow> string" where
  "hex_hash env bs = hex_encode (osigs (ge_docs env)) (ge_sha256 env bs)"

definition b64_hash :: "('c, 's, 'vk, 'sg, 'sk, 'a) group_env \<Rightarrow> string \<Rightarrow> (group_error, string) result" where
  "b64_hash env encoded = and_then (decode_b64 (ge_mls env) encoded) (\<lambda>bs. Ok (hex_hash env bs))"

definition group_conversation :: "('c, 'sk) group_ctl \<Rightarrow> string" where
  "group_conversation g = ''group:'' @ gt_group_id g"

definition key_package_input ::
    "('c, 's, 'vk, 'sg, 'sk, 'a) group_env \<Rightarrow> bytes \<Rightarrow> string \<Rightarrow> string \<Rightarrow> ('c, 'sk) group_ctl \<Rightarrow>
     (group_error, bytes) result" where
  "key_package_input env package mls moss g =
     ge_claim_to env \<lparr>kc_domain = ''mosh-history-key-package-v1'', kc_version = 1,
       kc_conversation = group_conversation g, kc_mesh = gt_mesh_id g, kc_org = gt_org_pubkey g,
       kc_package_hash = hex_hash env package, kc_mls = mls, kc_moss = moss\<rparr>"

definition verify_joiner_binding ::
    "('c, 's, 'vk, 'sg, 'sk, 'a) group_env \<Rightarrow> sender_proof \<Rightarrow> bytes \<Rightarrow> ('c, 'sk) group_ctl \<Rightarrow>
     (group_error, verified_sender) result" where
  "verify_joiner_binding env proof package g =
     and_then (map_err GCodec (verify_sender_proof (ge_docs env) proof (control_context g))) (\<lambda>sender.
     and_then (ge_key_package_signer env (gt_crypto g) package) (\<lambda>signer.
     and_then (key_package_input env package signer (vs_peer_id sender) g) (\<lambda>expected.
       if vs_payload sender \<noteq> expected \<or> hex_encode (osigs (ge_docs env)) (vs_mls_signer sender) \<noteq> signer
       then Err (GCodec ''joiner binding differs from actual KeyPackage'')
       else Ok sender)))"

definition sign_application ::
    "('c, 's, 'vk, 'sg, 'sk, 'a) group_env \<Rightarrow> (group_error, bytes) result \<Rightarrow> ('c, 'sk) group_ctl \<Rightarrow>
     (group_error, sender_proof) result" where
  "sign_application env encoded g =
     (if \<not> gt_joined g \<or> \<not> ge_ready env (gt_crypto g) then Err GNotReady
      else
        and_then encoded (\<lambda>payload.
        and_then (ge_identity_signer env) (\<lambda>key.
          map_err GCodec (make_sender_proof (ge_docs env) key (ge_signer env (gt_crypto g)) (control_context g) payload))))"

definition issue_admission_binding ::
    "('c, 's, 'vk, 'sg, 'sk, 'a) group_env \<Rightarrow> history_context \<Rightarrow> history_context \<Rightarrow> add_outcome \<Rightarrow> bytes \<Rightarrow>
     sender_proof option \<Rightarrow> ('c, 'sk) group_ctl \<Rightarrow> (group_error, sender_proof) result" where
  "issue_admission_binding env prior nxt outcome package joiner g =
     and_then (ge_key_package_signer env (gt_crypto g) package) (\<lambda>signer.
     and_then (case joiner of None \<Rightarrow> Ok None
               | Some p \<Rightarrow> and_then (ge_proof_to env p) (\<lambda>b. Ok (Some (hex_hash env b)))) (\<lambda>joiner_hash.
       sign_application env (ge_association_to env
         \<lparr>as_domain = ADMISSION_DOMAIN, as_version = 1, as_conversation = group_conversation g,
          as_mesh = gt_mesh_id g, as_org = gt_org_pubkey g,
          as_group_id = hex_encode (osigs (ge_docs env)) (hc_group_id prior),
          as_prior = (hc_epoch prior, hc_hash prior), as_next = (hc_epoch nxt, hc_hash nxt),
          as_commit_hash = hex_hash env (ao_commit outcome), as_welcome_hash = hex_hash env (ao_welcome outcome),
          as_tree_hash = hex_hash env (ao_tree outcome), as_admitted_key = signer, as_joiner_hash = joiner_hash,
          as_claimed_at = ge_now_ms env\<rparr>) g))"

definition prepare_admission_replay ::
    "('c, 's, 'vk, 'sg, 'sk, 'a) group_env \<Rightarrow> add_outcome \<Rightarrow> string \<Rightarrow> string \<Rightarrow> sender_proof \<Rightarrow> ('c, 'sk) group_ctl \<Rightarrow>
     ('c, 'sk) group_ctl \<times> (group_error, admission_replay) result" where
  "prepare_admission_replay env outcome participant author binding g =
     (let welcome = Welcome (gt_group_id g) participant author (ge_base64 env (ao_welcome outcome))
            (ge_base64 env (ao_commit outcome)) (ge_base64 env (ao_tree outcome)) (Some binding);
          (g1, version) = own_roster_version env g;
          commit = Commit (gt_group_id g) author (ge_base64 env (ao_commit outcome)) version (Some binding)
      in (g1, and_then (control_payload env welcome g1) (\<lambda>w.
              and_then (control_payload env commit g1) (\<lambda>c.
                Ok \<lparr>ar_welcome = w, ar_commit = c, ar_last_replay = None\<rparr>))))"

definition admission_replay_key ::
    "('c, 's, 'vk, 'sg, 'sk, 'a) group_env \<Rightarrow> bytes \<Rightarrow> ('c, 'sk) group_ctl \<Rightarrow> string" where
  "admission_replay_key env package g =
     ''group/'' @ hex_hash env (utf8_bytes (gt_group_id g)) @ ''/admission-replay/'' @ hex_hash env package"

definition retain_admission_replay ::
    "string \<Rightarrow> admission_replay \<Rightarrow> ('c, 'sk) group_ctl \<Rightarrow> ('c, 'sk) group_ctl" where
  "retain_admission_replay key replay g =
     (let m = gt_admission_replays g;
          m1 = (if \<not> bt_contains m key \<and> 32 \<le> length m then tl m else m)
      in g\<lparr>gt_admission_replays := bt_insert key replay m1\<rparr>)"

definition publish_admission_replay ::
    "('c, 's, 'vk, 'sg, 'sk, 'a) group_env \<Rightarrow> admission_replay \<Rightarrow> ('c, 'sk) group_ctl \<Rightarrow>
     ('c, 'sk) group_ctl \<times> (group_error, unit) result" where
  "publish_admission_replay env replay g =
     and_next (publish_frame env (ar_welcome replay) g) (\<lambda>g1 _. publish_frame env (ar_commit replay) g1)"

definition replay_admission ::
    "('c, 's, 'vk, 'sg, 'sk, 'a) group_env \<Rightarrow> bytes \<Rightarrow> ('c, 'sk) group_ctl \<Rightarrow>
     ('c, 'sk) group_ctl \<times> (group_error, unit) result" where
  "replay_admission env package g =
     (let key = admission_replay_key env package g
      in case (case bt_get (gt_admission_replays g) key of
                 Some r \<Rightarrow> Ok (Some r)
               | None \<Rightarrow> if gt_persistence g = None then Ok None else ge_saved_replay env key) of
           Inl e \<Rightarrow> (g, Err e)
         | Inr None \<Rightarrow> (g, Ok ())
         | Inr (Some saved) \<Rightarrow>
             if (case ar_last_replay saved of None \<Rightarrow> False | Some l \<Rightarrow> (ge_instant env - l) div 1000 < 3) then (g, Ok ())
             else
               and_next (publish_admission_replay env saved g) (\<lambda>g1 _.
                 (retain_admission_replay key (saved\<lparr>ar_last_replay := Some (ge_instant env)\<rparr>) g1, Ok ())))"

text \<open>The second half of \<open>admit_history_member\<close>, once the Add is signed.\<close>

definition finish_admission ::
    "('c, 's, 'vk, 'sg, 'sk, 'a) group_env \<Rightarrow> string \<Rightarrow> bytes \<Rightarrow> sender_proof option \<Rightarrow> string \<Rightarrow>
     history_context \<times> 'c \<times> add_outcome \<times> sender_proof \<Rightarrow> ('c, 'sk) group_ctl \<Rightarrow>
     ('c, 'sk) group_ctl \<times> (group_error, unit) result" where
  "finish_admission env participant package joiner own_fp = (\<lambda>(prior, candidate, outcome, binding) g.
     and_next (prepare_admission_replay env outcome participant own_fp binding g) (\<lambda>g1 replay.
       (let key = admission_replay_key env package g1
        in case (if gt_persistence g1 = None then Ok ()
                 else
                   and_then (ge_evidence env (OwnAdmission (gt_crypto g1) candidate outcome binding joiner key replay)) (\<lambda>ev.
                   and_then (org_history_guard env (gt_device_fingerprint g1) True g1) (\<lambda>guard.
                     commit_history_admission env guard ev))) of
             Inl e \<Rightarrow> (g1, Err e)
           | Inr _ \<Rightarrow>
               publish_admission_replay env replay
                 (retain_admission_replay key replay
                   (log_commit env (hc_epoch prior) (ao_commit outcome) (set_crypto candidate g1))))))"

definition admit_history_member ::
    "('c, 's, 'vk, 'sg, 'sk, 'a) group_env \<Rightarrow> string \<Rightarrow> bytes \<Rightarrow> sender_proof option \<Rightarrow> string \<Rightarrow> ('c, 'sk) group_ctl \<Rightarrow>
     ('c, 'sk) group_ctl \<times> (group_error, unit) result" where
  "admit_history_member env participant package joiner own_fp g =
     (case and_then (ge_history_context env (gt_crypto g)) (\<lambda>prior.
           and_then (ge_receive_candidate env (gt_crypto g)) (\<lambda>c0.
           and_then (if gt_org_pubkey g \<noteq> None
                     then and_then (ge_key_package_identity env (gt_crypto g) package) (\<lambda>i. ge_replace_member env c0 i package)
                     else ge_add_member env c0 package) (\<lambda>(candidate, outcome).
           and_then (ge_history_context env candidate) (\<lambda>nxt.
           and_then (issue_admission_binding env prior nxt outcome package joiner g) (\<lambda>binding.
             Ok (prior, candidate, outcome, binding)))))) of
        Inl e \<Rightarrow> (g, Err e)
      | Inr added \<Rightarrow> finish_admission env participant package joiner own_fp added g)"

definition admit_org_member ::
    "('c, 's, 'vk, 'sg, 'sk, 'a) group_env \<Rightarrow> string option \<Rightarrow> string \<Rightarrow> bytes \<Rightarrow> sender_proof option \<Rightarrow> string \<Rightarrow>
     ('c, 'sk) group_ctl \<Rightarrow> ('c, 'sk) group_ctl \<times> (group_error, unit) result" where
  "admit_org_member env sender participant package joiner own_fp g =
     (case sender of
        None \<Rightarrow> (g, Ok ())
      | Some p \<Rightarrow>
          (case ge_key_package_identity env (gt_crypto g) package of
             Inl e \<Rightarrow> (g, Err e)
           | Inr i \<Rightarrow>
               if i \<noteq> p then (g, Ok ())
               else
                 (let (g1, known) = roster_contains env i g
                  in if \<not> known then (g1, Ok ())
                     else admit_history_member env participant package joiner own_fp g1)))"

definition accept_key_package ::
    "('c, 's, 'vk, 'sg, 'sk, 'a) group_env \<Rightarrow> string \<Rightarrow> string \<Rightarrow> sender_proof option \<Rightarrow> string option \<Rightarrow> string \<Rightarrow>
     ('c, 'sk) group_ctl \<Rightarrow> ('c, 'sk) group_ctl \<times> (group_error, unit) result" where
  "accept_key_package env participant package_b64 joiner sender own_fp g =
     (let (g1, admin) = acting_admin env g
      in if \<not> admin then (g1, Ok ())
         else
           (case and_then (decode_b64 (ge_mls env) package_b64) (\<lambda>package.
                 and_then (case joiner of
                             None \<Rightarrow> Ok ()
                           | Some proof \<Rightarrow>
                               and_then (verify_joiner_binding env proof package g1) (\<lambda>v.
                                 if gt_org_pubkey g1 \<noteq> None \<and> Some (vs_peer_id v) \<noteq> sender
                                 then Err (GCodec ''org joiner sender differs'') else Ok ())) (\<lambda>_.
                 and_then (ge_signer_is_member env (gt_crypto g1) package) (\<lambda>member. Ok (package, member)))) of
              Inl e \<Rightarrow> (g1, Err e)
            | Inr (package, True) \<Rightarrow>
                if gt_org_pubkey g1 = None then replay_admission env package g1
                else
                  (case sender of
                     None \<Rightarrow> (g1, Ok ())
                   | Some p \<Rightarrow>
                       (let (g2, known) = roster_contains env p g1
                        in if known then replay_admission env package g2 else (g2, Ok ())))
            | Inr (package, False) \<Rightarrow>
                if gt_org_pubkey g1 \<noteq> None then admit_org_member env sender participant package joiner own_fp g1
                else admit_history_member env participant package joiner own_fp g1))"

definition joiner_binding ::
    "('c, 's, 'vk, 'sg, 'sk, 'a) group_env \<Rightarrow> bytes \<Rightarrow> ('c, 'sk) group_ctl \<Rightarrow> (group_error, sender_proof) result" where
  "joiner_binding env package g =
     and_then (ge_identity_signer env) (\<lambda>key.
     and_then (key_package_input env package
         (hex_encode (osigs (ge_docs env)) (signer_public (ge_signer env (gt_crypto g)))) (node_id (ge_docs env) key) g) (\<lambda>payload.
       map_err GCodec (make_sender_proof (ge_docs env) key (ge_signer env (gt_crypto g)) (control_context g) payload)))"

definition association_matches ::
    "('c, 's, 'vk, 'sg, 'sk, 'a) group_env \<Rightarrow> admission_association \<Rightarrow> verified_sender \<Rightarrow> 'c staged_admission \<Rightarrow>
     bytes \<times> u64 \<Rightarrow> string \<Rightarrow> string \<Rightarrow> string \<Rightarrow> ('c, 'sk) group_ctl \<Rightarrow> bool" where
  "association_matches env a sender staged header commit_hash welcome_hash tree_hash g \<longleftrightarrow>
     as_domain a = ADMISSION_DOMAIN \<and> as_version a = 1 \<and> as_conversation a = group_conversation g \<and>
     as_mesh a = gt_mesh_id g \<and> as_org a = gt_org_pubkey g \<and>
     as_group_id a = hex_encode (osigs (ge_docs env)) (fst header) \<and>
     fst header = hc_group_id (sa_context staged) \<and> fst (as_prior a) = snd header \<and>
     unat (snd header) + 1 < 2 ^ 64 \<and> snd header + 1 = hc_epoch (sa_context staged) \<and>
     as_next a = (hc_epoch (sa_context staged), hc_hash (sa_context staged)) \<and>
     as_commit_hash a = commit_hash \<and> as_welcome_hash a = welcome_hash \<and> as_tree_hash a = tree_hash \<and>
     as_admitted_key a = hex_encode (osigs (ge_docs env)) (signer_public (ge_signer env (sa_next staged))) \<and>
     vs_mls_signer sender = sa_author staged \<and>
     (gt_org_pubkey g \<noteq> None \<longrightarrow> vs_peer_id sender = sa_author_identity staged)"

definition verify_admission_association ::
    "('c, 's, 'vk, 'sg, 'sk, 'a) group_env \<Rightarrow> sender_proof \<Rightarrow> 'c staged_admission \<Rightarrow> string \<Rightarrow> string \<Rightarrow> string \<Rightarrow>
     ('c, 'sk) group_ctl \<Rightarrow> (group_error, unit) result" where
  "verify_admission_association env proof staged welcome tree commit g =
     and_then (map_err GCodec (verify_sender_proof (ge_docs env) proof (control_context g))) (\<lambda>sender.
     and_then (ge_association_from env (vs_payload sender)) (\<lambda>a.
     and_then (case as_joiner_hash a of
                 None \<Rightarrow> Ok ()
               | Some expected \<Rightarrow>
                   and_then (ok_or (gt_pending_join_package g) GNotReady) (\<lambda>package.
                   and_then (joiner_binding env package g) (\<lambda>own.
                   and_then (ge_proof_to env own) (\<lambda>bs.
                     if expected \<noteq> hex_hash env bs then Err (GCodec ''admission joiner proof differs'') else Ok ())))) (\<lambda>_.
     and_then (and_then (decode_b64 (ge_mls env) commit) (ge_commit_header env)) (\<lambda>header.
     and_then (b64_hash env commit) (\<lambda>ch.
     and_then (b64_hash env welcome) (\<lambda>wh.
     and_then (b64_hash env tree) (\<lambda>th.
       if association_matches env a sender staged header ch wh th g then Ok ()
       else Err (GCodec ''admission association differs from pinned Welcome''))))))))"

text \<open>
  \<open>persist_pinned_admission\<close> checks the author against the roster before it builds and commits the
  anchor of a Welcome.
\<close>

definition persist_pinned_admission ::
    "('c, 's, 'vk, 'sg, 'sk, 'a) group_env \<Rightarrow> 'c staged_admission \<Rightarrow> string \<Rightarrow> string \<Rightarrow> string \<Rightarrow> sender_proof option \<Rightarrow>
     ('c, 'sk) group_ctl \<Rightarrow> (group_error, unit) result" where
  "persist_pinned_admission env staged welcome tree commit binding g =
     (if gt_persistence g = None then Ok ()
      else
        and_then (org_history_guard env (sa_author_identity staged) True g) (\<lambda>guard.
        and_then (ge_evidence env (PinnedAdmission staged welcome tree commit binding)) (\<lambda>ev.
          commit_history_admission env guard ev)))"

definition accept_welcome ::
    "('c, 's, 'vk, 'sg, 'sk, 'a) group_env \<Rightarrow> string \<Rightarrow> string \<Rightarrow> string \<Rightarrow> string \<Rightarrow> sender_proof option \<Rightarrow> string option \<Rightarrow>
     ('c, 'sk) group_ctl \<Rightarrow> ('c, 'sk) group_ctl \<times> (group_error, unit) result" where
  "accept_welcome env from_fp welcome tree commit binding sender g =
     (let (g1, authorized) = commit_author_authorized env from_fp sender g
      in if \<not> authorized then (g1, Ok ())
         else
           (case and_then (decode_b64 (ge_mls env) welcome) (\<lambda>w.
                 and_then (decode_b64 (ge_mls env) tree) (\<lambda>t.
                 and_then (ge_stage_admission env (gt_crypto g1) w t from_fp
                     (if gt_org_pubkey g1 = None then None else sender)) (\<lambda>staged.
                 and_then (case binding of None \<Rightarrow> Ok ()
                           | Some b \<Rightarrow> verify_admission_association env b staged welcome tree commit g1) (\<lambda>_.
                 and_then (persist_pinned_admission env staged welcome tree commit binding g1) (\<lambda>_. Ok staged))))) of
              Inl e \<Rightarrow> (g1, Err e)
            | Inr staged \<Rightarrow>
                ((set_crypto (sa_next staged) g1)\<lparr>gt_joined := True, gt_pending_join_package := None\<rparr>, Ok ())))"

section \<open>Control frames\<close>

definition accept_admission_commit ::
    "('c, 's, 'vk, 'sg, 'sk, 'a) group_env \<Rightarrow> string \<Rightarrow> string \<Rightarrow> string option \<Rightarrow> ('c, 'sk) group_ctl \<Rightarrow>
     ('c, 'sk) group_ctl \<times> (group_error, unit) result" where
  "accept_admission_commit env from_fp commit sender g =
     (let (g1, authorized) = commit_author_authorized env from_fp sender g
      in if authorized then sequenced env commit g1 else (g1, Ok ()))"

definition group_accept_commit ::
    "('c, 's, 'vk, 'sg, 'sk, 'a) group_env \<Rightarrow> string \<Rightarrow> string \<Rightarrow> u64 option \<Rightarrow> string option \<Rightarrow> string \<Rightarrow>
     ('c, 'sk) group_ctl \<Rightarrow> ('c, 'sk) group_ctl \<times> (group_error, unit) result" where
  "group_accept_commit env from_fp commit version sender own_fp g =
     (if gt_org_pubkey g \<noteq> None then apply_org_commit env commit version sender g
      else if from_fp = own_fp then (g, Ok ())
      else sequenced env commit g)"

definition require_application_sender ::
    "('c, 's, 'vk, 'sg, 'sk, 'a) group_env \<Rightarrow> verified_sender \<Rightarrow> ('c, 'sk) group_ctl \<Rightarrow>
     ('c, 'sk) group_ctl \<times> (group_error, unit) result" where
  "require_application_sender env sender g =
     (if \<not> gt_joined g \<or> \<not> ge_ready env (gt_crypto g) then (g, Err GNotReady)
      else
        (let refused = Err (GCodec ''sender is not an authorized group member'')
         in case ge_identity_for_signer env (gt_crypto g) (vs_mls_signer sender) of
              None \<Rightarrow> (g, refused)
            | Some member \<Rightarrow>
                if gt_org_pubkey g = None then (g, Ok ())
                else if member \<noteq> vs_peer_id sender then (g, refused)
                else
                  (let (g1, known) = roster_contains env (vs_peer_id sender) g
                   in (g1, if known then Ok () else refused))))"

definition run_application ::
    "('c, 's, 'vk, 'sg, 'sk, 'a) group_env \<Rightarrow> 'a control_envelope \<Rightarrow> verified_sender \<Rightarrow> bytes \<Rightarrow> ('c, 'sk) group_ctl \<Rightarrow>
     ('c, 'sk) group_ctl \<times> (group_error, unit) result" where
  "run_application env e sender proof_bytes g =
     (let (c, out) = ge_application env e sender proof_bytes (gt_crypto g) in (set_crypto c g, out))"

definition handle_authenticated_control ::
    "('c, 's, 'vk, 'sg, 'sk, 'a) group_env \<Rightarrow> sender_proof \<Rightarrow> ('c, 'sk) group_ctl \<Rightarrow>
     ('c, 'sk) group_ctl \<times> (group_error, unit) result" where
  "handle_authenticated_control env proof g =
     (case and_then (ge_proof_to env proof) (\<lambda>original.
           and_then (map_err GCodec (verify_sender_proof (ge_docs env) proof (control_context g))) (\<lambda>sender.
           and_then (ge_control_from env (vs_payload sender)) (\<lambda>e. Ok (original, sender, e)))) of
        Inl e \<Rightarrow> (g, Err e)
      | Inr (original, sender, e) \<Rightarrow>
          if envelope_group_id e \<noteq> gt_group_id g then (g, Ok ())
          else
            (case e of
               HistoryFrame _ _ \<Rightarrow> run_application env e sender original g
             | _ \<Rightarrow>
                 and_next (require_application_sender env sender g) (\<lambda>g1 _.
                   if is_application e then run_application env e sender original g1
                   else (g1, Err (GCodec ''sender proof requires an application frame'')))))"

definition accept_departure ::
    "('c, 's, 'vk, 'sg, 'sk, 'a) group_env \<Rightarrow> string \<Rightarrow> string \<Rightarrow> string option \<Rightarrow> ('c, 'sk) group_ctl \<Rightarrow>
     ('c, 'sk) group_ctl \<times> (group_error, unit) result" where
  "accept_departure env from_fp proposal_b64 names g =
     (let (g1, handoff) =
            (case names of
               None \<Rightarrow> (g, Ok ())
             | Some encoded \<Rightarrow>
                 (case and_then (decode_b64 (ge_mls env) encoded) (\<lambda>b. ok_or (ge_proof_from env b) (GCodec ''json'')) of
                    Inl e \<Rightarrow> (g, Err e)
                  | Inr proof \<Rightarrow> handle_authenticated_control env proof g))
      in case handoff of
           Inl (GPersistence e) \<Rightarrow> (g1, Err (GPersistence e))
         | _ \<Rightarrow>
             (let (g2, mine) = should_commit_departure env from_fp g1
              in if \<not> mine then (g2, Ok ())
                 else
                   (case and_then (decode_b64 (ge_mls env) proposal_b64) (\<lambda>proposal.
                         and_then (ge_receive_candidate env (gt_crypto g2)) (\<lambda>c. ge_commit_departure env c proposal)) of
                      Inl e \<Rightarrow> (g2, Err e)
                    | Inr (candidate, raw) \<Rightarrow> publish_membership_change env candidate raw g2)))"

definition accept_resync_request ::
    "('c, 's, 'vk, 'sg, 'sk, 'a) group_env \<Rightarrow> string \<Rightarrow> u64 \<Rightarrow> string option \<Rightarrow> ('c, 'sk) group_ctl \<Rightarrow>
     ('c, 'sk) group_ctl \<times> (group_error, unit) result" where
  "accept_resync_request env from_fp have_epoch sender g =
     (let (g1, admin) = acting_admin env g
      in if \<not> admin then (g1, Ok ())
         else
           (let (g2, served) =
                  (if gt_org_pubkey g1 = None then (g1, True)
                   else case sender of None \<Rightarrow> (g1, False) | Some p \<Rightarrow> roster_contains env p g1)
            in if \<not> served then (g2, Ok ())
               else
                 (case serve_resync_request (ge_mls env) (ge_base64 env) from_fp have_epoch (gt_persistence g2) of
                    None \<Rightarrow> (g2, Ok ())
                  | Some (for_fp, commits) \<Rightarrow> publish_control env (ResyncResponse (gt_group_id g2) for_fp commits) g2)))"

definition accept_resync_response ::
    "('c, 's, 'vk, 'sg, 'sk, 'a) group_env \<Rightarrow> (u64 \<times> string) list \<Rightarrow> string option \<Rightarrow> ('c, 'sk) group_ctl \<Rightarrow>
     ('c, 'sk) group_ctl \<times> (group_error, unit) result" where
  "accept_resync_response env commits sender g =
     (let (g1, authorized) = (if gt_org_pubkey g = None then (g, True) else commit_author_authorized env [] sender g)
      in if \<not> authorized then (g1, Ok ())
         else
           (let publish = (\<lambda>epoch. and_then (control_payload env (ResyncRequest (gt_group_id g1) (ge_fingerprint env) epoch) g1)
                  (ge_publish env));
                (s, out) = absorb_resync_response (ge_mls env) publish (map snd commits) (gt_session g1)
            in (g1\<lparr>gt_session := s\<rparr>, out)))"

definition retain_transition_authority ::
    "('c, 's, 'vk, 'sg, 'sk, 'a) group_env \<Rightarrow> 'a control_envelope \<Rightarrow> ('c, 'sk) group_ctl \<Rightarrow>
     ('c, 'sk) group_ctl \<times> (group_error, unit) result" where
  "retain_transition_authority env e g =
     (case (gt_incoming_org_control g,
            case e of Welcome _ _ _ _ c _ _ \<Rightarrow> Some c | Commit _ _ c _ _ \<Rightarrow> Some c | _ \<Rightarrow> None) of
        (Some wrapper, Some commit_b64) \<Rightarrow>
          (case decode_b64 (ge_mls env) commit_b64 of
             Inl x \<Rightarrow> (g, Err x)
           | Inr commit \<Rightarrow>
               and_next (if gt_org_pubkey g = None then (g, Ok ())
                         else and_next (org_roster_checked env g) (\<lambda>g1 _. (g1, Ok ()))) (\<lambda>g1 _.
                 (g1, case (gt_org_pubkey g1, gt_roster_cache g1) of
                        (Some _, Some (roster, _)) \<Rightarrow>
                          if gt_persistence g1 = None then Ok ()
                          else and_then (ge_evidence env (PendingAuthority commit wrapper roster)) (ge_commit env)
                      | _ \<Rightarrow> Ok ())))
      | _ \<Rightarrow> (g, Ok ()))"

definition retain_admission_association ::
    "('c, 's, 'vk, 'sg, 'sk, 'a) group_env \<Rightarrow> string \<Rightarrow> sender_proof option \<Rightarrow> ('c, 'sk) group_ctl \<Rightarrow>
     (group_error, unit) result" where
  "retain_admission_association env commit_b64 binding g =
     (case binding of
        None \<Rightarrow> Ok ()
      | Some proof \<Rightarrow>
          and_then (map_err GCodec (verify_sender_proof (ge_docs env) proof (control_context g))) (\<lambda>sender.
          and_then (ge_association_from env (vs_payload sender)) (\<lambda>a.
          (let differs = Err (GCodec ''commit admission scope differs'')
           in if as_domain a \<noteq> ADMISSION_DOMAIN \<or> as_version a \<noteq> 1 \<or> as_conversation a \<noteq> group_conversation g \<or>
                 as_mesh a \<noteq> gt_mesh_id g \<or> as_org a \<noteq> gt_org_pubkey g then differs
              else
                and_then (decode_b64 (ge_mls env) commit_b64) (\<lambda>commit.
                  if as_commit_hash a \<noteq> hex_hash env commit then differs
                  else if gt_persistence g = None then Ok ()
                  else and_then (ge_evidence env (PendingAssociation commit proof)) (ge_commit env))))))"

definition handle_membership_control ::
    "('c, 's, 'vk, 'sg, 'sk, 'a) group_env \<Rightarrow> 'a control_envelope \<Rightarrow> string option \<Rightarrow> string \<Rightarrow> ('c, 'sk) group_ctl \<Rightarrow>
     ('c, 'sk) group_ctl \<times> (group_error, unit) result" where
  "handle_membership_control env e sender own_fp g =
     (case e of
        Commit _ from_fp commit version binding \<Rightarrow>
          if gt_joined g
          then and_next (g, retain_admission_association env commit binding g) (\<lambda>g1 _.
                 group_accept_commit env from_fp commit version sender own_fp g1)
          else (g, Ok ())
      | SelfRemove _ from_fp proposal names \<Rightarrow>
          if from_fp \<noteq> own_fp then accept_departure env from_fp proposal names g else (g, Ok ())
      | ResyncRequest _ from_fp have_epoch \<Rightarrow>
          if from_fp \<noteq> own_fp then accept_resync_request env from_fp have_epoch sender g else (g, Ok ())
      | ResyncResponse _ for_fp commits \<Rightarrow>
          if gt_joined g \<and> for_fp = own_fp then accept_resync_response env commits sender g else (g, Ok ())
      | _ \<Rightarrow> (g, Ok ()))"

definition handle_admission_control ::
    "('c, 's, 'vk, 'sg, 'sk, 'a) group_env \<Rightarrow> 'a control_envelope \<Rightarrow> string option \<Rightarrow> string \<Rightarrow> ('c, 'sk) group_ctl \<Rightarrow>
     ('c, 'sk) group_ctl \<times> (group_error, unit) result" where
  "handle_admission_control env e sender own_fp g =
     (case e of
        KeyPackage _ participant _ _ package joiner \<Rightarrow>
          if gt_participant_id g \<noteq> participant
          then accept_key_package env participant package joiner sender own_fp g
          else handle_membership_control env e sender own_fp g
      | Welcome _ participant from_fp welcome commit tree binding \<Rightarrow>
          if \<not> gt_joined g \<and> \<not> gt_is_admin g \<and> gt_participant_id g = participant
          then accept_welcome env from_fp welcome tree commit binding sender g
          else if gt_joined g \<and> \<not> gt_is_admin g
          then and_next (g, retain_admission_association env commit binding g) (\<lambda>g1 _.
                 accept_admission_commit env from_fp commit sender g1)
          else handle_membership_control env e sender own_fp g
      | _ \<Rightarrow> handle_membership_control env e sender own_fp g)"

definition group_handle_control ::
    "('c, 's, 'vk, 'sg, 'sk, 'a) group_env \<Rightarrow> bytes \<Rightarrow> string option \<Rightarrow> ('c, 'sk) group_ctl \<Rightarrow>
     ('c, 'sk) group_ctl \<times> (group_error, unit) result" where
  "group_handle_control env payload sender g =
     (case ge_proof_from env payload of
        Some proof \<Rightarrow> handle_authenticated_control env proof g
      | None \<Rightarrow>
          (case ge_control_from env payload of
             Inl e \<Rightarrow> (g, Err e)
           | Inr e \<Rightarrow>
               if is_application e then (g, Ok ())
               else if envelope_group_id e \<noteq> gt_group_id g then (g, Ok ())
               else
                 and_next (retain_transition_authority env e g) (\<lambda>g1 _.
                   handle_admission_control env e sender (ge_fingerprint env) g1)))"

text \<open>The branch of \<open>handle_moss_message\<close> for the control channel.\<close>

definition handle_control_message ::
    "('c, 's, 'vk, 'sg, 'sk, 'a) group_env \<Rightarrow> bytes \<Rightarrow> ('c, 'sk) group_ctl \<Rightarrow>
     ('c, 'sk) group_ctl \<times> (group_error, unit) result" where
  "handle_control_message env payload g =
     (case unwrap_control env payload g of
        Inl e \<Rightarrow> (g, Err e)
      | Inr incoming \<Rightarrow>
          (let (g1, out) = group_handle_control env (vc_payload incoming) (vc_sender incoming)
                 (g\<lparr>gt_incoming_org_control := vc_original_org incoming\<rparr>)
           in (reconcile_admin env (g1\<lparr>gt_incoming_org_control := None\<rparr>), out)))"

section \<open>The cache of the roster is transparent\<close>

text \<open>The roster in force: the stored bytes, verified.\<close>

definition roster_in_force ::
    "('c, 's, 'vk, 'sg, 'sk, 'a) group_env \<Rightarrow> ('c, 'sk) group_ctl \<Rightarrow> (group_error, org_roster) result" where
  "roster_in_force env g =
     and_then (ok_or (gt_org_pubkey g) GNotReady) (\<lambda>org.
     and_then (ok_or (gt_persistence g) GNotReady) (\<lambda>_.
     and_then (and_then (ge_roster_row env org) (\<lambda>row. ok_or row GNotReady)) (\<lambda>bs.
       map_err GRosterRejected (verify_org_roster (ge_docs env) bs org None))))"

definition cache_wf :: "('c, 's, 'vk, 'sg, 'sk, 'a) group_env \<Rightarrow> ('c, 'sk) group_ctl \<Rightarrow> bool" where
  "cache_wf env g \<longleftrightarrow>
     (case (gt_org_pubkey g, gt_roster_cache g) of
        (Some org, Some (bs, r)) \<Rightarrow> verify_org_roster (ge_docs env) bs org None = Ok r
      | _ \<Rightarrow> True)"

text \<open>States that differ in the cache only.\<close>

definition recached ::
    "('c, 's, 'vk, 'sg, 'sk, 'a) group_env \<Rightarrow> ('c, 'sk) group_ctl \<Rightarrow> ('c, 'sk) group_ctl \<Rightarrow> bool" where
  "recached env g g' \<longleftrightarrow> cache_wf env g' \<and> (\<exists>c. g' = g\<lparr>gt_roster_cache := c\<rparr>)"

lemma recached_refl: "cache_wf env g \<Longrightarrow> recached env g g"
  by (auto simp: recached_def intro: exI [of _ "gt_roster_cache g"])

lemma recached_trans: "recached env g g1 \<Longrightarrow> recached env g1 g2 \<Longrightarrow> recached env g g2"
  by (auto simp: recached_def)

lemma recached_fields:
  assumes "recached env g g'"
  shows "gt_session g' = gt_session g" "gt_org_pubkey g' = gt_org_pubkey g" "gt_org_signer g' = gt_org_signer g"
    "gt_roster_lag g' = gt_roster_lag g" "gt_joined g' = gt_joined g" "gt_is_admin g' = gt_is_admin g"
    "gt_crypto g' = gt_crypto g" "gt_persistence g' = gt_persistence g" "gt_version_seen g' = gt_version_seen g"
    "roster_in_force env g' = roster_in_force env g" "own_peer_id env g' = own_peer_id env g" "cache_wf env g'"
    "gt_group_id g' = gt_group_id g" "gt_mesh_id g' = gt_mesh_id g" "control_context g' = control_context g"
    "gt_admin_fingerprint g' = gt_admin_fingerprint g" "gt_sent g' = gt_sent g"
    "gt_device_fingerprint g' = gt_device_fingerprint g" "gt_incoming_org_control g' = gt_incoming_org_control g"
  using assms by (auto simp: recached_def gt_crypto_def gt_persistence_def roster_in_force_def own_peer_id_def control_context_def)

lemma org_roster_checked_transparent:
  assumes "cache_wf env g"
  shows "recached env g (fst (org_roster_checked env g))" "snd (org_roster_checked env g) = roster_in_force env g"
proof -
  have "recached env g (fst (org_roster_checked env g)) \<and> snd (org_roster_checked env g) = roster_in_force env g"
  proof (cases "gt_org_pubkey g = None \<or> gt_persistence g = None \<or>
      \<not> is_ok (and_then (ge_roster_row env (the (gt_org_pubkey g))) (\<lambda>row. ok_or row GNotReady))")
    case True
    then show ?thesis
      using recached_refl [OF assms]
      by (auto simp: org_roster_checked_def roster_in_force_def is_ok_def ok_or_def split: option.splits sum.splits)
  next
    case False
    then obtain org bs where org: "gt_org_pubkey g = Some org" "gt_persistence g \<noteq> None"
        "ge_roster_row env org = Ok (Some bs)"
      by (auto simp: is_ok_iff and_then_Ok_iff ok_or_def split: option.splits)
    show ?thesis
    proof (cases "Option.bind (gt_roster_cache g) (\<lambda>(cached, r). if cached = bs then Some r else None)")
      case None
      show ?thesis
      proof (cases "verify_org_roster (ge_docs env) bs org None")
        case (Inl e)
        with None org recached_refl [OF assms] show ?thesis
          by (cases "gt_persistence g") (simp_all add: org_roster_checked_def roster_in_force_def)
      next
        case (Inr r)
        then have "recached env g (g\<lparr>gt_roster_cache := Some (bs, r)\<rparr>)"
          using org by (auto simp: recached_def cache_wf_def)
        with None Inr org show ?thesis
          by (cases "gt_persistence g") (simp_all add: org_roster_checked_def roster_in_force_def)
      qed
    next
      case (Some r)
      then have "gt_roster_cache g = Some (bs, r)" by (auto simp: bind_eq_Some_conv split: if_splits)
      with assms org Some recached_refl [OF assms] show ?thesis
        by (cases "gt_persistence g") (simp_all add: org_roster_checked_def roster_in_force_def cache_wf_def)
    qed
  qed
  then show "recached env g (fst (org_roster_checked env g))" "snd (org_roster_checked env g) = roster_in_force env g" by auto
qed

definition roster_now :: "('c, 's, 'vk, 'sg, 'sk, 'a) group_env \<Rightarrow> ('c, 'sk) group_ctl \<Rightarrow> org_roster option" where
  "roster_now env g = to_option (roster_in_force env g)"

definition admin_now :: "('c, 's, 'vk, 'sg, 'sk, 'a) group_env \<Rightarrow> ('c, 'sk) group_ctl \<Rightarrow> string \<Rightarrow> bool" where
  "admin_now env g peer \<longleftrightarrow> (\<exists>r. roster_now env g = Some r \<and> lists_admin r peer)"

definition member_now :: "('c, 's, 'vk, 'sg, 'sk, 'a) group_env \<Rightarrow> ('c, 'sk) group_ctl \<Rightarrow> string \<Rightarrow> bool" where
  "member_now env g peer \<longleftrightarrow> (\<exists>r. roster_now env g = Some r \<and> lists_member r peer)"

lemma recached_roster:
  "recached env g g' \<Longrightarrow> roster_now env g' = roster_now env g" "recached env g g' \<Longrightarrow> admin_now env g' = admin_now env g"
  "recached env g g' \<Longrightarrow> member_now env g' = member_now env g"
  by (auto simp: roster_now_def admin_now_def member_now_def recached_fields fun_eq_iff)

lemma group_org_roster_transparent:
  assumes "cache_wf env g"
  shows "recached env g (fst (group_org_roster env g))" "snd (group_org_roster env g) = roster_now env g"
  using org_roster_checked_transparent [OF assms] by (simp_all add: group_org_roster_def roster_now_def case_prod_unfold)

lemma roster_role_transparent:
  assumes "cache_wf env g"
  shows "recached env g (fst (roster_role_is_admin env p g))" "snd (roster_role_is_admin env p g) = admin_now env g p"
  using group_org_roster_transparent [OF assms]
  by (auto simp: roster_role_is_admin_def case_prod_unfold admin_now_def split: option.split)

lemma roster_contains_transparent:
  assumes "cache_wf env g"
  shows "recached env g (fst (roster_contains env p g))" "snd (roster_contains env p g) = member_now env g p"
  using group_org_roster_transparent [OF assms]
  by (auto simp: roster_contains_def case_prod_unfold member_now_def split: option.split)

lemma own_version_transparent:
  assumes "cache_wf env g"
  shows "recached env g (fst (own_roster_version env g))" "snd (own_roster_version env g) = map_option or_version (roster_now env g)"
  using group_org_roster_transparent [OF assms] by (simp_all add: own_roster_version_def case_prod_unfold)

definition own_admin :: "('c, 's, 'vk, 'sg, 'sk, 'a) group_env \<Rightarrow> ('c, 'sk) group_ctl \<Rightarrow> bool" where
  "own_admin env g \<longleftrightarrow> (\<exists>i. own_peer_id env g = Some i \<and> admin_now env g i)"

lemma acting_admin_transparent:
  assumes "cache_wf env g" and "gt_org_pubkey g = Some org"
  shows "recached env g (fst (acting_admin env g))" "snd (acting_admin env g) = own_admin env g"
proof -
  have "recached env g (fst (acting_admin env g)) \<and> snd (acting_admin env g) = own_admin env g"
  proof (cases "own_peer_id env g")
    case None
    with assms recached_refl [OF assms(1)] show ?thesis
      by (simp add: acting_admin_def try_acting_admin_def own_admin_def)
  next
    case (Some i)
    obtain g1 out where c: "org_roster_checked env g = (g1, out)" by fastforce
    with org_roster_checked_transparent [OF assms(1)] have "recached env g g1" "out = roster_in_force env g" by simp_all
    with Some assms(2) c show ?thesis
      by (cases "roster_in_force env g")
        (simp_all add: acting_admin_def try_acting_admin_def own_admin_def admin_now_def roster_now_def)
  qed
  then show "recached env g (fst (acting_admin env g))" "snd (acting_admin env g) = own_admin env g" by auto
qed

section \<open>Who moves the group of an organisation\<close>

definition tree :: "('c, 's, 'vk, 'sg, 'sk, 'a) group_env \<Rightarrow> 'c \<Rightarrow> u64 option \<times> string list" where
  "tree env c = (mls_epoch (ge_mls env) c, ge_member_identities env c)"

definition allowed :: "('c, 's, 'vk, 'sg, 'sk, 'a) group_env \<Rightarrow> string set \<Rightarrow> ('c, 'sk) group_ctl \<Rightarrow> bool" where
  "allowed env senders g \<longleftrightarrow> (\<exists>p \<in> senders. admin_now env g p) \<or> own_admin env g"

text \<open>What a handler does to the group of an organisation: it moves the tree only with authority.\<close>

definition guarded ::
    "('c, 's, 'vk, 'sg, 'sk, 'a) group_env \<Rightarrow> string set \<Rightarrow> ('c, 'sk) group_ctl \<Rightarrow> ('c, 'sk) group_ctl \<Rightarrow> bool" where
  "guarded env sender g g' \<longleftrightarrow> cache_wf env g' \<and> gt_org_pubkey g' = gt_org_pubkey g \<and> gt_joined g \<le> gt_joined g' \<and>
     length (gt_roster_lag g') \<le> max ROSTER_LAG_CAP (length (gt_roster_lag g)) \<and>
     (allowed env sender g \<or>
      tree env (gt_crypto g') = tree env (gt_crypto g) \<and> roster_now env g' = roster_now env g \<and>
      own_peer_id env g' = own_peer_id env g)"

lemma irrelevant_fields [simp]:
  "cache_wf env (g\<lparr>gt_roster_lag := x\<rparr>) = cache_wf env g" "cache_wf env (g\<lparr>gt_incoming_org_control := y\<rparr>) = cache_wf env g"
  "cache_wf env (g\<lparr>gt_version_seen := v\<rparr>) = cache_wf env g"
  "gt_crypto (g\<lparr>gt_roster_lag := x\<rparr>) = gt_crypto g" "gt_crypto (g\<lparr>gt_incoming_org_control := y\<rparr>) = gt_crypto g"
  "gt_crypto (g\<lparr>gt_version_seen := v\<rparr>) = gt_crypto g"
  "roster_now env (g\<lparr>gt_roster_lag := x\<rparr>) = roster_now env g" "roster_now env (g\<lparr>gt_incoming_org_control := y\<rparr>) = roster_now env g"
  "roster_now env (g\<lparr>gt_version_seen := v\<rparr>) = roster_now env g"
  "own_peer_id env (g\<lparr>gt_roster_lag := x\<rparr>) = own_peer_id env g" "own_peer_id env (g\<lparr>gt_incoming_org_control := y\<rparr>) = own_peer_id env g"
  "own_peer_id env (g\<lparr>gt_version_seen := v\<rparr>) = own_peer_id env g"
  by (simp_all add: cache_wf_def gt_crypto_def roster_now_def roster_in_force_def gt_persistence_def own_peer_id_def)

lemma guarded_trans:
  assumes "guarded env sender g g1" and "guarded env sender g1 g2"
  shows "guarded env sender g g2"
proof -
  have "allowed env sender g1 = allowed env sender g" if "roster_now env g1 = roster_now env g" "own_peer_id env g1 = own_peer_id env g"
    using that by (simp add: allowed_def own_admin_def admin_now_def)
  with assms show ?thesis by (auto simp: guarded_def)
qed

lemma recached_guarded: "recached env g g' \<Longrightarrow> guarded env sender g g'"
  by (simp add: guarded_def recached_fields recached_roster)

lemma guarded_refl: "cache_wf env g \<Longrightarrow> guarded env sender g g"
  by (simp add: recached_guarded recached_refl)

lemma recached_guarded_trans: "recached env g g1 \<Longrightarrow> guarded env sender g1 g2 \<Longrightarrow> guarded env sender g g2"
  using guarded_trans recached_guarded by blast

lemma guarded_authorized:
  "allowed env sender g \<Longrightarrow> cache_wf env g' \<Longrightarrow> gt_org_pubkey g' = gt_org_pubkey g \<Longrightarrow> gt_joined g \<le> gt_joined g' \<Longrightarrow>
   gt_roster_lag g' = gt_roster_lag g \<Longrightarrow> guarded env sender g g'"
  by (simp add: guarded_def)

lemma recached_allowed: "recached env g g' \<Longrightarrow> allowed env sender g' = allowed env sender g"
  by (simp add: allowed_def own_admin_def recached_fields recached_roster)

text \<open>What the operations keep that every handler is made of.\<close>

definition same_org :: "('c, 'sk) group_ctl \<Rightarrow> ('c, 'sk) group_ctl \<Rightarrow> bool" where
  "same_org g g' \<longleftrightarrow> gt_org_pubkey g' = gt_org_pubkey g \<and> gt_org_signer g' = gt_org_signer g \<and> gt_joined g' = gt_joined g \<and>
     gt_roster_cache g' = gt_roster_cache g \<and> gt_roster_lag g' = gt_roster_lag g \<and>
     gt_device_fingerprint g' = gt_device_fingerprint g \<and> (gt_persistence g' = None) = (gt_persistence g = None)"

lemma same_org_cache: "same_org g g' \<Longrightarrow> cache_wf env g' = cache_wf env g"
  by (simp add: same_org_def cache_wf_def)

lemma same_org_roster: "same_org g g' \<Longrightarrow> roster_now env g' = roster_now env g" "same_org g g' \<Longrightarrow> own_peer_id env g' = own_peer_id env g"
  by (cases "gt_persistence g"; cases "gt_persistence g'"; simp add: same_org_def roster_now_def roster_in_force_def)
    (simp add: same_org_def own_peer_id_def)

lemma same_org_guarded:
  "same_org g g' \<Longrightarrow> cache_wf env g \<Longrightarrow> allowed env sender g \<or> tree env (gt_crypto g') = tree env (gt_crypto g) \<Longrightarrow>
   guarded env sender g g'"
  using same_org_cache [of g g' env] same_org_roster [of g g' env] by (auto simp: guarded_def same_org_def)

lemma same_org_trans: "same_org g g1 \<Longrightarrow> same_org g1 g2 \<Longrightarrow> same_org g g2"
  by (auto simp: same_org_def)

lemma seq_steps_persistence: "seq_steps env n s t \<Longrightarrow> (persistence t = None) = (persistence s = None)"
  by (induction rule: seq_steps.induct)
    (auto simp: install_commit_def log_group_commit_def split: option.splits sum.splits)

lemma sequence_commit_persistence: "(persistence (fst (sequence_commit env b s)) = None) = (persistence s = None)"
  by (rule sequence_commit_steps [of s env b]) (auto dest: seq_steps_persistence)

lemma request_resync_persistence:
  "persistence (gs_seq (fst (request_resync_if_gapped env publish g))) = persistence (gs_seq g)"
  "crypto (gs_seq (fst (request_resync_if_gapped env publish g))) = crypto (gs_seq g)"
  by (simp_all add: request_resync_if_gapped_def Let_def case_prod_unfold split: option.split sum.split)

lemma apply_commit_sequenced_persistence:
  "(persistence (gs_seq (fst (apply_commit_sequenced env publish b g))) = None) = (persistence (gs_seq g) = None)"
  using sequence_commit_persistence [of env b "gs_seq g"]
  by (auto simp: apply_commit_sequenced_def request_resync_persistence split: prod.split sum.split sequence_outcome.split)

lemma absorb_resync_persistence:
  "(persistence (fst (absorb_resync_commits env cs s)) = None) = (persistence s = None)"
  by (induction env cs s rule: absorb_resync_commits.induct) (simp_all add: sequence_commit_persistence)

lemma sequenced_same_org: "same_org g (fst (sequenced env b g))"
  using apply_commit_sequenced_persistence
  by (simp add: same_org_def sequenced_def Let_def case_prod_unfold gt_persistence_def)

lemma set_crypto_simps [simp]: "same_org g (set_crypto c g)" "gt_crypto (set_crypto c g) = c"
  by (simp_all add: same_org_def set_crypto_def gt_crypto_def gt_persistence_def)

lemma publish_frame_simps [simp]:
  "same_org g (fst (publish_frame env bs g))" "gt_crypto (fst (publish_frame env bs g)) = gt_crypto g"
  by (simp_all add: same_org_def publish_frame_def gt_crypto_def gt_persistence_def split: sum.split)

lemma log_commit_simps [simp]: "same_org g (log_commit env e raw g)" "gt_crypto (log_commit env e raw g) = gt_crypto g"
  by (simp_all add: same_org_def log_commit_def gt_crypto_def gt_persistence_def log_group_commit_def split: option.split sum.split)

lemma retain_replay_simps [simp]:
  "same_org g (retain_admission_replay k r g)" "gt_crypto (retain_admission_replay k r g) = gt_crypto g"
  by (simp_all add: same_org_def retain_admission_replay_def Let_def gt_crypto_def gt_persistence_def)

lemma publish_replay_simps [simp]:
  "same_org g (fst (publish_admission_replay env r g))" "gt_crypto (fst (publish_admission_replay env r g)) = gt_crypto g"
proof -
  obtain g1 out where p: "publish_frame env (ar_welcome r) g = (g1, out)" by fastforce
  have "same_org g g1" "gt_crypto g1 = gt_crypto g"
    using publish_frame_simps [where g = g and env = env and bs = "ar_welcome r"] by (simp_all add: p)
  then show "same_org g (fst (publish_admission_replay env r g))"
      "gt_crypto (fst (publish_admission_replay env r g)) = gt_crypto g"
    using publish_frame_simps [where g = g1 and env = env and bs = "ar_commit r"]
    by (cases out; simp add: publish_admission_replay_def p same_org_trans)+
qed

definition through ::
    "('c, 's, 'vk, 'sg, 'sk, 'a) group_env \<Rightarrow> ('c, 'sk) group_ctl \<Rightarrow> ('c, 'sk) group_ctl \<Rightarrow> bool" where
  "through env g g' \<longleftrightarrow> (\<exists>g1. recached env g g1 \<and> same_org g1 g')"

lemma throughI: "recached env g g1 \<Longrightarrow> same_org g1 g' \<Longrightarrow> through env g g'"
  by (auto simp: through_def)

lemma same_org_refl [simp]: "same_org g g"
  by (simp add: same_org_def)

lemma recached_through: "recached env g g1 \<Longrightarrow> through env g1 g' \<Longrightarrow> through env g g'"
  by (auto simp: through_def intro: recached_trans)

lemma through_guarded: "through env g g' \<Longrightarrow> allowed env sender g \<Longrightarrow> guarded env sender g g'"
proof -
  assume t: "through env g g'" and a: "allowed env sender g"
  from t obtain g1 where g1: "recached env g g1" "same_org g1 g'" by (auto simp: through_def)
  with a have "guarded env sender g1 g'" by (intro same_org_guarded) (simp_all add: recached_allowed recached_fields)
  with g1(1) show ?thesis by (rule recached_guarded_trans)
qed

lemma publish_membership_change_through:
  assumes "cache_wf env g"
  shows "through env g (fst (publish_membership_change env c raw g))"
proof -
  have refl: "through env g g" using recached_refl [OF assms] same_org_refl by (rule throughI)
  obtain g1 v where v: "own_roster_version env g = (g1, v)" by fastforce
  with own_version_transparent [OF assms] have g1: "recached env g g1" by simp
  have moved: "same_org g1 (fst (publish_frame env bs (log_commit env e raw (set_crypto c g1))))" for bs e
    by (intro same_org_trans [OF _ publish_frame_simps(1)] same_org_trans [OF _ log_commit_simps(1)] set_crypto_simps)
  have "fst (publish_membership_change env c raw g) \<in>
      {g, g1} \<union> {fst (publish_frame env bs (log_commit env e raw (set_crypto c g1))) | bs e. True}"
    unfolding publish_membership_change_def v
    by (auto split: sum.split simp: Let_def)
  with g1 moved refl show ?thesis by (auto intro: throughI)
qed

lemma kick_through: "cache_wf env g \<Longrightarrow> through env g (kick env p g)"
  using publish_membership_change_through throughI [OF recached_refl same_org_refl]
  by (fastforce simp: kick_def split: sum.split)

lemma finish_admission_through:
  assumes "cache_wf env g"
  shows "through env g (fst (finish_admission env participant package joiner own_fp added g))"
proof -
  obtain prior c outcome binding where added: "added = (prior, c, outcome, binding)" by (cases added) auto
  obtain g1 out where p: "prepare_admission_replay env outcome participant own_fp binding g = (g1, out)" by fastforce
  moreover have "fst (prepare_admission_replay env outcome participant own_fp binding g) = fst (own_roster_version env g)"
    by (simp add: prepare_admission_replay_def case_prod_unfold Let_def)
  ultimately have g1: "recached env g g1" using own_version_transparent [OF assms] by simp
  have "same_org g1 (fst (publish_admission_replay env r
      (retain_admission_replay k r (log_commit env e raw (set_crypto c g1)))))" for r k e raw
    by (intro same_org_trans [OF _ publish_replay_simps(1)] same_org_trans [OF _ retain_replay_simps(1)]
        same_org_trans [OF _ log_commit_simps(1)] set_crypto_simps)
  then show ?thesis
    using throughI [OF g1] same_org_refl [of g1]
    by (cases out) (simp_all add: finish_admission_def added p Let_def split: sum.split)
qed

lemma admit_history_member_through:
  "cache_wf env g \<Longrightarrow> through env g (fst (admit_history_member env participant package joiner own_fp g))"
  using finish_admission_through throughI [OF recached_refl same_org_refl]
  by (fastforce simp: admit_history_member_def split: sum.split)

subsection \<open>Handlers\<close>

lemma replay_admission_same: "same_org g (fst (replay_admission env package g))"
  "gt_crypto (fst (replay_admission env package g)) = gt_crypto g"
proof -
  have "same_org g g' \<and> gt_crypto g' = gt_crypto g"
    if "g' = fst (and_next (publish_admission_replay env r g) (\<lambda>g1 _. (retain_admission_replay k r' g1, Ok ())))" for g' r r' k
  proof -
    obtain g1 out where p: "publish_admission_replay env r g = (g1, out)" by fastforce
    with publish_replay_simps [where g = g and env = env and r = r] have "same_org g g1" "gt_crypto g1 = gt_crypto g" by simp_all
    with that p show ?thesis
      using retain_replay_simps by (cases out) (auto intro: same_org_trans)
  qed
  then show "same_org g (fst (replay_admission env package g))" "gt_crypto (fst (replay_admission env package g)) = gt_crypto g"
    by (auto simp: replay_admission_def Let_def split: sum.split option.split)
qed

lemma own_admin_allowed: "own_admin env g \<Longrightarrow> allowed env sender g"
  by (simp add: allowed_def)

lemma admit_org_member_through:
  assumes "cache_wf env g"
  shows "through env g (fst (admit_org_member env sender participant package joiner own_fp g))"
proof -
  have refl: "through env g g" using recached_refl [OF assms] same_org_refl by (rule throughI)
  have "through env g (fst (let (g1, known) = roster_contains env i g
      in if \<not> known then (g1, Ok ()) else admit_history_member env participant package joiner own_fp g1))" for i
  proof -
    obtain g1 known where k: "roster_contains env i g = (g1, known)" by fastforce
    with roster_contains_transparent [OF assms] have g1: "recached env g g1" by (metis fst_conv)
    show ?thesis
      using throughI [OF g1 same_org_refl] recached_through [OF g1 admit_history_member_through [OF recached_fields(12) [OF g1]]]
      by (simp add: k)
  qed
  with refl show ?thesis by (simp add: admit_org_member_def split: option.split sum.split)
qed

lemma accept_key_package_guarded:
  assumes "cache_wf env g" and "gt_org_pubkey g = Some org"
  shows "guarded env (set_option sender) g (fst (accept_key_package env participant package joiner sender own_fp g))"
proof -
  obtain g1 admin where a: "acting_admin env g = (g1, admin)" by fastforce
  from acting_admin_transparent [OF assms] have g1: "recached env g g1" and admin: "admin = own_admin env g"
    by (simp_all add: a)
  note g1_fields = recached_fields [OF g1]
  show ?thesis
  proof (cases admin)
    case False
    then show ?thesis using recached_guarded [OF g1] by (simp add: accept_key_package_def a)
  next
    case True
    then have allowed: "allowed env (set_option sender) g1" using admin own_admin_allowed recached_allowed [OF g1] by blast
    have known: "guarded env (set_option sender) g1 (fst (roster_contains env p g1))" "cache_wf env (fst (roster_contains env p g1))"
        "allowed env (set_option sender) (fst (roster_contains env p g1))" for p
      using roster_contains_transparent [OF g1_fields(12), of p] allowed
      by (simp_all add: recached_guarded recached_fields recached_allowed)
    have replay: "guarded env (set_option sender) h (fst (replay_admission env b h))" if "cache_wf env h" "allowed env (set_option sender) h" for h b
      using that replay_admission_same by (intro same_org_guarded) simp_all
    have "guarded env (set_option sender) g1 (fst (accept_key_package env participant package joiner sender own_fp g))"
      using True allowed g1_fields(2,12) assms(2) guarded_refl [OF g1_fields(12)] known replay guarded_trans [OF known(1) replay [OF known(2,3)]]
        through_guarded [OF admit_org_member_through [OF g1_fields(12)] allowed]
      by (cases sender) (simp_all add: accept_key_package_def a case_prod_unfold Let_def split: sum.split bool.split option.split)
    then show ?thesis by (rule recached_guarded_trans [OF g1])
  qed
qed

lemma author_authorized_transparent:
  assumes "cache_wf env g" and "gt_org_pubkey g = Some org"
  shows "recached env g (fst (commit_author_authorized env from_fp sender g))"
    and "snd (commit_author_authorized env from_fp sender g) \<Longrightarrow> allowed env (set_option sender) g"
  using roster_role_transparent [OF assms(1)] recached_refl [OF assms(1)] assms(2)
  by (auto simp: commit_author_authorized_def allowed_def split: option.splits)

lemma sequenced_guarded:
  assumes "cache_wf env g" and "allowed env sender g"
  shows "guarded env sender g (fst (sequenced env b g))"
  using sequenced_same_org assms by (intro same_org_guarded) simp_all

lemma accept_admission_commit_guarded:
  assumes "cache_wf env g" and "gt_org_pubkey g = Some org"
  shows "guarded env (set_option sender) g (fst (accept_admission_commit env from_fp commit sender g))"
proof -
  obtain g1 ok where a: "commit_author_authorized env from_fp sender g = (g1, ok)" by fastforce
  from author_authorized_transparent [OF assms, of from_fp sender] have g1: "recached env g g1" and ok: "ok \<Longrightarrow> allowed env (set_option sender) g"
    by (simp_all add: a)
  show ?thesis
  proof (cases ok)
    case True
    with ok g1 have "guarded env (set_option sender) g1 (fst (sequenced env commit g1))"
      by (intro sequenced_guarded) (simp_all add: recached_fields recached_allowed)
    with True g1 show ?thesis by (simp add: accept_admission_commit_def a recached_guarded_trans)
  qed (simp add: accept_admission_commit_def a recached_guarded [OF g1])
qed

lemma accept_welcome_guarded:
  assumes "cache_wf env g" and "gt_org_pubkey g = Some org"
  shows "guarded env (set_option sender) g (fst (accept_welcome env from_fp welcome tr commit binding sender g))"
proof -
  obtain g1 ok where a: "commit_author_authorized env from_fp sender g = (g1, ok)" by fastforce
  from author_authorized_transparent [OF assms, of from_fp sender] have g1: "recached env g g1" and ok: "ok \<Longrightarrow> allowed env (set_option sender) g"
    by (simp_all add: a)
  have cache: "cache_wf env (h\<lparr>gt_joined := x, gt_pending_join_package := y\<rparr>) = cache_wf env h" for h x y
    by (simp add: cache_wf_def)
  have joined: "guarded env (set_option sender) g1 ((set_crypto c g1)\<lparr>gt_joined := True, gt_pending_join_package := None\<rparr>)" if ok for c
    using that ok recached_allowed [OF g1] recached_fields(12) [OF g1] same_org_cache [OF set_crypto_simps(1), of env c g1]
    by (intro guarded_authorized) (simp_all add: cache, simp_all add: set_crypto_def)
  show ?thesis
    using joined g1 recached_guarded [OF g1] recached_guarded_trans [OF g1]
    by (cases ok) (simp_all add: accept_welcome_def a split: sum.split)
qed

lemma apply_org_commit_guarded:
  assumes "cache_wf env g"
  shows "guarded env (set_option sender) g (fst (apply_org_commit env commit version sender g))"
proof (cases sender)
  case None
  then show ?thesis by (simp add: apply_org_commit_def guarded_refl [OF assms])
next
  case (Some p)
  obtain g1 admin where a: "roster_role_is_admin env p g = (g1, admin)" by fastforce
  from roster_role_transparent [OF assms, of p] have g1: "recached env g g1" and admin: "admin = admin_now env g p"
    by (simp_all add: a)
  obtain g2 own where v2: "own_roster_version env g1 = (g2, own)" by fastforce
  obtain g3 own3 where v3: "own_roster_version env g2 = (g3, own3)" by fastforce
  from own_version_transparent [OF recached_fields(12) [OF g1]] have g2: "recached env g g2"
    using recached_trans [OF g1] by (simp add: v2)
  from own_version_transparent [OF recached_fields(12) [OF g2]] have g3: "recached env g g3"
    using recached_trans [OF g2] by (simp add: v3)
  have capped: "length (push_capped n x q) \<le> max n (length q)" if "0 < n" for n q and x :: roster_lagged_commit
    using that by (auto simp: push_capped_def)
  have lag: "guarded env (set_option sender) h (h\<lparr>gt_roster_lag := push_capped ROSTER_LAG_CAP x (gt_roster_lag h)\<rparr>)"
    if "cache_wf env h" for h x
    using that capped [of ROSTER_LAG_CAP x "gt_roster_lag h"] by (simp add: guarded_def) (simp add: ROSTER_LAG_CAP_def)
  show ?thesis
  proof (cases admin)
    case True
    with admin Some have "allowed env (set_option sender) g" by (simp add: allowed_def)
    then have "allowed env (set_option sender) g1" by (simp add: recached_allowed [OF g1])
    then have "guarded env (set_option sender) g1 (fst (sequenced env commit g1))" by (rule sequenced_guarded [OF recached_fields(12) [OF g1]])
    with True show ?thesis by (simp add: apply_org_commit_def Some a recached_guarded_trans [OF g1])
  next
    case False
    with recached_guarded [OF g2] recached_guarded [OF g3] recached_guarded_trans [OF g3 lag [OF recached_fields(12) [OF g3]]]
    show ?thesis by (simp add: apply_org_commit_def Some a v2 v3 Let_def)
  qed
qed

definition application_law :: "('c, 's, 'vk, 'sg, 'sk, 'a) group_env \<Rightarrow> bool" where
  "application_law env \<longleftrightarrow> (\<forall>e sender bs c. tree env (fst (ge_application env e sender bs c)) = tree env c)"

lemma run_application_guarded:
  "application_law env \<Longrightarrow> cache_wf env g \<Longrightarrow> guarded env sender g (fst (run_application env e v bs g))"
  by (rule same_org_guarded) (simp_all add: run_application_def application_law_def case_prod_unfold Let_def)

lemma require_sender_recached:
  "cache_wf env g \<Longrightarrow> recached env g (fst (require_application_sender env v g))"
  using roster_contains_transparent [of env g "vs_peer_id v"]
  by (simp add: require_application_sender_def Let_def case_prod_unfold recached_refl split: option.split)

lemma case_history_frame:
  "(case e of HistoryFrame _ _ \<Rightarrow> x | _ \<Rightarrow> y) = (if is_HistoryFrame e then x else y)"
  by (cases e) simp_all

lemma authenticated_control_guarded:
  assumes "application_law env" and "cache_wf env g"
  shows "guarded env sender g (fst (handle_authenticated_control env proof g))"
proof -
  have app: "guarded env sender g (fst (and_next (require_application_sender env v g) (\<lambda>g1 _.
      if is_application e then run_application env e v bs g1 else (g1, Err x))))" for v e bs x
  proof -
    obtain g1 out where r: "require_application_sender env v g = (g1, out)" by fastforce
    with require_sender_recached [OF assms(2), of v] have g1: "recached env g g1" by simp
    show ?thesis
      using recached_guarded [OF g1] recached_guarded_trans [OF g1 run_application_guarded [OF assms(1) recached_fields(12) [OF g1]]]
      by (cases out) (simp_all add: r)
  qed
  show ?thesis
    using app run_application_guarded [OF assms] guarded_refl [OF assms(2)]
    by (simp add: handle_authenticated_control_def case_history_frame split: sum.split)
qed

lemma accept_departure_guarded:
  assumes "application_law env" and "cache_wf env g" and "gt_org_pubkey g = Some org"
  shows "guarded env sender g (fst (accept_departure env from_fp proposal names g))"
proof -
  define handed where "handed =
    (case names of
       None \<Rightarrow> (g, Ok ())
     | Some encoded \<Rightarrow>
         (case and_then (decode_b64 (ge_mls env) encoded) (\<lambda>b. ok_or (ge_proof_from env b) (GCodec ''json'')) of
            Inl e \<Rightarrow> (g, Err e)
          | Inr proof \<Rightarrow> handle_authenticated_control env proof g))"
  obtain g1 handoff where h: "handed = (g1, handoff)" by fastforce
  have "guarded env sender g (fst handed)"
    using authenticated_control_guarded [OF assms(1,2)] guarded_refl [OF assms(2)]
    by (simp add: handed_def split: option.split sum.split)
  then have g1: "guarded env sender g g1" by (simp add: h)
  then have wf: "cache_wf env g1" "gt_org_pubkey g1 = Some org" using assms(3) by (simp_all add: guarded_def)
  obtain g2 mine where m: "should_commit_departure env from_fp g1 = (g2, mine)" by fastforce
  with acting_admin_transparent [OF wf] wf(2) have g2: "recached env g1 g2" and mine: "mine = own_admin env g1"
    by (simp_all add: should_commit_departure_def)
  have moved: "guarded env sender g1 (fst (publish_membership_change env c raw g2))" if mine for c raw
    using that mine g2
    by (intro recached_guarded_trans [OF g2] through_guarded publish_membership_change_through)
      (simp_all add: recached_fields recached_allowed own_admin_allowed)
  have "guarded env sender g1 (fst (accept_departure env from_fp proposal names g))"
    using moved recached_guarded [OF g2] guarded_refl [OF wf(1)] h
    unfolding accept_departure_def handed_def [symmetric]
    by (simp add: m Let_def split: sum.split group_error.split)
  with g1 show ?thesis by (rule guarded_trans)
qed

lemma publish_control_same: "same_org g (fst (publish_control env e g))" "gt_crypto (fst (publish_control env e g)) = gt_crypto g"
  using publish_frame_simps [where g = g and env = env] by (simp_all add: publish_control_def split: sum.split)

lemma accept_resync_request_guarded:
  assumes "cache_wf env g" and "gt_org_pubkey g = Some org"
  shows "guarded env sender' g (fst (accept_resync_request env from_fp have_epoch sender g))"
proof -
  obtain g1 admin where a: "acting_admin env g = (g1, admin)" by fastforce
  from acting_admin_transparent [OF assms] have g1: "recached env g g1" by (simp add: a)
  have wf: "cache_wf env g1" "gt_org_pubkey g1 = Some org" using recached_fields [OF g1] assms(2) by simp_all
  have g2: "recached env g1 (fst (case sender of None \<Rightarrow> (g1, False) | Some p \<Rightarrow> roster_contains env p g1))"
    using roster_contains_transparent [OF wf(1)] recached_refl [OF wf(1)] by (simp split: option.split)
  obtain g2 served where s: "(case sender of None \<Rightarrow> (g1, False) | Some p \<Rightarrow> roster_contains env p g1) = (g2, served)" by fastforce
  with g2 have g2: "recached env g1 g2" by simp
  have published: "guarded env sender' g2 (fst (publish_control env e g2))" for e
    using publish_control_same [where g = g2 and env = env and e = e] recached_fields(12) [OF g2]
    by (intro same_org_guarded) simp_all
  have "guarded env sender' g1 (fst (accept_resync_request env from_fp have_epoch sender g))"
    using guarded_refl [OF wf(1)] recached_guarded [OF g2] recached_guarded_trans [OF g2 published] wf(2)
    by (simp add: accept_resync_request_def a s split: option.split)
  then show ?thesis by (rule recached_guarded_trans [OF g1])
qed

lemma absorb_response_persistence:
  "(persistence (gs_seq (fst (absorb_resync_response env publish cs g))) = None) = (persistence (gs_seq g) = None)"
  using absorb_resync_persistence [of env cs "gs_seq g"]
    request_resync_persistence(1) [of env publish "g\<lparr>gs_seq := (fst (absorb_resync_commits env cs (gs_seq g)))
      \<lparr>sequencer := rearm (sequencer (fst (absorb_resync_commits env cs (gs_seq g))))\<rparr>\<rparr>"]
  by (auto simp: absorb_resync_response_def Let_def case_prod_unfold split: prod.splits sum.split)

lemma accept_resync_response_guarded:
  assumes "cache_wf env g" and "gt_org_pubkey g = Some org"
  shows "guarded env (set_option sender) g (fst (accept_resync_response env commits sender g))"
proof -
  obtain g1 ok where a: "commit_author_authorized env [] sender g = (g1, ok)" by fastforce
  from author_authorized_transparent [OF assms, of "[]" sender] have g1: "recached env g g1" and ok: "ok \<Longrightarrow> allowed env (set_option sender) g"
    by (simp_all add: a)
  have "same_org g1 (g1\<lparr>gt_session := fst (absorb_resync_response (ge_mls env) publish cs (gt_session g1))\<rparr>)" for publish cs
    using absorb_response_persistence by (simp add: same_org_def gt_persistence_def)
  then have absorbed: "guarded env (set_option sender) g1 (g1\<lparr>gt_session := fst (absorb_resync_response (ge_mls env) publish cs (gt_session g1))\<rparr>)"
    if ok for publish cs
    using that ok by (intro same_org_guarded) (simp_all add: recached_fields [OF g1] recached_allowed [OF g1])
  show ?thesis
    using absorbed recached_guarded [OF g1] recached_guarded_trans [OF g1] assms(2)
    by (cases ok) (simp_all add: accept_resync_response_def a case_prod_unfold Let_def)
qed

lemma retain_authority_recached:
  assumes "cache_wf env g"
  shows "recached env g (fst (retain_transition_authority env e g))"
proof -
  obtain g1 out where c: "org_roster_checked env g = (g1, out)" by fastforce
  with org_roster_checked_transparent [OF assms] have g1: "recached env g g1" by (metis fst_conv)
  then show ?thesis
    using recached_refl [OF assms]
    by (cases out; cases "gt_org_pubkey g") (simp_all add: retain_transition_authority_def c split: option.split sum.split)
qed

lemma membership_control_guarded:
  assumes "application_law env" and "cache_wf env g" and "gt_org_pubkey g = Some org"
  shows "guarded env (set_option sender) g (fst (handle_membership_control env e sender own_fp g))"
proof (cases e)
  case (Commit gid from_fp commit version binding)
  have "guarded env (set_option sender) g (fst (and_next (g, x) (\<lambda>g1 _. group_accept_commit env from_fp commit version sender own_fp g1)))" for x :: "(group_error, unit) result"
    using apply_org_commit_guarded [OF assms(2)] guarded_refl [OF assms(2)] assms(3)
    by (cases x) (simp_all add: group_accept_commit_def)
  then show ?thesis using guarded_refl [OF assms(2)] by (simp add: handle_membership_control_def Commit)
next
  case (SelfRemove gid from_fp proposal names)
  then show ?thesis using accept_departure_guarded [OF assms] guarded_refl [OF assms(2)] by (simp add: handle_membership_control_def)
next
  case (ResyncRequest gid from_fp epoch)
  then show ?thesis using accept_resync_request_guarded [OF assms(2,3)] guarded_refl [OF assms(2)]
    by (simp add: handle_membership_control_def)
next
  case (ResyncResponse gid for_fp commits)
  then show ?thesis using accept_resync_response_guarded [OF assms(2,3)] guarded_refl [OF assms(2)]
    by (simp add: handle_membership_control_def)
qed (simp_all add: handle_membership_control_def guarded_refl [OF assms(2)])

lemma admission_control_guarded:
  assumes "application_law env" and "cache_wf env g" and "gt_org_pubkey g = Some org"
  shows "guarded env (set_option sender) g (fst (handle_admission_control env e sender own_fp g))"
proof -
  note membership = membership_control_guarded [OF assms]
  have commit: "guarded env (set_option sender) g (fst (and_next (g, x) (\<lambda>g1 _. accept_admission_commit env from_fp commit sender g1)))"
    for x :: "(group_error, unit) result" and from_fp commit
    using accept_admission_commit_guarded [OF assms(2,3)] guarded_refl [OF assms(2)] by (cases x) simp_all
  show ?thesis
    using membership accept_key_package_guarded [OF assms(2,3)] accept_welcome_guarded [OF assms(2,3)] commit
    by (cases e) (simp_all add: handle_admission_control_def)
qed

lemma field_guarded:
  "cache_wf env g \<Longrightarrow> guarded env senders g (g\<lparr>gt_incoming_org_control := x\<rparr>)"
  "cache_wf env g \<Longrightarrow> guarded env senders g (g\<lparr>gt_version_seen := v\<rparr>)"
  by (simp_all add: guarded_def)

lemma handle_control_guarded:
  assumes "application_law env" and "cache_wf env g" and "gt_org_pubkey g = Some org"
  shows "guarded env (set_option sender) g (fst (group_handle_control env payload sender g))"
proof -
  have "guarded env (set_option sender) g (fst (and_next (retain_transition_authority env e g) (\<lambda>g1 _.
      handle_admission_control env e sender (ge_fingerprint env) g1)))" for e
  proof -
    obtain g1 out where r: "retain_transition_authority env e g = (g1, out)" by fastforce
    with retain_authority_recached [OF assms(2), of e] have g1: "recached env g g1" by simp
    have "guarded env (set_option sender) g1 (fst (handle_admission_control env e sender (ge_fingerprint env) g1))"
      using assms(3) by (intro admission_control_guarded [OF assms(1)]) (simp_all add: recached_fields [OF g1])
    with recached_guarded [OF g1] recached_guarded_trans [OF g1] show ?thesis by (cases out) (simp_all add: r)
  qed
  then show ?thesis
    using authenticated_control_guarded [OF assms(1,2)] guarded_refl [OF assms(2)]
    by (simp add: group_handle_control_def split: option.split sum.split)
qed

lemma control_message_guarded:
  assumes "application_law env" and "cache_wf env g" and "gt_org_pubkey g = Some org"
    and "unwrap_control env payload g = Ok incoming"
  shows "guarded env (set_option (vc_sender incoming)) g (fst (handle_control_message env payload g))"
proof -
  let ?g = "g\<lparr>gt_incoming_org_control := vc_original_org incoming\<rparr>"
  obtain g1 out where h: "group_handle_control env (vc_payload incoming) (vc_sender incoming) ?g = (g1, out)" by fastforce
  have wf: "cache_wf env ?g" "gt_org_pubkey ?g = Some org" using assms(2,3) by (simp_all add: cache_wf_def)
  have g1: "guarded env (set_option (vc_sender incoming)) g g1"
    using guarded_trans [OF field_guarded(1) [OF assms(2)] handle_control_guarded [OF assms(1) wf]] by (metis h fst_conv)
  then have "reconcile_admin env (g1\<lparr>gt_incoming_org_control := None\<rparr>) = g1\<lparr>gt_incoming_org_control := None\<rparr>"
    and "cache_wf env g1" using assms(3) by (simp_all add: reconcile_admin_def guarded_def)
  with guarded_trans [OF g1 field_guarded(1)] show ?thesis by (simp add: handle_control_message_def assms(4) h)
qed

subsection \<open>Synchronising with the roster\<close>

lemma sequenced_lag [simp]: "gt_roster_lag (fst (sequenced env b g)) = gt_roster_lag g"
  using sequenced_same_org [where g = g and env = env and b = b] by (simp add: same_org_def)

lemma retry_entries_guarded:
  assumes "cache_wf env g" and "lc_sender_peer_id ` set xs \<subseteq> senders"
    and "length (gt_roster_lag g) + length xs \<le> n" and "n \<le> max ROSTER_LAG_CAP (length (gt_roster_lag g0))"
    and "guarded env senders g0 g"
  shows "guarded env senders g0 (retry_entries env mine xs g)"
  using assms
proof (induction env mine xs g rule: retry_entries.induct)
  case (2 env mine x xs g)
  obtain g1 admin where a: "roster_role_is_admin env (lc_sender_peer_id x) g = (g1, admin)" by fastforce
  from roster_role_transparent [OF 2(2), of "lc_sender_peer_id x"] have g1: "recached env g g1" and admin: "admin = admin_now env g (lc_sender_peer_id x)"
    by (simp_all add: a)
  let ?g2 = "if admin then fst (sequenced env (lc_commit_b64 x) g1)
      else if mine < Some (lc_roster_version x) then g1\<lparr>gt_roster_lag := gt_roster_lag g1 @ [x]\<rparr> else g1"
  have g01: "guarded env senders g0 g1" using guarded_trans [OF 2(6) recached_guarded [OF g1]] .
  have "guarded env senders g1 (fst (sequenced env (lc_commit_b64 x) g1))" if admin
    using that admin 2(3) by (intro sequenced_guarded) (auto simp: recached_fields [OF g1] allowed_def recached_roster [OF g1])
  then have moved: "guarded env senders g0 (fst (sequenced env (lc_commit_b64 x) g1))" if admin
    using that guarded_trans [OF g01] by blast
  have pushed: "guarded env senders g0 (g1\<lparr>gt_roster_lag := gt_roster_lag g1 @ [x]\<rparr>)"
    using g01 2(4,5) recached_fields(4) [OF g1]
    by (simp add: guarded_def)
  have "guarded env senders g0 ?g2" using moved pushed g01 by simp
  moreover have "length (gt_roster_lag ?g2) + length xs \<le> n" using 2(4) recached_fields(4) [OF g1] by simp
  ultimately have "guarded env senders g0 (retry_entries env mine xs ?g2)"
    using 2(3,5) by (intro 2(1) [OF a [symmetric]]) (auto simp: guarded_def)
  then show ?case by (simp add: a)
qed simp

lemma retry_lagged_guarded:
  assumes "cache_wf env g" and "lc_sender_peer_id ` set (gt_roster_lag g) \<subseteq> senders"
  shows "guarded env senders g (retry_roster_lagged env g)"
proof (cases "gt_roster_lag g = []")
  case False
  obtain g1 mine where v: "own_roster_version env g = (g1, mine)" by fastforce
  with own_version_transparent [OF assms(1)] have g1: "recached env g g1" by simp
  have empty: "guarded env senders g1 (g1\<lparr>gt_roster_lag := []\<rparr>)"
    using recached_fields(12) [OF g1]
    by (simp add: guarded_def)
  have "guarded env senders g (retry_entries env mine (gt_roster_lag g1) (g1\<lparr>gt_roster_lag := []\<rparr>))"
    using assms(2) recached_fields(4) [OF g1] guarded_trans [OF recached_guarded [OF g1] empty] empty
    by (intro retry_entries_guarded [where n = "length (gt_roster_lag g)"]) (auto simp: guarded_def)
  with False show ?thesis by (simp add: retry_roster_lagged_def v)
qed (simp add: retry_roster_lagged_def guarded_refl [OF assms(1)])

lemma fold_kick_guarded:
  assumes "allowed env senders g0" and "guarded env senders g0 g"
  shows "guarded env senders g0 (fold (kick env) xs g)"
  using assms(2)
proof (induction xs arbitrary: g)
  case (Cons x xs)
  then have "cache_wf env g" by (simp add: guarded_def)
  then obtain g1 where g1: "recached env g g1" "same_org g1 (kick env x g)"
    using kick_through [OF \<open>cache_wf env g\<close>, of x] by (auto simp: through_def)
  with Cons.prems assms(1) have "guarded env senders g0 (kick env x g)"
    by (auto simp: guarded_def recached_fields [OF g1(1)] same_org_def same_org_cache [OF g1(2)])
  then show ?case using Cons.IH by simp
qed simp

lemma reconcile_membership_guarded:
  assumes "cache_wf env g" and "gt_org_pubkey g = Some org"
  shows "guarded env senders g (reconcile_roster_membership env g)"
proof -
  obtain g1 r where o: "group_org_roster env g = (g1, r)" by fastforce
  from group_org_roster_transparent [OF assms(1)] have g1: "recached env g g1" by (simp add: o)
  have wf: "cache_wf env g1" "gt_org_pubkey g1 = Some org" using recached_fields [OF g1] assms(2) by simp_all
  obtain g2 admin where a: "acting_admin env g1 = (g2, admin)" by fastforce
  from acting_admin_transparent [OF wf] have g2: "recached env g1 g2" and admin: "admin = own_admin env g1" by (simp_all add: a)
  have "guarded env senders g (fold (kick env) xs g2)" if admin for xs
    using that admin recached_allowed [OF g1] guarded_trans [OF recached_guarded [OF g1] recached_guarded [OF g2]]
    by (intro fold_kick_guarded) (auto simp: own_admin_allowed)
  then show ?thesis
    using recached_guarded [OF g1] guarded_trans [OF recached_guarded [OF g1] recached_guarded [OF g2]]
    by (simp add: reconcile_roster_membership_def o a split: option.split)
qed

lemma sync_roster_guarded:
  assumes "cache_wf env g" and "gt_org_pubkey g = Some org"
  shows "guarded env (lc_sender_peer_id ` set (gt_roster_lag g)) g (sync_roster_state env g)"
proof -
  let ?S = "lc_sender_peer_id ` set (gt_roster_lag g)"
  obtain g1 v where o: "own_roster_version env g = (g1, v)" by fastforce
  from own_version_transparent [OF assms(1)] have g1: "recached env g g1" by (simp add: o)
  let ?g2 = "g1\<lparr>gt_version_seen := v\<rparr>"
  have g2: "guarded env ?S g ?g2" using guarded_trans [OF recached_guarded [OF g1] field_guarded(2)] recached_fields(12) [OF g1] by blast
  have g3: "guarded env ?S g (retry_roster_lagged env ?g2)"
    using recached_fields [OF g1] by (intro guarded_trans [OF g2] retry_lagged_guarded) simp_all
  then have "guarded env ?S g (reconcile_roster_membership env (retry_roster_lagged env ?g2))"
    using assms(2) by (intro guarded_trans [OF g3] reconcile_membership_guarded [where org = org]) (simp_all add: guarded_def)
  then show ?thesis
    using recached_guarded [OF g1] assms(2) by (simp add: sync_roster_state_def o)
qed

subsection \<open>Runs\<close>

datatype group_event = ControlMessage bytes | RosterSynced

fun group_step ::
    "('c, 'sk) group_ctl \<Rightarrow> ('c, 's, 'vk, 'sg, 'sk, 'a) group_env \<times> group_event \<Rightarrow> ('c, 'sk) group_ctl" where
  "group_step g (env, ControlMessage payload) = fst (handle_control_message env payload g)"
| "group_step g (env, RosterSynced) = sync_roster_state env g"

text \<open>What the group of an organisation keeps, for a verifier of rosters \<open>docs\<close>.\<close>

definition group_inv :: "('vk, 'sg, 'sk) org_doc_env \<Rightarrow> string \<Rightarrow> ('c, 'sk) group_ctl \<Rightarrow> bool" where
  "group_inv docs org g \<longleftrightarrow> gt_org_pubkey g = Some org \<and> length (gt_roster_lag g) \<le> ROSTER_LAG_CAP \<and>
     (case gt_roster_cache g of None \<Rightarrow> True | Some (bs, r) \<Rightarrow> verify_org_roster docs bs org None = Ok r)"

lemma group_inv_iff: "group_inv (ge_docs env) org g \<longleftrightarrow>
    gt_org_pubkey g = Some org \<and> length (gt_roster_lag g) \<le> ROSTER_LAG_CAP \<and> cache_wf env g"
  by (auto simp: group_inv_def cache_wf_def split: option.split)

lemma guarded_inv: "guarded env senders g g' \<Longrightarrow> group_inv (ge_docs env) org g \<Longrightarrow> group_inv (ge_docs env) org g'"
  by (auto simp: group_inv_iff guarded_def)

lemma control_message_refused: "unwrap_control env payload g = Err e \<Longrightarrow> handle_control_message env payload g = (g, Err e)"
  by (simp add: handle_control_message_def)

lemma group_step_inv:
  assumes "ge_docs env = docs" and "application_law env" and "group_inv docs org g"
  shows "group_inv docs org (group_step g (env, ev))"
proof -
  have wf: "cache_wf env g" "gt_org_pubkey g = Some org" using assms(1,3) by (auto simp: group_inv_iff)
  show ?thesis
  proof (cases ev)
    case (ControlMessage payload)
    then show ?thesis
      using assms control_message_guarded [OF assms(2) wf, of payload] control_message_refused [of env payload g]
      by (cases "unwrap_control env payload g") (auto dest: guarded_inv)
  next
    case RosterSynced
    then show ?thesis using guarded_inv [OF sync_roster_guarded [OF wf]] assms by auto
  qed
qed

interpretation group_events: keeping_machine group_step "\<lambda>_. True"
  "\<lambda>(docs, org). group_inv docs org" "\<lambda>(docs, org) (env, ev). ge_docs env = docs \<and> application_law env"
  by unfold_locales (auto intro: group_step_inv)

subsection \<open>Admissions to an organisation's group\<close>

lemma admit_org_member_cases:
  assumes "cache_wf env g"
  shows "gt_crypto (fst (admit_org_member env sender participant package joiner own_fp g)) = gt_crypto g \<or>
    (\<exists>p. sender = Some p \<and> ge_key_package_identity env (gt_crypto g) package = Ok p \<and> member_now env g p)"
proof (cases sender)
  case (Some p)
  show ?thesis
  proof (cases "ge_key_package_identity env (gt_crypto g) package = Ok p \<and> member_now env g p")
    case False
    then show ?thesis
      using Some roster_contains_transparent [OF assms, of p] recached_fields(7)
      by (auto simp: admit_org_member_def case_prod_unfold Let_def split: sum.split)
  qed (simp add: Some)
qed (simp add: admit_org_member_def)

section \<open>Removal of revoked members\<close>

text \<open>
  What a removal needs to succeed, from the state of one group on: in a set of MLS states that
  removals do not leave, a candidate has the members of the session, removing a member other than this
  device takes out all its leaves and removing someone who is no member fails, and the commit fits into
  a frame of this group, so that its evidence can be written. Nothing is asked of the removal of the
  own leaf, which the MLS layer refuses, nor of commits the group does not make.
\<close>

definition removals_closed ::
    "('c, 's, 'vk, 'sg, 'sk, 'a) group_env \<Rightarrow> ('c, 'sk) group_ctl \<Rightarrow> 'c set \<Rightarrow> bool" where
  "removals_closed env g C \<longleftrightarrow>
     (\<forall>c \<in> C. is_ok (ge_history_context env c) \<and>
       (\<exists>c0. ge_receive_candidate env c = Ok c0 \<and> ge_member_identities env c0 = ge_member_identities env c \<and>
         (\<forall>i. i \<noteq> gt_device_fingerprint g \<longrightarrow> (if i \<in> set (ge_member_identities env c)
            then \<exists>c' raw. ge_remove_by_identity env c0 i = Ok (c', raw) \<and> c' \<in> C \<and>
              ge_member_identities env c' = filter (\<lambda>j. j \<noteq> i) (ge_member_identities env c) \<and>
              (\<forall>v. \<exists>bs. control_payload env (Commit (gt_group_id g) (ge_fingerprint env) (ge_base64 env raw) v None) g = Ok bs \<and>
                is_ok (ge_evidence env (OwnTransition c c' raw bs)))
            else \<not> is_ok (ge_remove_by_identity env c0 i)))))"

definition removal_works :: "('c, 's, 'vk, 'sg, 'sk, 'a) group_env \<Rightarrow> ('c, 'sk) group_ctl \<Rightarrow> bool" where
  "removal_works env g \<longleftrightarrow> (\<exists>C. gt_crypto g \<in> C \<and> removals_closed env g C) \<and> (\<forall>b. is_ok (ge_commit env b))"

lemma control_payload_row [simp]: "control_payload (env\<lparr>ge_roster_row := f\<rparr>) e g = control_payload env e g"
  by (cases "gt_org_pubkey g"; cases "gt_org_signer g") (simp_all add: control_payload_def)

text \<open>What the frames of a group are made with.\<close>

definition same_frames :: "('c, 'sk) group_ctl \<Rightarrow> ('c, 'sk) group_ctl \<Rightarrow> bool" where
  "same_frames g g' \<longleftrightarrow> gt_group_id g' = gt_group_id g \<and> gt_org_pubkey g' = gt_org_pubkey g \<and>
     gt_org_signer g' = gt_org_signer g \<and> gt_mesh_id g' = gt_mesh_id g \<and> gt_control_channel g' = gt_control_channel g \<and>
     gt_device_fingerprint g' = gt_device_fingerprint g"

lemma same_frames_refl [simp]: "same_frames g g"
  by (simp add: same_frames_def)

lemma same_frames_payload: "same_frames g g' \<Longrightarrow> control_payload env e g' = control_payload env e g"
proof -
  assume f: "same_frames g g'"
  then have "control_context g' = control_context g" by (simp add: same_frames_def control_context_def)
  with f show ?thesis
    by (cases "gt_org_pubkey g"; cases "gt_org_signer g") (simp_all add: same_frames_def control_payload_def)
qed

lemma recached_frames: "recached env g g' \<Longrightarrow> same_frames g g'"
  by (auto simp: recached_def same_frames_def)

lemma removals_closed_frames: "same_frames g g' \<Longrightarrow> removals_closed env g' C = removals_closed env g C"
  using same_frames_payload [of g g' env] by (simp add: removals_closed_def same_frames_def)

lemma removal_works_row [simp]: "removal_works (env\<lparr>ge_roster_row := f\<rparr>) g = removal_works env g"
  by (simp add: removal_works_def removals_closed_def)

lemma removal_works_frames: "same_frames g g' \<Longrightarrow> gt_crypto g' = gt_crypto g \<Longrightarrow> removal_works env g \<Longrightarrow> removal_works env g'"
  by (simp add: removal_works_def removals_closed_frames)

lemma publish_frame_keeps [simp]:
  "gt_crypto (fst (publish_frame env bs g)) = gt_crypto g" "same_frames g (fst (publish_frame env bs g))"
  by (simp_all add: publish_frame_def same_frames_def gt_crypto_def split: sum.split)

text \<open>This device is an administrator of the roster in force, under its own identity.\<close>

definition roster_admin :: "('c, 's, 'vk, 'sg, 'sk, 'a) group_env \<Rightarrow> org_roster \<Rightarrow> ('c, 'sk) group_ctl \<Rightarrow> bool" where
  "roster_admin env r g \<longleftrightarrow> cache_wf env g \<and> gt_org_pubkey g \<noteq> None \<and> roster_now env g = Some r \<and>
     own_peer_id env g = Some (gt_device_fingerprint g) \<and> lists_admin r (gt_device_fingerprint g)"

lemma roster_admin_through: "roster_admin env r g \<Longrightarrow> through env g g' \<Longrightarrow> roster_admin env r g'"
proof -
  assume a: "roster_admin env r g" and "through env g g'"
  then obtain g1 where g1: "recached env g g1" "same_org g1 g'" by (auto simp: through_def)
  with a show ?thesis
    using same_org_cache [OF g1(2), of env] same_org_roster [OF g1(2), of env]
    by (simp add: roster_admin_def recached_fields [OF g1(1)] recached_roster [OF g1(1)] same_org_def)
qed

lemma checked_caches_row:
  "org_roster_checked env g = (g1, Ok r) \<Longrightarrow>
   \<exists>org bs. gt_org_pubkey g = Some org \<and> ge_roster_row env org = Ok (Some bs) \<and> gt_roster_cache g1 = Some (bs, r)"
  by (auto simp: org_roster_checked_def and_then_Ok_iff ok_or_def bind_eq_Some_conv split: option.splits sum.splits if_splits)

lemma membership_change_moves:
  assumes "roster_admin env r g" and "is_ok (ge_history_context env (gt_crypto g))" and "is_ok (ge_history_context env c)"
    and "\<And>v. \<exists>bs. control_payload env (Commit (gt_group_id g) (ge_fingerprint env) (ge_base64 env raw) v None) g = Ok bs \<and>
      is_ok (ge_evidence env (OwnTransition (gt_crypto g) c raw bs))"
    and "\<And>b. is_ok (ge_commit env b)"
  shows "gt_crypto (fst (publish_membership_change env c raw g)) = c" and "same_frames g (fst (publish_membership_change env c raw g))"
proof -
  obtain prior nxt where ctx: "ge_history_context env (gt_crypto g) = Ok prior" "ge_history_context env c = Ok nxt"
    using assms(2,3) by (auto simp: is_ok_iff)
  obtain g1 v where v: "own_roster_version env g = (g1, v)" by fastforce
  have wf: "cache_wf env g" using assms(1) by (simp add: roster_admin_def)
  from own_version_transparent [OF wf] v have g1: "recached env g g1" by simp
  obtain bs where bs: "control_payload env (Commit (gt_group_id g) (ge_fingerprint env) (ge_base64 env raw) v None) g1 = Ok bs"
      "is_ok (ge_evidence env (OwnTransition (gt_crypto g1) c raw bs))"
    using assms(4) [of v] same_frames_payload [OF recached_frames [OF g1]] recached_fields(7) [OF g1] by metis
  then obtain ev where ev: "ge_evidence env (OwnTransition (gt_crypto g1) c raw bs) = Ok ev" by (auto simp: is_ok_iff)
  have "org_roster_checked env g = (g1, Ok r)"
    using v assms(1) org_roster_checked_transparent [OF wf]
    by (auto simp: own_roster_version_def group_org_roster_def roster_admin_def roster_now_def case_prod_unfold prod_eq_iff
        to_option_def split: sum.splits)
  then obtain org b where row: "gt_org_pubkey g = Some org" "ge_roster_row env org = Ok (Some b)" "gt_roster_cache g1 = Some (b, r)"
    using checked_caches_row by blast
  have "lists_member r p" if "lists_admin r p" for p
    using that by (auto simp: lists_admin_def lists_member_def list_ex_iff)
  then have "org_history_guard env (gt_device_fingerprint g1) True g1 = Ok (Some (org, b))"
    using assms(1) row by (simp add: org_history_guard_def roster_admin_def recached_fields [OF g1])
  moreover have "\<exists>u. ge_commit env ev = Ok u" using assms(5) [of ev] by (simp add: is_ok_iff)
  ultimately obtain u where u: "and_then (ge_evidence env (OwnTransition (gt_crypto g1) c raw bs)) (\<lambda>ev.
      and_then (org_history_guard env (gt_device_fingerprint g1) True g1) (\<lambda>guard. commit_history_admission env guard ev)) = Ok u"
    using ev row by (auto simp: commit_history_admission_def)
  let ?g2 = "log_commit env (hc_epoch prior) raw (set_crypto c g1)"
  have pub: "publish_membership_change env c raw g = publish_frame env bs ?g2"
    using u by (simp add: publish_membership_change_def ctx v bs(1))
  have g2: "gt_crypto ?g2 = c" "same_frames g ?g2"
    using recached_frames [OF g1] by (simp_all add: log_commit_def set_crypto_def gt_crypto_def same_frames_def)
  show "gt_crypto (fst (publish_membership_change env c raw g)) = c" by (simp add: pub g2(1))
  have "same_frames ?g2 (fst (publish_frame env bs ?g2))" by simp
  with g2(2) show "same_frames g (fst (publish_membership_change env c raw g))" unfolding pub by (simp add: same_frames_def)
qed

lemma kick_removes:
  assumes "removal_works env g" and "roster_admin env r g" and "i \<noteq> gt_device_fingerprint g"
  shows "ge_member_identities env (gt_crypto (kick env i g)) = filter (\<lambda>j. j \<noteq> i) (ge_member_identities env (gt_crypto g))"
    and "removal_works env (kick env i g)" and "gt_device_fingerprint (kick env i g) = gt_device_fingerprint g"
proof -
  obtain C where C: "gt_crypto g \<in> C" "removals_closed env g C" and commit: "\<And>b. is_ok (ge_commit env b)"
    using assms(1) by (auto simp: removal_works_def)
  obtain c0 where ctx: "is_ok (ge_history_context env (gt_crypto g))" and c0: "ge_receive_candidate env (gt_crypto g) = Ok c0"
    and rem: "if i \<in> set (ge_member_identities env (gt_crypto g))
            then \<exists>c' raw. ge_remove_by_identity env c0 i = Ok (c', raw) \<and> c' \<in> C \<and>
              ge_member_identities env c' = filter (\<lambda>j. j \<noteq> i) (ge_member_identities env (gt_crypto g)) \<and>
              (\<forall>v. \<exists>bs. control_payload env (Commit (gt_group_id g) (ge_fingerprint env) (ge_base64 env raw) v None) g = Ok bs \<and>
                is_ok (ge_evidence env (OwnTransition (gt_crypto g) c' raw bs)))
            else \<not> is_ok (ge_remove_by_identity env c0 i)"
    using assms(3) bspec [OF C(2) [unfolded removals_closed_def] C(1)] by blast
  have "ge_member_identities env (gt_crypto (kick env i g)) = filter (\<lambda>j. j \<noteq> i) (ge_member_identities env (gt_crypto g)) \<and>
      gt_crypto (kick env i g) \<in> C \<and> same_frames g (kick env i g)"
  proof (cases "i \<in> set (ge_member_identities env (gt_crypto g))")
    case True
    then obtain c' raw where c': "ge_remove_by_identity env c0 i = Ok (c', raw)" "c' \<in> C"
        "ge_member_identities env c' = filter (\<lambda>j. j \<noteq> i) (ge_member_identities env (gt_crypto g))"
        "\<And>v. \<exists>bs. control_payload env (Commit (gt_group_id g) (ge_fingerprint env) (ge_base64 env raw) v None) g = Ok bs \<and>
                is_ok (ge_evidence env (OwnTransition (gt_crypto g) c' raw bs))"
      using rem by (simp only: if_True) blast
    have "is_ok (ge_history_context env c')" using C(2) c'(2) by (simp add: removals_closed_def)
    from membership_change_moves [OF assms(2) ctx this c'(4) commit] c' show ?thesis by (simp add: kick_def c0)
  next
    case False
    with rem have "\<not> is_ok (ge_remove_by_identity env c0 i)" by simp
    then obtain e where "ge_remove_by_identity env c0 i = Err e" by (auto simp: is_ok_def split: sum.splits)
    moreover have "filter (\<lambda>j. j \<noteq> i) (ge_member_identities env (gt_crypto g)) = ge_member_identities env (gt_crypto g)"
      using False by (auto intro!: filter_True)
    ultimately show ?thesis using c0 C(1) by (simp add: kick_def)
  qed
  with C commit show "ge_member_identities env (gt_crypto (kick env i g)) = filter (\<lambda>j. j \<noteq> i) (ge_member_identities env (gt_crypto g))"
    "removal_works env (kick env i g)" "gt_device_fingerprint (kick env i g) = gt_device_fingerprint g"
    using removals_closed_frames [of g "kick env i g" env C] by (auto simp: removal_works_def same_frames_def)
qed

lemma fold_kick_removes:
  assumes "removal_works env g" and "roster_admin env r g" and "gt_device_fingerprint g \<notin> set xs"
  shows "ge_member_identities env (gt_crypto (fold (kick env) xs g)) =
    filter (\<lambda>j. j \<notin> set xs) (ge_member_identities env (gt_crypto g))"
  using assms
proof (induction xs arbitrary: g)
  case (Cons x xs)
  have "roster_admin env r (kick env x g)"
    using Cons.prems(2) kick_through by (metis roster_admin_def roster_admin_through)
  moreover from Cons.prems(3) have x: "x \<noteq> gt_device_fingerprint g" by auto
  moreover have "gt_device_fingerprint (kick env x g) \<notin> set xs" using Cons.prems by (simp add: kick_removes(3) [OF _ _ x])
  ultimately show ?case
    using Cons.IH [OF kick_removes(2) [OF Cons.prems(1,2) x]] by (simp add: kick_removes(1) [OF Cons.prems(1,2) x] conj_commute)
qed simp

lemma roster_admin_steps:
  "roster_admin env r g \<Longrightarrow> recached env g g' \<Longrightarrow> roster_admin env r g'"
  "roster_admin env r g \<Longrightarrow> roster_admin env r (g\<lparr>gt_roster_lag := x\<rparr>)"
  "roster_admin env r g \<Longrightarrow> roster_admin env r (g\<lparr>gt_version_seen := v\<rparr>)"
  "roster_admin env r g \<Longrightarrow> same_org g g' \<Longrightarrow> roster_admin env r g'"
proof -
  show "roster_admin env r g \<Longrightarrow> recached env g g' \<Longrightarrow> roster_admin env r g'"
    by (erule roster_admin_through) (erule throughI [OF _ same_org_refl])
  show "roster_admin env r g \<Longrightarrow> same_org g g' \<Longrightarrow> roster_admin env r g'"
    by (rule roster_admin_through [of env r g]) (auto intro: throughI [OF recached_refl] simp: roster_admin_def)
qed (simp_all add: roster_admin_def)

lemma retry_roster_admin: "roster_admin env r g \<Longrightarrow> roster_admin env r (retry_entries env mine xs g) \<and>
    gt_joined (retry_entries env mine xs g) = gt_joined g \<and>
    gt_device_fingerprint (retry_entries env mine xs g) = gt_device_fingerprint g"
proof (induction env mine xs g rule: retry_entries.induct)
  case (2 env mine x xs g)
  obtain g1 admin where a: "roster_role_is_admin env (lc_sender_peer_id x) g = (g1, admin)" by fastforce
  have "cache_wf env g" using 2(2) by (simp add: roster_admin_def)
  from roster_role_transparent [OF this] have g1: "recached env g g1" by (metis a fst_conv)
  have same: "same_org g1 (fst (sequenced env (lc_commit_b64 x) g1))" by (rule sequenced_same_org)
  let ?g2 = "if admin then fst (sequenced env (lc_commit_b64 x) g1)
      else if mine < Some (lc_roster_version x) then g1\<lparr>gt_roster_lag := gt_roster_lag g1 @ [x]\<rparr> else g1"
  have "roster_admin env r ?g2 \<and> gt_joined ?g2 = gt_joined g \<and> gt_device_fingerprint ?g2 = gt_device_fingerprint g"
    using roster_admin_steps(1) [OF 2(2) g1] roster_admin_steps same same [unfolded same_org_def] recached_fields [OF g1] by auto
  with 2(1) [OF a [symmetric]] show ?case by (simp add: a)
qed simp

lemma reconcile_removes:
  assumes "removal_works env g" and "roster_admin env r g" and "gt_joined g"
  shows "ge_member_identities env (gt_crypto (reconcile_roster_membership env g)) =
    filter (\<lambda>i. i = gt_device_fingerprint g \<or> lists_member r i) (ge_member_identities env (gt_crypto g))"
proof -
  obtain org where wf: "cache_wf env g" "gt_org_pubkey g = Some org" using assms(2) by (auto simp: roster_admin_def)
  obtain g1 x where o: "group_org_roster env g = (g1, x)" by fastforce
  from group_org_roster_transparent [OF wf(1)] assms(2) have g1: "recached env g g1" and x: "x = Some r"
    by (simp_all add: o roster_admin_def)
  have wf1: "cache_wf env g1" "gt_org_pubkey g1 = Some org" using recached_fields [OF g1] wf(2) by simp_all
  obtain g2 admin where a: "acting_admin env g1 = (g2, admin)" by fastforce
  from acting_admin_transparent [OF wf1] have g2: "recached env g g2" and admin: "admin = own_admin env g1"
    using recached_trans [OF g1] by (simp_all add: a)
  have own: "own_admin env g1" using assms(2)
    by (auto simp: own_admin_def roster_admin_def admin_now_def recached_fields [OF g1] recached_roster [OF g1])
  have "roster_admin env r g2" using roster_admin_steps(1) [OF assms(2) g2] .
  from fold_kick_removes [OF removal_works_frames [OF recached_frames [OF g2] recached_fields(7) [OF g2] assms(1)] this] show ?thesis
    using assms(2,3) own admin
    by (auto simp: reconcile_roster_membership_def o x a recached_fields [OF g1] recached_fields [OF g2] roster_admin_def
        intro!: filter_cong)
qed

section \<open>A concrete group\<close>

text \<open>A session is its epoch and its members; a commit advances the epoch.\<close>

definition demo_group_mls :: "(u64 \<times> string list, u64 \<times> string list, group_error) mls_env" where
  "demo_group_mls =
     \<lparr>mls_epoch = (\<lambda>c. Some (fst c)), commit_epoch_of = (\<lambda>_. Ok 0), stage_membership = (\<lambda>c _. Ok (fst c + 1, snd c)),
      staged_next = (\<lambda>s. s), persist_membership = (\<lambda>_ _ _. Ok ()), decode_b64 = (\<lambda>s. Ok (utf8_bytes s)),
      dek = dek demo_env, group_id_of = ''g''\<rparr>"

definition demo_group_env :: "(u64 \<times> string list, u64 \<times> string list, byte, byte \<times> bytes, byte, unit) group_env" where
  "demo_group_env =
     \<lparr>ge_mls = demo_group_mls, ge_docs = demo_doc_env, ge_roster_row = (\<lambda>_. Ok (Some [1, 2])),
      ge_signed_from = (\<lambda>_. Err (GCodec ''json'')), ge_signed_to = (\<lambda>e. Ok (os_payload e)),
      ge_control_from = (\<lambda>_. Err (GCodec ''json'')), ge_control_to = (\<lambda>e. case e of Commit gid device b64 v binding \<Rightarrow> Ok (utf8_bytes (gid @ '':'' @ device @ '':'' @ b64)) | _ \<Rightarrow> Ok []),
      ge_proof_from = (\<lambda>_. None),
      ge_proof_to = (\<lambda>_. Ok []), ge_claim_to = (\<lambda>_. Ok []), ge_association_to = (\<lambda>_. Ok []),
      ge_association_from = (\<lambda>_. Err (GCodec ''json'')), ge_base64 = demo_to_hex, ge_sha256 = (\<lambda>b. b),
      ge_publish = (\<lambda>_. Ok ()), ge_identity_signer = Ok 7, ge_evidence = (\<lambda>_. Ok []), ge_commit = (\<lambda>_. Ok ()),
      ge_saved_replay = (\<lambda>_. Ok None), ge_now_ms = 0, ge_instant = 0, ge_ready = (\<lambda>_. True),
      ge_signer = (\<lambda>_. \<lparr>signer_public = [], sign_sender_proof = (\<lambda>_. Err ''none'')\<rparr>),
      ge_fingerprint = demo_org_key, ge_member_fingerprints = snd, ge_member_identities = snd,
      ge_identity_for_signer = (\<lambda>_ _. None), ge_history_context = (\<lambda>c. Ok \<lparr>hc_group_id = [], hc_epoch = fst c, hc_hash = []\<rparr>),
      ge_commit_header = (\<lambda>_. Err GNotReady), ge_receive_candidate = Ok,
      ge_remove_by_identity = (\<lambda>c i. if i \<in> set (snd c) \<and> i \<noteq> demo_org_key then Ok ((fst c + 1, filter (\<lambda>j. j \<noteq> i) (snd c)), [])
        else Err (GOpenMls ''no member'')),
      ge_commit_departure = (\<lambda>c _. Err GNotReady), ge_add_member = (\<lambda>c _. Err GNotReady),
      ge_replace_member = (\<lambda>c _ _. Err GNotReady), ge_key_package_identity = (\<lambda>_ _. Ok ''x''),
      ge_key_package_signer = (\<lambda>_ _. Ok []), ge_signer_is_member = (\<lambda>_ _. Ok False),
      ge_stage_admission = (\<lambda>_ _ _ _ _. Err GNotReady), ge_application = (\<lambda>_ _ _ c. (c, Ok ()))\<rparr>"

definition demo_group :: "string option \<Rightarrow> string list \<Rightarrow> (u64 \<times> string list, byte) group_ctl" where
  "demo_group org members =
     \<lparr>gt_group_id = ''g'', gt_mesh_id = ''m'', gt_control_channel = ''c'', gt_participant_id = ''p'',
      gt_device_fingerprint = demo_org_key, gt_admin_fingerprint = ''a'', gt_is_admin = False, gt_joined = True,
      gt_org_pubkey = org, gt_org_signer = Some 7,
      gt_session = \<lparr>gs_seq = \<lparr>crypto = (5, members), sequencer = new_sequencer, persistence = Some []\<rparr>,
        needs_rejoin = False, resync_requests = []\<rparr>,
      gt_pending_join_package = None, gt_admission_replays = [], gt_roster_cache = None, gt_incoming_org_control = None,
      gt_roster_lag = [], gt_version_seen = None, gt_sent = []\<rparr>"

lemma demo_application_law: "application_law demo_group_env"
  by (simp add: application_law_def demo_group_env_def)

lemma demo_group_docs [simp]: "ge_docs demo_group_env = demo_doc_env"
  by (simp add: demo_group_env_def)

lemma demo_group_inv: "group_inv demo_doc_env demo_org_key (demo_group (Some demo_org_key) ms)"
  by (simp add: group_inv_def demo_group_def)

lemma demo_group_roster: "roster_now demo_group_env (demo_group (Some demo_org_key) ms) = Some (demo_roster_of 2)"
  by (simp add: roster_now_def roster_in_force_def demo_group_def demo_group_env_def gt_persistence_def demo_roster_verifies)

lemma demo_roster_admin: "roster_admin demo_group_env (demo_roster_of 2) (demo_group (Some demo_org_key) ms)"
proof -
  have "own_peer_id demo_group_env (demo_group (Some demo_org_key) ms) = Some demo_org_key"
    by (simp add: own_peer_id_def demo_group_def demo_org_key_def peer_id_hex_def)
  moreover have "lists_admin (demo_roster_of 2) demo_org_key"
    by (simp add: lists_admin_def demo_roster_of_def demo_org_member_def)
  moreover have "cache_wf demo_group_env (demo_group (Some demo_org_key) ms)" by (simp add: cache_wf_def demo_group_def)
  ultimately show ?thesis using demo_group_roster by (simp add: roster_admin_def) (simp add: demo_group_def)
qed

lemma demo_removal_works: "removal_works demo_group_env (demo_group (Some demo_org_key) ms)"
proof -
  have bytes: "length (utf8_bytes t) = length t" for t by (simp add: utf8_bytes_def)
  have key: "length (node_id demo_org_env 7) = 64" by code_simp
  have "\<exists>bs. control_payload demo_group_env (Commit ''g'' demo_org_key (demo_to_hex []) v None) (demo_group (Some demo_org_key) ms) = Ok bs" for v
    by (simp add: control_payload_def demo_group_env_def demo_group_def sign_envelope_def MAX_PUBLISH_BYTES_def bytes key
        demo_org_key_def demo_to_hex_def)
  moreover have "gt_group_id (demo_group (Some demo_org_key) ms) = ''g''" "ge_fingerprint demo_group_env = demo_org_key"
      "gt_device_fingerprint (demo_group (Some demo_org_key) ms) = demo_org_key"
      "\<And>b. ge_base64 demo_group_env b = demo_to_hex b" "\<And>c. is_ok (ge_history_context demo_group_env c)"
      "\<And>c. ge_receive_candidate demo_group_env c = Ok c" "\<And>c. ge_member_identities demo_group_env c = snd c"
      "\<And>c i. ge_remove_by_identity demo_group_env c i = (if i \<in> set (snd c) \<and> i \<noteq> demo_org_key
         then Ok ((fst c + 1, filter (\<lambda>j. j \<noteq> i) (snd c)), []) else Err (GOpenMls ''no member''))"
      "\<And>ev. is_ok (ge_evidence demo_group_env ev)"
    by (simp_all add: demo_group_env_def demo_group_def)
  ultimately have "removals_closed demo_group_env (demo_group (Some demo_org_key) ms) UNIV"
    by (auto simp: removals_closed_def)
  then show ?thesis by (auto simp: removal_works_def) (simp add: demo_group_env_def)
qed

section \<open>What holds of a group\<close>

text \<open>
  C3. Only administrators move the group of an organisation. Whatever arrives on its control channel,
  the epoch and the members of the MLS tree stay as they are unless the frame is signed for this
  organisation, mesh and channel and its sender is an administrator of the roster in force, or this
  device is one itself. Synchronising with a new roster moves the tree only for a buffered commit
  whose author that roster makes an administrator, or if this device is one. The handlers of
  application frames (history, metadata, deletions, names, attachments, typing hints, offers) are a
  parameter that leaves the tree alone.
\<close>

theorem org_group_moved_by_admins:
  assumes "application_law env" and "group_inv (ge_docs env) org g"
  shows "(tree env (gt_crypto (fst (handle_control_message env payload g))) = tree env (gt_crypto g) \<or>
      (\<exists>e. ge_signed_from env payload = Ok e \<and> verify_envelope (ge_docs env) e (control_context g) = Ok () \<and>
        (admin_now env g (os_peer_id e) \<or> own_admin env g))) \<and>
    (tree env (gt_crypto (sync_roster_state env g)) = tree env (gt_crypto g) \<or>
      (\<exists>x \<in> set (gt_roster_lag g). admin_now env g (lc_sender_peer_id x)) \<or> own_admin env g)"
proof -
  have wf: "cache_wf env g" "gt_org_pubkey g = Some org" using assms(2) by (simp_all add: group_inv_iff)
  have "tree env (gt_crypto (fst (handle_control_message env payload g))) = tree env (gt_crypto g) \<or>
      (\<exists>e. ge_signed_from env payload = Ok e \<and> verify_envelope (ge_docs env) e (control_context g) = Ok () \<and>
        (admin_now env g (os_peer_id e) \<or> own_admin env g))"
  proof (cases "unwrap_control env payload g")
    case (Inr incoming)
    then obtain e where "ge_signed_from env payload = Ok e" "verify_envelope (ge_docs env) e (control_context g) = Ok ()"
        "vc_sender incoming = Some (os_peer_id e)"
      using wf(2) by (auto simp: unwrap_control_def and_then_Ok_iff)
    with control_message_guarded [OF assms(1) wf Inr] show ?thesis by (auto simp: guarded_def allowed_def)
  qed (simp add: control_message_refused)
  with sync_roster_guarded [OF wf] show ?thesis by (auto simp: guarded_def allowed_def)
qed

theorem org_group_moved_by_admins_witness:
  "let g = demo_group (Some demo_org_key) [demo_org_key, ''x'']
   in tree demo_group_env (gt_crypto (fst (handle_control_message demo_group_env [0] g))) = tree demo_group_env (gt_crypto g)"
proof -
  have "ge_signed_from demo_group_env [0] \<noteq> Ok e" for e by (simp add: demo_group_env_def)
  with org_group_moved_by_admins [OF demo_application_law, of demo_org_key "demo_group (Some demo_org_key) [demo_org_key, ''x'']" "[0]"]
    demo_group_inv show ?thesis by (auto simp: Let_def)
qed

text \<open>
  The cache of the roster cannot be noticed and the buffer of early commits is bounded: after any
  sequence of control messages and synchronisations, each in an environment of its own, at most
  sixteen commits wait, and asking for the roster gives what verifying the stored bytes gives.
\<close>

theorem roster_cache_transparent:
  assumes "group_inv docs org g" and "\<forall>(env, ev) \<in> set evs. ge_docs env = docs \<and> application_law env"
    and "ge_docs env = docs"
  shows "length (gt_roster_lag (foldl group_step g evs)) \<le> ROSTER_LAG_CAP \<and>
    gt_org_pubkey (foldl group_step g evs) = Some org \<and>
    snd (org_roster_checked env (foldl group_step g evs)) = roster_in_force env (foldl group_step g evs)"
proof -
  have "group_inv docs org (foldl group_step g evs)"
    using group_events.run_keeps [where s = g and k = "(docs, org)" and es = evs] assms(1,2) by (simp add: case_prod_unfold)
  then show ?thesis
    using org_roster_checked_transparent(2) [of env "foldl group_step g evs"] assms(3) by (auto simp: group_inv_iff)
qed

theorem roster_cache_transparent_witness:
  "let g = foldl group_step (demo_group (Some demo_org_key) [demo_org_key, ''x'']) [(demo_group_env, RosterSynced), (demo_group_env, ControlMessage [0])]
   in length (gt_roster_lag g) \<le> 16 \<and> snd (org_roster_checked demo_group_env g) = roster_in_force demo_group_env g"
  using roster_cache_transparent [OF demo_group_inv, of "[(demo_group_env, RosterSynced), (demo_group_env, ControlMessage [0])]"
      demo_group_env "[demo_org_key, ''x'']"] demo_application_law
  by (simp add: Let_def ROSTER_LAG_CAP_def del: foldl_Cons group_step.simps)

text \<open>The group when the new roster is noted and the early commits were tried again.\<close>

definition caught_up :: "('c, 's, 'vk, 'sg, 'sk, 'a) group_env \<Rightarrow> ('c, 'sk) group_ctl \<Rightarrow> ('c, 'sk) group_ctl" where
  "caught_up env g = (let (g1, v) = own_roster_version env g in retry_roster_lagged env (g1\<lparr>gt_version_seen := v\<rparr>))"

lemma caught_up_quiet:
  assumes "cache_wf env g" and "gt_roster_lag g = []" and "removal_works env g"
  shows "removal_works env (caught_up env g)"
proof -
  obtain g1 v where o: "own_roster_version env g = (g1, v)" by fastforce
  from own_version_transparent [OF assms(1)] have g1: "recached env g g1" by (simp add: o)
  have "caught_up env g = g1\<lparr>gt_version_seen := v\<rparr>"
    using recached_fields [OF g1] assms(2) by (simp add: caught_up_def o retry_roster_lagged_def)
  moreover have "same_frames g (g1\<lparr>gt_version_seen := v\<rparr>)" using recached_frames [OF g1] by (simp add: same_frames_def)
  moreover have "gt_crypto (g1\<lparr>gt_version_seen := v\<rparr>) = gt_crypto g" using recached_fields [OF g1] by (simp add: gt_crypto_def)
  ultimately show ?thesis using removal_works_frames assms(3) by metis
qed

text \<open>
  When an administrator's device synchronises with a roster it has not seen, and nothing fails, every
  member left in the tree is the device itself or listed in that roster, whatever early commits wait.
\<close>

lemma sync_removes_revoked:
  assumes "removal_works env (caught_up env g)" and "roster_admin env r g" and "gt_joined g" and "gt_version_seen g \<noteq> Some (or_version r)"
  shows "set (ge_member_identities env (gt_crypto (sync_roster_state env g))) \<subseteq>
    insert (gt_device_fingerprint g) (rm_moss_peer_id ` set (or_members r))"
proof -
  have wf: "cache_wf env g" "gt_org_pubkey g \<noteq> None" using assms(2) by (simp_all add: roster_admin_def)
  obtain g1 v where o: "own_roster_version env g = (g1, v)" by fastforce
  from own_version_transparent [OF wf(1)] assms(2) have g1: "recached env g g1" and v: "v = Some (or_version r)"
    by (simp_all add: o roster_admin_def)
  let ?g2 = "g1\<lparr>gt_version_seen := v\<rparr>"
  have g2: "roster_admin env r ?g2" using roster_admin_steps(1,3) assms(2) g1 by blast
  obtain g3 mine where m: "own_roster_version env ?g2 = (g3, mine)" by fastforce
  from g2 own_version_transparent have g3: "recached env ?g2 g3" by (metis m fst_conv roster_admin_def)
  define g4 where "g4 = retry_roster_lagged env ?g2"
  have "roster_admin env r g4 \<and> gt_joined g4 = gt_joined g1 \<and> gt_device_fingerprint g4 = gt_device_fingerprint g1"
    using g2 retry_roster_admin [OF roster_admin_steps(2) [OF roster_admin_steps(1) [OF g2 g3]]] recached_fields [OF g3]
    by (simp add: g4_def retry_roster_lagged_def m)
  then have g4: "roster_admin env r g4" "gt_joined g4" "gt_device_fingerprint g4 = gt_device_fingerprint g"
    using recached_fields [OF g1] assms(3) by simp_all
  have "sync_roster_state env g = reconcile_roster_membership env g4"
    using wf(2) assms(4) v recached_fields(9) [OF g1] by (auto simp: sync_roster_state_def o g4_def)
  moreover have "removal_works env g4" using assms(1) by (simp add: caught_up_def o g4_def)
  ultimately show ?thesis using reconcile_removes [OF _ g4(1,2)] g4(3)
    by (auto simp: lists_member_def list_ex_iff)
qed

text \<open>
  A key package changes the tree of an organisation's group only if this device is an
  administrator of the roster in force, the package's identity is the verified sender of the frame and
  the roster lists it; a joiner's proof, when there is one, is verified for that sender.
\<close>

theorem org_admission_from_roster:
  assumes "group_inv (ge_docs env) org g"
  shows "gt_crypto (fst (accept_key_package env participant package_b64 joiner sender own_fp g)) = gt_crypto g \<or>
    own_admin env g \<and>
    (\<exists>p package. sender = Some p \<and> decode_b64 (ge_mls env) package_b64 = Ok package \<and>
       ge_key_package_identity env (gt_crypto g) package = Ok p \<and> member_now env g p \<and>
       pred_option (\<lambda>proof. \<exists>v. verify_joiner_binding env proof package g = Ok v \<and> vs_peer_id v = p) joiner)"
proof -
  have wf: "cache_wf env g" "gt_org_pubkey g = Some org" using assms by (simp_all add: group_inv_iff)
  obtain g1 admin where a: "acting_admin env g = (g1, admin)" by fastforce
  from acting_admin_transparent [OF wf] have g1: "recached env g g1" and admin: "admin = own_admin env g" by (simp_all add: a)
  note same = recached_fields [OF g1]
  have joiner: "verify_joiner_binding env p package g1 = verify_joiner_binding env p package g" for p package
    by (simp add: verify_joiner_binding_def key_package_input_def group_conversation_def same)
  show ?thesis
  proof (cases "gt_crypto (fst (accept_key_package env participant package_b64 joiner sender own_fp g)) = gt_crypto g")
    case False
    then have admin: "own_admin env g" using admin by (auto simp: accept_key_package_def a same)
    have replay: "gt_crypto (fst (replay_admission env b g1)) = gt_crypto g"
        "gt_crypto (fst (replay_admission env b (fst (roster_contains env p g1)))) = gt_crypto g"
        "gt_crypto (fst (roster_contains env p g1)) = gt_crypto g" for b p
      using recached_fields(7) [OF roster_contains_transparent(1) [OF same(12)]] same(7)
      by (simp_all add: replay_admission_same)
    from False admin obtain package where package: "decode_b64 (ge_mls env) package_b64 = Ok package"
      and checked: "pred_option (\<lambda>proof. \<exists>v. verify_joiner_binding env proof package g = Ok v \<and> sender = Some (vs_peer_id v)) joiner"
      and moved: "gt_crypto (fst (admit_org_member env sender participant package joiner own_fp g1)) \<noteq> gt_crypto g"
      using wf(2) replay \<open>admin = own_admin env g\<close> same(2,7)
      by (auto simp: accept_key_package_def a joiner and_then_Ok_iff case_prod_unfold Let_def
          split: sum.splits bool.splits option.splits if_splits)
    with admit_org_member_cases [OF same(12), of sender participant package joiner own_fp] same(7) obtain p where
        "sender = Some p" "ge_key_package_identity env (gt_crypto g) package = Ok p" "member_now env g p"
      by (auto simp: recached_roster [OF g1])
    with admin package checked show ?thesis by (cases joiner) auto
  qed simp
qed

theorem org_admission_from_roster_witness:
  "let g = demo_group (Some demo_org_key) [demo_org_key]
   in gt_crypto (fst (accept_key_package demo_group_env ''q'' ''k'' None None demo_org_key g)) = gt_crypto g"
  using org_admission_from_roster [of demo_group_env demo_org_key "demo_group (Some demo_org_key) [demo_org_key]"
      "''q''" "''k''" None None demo_org_key] demo_group_inv
  by (simp add: Let_def)

text \<open>
  A departure from a plain group is committed by exactly one member. Among the members of a tree
  who know the same administrator, exactly one of those who stay takes the departure, and the tree
  without the leaver names that same member administrator if the administrator left.
\<close>

theorem departure_one_committer:
  assumes "gt_org_pubkey g = None" and "gt_joined g"
    and "gt_admin_fingerprint g \<in> set (ge_member_fingerprints env (gt_crypto g))"
    and "leaver \<noteq> gt_admin_fingerprint g \<or> (\<exists>m \<in> set (ge_member_fingerprints env (gt_crypto g)). m \<noteq> leaver)"
    and "ge_member_fingerprints env c' = filter (\<lambda>m. m \<noteq> leaver) (ge_member_fingerprints env (gt_crypto g))"
  shows "\<exists>!m. m \<in> set (ge_member_fingerprints env (gt_crypto g)) \<and> m \<noteq> leaver \<and>
    snd (should_commit_departure (env\<lparr>ge_fingerprint := m\<rparr>) leaver (g\<lparr>gt_is_admin := (m = gt_admin_fingerprint g)\<rparr>)) \<and>
    gt_admin_fingerprint (reconcile_admin env (set_crypto c' g)) = m"
proof -
  let ?members = "ge_member_fingerprints env (gt_crypto g)"
  have plain: "snd (should_commit_departure (env\<lparr>ge_fingerprint := m\<rparr>) leaver (g\<lparr>gt_is_admin := (m = gt_admin_fingerprint g)\<rparr>)) \<longleftrightarrow>
      (if leaver \<noteq> gt_admin_fingerprint g then m = gt_admin_fingerprint g else successor_of ?members leaver = Some m)" for m
    using assms(1) by (simp add: should_commit_departure_def gt_crypto_def)
  have reconciled: "gt_admin_fingerprint (reconcile_admin env (set_crypto c' g)) =
      (if gt_admin_fingerprint g \<in> set (ge_member_fingerprints env c') then gt_admin_fingerprint g
       else case successor_of (ge_member_fingerprints env c') (gt_admin_fingerprint g) of
              None \<Rightarrow> gt_admin_fingerprint g | Some m \<Rightarrow> m)"
  proof -
    have "gt_org_pubkey (set_crypto c' g) = None" "gt_joined (set_crypto c' g)"
        "gt_admin_fingerprint (set_crypto c' g) = gt_admin_fingerprint g"
      using assms(1,2) by (simp_all add: set_crypto_def)
    then show ?thesis by (simp add: reconcile_admin_def Let_def split: option.split)
  qed
  show ?thesis
  proof (cases "leaver = gt_admin_fingerprint g")
    case False
    with assms(3,5) reconciled plain show ?thesis by auto
  next
    case True
    let ?left = "filter (\<lambda>m. m \<noteq> leaver) ?members"
    from True assms(4) have left: "?left \<noteq> []" by (auto simp: filter_empty_conv)
    have "successor_of xs leaver = Some (Min (set (filter (\<lambda>m. m \<noteq> leaver) xs)))"
      if "filter (\<lambda>m. m \<noteq> leaver) xs \<noteq> []" for xs
      using that by (cases "filter (\<lambda>m. m \<noteq> leaver) xs") (simp_all add: successor_of_def del: set_filter)
    from this [of ?members] this [of ?left] left
    have s: "successor_of ?members leaver = Some (Min (set ?left))" "successor_of ?left leaver = Some (Min (set ?left))"
      by simp_all
    have "Min (set ?left) \<in> set ?left" using left by (intro Min_in) (simp_all del: set_filter)
    then have min: "Min (set ?left) \<in> set ?members" "Min (set ?left) \<noteq> leaver" by simp_all
    have "gt_admin_fingerprint (reconcile_admin env (set_crypto c' g)) = Min (set ?left)"
      using True reconciled s(2) assms(5) by simp
    with min s(1) True show ?thesis unfolding plain by (intro ex1I [of _ "Min (set ?left)"]) simp_all
  qed
qed

theorem departure_one_committer_witness:
  "let g = demo_group None [''a'', ''c'', ''b'']
   in \<exists>!m. m \<in> {''a'', ''b'', ''c''} \<and> m \<noteq> ''a'' \<and>
     snd (should_commit_departure (demo_group_env\<lparr>ge_fingerprint := m\<rparr>) ''a'' (g\<lparr>gt_is_admin := (m = ''a'')\<rparr>)) \<and>
     gt_admin_fingerprint (reconcile_admin demo_group_env (set_crypto (6, [''c'', ''b'']) g)) = m"
proof -
  let ?g = "demo_group None [''a'', ''c'', ''b'']"
  have g: "gt_org_pubkey ?g = None" "gt_joined ?g" "gt_admin_fingerprint ?g = ''a''"
      "ge_member_fingerprints demo_group_env (gt_crypto ?g) = [''a'', ''c'', ''b'']"
    by (simp_all add: demo_group_def gt_crypto_def demo_group_env_def)
  have "ge_member_fingerprints demo_group_env (6, [''c'', ''b'']) =
      filter (\<lambda>m. m \<noteq> ''a'') (ge_member_fingerprints demo_group_env (gt_crypto ?g))"
    unfolding g by (simp add: demo_group_env_def)
  with departure_one_committer [of ?g demo_group_env "''a''" "(6, [''c'', ''b''])"] g show ?thesis
    by (simp add: Let_def insert_commute)
qed

end
