(* ===== verification/Read_Marks.thy ===== *)
theory Read_Marks
  imports Deletion_Store "HOL-Library.Multiset"
begin

text \<open>
  What the user has seen of a conversation: \<open>conversation/read_marks.rs\<close> over the table of
  \<open>persistence/read_marks.rs\<close>, for the three kinds of conversation. A mark is a floor and a count of
  the incoming messages since the floor that were on screen. JSON of a mark is a parameter; reading and
  writing the table may fail, each on its own. Sums of time stamps wrap as in a release build.

  The theorems: what was on screen is never unread again and every incoming message since then is, in
  whatever order they arrive; a restart shows the same unread messages; and the history a conversation
  starts with is read, up to the largest time stamp.
\<close>

section \<open>Marks\<close>

record unread_state =
  us_count :: u32
  us_first_unread_message_id :: "string option"

record read_mark =
  rm_floor_ms :: u64
  rm_seen :: u32

definition newest_stamp :: "'x message_scheme list \<Rightarrow> u64 option" where
  "newest_stamp log = (case List.map_filter sent_at_ms log of [] \<Rightarrow> None | t # ts \<Rightarrow> Some (fold max ts t))"

definition starting_after :: "u64 \<Rightarrow> 'x message_scheme list \<Rightarrow> read_mark" where
  "starting_after now log =
     \<lparr>rm_floor_ms = (case newest_stamp log of None \<Rightarrow> now | Some sent \<Rightarrow> sent + 1), rm_seen = 0\<rparr>"

definition can_be_unread :: "'x message_scheme message_kind \<Rightarrow> u64 \<Rightarrow> string \<Rightarrow> 'x message_scheme \<Rightarrow> bool" where
  "can_be_unread kd start own_author m \<longleftrightarrow>
     \<not> (Option.bind (metadata m) md_is_own = Some True \<or> mk_author kd m = own_author) \<and> \<not> mk_is_service kd m \<and>
     mk_call_id kd m = None \<and> start \<le> (case sent_at_ms m of None \<Rightarrow> start | Some t \<Rightarrow> t)"

definition incoming ::
    "'x message_scheme message_kind \<Rightarrow> read_mark \<Rightarrow> string \<Rightarrow> 'x message_scheme list \<Rightarrow> 'x message_scheme list" where
  "incoming kd mark own_author log =
     sort_key (\<lambda>m. (sent_at_ms m, message_id m)) (filter (can_be_unread kd (rm_floor_ms mark) own_author) log)"

definition mark_state ::
    "'x message_scheme message_kind \<Rightarrow> read_mark \<Rightarrow> string \<Rightarrow> 'x message_scheme list \<Rightarrow> unread_state" where
  "mark_state kd mark own_author log =
     (let inc = incoming kd mark own_author log; seen = min (unat (rm_seen mark)) (length inc)
      in \<lparr>us_count = of_nat (length inc - seen),
          us_first_unread_message_id = (if seen < length inc then message_id (inc ! seen) else None)\<rparr>)"

section \<open>The marks of a kind and their table\<close>

record mark_env =
  me_to_json :: "read_mark \<Rightarrow> bytes option"
  me_from_json :: "bytes \<Rightarrow> read_mark option"
  me_label :: string

text \<open>The table is absent without a store; each flag says that reading or writing it fails now.\<close>

record mark_store =
  mt_rows :: "(string, bytes) btree_map"
  mt_unreadable :: bool
  mt_unwritable :: bool

record read_marks =
  rk_marks :: "(string, read_mark) btree_map"
  rk_store :: "mark_store option"

definition read_mark_key :: "mark_env \<Rightarrow> string \<Rightarrow> string" where
  "read_mark_key env i = me_label env @ '':'' @ i"

definition get_read_mark :: "mark_env \<Rightarrow> string \<Rightarrow> mark_store \<Rightarrow> (unit, bytes option) result" where
  "get_read_mark env i st = (if mt_unreadable st then Err () else Ok (bt_get (mt_rows st) (read_mark_key env i)))"

definition put_read_mark :: "mark_env \<Rightarrow> string \<Rightarrow> bytes \<Rightarrow> mark_store \<Rightarrow> mark_store" where
  "put_read_mark env i row st =
     (if mt_unwritable st then st else st\<lparr>mt_rows := bt_insert (read_mark_key env i) row (mt_rows st)\<rparr>)"

definition load_mark :: "mark_env \<Rightarrow> string \<Rightarrow> mark_store \<Rightarrow> (unit, read_mark option) result" where
  "load_mark env i st =
     and_then (get_read_mark env i st) (\<lambda>row.
       case row of None \<Rightarrow> Ok None | Some b \<Rightarrow> (case me_from_json env b of None \<Rightarrow> Err () | Some mark \<Rightarrow> Ok (Some mark)))"

definition save_mark :: "mark_env \<Rightarrow> string \<Rightarrow> read_mark \<Rightarrow> read_marks \<Rightarrow> read_marks" where
  "save_mark env i mark rk =
     rk\<lparr>rk_marks := bt_insert i mark (rk_marks rk),
        rk_store := (case (rk_store rk, me_to_json env mark) of
            (Some st, Some row) \<Rightarrow> Some (put_read_mark env i row st) | (st, _) \<Rightarrow> st)\<rparr>"

definition mark_of ::
    "mark_env \<Rightarrow> u64 \<Rightarrow> string \<Rightarrow> 'x message_scheme list \<Rightarrow> read_marks \<Rightarrow> read_marks \<times> read_mark" where
  "mark_of env now i log rk =
     (case bt_get (rk_marks rk) i of
        Some mark \<Rightarrow> (rk, mark)
      | None \<Rightarrow>
          (case (case rk_store rk of None \<Rightarrow> Ok None | Some st \<Rightarrow> load_mark env i st) of
             Inr (Some mark) \<Rightarrow> (rk\<lparr>rk_marks := bt_insert i mark (rk_marks rk)\<rparr>, mark)
           | Inr None \<Rightarrow> (let mark = starting_after now log in (save_mark env i mark rk, mark))
           | Inl _ \<Rightarrow> (rk, starting_after now log)))"

definition unread ::
    "mark_env \<Rightarrow> 'x message_scheme message_kind \<Rightarrow> u64 \<Rightarrow> string \<Rightarrow> 'x message_scheme list \<Rightarrow> string \<Rightarrow> read_marks \<Rightarrow>
     read_marks \<times> unread_state" where
  "unread env kd now i log own_author rk =
     (let (rk1, mark) = mark_of env now i log rk in (rk1, mark_state kd mark own_author log))"

definition prime :: "mark_env \<Rightarrow> u64 \<Rightarrow> string \<Rightarrow> 'x message_scheme list \<Rightarrow> read_marks \<Rightarrow> read_marks" where
  "prime env now i log rk = fst (mark_of env now i log rk)"

definition mark_read ::
    "mark_env \<Rightarrow> 'x message_scheme message_kind \<Rightarrow> u64 \<Rightarrow> string \<Rightarrow> 'x message_scheme list \<Rightarrow> string \<Rightarrow> read_marks \<Rightarrow> read_marks" where
  "mark_read env kd now i log own_author rk =
     (let (rk1, mark) = mark_of env now i log rk; seen = of_nat (length (incoming kd mark own_author log))
      in if seen \<noteq> rm_seen mark then save_mark env i (mark\<lparr>rm_seen := seen\<rparr>) rk1 else rk1)"

definition forget_mark :: "string \<Rightarrow> read_marks \<Rightarrow> read_marks" where
  "forget_mark i rk = rk\<lparr>rk_marks := bt_remove i (rk_marks rk)\<rparr>"

text \<open>A restart keeps the table only.\<close>

definition restart_marks :: "read_marks \<Rightarrow> read_marks" where
  "restart_marks rk = rk\<lparr>rk_marks := []\<rparr>"

section \<open>Counting\<close>

lemma length_incoming: "length (incoming kd mark own_author log) = length (filter (can_be_unread kd (rm_floor_ms mark) own_author) log)"
  by (simp add: incoming_def)

lemma mark_of_memory: "bt_get (rk_marks (fst (mark_of env now i log rk))) i = Some (snd (mark_of env now i log rk)) \<or>
    rk_store rk \<noteq> None \<and> bt_get (rk_marks rk) i = None \<and> load_mark env i (the (rk_store rk)) = Err ()"
  by (auto simp: mark_of_def save_mark_def Let_def split: option.splits sum.splits)

lemma mark_of_known: "bt_get (rk_marks rk) i = Some mark \<Longrightarrow> mark_of env now i log rk = (rk, mark)"
  by (simp add: mark_of_def)

lemma mark_read_memory:
  assumes "bt_get (rk_marks rk) i = Some mark"
  shows "bt_get (rk_marks (mark_read env kd now i log own_author rk)) i =
    Some (mark\<lparr>rm_seen := of_nat (length (incoming kd mark own_author log))\<rparr>)"
  using assms by (auto simp: mark_read_def mark_of_known save_mark_def Let_def)

lemma count_bound: "length xs < 2 ^ 32 \<Longrightarrow> unat (of_nat (length xs) :: u32) = length xs"
  by (simp add: unat_of_nat take_bit_nat_eq_self)

abbreviation send_order :: "'x message_scheme \<Rightarrow> u64 option \<times> string option" where
  "send_order m \<equiv> (sent_at_ms m, message_id m)"

lemma sort_append_below:
  fixes xs ys :: "'a :: linorder list"
  assumes "\<And>x y. x \<in> set xs \<Longrightarrow> y \<in> set ys \<Longrightarrow> x \<le> y" and "mset zs = mset xs + mset ys"
  shows "sort zs = sort xs @ sort ys"
  by (rule properties_for_sort) (use assms in \<open>auto simp: sorted_append\<close>)

text \<open>The message at the divider, when everything seen was sent before everything new.\<close>

lemma divider_first_new:
  assumes log: "mset log' = mset log + mset new" and P: "P = can_be_unread kd (rm_floor_ms mark) own_author"
    and later: "\<And>m m'. m \<in> set log \<Longrightarrow> m' \<in> set new \<Longrightarrow> P m \<Longrightarrow> P m' \<Longrightarrow> send_order m < send_order m'"
    and some: "filter P new \<noteq> []"
  obtains m where "m \<in> set new" "P m" "\<And>m'. m' \<in> set new \<Longrightarrow> P m' \<Longrightarrow> send_order m \<le> send_order m'"
    "message_id (incoming kd mark own_author log' ! length (filter P log)) = message_id m"
    "length (filter P log) < length (incoming kd mark own_author log')"
proof -
  let ?a = "map send_order (filter P log)" and ?b = "map send_order (filter P new)"
  have mset: "mset (filter P log') = mset (filter P log) + mset (filter P new)" using log by (simp add: mset_filter)
  then have "sort (map send_order (filter P log')) = sort ?a @ sort ?b"
  proof (intro sort_append_below)
    fix x y assume "x \<in> set ?a" "y \<in> set ?b"
    then obtain m m' where "x = send_order m" "y = send_order m'" "m \<in> set log" "m' \<in> set new" "P m" "P m'" by auto
    with later [of m m'] show "x \<le> y" by (simp only: less_imp_le)
  qed simp
  moreover have "map send_order (incoming kd mark own_author log') = sort (map send_order (filter P log'))"
    by (rule properties_for_sort [symmetric]) (simp_all add: incoming_def P)
  ultimately have keys: "map send_order (incoming kd mark own_author log') = sort ?a @ sort ?b" by simp
  have b: "sort ?b \<noteq> []"
  proof
    assume "sort ?b = []"
    from arg_cong [OF this, of length] some show False by (simp only: length_sort length_map list.size length_0_conv)
  qed
  let ?k = "length (filter P log)"
  have len: "?k < length (incoming kd mark own_author log')"
    using arg_cong [OF keys, of length] some by simp
  then have at: "send_order (incoming kd mark own_author log' ! ?k) = hd (sort ?b)"
    using arg_cong [OF keys, of "\<lambda>xs. xs ! ?k"] hd_conv_nth [OF b] by (simp only: nth_map nth_append length_sort length_map) simp
  have hd: "hd (sort ?b) \<in> set ?b" using hd_in_set [OF b] by (simp only: set_sort)
  then obtain m where m: "m \<in> set new" "P m" "send_order m = hd (sort ?b)" by auto
  have "send_order m \<le> send_order m'" if "m' \<in> set new" "P m'" for m'
  proof -
    have "send_order m' \<in> set (sort ?b)" using that by simp
    moreover have "sorted (sort ?b)" by simp
    ultimately show ?thesis unfolding m(3) by (cases "sort ?b") (auto simp del: less_eq_prod_simp)
  qed
  moreover have "message_id (incoming kd mark own_author log' ! ?k) = message_id m"
    using arg_cong [OF trans [OF at m(3) [symmetric]], of snd] by simp
  ultimately show thesis using m(1,2) len by (intro that [of m]) simp_all
qed

lemma stamp_below_next:
  fixes t :: u64
  assumes "t < - 1"
  shows "t < t + 1"
proof -
  have "1 + t \<noteq> 0" using assms max_word_wrap [of t] by (auto simp: add.commute)
  from unatSuc [OF this] show ?thesis by (simp add: word_less_nat_alt add.commute)
qed

lemma fold_max_above:
  fixes x :: "'a :: linorder"
  assumes "x \<le> y \<or> x \<in> set ts"
  shows "x \<le> fold max ts y"
  using assms
proof (induction ts arbitrary: y)
  case (Cons t ts)
  have "x \<le> max t y \<or> x \<in> set ts" using Cons.prems by (auto simp: le_max_iff_disj)
  then show ?case using Cons.IH [of "max t y"] by simp
qed simp

lemma newest_stamp_above:
  assumes "newest_stamp log = Some t" and "m \<in> set log" and "sent_at_ms m = Some u"
  shows "u \<le> t"
proof -
  obtain y ts where stamps: "List.map_filter sent_at_ms log = y # ts" and t: "t = fold max ts y"
    using assms(1) by (cases "List.map_filter sent_at_ms log") (simp_all add: newest_stamp_def)
  have "u \<in> set (List.map_filter sent_at_ms log)" using assms(2,3) by (force simp: List.map_filter_def)
  then have "u \<le> y \<or> u \<in> set ts" by (auto simp: stamps)
  then show ?thesis unfolding t by (rule fold_max_above)
qed

section \<open>The table follows the memory\<close>

definition mark_law :: "mark_env \<Rightarrow> bool" where
  "mark_law env \<longleftrightarrow> (\<forall>mark. \<exists>row. me_to_json env mark = Some row \<and> me_from_json env row = Some mark)"

datatype 'm mark_event =
    PrimeMark u64 string "'m list"
  | ShowUnread u64 string "'m list" string
  | ViewConversation u64 string "'m list" string
  | ForgetMark string
  | RestartMarks

fun mark_step ::
    "mark_env \<Rightarrow> 'x message_scheme message_kind \<Rightarrow> read_marks \<Rightarrow> 'x message_scheme mark_event \<Rightarrow> read_marks" where
  "mark_step env kd rk (PrimeMark now i log) = prime env now i log rk"
| "mark_step env kd rk (ShowUnread now i log own) = fst (unread env kd now i log own rk)"
| "mark_step env kd rk (ViewConversation now i log own) = mark_read env kd now i log own rk"
| "mark_step env kd rk (ForgetMark i) = forget_mark i rk"
| "mark_step env kd rk RestartMarks = restart_marks rk"

definition marks_saved :: "mark_env \<Rightarrow> read_marks \<Rightarrow> bool" where
  "marks_saved env rk \<longleftrightarrow>
     (\<exists>st. rk_store rk = Some st \<and> \<not> mt_unreadable st \<and> \<not> mt_unwritable st \<and>
       (\<forall>i mark. bt_get (rk_marks rk) i = Some mark \<longrightarrow> load_mark env i st = Ok (Some mark)))"

lemma read_mark_key_inject [simp]: "read_mark_key env i = read_mark_key env j \<longleftrightarrow> i = j"
  by (simp add: read_mark_key_def)

lemma save_mark_saved:
  assumes "mark_law env" and "marks_saved env rk"
  shows "marks_saved env (save_mark env i mark rk)"
proof -
  obtain st where st: "rk_store rk = Some st" "\<not> mt_unreadable st" "\<not> mt_unwritable st"
      "\<And>i mark. bt_get (rk_marks rk) i = Some mark \<Longrightarrow> load_mark env i st = Ok (Some mark)"
    using assms(2) by (auto simp: marks_saved_def)
  obtain row where row: "me_to_json env mark = Some row" "me_from_json env row = Some mark"
    using assms(1) by (auto simp: mark_law_def)
  show ?thesis
    using st row by (auto simp: marks_saved_def save_mark_def put_read_mark_def load_mark_def get_read_mark_def)
qed

lemma mark_of_saved:
  assumes "mark_law env" and "marks_saved env rk"
  shows "marks_saved env (fst (mark_of env now i log rk))"
proof (cases "bt_get (rk_marks rk) i")
  case None
  obtain st where st: "rk_store rk = Some st" using assms(2) by (auto simp: marks_saved_def)
  show ?thesis
  proof (cases "load_mark env i st")
    case (Inr loaded)
    with None st assms save_mark_saved [OF assms] show ?thesis
      by (cases loaded) (auto simp: mark_of_def Let_def marks_saved_def)
  qed (use None st assms in \<open>simp add: mark_of_def\<close>)
qed (use assms in \<open>simp add: mark_of_def\<close>)

lemma mark_step_saved: "mark_law env \<Longrightarrow> marks_saved env rk \<Longrightarrow> marks_saved env (mark_step env kd rk ev)"
proof (cases ev)
  case (ForgetMark i)
  assume "marks_saved env rk"
  with ForgetMark show ?thesis by (auto simp: marks_saved_def forget_mark_def)
next
  case RestartMarks
  assume "marks_saved env rk"
  with RestartMarks show ?thesis by (auto simp: marks_saved_def restart_marks_def)
qed (auto simp: prime_def unread_def mark_read_def case_prod_unfold Let_def intro: mark_of_saved save_mark_saved)

interpretation mark_run: event_machine "mark_step env kd" "\<lambda>rk. mark_law env \<longrightarrow> marks_saved env rk" for env kd
  by unfold_locales (blast intro: mark_step_saved)

lemma mark_of_restarted:
  assumes "marks_saved env rk"
  shows "snd (mark_of env now i log (restart_marks rk)) = snd (mark_of env now i log rk)"
  using assms
  by (cases "bt_get (rk_marks rk) i") (auto simp: marks_saved_def mark_of_def restart_marks_def Let_def split: sum.splits option.splits)

section \<open>A concrete conversation\<close>

definition demo_incoming :: "string \<Rightarrow> u64 \<Rightarrow> chat_message" where
  "demo_incoming i t = (demo_message (Some i))\<lparr>from_device := ''Bob'', sent_at_ms := Some t\<rparr>"

text \<open>A mark written as zeros up to the floor, a one, and zeros up to the count.\<close>

definition demo_mark_env :: mark_env where
  "demo_mark_env =
     \<lparr>me_to_json = (\<lambda>m. Some (replicate (unat (rm_floor_ms m)) 0 @ 1 # replicate (unat (rm_seen m)) 0)),
      me_from_json = (\<lambda>b. let n = length (takeWhile (\<lambda>x. x = 0) b)
        in Some \<lparr>rm_floor_ms = of_nat n, rm_seen = of_nat (length b - n - 1)\<rparr>), me_label = ''dm''\<rparr>"

lemma demo_mark_law: "mark_law demo_mark_env"
proof -
  have "takeWhile (\<lambda>x. x = 0) (replicate n 0 @ 1 # ys) = replicate n (0 :: byte)" for n ys
    by (induction n) simp_all
  then show ?thesis by (simp add: mark_law_def demo_mark_env_def Let_def)
qed

definition demo_marks :: read_marks where
  "demo_marks = \<lparr>rk_marks = [(''c'', \<lparr>rm_floor_ms = 10, rm_seen = 0\<rparr>)],
     rk_store = Some \<lparr>mt_rows = [], mt_unreadable = False, mt_unwritable = False\<rparr>\<rparr>"

lemma demo_incoming_simps [simp]:
  "message_id (demo_incoming i t) = Some i" "sent_at_ms (demo_incoming i t) = Some t" "metadata (demo_incoming i t) = None"
  "mk_author chat_kind (demo_incoming i t) = ''Bob''" "\<not> mk_is_service chat_kind (demo_incoming i t)"
  "mk_call_id chat_kind (demo_incoming i t) = None"
  by (simp_all add: demo_incoming_def demo_message_def chat_kind_def chat_is_service_def chat_call_id_def)

lemma demo_can_be_unread: "can_be_unread chat_kind 10 ''Alice'' (demo_incoming i t) \<longleftrightarrow> 10 \<le> t"
  by (simp add: can_be_unread_def)

lemma demo_mark: "bt_get (rk_marks demo_marks) ''c'' = Some \<lparr>rm_floor_ms = 10, rm_seen = 0\<rparr>"
  by (simp add: demo_marks_def bt_get_def)

section \<open>Properties\<close>

text \<open>
  C11. What was on screen is read, and everything after it is not. After a conversation was viewed,
  take the log with further messages, wherever they arrived in it. The unread count is the number of
  the new messages that count at all: of someone else, since the floor, no service line and no call.
  Without such a message there is no divider; if all of them were sent after what was seen, the divider
  is at the first of them in send order.
\<close>

theorem viewed_then_counted:
  fixes kd :: "'x message_scheme message_kind"
  assumes "bt_get (rk_marks rk) i = Some mark" and "P = can_be_unread kd (rm_floor_ms mark) own_author"
    and "mset log' = mset log + mset new" and "length log' < 2 ^ 32"
    and "us = snd (unread env kd later_ms i log' own_author (mark_read env kd now i log own_author rk))"
  shows "unat (us_count us) = length (filter P new) \<and>
    (filter P new = [] \<longrightarrow> us_first_unread_message_id us = None) \<and>
    (filter P new \<noteq> [] \<and> (\<forall>m \<in> set log. \<forall>m' \<in> set new. P m \<and> P m' \<longrightarrow> send_order m < send_order m') \<longrightarrow>
      (\<exists>m \<in> set new. P m \<and> (\<forall>m' \<in> set new. P m' \<longrightarrow> send_order m \<le> send_order m') \<and>
        us_first_unread_message_id us = message_id m))"
proof -
  let ?mark = "mark\<lparr>rm_seen := of_nat (length (incoming kd mark own_author log))\<rparr>"
  have inc: "incoming kd ?mark own_author log' = incoming kd mark own_author log'" by (simp add: incoming_def)
  have us: "us = mark_state kd ?mark own_author log'"
    unfolding assms(5) unread_def mark_of_known [OF mark_read_memory [OF assms(1)]] by (simp add: Let_def)
  have msets: "mset (filter P log') = mset (filter P log) + mset (filter P new)" using assms(3) by (simp add: mset_filter)
  have lens: "length (incoming kd mark own_author log') = length (filter P log) + length (filter P new)"
    using arg_cong [OF msets, of size] unfolding length_incoming assms(2) by (simp only: size_mset size_union)
  have total: "length log' = length log + length new" using arg_cong [OF assms(3), of size] by simp
  have "length (filter P log) < 2 ^ 32" using assms(4) total length_filter_le [of P log] by linarith
  from count_bound [OF this] have seen: "unat (rm_seen ?mark) = length (filter P log)"
    by (simp add: length_incoming assms(2))
  have small: "length (filter P new) < 2 ^ 32" using assms(4) total length_filter_le [of P new] by linarith
  have state: "us = \<lparr>us_count = of_nat (length (filter P new)),
      us_first_unread_message_id = (if filter P new \<noteq> [] then message_id (incoming kd mark own_author log' ! length (filter P log)) else None)\<rparr>"
    using seen lens inc by (simp add: us mark_state_def Let_def)
  show ?thesis
  proof (intro conjI impI)
    show "unat (us_count us) = length (filter P new)" using count_bound [OF small] by (simp add: state)
    show "us_first_unread_message_id us = None" if "filter P new = []" using that by (simp add: state)
    assume h: "filter P new \<noteq> [] \<and> (\<forall>m \<in> set log. \<forall>m' \<in> set new. P m \<and> P m' \<longrightarrow> send_order m < send_order m')"
    then obtain m where "m \<in> set new" "P m" "\<And>m'. m' \<in> set new \<Longrightarrow> P m' \<Longrightarrow> send_order m \<le> send_order m'"
        "message_id (incoming kd mark own_author log' ! length (filter P log)) = message_id m"
      using divider_first_new [OF assms(3,2)] by metis
    with h show "\<exists>m \<in> set new. P m \<and> (\<forall>m' \<in> set new. P m' \<longrightarrow> send_order m \<le> send_order m') \<and>
        us_first_unread_message_id us = message_id m"
      by (auto simp: state)
  qed
qed

theorem viewed_then_counted_witness:
  "let us = snd (unread demo_mark_env chat_kind 50 ''c'' [demo_incoming ''n'' 30, demo_incoming ''m'' 20] ''Alice''
       (mark_read demo_mark_env chat_kind 40 ''c'' [demo_incoming ''m'' 20] ''Alice'' demo_marks))
   in unat (us_count us) = 1 \<and> us_first_unread_message_id us = Some ''n''"
proof -
  have "mset [demo_incoming ''n'' 30, demo_incoming ''m'' 20] = mset [demo_incoming ''m'' 20] + mset [demo_incoming ''n'' 30]" by simp
  from viewed_then_counted [where kd = chat_kind and own_author = "''Alice''" and env = demo_mark_env and later_ms = 50 and now = 40,
      OF demo_mark refl this _ refl]
  show ?thesis by (simp add: Let_def demo_can_be_unread less_prod_def)
qed

text \<open>
  C31. Unread messages survive a restart: after any run of taking conversations in, showing, viewing and
  forgetting them and of restarts, over a store that works, reading the marks from the store again gives
  the same unread count and divider for every conversation and every log.
\<close>

theorem unread_survives_restart:
  assumes "mark_law env" and "rk_marks rk0 = []" and "rk_store rk0 = Some st"
    and "\<not> mt_unreadable st" and "\<not> mt_unwritable st" and "rk = foldl (mark_step env kd) rk0 evs"
  shows "snd (unread env kd now i log own_author (restart_marks rk)) = snd (unread env kd now i log own_author rk)"
proof -
  have "marks_saved env rk0" using assms(2-5) by (simp add: marks_saved_def)
  then have "marks_saved env rk" using mark_run.run_inv [of env rk0 kd evs] assms(1,6) by simp
  from mark_of_restarted [OF this, of now i log] show ?thesis by (simp add: unread_def case_prod_unfold Let_def)
qed

theorem unread_survives_restart_witness:
  "snd (unread demo_mark_env chat_kind 50 ''c'' [demo_incoming ''n'' 30] ''Alice''
     (restart_marks (foldl (mark_step demo_mark_env chat_kind) (restart_marks demo_marks) [PrimeMark 20 ''c'' []]))) =
   snd (unread demo_mark_env chat_kind 50 ''c'' [demo_incoming ''n'' 30] ''Alice''
     (foldl (mark_step demo_mark_env chat_kind) (restart_marks demo_marks) [PrimeMark 20 ''c'' []]))"
  by (rule unread_survives_restart [OF demo_mark_law _ _ _ _ refl, where st = "\<lparr>mt_rows = [], mt_unreadable = False, mt_unwritable = False\<rparr>"])
     (simp_all add: demo_marks_def restart_marks_def)

text \<open>
  C34. The history a conversation starts with is read, up to the largest stamp. With a new mark no
  message of the log it was made from is unread, if all have stamps and the newest is below the largest
  number. At the largest number the floor wraps to zero, and every message of someone else that is no
  service line and no call is unread.
\<close>

theorem history_starts_read:
  fixes log :: "'x message_scheme list"
  assumes "list_all (\<lambda>m. sent_at_ms m \<noteq> None) log" and "newest_stamp log = Some t"
    and "us = mark_state kd (starting_after now log) own_author log"
  shows "(t < - 1 \<longrightarrow> us_count us = 0 \<and> us_first_unread_message_id us = None) \<and>
    (t = - 1 \<longrightarrow> us_count us = of_nat (length (filter (\<lambda>m. Option.bind (metadata m) md_is_own \<noteq> Some True \<and>
       mk_author kd m \<noteq> own_author \<and> \<not> mk_is_service kd m \<and> mk_call_id kd m = None) log)))"
proof -
  have below: "u \<le> t" if "m \<in> set log" "sent_at_ms m = Some u" for m u
    using newest_stamp_above [OF assms(2)] that .
  show ?thesis
  proof (intro conjI impI)
    assume "t < - 1"
    then have "t < t + 1" by (rule stamp_below_next)
    then have "filter (can_be_unread kd (rm_floor_ms (starting_after now log)) own_author) log = []"
      using assms(1,2) below by (force simp: filter_empty_conv can_be_unread_def starting_after_def list_all_iff)
    then have "incoming kd (starting_after now log) own_author log = []" by (simp add: incoming_def)
    then show "us_count us = 0" "us_first_unread_message_id us = None" by (simp_all add: assms(3) mark_state_def)
  next
    assume "t = - 1"
    with assms(2) have "rm_floor_ms (starting_after now log) = 0" by (simp add: starting_after_def)
    moreover have "rm_seen (starting_after now log) = 0" by (simp add: starting_after_def)
    ultimately show "us_count us = of_nat (length (filter (\<lambda>m. Option.bind (metadata m) md_is_own \<noteq> Some True \<and>
       mk_author kd m \<noteq> own_author \<and> \<not> mk_is_service kd m \<and> mk_call_id kd m = None) log))"
      by (simp add: assms(3) mark_state_def Let_def length_incoming can_be_unread_def [abs_def] split: option.split)
  qed
qed

theorem history_starts_read_witness:
  "us_count (mark_state chat_kind (starting_after 5 [demo_incoming ''m'' 20]) ''Alice'' [demo_incoming ''m'' 20]) = 0 \<and>
   us_count (mark_state chat_kind (starting_after 5 [demo_incoming ''m'' (- 1)]) ''Alice'' [demo_incoming ''m'' (- 1)]) = 1"
proof -
  have newest: "newest_stamp [demo_incoming ''m'' t] = Some t" for t by (simp add: newest_stamp_def List.map_filter_def)
  have small: "(20 :: u64) < - 1" by code_simp
  from history_starts_read [OF _ newest refl, of 20 chat_kind 5 "''Alice''"]
    history_starts_read [OF _ newest refl, of "- 1" chat_kind 5 "''Alice''"] small
  show ?thesis by simp
qed

end
