(* ===== verification/Outbound.thy ===== *)
theory Outbound
  imports Deletion_Store
begin

text \<open>
  The path of a message on its way out and back from the disk: \<open>conversation/outbound.rs\<close>, the parts of
  \<open>conversation/history.rs\<close> that save a send and replay a conversation, and the guarded rows of
  \<open>persistence/outbound.rs\<close>, \<open>outbound_guard.rs\<close> and \<open>history_erasure.rs\<close>.

  An outbox is the message log with the table of attempts. The table is a \<open>HashMap\<close>; where the code
  walks it, in an arbitrary order, the model walks it in the order of the keys. JSON and base64 are
  parameters; a row of the database is a value. The transfer of attachments and the evidence of
  recovered rows are not part of the rows here. The clock is an argument.

  The theorems: a send that was saved is found again after a restart, with what its attempt says and
  never as in progress; no deleted message leaves an attempt behind that would publish it; every
  operation on the outbox keeps the message and its attempt in step.
\<close>

section \<open>The outbox\<close>

record 'm outbound_env =
  ob_to_json :: "'m \<Rightarrow> (string, string) result"
  ob_from_json :: "string \<Rightarrow> (string, 'm) result"
  ob_encode :: "bytes \<Rightarrow> string"
  ob_decode :: "string \<Rightarrow> (string, bytes) result"

type_synonym attempts = "(string, outbound_attempt) btree_map"

record 'm outbox =
  ox_log :: "'m message_log"
  ox_attempts :: attempts

record prepared =
  pp_message_id :: string
  pp_sent_at_ms :: u64
  pp_ciphertext_bytes :: nat
  pp_retry_count :: u32
  pp_payload :: bytes

record settled =
  sd_status :: message_delivery_status
  sd_error :: "string option"

datatype on_sent = Forget | Retain

definition saturating_succ :: "u32 \<Rightarrow> u32" where
  "saturating_succ n = (if n = - 1 then n else n + 1)"

text \<open>\<open>get_mut\<close> followed by writes to the attempt it finds.\<close>

definition update_attempt :: "string \<Rightarrow> (outbound_attempt \<Rightarrow> outbound_attempt) \<Rightarrow> attempts \<Rightarrow> attempts" where
  "update_attempt i f as = (case bt_get as i of None \<Rightarrow> as | Some a \<Rightarrow> bt_insert i (f a) as)"

definition file_send ::
    "'x message_scheme outbound_env \<Rightarrow> u64 \<Rightarrow> 'x message_scheme \<Rightarrow> string \<Rightarrow> bytes \<Rightarrow> nat \<Rightarrow> message_delivery_status \<Rightarrow>
     'x message_scheme outbox \<Rightarrow> 'x message_scheme outbox \<times> (log_error, prepared) result" where
  "file_send env now m conversation payload cipher_len status ox =
     (let i = (case message_id m of None \<Rightarrow> [] | Some i \<Rightarrow> i);
          at = (case sent_at_ms m of None \<Rightarrow> now | Some t \<Rightarrow> t);
          (l, marked) = mark_delivery i status None 0 (upsert m (ox_log ox));
          ox1 = ox\<lparr>ox_log := l\<rparr>
      in case and_then marked (\<lambda>_. json_for (ob_to_json env) i l) of
           Inl e \<Rightarrow> (ox1, Err e)
         | Inr json \<Rightarrow>
             (ox1\<lparr>ox_attempts := bt_insert i
                \<lparr>at_ever_published = Some False, at_conversation_id = conversation, at_message_id = i,
                 at_sent_at_ms = at, at_ciphertext_bytes = cipher_len, at_message_json = json,
                 at_publish_payload_b64 = ob_encode env payload, at_delivery_status = status,
                 at_delivery_error = None, at_retry_count = 0, at_auto_resends = 0, at_last_send_ms = at\<rparr>
                (ox_attempts ox)\<rparr>,
              Ok \<lparr>pp_message_id = i, pp_sent_at_ms = at, pp_ciphertext_bytes = cipher_len, pp_retry_count = 0,
                pp_payload = payload\<rparr>))"

definition open_send ::
    "'x message_scheme outbound_env \<Rightarrow> u64 \<Rightarrow> 'x message_scheme \<Rightarrow> string \<Rightarrow> bytes \<Rightarrow> nat \<Rightarrow>
     'x message_scheme outbox \<Rightarrow> 'x message_scheme outbox \<times> (log_error, prepared) result" where
  "open_send env now m conversation payload cipher_len ox = file_send env now m conversation payload cipher_len Pending ox"

definition queue_send ::
    "'x message_scheme outbound_env \<Rightarrow> u64 \<Rightarrow> 'x message_scheme \<Rightarrow> string \<Rightarrow>
     'x message_scheme outbox \<Rightarrow> 'x message_scheme outbox \<times> (log_error, prepared) result" where
  "queue_send env now m conversation ox = file_send env now m conversation [] 0 Queued ox"

definition hidden_for_me :: "string \<Rightarrow> 'x message_scheme message_log \<Rightarrow> bool" where
  "hidden_for_me i l \<longleftrightarrow>
     (case Option.bind (find_message i l) deletion_of of None \<Rightarrow> False | Some d \<Rightarrow> dm_scope d = ForMe)"

definition sync_message_json ::
    "'x message_scheme outbound_env \<Rightarrow> string \<Rightarrow>
     'x message_scheme outbox \<Rightarrow> 'x message_scheme outbox \<times> (log_error, unit) result" where
  "sync_message_json env i ox =
     (if hidden_for_me i (ox_log ox) \<and>
         (case bt_get (ox_attempts ox) i of None \<Rightarrow> False | Some a \<Rightarrow> at_ever_published a \<noteq> Some False)
      then (ox, Ok ())
      else
        (case json_for (ob_to_json env) i (ox_log ox) of
           Inl e \<Rightarrow> (ox, Err e)
         | Inr json \<Rightarrow>
             (ox\<lparr>ox_attempts := update_attempt i (\<lambda>a. a\<lparr>at_message_json := json\<rparr>) (ox_attempts ox)\<rparr>, Ok ())))"

text \<open>A mark in the log followed by the copy into the attempt, the common end of the operations.\<close>

definition mark_and_sync ::
    "'x message_scheme outbound_env \<Rightarrow> string \<Rightarrow> message_delivery_status \<Rightarrow> string option \<Rightarrow> u32 \<Rightarrow>
     'x message_scheme outbox \<Rightarrow> 'x message_scheme outbox \<times> (log_error, unit) result" where
  "mark_and_sync env i status error count ox =
     (let (l, marked) = mark_delivery i status error count (ox_log ox); ox1 = ox\<lparr>ox_log := l\<rparr>
      in case marked of Inl e \<Rightarrow> (ox1, Err e) | Inr _ \<Rightarrow> sync_message_json env i ox1)"

definition reopen_as ::
    "'x message_scheme outbound_env \<Rightarrow> string \<Rightarrow> message_delivery_status \<Rightarrow>
     'x message_scheme outbox \<Rightarrow> 'x message_scheme outbox \<times> (log_error, prepared) result" where
  "reopen_as env i status ox =
     (case bt_get (ox_attempts ox) i of
        None \<Rightarrow> (ox, Err (Missing i))
      | Some a0 \<Rightarrow>
          (let a = a0\<lparr>at_retry_count := saturating_succ (at_retry_count a0), at_delivery_status := status,
                 at_delivery_error := None\<rparr>;
               ox1 = ox\<lparr>ox_attempts := bt_insert i a (ox_attempts ox)\<rparr>
           in case ob_decode env (at_publish_payload_b64 a) of
                Inl e \<Rightarrow> (ox1, Err (LogCodec e))
              | Inr payload \<Rightarrow>
                  (case mark_and_sync env i Pending None (at_retry_count a) ox1 of
                     (ox2, Inl e) \<Rightarrow> (ox2, Err e)
                   | (ox2, Inr _) \<Rightarrow>
                       (ox2, Ok \<lparr>pp_message_id = i, pp_sent_at_ms = at_sent_at_ms a,
                          pp_ciphertext_bytes = at_ciphertext_bytes a, pp_retry_count = at_retry_count a,
                          pp_payload = payload\<rparr>))))"

definition reopen ::
    "'x message_scheme outbound_env \<Rightarrow> string \<Rightarrow>
     'x message_scheme outbox \<Rightarrow> 'x message_scheme outbox \<times> (log_error, prepared) result" where
  "reopen env i ox = reopen_as env i Pending ox"

definition requeue ::
    "'x message_scheme outbound_env \<Rightarrow> string \<Rightarrow>
     'x message_scheme outbox \<Rightarrow> 'x message_scheme outbox \<times> (log_error, prepared) result" where
  "requeue env i ox = reopen_as env i Queued ox"

definition settle ::
    "'x message_scheme outbound_env \<Rightarrow> u64 \<Rightarrow> string \<Rightarrow> (string, unit) result \<Rightarrow> on_sent \<Rightarrow>
     'x message_scheme outbox \<Rightarrow> 'x message_scheme outbox \<times> (log_error, settled) result" where
  "settle env now i outcome how ox =
     (let count = (case bt_get (ox_attempts ox) i of None \<Rightarrow> 0 | Some a \<Rightarrow> at_retry_count a)
      in case outcome of
           Inr _ \<Rightarrow>
             (let (l, marked) = mark_delivery i Sent None count (ox_log ox); ox1 = ox\<lparr>ox_log := l\<rparr>
              in case marked of
                   Inl e \<Rightarrow> (ox1, Err e)
                 | Inr _ \<Rightarrow>
                     (let (ox2, synced) = (case how of
                            Forget \<Rightarrow> (ox1\<lparr>ox_attempts := bt_remove i (ox_attempts ox1)\<rparr>, Ok ())
                          | Retain \<Rightarrow>
                              sync_message_json env i (ox1\<lparr>ox_attempts := update_attempt i
                                (\<lambda>a. a\<lparr>at_ever_published := Some True, at_delivery_status := Sent, at_delivery_error := None,
                                   at_last_send_ms := now\<rparr>) (ox_attempts ox1)\<rparr>))
                      in (ox2, and_then synced (\<lambda>_. Ok \<lparr>sd_status = Sent, sd_error = None\<rparr>))))
         | Inl error \<Rightarrow>
             (let (ox2, synced) = mark_and_sync env i Failed (Some error) count
                    (ox\<lparr>ox_attempts := update_attempt i
                      (\<lambda>a. a\<lparr>at_delivery_status := Failed, at_delivery_error := Some error\<rparr>) (ox_attempts ox)\<rparr>)
              in (ox2, and_then synced (\<lambda>_. Ok \<lparr>sd_status = Failed, sd_error = Some error\<rparr>))))"

definition activate_queue ::
    "'x message_scheme outbound_env \<Rightarrow> string \<Rightarrow>
     'x message_scheme outbox \<Rightarrow> 'x message_scheme outbox \<times> (log_error, unit) result" where
  "activate_queue env i ox =
     (case bt_get (ox_attempts ox) i of
        None \<Rightarrow> (ox, Err (Missing i))
      | Some a \<Rightarrow>
          mark_and_sync env i Queued None (at_retry_count a)
            (ox\<lparr>ox_attempts := bt_insert i (a\<lparr>at_delivery_status := Queued, at_delivery_error := None\<rparr>)
               (ox_attempts ox)\<rparr>))"

text \<open>\<open>queued_in_order\<close>: by the stamp, then by the id.\<close>

definition queued_in_order :: "attempts \<Rightarrow> string list" where
  "queued_in_order as =
     map snd (sort (map (\<lambda>(i, a). (at_sent_at_ms a, i)) (filter (\<lambda>(_, a). at_delivery_status a = Queued) as)))"

section \<open>The rows of a send\<close>

definition write_history_row ::
    "('vk, 'sg, 'sk, 'x message_scheme, 't, 'z) erasure_env_scheme \<Rightarrow> 'x message_scheme message_kind \<Rightarrow> string \<Rightarrow> string \<Rightarrow>
     'x message_scheme stored_message \<Rightarrow> 'x message_scheme deletion_store \<Rightarrow> 'x message_scheme deletion_store" where
  "write_history_row env kd scope key row store =
     (if (case bt_get (st_messages store) key of None \<Rightarrow> False | Some old \<Rightarrow> is_tombstone (sm_message old)) then store
      else
        (let (store1, row1) = erase_known_target env kd scope row store
         in store1\<lparr>st_messages := bt_insert key row1 (st_messages store1)\<rparr>))"

definition cancelled_attempt ::
    "string \<Rightarrow> string \<Rightarrow> outbound_attempt \<Rightarrow> 'x message_scheme deletion_store \<Rightarrow> bool" where
  "cancelled_attempt conversation i a store \<longleftrightarrow>
     (case bt_get (st_messages store) (history_row_key conversation (at_sent_at_ms a) i) of
        None \<Rightarrow> False
      | Some row \<Rightarrow>
          (case deletion_of (sm_message row) of
             None \<Rightarrow> False
           | Some d \<Rightarrow> dm_scope d = ForEveryone \<or> at_ever_published a = Some False))"

definition write_outbound_row ::
    "string \<Rightarrow> string \<Rightarrow> string \<Rightarrow> outbound_attempt option \<Rightarrow>
     'x message_scheme deletion_store \<Rightarrow> 'x message_scheme deletion_store" where
  "write_outbound_row scope conversation i attempt store =
     (let key = outbound_attempt_key scope conversation i
      in store\<lparr>st_attempts :=
        (case attempt of
           None \<Rightarrow> bt_remove key (st_attempts store)
         | Some a \<Rightarrow>
             if cancelled_attempt conversation i a store then bt_remove key (st_attempts store)
             else bt_insert key a (st_attempts store))\<rparr>)"

definition commit_send ::
    "('vk, 'sg, 'sk, 'x message_scheme, 't, 'z) erasure_env_scheme \<Rightarrow> 'x message_scheme message_kind \<Rightarrow> string \<Rightarrow> string \<Rightarrow>
     u64 \<Rightarrow> string \<Rightarrow> 'x message_scheme stored_message \<Rightarrow> outbound_attempt option \<Rightarrow>
     'x message_scheme deletion_store \<Rightarrow> (string, 'x message_scheme deletion_store) result" where
  "commit_send env kd scope conversation sent_at i row attempt store =
     (case db_fault env of
        Some e \<Rightarrow> Err e
      | None \<Rightarrow>
          Ok (write_outbound_row scope conversation i attempt
            (write_history_row env kd scope (history_row_key conversation sent_at i) row store)))"

definition stored_row :: "string \<Rightarrow> u64 \<Rightarrow> string \<Rightarrow> 'm \<Rightarrow> attachment_manifest option \<times> attachment_manifest option \<Rightarrow> 'm stored_message" where
  "stored_row conversation sent_at i m offer =
     \<lparr>sm_conversation_id = conversation, sm_sent_at_ms = sent_at, sm_message_id = i, sm_message = m,
      sm_attachment_manifest = fst offer, sm_preview_manifest = snd offer\<rparr>"

text \<open>The result says whether the message was in the log.\<close>

definition write_send ::
    "('vk, 'sg, 'sk, 'x message_scheme, 't, 'z) erasure_env_scheme \<Rightarrow> 'x message_scheme message_kind \<Rightarrow> string \<Rightarrow> u64 \<Rightarrow>
     string \<Rightarrow> string \<Rightarrow> 'x message_scheme message_log \<Rightarrow> attempts \<Rightarrow> 'x message_scheme deletion_store \<Rightarrow>
     (string, 'x message_scheme deletion_store \<times> bool) result" where
  "write_send env kd scope now conversation i l as store =
     (case find_message i l of
        None \<Rightarrow> Ok (store, False)
      | Some m \<Rightarrow>
          (let sent_at = (case sent_at_ms m of None \<Rightarrow> now | Some t \<Rightarrow> t)
           in and_then (commit_send env kd scope conversation sent_at i
                (stored_row conversation sent_at i m (None, None)) (bt_get as i) store) (\<lambda>store1. Ok (store1, True))))"

text \<open>
  \<open>write_tail\<close>: the messages beyond the first \<open>count\<close> go down one by one, and the count with them. A
  message without an id is filed under its time and position; the result says whether any was due.
  What the transfer knows of an attachment is the argument \<open>offer\<close>.
\<close>

definition fill_in :: "string \<Rightarrow> u64 \<Rightarrow> 'x message_scheme \<Rightarrow> 'x message_scheme" where
  "fill_in i at m =
     m\<lparr>message_id := (case message_id m of None \<Rightarrow> Some i | Some j \<Rightarrow> Some j),
       sent_at_ms := (case sent_at_ms m of None \<Rightarrow> Some at | Some t \<Rightarrow> Some t)\<rparr>"

fun append_tail ::
    "('vk, 'sg, 'sk, 'x message_scheme, 't, 'z) erasure_env_scheme \<Rightarrow> 'x message_scheme message_kind \<Rightarrow> string \<Rightarrow> u64 \<Rightarrow>
     string \<Rightarrow> ('x message_scheme \<Rightarrow> attachment_manifest option \<times> attachment_manifest option) \<Rightarrow> 'x message_scheme list \<Rightarrow>
     nat \<Rightarrow> 'x message_scheme deletion_store \<Rightarrow> ('x message_scheme deletion_store \<times> nat) \<times> (string, bool) result" where
  "append_tail db kd scope now conversation offer [] count store = ((store, count), Ok True)"
| "append_tail db kd scope now conversation offer (m # ms) count store =
     (let at = (case sent_at_ms m of None \<Rightarrow> now | Some t \<Rightarrow> t);
          i = (case message_id m of Some i \<Rightarrow> i | None \<Rightarrow> dec (unat at) @ ''-'' @ dec_min 6 count)
      in case db_fault db of
           Some e \<Rightarrow> ((store, count), Err e)
         | None \<Rightarrow>
             append_tail db kd scope now conversation offer ms (Suc count)
               (write_history_row db kd scope (history_row_key conversation at i)
                 (stored_row conversation at i (fill_in i at m) (offer m)) store))"

definition write_tail ::
    "('vk, 'sg, 'sk, 'x message_scheme, 't, 'z) erasure_env_scheme \<Rightarrow> 'x message_scheme message_kind \<Rightarrow> string \<Rightarrow> u64 \<Rightarrow>
     string \<Rightarrow> ('x message_scheme \<Rightarrow> attachment_manifest option \<times> attachment_manifest option) \<Rightarrow>
     'x message_scheme message_log \<Rightarrow> nat \<Rightarrow> 'x message_scheme deletion_store \<Rightarrow>
     ('x message_scheme deletion_store \<times> nat) \<times> (string, bool) result" where
  "write_tail db kd scope now conversation offer l count store =
     (if length (log_messages l) \<le> count then ((store, count), Ok False)
      else append_tail db kd scope now conversation offer (drop count (log_messages l)) count store)"

section \<open>Replaying a conversation\<close>

definition INTERRUPTED_SEND :: string where
  "INTERRUPTED_SEND = ''app closed before the send completed''"

definition replay_row ::
    "'x message_scheme stored_message \<Rightarrow> 'x message_scheme message_log \<Rightarrow> 'x message_scheme message_log" where
  "replay_row row l = upsert (fill_in (sm_message_id row) (sm_sent_at_ms row) (sm_message row)) l"

definition interrupted :: "outbound_attempt \<Rightarrow> outbound_attempt" where
  "interrupted a =
     (if at_delivery_status a = Pending
      then a\<lparr>at_delivery_status := Failed, at_delivery_error := Some INTERRUPTED_SEND\<rparr> else a)"

definition restored_message :: "outbound_attempt \<Rightarrow> 'x message_scheme \<Rightarrow> 'x message_scheme" where
  "restored_message a m =
     set_delivery (delivery_meta (at_delivery_status a) (at_delivery_error a) (at_retry_count a))
       (fill_in (at_message_id a) (at_sent_at_ms a) m)"

definition replay_attempt ::
    "'x message_scheme outbound_env \<Rightarrow> outbound_attempt \<Rightarrow> 'x message_scheme outbox \<Rightarrow> 'x message_scheme outbox" where
  "replay_attempt env a0 ox =
     (let a = interrupted a0
      in case ob_from_json env (at_message_json a) of
           Inl _ \<Rightarrow> ox
         | Inr m \<Rightarrow>
             ox\<lparr>ox_log := upsert (restored_message a m) (ox_log ox),
                ox_attempts := bt_insert (at_message_id a) a (ox_attempts ox)\<rparr>)"

definition orphaned_meta :: message_delivery_meta where
  "orphaned_meta =
     \<lparr>dl_status = Some Failed, dl_error = Some INTERRUPTED_SEND, dl_retryable = Some False, dl_retry_count = None\<rparr>"

definition settle_orphan ::
    "string \<Rightarrow> 'x message_scheme message_log \<Rightarrow> 'x message_scheme message_log" where
  "settle_orphan i l =
     l\<lparr>revision := revision l + 1, log_messages := update_first (has_id i) (set_delivery orphaned_meta) (log_messages l)\<rparr>"

definition orphaned_sends :: "'x message_scheme message_log \<Rightarrow> attempts \<Rightarrow> string list" where
  "orphaned_sends l as =
     filter (\<lambda>i. \<not> bt_contains as i)
       (List.map_filter message_id (filter (\<lambda>m. delivery_status m = Some Pending) (log_messages l)))"

definition settle_orphaned_sends :: "'x message_scheme outbox \<Rightarrow> 'x message_scheme outbox" where
  "settle_orphaned_sends ox = ox\<lparr>ox_log := fold settle_orphan (orphaned_sends (ox_log ox) (ox_attempts ox)) (ox_log ox)\<rparr>"

definition replay ::
    "'x message_scheme outbound_env \<Rightarrow> string \<Rightarrow> string \<Rightarrow> 'x message_scheme deletion_store \<Rightarrow>
     'x message_scheme outbox \<Rightarrow> 'x message_scheme outbox" where
  "replay env scope conversation store ox =
     (let l = fold replay_row (bt_values (range_prefix conversation (st_messages store))) (ox_log ox);
          rows = bt_values (range_prefix (scope @ [CHR 0x01] @ conversation) (st_attempts store))
      in settle_orphaned_sends (fold (replay_attempt env) rows (ox\<lparr>ox_log := l\<rparr>)))"

section \<open>Runs of an outbox over its store\<close>

datatype 'm outbox_event =
    OpenSend u64 'm bytes nat
  | QueueSend u64 'm
  | ReopenSend string
  | RequeueSend string
  | SettleSend u64 string "(string, unit) result" on_sent
  | ActivateSend string
  | LogEvent "'m log_event"
  | SaveSend u64 string

text \<open>A refused write leaves the store as it was.\<close>

fun outbox_step ::
    "'x message_scheme outbound_env \<Rightarrow> ('vk, 'sg, 'sk, 'x message_scheme, 't, 'z) erasure_env_scheme \<Rightarrow>
     'x message_scheme message_kind \<Rightarrow> string \<Rightarrow> string \<Rightarrow> 'x message_scheme outbox \<times> 'x message_scheme deletion_store \<Rightarrow>
     'x message_scheme outbox_event \<Rightarrow> 'x message_scheme outbox \<times> 'x message_scheme deletion_store" where
  "outbox_step env db kd scope c (ox, store) (OpenSend now m payload n) = (fst (open_send env now m c payload n ox), store)"
| "outbox_step env db kd scope c (ox, store) (QueueSend now m) = (fst (queue_send env now m c ox), store)"
| "outbox_step env db kd scope c (ox, store) (ReopenSend i) = (fst (reopen env i ox), store)"
| "outbox_step env db kd scope c (ox, store) (RequeueSend i) = (fst (requeue env i ox), store)"
| "outbox_step env db kd scope c (ox, store) (SettleSend now i outcome how) = (fst (settle env now i outcome how ox), store)"
| "outbox_step env db kd scope c (ox, store) (ActivateSend i) = (fst (activate_queue env i ox), store)"
| "outbox_step env db kd scope c (ox, store) (LogEvent e) = (ox\<lparr>ox_log := log_step (ox_log ox) e\<rparr>, store)"
| "outbox_step env db kd scope c (ox, store) (SaveSend now i) =
     (ox, (case write_send db kd scope now c i (ox_log ox) (ox_attempts ox) store of Inl _ \<Rightarrow> store | Inr (store1, _) \<Rightarrow> store1))"

definition json_law :: "'m outbound_env \<Rightarrow> bool" where
  "json_law env \<longleftrightarrow> (\<forall>m j. ob_to_json env m = Ok j \<longrightarrow> ob_from_json env j = Ok m)"

text \<open>An attempt is the attempt of message \<open>i\<close>: it says so, and so does the copy of the message in it.\<close>

definition attempt_of :: "'x message_scheme outbound_env \<Rightarrow> string \<Rightarrow> outbound_attempt \<Rightarrow> bool" where
  "attempt_of env i a \<longleftrightarrow> at_message_id a = i \<and> (\<exists>m. ob_from_json env (at_message_json a) = Ok m \<and> message_id m = Some i)"

definition attempts_ok :: "'x message_scheme outbound_env \<Rightarrow> attempts \<Rightarrow> bool" where
  "attempts_ok env as \<longleftrightarrow> bt_wf as \<and> (\<forall>i a. bt_get as i = Some a \<longrightarrow> attempt_of env i a)"

definition attempt_rows_ok ::
    "'x message_scheme outbound_env \<Rightarrow> string \<Rightarrow> string \<Rightarrow> 'x message_scheme deletion_store \<Rightarrow> bool" where
  "attempt_rows_ok env scope c store \<longleftrightarrow> bt_wf (st_attempts store) \<and>
     (\<forall>i a. bt_get (st_attempts store) (outbound_attempt_key scope c i) = Some a \<longrightarrow> attempt_of env i a)"

definition outbox_inv ::
    "'x message_scheme outbound_env \<Rightarrow> string \<Rightarrow> string \<Rightarrow> 'x message_scheme outbox \<times> 'x message_scheme deletion_store \<Rightarrow> bool" where
  "outbox_inv env scope c = (\<lambda>(ox, store). attempts_ok env (ox_attempts ox) \<and> attempt_rows_ok env scope c store)"

subsection \<open>Every operation keeps the attempts in order\<close>

lemma json_for_attempt:
  assumes "json_law env" and "json_for (ob_to_json env) i l = Ok j"
  shows "\<exists>m. ob_from_json env j = Ok m \<and> message_id m = Some i"
proof -
  obtain m where "find_message i l = Some m" "ob_to_json env m = Ok j"
    using assms(2) by (cases "find_message i l"; cases "ob_to_json env (the (find_message i l))") (auto simp: json_for_def)
  with assms(1) find_message_has_id show ?thesis unfolding json_law_def by blast
qed

lemma bt_get_update_attempt:
  "bt_get (update_attempt i f as) k = (if k = i then map_option f (bt_get as i) else bt_get as k)"
  by (simp add: update_attempt_def split: option.split)

lemma attempts_ok_insert: "attempts_ok env as \<Longrightarrow> attempt_of env i a \<Longrightarrow> attempts_ok env (bt_insert i a as)"
  by (auto simp: attempts_ok_def intro: bt_wf_insert)

lemma attempts_ok_update:
  assumes "attempts_ok env as" and "\<And>a. attempt_of env i a \<Longrightarrow> attempt_of env i (f a)"
  shows "attempts_ok env (update_attempt i f as)"
  using assms by (auto simp: update_attempt_def attempts_ok_insert attempts_ok_def intro: bt_wf_insert split: option.split)

lemma attempts_ok_remove: "attempts_ok env as \<Longrightarrow> attempts_ok env (bt_remove i as)"
  by (auto simp: attempts_ok_def intro: bt_wf_remove split: if_splits)

lemma sync_message_json_ok:
  assumes "json_law env" and "attempts_ok env (ox_attempts ox)"
  shows "attempts_ok env (ox_attempts (fst (sync_message_json env i ox)))"
  using assms(2) json_for_attempt [OF assms(1), of i "ox_log ox"]
  by (auto simp: sync_message_json_def attempt_of_def split: sum.split intro!: attempts_ok_update)

lemma mark_and_sync_ok:
  assumes "json_law env" and "attempts_ok env (ox_attempts ox)"
  shows "attempts_ok env (ox_attempts (fst (mark_and_sync env i st e n ox)))"
  using assms(2) sync_message_json_ok [OF assms(1), of "ox\<lparr>ox_log := fst (mark_delivery i st e n (ox_log ox))\<rparr>" i]
  by (auto simp: mark_and_sync_def Let_def case_prod_unfold split: sum.split)

lemma file_send_ok:
  assumes "json_law env" and "attempts_ok env (ox_attempts ox)"
  shows "attempts_ok env (ox_attempts (fst (file_send env now m c payload n st ox)))"
  using assms(2) json_for_attempt [OF assms(1)]
  by (auto simp: file_send_def Let_def case_prod_unfold and_then_Ok_iff attempt_of_def split: sum.split
      intro!: attempts_ok_insert)

lemma reopen_as_ok:
  assumes "json_law env" and "attempts_ok env (ox_attempts ox)"
  shows "attempts_ok env (ox_attempts (fst (reopen_as env i st ox)))"
proof (cases "bt_get (ox_attempts ox) i")
  case None
  with assms(2) show ?thesis by (simp add: reopen_as_def)
next
  case (Some a0)
  let ?a = "a0\<lparr>at_retry_count := saturating_succ (at_retry_count a0), at_delivery_status := st, at_delivery_error := None\<rparr>"
  let ?ox = "ox\<lparr>ox_attempts := bt_insert i ?a (ox_attempts ox)\<rparr>"
  have ok: "attempts_ok env (ox_attempts ?ox)"
    using assms(2) Some by (auto simp: attempts_ok_def attempt_of_def intro!: bt_wf_insert)
  with mark_and_sync_ok [OF assms(1), of ?ox i Pending None "at_retry_count ?a"] Some show ?thesis
    by (auto simp: reopen_as_def Let_def split: sum.split prod.split)
qed

lemma activate_queue_ok:
  assumes "json_law env" and "attempts_ok env (ox_attempts ox)"
  shows "attempts_ok env (ox_attempts (fst (activate_queue env i ox)))"
proof (cases "bt_get (ox_attempts ox) i")
  case None
  with assms(2) show ?thesis by (simp add: activate_queue_def)
next
  case (Some a)
  with assms(2) have "attempts_ok env (bt_insert i (a\<lparr>at_delivery_status := Queued, at_delivery_error := None\<rparr>) (ox_attempts ox))"
    by (auto simp: attempts_ok_def attempt_of_def intro!: bt_wf_insert)
  with Some mark_and_sync_ok [OF assms(1)] show ?thesis by (simp add: activate_queue_def)
qed

lemma settle_ok:
  assumes "json_law env" and "attempts_ok env (ox_attempts ox)"
  shows "attempts_ok env (ox_attempts (fst (settle env now i outcome how ox)))"
proof (cases outcome)
  case (Inl e)
  have "attempts_ok env (update_attempt i (\<lambda>a. a\<lparr>at_delivery_status := Failed, at_delivery_error := Some e\<rparr>) (ox_attempts ox))"
    by (rule attempts_ok_update [OF assms(2)]) (simp add: attempt_of_def)
  with Inl mark_and_sync_ok [OF assms(1)] show ?thesis by (simp add: settle_def Let_def case_prod_unfold)
next
  case (Inr u)
  have "attempts_ok env (update_attempt i (\<lambda>a. a\<lparr>at_ever_published := Some True, at_delivery_status := Sent,
      at_delivery_error := None, at_last_send_ms := now\<rparr>) (ox_attempts ox))"
    by (rule attempts_ok_update [OF assms(2)]) (simp add: attempt_of_def)
  with Inr assms(2) sync_message_json_ok [OF assms(1)] attempts_ok_remove show ?thesis
    by (auto simp: settle_def Let_def case_prod_unfold split: sum.split on_sent.split)
qed

lemma write_history_row_attempts [simp]:
  "st_attempts (write_history_row db kd scope key row store) = st_attempts store"
  by (simp add: write_history_row_def Let_def case_prod_unfold)

lemma outbound_attempt_key_inject [simp]: "outbound_attempt_key scope c i = outbound_attempt_key scope c j \<longleftrightarrow> i = j"
  by (simp add: outbound_attempt_key_def)

lemma write_send_cases:
  assumes "write_send db kd scope now c i l as store = Ok (store1, b)"
  obtains (absent) "store1 = store" "\<not> b"
  | (written) m sent row where "find_message i l = Some m" "b" "sent = (case sent_at_ms m of None \<Rightarrow> now | Some t \<Rightarrow> t)"
      "row = stored_row c sent i m (None, None)"
      "store1 = write_outbound_row scope c i (bt_get as i) (write_history_row db kd scope (history_row_key c sent i) row store)"
  using assms by (cases "find_message i l") (auto simp: write_send_def Let_def and_then_Ok_iff commit_send_def split: option.splits)

lemma write_send_rows:
  assumes "attempts_ok env as" and "attempt_rows_ok env scope c store"
    and "write_send db kd scope now c i l as store = Ok (store1, b)"
  shows "attempt_rows_ok env scope c store1"
  using assms(3)
proof (cases rule: write_send_cases)
  case absent
  with assms(2) show ?thesis by simp
next
  case (written m sent row)
  with assms(1,2) show ?thesis
    by (auto simp: attempt_rows_ok_def write_outbound_row_def Let_def attempts_ok_def intro: bt_wf_insert bt_wf_remove
        split: option.splits if_splits)
qed

lemma outbox_step_inv:
  assumes "json_law env" and "outbox_inv env scope c s"
  shows "outbox_inv env scope c (outbox_step env db kd scope c s e)"
proof -
  obtain ox store where s: "s = (ox, store)" by fastforce
  have ok: "attempts_ok env (ox_attempts ox)" and rows: "attempt_rows_ok env scope c store"
    using assms(2) by (simp_all add: outbox_inv_def s)
  note step = file_send_ok [OF assms(1) ok] reopen_as_ok [OF assms(1) ok] settle_ok [OF assms(1) ok]
    activate_queue_ok [OF assms(1) ok]
  show ?thesis
  proof (cases e)
    case (SaveSend now i)
    with ok rows write_send_rows [OF ok rows, of db kd now i "ox_log ox"] show ?thesis
      by (auto simp: outbox_inv_def s split: sum.splits)
  qed (use ok rows step in \<open>simp_all add: outbox_inv_def s open_send_def queue_send_def reopen_def requeue_def\<close>)
qed

subsection \<open>What an operation changes\<close>

text \<open>An attempt without the copy of its message.\<close>

definition attempt_core :: "outbound_attempt \<Rightarrow> outbound_attempt" where
  "attempt_core a = a\<lparr>at_message_json := []\<rparr>"

lemma sync_message_json_log [simp]: "ox_log (fst (sync_message_json env i ox)) = ox_log ox"
  by (simp add: sync_message_json_def split: sum.split)

lemma sync_message_json_attempts:
  "map_option attempt_core (bt_get (ox_attempts (fst (sync_message_json env i ox))) k) =
   map_option attempt_core (bt_get (ox_attempts ox) k)"
  by (cases "bt_get (ox_attempts ox) i") (auto simp: sync_message_json_def bt_get_update_attempt attempt_core_def split: sum.split)

lemma mark_and_sync_attempts:
  "map_option attempt_core (bt_get (ox_attempts (fst (mark_and_sync env i st e n ox))) k) =
   map_option attempt_core (bt_get (ox_attempts ox) k)"
  by (simp add: mark_and_sync_def Let_def case_prod_unfold sync_message_json_attempts split: sum.split)

lemma mark_and_sync_ox_log: "ox_log (fst (mark_and_sync env i st e n ox)) = fst (mark_delivery i st e n (ox_log ox))"
  by (simp add: mark_and_sync_def Let_def case_prod_unfold split: sum.split)

lemma mark_and_sync_log:
  assumes "mark_and_sync env i st e n ox = (ox', Ok ())"
  shows "find_message i (ox_log ox) \<noteq> None"
    and "find_message k (ox_log ox') = (if k = i then map_option (set_delivery (delivery_meta st e n)) (find_message k (ox_log ox))
      else find_message k (ox_log ox))"
proof -
  show "find_message i (ox_log ox) \<noteq> None"
    using assms by (cases "find_message i (ox_log ox)") (auto simp: mark_and_sync_def mark_delivery_def Let_def)
  show "find_message k (ox_log ox') = (if k = i then map_option (set_delivery (delivery_meta st e n)) (find_message k (ox_log ox))
      else find_message k (ox_log ox))"
    using mark_and_sync_ox_log [of env i st e n ox] assms by (simp add: find_message_mark)
qed

section \<open>What a replay restores\<close>

definition unique_ids :: "'x message_scheme message_log \<Rightarrow> bool" where
  "unique_ids l \<longleftrightarrow> (\<forall>m \<in> set (log_messages l). message_id m \<noteq> None) \<and> distinct (map message_id (log_messages l))"

lemma update_first_unique:
  "distinct (map message_id xs) \<Longrightarrow>
   update_first (has_id i) f xs = map (\<lambda>m. if message_id m = Some i then f m else m) xs"
  by (induction xs) (auto simp: has_id_def image_iff intro!: map_idI [symmetric])

lemma find_message_unique:
  assumes "unique_ids l" and "t \<in> set (log_messages l)" and "message_id t = Some i"
  shows "find_message i l = Some t"
proof -
  have "find (has_id i) xs = Some t" if "distinct (map message_id xs)" "t \<in> set xs" for xs :: "'a message_scheme list"
    using that assms(3) by (induction xs) (auto simp: has_id_def image_iff)
  with assms(1,2) show ?thesis by (simp add: unique_ids_def find_message_def)
qed

lemma log_messages_upsert:
  assumes "unique_ids l" and "message_id m = Some i"
  shows "log_messages (upsert m l) =
    (case find_message i l of
       None \<Rightarrow> log_messages l @ [m]
     | Some t \<Rightarrow> if is_tombstone t then log_messages l
         else map (\<lambda>x. if message_id x = Some i then m else x) (log_messages l))"
  using assms update_first_unique [of "log_messages l" i "\<lambda>_. m"]
  by (simp add: upsert_def Let_def unique_ids_def split: option.split)

lemma find_message_None_iff: "find_message i l = None \<longleftrightarrow> (\<forall>t \<in> set (log_messages l). message_id t \<noteq> Some i)"
  by (auto simp: find_message_def find_None_iff has_id_def)

lemma upsert_unique:
  assumes "unique_ids l" and "message_id m = Some i"
  shows "unique_ids (upsert m l)"
proof -
  have "map message_id (map (\<lambda>x. if message_id x = Some i then m else x) xs) = map message_id xs" for xs
    using assms(2) by auto
  with assms show ?thesis
    unfolding unique_ids_def log_messages_upsert [OF assms]
    by (auto simp: find_message_None_iff [of i l] simp del: map_map split: option.split)
qed

lemma set_upsert:
  assumes "unique_ids l" and "message_id m = Some i" and "t \<in> set (log_messages (upsert m l))"
  shows "t = m \<or> t \<in> set (log_messages l) \<and> (message_id t \<noteq> Some i \<or> is_tombstone t)"
proof (cases "find_message i l")
  case None
  with assms show ?thesis by (auto simp: log_messages_upsert find_message_None_iff)
next
  case (Some e)
  with assms find_message_unique [OF assms(1)] show ?thesis
    by (fastforce simp: log_messages_upsert split: if_splits)
qed

lemma replay_row_unique: "unique_ids l \<Longrightarrow> unique_ids (replay_row row l)"
  unfolding replay_row_def
  by (rule upsert_unique [where i = "case message_id (sm_message row) of None \<Rightarrow> sm_message_id row | Some j \<Rightarrow> j"])
    (simp_all add: fill_in_def split: option.split)

lemma fold_replay_row_unique: "unique_ids l \<Longrightarrow> unique_ids (fold replay_row rows l)"
  by (induction rows arbitrary: l) (simp_all add: replay_row_unique)

lemma interrupted_simps [simp]:
  "at_message_id (interrupted a) = at_message_id a" "at_message_json (interrupted a) = at_message_json a"
  "at_sent_at_ms (interrupted a) = at_sent_at_ms a" "at_delivery_status (interrupted a) \<noteq> Pending"
  "Pending \<noteq> at_delivery_status (interrupted a)"
  by (simp_all add: interrupted_def)

lemma restored_message_simps:
  assumes "message_id m = Some i"
  shows "message_id (restored_message a m) = Some i"
    and "delivery_status (restored_message a m) = Some (at_delivery_status a)"
    and "body (restored_message a m) = body m"
  using assms by (simp_all add: restored_message_def set_delivery_def fill_in_def delivery_meta_def)

text \<open>While attempts are replayed: no attempt is in progress, nor is a message that has an attempt.\<close>

definition half_settled :: "'x message_scheme outbox \<Rightarrow> bool" where
  "half_settled ox \<longleftrightarrow> unique_ids (ox_log ox) \<and> (\<forall>i a. bt_get (ox_attempts ox) i = Some a \<longrightarrow> at_delivery_status a \<noteq> Pending) \<and>
     (\<forall>t \<in> set (log_messages (ox_log ox)). is_tombstone t \<or> delivery_status t \<noteq> Some Pending \<or>
        bt_get (ox_attempts ox) (the (message_id t)) = None)"

lemma replay_attempt_half_settled:
  assumes "attempt_of env i a" and "half_settled ox"
  shows "half_settled (replay_attempt env a ox)"
proof -
  obtain m where m: "ob_from_json env (at_message_json a) = Ok m" "message_id m = Some i" and i: "at_message_id a = i"
    using assms(1) by (auto simp: attempt_of_def)
  let ?a = "interrupted a" and ?m = "restored_message (interrupted a) m"
  have ox: "replay_attempt env a ox = ox\<lparr>ox_log := upsert ?m (ox_log ox), ox_attempts := bt_insert i ?a (ox_attempts ox)\<rparr>"
    by (simp add: replay_attempt_def Let_def m i)
  note r = restored_message_simps [OF m(2), of ?a]
  have u: "unique_ids (ox_log ox)" using assms(2) by (simp add: half_settled_def)
  have "is_tombstone t \<or> delivery_status t \<noteq> Some Pending \<or> bt_get (bt_insert i ?a (ox_attempts ox)) (the (message_id t)) = None"
    if "t \<in> set (log_messages (upsert ?m (ox_log ox)))" for t
    using set_upsert [OF u r(1) that] assms(2) u r by (auto simp: half_settled_def unique_ids_def)
  then show ?thesis
    using assms(2) upsert_unique [OF u r(1)] by (auto simp: ox half_settled_def)
qed

lemma fold_replay_half_settled:
  assumes "\<forall>a \<in> set rows. \<exists>i. attempt_of env i a" and "half_settled ox"
  shows "half_settled (fold (replay_attempt env) rows ox)"
  using assms by (induction rows arbitrary: ox) (auto intro: replay_attempt_half_settled)

lemma settle_orphan_messages:
  assumes "unique_ids l"
  shows "log_messages (settle_orphan i l) =
      map (\<lambda>m. if message_id m = Some i then set_delivery orphaned_meta m else m) (log_messages l)"
    and "unique_ids (settle_orphan i l)"
proof -
  show msgs: "log_messages (settle_orphan i l) =
      map (\<lambda>m. if message_id m = Some i then set_delivery orphaned_meta m else m) (log_messages l)"
    using assms update_first_unique by (auto simp: settle_orphan_def unique_ids_def)
  have "map message_id (log_messages (settle_orphan i l)) = map message_id (log_messages l)"
    unfolding msgs by (auto simp: set_delivery_def)
  then show "unique_ids (settle_orphan i l)"
    using assms unfolding unique_ids_def by (metis in_set_conv_nth length_map nth_map)
qed

lemma set_delivery_idem [simp]: "set_delivery d (set_delivery d m) = set_delivery d m"
  by (simp add: set_delivery_def)

lemma fold_settle_orphans:
  assumes "unique_ids l"
  shows "log_messages (fold settle_orphan is l) =
    map (\<lambda>m. if \<exists>i \<in> set is. message_id m = Some i then set_delivery orphaned_meta m else m) (log_messages l)"
  using assms
proof (induction "is" arbitrary: l)
  case (Cons i "is")
  have "message_id (set_delivery orphaned_meta m) = message_id m" for m :: "'a message_scheme"
    by (simp add: set_delivery_def)
  with Cons settle_orphan_messages [OF Cons.prems] show ?case by (auto simp: comp_def)
qed simp

lemma settled_after_orphans:
  assumes "half_settled ox" and "t \<in> set (log_messages (ox_log (settle_orphaned_sends ox)))"
  shows "is_tombstone t \<or> delivery_status t \<noteq> Some Pending"
proof -
  let ?is = "orphaned_sends (ox_log ox) (ox_attempts ox)"
  obtain m where m: "m \<in> set (log_messages (ox_log ox))"
      "t = (if \<exists>i \<in> set ?is. message_id m = Some i then set_delivery orphaned_meta m else m)"
    using assms fold_settle_orphans [of "ox_log ox" ?is] by (auto simp: settle_orphaned_sends_def half_settled_def)
  show ?thesis
  proof (cases "\<exists>i \<in> set ?is. message_id m = Some i")
    case True
    with m(2) show ?thesis by (auto simp: set_delivery_def orphaned_meta_def)
  next
    case False
    obtain i where i: "message_id m = Some i" using assms(1) m(1) by (auto simp: half_settled_def unique_ids_def)
    have "i \<notin> set ?is" using False i by auto
    then have "delivery_status m \<noteq> Some Pending \<or> bt_get (ox_attempts ox) i \<noteq> None"
      using m(1) i by (force simp: orphaned_sends_def List.map_filter_def bt_contains_def image_iff)
    with assms(1) m(1) i False m(2) show ?thesis by (fastforce simp: half_settled_def)
  qed
qed

text \<open>The rows of a conversation's attempts, looked up by message.\<close>

lemma find_unique: "(\<And>x. x \<in> set xs \<and> P x \<longleftrightarrow> r = Some x) \<Longrightarrow> find P xs = r"
  by (cases "find P xs") (metis find_None_iff not_Some_eq, metis find_SomeD)

lemma attempt_rows:
  assumes "attempt_rows_ok env scope c store"
  defines "rows \<equiv> bt_values (range_prefix (scope @ [CHR 0x01] @ c) (st_attempts store))"
  shows "a \<in> set rows \<longleftrightarrow> bt_get (st_attempts store) (outbound_attempt_key scope c (at_message_id a)) = Some a"
    and "\<forall>a \<in> set rows. attempt_of env (at_message_id a) a" and "distinct (map at_message_id rows)"
    and "find (\<lambda>a. at_message_id a = i) rows = bt_get (st_attempts store) (outbound_attempt_key scope c i)"
proof -
  let ?range = "range_prefix (scope @ [CHR 0x01] @ c) (st_attempts store)"
  have wf: "bt_wf (st_attempts store)" using assms(1) by (simp add: attempt_rows_ok_def)
  have entry: "(k, a) \<in> set ?range \<longleftrightarrow>
      k = outbound_attempt_key scope c (at_message_id a) \<and> bt_get (st_attempts store) k = Some a" for k a
    using assms(1) bt_get_eq_Some_iff [OF wf]
    by (auto simp: set_range_prefix outbound_attempt_key_def attempt_rows_ok_def attempt_of_def)
  show mem: "a \<in> set rows \<longleftrightarrow> bt_get (st_attempts store) (outbound_attempt_key scope c (at_message_id a)) = Some a" for a
  proof -
    have "a \<in> set rows \<longleftrightarrow> (\<exists>k. (k, a) \<in> set ?range)" by (force simp: rows_def bt_values_def)
    then show ?thesis by (simp only: entry) simp
  qed
  then show "\<forall>a \<in> set rows. attempt_of env (at_message_id a) a"
    using assms(1) by (auto simp: attempt_rows_ok_def)
  have "map (outbound_attempt_key scope c) (map at_message_id rows) = map fst ?range"
    unfolding rows_def bt_values_def using entry by (auto simp: comp_def)
  moreover have "distinct (map fst ?range)" using wf by (auto simp: range_prefix_def bt_wf_distinct bt_wf_filter)
  ultimately show "distinct (map at_message_id rows)" by (metis distinct_map)
  show "find (\<lambda>a. at_message_id a = i) rows = bt_get (st_attempts store) (outbound_attempt_key scope c i)"
    using mem assms(1) by (intro find_unique) (auto simp: attempt_rows_ok_def attempt_of_def)
qed

lemma replay_attempt_one:
  assumes "attempt_of env (at_message_id a) a"
  obtains m where "ob_from_json env (at_message_json a) = Ok m" "message_id m = Some (at_message_id a)"
    "replay_attempt env a ox = ox\<lparr>ox_log := upsert (restored_message (interrupted a) m) (ox_log ox),
       ox_attempts := bt_insert (at_message_id a) (interrupted a) (ox_attempts ox)\<rparr>"
  using assms by (auto simp: attempt_of_def replay_attempt_def Let_def)

lemma fold_replay_attempts:
  assumes "\<forall>a \<in> set rows. attempt_of env (at_message_id a) a" and "distinct (map at_message_id rows)"
  shows "bt_get (ox_attempts (fold (replay_attempt env) rows ox)) i =
      (case find (\<lambda>a. at_message_id a = i) rows of None \<Rightarrow> bt_get (ox_attempts ox) i | Some a \<Rightarrow> Some (interrupted a))"
  using assms
proof (induction rows arbitrary: ox)
  case (Cons a rows)
  obtain m where "replay_attempt env a ox = ox\<lparr>ox_log := upsert (restored_message (interrupted a) m) (ox_log ox),
      ox_attempts := bt_insert (at_message_id a) (interrupted a) (ox_attempts ox)\<rparr>"
    using Cons.prems(1) replay_attempt_one [of env a ox] by auto
  moreover have "find (\<lambda>b. at_message_id b = at_message_id a) rows = None"
    using Cons.prems(2) by (auto simp: find_None_iff image_iff)
  ultimately show ?case using Cons by (auto split: option.split)
qed simp

lemma fold_replay_message:
  assumes "\<forall>a \<in> set rows. attempt_of env (at_message_id a) a" and "distinct (map at_message_id rows)"
    and "find (\<lambda>a. at_message_id a = i) rows = Some a"
  shows "\<exists>t. find_message i (ox_log (fold (replay_attempt env) rows ox)) = Some t \<and>
    (is_tombstone t \<or> (\<exists>m. ob_from_json env (at_message_json a) = Ok m \<and> t = restored_message (interrupted a) m))"
proof -
  have other: "find_message i (ox_log (fold (replay_attempt env) bs ox)) = find_message i (ox_log ox)"
    if "\<forall>b \<in> set bs. attempt_of env (at_message_id b) b" "find (\<lambda>a. at_message_id a = i) bs = None" for bs ox
    using that
  proof (induction bs arbitrary: ox)
    case (Cons b bs)
    then have "attempt_of env (at_message_id b) b" by simp
    from replay_attempt_one [OF this, of ox] obtain m where m: "message_id m = Some (at_message_id b)"
      "replay_attempt env b ox = ox\<lparr>ox_log := upsert (restored_message (interrupted b) m) (ox_log ox),
         ox_attempts := bt_insert (at_message_id b) (interrupted b) (ox_attempts ox)\<rparr>" by blast
    with Cons find_message_upsert [OF restored_message_simps(1) [OF m(1)]] show ?case
      by (auto split: if_splits)
  qed simp
  show ?thesis
    using assms
  proof (induction rows arbitrary: ox)
    case (Cons b rows)
    then have "attempt_of env (at_message_id b) b" by simp
    from replay_attempt_one [OF this, of ox] obtain m
      where m: "ob_from_json env (at_message_json b) = Ok m" "message_id m = Some (at_message_id b)"
        and b: "replay_attempt env b ox = ox\<lparr>ox_log := upsert (restored_message (interrupted b) m) (ox_log ox),
          ox_attempts := bt_insert (at_message_id b) (interrupted b) (ox_attempts ox)\<rparr>" by blast
    show ?case
    proof (cases "at_message_id b = i")
      case True
      then have "a = b" using Cons.prems(3) by simp
      moreover have "find (\<lambda>a. at_message_id a = i) rows = None"
        using Cons.prems(2) True by (auto simp: find_None_iff image_iff)
      ultimately show ?thesis
        using other [of rows "replay_attempt env b ox"] Cons.prems(1) True m
          find_message_upsert [OF restored_message_simps(1) [OF m(2), of "interrupted b"], of i "ox_log ox"]
        by (auto simp: b split: option.split)
    next
      case False
      with Cons show ?thesis by simp
    qed
  qed simp
qed

lemma find_message_settle_orphans:
  "i \<notin> set is \<Longrightarrow> find_message i (fold settle_orphan is l) = find_message i l"
proof (induction "is" arbitrary: l)
  case (Cons j "is")
  have "find (has_id i) (update_first (has_id j) (set_delivery orphaned_meta) (log_messages l)) = find (has_id i) (log_messages l)"
    using Cons.prems by (intro find_update_first_other) (auto simp: has_id_def set_delivery_def)
  then have "find_message i (settle_orphan j l) = find_message i l"
    by (simp add: settle_orphan_def find_message_def)
  with Cons show ?case by simp
qed simp

lemma replay_lookup:
  assumes "attempt_rows_ok env scope c store" and "ox_attempts ox = []"
  shows "bt_get (ox_attempts (replay env scope c store ox)) i =
      map_option interrupted (bt_get (st_attempts store) (outbound_attempt_key scope c i))"
    and "bt_get (st_attempts store) (outbound_attempt_key scope c i) = Some a \<Longrightarrow>
      \<exists>t. find_message i (ox_log (replay env scope c store ox)) = Some t \<and>
        (is_tombstone t \<or> (\<exists>m. ob_from_json env (at_message_json a) = Ok m \<and> t = restored_message (interrupted a) m))"
proof -
  let ?l = "fold replay_row (bt_values (range_prefix c (st_messages store))) (ox_log ox)"
  let ?rows = "bt_values (range_prefix (scope @ [CHR 0x01] @ c) (st_attempts store))"
  let ?ox = "fold (replay_attempt env) ?rows (ox\<lparr>ox_log := ?l\<rparr>)"
  have unfold: "replay env scope c store ox = settle_orphaned_sends ?ox" by (simp add: replay_def Let_def)
  note rows = attempt_rows [OF assms(1)]
  have get: "bt_get (ox_attempts ?ox) i =
      map_option interrupted (bt_get (st_attempts store) (outbound_attempt_key scope c i))"
    using fold_replay_attempts [OF rows(2,3), of "ox\<lparr>ox_log := ?l\<rparr>" i] assms(2) rows(4) [of i]
    by (simp split: option.split)
  then show "bt_get (ox_attempts (replay env scope c store ox)) i =
      map_option interrupted (bt_get (st_attempts store) (outbound_attempt_key scope c i))"
    by (simp add: unfold settle_orphaned_sends_def)
  assume a: "bt_get (st_attempts store) (outbound_attempt_key scope c i) = Some a"
  with get have "i \<notin> set (orphaned_sends (ox_log ?ox) (ox_attempts ?ox))"
    by (auto simp: orphaned_sends_def bt_contains_def)
  then have "find_message i (ox_log (replay env scope c store ox)) = find_message i (ox_log ?ox)"
    by (simp add: unfold settle_orphaned_sends_def find_message_settle_orphans)
  with fold_replay_message [OF rows(2,3), of i a "ox\<lparr>ox_log := ?l\<rparr>"] rows(4) [of i] a
  show "\<exists>t. find_message i (ox_log (replay env scope c store ox)) = Some t \<and>
      (is_tombstone t \<or> (\<exists>m. ob_from_json env (at_message_json a) = Ok m \<and> t = restored_message (interrupted a) m))"
    by simp
qed

interpretation outbox_run: event_machine "outbox_step env db kd scope c" "\<lambda>s. json_law env \<longrightarrow> outbox_inv env scope c s"
  for env db kd scope c
  by unfold_locales (blast intro: outbox_step_inv)

abbreviation empty_outbox :: "'m outbox" where
  "empty_outbox \<equiv> \<lparr>ox_log = new_log, ox_attempts = []\<rparr>"

lemma run_inv_from_empty:
  assumes "json_law env" and "attempt_rows_ok env scope c store0"
    and "foldl (outbox_step env db kd scope c) (empty_outbox, store0) es = (ox, store)"
  shows "attempts_ok env (ox_attempts ox)" and "attempt_rows_ok env scope c store"
proof -
  have "outbox_inv env scope c (empty_outbox, store0)"
    using assms(2) by (simp add: outbox_inv_def attempts_ok_def)
  then have "outbox_inv env scope c (ox, store)"
    using outbox_run.run_inv [of env scope c "(empty_outbox, store0)" db kd es] assms(1,3) by simp
  then show "attempts_ok env (ox_attempts ox)" and "attempt_rows_ok env scope c store"
    by (simp_all add: outbox_inv_def)
qed

section \<open>A concrete outbox\<close>

definition demo_filed :: chat_message where
  "demo_filed = set_delivery (delivery_meta Pending None 0) (demo_message (Some ''m1''))"

definition demo_outbound_env :: "chat_message outbound_env" where
  "demo_outbound_env =
     \<lparr>ob_to_json = (\<lambda>m. if m = demo_filed then Ok ''filed'' else Err ''json''),
      ob_from_json = (\<lambda>j. if j = ''filed'' then Ok demo_filed else Err ''json''),
      ob_encode = map (\<lambda>b. char_of (unat b)), ob_decode = (\<lambda>s. Ok (map (\<lambda>c. of_char c) s))\<rparr>"

definition demo_attempt :: outbound_attempt where
  "demo_attempt =
     \<lparr>at_ever_published = Some False, at_conversation_id = ''c'', at_message_id = ''m1'', at_sent_at_ms = 5,
      at_ciphertext_bytes = 0, at_message_json = ''filed'', at_publish_payload_b64 = [], at_delivery_status = Pending,
      at_delivery_error = None, at_retry_count = 0, at_auto_resends = 0, at_last_send_ms = 5\<rparr>"

definition demo_outbox :: "chat_message outbox" where
  "demo_outbox = fst (open_send demo_outbound_env 5 (demo_message (Some ''m1'')) ''c'' [] 0 empty_outbox)"

lemma demo_outbox_fields:
  "log_messages (ox_log demo_outbox) = [demo_filed]" "ox_attempts demo_outbox = [(''m1'', demo_attempt)]"
proof -
  have up: "upsert (demo_message (Some ''m1'')) new_log = new_log\<lparr>revision := 1, log_messages := [demo_message (Some ''m1'')]\<rparr>"
    by (simp add: upsert_def Let_def remember_erasure_def deletion_of_def demo_message_def new_log_def find_message_def)
  have mark: "mark_delivery ''m1'' Pending None 0 (new_log\<lparr>revision := 1, log_messages := [demo_message (Some ''m1'')]\<rparr>) =
      (new_log\<lparr>revision := 1 + 1, log_messages := [demo_filed]\<rparr>, Ok ())"
    by (simp add: mark_delivery_def Let_def find_message_def has_id_def demo_filed_def demo_message_def)
  have json: "json_for (ob_to_json demo_outbound_env) ''m1'' (new_log\<lparr>revision := 1 + 1, log_messages := [demo_filed]\<rparr>) = Ok ''filed''"
    by (simp add: json_for_def find_message_def has_id_def demo_outbound_env_def)
      (simp add: demo_filed_def demo_message_def set_delivery_def)
  show "log_messages (ox_log demo_outbox) = [demo_filed]" "ox_attempts demo_outbox = [(''m1'', demo_attempt)]"
    using up mark json
    by (simp_all add: demo_outbox_def open_send_def file_send_def Let_def demo_message_def demo_attempt_def demo_outbound_env_def)
qed

lemma demo_json_law_outbound: "json_law demo_outbound_env"
  by (simp add: json_law_def demo_outbound_env_def)

lemma no_deletion_passes:
  "st_targets store = [] \<Longrightarrow> erase_known_target env kd scope row store = (store, row)"
  by (simp add: erase_known_target_def Let_def matching_deletion_def deletion_target_records_def range_prefix_def
      List.map_filter_def split: option.split)

lemma demo_rows_ok: "attempt_rows_ok env scope c demo_store"
  by (simp add: attempt_rows_ok_def demo_store_def)

lemma demo_saved:
  "\<exists>store'. write_send (demo_erasure_env None) chat_kind ''private_dm'' 5 ''c'' ''m1'' (ox_log demo_outbox) (ox_attempts demo_outbox)
     demo_store = Ok (store', True) \<and> \<not> cancelled_attempt ''c'' ''m1'' demo_attempt store'"
  by (simp add: write_send_def find_message_def demo_outbox_fields has_id_def commit_send_def write_outbound_row_def Let_def
      write_history_row_def no_deletion_passes demo_store_def bt_get_def cancelled_attempt_def)
    (simp add: demo_filed_def set_delivery_def demo_message_def deletion_of_def stored_row_def)

section \<open>Properties\<close>

text \<open>
  C9. A saved send survives a restart. Take any run of the outbox from an empty one over a store whose
  attempt rows belong to their messages, and save the send of a message that has an attempt. The replay
  after a restart has no attempt for it if the saved row is deleted for everyone, or for oneself before
  it was published; otherwise it has the attempt as saved, one in progress turned into a retryable
  failure, and the message is in the log with the delivery state of that attempt, or deleted.
\<close>

theorem saved_send_restored:
  assumes "json_law env" and "attempt_rows_ok env scope c store0"
    and "foldl (outbox_step env db kd scope c) (empty_outbox, store0) es = (ox, store)"
    and "bt_get (ox_attempts ox) i = Some a"
    and "write_send db kd scope now c i (ox_log ox) (ox_attempts ox) store = Ok (store', True)"
  shows "let restored = replay env scope c store' empty_outbox in
    if cancelled_attempt c i a store' then bt_get (ox_attempts restored) i = None
    else bt_get (ox_attempts restored) i = Some (interrupted a) \<and>
      (\<exists>t. find_message i (ox_log restored) = Some t \<and>
        (is_tombstone t \<or> (\<exists>copy. ob_from_json env (at_message_json a) = Ok copy \<and>
           t = restored_message (interrupted a) copy)))"
proof -
  note inv = run_inv_from_empty [OF assms(1-3)]
  have rows: "attempt_rows_ok env scope c store'" by (rule write_send_rows [OF inv assms(5)])
  have saved: "bt_get (st_attempts store') (outbound_attempt_key scope c i) =
      (if cancelled_attempt c i a store' then None else Some a)"
    using assms(5)
  proof (cases rule: write_send_cases)
    case (written m sent row)
    with assms(4) show ?thesis
      by (auto simp: write_outbound_row_def Let_def cancelled_attempt_def split: option.splits)
  qed simp
  show ?thesis
    using replay_lookup [OF rows, of empty_outbox i] saved by (auto simp: Let_def)
qed

theorem saved_send_restored_witness:
  "\<exists>store'. write_send (demo_erasure_env None) chat_kind ''private_dm'' 5 ''c'' ''m1'' (ox_log demo_outbox)
       (ox_attempts demo_outbox) demo_store = Ok (store', True) \<and>
     (let restored = replay demo_outbound_env ''private_dm'' ''c'' store' empty_outbox
      in map_option at_delivery_status (bt_get (ox_attempts restored) ''m1'') = Some Failed \<and>
         find_message ''m1'' (ox_log restored) \<noteq> None)"
proof -
  obtain store' where store': "write_send (demo_erasure_env None) chat_kind ''private_dm'' 5 ''c'' ''m1'' (ox_log demo_outbox)
      (ox_attempts demo_outbox) demo_store = Ok (store', True)" "\<not> cancelled_attempt ''c'' ''m1'' demo_attempt store'"
    using demo_saved by blast
  have run: "foldl (outbox_step demo_outbound_env (demo_erasure_env None) chat_kind ''private_dm'' ''c'')
      (empty_outbox, demo_store) [OpenSend 5 (demo_message (Some ''m1'')) [] 0] = (demo_outbox, demo_store)"
    by (simp add: demo_outbox_def)
  have "bt_get (ox_attempts demo_outbox) ''m1'' = Some demo_attempt" by (simp add: demo_outbox_fields bt_get_def)
  from saved_send_restored [OF demo_json_law_outbound demo_rows_ok run this store'(1)] store'
  show ?thesis by (auto simp: Let_def interrupted_def demo_attempt_def)
qed

text \<open>
  C19. After a restart nothing is still being sent: whatever run of the outbox came before, in the log
  that the replay rebuilds no message is in progress unless it was deleted, no attempt is, and every
  message has an id of its own.
\<close>

theorem restart_settles_sends:
  assumes "json_law env" and "attempt_rows_ok env scope c store0"
    and "foldl (outbox_step env db kd scope c) (empty_outbox, store0) es = (ox, store)"
    and "replay env scope c store empty_outbox = restored"
  shows "distinct (map message_id (log_messages (ox_log restored))) \<and>
    (\<forall>t \<in> set (log_messages (ox_log restored)). is_tombstone t \<or> delivery_status t \<noteq> Some Pending) \<and>
    (\<forall>i a. bt_get (ox_attempts restored) i = Some a \<longrightarrow> at_delivery_status a \<noteq> Pending)"
proof -
  note rows = run_inv_from_empty(2) [OF assms(1-3)]
  let ?l = "fold replay_row (bt_values (range_prefix c (st_messages store))) (new_log :: 'a message_scheme message_log)"
  let ?ox = "fold (replay_attempt env) (bt_values (range_prefix (scope @ [CHR 0x01] @ c) (st_attempts store)))
      \<lparr>ox_log = ?l, ox_attempts = []\<rparr>"
  have restored: "restored = settle_orphaned_sends ?ox" using assms(4) by (simp add: replay_def Let_def)
  have "unique_ids ?l" by (rule fold_replay_row_unique) (simp add: unique_ids_def new_log_def)
  then have half: "half_settled ?ox"
    using attempt_rows(2) [OF rows] by (intro fold_replay_half_settled) (auto simp: half_settled_def)
  have "map message_id (log_messages (ox_log restored)) = map message_id (log_messages (ox_log ?ox))"
    using fold_settle_orphans [of "ox_log ?ox"] half
    by (auto simp: restored settle_orphaned_sends_def half_settled_def set_delivery_def)
  moreover have "\<forall>i a. bt_get (ox_attempts restored) i = Some a \<longrightarrow> at_delivery_status a \<noteq> Pending"
    using half by (simp add: restored settle_orphaned_sends_def half_settled_def)
  ultimately show ?thesis
    using half settled_after_orphans [OF half] by (auto simp: restored half_settled_def unique_ids_def)
qed

theorem restart_settles_sends_witness:
  "\<exists>store' t. write_send (demo_erasure_env None) chat_kind ''private_dm'' 5 ''c'' ''m1'' (ox_log demo_outbox)
       (ox_attempts demo_outbox) demo_store = Ok (store', True) \<and>
     find_message ''m1'' (ox_log (replay demo_outbound_env ''private_dm'' ''c'' store' empty_outbox)) = Some t \<and>
     (is_tombstone t \<or> delivery_status t \<noteq> Some Pending)"
proof -
  obtain store' where store': "write_send (demo_erasure_env None) chat_kind ''private_dm'' 5 ''c'' ''m1'' (ox_log demo_outbox)
      (ox_attempts demo_outbox) demo_store = Ok (store', True)" "\<not> cancelled_attempt ''c'' ''m1'' demo_attempt store'"
    using demo_saved by blast
  let ?r = "replay demo_outbound_env ''private_dm'' ''c'' store' empty_outbox"
  have run: "foldl (outbox_step demo_outbound_env (demo_erasure_env None) chat_kind ''private_dm'' ''c'')
      (empty_outbox, demo_store) [OpenSend 5 (demo_message (Some ''m1'')) [] 0, SaveSend 5 ''m1''] = (demo_outbox, store')"
    using store'(1) by (simp add: demo_outbox_def)
  have get: "bt_get (ox_attempts demo_outbox) ''m1'' = Some demo_attempt" by (simp add: demo_outbox_fields bt_get_def)
  have "bt_get (st_attempts store') (outbound_attempt_key ''private_dm'' ''c'' ''m1'') = Some demo_attempt"
    using store'(1)
  proof (cases rule: write_send_cases)
    case (written m sent row)
    with get store'(2) show ?thesis
      by (auto simp: write_outbound_row_def Let_def cancelled_attempt_def split: option.splits)
  qed simp
  then obtain t where t: "find_message ''m1'' (ox_log ?r) = Some t"
    using replay_lookup(2) [OF run_inv_from_empty(2) [OF demo_json_law_outbound demo_rows_ok run], of empty_outbox "''m1''"] by auto
  then have "t \<in> set (log_messages (ox_log ?r))" by (auto simp: find_message_def dest: find_SomeD)
  with restart_settles_sends [OF demo_json_law_outbound demo_rows_ok run refl] t store'(1) show ?thesis by auto
qed

text \<open>What \<open>requeue\<close> leaves behind: the attempt waits in the queue, the message in the log is in progress.\<close>

lemma requeue_leaves_pending:
  assumes "requeue env i ox = (ox', Ok p)"
  shows "map_option at_delivery_status (bt_get (ox_attempts ox') i) = Some Queued"
    and "Option.bind (find_message i (ox_log ox')) delivery_status = Some Pending"
proof -
  obtain a0 payload where a0: "bt_get (ox_attempts ox) i = Some a0" "ob_decode env (at_publish_payload_b64 a0) = Ok payload"
    using assms by (auto simp: requeue_def reopen_as_def Let_def split: option.splits sum.splits)
  let ?a = "a0\<lparr>at_retry_count := saturating_succ (at_retry_count a0), at_delivery_status := Queued, at_delivery_error := None\<rparr>"
  let ?ox = "ox\<lparr>ox_attempts := bt_insert i ?a (ox_attempts ox)\<rparr>"
  have m: "mark_and_sync env i Pending None (at_retry_count ?a) ?ox = (ox', Ok ())"
    using assms a0 by (auto simp: requeue_def reopen_as_def Let_def split: sum.splits prod.splits)
  have "map_option attempt_core (bt_get (ox_attempts ox') i) = Some (attempt_core ?a)"
    using mark_and_sync_attempts [of env i Pending None "at_retry_count ?a" ?ox i] m by simp
  then show "map_option at_delivery_status (bt_get (ox_attempts ox') i) = Some Queued"
    by (auto simp: attempt_core_def dest: arg_cong [of _ _ at_delivery_status])
  show "Option.bind (find_message i (ox_log ox')) delivery_status = Some Pending"
    using mark_and_sync_log(1) [OF m] mark_and_sync_log(2) [OF m, of i] by (auto simp: set_delivery_def delivery_meta_def)
qed

end
