(* ===== verification/Dm_Messaging.thy ===== *)
theory Dm_Messaging
  imports Outbound Call_Control
begin

text \<open>
  Text messages of a direct conversation: \<open>private_dm_runtime/data.rs\<close> (receiving), \<open>resend.rs\<close>
  (publishing and repeating), \<open>devices/receipts.rs\<close> and \<open>accept_delivery_ack\<close> of \<open>control.rs\<close> (receipts),
  \<open>devices/live.rs\<close> (device signatures, routing to admitted devices), \<open>route_send\<close> of
  \<open>session_transport.rs\<close>, then \<open>outbox.rs\<close> over \<open>conversation/runtime_writes.rs\<close>: admission to the
  durable history, the queue and its turn.

  A session is the session record of the calls, which holds the log, with the outbox and the fields
  these operations use. Of the membership's journals only their presence matters here; each is a
  flag. A frame the transport took is appended to \<open>tx_frames\<close>. Parameters: MLS encryption and
  decryption, the JSON of the envelopes, the transport, the rows the session writes beside its
  history. The drain of the inbox that precedes a command is a step of its own.

  The lemmas show what the operations leave alone: \<open>calm\<close> relates a session to the one after an
  operation that is no receipt, in which no message is newly delivered and no message of another
  author appears twice. The theorems on delivery are in \<open>Dm_Delivery\<close>.
\<close>

section \<open>Text from bytes\<close>

abbreviation text_of_bytes :: "bytes \<Rightarrow> string" where
  "text_of_bytes bs \<equiv> map (\<lambda>b. char_of (unat b)) bs"

definition continues :: "byte \<Rightarrow> bool" where
  "continues b \<longleftrightarrow> 0x80 \<le> b \<and> b \<le> 0xBF"

text \<open>The second byte a sequence may have after its first one.\<close>

definition second_ok :: "byte \<Rightarrow> byte \<Rightarrow> bool" where
  "second_ok b c \<longleftrightarrow>
     (if b = 0xE0 then 0xA0 \<le> c \<and> c \<le> 0xBF else if b = 0xED then 0x80 \<le> c \<and> c \<le> 0x9F
      else if b = 0xF0 then 0x90 \<le> c \<and> c \<le> 0xBF else if b = 0xF4 then 0x80 \<le> c \<and> c \<le> 0x8F else continues c)"

definition sequence_length :: "byte \<Rightarrow> nat" where
  "sequence_length b =
     (if b < 0x80 then 1 else if 0xC2 \<le> b \<and> b \<le> 0xDF then 2 else if 0xE0 \<le> b \<and> b \<le> 0xEF then 3
      else if 0xF0 \<le> b \<and> b \<le> 0xF4 then 4 else 0)"

text \<open>How many bytes the next sequence takes, and whether it is complete; the longest valid start of it otherwise.\<close>

definition utf8_step :: "byte \<Rightarrow> bytes \<Rightarrow> nat \<times> bool" where
  "utf8_step b rest =
     (let n = sequence_length b;
          k = (case rest of [] \<Rightarrow> 0 | c # cs \<Rightarrow> if second_ok b c then 1 + length (takeWhile continues (take (n - 2) cs)) else 0)
      in if n = 0 then (1, False) else if n = 1 then (1, True) else if k = n - 1 then (n, True) else (Suc k, False))"

lemma utf8_step_pos: "0 < fst (utf8_step b rest)"
  by (simp add: utf8_step_def Let_def)

function utf8_units :: "bytes \<Rightarrow> (bytes \<times> bool) list" where
  "utf8_units [] = []"
| "utf8_units (b # rest) =
     (let (n, ok) = utf8_step b rest in (take n (b # rest), ok) # utf8_units (drop n (b # rest)))"
  by pat_completeness auto
termination
proof (relation "measure length")
  show "wf (measure (length :: bytes \<Rightarrow> nat))" by simp
  fix b :: byte and rest x n ok
  assume "x = utf8_step b rest" and "(n, ok) = x"
  then have "0 < n" using utf8_step_pos [of b rest] by (metis fst_conv)
  then show "(drop n (b # rest), b # rest) \<in> measure length" by simp
qed

definition from_utf8 :: "bytes \<Rightarrow> string option" where
  "from_utf8 bs = (if list_all snd (utf8_units bs) then Some (text_of_bytes bs) else None)"

definition from_utf8_lossy :: "bytes \<Rightarrow> string" where
  "from_utf8_lossy bs = concat (map (\<lambda>(u, ok). text_of_bytes (if ok then u else [0xEF, 0xBF, 0xBD])) (utf8_units bs))"

lemma concat_utf8_units: "concat (map fst (utf8_units bs)) = bs"
proof (induction bs rule: utf8_units.induct)
  case (2 b rest)
  obtain n ok where "utf8_step b rest = (n, ok)" by fastforce
  with 2 [of "(n, ok)" n ok] show ?case by simp
qed simp

lemma from_utf8_lossy_valid: "from_utf8 bs = Some s \<Longrightarrow> from_utf8_lossy bs = s"
proof -
  assume "from_utf8 bs = Some s"
  then have ok: "list_all snd (utf8_units bs)" and s: "s = text_of_bytes bs" by (auto simp: from_utf8_def split: if_splits)
  have "concat (map (\<lambda>(u, ok). text_of_bytes (if ok then u else [0xEF, 0xBF, 0xBD])) us) = text_of_bytes (concat (map fst us))"
    if "list_all snd us" for us :: "(bytes \<times> bool) list"
    using that by (induction us) auto
  from this [OF ok] show ?thesis by (simp add: from_utf8_lossy_def concat_utf8_units s)
qed

section \<open>The session\<close>

definition INITIAL_CLIENTS :: nat where
  "INITIAL_CLIENTS = DM_USERS"

definition AUTO_RESEND_MS :: u64 where
  "AUTO_RESEND_MS = 15000"

definition AUTO_RESEND_MAX :: u32 where
  "AUTO_RESEND_MAX = 10"

definition READ_HISTORY_KEEP :: nat where
  "READ_HISTORY_KEEP = 512"

definition MAX_DM_PUBLISH_BYTES :: nat where
  "MAX_DM_PUBLISH_BYTES = 65536"

definition MAX_TEXT_CHARS :: nat where
  "MAX_TEXT_CHARS = 4096"

definition text_fits :: "string \<Rightarrow> bool" where
  "text_fits t \<longleftrightarrow> char_count t \<le> MAX_TEXT_CHARS"

datatype dm_channel = ControlChannel | DataChannel | BlobChannel

datatype publish_error = NoPeers string | Other string

record device_signature =
  sv_device_id :: string
  sv_signature :: string

record data_envelope =
  de_origin :: "message_origin option"
  de_device_signature :: "device_signature option"
  de_session_id :: string
  de_participant_id :: string
  de_from_device :: string
  de_message_id :: "string option"
  de_sent_at_ms :: "u64 option"
  de_ciphertext_b64 :: string
  de_resend :: "u32 option"

text \<open>The envelopes of the control channel that carry feedback on messages.\<close>

datatype feedback_envelope =
    Hello string string string string
  | DeliveryAck string string string
  | TypingIndicator string string string string
  | ReadReceipt string string string
  | PeerAnnounce string string string string

record ('c, 'sk) dm_text =
  tx_base :: dm_session
  tx_participant_id :: string
  tx_crypto :: 'c
  tx_attempts :: attempts
  tx_dirty :: "string list"
  tx_receipt_targets :: "(string, string list) btree_map"
  tx_removals :: bool
  tx_recovery :: bool
  tx_joining :: bool
  tx_admission :: bool
  tx_device_signer :: "'sk option"
  tx_typing_until_ms :: "u64 option"
  tx_hello_answer_due :: bool
  tx_last_hello_send_ms :: u64
  tx_last_authenticated_rx_ms :: u64
  tx_frames :: "(dm_channel \<times> bytes) list"

record ('c, 'vk, 'sg, 'sk, 't) text_env =
  tv_claims :: "('vk, 'sg, 'sk) claim_env"
  tv_db :: "('vk, 'sg, 'sk, chat_message, 't) erasure_env"
  tv_out :: "chat_message outbound_env"
  tv_encrypt :: "'c \<Rightarrow> bytes \<Rightarrow> (dm_error, 'c \<times> bytes) result"
  tv_open :: "'c \<Rightarrow> bytes \<Rightarrow> 'c \<times> (dm_error, bytes \<times> bytes) result"
  tv_stage :: "'c \<Rightarrow> bytes \<Rightarrow> (dm_error, 'c \<times> bytes \<times> bytes) result"
  tv_signer :: "'c \<Rightarrow> bytes"
  tv_sign_proof :: "'c \<Rightarrow> bytes \<Rightarrow> (string, bytes) result"
  tv_account :: "(device_link_error_kind, 'sk account_identity) result option"
  tv_data_to :: "data_envelope \<Rightarrow> (string, bytes) result"
  tv_data_from :: "bytes \<Rightarrow> (dm_error, data_envelope) result"
  tv_control_to :: "feedback_envelope \<Rightarrow> bytes option"
  tv_signing_json :: "string \<times> string \<times> string \<times> string option \<times> u64 option \<times> string \<times> string \<Rightarrow> bytes option"
  tv_reach :: "string \<Rightarrow> bool"
  tv_send_peer :: "string \<Rightarrow> bytes \<Rightarrow> bool"
  tv_publish :: "dm_channel \<Rightarrow> bytes \<Rightarrow> (publish_error, unit) result"
  tv_frame :: "dm_channel \<Rightarrow> bytes \<Rightarrow> bytes option"
  tv_put_transition :: "'c \<Rightarrow> (dm_error, unit) result"
  tv_local_peer_id :: "string option"
  tv_has_group :: "'c \<Rightarrow> bool"
  tv_write_extra :: "'c \<Rightarrow> (string, unit) result"
  tv_write_record :: "'c \<Rightarrow> (string, unit) result"
  tv_offer :: "chat_message \<Rightarrow> attachment_manifest option \<times> attachment_manifest option"

abbreviation tx_log :: "('c, 'sk) dm_text \<Rightarrow> chat_message message_log" where
  "tx_log s \<equiv> ss_messages (tx_base s)"

abbreviation tx_membership :: "('c, 'sk) dm_text \<Rightarrow> device_membership option" where
  "tx_membership s \<equiv> ss_membership (tx_base s)"

definition text_outbox :: "('c, 'sk) dm_text \<Rightarrow> chat_message outbox" where
  "text_outbox s = \<lparr>ox_log = tx_log s, ox_attempts = tx_attempts s\<rparr>"

definition with_outbox :: "chat_message outbox \<Rightarrow> ('c, 'sk) dm_text \<Rightarrow> ('c, 'sk) dm_text" where
  "with_outbox ox s = s\<lparr>tx_base := (tx_base s)\<lparr>ss_messages := ox_log ox\<rparr>, tx_attempts := ox_attempts ox\<rparr>"

definition with_log :: "chat_message message_log \<Rightarrow> ('c, 'sk) dm_text \<Rightarrow> ('c, 'sk) dm_text" where
  "with_log l s = s\<lparr>tx_base := (tx_base s)\<lparr>ss_messages := l\<rparr>\<rparr>"

definition log_error_dm :: "log_error \<Rightarrow> dm_error" where
  "log_error_dm e = (case e of Missing i \<Rightarrow> MissingMessage i | LogCodec t \<Rightarrow> Codec t)"

definition devices_live :: "('c, 'sk) dm_text \<Rightarrow> bool" where
  "devices_live s \<longleftrightarrow>
     (case tx_membership s of
        None \<Rightarrow> False
      | Some m \<Rightarrow>
          (INITIAL_CLIENTS < length (tp_clients (mb_topology m)) \<or> tx_removals s \<or> tx_recovery s) \<and> \<not> tx_joining s)"

definition ensure_device_authorized :: "('c, 'sk) dm_text \<Rightarrow> (dm_error, unit) result" where
  "ensure_device_authorized s =
     (if (case tx_membership s of None \<Rightarrow> False | Some m \<Rightarrow> mb_revoked m) then Err Revoked else Ok ())"

definition device_outbox_ready :: "('c, 'vk, 'sg, 'sk, 't) text_env \<Rightarrow> ('c, 'sk) dm_text \<Rightarrow> bool" where
  "device_outbox_ready env s \<longleftrightarrow>
     \<not> (case tx_membership s of None \<Rightarrow> False | Some m \<Rightarrow> mb_revoked m \<or> pending_removal (tv_claims env) m) \<and>
     (\<not> devices_live s \<or> ss_state (tx_base s) = Connected \<and> \<not> tx_admission s)"

definition can_encrypt_for_peer :: "('c, 'sk) dm_text \<Rightarrow> bool" where
  "can_encrypt_for_peer s \<longleftrightarrow> ss_peer_joined (tx_base s) \<and> ss_crypto_ready (tx_base s)"

section \<open>Routing a frame\<close>

definition persist_text_crypto :: "('c, 'vk, 'sg, 'sk, 't) text_env \<Rightarrow> ('c, 'sk) dm_text \<Rightarrow> (dm_error, unit) result" where
  "persist_text_crypto env s =
     (if tx_membership s = None \<or> \<not> ss_has_store (tx_base s) then Ok () else tv_put_transition env (tx_crypto s))"

text \<open>
  Every admitted device but this one is tried; one that takes the frame is enough. A claim whose
  device cannot be read stops the loop with an error, after the sends before it.
\<close>

fun send_to_clients ::
    "('c, 'vk, 'sg, 'sk, 't) text_env \<Rightarrow> string \<Rightarrow> bytes \<Rightarrow> identity_claim list \<Rightarrow> bool \<Rightarrow> (dm_error, bool) result \<times> bool" where
  "send_to_clients env own frame [] sent = (Ok sent, sent)"
| "send_to_clients env own frame (client # rest) sent =
     (if ic_mls_signer client = own then send_to_clients env own frame rest sent
      else
        (case claim_device (tv_claims env) client of
           Inl e \<Rightarrow> (Err e, sent)
         | Inr d \<Rightarrow>
             send_to_clients env own frame rest
               (sent \<or> tv_reach env (dd_moss_peer_id d) \<and> tv_send_peer env (dd_moss_peer_id d) frame)))"

text \<open>The second component says whether the transport took the frame.\<close>

definition route_device_frame ::
    "('c, 'vk, 'sg, 'sk, 't) text_env \<Rightarrow> dm_channel \<Rightarrow> bytes \<Rightarrow> ('c, 'sk) dm_text \<Rightarrow> (dm_error, unit) result \<times> bool" where
  "route_device_frame env kind payload s =
     (case ensure_device_authorized s of
        Inl e \<Rightarrow> (Err e, False)
      | Inr _ \<Rightarrow>
          (case tx_membership s of
             None \<Rightarrow> (Err invalid_dm, False)
           | Some m \<Rightarrow>
               if pending_removal (tv_claims env) m then (Err NotReady, False)
               else
                 (case and_then (persist_text_crypto env s) (\<lambda>_. ok_or (tv_frame env kind payload) invalid_dm) of
                    Inl e \<Rightarrow> (Err e, False)
                  | Inr frame \<Rightarrow>
                      (case send_to_clients env (ss_signer (tx_base s)) frame (tp_clients (mb_topology m)) False of
                         (Inl e, taken) \<Rightarrow> (Err e, taken)
                       | (Inr sent, taken) \<Rightarrow>
                           (if sent then Ok () else Err (Moss ''no admitted DM device is reachable''), taken)))))"

definition route_frame ::
    "('c, 'vk, 'sg, 'sk, 't) text_env \<Rightarrow> dm_channel \<Rightarrow> bytes \<Rightarrow> ('c, 'sk) dm_text \<Rightarrow> (dm_error, unit) result \<times> bool" where
  "route_frame env kind payload s =
     (if MAX_DM_PUBLISH_BYTES < length payload then (Err PayloadTooLarge, False)
      else if devices_live s then route_device_frame env kind payload s
      else
        (case persist_text_crypto env s of
           Inl e \<Rightarrow> (Err e, False)
         | Inr _ \<Rightarrow>
             if (case ss_peer_moss_id (tx_base s) of
                   None \<Rightarrow> False
                 | Some peer \<Rightarrow>
                     tx_membership s \<noteq> None \<and> tv_reach env peer \<and>
                     (case tv_frame env kind payload of None \<Rightarrow> False | Some frame \<Rightarrow> tv_send_peer env peer frame))
             then (Ok (), True)
             else
               (case tv_publish env kind payload of
                  Inr _ \<Rightarrow> (Ok (), True)
                | Inl (NoPeers e) \<Rightarrow> (if kind \<noteq> DataChannel then Ok () else Err (Moss e), False)
                | Inl (Other e) \<Rightarrow> (Err (Moss e), False))))"

definition send_frame ::
    "('c, 'vk, 'sg, 'sk, 't) text_env \<Rightarrow> dm_channel \<Rightarrow> bytes \<Rightarrow> ('c, 'sk) dm_text \<Rightarrow> ('c, 'sk) dm_text \<times> (dm_error, unit) result" where
  "send_frame env kind payload s =
     (let (r, taken) = route_frame env kind payload s
      in (if taken then s\<lparr>tx_frames := tx_frames s @ [(kind, payload)]\<rparr> else s, r))"

section \<open>Devices of the two users\<close>

definition text_signing_bytes ::
    "('c, 'vk, 'sg, 'sk, 't) text_env \<Rightarrow> data_envelope \<Rightarrow> string \<Rightarrow> (dm_error, bytes) result" where
  "text_signing_bytes env e device =
     and_then (ok_or (tv_signing_json env (de_session_id e, de_participant_id e, de_from_device e, de_message_id e,
         de_sent_at_ms e, de_ciphertext_b64 e, device)) invalid_dm)
       (\<lambda>json. Ok (utf8_bytes ''mosh-dm-text-v1'' @ [0] @ json))"

definition sign_device_text ::
    "('c, 'vk, 'sg, 'sk, 't) text_env \<Rightarrow> ('c, 'sk) dm_text \<Rightarrow> data_envelope \<Rightarrow> (dm_error, data_envelope) result" where
  "sign_device_text env s e =
     (if \<not> devices_live s then Ok e
      else
        and_then (ok_or (tx_membership s) invalid_dm) (\<lambda>m.
        and_then (ok_or (tp_client (mb_topology m) (ss_signer (tx_base s))) invalid_dm) (\<lambda>client.
        and_then (ok_or (tx_device_signer s) invalid_dm) (\<lambda>key.
        and_then (text_signing_bytes env e (ic_device_id client)) (\<lambda>bs.
          Ok (e\<lparr>de_device_signature := Some \<lparr>sv_device_id = ic_device_id client,
            sv_signature = hex_encode (sigs (rost (tv_claims env)))
              (sig_bytes (sigs (rost (tv_claims env))) (sign_with (rost (tv_claims env)) key bs))\<rparr>\<rparr>))))))"

definition verify_device_text ::
    "('c, 'vk, 'sg, 'sk, 't) text_env \<Rightarrow> ('c, 'sk) dm_text \<Rightarrow> data_envelope \<Rightarrow> (dm_error, string option) result" where
  "verify_device_text env s e =
     (if \<not> devices_live s then Ok None
      else
        and_then (ok_or (de_device_signature e) invalid_dm) (\<lambda>p.
        and_then (ok_or (tx_membership s) invalid_dm) (\<lambda>m.
        and_then (ok_or (find (\<lambda>c. ic_device_id c = sv_device_id p) (tp_clients (mb_topology m))) invalid_dm) (\<lambda>client.
        and_then (claim_device (tv_claims env) client) (\<lambda>d.
        and_then (text_signing_bytes env e (sv_device_id p)) (\<lambda>bs.
        and_then (verify_proof (tv_claims env) (dd_signing_public_key d) (sv_signature p) bs) (\<lambda>_.
          Ok (Some (ic_mls_signer client)))))))))"

definition device_author ::
    "('c, 'sk) dm_text \<Rightarrow> string \<Rightarrow> (dm_error, string \<times> bool) result" where
  "device_author s signer =
     and_then (ok_or (tx_membership s) invalid_dm) (\<lambda>m.
     and_then (ok_or (tp_client (mb_topology m) signer) invalid_dm) (\<lambda>client.
       (let own = tp_own (mb_topology m) signer
        in Ok (if own then ss_device_id (tx_base s)
               else (case ss_peer_display_name (tx_base s) of None \<Rightarrow> ic_display_name client | Some n \<Rightarrow> n), own))))"

definition track_device_receipts :: "string \<Rightarrow> ('c, 'sk) dm_text \<Rightarrow> ('c, 'sk) dm_text" where
  "track_device_receipts i s =
     (if \<not> devices_live s then s
      else
        (case tx_membership s of
           None \<Rightarrow> s
         | Some m \<Rightarrow>
             if bt_contains (tx_receipt_targets s) i then s
             else s\<lparr>tx_receipt_targets := bt_insert i
               (filter (\<lambda>g. g \<noteq> ss_signer (tx_base s)) (map ic_mls_signer (tp_clients (mb_topology m))))
               (tx_receipt_targets s)\<rparr>))"

section \<open>Publishing a text\<close>

definition resume_one :: "('c, 'vk, 'sg, 'sk, 't) text_env \<Rightarrow> string \<Rightarrow> ('c, 'sk) dm_text \<Rightarrow> ('c, 'sk) dm_text" where
  "resume_one env i s =
     (case activate_queue (tv_out env) i (text_outbox s) of
        (ox, Inl _) \<Rightarrow> with_outbox ox s
      | (ox, Inr _) \<Rightarrow>
          (let s1 = with_outbox ox s
           in s1\<lparr>tx_attempts := update_attempt i (\<lambda>a. a\<lparr>at_auto_resends := 0\<rparr>) (tx_attempts s1),
                 tx_dirty := tx_dirty s1 @ [i]\<rparr>))"

definition exhausted_sends :: "('c, 'sk) dm_text \<Rightarrow> string list" where
  "exhausted_sends s =
     map fst (filter (\<lambda>(i, a). at_delivery_status a = Sent \<and> AUTO_RESEND_MAX \<le> at_auto_resends a \<and>
       list_ex (\<lambda>m. message_id m = Some i \<and> delivery_status m \<noteq> Some Delivered) (log_messages (tx_log s))) (tx_attempts s))"

definition resume_exhausted_sends :: "('c, 'vk, 'sg, 'sk, 't) text_env \<Rightarrow> ('c, 'sk) dm_text \<Rightarrow> ('c, 'sk) dm_text" where
  "resume_exhausted_sends env s = fold (resume_one env) (exhausted_sends s) s"

text \<open>\<open>note_authenticated_frame\<close> with the wake-up of the outbox on the change to connected.\<close>

definition note_contact ::
    "('c, 'vk, 'sg, 'sk, 't) text_env \<Rightarrow> string \<Rightarrow> ('c, 'sk) dm_text \<Rightarrow> ('c, 'sk) dm_text" where
  "note_contact env name s =
     (let s1 = s\<lparr>tx_base := note_authenticated_frame name (tx_base s)\<rparr>
      in if ss_crypto_ready (tx_base s) \<and> ss_state (tx_base s) \<noteq> Connected then resume_exhausted_sends env s1 else s1)"

definition queued_body ::
    "('c, 'vk, 'sg, 'sk, 't) text_env \<Rightarrow> string \<Rightarrow> ('c, 'sk) dm_text \<Rightarrow> (dm_error, string) result" where
  "queued_body env i s =
     (case find_message i (tx_log s) of
        None \<Rightarrow> Err (MissingMessage i)
      | Some m \<Rightarrow>
          if is_tombstone m
          then Ok (case bt_get (tx_attempts s) i of
              None \<Rightarrow> body m
            | Some a \<Rightarrow> (case ob_from_json (tv_out env) (at_message_json a) of Inl _ \<Rightarrow> body m | Inr copy \<Rightarrow> body copy))
          else Ok (body m))"

definition publish_text ::
    "('c, 'vk, 'sg, 'sk, 't) text_env \<Rightarrow> string \<Rightarrow> u32 option \<Rightarrow> ('c, 'sk) dm_text \<Rightarrow> ('c, 'sk) dm_text \<times> (dm_error, unit) result" where
  "publish_text env i resend s =
     (case and_then (queued_body env i s) (\<lambda>t.
           and_then (ok_or (bt_get (tx_attempts s) i) (MissingMessage i)) (\<lambda>a.
           and_then (tv_encrypt env (tx_crypto s) (utf8_bytes t)) (\<lambda>(c, ciphertext). Ok (a, c, ciphertext)))) of
        Inl e \<Rightarrow> (s, Err e)
      | Inr (a, c, ciphertext) \<Rightarrow>
          (let s1 = s\<lparr>tx_crypto := c\<rparr>;
               envelope = \<lparr>de_origin = Option.bind (find_message i (tx_log s1)) origin_of, de_device_signature = None,
                 de_session_id = ss_session_id (tx_base s1), de_participant_id = tx_participant_id s1,
                 de_from_device = ss_device_id (tx_base s1), de_message_id = Some i, de_sent_at_ms = Some (at_sent_at_ms a),
                 de_ciphertext_b64 = ob_encode (tv_out env) ciphertext, de_resend = resend\<rparr>
           in case sign_device_text env s1 envelope of
                Inl e \<Rightarrow> (s1, Err e)
              | Inr signed_envelope \<Rightarrow>
                  (let s2 = track_device_receipts i s1
                   in case tv_data_to env signed_envelope of
                        Inl e \<Rightarrow> (s2, Err (Codec e))
                      | Inr payload \<Rightarrow>
                          (case send_frame env DataChannel payload s2 of
                             (s3, Inl e) \<Rightarrow> (s3, Err e)
                           | (s3, Inr _) \<Rightarrow>
                               (s3\<lparr>tx_attempts := update_attempt i
                                  (\<lambda>a. a\<lparr>at_publish_payload_b64 := ob_encode (tv_out env) payload,
                                     at_ciphertext_bytes := length ciphertext\<rparr>) (tx_attempts s3)\<rparr>, Ok ())))))"

definition settle_text ::
    "('c, 'vk, 'sg, 'sk, 't) text_env \<Rightarrow> u64 \<Rightarrow> string \<Rightarrow> (string, unit) result \<Rightarrow> ('c, 'sk) dm_text \<Rightarrow>
     ('c, 'sk) dm_text \<times> (dm_error, unit) result" where
  "settle_text env now i outcome s =
     (let (ox, r) = settle (tv_out env) now i outcome Retain (text_outbox s)
      in (with_outbox ox s, map_err log_error_dm (and_then r (\<lambda>_. Ok ()))))"

definition publish_queued ::
    "('c, 'vk, 'sg, 'sk, 't) text_env \<Rightarrow> u64 \<Rightarrow> string \<Rightarrow> ('c, 'sk) dm_text \<Rightarrow> ('c, 'sk) dm_text \<times> (dm_error, unit) result" where
  "publish_queued env now i s =
     (case publish_text env i None s of
        (s1, Inl e) \<Rightarrow> (s1, Err e)
      | (s1, Inr _) \<Rightarrow> settle_text env now i (Ok ()) s1)"

definition finish_device_resends :: "('c, 'sk) dm_text \<Rightarrow> ('c, 'sk) dm_text \<times> string list" where
  "finish_device_resends s =
     (if \<not> devices_live s then (s, [])
      else
        (let finished = map fst (filter (\<lambda>(i, a). AUTO_RESEND_MAX \<le> at_auto_resends a \<and>
               list_ex (\<lambda>m. message_id m = Some i \<and> delivery_status m = Some Delivered) (log_messages (tx_log s))) (tx_attempts s))
         in (s\<lparr>tx_attempts := fold bt_remove finished (tx_attempts s),
               tx_receipt_targets := (if tx_membership s = None then tx_receipt_targets s
                 else fold bt_remove finished (tx_receipt_targets s)),
               tx_base := (tx_base s)\<lparr>ss_record_dirty := ss_record_dirty (tx_base s) \<or> finished \<noteq> []\<rparr>\<rparr>, finished)))"

definition due_resends :: "u64 \<Rightarrow> ('c, 'sk) dm_text \<Rightarrow> (string \<times> u32) list" where
  "due_resends now s =
     map (\<lambda>(i, a). (i, at_auto_resends a))
       (filter (\<lambda>(i, a). at_delivery_status a = Sent \<and> at_auto_resends a < AUTO_RESEND_MAX \<and>
          AUTO_RESEND_MS \<le> saturating_sub now (at_last_send_ms a)) (tx_attempts s))"

definition resend_one ::
    "('c, 'vk, 'sg, 'sk, 't) text_env \<Rightarrow> u64 \<Rightarrow> string \<times> u32 \<Rightarrow> ('c, 'sk) dm_text \<Rightarrow> ('c, 'sk) dm_text" where
  "resend_one env now = (\<lambda>(i, n) s.
     (let s1 = s\<lparr>tx_attempts := update_attempt i (\<lambda>a. a\<lparr>at_last_send_ms := now\<rparr>) (tx_attempts s)\<rparr>
      in case publish_text env i (Some (n + 1)) s1 of
           (s2, Inl _) \<Rightarrow> s2
         | (s2, Inr _) \<Rightarrow>
             s2\<lparr>tx_attempts := update_attempt i (\<lambda>a. a\<lparr>at_auto_resends := at_auto_resends a + 1\<rparr>) (tx_attempts s2)\<rparr>))"

definition pump_unacked_resends ::
    "('c, 'vk, 'sg, 'sk, 't) text_env \<Rightarrow> u64 \<Rightarrow> ('c, 'sk) dm_text \<Rightarrow> ('c, 'sk) dm_text \<times> string list" where
  "pump_unacked_resends env now s =
     (if \<not> ss_peer_joined (tx_base s) \<or> \<not> device_outbox_ready env s then (s, [])
      else
        (let due = due_resends now s;
             (s1, finished) = finish_device_resends s
         in (fold (resend_one env now) due s1, finished @ map fst due)))"

section \<open>Receipts\<close>

definition accept_device_receipt ::
    "('c, 'vk, 'sg, 'sk, 't) text_env \<Rightarrow> string \<Rightarrow> string \<Rightarrow> ('c, 'sk) dm_text \<Rightarrow> ('c, 'sk) dm_text \<times> (dm_error, unit) result" where
  "accept_device_receipt env i signer s =
     (case and_then (device_author s signer) (\<lambda>(author, own).
           and_then (ok_or (tx_membership s) invalid_dm) (\<lambda>m. Ok (author, own, m))) of
        Inl e \<Rightarrow> (s, Err e)
      | Inr (author, own, m) \<Rightarrow>
          (let mine = list_ex (\<lambda>x. message_id x = Some i \<and> from_device x = ss_device_id (tx_base s)) (log_messages (tx_log s));
               fresh = \<not> own \<and> bt_contains (tx_attempts s) i \<and>
                 list_ex (\<lambda>x. message_id x = Some i \<and> from_device x = ss_device_id (tx_base s) \<and>
                   delivery_status x \<noteq> Some Delivered) (log_messages (tx_log s));
               m1 = (if \<not> own \<and> i \<notin> set (mb_delivered_ids m)
                 then (let ids = mb_delivered_ids m @ [i]
                       in m\<lparr>mb_delivered_ids := drop (length ids - READ_HISTORY_KEEP) ids\<rparr>) else m);
               targets = (case bt_get (tx_receipt_targets s) i of
                  None \<Rightarrow> tx_receipt_targets s
                | Some ts \<Rightarrow> bt_insert i (filter (\<lambda>t. t \<noteq> signer) ts) (tx_receipt_targets s));
               finished = (bt_get targets i = Some []);
               s1 = s\<lparr>tx_base := (tx_base s)\<lparr>ss_membership := Some m1\<rparr>,
                  tx_receipt_targets := (if finished then bt_remove i targets else targets)\<rparr>;
               count = (case bt_get (tx_attempts s) i of None \<Rightarrow> 0 | Some a \<Rightarrow> at_retry_count a);
               (l, marked) = (if \<not> own \<and> mine then mark_delivery i Delivered None count (tx_log s1) else (tx_log s1, Ok ()));
               s2 = with_log l s1
           in case marked of
                Inl e \<Rightarrow> (s2, Err (log_error_dm e))
              | Inr _ \<Rightarrow>
                  (let s3 = s2\<lparr>tx_attempts := (if finished then bt_remove i (tx_attempts s2) else tx_attempts s2),
                         tx_dirty := tx_dirty s2 @ [i], tx_base := (tx_base s2)\<lparr>ss_record_dirty := True\<rparr>\<rparr>;
                       s4 = (if own then s3 else note_contact env author s3)
                   in (if fresh then resume_exhausted_sends env s4 else s4, Ok ()))))"

definition accept_delivery_ack ::
    "('c, 'vk, 'sg, 'sk, 't) text_env \<Rightarrow> string \<Rightarrow> ('c, 'sk) dm_text \<Rightarrow> ('c, 'sk) dm_text \<times> (dm_error, unit) result" where
  "accept_delivery_ack env ciphertext_b64 s =
     (case ob_decode (tv_out env) ciphertext_b64 of
        Inl _ \<Rightarrow> (s, Ok ())
      | Inr ciphertext \<Rightarrow>
          (let (c, opened) = tv_open env (tx_crypto s) ciphertext; s1 = s\<lparr>tx_crypto := c\<rparr>
           in case opened of
                Inl _ \<Rightarrow> (s1, Ok ())
              | Inr (plaintext, signer) \<Rightarrow>
                  (case from_utf8 plaintext of
                     None \<Rightarrow> (s1, Ok ())
                   | Some i \<Rightarrow>
                       if devices_live s1
                       then accept_device_receipt env i (hex_encode (sigs (rost (tv_claims env))) signer) s1
                       else
                         (let s2 = note_contact env [] s1
                          in case bt_get (tx_attempts s2) i of
                               None \<Rightarrow> (s2, Ok ())
                             | Some a \<Rightarrow>
                                 (let (l, marked) = mark_delivery i Delivered None (at_retry_count a) (tx_log s2);
                                      s3 = with_log l (s2\<lparr>tx_attempts := bt_remove i (tx_attempts s2)\<rparr>)
                                  in case marked of
                                       Inl e \<Rightarrow> (s3, Err (log_error_dm e))
                                     | Inr _ \<Rightarrow> (resume_exhausted_sends env (s3\<lparr>tx_dirty := tx_dirty s3 @ [i]\<rparr>), Ok ()))))))"

definition send_delivery_ack ::
    "('c, 'vk, 'sg, 'sk, 't) text_env \<Rightarrow> string \<Rightarrow> ('c, 'sk) dm_text \<Rightarrow> ('c, 'sk) dm_text" where
  "send_delivery_ack env i s =
     (case tv_encrypt env (tx_crypto s) (utf8_bytes i) of
        Inl _ \<Rightarrow> s
      | Inr (c, ciphertext) \<Rightarrow>
          (let s1 = s\<lparr>tx_crypto := c\<rparr>
           in case tv_control_to env (DeliveryAck (ss_session_id (tx_base s1)) (tx_participant_id s1)
                (ob_encode (tv_out env) ciphertext)) of
                None \<Rightarrow> s1
              | Some payload \<Rightarrow> fst (send_frame env ControlChannel payload s1)))"

section \<open>Receiving a text\<close>

definition has_inbound_message :: "string \<Rightarrow> ('c, 'sk) dm_text \<Rightarrow> bool" where
  "has_inbound_message i s \<longleftrightarrow>
     list_ex (\<lambda>m. from_device m \<noteq> ss_device_id (tx_base s) \<and> message_id m = Some i) (log_messages (tx_log s))"

text \<open>\<open>decrypt_checked\<close> keeps the ratchet unless the content passes.\<close>

definition check_content ::
    "('c, 'vk, 'sg, 'sk, 't) text_env \<Rightarrow> ('c, 'sk) dm_text \<Rightarrow> data_envelope \<Rightarrow> string option \<Rightarrow> bytes \<Rightarrow> bytes \<Rightarrow>
     (string, unit) result" where
  "check_content env s e expected content signer =
     and_then
       (case de_origin e of
          None \<Rightarrow> Ok ()
        | Some p \<Rightarrow>
            and_then (origin_verify (tv_db env) p (''dm:'' @ ss_session_id (tx_base s))
                (case de_message_id e of None \<Rightarrow> [] | Some i \<Rightarrow> i) content) (\<lambda>_.
              ensure (or_author p = hex_encode (sigs (rost (tv_claims env))) signer) ''DM origin signer mismatch''))
       (\<lambda>_. ensure (expected = None \<or> expected = Some (hex_encode (sigs (rost (tv_claims env))) signer))
          ''DM device signer mismatch'')"

definition clear_peer_typing :: "('c, 'sk) dm_text \<Rightarrow> ('c, 'sk) dm_text" where
  "clear_peer_typing s = s\<lparr>tx_typing_until_ms := None\<rparr>"

text \<open>A text of the own user that the contact has already acknowledged.\<close>

definition seen_by_peer :: "data_envelope \<Rightarrow> ('c, 'sk) dm_text \<Rightarrow> bool" where
  "seen_by_peer e s \<longleftrightarrow>
     (case de_message_id e of
        None \<Rightarrow> False
      | Some i \<Rightarrow> (case tx_membership s of None \<Rightarrow> False | Some m \<Rightarrow> peer_delivered m i))"

text \<open>What follows once the text is decrypted and its author known.\<close>

definition store_received ::
    "('c, 'vk, 'sg, 'sk, 't) text_env \<Rightarrow> u64 \<Rightarrow> string \<Rightarrow> data_envelope \<Rightarrow> bytes \<Rightarrow> string \<Rightarrow> bool \<Rightarrow>
     ('c, 'sk) dm_text \<Rightarrow> ('c, 'sk) dm_text" where
  "store_received env now occ e plaintext author own s =
     (let s1 = (if own then s else clear_peer_typing (note_contact env author s));
          (l, m) = stamp now occ
            \<lparr>metadata = Some (default_metadata\<lparr>md_origin := de_origin e, md_is_own := Some own\<rparr>), from_device = author,
             body = from_utf8_lossy plaintext, message_id = de_message_id e, sent_at_ms = de_sent_at_ms e,
             attachment = None,
             delivery_status = (if own then Some (if seen_by_peer e s1 then Delivered else Sent) else None),
             delivery_error = None, retryable = None, retry_count = None, call_event = None, read_receipt = None\<rparr>
            (tx_log s1);
          s2 = with_log l s1
      in if holds_copy_of from_device m l then s2
         else
           (let s3 = with_log (log_push m l) s2
            in case de_message_id e of None \<Rightarrow> s3 | Some i \<Rightarrow> send_delivery_ack env i s3))"

definition receive_text ::
    "('c, 'vk, 'sg, 'sk, 't) text_env \<Rightarrow> u64 \<Rightarrow> string \<Rightarrow> data_envelope \<Rightarrow> string option \<Rightarrow> ('c, 'sk) dm_text \<Rightarrow>
     ('c, 'sk) dm_text \<times> (dm_error, unit) result" where
  "receive_text env now occ e expected s =
     (case and_then (map_err log_error_dm (map_err LogCodec (ob_decode (tv_out env) (de_ciphertext_b64 e)))) (\<lambda>ciphertext.
           and_then (tv_stage env (tx_crypto s) ciphertext) (\<lambda>(c, plaintext, signer).
           and_then (map_err OpenMls (check_content env s e expected plaintext signer)) (\<lambda>_.
             Ok (c, plaintext, hex_encode (sigs (rost (tv_claims env))) signer)))) of
        Inl err \<Rightarrow> (s, Err err)
      | Inr (c, plaintext, signer) \<Rightarrow>
          (let s1 = s\<lparr>tx_crypto := c\<rparr>
           in if expected \<noteq> None \<and> expected \<noteq> Some signer then (s1, Err invalid_dm)
              else
                (case (if devices_live s1 then device_author s1 signer else Ok (de_from_device e, False)) of
                   Inl err \<Rightarrow> (s1, Err err)
                 | Inr (author, own) \<Rightarrow> (store_received env now occ e plaintext author own s1, Ok ()))))"

definition handle_data ::
    "('c, 'vk, 'sg, 'sk, 't) text_env \<Rightarrow> u64 \<Rightarrow> string \<Rightarrow> bytes \<Rightarrow> ('c, 'sk) dm_text \<Rightarrow> ('c, 'sk) dm_text \<times> (dm_error, unit) result" where
  "handle_data env now occ payload s =
     (case tv_data_from env payload of
        Inl e \<Rightarrow> (s, Err e)
      | Inr e \<Rightarrow>
          if de_session_id e \<noteq> ss_session_id (tx_base s) \<or> de_participant_id e = tx_participant_id s then (s, Ok ())
          else
            (case verify_device_text env s e of
               Inl err \<Rightarrow> (s, Err err)
             | Inr expected \<Rightarrow>
                 (case de_message_id e of
                    Some i \<Rightarrow>
                      if has_inbound_message i s \<or>
                         devices_live s \<and> list_ex (\<lambda>m. message_id m = Some i) (log_messages (tx_log s))
                      then (send_delivery_ack env i s, Ok ())
                      else receive_text env now occ e expected s
                  | None \<Rightarrow> receive_text env now occ e expected s)))"

section \<open>Presence\<close>

definition DM_KEEPALIVE_MS :: u64 where
  "DM_KEEPALIVE_MS = 10000"

definition HANDSHAKE_RESEND_MS :: u64 where
  "HANDSHAKE_RESEND_MS = 2000"

definition IDLE_HELLO_MAX_MS :: u64 where
  "IDLE_HELLO_MAX_MS = 30000"

definition saturating_double :: "u64 \<Rightarrow> u64" where
  "saturating_double d = (if 2 * unat d < 2 ^ 64 then 2 * d else - 1)"

definition wake_presence_retry :: "('c, 'sk) dm_text \<Rightarrow> ('c, 'sk) dm_text" where
  "wake_presence_retry s =
     (if ss_recovery_hello_delay_ms (tx_base s) = None then s
      else s\<lparr>tx_base := (tx_base s)\<lparr>ss_recovery_hello_delay_ms := Some HANDSHAKE_RESEND_MS\<rparr>, tx_last_hello_send_ms := 0\<rparr>)"

definition send_hello :: "('c, 'vk, 'sg, 'sk, 't) text_env \<Rightarrow> u64 \<Rightarrow> ('c, 'sk) dm_text \<Rightarrow> ('c, 'sk) dm_text" where
  "send_hello env now s =
     (case tv_local_peer_id env of
        None \<Rightarrow> s
      | Some peer \<Rightarrow>
          (case tv_encrypt env (tx_crypto s) (utf8_bytes peer) of
             Inl _ \<Rightarrow> s
           | Inr (c, ciphertext) \<Rightarrow>
               (let s1 = s\<lparr>tx_crypto := c\<rparr>
                in case tv_control_to env (Hello (ss_session_id (tx_base s)) (tx_participant_id s) (ss_device_id (tx_base s))
                     (ob_encode (tv_out env) ciphertext)) of
                     None \<Rightarrow> s1
                   | Some payload \<Rightarrow>
                       (let delay = (if tx_last_hello_send_ms s1 \<noteq> 0
                              then map_option (\<lambda>d. min (saturating_double d) IDLE_HELLO_MAX_MS)
                                (ss_recovery_hello_delay_ms (tx_base s1))
                              else ss_recovery_hello_delay_ms (tx_base s1));
                            s2 = s1\<lparr>tx_base := (tx_base s1)\<lparr>ss_recovery_hello_delay_ms := delay\<rparr>, tx_last_hello_send_ms := now\<rparr>
                        in fst (send_frame env ControlChannel payload s2)))))"

definition pump_hello :: "('c, 'vk, 'sg, 'sk, 't) text_env \<Rightarrow> u64 \<Rightarrow> ('c, 'sk) dm_text \<Rightarrow> ('c, 'sk) dm_text" where
  "pump_hello env now s =
     (let answer = tx_hello_answer_due s; s1 = s\<lparr>tx_hello_answer_due := False\<rparr>
      in if \<not> can_encrypt_for_peer s1 then s1
         else
           (let since_send = saturating_sub now (tx_last_hello_send_ms s1);
                due = (if ss_state (tx_base s1) = Connected
                  then DM_KEEPALIVE_MS \<le> saturating_sub now (tx_last_authenticated_rx_ms s1) \<and> DM_KEEPALIVE_MS \<le> since_send
                  else (case ss_recovery_hello_delay_ms (tx_base s1) of None \<Rightarrow> HANDSHAKE_RESEND_MS | Some d \<Rightarrow> d) \<le> since_send)
            in if due \<or> answer \<and> HANDSHAKE_RESEND_MS \<le> since_send then send_hello env now s1 else s1))"

section \<open>The runtime's writes\<close>

record state_write =
  sw_extra :: bool
  sw_record :: bool
  sw_finalize :: bool

text \<open>One conversation of the runtime: the session, the store, and what is still to be written.\<close>

record ('c, 'sk) dm_runtime =
  rt_session :: "('c, 'sk) dm_text"
  rt_store :: "chat_message deletion_store option"
  rt_sends :: "(string, bool) btree_map"
  rt_state :: "state_write option"
  rt_final :: bool
  rt_count :: nat

abbreviation dm_scope_name :: string where
  "dm_scope_name \<equiv> ''private_dm''"

abbreviation rt_id :: "('c, 'sk) dm_runtime \<Rightarrow> string" where
  "rt_id rt \<equiv> ss_session_id (tx_base (rt_session rt))"

definition record_is_final :: "('c, 'vk, 'sg, 'sk, 't) text_env \<Rightarrow> ('c, 'sk) dm_text \<Rightarrow> bool" where
  "record_is_final env s \<longleftrightarrow> tv_has_group env (tx_crypto s) \<or> tx_membership s \<noteq> None \<and> tx_joining s"

definition record_due :: "('c, 'vk, 'sg, 'sk, 't) text_env \<Rightarrow> ('c, 'sk) dm_runtime \<Rightarrow> bool" where
  "record_due env rt \<longleftrightarrow>
     record_is_final env (rt_session rt) \<and> (\<not> rt_final rt \<or> ss_record_dirty (tx_base (rt_session rt)))"

definition request_state :: "bool \<Rightarrow> bool \<Rightarrow> bool \<Rightarrow> ('c, 'sk) dm_runtime \<Rightarrow> ('c, 'sk) dm_runtime" where
  "request_state extra rec final rt =
     (if extra \<or> rec
      then rt\<lparr>rt_state := Some (case rt_state rt of
          None \<Rightarrow> \<lparr>sw_extra = extra, sw_record = rec, sw_finalize = final\<rparr>
        | Some w \<Rightarrow> \<lparr>sw_extra = sw_extra w \<or> extra, sw_record = sw_record w \<or> rec, sw_finalize = sw_finalize w \<or> final\<rparr>)\<rparr>
      else rt)"

definition flush_state ::
    "('c, 'vk, 'sg, 'sk, 't) text_env \<Rightarrow> ('c, 'sk) dm_runtime \<Rightarrow> ('c, 'sk) dm_runtime \<times> (string, unit) result" where
  "flush_state env rt =
     (case rt_state rt of
        None \<Rightarrow> (rt, Ok ())
      | Some w \<Rightarrow>
          (case (if sw_extra w then tv_write_extra env (tx_crypto (rt_session rt)) else Ok ()) of
             Inl e \<Rightarrow> (rt, Err e)
           | Inr _ \<Rightarrow>
               (let rt1 = rt\<lparr>rt_state := Some (w\<lparr>sw_extra := False\<rparr>)\<rparr>
                in case (if sw_record w then tv_write_record env (tx_crypto (rt_session rt1)) else Ok ()) of
                     Inl e \<Rightarrow> (rt1, Err e)
                   | Inr _ \<Rightarrow>
                       (let rt2 = (if sw_record w \<and> sw_finalize w
                              then rt1\<lparr>rt_session := (rt_session rt1)\<lparr>tx_base := (tx_base (rt_session rt1))
                                \<lparr>ss_record_dirty := False\<rparr>\<rparr>, rt_final := True\<rparr>
                              else rt1)
                        in (rt2\<lparr>rt_state := None\<rparr>, Ok ())))))"

definition save_rows ::
    "('c, 'vk, 'sg, 'sk, 't) text_env \<Rightarrow> u64 \<Rightarrow> string \<Rightarrow> ('c, 'sk) dm_runtime \<Rightarrow> chat_message deletion_store \<Rightarrow>
     (string, chat_message deletion_store \<times> bool) result" where
  "save_rows env now i rt store =
     write_send (tv_db env) chat_kind dm_scope_name now (rt_id rt) i (tx_log (rt_session rt)) (tx_attempts (rt_session rt)) store"

definition persist_admission ::
    "('c, 'vk, 'sg, 'sk, 't) text_env \<Rightarrow> u64 \<Rightarrow> string \<Rightarrow> ('c, 'sk) dm_runtime \<Rightarrow> ('c, 'sk) dm_runtime \<times> (string, unit) result" where
  "persist_admission env now i rt =
     (case rt_store rt of
        None \<Rightarrow> (rt, Ok ())
      | Some store \<Rightarrow>
          (case save_rows env now i rt store of
             Inl e \<Rightarrow> (rt, Err e)
           | Inr (store1, _) \<Rightarrow> (rt\<lparr>rt_store := Some store1\<rparr>, Ok ())))"

definition persist_send ::
    "('c, 'vk, 'sg, 'sk, 't) text_env \<Rightarrow> u64 \<Rightarrow> string \<Rightarrow> bool \<Rightarrow> ('c, 'sk) dm_runtime \<Rightarrow>
     ('c, 'sk) dm_runtime \<times> (string, unit) result" where
  "persist_send env now i deep rt =
     (case rt_store rt of
        None \<Rightarrow> (rt, Ok ())
      | Some store \<Rightarrow>
          (let deep1 = ((case bt_get (rt_sends rt) i of None \<Rightarrow> False | Some d \<Rightarrow> d) \<or> deep);
               rt1 = rt\<lparr>rt_sends := bt_insert i deep1 (rt_sends rt)\<rparr>
           in case save_rows env now i rt1 store of
                Inl e \<Rightarrow> (rt1, Err e)
              | Inr (store1, found) \<Rightarrow>
                  (let rt2 = rt1\<lparr>rt_store := Some store1\<rparr>;
                       due = record_due env rt2;
                       (rt3, r) = (if found then flush_state env (request_state (deep1 \<or> due) due due rt2) else (rt2, Ok ()))
                   in case r of
                        Inl e \<Rightarrow> (rt3, Err e)
                      | Inr _ \<Rightarrow> (rt3\<lparr>rt_sends := bt_remove i (rt_sends rt3)\<rparr>, Ok ()))))"

text \<open>\<open>persist_tail\<close> for one conversation: refused sends are tried again; unless one is refused again the tail goes down.\<close>

definition retry_sends ::
    "('c, 'vk, 'sg, 'sk, 't) text_env \<Rightarrow> u64 \<Rightarrow> ('c, 'sk) dm_runtime \<Rightarrow> ('c, 'sk) dm_runtime \<times> string option" where
  "retry_sends env now rt =
     fold (\<lambda>(i, deep) (rt, first). case persist_send env now i deep rt of
         (rt1, Inl e) \<Rightarrow> (rt1, case first of None \<Rightarrow> Some e | Some f \<Rightarrow> Some f)
       | (rt1, Inr _) \<Rightarrow> (rt1, first)) (rt_sends rt) (rt, None)"

definition persist_tail ::
    "('c, 'vk, 'sg, 'sk, 't) text_env \<Rightarrow> u64 \<Rightarrow> ('c, 'sk) dm_runtime \<Rightarrow> ('c, 'sk) dm_runtime \<times> (string, unit) result" where
  "persist_tail env now rt =
     (if rt_store rt = None then (rt, Ok ())
      else
        (case retry_sends env now rt of
           (rt1, Some e) \<Rightarrow> (rt1, Err e)
         | (rt1, None) \<Rightarrow>
             (case rt_store rt1 of
                None \<Rightarrow> (rt1, Ok ())
              | Some store \<Rightarrow>
                  (let ((store1, count), r) = write_tail (tv_db env) chat_kind dm_scope_name now (rt_id rt1) (tv_offer env)
                         (tx_log (rt_session rt1)) (rt_count rt1) store;
                       rt2 = rt1\<lparr>rt_store := Some store1, rt_count := count\<rparr>
                   in case r of
                        Inl e \<Rightarrow> (rt2, Err e)
                      | Inr changed \<Rightarrow>
                          (let due = record_due env rt2 in flush_state env (request_state (changed \<or> due) due due rt2))))))"

section \<open>The outbox of the runtime\<close>

definition on_session :: "(('c, 'sk) dm_text \<Rightarrow> ('c, 'sk) dm_text) \<Rightarrow> ('c, 'sk) dm_runtime \<Rightarrow> ('c, 'sk) dm_runtime" where
  "on_session f rt = rt\<lparr>rt_session := f (rt_session rt)\<rparr>"

definition on_session_result ::
    "(('c, 'sk) dm_text \<Rightarrow> ('c, 'sk) dm_text \<times> 'r) \<Rightarrow> ('c, 'sk) dm_runtime \<Rightarrow> ('c, 'sk) dm_runtime \<times> 'r" where
  "on_session_result f rt = (let (s, r) = f (rt_session rt) in (rt\<lparr>rt_session := s\<rparr>, r))"

definition file_text ::
    "('c, 'vk, 'sg, 'sk, 't) text_env \<Rightarrow> u64 \<Rightarrow> string \<Rightarrow> string \<Rightarrow> ('c, 'sk) dm_text \<Rightarrow> ('c, 'sk) dm_text \<times> (dm_error, string) result" where
  "file_text env now occ t s =
     (case ensure_device_authorized s of
        Inl e \<Rightarrow> (s, Err e)
      | Inr _ \<Rightarrow>
          (let (l, m) = stamp now occ
                 \<lparr>metadata = None, from_device = ss_device_id (tx_base s), body = t, message_id = None, sent_at_ms = None,
                  attachment = None, delivery_status = None, delivery_error = None, retryable = None, retry_count = None,
                  call_event = None, read_receipt = None\<rparr> (tx_log s);
               s1 = with_log l s
           in case origin_sign (tv_db env) (tv_account env) (''dm:'' @ ss_session_id (tx_base s))
                (case message_id m of None \<Rightarrow> [] | Some i \<Rightarrow> i) (utf8_bytes t) (tv_signer env (tx_crypto s))
                (tv_sign_proof env (tx_crypto s)) of
                Inl e \<Rightarrow> (s1, Err (Codec e))
              | Inr p \<Rightarrow>
                  (let (ox, r) = open_send (tv_out env) now
                         (m\<lparr>metadata := Some (default_metadata\<lparr>md_origin := Some p, md_is_own := Some True\<rparr>)\<rparr>)
                         (ss_session_id (tx_base s)) [] 0 (text_outbox s1)
                   in (with_outbox ox s1, map_err log_error_dm (and_then r (\<lambda>pp. Ok (pp_message_id pp)))))))"

definition activate_text ::
    "('c, 'vk, 'sg, 'sk, 't) text_env \<Rightarrow> string \<Rightarrow> ('c, 'sk) dm_text \<Rightarrow> ('c, 'sk) dm_text \<times> (log_error, unit) result" where
  "activate_text env i s = (let (ox, r) = activate_queue (tv_out env) i (text_outbox s) in (with_outbox ox s, r))"

definition reopen_text ::
    "('c, 'vk, 'sg, 'sk, 't) text_env \<Rightarrow> string \<Rightarrow> ('c, 'sk) dm_text \<Rightarrow> ('c, 'sk) dm_text \<times> (log_error, prepared) result" where
  "reopen_text env i s = (let (ox, r) = reopen (tv_out env) i (text_outbox s) in (with_outbox ox s, r))"

definition admit_queued ::
    "('c, 'vk, 'sg, 'sk, 't) text_env \<Rightarrow> u64 \<Rightarrow> string \<Rightarrow> ('c, 'sk) dm_runtime \<Rightarrow> ('c, 'sk) dm_runtime \<times> (dm_error, unit) result" where
  "admit_queued env now i rt =
     (case persist_admission env now i rt of
        (rt1, Inl e) \<Rightarrow>
          (case on_session_result (settle_text env now i (Err e)) rt1 of
             (rt2, Inl err) \<Rightarrow> (rt2, Err err)
           | (rt2, Inr _) \<Rightarrow> (fst (persist_send env now i True rt2), Err (Persistence e)))
      | (rt1, Inr _) \<Rightarrow>
          (case on_session_result (activate_text env i) rt1 of
             (rt2, Inl e) \<Rightarrow> (rt2, Err (log_error_dm e))
           | (rt2, Inr _) \<Rightarrow>
               (on_session (\<lambda>s. pump_hello env now (wake_presence_retry s)) (fst (persist_send env now i True rt2)), Ok ())))"

definition PAYLOAD_TOO_LARGE_TEXT :: string where
  "PAYLOAD_TOO_LARGE_TEXT = ''message metadata exceeds the network payload limit''"

fun deliver_loop ::
    "('c, 'vk, 'sg, 'sk, 't) text_env \<Rightarrow> u64 \<Rightarrow> string list \<Rightarrow> ('c, 'sk) dm_runtime \<Rightarrow> ('c, 'sk) dm_runtime \<times> (dm_error, unit) result" where
  "deliver_loop env now [] rt = (rt, Ok ())"
| "deliver_loop env now (i # rest) rt =
     (case persist_send env now i True rt of
        (rt1, Inl e) \<Rightarrow> (rt1, Err (Persistence e))
      | (rt1, Inr _) \<Rightarrow>
          (case on_session_result (publish_queued env now i) rt1 of
             (rt2, Inl PayloadTooLarge) \<Rightarrow>
               (case on_session_result (settle_text env now i (Err PAYLOAD_TOO_LARGE_TEXT)) rt2 of
                  (rt3, Inl err) \<Rightarrow> (rt3, Err err)
                | (rt3, Inr _) \<Rightarrow>
                    (case persist_send env now i True rt3 of
                       (rt4, Inl e) \<Rightarrow> (rt4, Err (Persistence e))
                     | (rt4, Inr _) \<Rightarrow> deliver_loop env now rest rt4))
           | (rt2, Inl _) \<Rightarrow> (rt2, Ok ())
           | (rt2, Inr _) \<Rightarrow>
               (case persist_send env now i True rt2 of
                  (rt3, Inl _) \<Rightarrow> (rt3, Ok ())
                | (rt3, Inr _) \<Rightarrow> deliver_loop env now rest rt3)))"

definition deliver_queued ::
    "('c, 'vk, 'sg, 'sk, 't) text_env \<Rightarrow> u64 \<Rightarrow> ('c, 'sk) dm_runtime \<Rightarrow> ('c, 'sk) dm_runtime \<times> (dm_error, unit) result" where
  "deliver_queued env now rt =
     (if \<not> can_encrypt_for_peer (rt_session rt) \<or> \<not> device_outbox_ready env (rt_session rt) then (rt, Ok ())
      else deliver_loop env now (queued_in_order (tx_attempts (rt_session rt))) rt)"

definition send_result ::
    "string \<Rightarrow> ('c, 'sk) dm_runtime \<Rightarrow> (dm_error, outbound_attempt) result" where
  "send_result i rt = ok_or (bt_get (tx_attempts (rt_session rt)) i) (MissingMessage i)"

definition send_message ::
    "('c, 'vk, 'sg, 'sk, 't) text_env \<Rightarrow> u64 \<Rightarrow> string \<Rightarrow> string \<Rightarrow> ('c, 'sk) dm_runtime \<Rightarrow>
     ('c, 'sk) dm_runtime \<times> (dm_error, outbound_attempt) result" where
  "send_message env now occ t rt =
     (if \<not> text_fits t then (rt, Err BodyTooLarge)
      else
        (case on_session_result (file_text env now occ t) rt of
           (rt1, Inl e) \<Rightarrow> (rt1, Err e)
         | (rt1, Inr i) \<Rightarrow>
             (case admit_queued env now i rt1 of
                (rt2, Inl e) \<Rightarrow> (rt2, Err e)
              | (rt2, Inr _) \<Rightarrow>
                  (let rt3 = fst (deliver_queued env now rt2)
                   in case send_result i rt3 of
                        Inl e \<Rightarrow> (rt3, Err e)
                      | Inr a \<Rightarrow> (fst (persist_tail env now rt3), Ok a)))))"

definition retry_message ::
    "('c, 'vk, 'sg, 'sk, 't) text_env \<Rightarrow> u64 \<Rightarrow> string \<Rightarrow> ('c, 'sk) dm_runtime \<Rightarrow>
     ('c, 'sk) dm_runtime \<times> (dm_error, outbound_attempt) result" where
  "retry_message env now i rt =
     (case bt_get (tx_attempts (rt_session rt)) i of
        None \<Rightarrow> (rt, Err (MissingMessage i))
      | Some a \<Rightarrow>
          if at_delivery_status a \<in> {Queued, Pending} then (rt, send_result i rt)
          else
            (case queued_body env i (rt_session rt) of
               Inl e \<Rightarrow> (rt, Err e)
             | Inr t \<Rightarrow>
                 if \<not> text_fits t then (rt, Err BodyTooLarge)
                 else
                   (case on_session_result (reopen_text env i) rt of
                      (rt1, Inl e) \<Rightarrow> (rt1, Err (log_error_dm e))
                    | (rt1, Inr _) \<Rightarrow>
                        (case admit_queued env now i rt1 of
                           (rt2, Inl e) \<Rightarrow> (rt2, Err e)
                         | (rt2, Inr _) \<Rightarrow>
                             (let rt3 = fst (deliver_queued env now rt2) in (rt3, send_result i rt3))))))"

text \<open>
  The part of a tick that concerns texts, for a session whose other protocols let it run: repeats, the
  rows whose state changed, the queue, the tail.
\<close>

definition tick_texts ::
    "('c, 'vk, 'sg, 'sk, 't) text_env \<Rightarrow> u64 \<Rightarrow> ('c, 'sk) dm_runtime \<Rightarrow> ('c, 'sk) dm_runtime" where
  "tick_texts env now rt =
     (let (s, changed) = pump_unacked_resends env now (rt_session rt);
          dirty = changed @ tx_dirty s;
          rt1 = rt\<lparr>rt_session := s\<lparr>tx_dirty := []\<rparr>\<rparr>;
          rt2 = fold (\<lambda>i rt. fst (persist_send env now i False rt)) dirty rt1;
          rt3 = fst (deliver_queued env now rt2)
      in fst (persist_tail env now rt3))"

section \<open>What the operations leave alone\<close>

definition delivered_log :: "'x message_scheme message_log \<Rightarrow> string set" where
  "delivered_log l = {i. \<exists>m \<in> set (log_messages l). message_id m = Some i \<and> delivery_status m = Some Delivered}"

text \<open>The messages of others, by author and id.\<close>

definition inbound_keys :: "string \<Rightarrow> 'x message_scheme message_log \<Rightarrow> (string \<times> string option) list" where
  "inbound_keys d l = map (\<lambda>m. (from_device m, message_id m)) (filter (\<lambda>m. from_device m \<noteq> d) (log_messages l))"

definition log_calm :: "string \<Rightarrow> 'x message_scheme message_log \<Rightarrow> 'x message_scheme message_log \<Rightarrow> bool" where
  "log_calm d l l' \<longleftrightarrow> delivered_log l' \<subseteq> delivered_log l \<and> (distinct (inbound_keys d l) \<longrightarrow> distinct (inbound_keys d l'))"

lemma log_calm_refl: "log_messages l' = log_messages l \<Longrightarrow> log_calm d l l'"
  by (simp add: log_calm_def delivered_log_def inbound_keys_def)

lemma log_calm_trans: "log_calm d l l' \<Longrightarrow> log_calm d l' l'' \<Longrightarrow> log_calm d l l''"
  by (auto simp: log_calm_def)

lemma set_update_first: "set (update_first P f xs) \<subseteq> set xs \<union> f ` {x \<in> set xs. P x}"
  by (induction xs) auto

lemma inbound_update_first:
  assumes "\<And>x. from_device (f x) = from_device x" and "\<And>x. message_id (f x) = message_id x"
  shows "map (\<lambda>m. (from_device m, message_id m)) (filter (\<lambda>m. from_device m \<noteq> d) (update_first P f xs)) =
    map (\<lambda>m. (from_device m, message_id m)) (filter (\<lambda>m. from_device m \<noteq> d) xs)"
  by (induction xs) (auto simp: assms)

lemma set_delivery_simps [simp]:
  "from_device (set_delivery d m) = from_device m" "message_id (set_delivery d m) = message_id m"
  "delivery_status (set_delivery d m) = dl_status d" "body (set_delivery d m) = body m" "metadata (set_delivery d m) = metadata m"
  by (simp_all add: set_delivery_def)

lemma mark_delivered_log:
  "delivered_log (fst (mark_delivery i st e n l)) \<subseteq> (if st = Delivered then insert i (delivered_log l) else delivered_log l)"
  using set_update_first [of "has_id i" "set_delivery (delivery_meta st e n)" "log_messages l"]
  by (auto simp: delivered_log_def mark_delivery_def Let_def delivery_meta_def has_id_def split: option.split)

lemma mark_inbound_keys: "inbound_keys d (fst (mark_delivery i st e n l)) = inbound_keys d l"
  by (simp add: inbound_keys_def mark_delivery_def Let_def inbound_update_first split: option.split)

lemma calm_mark: "st \<noteq> Delivered \<Longrightarrow> log_calm d l (fst (mark_delivery i st e n l))"
  using mark_delivered_log [of i st e n l] by (simp add: log_calm_def mark_inbound_keys)

lemma log_messages_upsert_cases:
  "log_messages (upsert m l) = log_messages l @ [m] \<or> log_messages (upsert m l) = log_messages l \<or>
   (\<exists>P. log_messages (upsert m l) = update_first P (\<lambda>_. m) (log_messages l))"
proof (cases "message_id m")
  case (Some i)
  then show ?thesis by (cases "find_message i l") (auto simp: upsert_def Let_def)
qed (simp add: upsert_def Let_def)

lemma calm_upsert_own:
  assumes "from_device m = d" and "delivery_status m \<noteq> Some Delivered"
  shows "log_calm d l (upsert m l)"
proof -
  have keys: "distinct (map (\<lambda>m. (from_device m, message_id m)) (filter (\<lambda>m. from_device m \<noteq> d) (update_first P (\<lambda>_. m) xs)))"
    if "distinct (map (\<lambda>m. (from_device m, message_id m)) (filter (\<lambda>m. from_device m \<noteq> d) xs))" for P and xs :: "'a message_scheme list"
  proof -
    have "set (filter (\<lambda>m. from_device m \<noteq> d) (update_first P (\<lambda>_. m) xs)) \<subseteq> set (filter (\<lambda>m. from_device m \<noteq> d) xs)" for xs
      using set_update_first [of P "\<lambda>_. m" xs] assms(1) by auto
    with that show ?thesis
    proof (induction xs)
      case (Cons x xs)
      then show ?case using assms(1) by (auto simp: image_iff) blast+
    qed simp
  qed
  obtain xs where xs: "log_messages (upsert m l) = xs"
    "xs = log_messages l @ [m] \<or> xs = log_messages l \<or> (\<exists>P. xs = update_first P (\<lambda>_. m) (log_messages l))"
    using log_messages_upsert_cases [of m l] by blast
  have "delivered_log (upsert m l) \<subseteq> delivered_log l"
    using xs assms(2) set_update_first [of _ "\<lambda>_. m" "log_messages l"] by (fastforce simp: delivered_log_def)
  moreover have "distinct (inbound_keys d (upsert m l))" if "distinct (inbound_keys d l)"
    using xs that assms(1) keys by (auto simp: inbound_keys_def)
  ultimately show ?thesis by (simp add: log_calm_def)
qed

lemma stamp_log_messages [simp]: "log_messages (fst (stamp now occ m l)) = log_messages l"
  by (simp add: stamp_def next_id_def Let_def case_prod_unfold)

lemma calm_mark_and_sync: "st \<noteq> Delivered \<Longrightarrow> log_calm d (ox_log ox) (ox_log (fst (mark_and_sync env i st e n ox)))"
  by (simp add: mark_and_sync_ox_log calm_mark)

lemma calm_settle: "log_calm d (ox_log ox) (ox_log (fst (settle env now i outcome how ox)))"
  by (cases outcome) (auto simp: settle_def Let_def case_prod_unfold mark_and_sync_ox_log calm_mark split: sum.split on_sent.split)

lemma calm_activate: "log_calm d (ox_log ox) (ox_log (fst (activate_queue env i ox)))"
  by (simp add: activate_queue_def log_calm_refl mark_and_sync_ox_log calm_mark split: option.split)

lemma calm_reopen: "log_calm d (ox_log ox) (ox_log (fst (reopen env i ox)))"
proof -
  have "log_calm d (ox_log ox) (ox_log (fst (reopen_as env i Pending ox)))"
  proof (cases "bt_get (ox_attempts ox) i")
    case (Some a)
    then show ?thesis
      using calm_mark_and_sync [of Pending d "ox\<lparr>ox_attempts := bt_insert i (a\<lparr>at_retry_count := saturating_succ (at_retry_count a),
          at_delivery_status := Pending, at_delivery_error := None\<rparr>) (ox_attempts ox)\<rparr>" env i None
          "saturating_succ (at_retry_count a)"]
      by (auto simp: reopen_as_def Let_def log_calm_refl split: sum.split prod.split)
  qed (simp add: reopen_as_def log_calm_refl)
  then show ?thesis by (simp add: reopen_def)
qed

lemma calm_open_send:
  assumes "from_device m = d" and "delivery_status m \<noteq> Some Delivered"
  shows "log_calm d (ox_log ox) (ox_log (fst (open_send env now m c payload n ox)))"
  using log_calm_trans [OF calm_upsert_own [OF assms] calm_mark [of Pending]]
  by (auto simp: open_send_def file_send_def Let_def case_prod_unfold split: sum.split)

text \<open>The relation between a session and the session after an operation that is no receipt.\<close>

definition calm :: "('c, 'sk) dm_text \<Rightarrow> ('c, 'sk) dm_text \<Rightarrow> bool" where
  "calm s s' \<longleftrightarrow> tx_membership s' = tx_membership s \<and> ss_device_id (tx_base s') = ss_device_id (tx_base s) \<and>
     ss_session_id (tx_base s') = ss_session_id (tx_base s) \<and> log_calm (ss_device_id (tx_base s)) (tx_log s) (tx_log s')"

lemma calm_refl [simp]: "calm s s"
  by (simp add: calm_def log_calm_refl)

lemma calm_trans: "calm s s' \<Longrightarrow> calm s' s'' \<Longrightarrow> calm s s''"
  by (auto simp: calm_def intro: log_calm_trans)

lemma calm_base: "tx_base s' = tx_base s \<Longrightarrow> calm s s'"
  by (simp add: calm_def log_calm_refl)

lemma calm_rebase: "calm s s' \<Longrightarrow> tx_base s'' = tx_base s' \<Longrightarrow> calm s s''"
  by (simp add: calm_def)

lemma calm_with_outbox:
  "log_calm (ss_device_id (tx_base s)) (tx_log s) (ox_log ox) \<Longrightarrow> calm s (with_outbox ox s)"
  by (simp add: calm_def with_outbox_def)

lemma calm_with_log: "log_messages l = log_messages (tx_log s) \<Longrightarrow> calm s (with_log l s)"
  by (simp add: calm_def with_log_def log_calm_refl)

lemma text_outbox_log [simp]: "ox_log (text_outbox s) = tx_log s" "ox_attempts (text_outbox s) = tx_attempts s"
  by (simp_all add: text_outbox_def)

lemma calm_fold: "(\<And>x s. calm s (f x s)) \<Longrightarrow> calm s (fold f xs s)"
  by (induction xs arbitrary: s) (auto intro: calm_trans)

lemma calm_resume_one: "calm s (resume_one env i s)"
proof -
  obtain ox r where a: "activate_queue (tv_out env) i (text_outbox s) = (ox, r)" by fastforce
  have "calm s (with_outbox ox s)"
    using calm_activate [of "ss_device_id (tx_base s)" "text_outbox s" "tv_out env" i] a by (intro calm_with_outbox) simp
  with a show ?thesis
    by (cases r) (auto simp: resume_one_def Let_def intro: calm_rebase)
qed

lemma calm_resume: "calm s (resume_exhausted_sends env s)"
  unfolding resume_exhausted_sends_def by (rule calm_fold) (rule calm_resume_one)

lemma note_authenticated_frame_simps [simp]:
  "ss_membership (note_authenticated_frame name b) = ss_membership b" "ss_device_id (note_authenticated_frame name b) = ss_device_id b"
  "ss_session_id (note_authenticated_frame name b) = ss_session_id b" "ss_messages (note_authenticated_frame name b) = ss_messages b"
  by (simp_all add: note_authenticated_frame_def note_peer_name_def Let_def)

lemma calm_note_contact: "calm s (note_contact env name s)"
proof -
  have "calm s (s\<lparr>tx_base := note_authenticated_frame name (tx_base s)\<rparr>)" by (simp add: calm_def log_calm_refl)
  then show ?thesis
    by (auto simp: note_contact_def Let_def intro: calm_trans calm_resume)
qed

lemma send_frame_fields [simp]:
  "tx_base (fst (send_frame env kind payload s)) = tx_base s"
  "tx_participant_id (fst (send_frame env kind payload s)) = tx_participant_id s"
  "tx_attempts (fst (send_frame env kind payload s)) = tx_attempts s"
  "tx_crypto (fst (send_frame env kind payload s)) = tx_crypto s"
  by (simp_all add: send_frame_def Let_def case_prod_unfold)

lemma send_frame_base: "send_frame env kind payload s = (s', r) \<Longrightarrow> tx_base s' = tx_base s"
  using send_frame_fields(1) [of env kind payload s] by simp

lemma track_device_receipts_fields [simp]:
  "tx_base (track_device_receipts i s) = tx_base s" "tx_participant_id (track_device_receipts i s) = tx_participant_id s"
  "tx_attempts (track_device_receipts i s) = tx_attempts s" "tx_crypto (track_device_receipts i s) = tx_crypto s"
  "tx_frames (track_device_receipts i s) = tx_frames s"
  by (simp_all add: track_device_receipts_def split: option.split)

lemma publish_text_base: "tx_base (fst (publish_text env i resend s)) = tx_base s"
  by (auto simp: publish_text_def Let_def split: sum.split prod.split dest: send_frame_base)

lemma calm_publish_text: "calm s (fst (publish_text env i resend s))"
  by (rule calm_base) (rule publish_text_base)

lemma calm_settle_text: "calm s (fst (settle_text env now i outcome s))"
  unfolding settle_text_def Let_def case_prod_unfold fst_conv
  by (rule calm_with_outbox) (use calm_settle [where ox = "text_outbox s"] in simp)

lemma calm_publish_queued: "calm s (fst (publish_queued env now i s))"
proof -
  obtain s1 r where p: "publish_text env i None s = (s1, r)" by fastforce
  have "calm s s1" using calm_publish_text [of s env i None] by (simp add: p)
  with calm_settle_text [of s1 env now i "Ok ()"] show ?thesis
    by (cases r) (auto simp: publish_queued_def p intro: calm_trans)
qed

lemma calm_resend_one: "calm s (resend_one env now d s)"
proof -
  obtain i n where d: "d = (i, n)" by fastforce
  let ?s = "s\<lparr>tx_attempts := update_attempt i (\<lambda>a. a\<lparr>at_last_send_ms := now\<rparr>) (tx_attempts s)\<rparr>"
  have "tx_base (fst (publish_text env i (Some (n + 1)) ?s)) = tx_base s" by (simp add: publish_text_base)
  then show ?thesis
    by (intro calm_base) (auto simp: resend_one_def d Let_def split: prod.split sum.split)
qed

lemma calm_pump: "calm s (fst (pump_unacked_resends env now s))"
proof -
  have "calm s (fst (finish_device_resends s))"
    by (simp add: finish_device_resends_def Let_def calm_def log_calm_refl)
  with calm_fold [of "resend_one env now", OF calm_resend_one] show ?thesis
    by (auto simp: pump_unacked_resends_def Let_def case_prod_unfold intro: calm_trans)
qed

lemma send_delivery_ack_base [simp]: "tx_base (send_delivery_ack env i s) = tx_base s"
  by (simp add: send_delivery_ack_def Let_def split: sum.split prod.split option.split)

lemma calm_wake: "calm s (wake_presence_retry s)"
  by (simp add: wake_presence_retry_def calm_def log_calm_refl)

lemma calm_hello: "calm s (pump_hello env now s)"
proof -
  have "calm s (send_hello env now s)" for s
    by (simp add: send_hello_def Let_def calm_def log_calm_refl split: sum.split prod.split option.split)
  from this [of "s\<lparr>tx_hello_answer_due := False\<rparr>"] show ?thesis
    by (auto simp: pump_hello_def Let_def calm_def log_calm_refl)
qed

lemma stamp_fields:
  "from_device (snd (stamp now occ m l)) = from_device m" "delivery_status (snd (stamp now occ m l)) = delivery_status m"
  "body (snd (stamp now occ m l)) = body m" "metadata (snd (stamp now occ m l)) = metadata m"
  "message_id m = Some i \<Longrightarrow> i \<noteq> [] \<Longrightarrow> message_id (snd (stamp now occ m l)) = Some i"
  "message_id (snd (stamp now occ m l)) \<noteq> None"
  by (auto simp: stamp_def Let_def case_prod_unfold split: option.split)

lemma calm_file_text: "calm s (fst (file_text env now occ t s))"
proof -
  let ?m0 = "\<lparr>metadata = None, from_device = ss_device_id (tx_base s), body = t, message_id = None, sent_at_ms = None,
      attachment = None, delivery_status = None, delivery_error = None, retryable = None, retry_count = None,
      call_event = None, read_receipt = None\<rparr> :: chat_message"
  obtain l m where lm: "stamp now occ ?m0 (tx_log s) = (l, m)" by fastforce
  have m: "from_device m = ss_device_id (tx_base s)" "delivery_status m = None"
    using stamp_fields(1,2) [of now occ ?m0 "tx_log s"] by (simp_all add: lm)
  have l: "log_messages l = log_messages (tx_log s)" using stamp_log_messages [of now occ ?m0 "tx_log s"] by (simp add: lm)
  then have s1: "calm s (with_log l s)" by (rule calm_with_log)
  have "calm (with_log l s) (with_outbox (fst (open_send (tv_out env) now (m\<lparr>metadata := x\<rparr>) c [] 0 (text_outbox (with_log l s))))
      (with_log l s))" for x c
    by (rule calm_with_outbox, rule calm_open_send [where ox = "text_outbox (with_log l s)", simplified])
      (simp_all add: m with_log_def)
  with s1 show ?thesis
    by (auto simp: file_text_def lm Let_def case_prod_unfold split: sum.split intro: calm_trans)
qed

subsection \<open>The runtime\<close>

abbreviation rt_calm :: "('c, 'sk) dm_runtime \<Rightarrow> ('c, 'sk) dm_runtime \<Rightarrow> bool" where
  "rt_calm rt rt' \<equiv> calm (rt_session rt) (rt_session rt')"

lemma calm_dirty: "calm s (s\<lparr>tx_base := (tx_base s)\<lparr>ss_record_dirty := d\<rparr>\<rparr>)"
  by (simp add: calm_def log_calm_refl)

lemma request_state_session [simp]: "rt_session (request_state a b c rt) = rt_session rt"
  by (simp add: request_state_def)

lemma calm_flush: "rt_calm rt (fst (flush_state env rt))"
  using calm_dirty by (auto simp: flush_state_def Let_def split: option.split sum.split)

lemma calm_persist_admission: "rt_calm rt (fst (persist_admission env now i rt))"
  by (simp add: persist_admission_def split: option.split sum.split)

lemma calm_persist_send: "rt_calm rt (fst (persist_send env now i deep rt))"
proof (cases "rt_store rt")
  case None
  then show ?thesis by (simp add: persist_send_def)
next
  case (Some store)
  let ?d = "(case bt_get (rt_sends rt) i of None \<Rightarrow> False | Some d \<Rightarrow> d) \<or> deep"
  let ?rt1 = "rt\<lparr>rt_sends := bt_insert i ?d (rt_sends rt)\<rparr>"
  show ?thesis
  proof (cases "save_rows env now i ?rt1 store")
    case (Inl e)
    with Some show ?thesis by (simp add: persist_send_def Let_def)
  next
    case (Inr b)
    obtain store1 found where b: "b = (store1, found)" by fastforce
    let ?rt2 = "?rt1\<lparr>rt_store := Some store1\<rparr>"
    let ?due = "record_due env ?rt2"
    have "rt_calm ?rt2 (fst (flush_state env (request_state (?d \<or> ?due) ?due ?due ?rt2)))"
      using calm_flush [of "request_state (?d \<or> ?due) ?due ?due ?rt2" env] by simp
    with Some Inr b show ?thesis
      by (auto simp: persist_send_def Let_def case_prod_unfold split: sum.split)
  qed
qed

lemma calm_retry_sends:
  fixes env :: "('c, 'vk, 'sg, 'sk, 't) text_env"
  shows "rt_calm rt (fst (retry_sends env now rt))"
proof -
  have "calm s0 (rt_session (fst (fold (\<lambda>(i, deep) (rt, first). case persist_send env now i deep rt of
         (rt1, Inl e) \<Rightarrow> (rt1, case first of None \<Rightarrow> Some e | Some f \<Rightarrow> Some f)
       | (rt1, Inr _) \<Rightarrow> (rt1, first)) xs (rt, f))))" if "calm s0 (rt_session rt)" for s0 xs f and rt :: "('c, 'sk) dm_runtime"
    using that
  proof (induction xs arbitrary: rt f)
    case (Cons x xs)
    obtain i deep where x: "x = (i, deep)" by fastforce
    obtain rt1 r where p: "persist_send env now i deep rt = (rt1, r)" by fastforce
    have "calm s0 (rt_session rt1)" using Cons.prems calm_persist_send [of rt env now i deep] by (auto simp: p intro: calm_trans)
    from Cons.IH [OF this] show ?case by (cases r) (simp_all add: x p)
  qed simp
  from this [OF calm_refl] show ?thesis by (simp add: retry_sends_def)
qed

lemma calm_persist_tail: "rt_calm rt (fst (persist_tail env now rt))"
proof -
  obtain rt1 e where r: "retry_sends env now rt = (rt1, e)" by fastforce
  have c1: "rt_calm rt rt1" using calm_retry_sends [of rt env now] by (simp add: r)
  have "rt_calm rt (fst (flush_state env (request_state a b b (rt1\<lparr>rt_store := st, rt_count := n\<rparr>))))" for a b st n
    using calm_trans [OF c1, of "rt_session (fst (flush_state env (request_state a b b (rt1\<lparr>rt_store := st, rt_count := n\<rparr>))))"]
      calm_flush [of "request_state a b b (rt1\<lparr>rt_store := st, rt_count := n\<rparr>)" env] by simp
  with c1 show ?thesis
    by (auto simp: persist_tail_def r Let_def split: option.split sum.split prod.split)
qed

lemma calm_on_session: "(\<And>s. calm s (f s)) \<Longrightarrow> rt_calm rt (on_session f rt)"
  by (simp add: on_session_def)

lemma calm_on_session_result: "(\<And>s. calm s (fst (f s))) \<Longrightarrow> on_session_result f rt = (rt', r) \<Longrightarrow> rt_calm rt rt'"
  by (auto simp: on_session_result_def Let_def split: prod.splits) (metis fst_conv)

lemma calm_activate_session:
  "calm s (fst (activate_text env i s))"
  using calm_activate [of "ss_device_id (tx_base s)" "text_outbox s" "tv_out env" i]
  by (auto simp: activate_text_def Let_def case_prod_unfold intro: calm_with_outbox)

lemma calm_reopen_session:
  "calm s (fst (reopen_text env i s))"
  using calm_reopen [of "ss_device_id (tx_base s)" "text_outbox s" "tv_out env" i]
  by (auto simp: reopen_text_def Let_def case_prod_unfold intro: calm_with_outbox)

lemma calm_admit: "rt_calm rt (fst (admit_queued env now i rt))"
proof -
  obtain rt1 r where p: "persist_admission env now i rt = (rt1, r)" by fastforce
  have c1: "rt_calm rt rt1" using calm_persist_admission [of rt env now i] by (simp add: p)
  have send: "rt_calm rt (fst (persist_send env now i True rt2))" if "rt_calm rt1 rt2" for rt2
    using c1 that calm_persist_send [of rt2 env now i True] by (blast intro: calm_trans)
  show ?thesis
  proof (cases r)
    case (Inl e)
    obtain rt2 r2 where o: "on_session_result (settle_text env now i (Err e)) rt1 = (rt2, r2)" by fastforce
    have "rt_calm rt1 rt2" by (rule calm_on_session_result [OF calm_settle_text o])
    with send c1 show ?thesis by (cases r2) (auto simp: admit_queued_def p Inl o intro: calm_trans)
  next
    case (Inr u)
    obtain rt2 r2 where o: "on_session_result (activate_text env i) rt1 = (rt2, r2)" by fastforce
    have c2: "rt_calm rt1 rt2" by (rule calm_on_session_result [OF calm_activate_session o])
    have "rt_calm (fst (persist_send env now i True rt2))
        (on_session (\<lambda>s. pump_hello env now (wake_presence_retry s)) (fst (persist_send env now i True rt2)))"
      by (rule calm_on_session) (blast intro: calm_trans calm_wake calm_hello)
    with send [OF c2] c1 c2 show ?thesis
      by (cases r2) (auto simp: admit_queued_def p Inr o intro: calm_trans)
  qed
qed

lemma calm_deliver_loop: "rt_calm rt (fst (deliver_loop env now ids rt))"
proof (induction ids arbitrary: rt)
  case (Cons i ids)
  obtain rt1 r1 where p1: "persist_send env now i True rt = (rt1, r1)" by fastforce
  have c1: "rt_calm rt rt1" using calm_persist_send [of rt env now i True] by (simp add: p1)
  obtain rt2 r2 where p2: "on_session_result (publish_queued env now i) rt1 = (rt2, r2)" by fastforce
  have c2: "rt_calm rt rt2" using c1 calm_on_session_result [OF calm_publish_queued p2] by (rule calm_trans)
  obtain rt3 r3 where p3: "on_session_result (settle_text env now i (Err PAYLOAD_TOO_LARGE_TEXT)) rt2 = (rt3, r3)" by fastforce
  have c3: "rt_calm rt rt3" using c2 calm_on_session_result [OF calm_settle_text p3] by (rule calm_trans)
  obtain rt4 r4 where p4: "persist_send env now i True rt3 = (rt4, r4)" by fastforce
  have c4: "rt_calm rt rt4" using c3 calm_persist_send [of rt3 env now i True] by (auto simp: p4 intro: calm_trans)
  obtain rt5 r5 where p5: "persist_send env now i True rt2 = (rt5, r5)" by fastforce
  have c5: "rt_calm rt rt5" using c2 calm_persist_send [of rt2 env now i True] by (auto simp: p5 intro: calm_trans)
  have "rt_calm rt (fst (deliver_loop env now ids rt4))" "rt_calm rt (fst (deliver_loop env now ids rt5))"
    using calm_trans [OF c4 Cons.IH] calm_trans [OF c5 Cons.IH] by simp_all
  with c1 c2 c3 c4 c5 show ?case
    by (auto simp: p1 p2 p3 p4 p5 split: sum.split dm_error.split)
qed simp

lemma calm_deliver: "rt_calm rt (fst (deliver_queued env now rt))"
  by (simp add: deliver_queued_def calm_deliver_loop)

lemma calm_send_message: "rt_calm rt (fst (send_message env now occ t rt))"
proof -
  obtain rt1 r1 where p1: "on_session_result (file_text env now occ t) rt = (rt1, r1)" by fastforce
  have c1: "rt_calm rt rt1" by (rule calm_on_session_result [OF calm_file_text p1])
  show ?thesis
  proof (cases r1)
    case (Inr i)
    obtain rt2 r2 where p2: "admit_queued env now i rt1 = (rt2, r2)" by fastforce
    have c2: "rt_calm rt rt2" using c1 calm_admit [of rt1 env now i] by (auto simp: p2 intro: calm_trans)
    have c3: "rt_calm rt (fst (deliver_queued env now rt2))" using c2 calm_deliver by (rule calm_trans)
    with calm_trans [OF c3 calm_persist_tail] c2 show ?thesis
      by (cases r2) (auto simp: send_message_def p1 Inr p2 Let_def split: sum.split)
  qed (use c1 in \<open>simp add: send_message_def p1\<close>)
qed

lemma calm_retry_message: "rt_calm rt (fst (retry_message env now i rt))"
proof -
  obtain rt1 r1 where p1: "on_session_result (reopen_text env i) rt = (rt1, r1)" by fastforce
  have c1: "rt_calm rt rt1" by (rule calm_on_session_result [OF calm_reopen_session p1])
  obtain rt2 r2 where p2: "admit_queued env now i rt1 = (rt2, r2)" by fastforce
  have c2: "rt_calm rt rt2" using c1 calm_admit [of rt1 env now i] by (auto simp: p2 intro: calm_trans)
  have c3: "rt_calm rt (fst (deliver_queued env now rt2))" using c2 calm_deliver by (rule calm_trans)
  show ?thesis
    using c1 c2 c3 by (cases r1; cases r2) (auto simp: retry_message_def p1 p2 Let_def split: option.split sum.split)
qed

lemma calm_tick_texts: "rt_calm rt (tick_texts env now rt)"
proof -
  obtain s changed where p: "pump_unacked_resends env now (rt_session rt) = (s, changed)" by fastforce
  let ?rt1 = "rt\<lparr>rt_session := s\<lparr>tx_dirty := []\<rparr>\<rparr>"
  have "calm (rt_session rt) s" using calm_pump [of "rt_session rt" env now] by (simp add: p)
  then have c1: "rt_calm rt ?rt1" by (auto intro: calm_rebase)
  have fold: "rt_calm rt0 (fold (\<lambda>i rt. fst (persist_send env now i False rt)) ids rt0)" for ids rt0
    by (induction ids arbitrary: rt0) (auto intro: calm_trans calm_persist_send)
  let ?rt2 = "fold (\<lambda>i rt. fst (persist_send env now i False rt)) (changed @ tx_dirty s) ?rt1"
  have "rt_calm rt ?rt2" using c1 fold by (rule calm_trans)
  then have "rt_calm rt (fst (deliver_queued env now ?rt2))" using calm_deliver by (rule calm_trans)
  then have "rt_calm rt (fst (persist_tail env now (fst (deliver_queued env now ?rt2))))" using calm_persist_tail by (rule calm_trans)
  then show ?thesis by (simp add: tick_texts_def p Let_def)
qed

section \<open>Receiving\<close>

text \<open>The messages this device takes for delivered: by its log, or by what its other devices' texts will show.\<close>

definition claimed :: "('c, 'sk) dm_text \<Rightarrow> string set" where
  "claimed s = delivered_log (tx_log s) \<union> (case tx_membership s of None \<Rightarrow> {} | Some m \<Rightarrow> set (mb_delivered_ids m))"

lemma calm_claimed: "calm s s' \<Longrightarrow> claimed s' \<subseteq> claimed s"
  by (auto simp: calm_def claimed_def log_calm_def split: option.splits)

lemma calm_inbound:
  "calm s s' \<Longrightarrow> distinct (inbound_keys (ss_device_id (tx_base s)) (tx_log s)) \<Longrightarrow>
   distinct (inbound_keys (ss_device_id (tx_base s')) (tx_log s'))"
  by (simp add: calm_def log_calm_def)

lemma stamp_id: "\<exists>i. message_id (snd (stamp now occ m l)) = Some i \<and> i \<noteq> []"
  by (auto simp: stamp_def next_id_def Let_def split: option.split)

lemma holds_copy_key:
  assumes "x \<in> set (log_messages l)" and "from_device x = from_device m" and "message_id x = message_id m"
    and "message_id m = Some i" and "i \<noteq> []"
  shows "holds_copy_of from_device m l"
  using assms by (auto simp: holds_copy_of_def list_ex_iff same_copy_def intro!: bexI [of _ x])

lemma log_push_messages:
  "log_messages (log_push m l) = log_messages l \<or> log_messages (log_push m l) = log_messages l @ [m]"
  by (simp add: log_push_def Let_def)

text \<open>A received text leaves the log as it was or adds one message, of which the log held no copy.\<close>

lemma holds_copy_messages: "log_messages l = log_messages l' \<Longrightarrow> holds_copy_of author m l = holds_copy_of author m l'"
  by (simp add: holds_copy_of_def)

lemma stamp_erased [simp]: "erased_ids (fst (stamp now occ m l)) = erased_ids l"
  by (simp add: stamp_def next_id_def Let_def case_prod_unfold)

lemma store_received_log:
  fixes s :: "('c, 'sk) dm_text" and env :: "('c, 'vk, 'sg, 'sk, 't) text_env"
  assumes def: "s' = store_received env now occ e plaintext author own s"
  obtains s1 m i where "calm s s1" "tx_membership s' = tx_membership s" "ss_device_id (tx_base s') = ss_device_id (tx_base s)"
    "from_device m = author" "message_id m = Some i" "i \<noteq> []" "body m = from_utf8_lossy plaintext"
    "\<And>j. de_message_id e = Some j \<Longrightarrow> j \<noteq> [] \<Longrightarrow> i = j"
    "delivery_status m = Some Delivered \<Longrightarrow>
       \<exists>j mb. de_message_id e = Some j \<and> tx_membership s = Some mb \<and> j \<in> set (mb_delivered_ids mb)"
    "log_messages (tx_log s') = log_messages (tx_log s1) \<or>
     log_messages (tx_log s') = log_messages (tx_log s1) @ [m] \<and> \<not> holds_copy_of from_device m (tx_log s1)"
proof -
  let ?s1 = "if own then s else clear_peer_typing (note_contact env author s)"
  have c: "calm s ?s1"
    using calm_rebase [OF calm_note_contact [of s env author], of "clear_peer_typing (note_contact env author s)"]
    by (simp add: clear_peer_typing_def)
  then have mb: "tx_membership ?s1 = tx_membership s" "ss_device_id (tx_base ?s1) = ss_device_id (tx_base s)" by (auto simp: calm_def)
  let ?m0 = "\<lparr>metadata = Some (default_metadata\<lparr>md_origin := de_origin e, md_is_own := Some own\<rparr>), from_device = author,
      body = from_utf8_lossy plaintext, message_id = de_message_id e, sent_at_ms = de_sent_at_ms e, attachment = None,
      delivery_status = (if own then Some (if seen_by_peer e ?s1 then Delivered else Sent) else None), delivery_error = None,
      retryable = None, retry_count = None, call_event = None, read_receipt = None\<rparr> :: chat_message"
  obtain l m where lm: "stamp now occ ?m0 (tx_log ?s1) = (l, m)" by fastforce
  note m = stamp_fields [where now = now and occ = occ and m = ?m0 and l = "tx_log ?s1", unfolded lm snd_conv]
  have l: "log_messages l = log_messages (tx_log ?s1)" using stamp_log_messages [of now occ ?m0 "tx_log ?s1"] lm by simp
  obtain i where i: "message_id m = Some i" "i \<noteq> []" using stamp_id [of now occ ?m0 "tx_log ?s1"] lm by auto
  have s': "s' = (if holds_copy_of from_device m l then with_log l ?s1
      else (case de_message_id e of None \<Rightarrow> with_log (log_push m l) (with_log l ?s1)
        | Some i \<Rightarrow> send_delivery_ack env i (with_log (log_push m l) (with_log l ?s1))))"
    unfolding def store_received_def Let_def lm prod.case ..
  have "log_messages (tx_log s') = log_messages (tx_log ?s1) \<or>
     log_messages (tx_log s') = log_messages (tx_log ?s1) @ [m] \<and> \<not> holds_copy_of from_device m (tx_log ?s1)"
    using log_push_messages [of m l] holds_copy_messages [OF l, of from_device m] l
    by (auto simp: s' with_log_def split: option.split)
  moreover have "tx_membership s' = tx_membership s" "ss_device_id (tx_base s') = ss_device_id (tx_base s)"
    using mb by (cases own; simp add: s' with_log_def split: option.split)+
  moreover have "\<exists>j mb. de_message_id e = Some j \<and> tx_membership s = Some mb \<and> j \<in> set (mb_delivered_ids mb)"
    if "delivery_status m = Some Delivered"
    using that m(2) mb(1) by (auto simp: seen_by_peer_def peer_delivered_def split: if_splits option.splits)
  moreover have "i = j" if "de_message_id e = Some j" "j \<noteq> []" for j
    using m(5) [of j] that i(1) by simp
  ultimately show thesis
    using m(1,3) i c by (intro that [of ?s1 m i]) simp_all
qed

lemma store_received_claims:
  fixes s :: "('c, 'sk) dm_text" and env :: "('c, 'vk, 'sg, 'sk, 't) text_env"
  assumes def: "s' = store_received env now occ e plaintext author own s"
  shows "[] \<notin> claimed s \<Longrightarrow> claimed s' \<subseteq> claimed s"
    and "ss_device_id (tx_base s') = ss_device_id (tx_base s)"
    and "distinct (inbound_keys (ss_device_id (tx_base s)) (tx_log s)) \<Longrightarrow>
      distinct (inbound_keys (ss_device_id (tx_base s)) (tx_log s'))"
proof -
  obtain s1 m i where r: "calm s s1" "tx_membership s' = tx_membership s" "ss_device_id (tx_base s') = ss_device_id (tx_base s)"
    "from_device m = author" "message_id m = Some i" "i \<noteq> []" "\<And>j. de_message_id e = Some j \<Longrightarrow> j \<noteq> [] \<Longrightarrow> i = j"
    "delivery_status m = Some Delivered \<Longrightarrow>
       \<exists>j mb. de_message_id e = Some j \<and> tx_membership s = Some mb \<and> j \<in> set (mb_delivered_ids mb)"
    "log_messages (tx_log s') = log_messages (tx_log s1) \<or>
     log_messages (tx_log s') = log_messages (tx_log s1) @ [m] \<and> \<not> holds_copy_of from_device m (tx_log s1)"
    by (rule store_received_log [OF def]) blast
  show "ss_device_id (tx_base s') = ss_device_id (tx_base s)" by (rule r(3))
  have sub: "delivered_log (tx_log s1) \<subseteq> delivered_log (tx_log s)" using r(1) by (simp add: calm_def log_calm_def)
  show "claimed s' \<subseteq> claimed s" if "[] \<notin> claimed s"
  proof
    have new: "delivered_log (tx_log s') \<subseteq> delivered_log (tx_log s1) \<union> (if delivery_status m = Some Delivered then {i} else {})"
      using r(5,9) by (auto simp: delivered_log_def)
    fix k assume "k \<in> claimed s'"
    then have "k \<in> delivered_log (tx_log s') \<or> (\<exists>mb. tx_membership s = Some mb \<and> k \<in> set (mb_delivered_ids mb))"
      using r(2) by (auto simp: claimed_def split: option.splits)
    with new consider "k \<in> delivered_log (tx_log s1)" | "k = i" "delivery_status m = Some Delivered"
      | mb where "tx_membership s = Some mb" "k \<in> set (mb_delivered_ids mb)"
      by (auto split: if_splits)
    then show "k \<in> claimed s"
    proof cases
      case 2
      then obtain j mb where "de_message_id e = Some j" "tx_membership s = Some mb" "j \<in> set (mb_delivered_ids mb)"
        using r(8) by blast
      then show ?thesis using r(7) [of j] that 2(1) by (cases "j = []") (auto simp: claimed_def)
    qed (use sub in \<open>auto simp: claimed_def\<close>)
  qed
  assume "distinct (inbound_keys (ss_device_id (tx_base s)) (tx_log s))"
  then have "distinct (inbound_keys (ss_device_id (tx_base s)) (tx_log s1))" using r(1) by (simp add: calm_def log_calm_def)
  moreover have "(from_device m, message_id m) \<notin> set (inbound_keys (ss_device_id (tx_base s)) (tx_log s1))"
    if fresh: "\<not> holds_copy_of from_device m (tx_log s1)"
  proof
    assume "(from_device m, message_id m) \<in> set (inbound_keys (ss_device_id (tx_base s)) (tx_log s1))"
    then obtain x where "x \<in> set (log_messages (tx_log s1))" "from_device x = from_device m" "message_id x = message_id m"
      by (auto simp: inbound_keys_def)
    from holds_copy_key [OF this r(5,6)] fresh show False by simp
  qed
  ultimately show "distinct (inbound_keys (ss_device_id (tx_base s)) (tx_log s'))"
    using r(9) by (auto simp: inbound_keys_def)
qed

lemma handle_data_cases:
  obtains (same) "tx_base (fst (handle_data env now occ payload s)) = tx_base s"
  | (stored) e plaintext author own c where
      "fst (handle_data env now occ payload s) = store_received env now occ e plaintext author own (s\<lparr>tx_crypto := c\<rparr>)"
proof -
  have receive: thesis if h: "fst (handle_data env now occ payload s) = fst (receive_text env now occ e expected s)" for e expected
  proof (cases "tx_base (fst (receive_text env now occ e expected s)) = tx_base s")
    case True
    with h same show ?thesis by simp
  next
    case False
    then obtain plaintext author own c where
        "fst (receive_text env now occ e expected s) = store_received env now occ e plaintext author own (s\<lparr>tx_crypto := c\<rparr>)"
      by (auto simp: receive_text_def Let_def split: sum.splits prod.splits if_splits)
    with h stored show ?thesis by simp
  qed
  show thesis
  proof (cases "tx_base (fst (handle_data env now occ payload s)) = tx_base s")
    case True
    then show ?thesis by (rule same)
  next
    case False
    then obtain e expected where "fst (handle_data env now occ payload s) = fst (receive_text env now occ e expected s)"
      by (auto simp: handle_data_def split: sum.splits option.splits if_splits)
    then show ?thesis by (rule receive)
  qed
qed

lemma handle_data_claims:
  fixes s :: "('c, 'sk) dm_text" and env :: "('c, 'vk, 'sg, 'sk, 't) text_env"
  shows "[] \<notin> claimed s \<Longrightarrow> claimed (fst (handle_data env now occ payload s)) \<subseteq> claimed s"
    and "ss_device_id (tx_base (fst (handle_data env now occ payload s))) = ss_device_id (tx_base s)"
    and "distinct (inbound_keys (ss_device_id (tx_base s)) (tx_log s)) \<Longrightarrow>
      distinct (inbound_keys (ss_device_id (tx_base s)) (tx_log (fst (handle_data env now occ payload s))))"
proof (atomize (full), cases rule: handle_data_cases [of env now occ payload s])
  case same
  then show "([] \<notin> claimed s \<longrightarrow> claimed (fst (handle_data env now occ payload s)) \<subseteq> claimed s) \<and>
      ss_device_id (tx_base (fst (handle_data env now occ payload s))) = ss_device_id (tx_base s) \<and>
      (distinct (inbound_keys (ss_device_id (tx_base s)) (tx_log s)) \<longrightarrow>
       distinct (inbound_keys (ss_device_id (tx_base s)) (tx_log (fst (handle_data env now occ payload s)))))"
    by (simp add: claimed_def)
next
  case (stored e plaintext author own c)
  then show "([] \<notin> claimed s \<longrightarrow> claimed (fst (handle_data env now occ payload s)) \<subseteq> claimed s) \<and>
      ss_device_id (tx_base (fst (handle_data env now occ payload s))) = ss_device_id (tx_base s) \<and>
      (distinct (inbound_keys (ss_device_id (tx_base s)) (tx_log s)) \<longrightarrow>
       distinct (inbound_keys (ss_device_id (tx_base s)) (tx_log (fst (handle_data env now occ payload s)))))"
    using store_received_claims [OF refl, where s = "s\<lparr>tx_crypto := c\<rparr>" and env = env and now = now and occ = occ and e = e and
        plaintext = plaintext and author = author and own = own] by (simp add: claimed_def)
qed

end
