(* ===== verification/Dm_Delivery.thy ===== *)
theory Dm_Delivery
  imports Dm_Messaging
begin

text \<open>
  The delivery of texts in a direct conversation, over the operations of \<open>Dm_Messaging\<close>. A run is a
  sequence of arriving frames, commands and ticks. Over runs, \<open>marks\<close> bounds what a step may add to
  the messages taken for delivered, and the interpretation of \<open>event_machine\<close> keeps the messages of
  others distinct. The queue's turn is described by the frames it adds, a refused save by the absence
  of any, and the path of a text by the operations of both sides composed.

  The theorems: a message counts as delivered only after a receipt of the contact; a message is never
  in the log twice however often its frame arrives; texts leave in the order they were written, and
  none leaves that could not be saved; and a text, taken in at the other side, brings the receipt that
  marks it as delivered.
\<close>

section \<open>What a step adds to the messages taken for delivered\<close>

definition marks :: "string set \<Rightarrow> ('c, 'sk) dm_text \<Rightarrow> ('c, 'sk) dm_text \<Rightarrow> bool" where
  "marks ids s s' \<longleftrightarrow> ss_device_id (tx_base s') = ss_device_id (tx_base s) \<and> claimed s' \<subseteq> claimed s \<union> ids \<and>
     (distinct (inbound_keys (ss_device_id (tx_base s)) (tx_log s)) \<longrightarrow>
      distinct (inbound_keys (ss_device_id (tx_base s)) (tx_log s')))"

lemma calm_marks: "calm s s' \<Longrightarrow> marks {} s s'"
  using calm_claimed [of s s'] calm_inbound [of s s'] by (simp add: marks_def calm_def)

lemma marks_trans: "marks a s s' \<Longrightarrow> marks b s' s'' \<Longrightarrow> a \<union> b \<subseteq> ids \<Longrightarrow> marks ids s s''"
  by (auto simp: marks_def)

lemma marks_calm: "marks ids s s' \<Longrightarrow> calm s' s'' \<Longrightarrow> marks ids s s''"
  by (erule marks_trans, erule calm_marks) simp

lemma calm_then_marks: "calm s s' \<Longrightarrow> marks ids s' s'' \<Longrightarrow> marks ids s s''"
  using marks_trans [OF calm_marks, of s s' ids s'' ids] by simp

lemma marks_delivered:
  "marks {i} s (with_log (fst (mark_delivery i Delivered e n (tx_log s))) s)"
  using mark_delivered_log [of i Delivered e n "tx_log s"]
  by (auto simp: marks_def with_log_def claimed_def mark_inbound_keys split: option.splits)

section \<open>Receipts\<close>

text \<open>A signer that is a client of the conversation but not of the own account.\<close>

definition peer_signer :: "('c, 'sk) dm_text \<Rightarrow> string \<Rightarrow> bool" where
  "peer_signer s signer \<longleftrightarrow>
     (case tx_membership s of
        None \<Rightarrow> False
      | Some m \<Rightarrow> tp_client (mb_topology m) signer \<noteq> None \<and> \<not> tp_own (mb_topology m) signer)"

text \<open>The id a receipt carries, when the session can open it and its sender may vouch for it.\<close>

definition receipt_for ::
    "('c, 'vk, 'sg, 'sk, 't) text_env \<Rightarrow> string \<Rightarrow> ('c, 'sk) dm_text \<Rightarrow> string option" where
  "receipt_for env ciphertext_b64 s =
     (case ob_decode (tv_out env) ciphertext_b64 of
        Inl _ \<Rightarrow> None
      | Inr ciphertext \<Rightarrow>
          (case snd (tv_open env (tx_crypto s) ciphertext) of
             Inl _ \<Rightarrow> None
           | Inr (plaintext, signer) \<Rightarrow>
               if devices_live s \<and> \<not> peer_signer s (hex_encode (sigs (rost (tv_claims env))) signer) then None
               else from_utf8 plaintext))"

lemma remembered_ids:
  "set (let ids = xs @ [i] in drop (length ids - k) ids) \<subseteq> Set.insert i (set xs)"
  by (auto simp: Let_def dest: in_set_dropD)

lemma accept_device_receipt_marks:
  "marks (if peer_signer s signer then {i} else {}) s (fst (accept_device_receipt env i signer s))"
proof (cases "device_author s signer")
  case (Inl e)
  then show ?thesis by (simp add: accept_device_receipt_def calm_marks marks_def)
next
  case (Inr p)
  obtain author own where p: "p = (author, own)" by fastforce
  from Inr p obtain m client where m: "tx_membership s = Some m" "tp_client (mb_topology m) signer = Some client"
      "own = tp_own (mb_topology m) signer"
    by (auto simp: device_author_def and_then_Ok_iff ok_or_def Let_def split: option.splits)
  define K where "K = (if peer_signer s signer then {i} else {})"
  have peer: "K = (if own then {} else {i})" using m by (simp add: K_def peer_signer_def)
  define m1 where "m1 = (if \<not> own \<and> i \<notin> set (mb_delivered_ids m)
      then (let ids = mb_delivered_ids m @ [i] in m\<lparr>mb_delivered_ids := drop (length ids - READ_HISTORY_KEEP) ids\<rparr>) else m)"
  have ids: "set (mb_delivered_ids m1) \<subseteq> set (mb_delivered_ids m) \<union> K"
    using remembered_ids [of "mb_delivered_ids m" i READ_HISTORY_KEEP] by (auto simp: m1_def peer Let_def)
  let ?s1 = "\<lambda>t. s\<lparr>tx_base := (tx_base s)\<lparr>ss_membership := Some m1\<rparr>, tx_receipt_targets := t\<rparr>"
  have s1: "marks K s (?s1 t)" for t
    using ids m(1) by (auto simp: marks_def claimed_def)
  have s2: "marks K s (with_log (fst (mark_delivery i Delivered None n (tx_log (?s1 t)))) (?s1 t))" if "\<not> own" for t n
    using marks_trans [OF s1 marks_delivered, where ids = K] that by (simp add: peer)
  have s1': "marks K s (with_log (tx_log (?s1 t)) (?s1 t))" for t
    by (rule marks_calm [OF s1 calm_with_log]) simp
  have fin: "marks K s (fst (if fresh then resume_exhausted_sends env s4 else s4, Ok ()))"
    if "marks K s s2" "s3 = s2\<lparr>tx_attempts := a, tx_dirty := d, tx_base := (tx_base s2)\<lparr>ss_record_dirty := True\<rparr>\<rparr>"
      "s4 = (if own then s3 else note_contact env author s3)" for s2 s3 s4 a d fresh
  proof -
    have "calm s2 s3" by (simp add: that(2) calm_def log_calm_refl)
    then have "calm s2 s4" using calm_note_contact [of s3 env author] by (auto simp: that(3) intro: calm_trans)
    then have "calm s2 (if fresh then resume_exhausted_sends env s4 else s4)"
      using calm_resume [of s4 env] by (auto intro: calm_trans)
    from marks_calm [OF that(1) this] show ?thesis by simp
  qed
  obtain n t fresh finished mine where body: "fst (accept_device_receipt env i signer s) =
      fst (let (l, marked) = (if \<not> own \<and> mine then mark_delivery i Delivered None n (tx_log (?s1 t)) else (tx_log (?s1 t), Ok ()));
               s2 = with_log l (?s1 t)
           in case marked of
                Inl e \<Rightarrow> (s2, Err (log_error_dm e))
              | Inr _ \<Rightarrow>
                  (let s3 = s2\<lparr>tx_attempts := (if finished then bt_remove i (tx_attempts s2) else tx_attempts s2),
                         tx_dirty := tx_dirty s2 @ [i], tx_base := (tx_base s2)\<lparr>ss_record_dirty := True\<rparr>\<rparr>;
                       s4 = (if own then s3 else note_contact env author s3)
                   in (if fresh then resume_exhausted_sends env s4 else s4, Ok ())))"
    unfolding accept_device_receipt_def Inr p and_then.simps prod.case m(1) ok_or_def option.case sum.case Let_def
    by (fold m1_def [unfolded Let_def]) blast
  obtain l marked where lm: "(if \<not> own \<and> mine then mark_delivery i Delivered None n (tx_log (?s1 t)) else (tx_log (?s1 t), Ok ())) = (l, marked)"
    by fastforce
  have s2m: "marks K s (with_log l (?s1 t))"
    using lm s1' [of t] s2 [of n t] by (auto split: if_splits dest: arg_cong [of _ _ fst])
  show ?thesis
    unfolding body lm Let_def prod.case K_def [symmetric]
    using s2m fin [OF s2m refl refl] by (cases marked) (simp_all add: Let_def)
qed

lemma accept_delivery_ack_marks:
  "marks (set_option (receipt_for env ciphertext_b64 s)) s (fst (accept_delivery_ack env ciphertext_b64 s))"
proof (cases "ob_decode (tv_out env) ciphertext_b64")
  case (Inl e)
  then show ?thesis by (simp add: accept_delivery_ack_def marks_def)
next
  case (Inr ciphertext)
  obtain c opened where o: "tv_open env (tx_crypto s) ciphertext = (c, opened)" by fastforce
  let ?s1 = "s\<lparr>tx_crypto := c\<rparr>"
  have c1: "calm s ?s1" by (rule calm_base) simp
  show ?thesis
  proof (cases opened)
    case (Inl e)
    with Inr o show ?thesis by (simp add: accept_delivery_ack_def marks_def Let_def claimed_def)
  next
    case opened: (Inr ps)
    obtain plaintext signer where ps: "ps = (plaintext, signer)" by fastforce
    show ?thesis
    proof (cases "from_utf8 plaintext")
      case None
      with Inr o opened ps show ?thesis by (simp add: accept_delivery_ack_def marks_def Let_def claimed_def)
    next
      case (Some i)
      let ?signer = "hex_encode (sigs (rost (tv_claims env))) signer"
      have live: "devices_live ?s1 = devices_live s" "peer_signer ?s1 ?signer = peer_signer s ?signer"
        by (simp_all add: devices_live_def peer_signer_def split: option.split)
      show ?thesis
      proof (cases "devices_live s")
        case True
        with Inr o opened ps Some live
        have r: "receipt_for env ciphertext_b64 s = (if peer_signer s ?signer then Some i else None)"
          and f: "fst (accept_delivery_ack env ciphertext_b64 s) = fst (accept_device_receipt env i ?signer ?s1)"
          by (simp_all add: receipt_for_def accept_delivery_ack_def Let_def)
        show ?thesis
          using calm_then_marks [OF c1 accept_device_receipt_marks [of ?s1 ?signer i env]]
          unfolding r f live by (simp split: if_splits)
      next
        case False
        let ?s2 = "note_contact env [] ?s1"
        have c2: "calm s ?s2" using c1 calm_note_contact by (rule calm_trans)
        have r: "receipt_for env ciphertext_b64 s = Some i"
          using False Inr o opened ps Some by (simp add: receipt_for_def)
        show ?thesis
        proof (cases "bt_get (tx_attempts ?s2) i")
          case None
          with False Inr o opened ps Some live calm_marks [OF c2] show ?thesis
            by (auto simp: accept_delivery_ack_def Let_def marks_def)
        next
          case att: (Some a)
          obtain l marked where lm: "mark_delivery i Delivered None (at_retry_count a) (tx_log ?s2) = (l, marked)" by fastforce
          let ?s2' = "?s2\<lparr>tx_attempts := bt_remove i (tx_attempts ?s2)\<rparr>"
          let ?s3 = "with_log l ?s2'"
          have "calm s ?s2'" using c2 by (rule calm_rebase) simp
          then have m3: "marks {i} s ?s3"
            using calm_then_marks [OF _ marks_delivered [of i ?s2' None "at_retry_count a"]] by (simp add: lm)
          have "calm ?s3 (resume_exhausted_sends env (?s3\<lparr>tx_dirty := tx_dirty ?s3 @ [i]\<rparr>))"
            by (rule calm_trans [OF calm_base calm_resume]) simp
          from marks_calm [OF m3 this] m3 show ?thesis
            using False Inr o opened ps Some live att lm r
            by (cases marked) (simp_all add: accept_delivery_ack_def Let_def)
        qed
      qed
    qed
  qed
qed

section \<open>Runs\<close>

datatype rt_event =
    TextArrives u64 string bytes
  | ReceiptArrives string
  | SendText u64 string string
  | RetryText u64 string
  | TickTexts u64

fun rt_step :: "('c, 'vk, 'sg, 'sk, 't) text_env \<Rightarrow> ('c, 'sk) dm_runtime \<Rightarrow> rt_event \<Rightarrow> ('c, 'sk) dm_runtime" where
  "rt_step env rt (TextArrives now occ payload) = on_session (\<lambda>s. fst (handle_data env now occ payload s)) rt"
| "rt_step env rt (ReceiptArrives ciphertext_b64) = on_session (\<lambda>s. fst (accept_delivery_ack env ciphertext_b64 s)) rt"
| "rt_step env rt (SendText now occ t) = fst (send_message env now occ t rt)"
| "rt_step env rt (RetryText now i) = fst (retry_message env now i rt)"
| "rt_step env rt (TickTexts now) = tick_texts env now rt"

text \<open>What an event may add to the messages taken for delivered.\<close>

definition receipts_of ::
    "('c, 'vk, 'sg, 'sk, 't) text_env \<Rightarrow> ('c, 'sk) dm_runtime \<Rightarrow> rt_event \<Rightarrow> string set" where
  "receipts_of env rt ev = (case ev of ReceiptArrives ct \<Rightarrow> set_option (receipt_for env ct (rt_session rt)) | _ \<Rightarrow> {})"

lemma rt_step_marks:
  assumes "[] \<notin> claimed (rt_session rt)"
  shows "marks (receipts_of env rt ev) (rt_session rt) (rt_session (rt_step env rt ev))"
proof (cases ev)
  case (TextArrives now occ payload)
  with handle_data_claims [where s = "rt_session rt" and env = env and now = now and occ = occ and payload = payload] assms show ?thesis
    by (simp add: receipts_of_def on_session_def marks_def)
next
  case (ReceiptArrives ct)
  then show ?thesis by (simp add: receipts_of_def on_session_def accept_delivery_ack_marks)
qed (simp_all add: receipts_of_def calm_marks calm_send_message calm_retry_message calm_tick_texts)

definition inbound_once :: "('c, 'sk) dm_runtime \<Rightarrow> bool" where
  "inbound_once rt \<longleftrightarrow> distinct (inbound_keys (ss_device_id (tx_base (rt_session rt))) (tx_log (rt_session rt)))"

lemma rt_step_inbound: "inbound_once rt \<Longrightarrow> inbound_once (rt_step env rt ev)"
proof (cases ev)
  case (TextArrives now occ payload)
  assume "inbound_once rt"
  with TextArrives handle_data_claims [where s = "rt_session rt" and env = env and now = now and occ = occ and payload = payload] show ?thesis
    by (simp add: inbound_once_def on_session_def)
next
  case (ReceiptArrives ct)
  assume "inbound_once rt"
  with ReceiptArrives accept_delivery_ack_marks [of env ct "rt_session rt"] show ?thesis
    by (simp add: inbound_once_def on_session_def marks_def)
qed (simp_all add: inbound_once_def calm_inbound [OF calm_send_message] calm_inbound [OF calm_retry_message]
    calm_inbound [OF calm_tick_texts])

interpretation text_run: event_machine "rt_step env" inbound_once for env
  by unfold_locales (rule rt_step_inbound)

lemma run_claimed:
  assumes "i \<in> claimed (rt_session (foldl (rt_step env) rt evs))"
    and "i \<notin> claimed (rt_session rt)" and "[] \<notin> claimed (rt_session rt)"
  shows "\<exists>xs ct ys j. evs = xs @ ReceiptArrives ct # ys \<and>
    receipt_for env ct (rt_session (foldl (rt_step env) rt xs)) = Some j \<and> (j = i \<or> j = [])"
  using assms
proof (induction evs arbitrary: i rule: rev_induct)
  case (snoc ev evs)
  let ?rt = "foldl (rt_step env) rt evs"
  show ?case
  proof (cases "i \<in> claimed (rt_session ?rt) \<or> [] \<in> claimed (rt_session ?rt)")
    case True
    with snoc obtain xs ct ys j where "evs = xs @ ReceiptArrives ct # ys"
        "receipt_for env ct (rt_session (foldl (rt_step env) rt xs)) = Some j" "j = i \<or> j = []"
      by blast
    then show ?thesis by (intro exI [of _ xs] exI [of _ ct] exI [of _ "ys @ [ev]"] exI [of _ j]) simp
  next
    case False
    with snoc.prems(1) rt_step_marks [of ?rt env ev] have "i \<in> receipts_of env ?rt ev" by (auto simp: marks_def)
    then obtain ct where "ev = ReceiptArrives ct" "receipt_for env ct (rt_session ?rt) = Some i"
      by (auto simp: receipts_of_def split: rt_event.splits)
    then show ?thesis by (intro exI [of _ evs] exI [of _ ct] exI [of _ "[]"] exI [of _ i]) simp
  qed
qed simp

section \<open>A store that refuses\<close>

lemma json_for_found: "json_for j i l = Ok text \<Longrightarrow> find_message i l \<noteq> None"
  by (cases "find_message i l") (auto simp: json_for_def)

lemma open_send_filed:
  assumes "open_send env now m c payload n ox = (ox', Ok p)"
  shows "find_message (pp_message_id p) (ox_log ox') \<noteq> None" and "bt_get (ox_attempts ox') (pp_message_id p) \<noteq> None"
  using assms by (auto simp: open_send_def file_send_def Let_def and_then_Ok_iff split: sum.splits prod.splits dest: json_for_found)

lemma file_text_filed:
  assumes "file_text env now occ t s = (s', Ok i)"
  shows "find_message i (tx_log s') \<noteq> None" and "bt_get (tx_attempts s') i \<noteq> None"
proof -
  obtain m c s1 ox p where "open_send (tv_out env) now m c [] 0 (text_outbox s1) = (ox, Ok p)" "i = pp_message_id p" "s' = with_outbox ox s1"
    using assms by (auto simp: file_text_def Let_def and_then_Ok_iff split: sum.splits prod.splits)
  with open_send_filed [of "tv_out env" now m c "[]" 0 "text_outbox s1" ox p]
  show "find_message i (tx_log s') \<noteq> None" "bt_get (tx_attempts s') i \<noteq> None" by (simp_all add: with_outbox_def)
qed

lemma file_text_frames: "tx_frames (fst (file_text env now occ t s)) = tx_frames s"
  by (simp add: file_text_def with_outbox_def with_log_def Let_def case_prod_unfold split: sum.split)

lemma settle_text_frames [simp]: "tx_frames (fst (settle_text env now i outcome s)) = tx_frames s"
  by (simp add: settle_text_def with_outbox_def Let_def case_prod_unfold)

lemma save_rows_fault:
  "db_fault (tv_db env) = Some e \<Longrightarrow> find_message i (tx_log (rt_session rt)) \<noteq> None \<Longrightarrow> save_rows env now i rt store = Err e"
  by (auto simp: save_rows_def write_send_def commit_send_def Let_def)

lemma settle_text_failed:
  assumes "settle_text env now i (Err e) s = (s', Ok ())" and "bt_get (tx_attempts s) i \<noteq> None"
  shows "Option.bind (find_message i (tx_log s')) delivery_status = Some Failed"
    and "map_option at_delivery_status (bt_get (tx_attempts s') i) = Some Failed"
proof -
  let ?n = "case bt_get (tx_attempts s) i of None \<Rightarrow> 0 | Some a \<Rightarrow> at_retry_count a"
  let ?ox = "(text_outbox s)\<lparr>ox_attempts := update_attempt i
      (\<lambda>a. a\<lparr>at_delivery_status := Failed, at_delivery_error := Some e\<rparr>) (tx_attempts s)\<rparr>"
  obtain ox r where m: "mark_and_sync (tv_out env) i Failed (Some e) ?n ?ox = (ox, r)" by fastforce
  with assms(1) have r: "r = Ok ()" and s': "s' = with_outbox ox s"
    by (auto simp: settle_text_def settle_def map_err_def and_then_Ok_iff split: sum.splits)
  note log = mark_and_sync_log [OF m [unfolded r]]
  show "Option.bind (find_message i (tx_log s')) delivery_status = Some Failed"
    using log(1) log(2) [of i] by (auto simp: s' with_outbox_def delivery_meta_def)
  have "map_option attempt_core (bt_get (ox_attempts ox) i) = map_option attempt_core (bt_get (ox_attempts ?ox) i)"
    using mark_and_sync_attempts [of "tv_out env" i Failed "Some e" ?n ?ox i] m by simp
  then show "map_option at_delivery_status (bt_get (tx_attempts s') i) = Some Failed"
    using assms(2) by (auto simp: s' with_outbox_def bt_get_update_attempt attempt_core_def dest!: arg_cong [of _ _ at_delivery_status])
qed

lemma admit_queued_fault:
  assumes "db_fault (tv_db env) = Some e" and "rt_store rt = Some store"
    and "find_message i (tx_log (rt_session rt)) \<noteq> None" and "bt_get (tx_attempts (rt_session rt)) i \<noteq> None"
    and "admit_queued env now i rt = (rt', r)"
  shows "tx_frames (rt_session rt') = tx_frames (rt_session rt)" and "rt_store rt' = Some store"
    and "(\<exists>err. r = Err (log_error_dm err)) \<or> r = Err (Persistence e) \<and> bt_get (rt_sends rt') i = Some True \<and>
      Option.bind (find_message i (tx_log (rt_session rt'))) delivery_status = Some Failed \<and>
      map_option at_delivery_status (bt_get (tx_attempts (rt_session rt')) i) = Some Failed"
proof -
  have p: "persist_admission env now i rt = (rt, Err e)"
    using save_rows_fault [OF assms(1,3)] assms(2) by (simp add: persist_admission_def)
  obtain s2 r2 where o: "settle_text env now i (Err e) (rt_session rt) = (s2, r2)" by fastforce
  let ?rt2 = "rt\<lparr>rt_session := s2\<rparr>"
  have frames: "tx_frames s2 = tx_frames (rt_session rt)" using settle_text_frames [of env now i "Err e" "rt_session rt"] by (simp add: o)
  have os: "on_session_result (settle_text env now i (Err e)) rt = (?rt2, r2)" by (simp add: on_session_result_def o)
  have "tx_frames (rt_session rt') = tx_frames (rt_session rt) \<and> rt_store rt' = Some store \<and>
      ((\<exists>err. r = Err (log_error_dm err)) \<or> r = Err (Persistence e) \<and> bt_get (rt_sends rt') i = Some True \<and>
      Option.bind (find_message i (tx_log (rt_session rt'))) delivery_status = Some Failed \<and>
      map_option at_delivery_status (bt_get (tx_attempts (rt_session rt')) i) = Some Failed)"
  proof (cases r2)
    case (Inl err)
    then obtain le where "err = log_error_dm le" using o by (auto simp: settle_text_def map_err_def split: sum.splits prod.splits)
    with Inl assms(2,5) p os frames show ?thesis by (auto simp: admit_queued_def)
  next
    case (Inr u)
    note f = settle_text_failed [OF o [unfolded Inr, simplified] assms(4)]
    then have "find_message i (tx_log s2) \<noteq> None" by (cases "find_message i (tx_log s2)") auto
    then have ps: "fst (persist_send env now i True ?rt2) = ?rt2\<lparr>rt_sends := bt_insert i True (rt_sends rt)\<rparr>"
      using save_rows_fault [OF assms(1), of i "?rt2\<lparr>rt_sends := bt_insert i True (rt_sends rt)\<rparr>" now store] assms(2)
      by (simp add: persist_send_def)
    have "rt' = ?rt2\<lparr>rt_sends := bt_insert i True (rt_sends rt)\<rparr>" "r = Err (Persistence e)"
      using assms(5) p os Inr ps by (auto simp: admit_queued_def)
    with f frames assms(2) show ?thesis by simp
  qed
  then show "tx_frames (rt_session rt') = tx_frames (rt_session rt)" "rt_store rt' = Some store"
    "(\<exists>err. r = Err (log_error_dm err)) \<or> r = Err (Persistence e) \<and> bt_get (rt_sends rt') i = Some True \<and>
      Option.bind (find_message i (tx_log (rt_session rt'))) delivery_status = Some Failed \<and>
      map_option at_delivery_status (bt_get (tx_attempts (rt_session rt')) i) = Some Failed"
    by blast+
qed

section \<open>A text that arrives\<close>

lemma handle_data_plain:
  assumes "tv_data_from env payload = Ok e" and "de_session_id e = ss_session_id (tx_base s)"
    and "de_participant_id e \<noteq> tx_participant_id s" and "\<not> devices_live s" and "de_message_id e = Some i"
    and "\<not> has_inbound_message i s" and "ob_decode (tv_out env) (de_ciphertext_b64 e) = Ok ct"
    and "tv_stage env (tx_crypto s) ct = Ok (c, plaintext, signer)" and "check_content env s e None plaintext signer = Ok ()"
  shows "handle_data env now occ payload s =
    (store_received env now occ e plaintext (de_from_device e) False (s\<lparr>tx_crypto := c\<rparr>), Ok ())"
proof -
  have "\<not> devices_live (s\<lparr>tx_crypto := c\<rparr>)" using assms(4) by (simp add: devices_live_def split: option.splits)
  with assms show ?thesis by (simp add: handle_data_def verify_device_text_def receive_text_def Let_def)
qed

definition received_message :: "data_envelope \<Rightarrow> string \<Rightarrow> u64 \<Rightarrow> string \<Rightarrow> bytes \<Rightarrow> chat_message" where
  "received_message e i now author plaintext =
     \<lparr>metadata = Some (default_metadata\<lparr>md_origin := de_origin e, md_is_own := Some False\<rparr>), from_device = author,
      body = from_utf8_lossy plaintext, message_id = Some i,
      sent_at_ms = Some (case de_sent_at_ms e of None \<Rightarrow> now | Some t \<Rightarrow> t), attachment = None, delivery_status = None,
      delivery_error = None, retryable = None, retry_count = None, call_event = None, read_receipt = None\<rparr>"

lemma send_delivery_ack_participant [simp]: "tx_participant_id (send_delivery_ack env i s) = tx_participant_id s"
  by (simp add: send_delivery_ack_def Let_def split: sum.split prod.split option.split)

lemma contact_keeps_log:
  assumes "ss_crypto_ready (tx_base s) \<longrightarrow> ss_state (tx_base s) = Connected"
  shows "tx_base (clear_peer_typing (note_contact env name s)) = note_authenticated_frame name (tx_base s)"
    and "tx_crypto (clear_peer_typing (note_contact env name s)) = tx_crypto s"
    and "tx_participant_id (clear_peer_typing (note_contact env name s)) = tx_participant_id s"
    and "tx_attempts (clear_peer_typing (note_contact env name s)) = tx_attempts s"
    and "tx_frames (clear_peer_typing (note_contact env name s)) = tx_frames s"
  using assms by (auto simp: note_contact_def clear_peer_typing_def)

lemma store_received_fresh:
  assumes "de_message_id e = Some i" and "i \<noteq> []" and "i \<notin> erased_ids (tx_log s)"
    and "\<not> list_ex (\<lambda>m. from_device m = author \<and> message_id m = Some i) (log_messages (tx_log s))"
    and "\<not> list_ex (\<lambda>m. message_id m = None \<or> message_id m = Some []) (log_messages (tx_log s))"
    and "ss_crypto_ready (tx_base s) \<longrightarrow> ss_state (tx_base s) = Connected"
  shows "store_received env now occ e plaintext author False s =
    send_delivery_ack env i (with_log (log_push (received_message e i now author plaintext) (tx_log s))
      (clear_peer_typing (note_contact env author s)))"
    and "log_messages (log_push (received_message e i now author plaintext) (tx_log s)) =
      log_messages (tx_log s) @ [received_message e i now author plaintext]"
proof -
  let ?m = "received_message e i now author plaintext"
  have "\<not> holds_copy_of from_device ?m (tx_log s)"
    using assms(2,4,5) by (auto simp: holds_copy_of_def same_copy_def received_message_def list_ex_iff split: option.splits if_splits)
  moreover have "stamp now occ \<lparr>metadata = Some (default_metadata\<lparr>md_origin := de_origin e, md_is_own := Some False\<rparr>), from_device = author,
      body = from_utf8_lossy plaintext, message_id = de_message_id e, sent_at_ms = de_sent_at_ms e, attachment = None, delivery_status = None,
      delivery_error = None, retryable = None, retry_count = None, call_event = None, read_receipt = None\<rparr> l = (l, ?m)" for l :: "chat_message message_log"
    using assms(1,2) by (simp add: stamp_def received_message_def Let_def)
  ultimately show "store_received env now occ e plaintext author False s =
    send_delivery_ack env i (with_log (log_push ?m (tx_log s)) (clear_peer_typing (note_contact env author s)))"
    using contact_keeps_log(1) [OF assms(6), of env author] assms(1)
    by (simp add: store_received_def Let_def with_log_def)
  show "log_messages (log_push ?m (tx_log s)) = log_messages (tx_log s) @ [?m]"
    using assms(3) by (simp add: log_push_def Let_def received_message_def)
qed

section \<open>The order of the queue\<close>

definition carries :: "('c, 'vk, 'sg, 'sk, 't) text_env \<Rightarrow> string \<times> bytes \<Rightarrow> bool" where
  "carries env = (\<lambda>(i, payload). \<exists>e. tv_data_to env e = Ok payload \<and> de_message_id e = Some i)"

abbreviation data_frames :: "(string \<times> bytes) list \<Rightarrow> (dm_channel \<times> bytes) list" where
  "data_frames sent \<equiv> map (\<lambda>(i, payload). (DataChannel, payload)) sent"

lemma sign_device_text_id: "sign_device_text env s e = Ok e' \<Longrightarrow> de_message_id e' = de_message_id e"
  by (auto simp: sign_device_text_def and_then_Ok_iff split: if_splits)

lemma publish_text_frames:
  "\<exists>sent. tx_frames (fst (publish_text env i resend s)) = tx_frames s @ data_frames sent \<and> map fst sent \<in> {[], [i]} \<and> list_all (carries env) sent"
proof (cases "tx_frames (fst (publish_text env i resend s)) = tx_frames s")
  case False
  then obtain payload where "carries env (i, payload)" "tx_frames (fst (publish_text env i resend s)) = tx_frames s @ [(DataChannel, payload)]"
    by (fastforce simp: publish_text_def send_frame_def carries_def Let_def split: sum.splits prod.splits if_splits dest: sign_device_text_id)
  then show ?thesis by (intro exI [of _ "[(i, payload)]"]) simp
qed (auto intro: exI [of _ "[]"])

lemma flush_state_frames [simp]: "tx_frames (rt_session (fst (flush_state env rt))) = tx_frames (rt_session rt)"
  by (simp add: flush_state_def Let_def split: option.split sum.split)

lemma persist_send_frames [simp]: "tx_frames (rt_session (fst (persist_send env now i deep rt))) = tx_frames (rt_session rt)"
  by (simp add: persist_send_def Let_def case_prod_unfold split: option.split sum.split)

lemma publish_queued_frames:
  "\<exists>sent. tx_frames (fst (publish_queued env now i s)) = tx_frames s @ data_frames sent \<and> map fst sent \<in> {[], [i]} \<and> list_all (carries env) sent"
proof -
  have "tx_frames (fst (publish_queued env now i s)) = tx_frames (fst (publish_text env i None s))"
    using settle_text_frames by (auto simp: publish_queued_def split: prod.split sum.split)
  with publish_text_frames [of env i None s] show ?thesis by simp
qed

lemma deliver_loop_frames:
  fixes env :: "('c, 'vk, 'sg, 'sk, 't) text_env"
  shows "\<exists>sent. tx_frames (rt_session (fst (deliver_loop env now ids rt))) = tx_frames (rt_session rt) @ data_frames sent \<and>
     subseq (map fst sent) ids \<and> list_all (carries env) sent"
proof (induction ids arbitrary: rt)
  case (Cons i ids)
  obtain rt1 r1 where p1: "persist_send env now i True rt = (rt1, r1)" by fastforce
  obtain rt2 r2 where p2: "on_session_result (publish_queued env now i) rt1 = (rt2, r2)" by fastforce
  obtain rt3 r3 where p3: "on_session_result (settle_text env now i (Err PAYLOAD_TOO_LARGE_TEXT)) rt2 = (rt3, r3)" by fastforce
  obtain rt4 r4 where p4: "persist_send env now i True rt3 = (rt4, r4)" by fastforce
  obtain rt5 r5 where p5: "persist_send env now i True rt2 = (rt5, r5)" by fastforce
  have f1: "tx_frames (rt_session rt1) = tx_frames (rt_session rt)" using persist_send_frames [of env now i True rt] by (simp add: p1)
  obtain sent where sent: "tx_frames (rt_session rt2) = tx_frames (rt_session rt) @ data_frames sent"
      "map fst sent \<in> {[], [i]}" "list_all (carries env) sent"
  proof -
    have rt2: "fst (publish_queued env now i (rt_session rt1)) = rt_session rt2" using p2 by (auto simp: on_session_result_def split: prod.splits)
    from publish_queued_frames [of env now i "rt_session rt1", unfolded rt2 f1] show thesis by (elim exE conjE) (rule that)
  qed
  have f3: "tx_frames (rt_session rt3) = tx_frames (rt_session rt2)"
  proof -
    have "rt_session rt3 = fst (settle_text env now i (Err PAYLOAD_TOO_LARGE_TEXT) (rt_session rt2))"
      using p3 by (auto simp: on_session_result_def split: prod.splits)
    then show ?thesis by simp
  qed
  have f45: "tx_frames (rt_session rt4) = tx_frames (rt_session rt2)" "tx_frames (rt_session rt5) = tx_frames (rt_session rt2)"
    using persist_send_frames [of env now i True rt3] persist_send_frames [of env now i True rt2] f3 by (simp_all add: p4 p5)
  have stop: "\<exists>sent. tx_frames (rt_session rt') = tx_frames (rt_session rt) @ data_frames sent \<and>
      subseq (map fst sent) (i # ids) \<and> list_all (carries env) sent"
    if "tx_frames (rt_session rt') = tx_frames (rt_session rt2) \<or> tx_frames (rt_session rt') = tx_frames (rt_session rt)"
    for rt' :: "('c, 'sk) dm_runtime"
    using that sent by (auto intro: exI [of _ "[]"] exI [of _ sent])
  have continue: "\<exists>sent. tx_frames (rt_session (fst (deliver_loop env now ids rt'))) = tx_frames (rt_session rt) @ data_frames sent \<and>
      subseq (map fst sent) (i # ids) \<and> list_all (carries env) sent"
    if "tx_frames (rt_session rt') = tx_frames (rt_session rt2)" for rt' :: "('c, 'sk) dm_runtime"
  proof -
    obtain more_sent where m: "tx_frames (rt_session (fst (deliver_loop env now ids rt'))) = tx_frames (rt_session rt') @ data_frames more_sent"
        "subseq (map fst more_sent) ids" "list_all (carries env) more_sent"
      using Cons.IH [of rt'] by blast
    from m(2) sent(2) have "subseq (map fst (sent @ more_sent)) (i # ids)" by (auto intro: list_emb_Cons)
    with m sent that show ?thesis by (intro exI [of _ "sent @ more_sent"]) simp
  qed
  show ?case
    using stop [of rt1] stop [of rt2] stop [of rt3] stop [of rt4] stop [of rt5] continue [of rt4] continue [of rt5] f1 f3 f45
    by (auto simp: p1 p2 p3 p4 p5 split: sum.split dm_error.split)
qed simp

lemma subseq_sorted_wrt: "subseq xs ys \<Longrightarrow> sorted_wrt P ys \<Longrightarrow> sorted_wrt P xs"
  by (induction rule: list_emb.induct) (auto dest: list_emb_set)

definition written_at :: "attempts \<Rightarrow> string \<Rightarrow> u64" where
  "written_at as i = (case bt_get as i of None \<Rightarrow> 0 | Some a \<Rightarrow> at_sent_at_ms a)"

lemma queue_ordered:
  assumes "bt_wf as"
  shows "sorted_wrt (\<lambda>i j. (written_at as i, i) < (written_at as j, j)) (queued_in_order as)"
    and "i \<in> set (queued_in_order as) \<Longrightarrow> \<exists>a. bt_get as i = Some a \<and> at_delivery_status a = Queued"
proof -
  let ?q = "map (\<lambda>(i, a). (at_sent_at_ms a, i)) (filter (\<lambda>(_, a). at_delivery_status a = Queued) as)"
  have mem: "\<exists>a. bt_get as i = Some a \<and> at_delivery_status a = Queued \<and> t = at_sent_at_ms a" if "(t, i) \<in> set ?q" for t i
    using that assms by (auto simp: bt_get_eq_Some_iff)
  have "distinct (map snd ?q)"
    using distinct_map_filter [OF bt_wf_distinct [OF assms], of "\<lambda>(_, a). at_delivery_status a = Queued"]
    by (simp add: case_prod_unfold comp_def)
  then have "distinct ?q" unfolding distinct_map [of snd] by blast
  then have "sorted_wrt (<) (sort ?q)" by (simp add: strict_sorted_iff)
  then have "sorted_wrt (\<lambda>p q. (written_at as (snd p), snd p) < (written_at as (snd q), snd q)) (sort ?q)"
  proof (rule sorted_wrt_mono_rel [rotated])
    have at: "(written_at as (snd p), snd p) = p" if "p \<in> set (sort ?q)" for p
      using mem [of "fst p" "snd p"] that by (cases p) (auto simp: written_at_def)
    fix p q assume "p \<in> set (sort ?q)" "q \<in> set (sort ?q)" "p < q"
    then show "(written_at as (snd p), snd p) < (written_at as (snd q), snd q)" by (simp only: at)
  qed
  then show "sorted_wrt (\<lambda>i j. (written_at as i, i) < (written_at as j, j)) (queued_in_order as)"
    by (simp add: queued_in_order_def sorted_wrt_map)
  show "\<exists>a. bt_get as i = Some a \<and> at_delivery_status a = Queued" if "i \<in> set (queued_in_order as)"
    using that mem unfolding queued_in_order_def set_map set_sort by (metis (no_types, lifting) imageE prod.collapse set_map)
qed

section \<open>From the queue to the receipt\<close>

text \<open>
  What the two sides rely on: each reads the envelopes and the text encoding of the other, and from
  ratchets that agree, the other side decrypts what one encrypts, with its signer, and they agree again.
\<close>

definition envelopes_carried ::
    "('c, 'vk, 'sg, 'sk, 't) text_env \<Rightarrow> ('c, 'vk, 'sg, 'sk, 't) text_env \<Rightarrow> bool" where
  "envelopes_carried a b \<longleftrightarrow>
     (\<forall>e p. tv_data_to a e = Ok p \<longrightarrow> tv_data_from b p = Ok e) \<and>
     (\<forall>x. ob_decode (tv_out b) (ob_encode (tv_out a) x) = Ok x \<and> ob_decode (tv_out a) (ob_encode (tv_out b) x) = Ok x)"

definition ratchets_agree ::
    "('c \<Rightarrow> 'c \<Rightarrow> bool) \<Rightarrow> ('c, 'vk, 'sg, 'sk, 't) text_env \<Rightarrow> bytes \<Rightarrow> ('c, 'vk, 'sg, 'sk, 't) text_env \<Rightarrow> bytes \<Rightarrow> bool" where
  "ratchets_agree link a key_a b key_b \<longleftrightarrow>
     (\<forall>ca cb x ca' ct. link ca cb \<longrightarrow> tv_encrypt a ca x = Ok (ca', ct) \<longrightarrow>
        (\<exists>cb'. tv_stage b cb ct = Ok (cb', x, key_a) \<and> link ca' cb')) \<and>
     (\<forall>ca cb x cb' ct. link ca cb \<longrightarrow> tv_encrypt b cb x = Ok (cb', ct) \<longrightarrow>
        (\<exists>ca'. tv_open a ca ct = (ca', Ok (x, key_b)) \<and> link ca' cb'))"

lemma send_frame_data:
  assumes "\<not> devices_live s" and "send_frame env DataChannel payload s = (s', Ok ())"
  shows "s' = s\<lparr>tx_frames := tx_frames s @ [(DataChannel, payload)]\<rparr>"
  using assms by (auto simp: send_frame_def route_frame_def Let_def split: if_splits sum.splits publish_error.splits)

lemma publish_text_plain:
  assumes "publish_text env i resend s = (s1, Ok ())" and "\<not> devices_live s"
  obtains t a c ct payload where "queued_body env i s = Ok t" "bt_get (tx_attempts s) i = Some a"
    "tv_encrypt env (tx_crypto s) (utf8_bytes t) = Ok (c, ct)"
    "tv_data_to env \<lparr>de_origin = Option.bind (find_message i (tx_log s)) origin_of, de_device_signature = None,
       de_session_id = ss_session_id (tx_base s), de_participant_id = tx_participant_id s,
       de_from_device = ss_device_id (tx_base s), de_message_id = Some i, de_sent_at_ms = Some (at_sent_at_ms a),
       de_ciphertext_b64 = ob_encode (tv_out env) ct, de_resend = resend\<rparr> = Ok payload"
    "tx_frames s1 = tx_frames s @ [(DataChannel, payload)]" "tx_crypto s1 = c" "tx_base s1 = tx_base s"
    "bt_get (tx_attempts s1) i \<noteq> None" "tx_participant_id s1 = tx_participant_id s" "devices_live s1 = devices_live s"
proof -
  obtain t a c ct where q: "queued_body env i s = Ok t" "bt_get (tx_attempts s) i = Some a"
      "tv_encrypt env (tx_crypto s) (utf8_bytes t) = Ok (c, ct)"
    using assms(1) by (auto simp: publish_text_def and_then_Err_iff and_then_Ok_iff ok_or_def split: sum.splits option.splits prod.splits)
  let ?c = "s\<lparr>tx_crypto := c\<rparr>"
  let ?e = "\<lparr>de_origin = Option.bind (find_message i (tx_log s)) origin_of, de_device_signature = None,
       de_session_id = ss_session_id (tx_base s), de_participant_id = tx_participant_id s,
       de_from_device = ss_device_id (tx_base s), de_message_id = Some i, de_sent_at_ms = Some (at_sent_at_ms a),
       de_ciphertext_b64 = ob_encode (tv_out env) ct, de_resend = resend\<rparr>"
  have dead: "\<not> devices_live ?c" using assms(2) by (simp add: devices_live_def split: option.splits)
  then have sign: "sign_device_text env ?c ?e = Ok ?e" and track: "track_device_receipts i ?c = ?c"
    by (simp_all add: sign_device_text_def track_device_receipts_def)
  obtain payload s3 where p: "tv_data_to env ?e = Ok payload" "send_frame env DataChannel payload ?c = (s3, Ok ())"
      "s1 = s3\<lparr>tx_attempts := update_attempt i
          (\<lambda>a. a\<lparr>at_publish_payload_b64 := ob_encode (tv_out env) payload, at_ciphertext_bytes := length ct\<rparr>) (tx_attempts s3)\<rparr>"
    using assms(1) q sign track
    by (auto simp: publish_text_def Let_def split: sum.splits prod.splits)
  have "s3 = ?c\<lparr>tx_frames := tx_frames ?c @ [(DataChannel, payload)]\<rparr>" by (rule send_frame_data [OF dead p(2)])
  with p(3) q(2) show thesis
    by (intro that [OF q p(1)]) (simp_all add: bt_get_update_attempt devices_live_def split: option.split)
qed

lemma settle_text_sent:
  assumes "settle_text env now i (Ok ()) s = (s', Ok ())"
  shows "map_option (set_delivery (delivery_meta Sent None
      (case bt_get (tx_attempts s) i of None \<Rightarrow> 0 | Some a \<Rightarrow> at_retry_count a))) (find_message i (tx_log s)) = find_message i (tx_log s')"
    and "find_message i (tx_log s) \<noteq> None" and "bt_get (tx_attempts s) i \<noteq> None \<Longrightarrow> bt_get (tx_attempts s') i \<noteq> None"
    and "tx_crypto s' = tx_crypto s" and "tx_frames s' = tx_frames s" and "tx_participant_id s' = tx_participant_id s"
    and "tx_base s' = (tx_base s)\<lparr>ss_messages := tx_log s'\<rparr>" and "devices_live s' = devices_live s"
proof -
  let ?n = "case bt_get (tx_attempts s) i of None \<Rightarrow> 0 | Some a \<Rightarrow> at_retry_count a"
  obtain l r where m: "mark_delivery i Sent None ?n (tx_log s) = (l, r)" by fastforce
  have r: "r = Ok ()" using assms m by (cases r) (auto simp: settle_text_def settle_def Let_def)
  let ?ox = "(text_outbox s)\<lparr>ox_log := l, ox_attempts := update_attempt i
      (\<lambda>a. a\<lparr>at_ever_published := Some True, at_delivery_status := Sent, at_delivery_error := None, at_last_send_ms := now\<rparr>) (tx_attempts s)\<rparr>"
  have s': "s' = with_outbox (fst (sync_message_json (tv_out env) i ?ox)) s"
    using assms m r by (auto simp: settle_text_def settle_def Let_def case_prod_unfold)
  have l: "l = fst (mark_delivery i Sent None ?n (tx_log s))" using m by simp
  show "map_option (set_delivery (delivery_meta Sent None ?n)) (find_message i (tx_log s)) = find_message i (tx_log s')"
    by (simp add: s' with_outbox_def l find_message_mark)
  show "find_message i (tx_log s) \<noteq> None"
    using m r by (auto simp: mark_delivery_def Let_def find_message_def split: option.splits)
  show "bt_get (tx_attempts s') i \<noteq> None" if "bt_get (tx_attempts s) i \<noteq> None"
    using that sync_message_json_attempts [of "tv_out env" i ?ox i]
    by (auto simp: s' with_outbox_def bt_get_update_attempt)
  show "tx_crypto s' = tx_crypto s" "tx_frames s' = tx_frames s" "tx_participant_id s' = tx_participant_id s"
    "tx_base s' = (tx_base s)\<lparr>ss_messages := tx_log s'\<rparr>" "devices_live s' = devices_live s"
    by (simp_all add: s' with_outbox_def devices_live_def split: option.split)
qed

lemma resume_keeps_other:
  assumes "i \<notin> fst ` set (tx_attempts s)"
  shows "find_message i (tx_log (resume_exhausted_sends env s)) = find_message i (tx_log s)"
    and "bt_get (tx_attempts (resume_exhausted_sends env s)) i = bt_get (tx_attempts s) i"
proof -
  have one: "find_message i (tx_log (resume_one env j s)) = find_message i (tx_log s) \<and>
      (bt_get (tx_attempts (resume_one env j s)) i = None \<longleftrightarrow> bt_get (tx_attempts s) i = None)" if "j \<noteq> i" for j s
  proof -
    obtain ox r where a: "activate_queue (tv_out env) j (text_outbox s) = (ox, r)" by fastforce
    have "find_message i (ox_log ox) = find_message i (tx_log s) \<and> (bt_get (ox_attempts ox) i = None \<longleftrightarrow> bt_get (tx_attempts s) i = None)"
    proof (cases "bt_get (tx_attempts s) j")
      case (Some x)
      then obtain x' where x': "activate_queue (tv_out env) j (text_outbox s) =
          mark_and_sync (tv_out env) j Queued None (at_retry_count x)
            ((text_outbox s)\<lparr>ox_attempts := bt_insert j x' (tx_attempts s)\<rparr>)"
        by (auto simp: activate_queue_def Let_def)
      note ox = x' [symmetric, unfolded a]
      have "map_option attempt_core (bt_get (ox_attempts ox) i) = map_option attempt_core (bt_get (tx_attempts s) i)"
        using mark_and_sync_attempts [of "tv_out env" j Queued None "at_retry_count x"
            "(text_outbox s)\<lparr>ox_attempts := bt_insert j x' (tx_attempts s)\<rparr>" i] that by (simp add: ox)
      then have "bt_get (ox_attempts ox) i = None \<longleftrightarrow> bt_get (tx_attempts s) i = None" by (metis map_option_is_None)
      moreover have "find_message i (ox_log ox) = find_message i (tx_log s)"
        using mark_and_sync_ox_log [of "tv_out env" j Queued None "at_retry_count x"
            "(text_outbox s)\<lparr>ox_attempts := bt_insert j x' (tx_attempts s)\<rparr>"] that by (simp add: ox find_message_mark)
      ultimately show ?thesis by blast
    qed (use a in \<open>auto simp: activate_queue_def\<close>)
    with a that show ?thesis by (cases r) (auto simp: resume_one_def Let_def with_outbox_def bt_get_update_attempt)
  qed
  have all: "find_message i (tx_log (fold (resume_one env) js s)) = find_message i (tx_log s) \<and>
      (bt_get (tx_attempts (fold (resume_one env) js s)) i = None \<longleftrightarrow> bt_get (tx_attempts s) i = None)" if "i \<notin> set js" for js s
    using that
  proof (induction js arbitrary: s)
    case (Cons j js)
    then have "j \<noteq> i" "i \<notin> set js" by auto
    with Cons.IH [of "resume_one env j s"] one [of j s] show ?case by simp
  qed simp
  have "i \<notin> set (exhausted_sends s)" using assms by (auto simp: exhausted_sends_def)
  note all = all [OF this, of s, folded resume_exhausted_sends_def]
  have "bt_get (tx_attempts s) i = None" using assms by (simp add: bt_get_None_iff)
  with all show "find_message i (tx_log (resume_exhausted_sends env s)) = find_message i (tx_log s)"
    "bt_get (tx_attempts (resume_exhausted_sends env s)) i = bt_get (tx_attempts s) i"
    by simp_all
qed

lemma accept_delivery_ack_plain:
  assumes "ob_decode (tv_out env) ct_b64 = Ok ct" and "tv_open env (tx_crypto s) ct = (c, Ok (utf8_bytes i, signer))"
    and "from_utf8 (utf8_bytes i) = Some i" and "\<not> devices_live s"
    and "ss_crypto_ready (tx_base s) \<longrightarrow> ss_state (tx_base s) = Connected"
    and "find_message i (tx_log s) \<noteq> None" and "bt_get (tx_attempts s) i \<noteq> None"
    and "accept_delivery_ack env ct_b64 s = (s', r)"
  shows "r = Ok ()" and "Option.bind (find_message i (tx_log s')) delivery_status = Some Delivered"
    and "bt_get (tx_attempts s') i = None"
proof -
  let ?s1 = "s\<lparr>tx_crypto := c\<rparr>"
  let ?s2 = "?s1\<lparr>tx_base := note_authenticated_frame [] (tx_base s)\<rparr>"
  have live: "\<not> devices_live ?s1" using assms(4) by (simp add: devices_live_def split: option.splits)
  have s2: "note_contact env [] ?s1 = ?s2" using assms(5) by (auto simp: note_contact_def)
  obtain a where a: "bt_get (tx_attempts s) i = Some a" using assms(7) by auto
  obtain l m where lm: "mark_delivery i Delivered None (at_retry_count a) (tx_log s) = (l, m)" by fastforce
  have l: "l = fst (mark_delivery i Delivered None (at_retry_count a) (tx_log s))" using lm by simp
  have m: "m = Ok ()" using lm assms(6) by (auto simp: mark_delivery_def Let_def find_message_def)
  let ?s3 = "with_log l (?s2\<lparr>tx_attempts := bt_remove i (tx_attempts s)\<rparr>)"
  let ?s4 = "?s3\<lparr>tx_dirty := tx_dirty ?s3 @ [i]\<rparr>"
  have res: "accept_delivery_ack env ct_b64 s = (resume_exhausted_sends env ?s4, Ok ())"
    using assms(1-3) live s2 a lm m by (simp add: accept_delivery_ack_def Let_def)
  have gone: "bt_get (tx_attempts ?s4) i = None" by (simp add: with_log_def)
  note kept = resume_keeps_other [OF gone [unfolded bt_get_None_iff], of env]
  have "find_message i (tx_log ?s4) = map_option (set_delivery (delivery_meta Delivered None (at_retry_count a))) (find_message i (tx_log s))"
    by (simp add: with_log_def l find_message_mark)
  then show "Option.bind (find_message i (tx_log s')) delivery_status = Some Delivered"
    using kept(1) res assms(6,8) by (auto simp: delivery_meta_def)
  show "r = Ok ()" "bt_get (tx_attempts s') i = None"
    using kept(2) gone res assms(8) by auto
qed

lemma send_delivery_ack_frames:
  assumes "tx_frames (send_delivery_ack env i s) = tx_frames s @ [f]"
  obtains c ct payload where "tv_encrypt env (tx_crypto s) (utf8_bytes i) = Ok (c, ct)" "f = (ControlChannel, payload)"
    "tv_control_to env (DeliveryAck (ss_session_id (tx_base s)) (tx_participant_id s) (ob_encode (tv_out env) ct)) = Some payload"
    "tx_crypto (send_delivery_ack env i s) = c"
  using assms by (auto simp: send_delivery_ack_def send_frame_def Let_def split: sum.splits prod.splits option.splits if_splits)

text \<open>The two halves of a delivery: the receiver stores the text and answers; the sender takes the answer.\<close>

lemma plain_text_received:
  assumes "tv_data_from env payload = Ok e" and "de_session_id e = ss_session_id (tx_base r)"
    and "de_participant_id e \<noteq> tx_participant_id r" and "de_from_device e \<noteq> ss_device_id (tx_base r)"
    and "\<not> devices_live r" and "ss_state (tx_base r) = Connected" and "de_message_id e = Some i" and "i \<noteq> []"
    and "\<not> has_inbound_message i r" and "i \<notin> erased_ids (tx_log r)"
    and "\<not> list_ex (\<lambda>m. message_id m = None \<or> message_id m = Some []) (log_messages (tx_log r))"
    and "ob_decode (tv_out env) (de_ciphertext_b64 e) = Ok ct" and "tv_stage env (tx_crypto r) ct = Ok (c, plaintext, signer)"
    and "check_content env r e None plaintext signer = Ok ()" and "r1 = fst (handle_data env now occ payload r)"
  shows "log_messages (tx_log r1) = log_messages (tx_log r) @ [received_message e i now (de_from_device e) plaintext]"
    and "tx_frames r1 = tx_frames r @ [f] \<Longrightarrow> \<exists>c' ct' ack. tv_encrypt env c (utf8_bytes i) = Ok (c', ct') \<and> f = (ControlChannel, ack) \<and>
      tv_control_to env (DeliveryAck (ss_session_id (tx_base r)) (tx_participant_id r) (ob_encode (tv_out env) ct')) = Some ack"
proof -
  let ?r = "r\<lparr>tx_crypto := c\<rparr>"
  let ?m = "received_message e i now (de_from_device e) plaintext"
  let ?w = "with_log (log_push ?m (tx_log ?r)) (clear_peer_typing (note_contact env (de_from_device e) ?r))"
  have pre: "i \<notin> erased_ids (tx_log ?r)"
      "\<not> list_ex (\<lambda>m. from_device m = de_from_device e \<and> message_id m = Some i) (log_messages (tx_log ?r))"
      "\<not> list_ex (\<lambda>m. message_id m = None \<or> message_id m = Some []) (log_messages (tx_log ?r))"
      "ss_crypto_ready (tx_base ?r) \<longrightarrow> ss_state (tx_base ?r) = Connected"
    using assms(4,6,9-11) by (auto simp: has_inbound_message_def list_ex_iff)
  have r1: "r1 = send_delivery_ack env i ?w"
    using handle_data_plain [OF assms(1-3,5,7,9,12-14)] store_received_fresh(1) [OF assms(7,8) pre] assms(15) by simp
  then show "log_messages (tx_log r1) = log_messages (tx_log r) @ [?m]"
    using store_received_fresh(2) [OF assms(7,8) pre, of now plaintext] by (simp add: with_log_def)
  have w: "tx_frames ?w = tx_frames r" "tx_crypto ?w = c" "ss_session_id (tx_base ?w) = ss_session_id (tx_base r)"
      "tx_participant_id ?w = tx_participant_id r"
    using contact_keeps_log [OF pre(4), of env "de_from_device e"] by (simp_all add: with_log_def)
  assume "tx_frames r1 = tx_frames r @ [f]"
  then have "tx_frames (send_delivery_ack env i ?w) = tx_frames ?w @ [f]" by (simp only: r1 w)
  then show "\<exists>c' ct' ack. tv_encrypt env c (utf8_bytes i) = Ok (c', ct') \<and> f = (ControlChannel, ack) \<and>
      tv_control_to env (DeliveryAck (ss_session_id (tx_base r)) (tx_participant_id r) (ob_encode (tv_out env) ct')) = Some ack"
    by (rule send_delivery_ack_frames) (use w in auto)
qed

lemma plain_text_sent:
  assumes "publish_queued env now i s = (s1, Ok ())" and "\<not> devices_live s" and "queued_body env i s = Ok t"
  obtains c ct payload and a :: outbound_attempt where "tv_encrypt env (tx_crypto s) (utf8_bytes t) = Ok (c, ct)"
    "tv_data_to env \<lparr>de_origin = Option.bind (find_message i (tx_log s)) origin_of, de_device_signature = None,
       de_session_id = ss_session_id (tx_base s), de_participant_id = tx_participant_id s,
       de_from_device = ss_device_id (tx_base s), de_message_id = Some i, de_sent_at_ms = Some (at_sent_at_ms a),
       de_ciphertext_b64 = ob_encode (tv_out env) ct, de_resend = None\<rparr> = Ok payload"
    "tx_frames s1 = tx_frames s @ [(DataChannel, payload)]" "tx_crypto s1 = c" "\<not> devices_live s1"
    "ss_state (tx_base s1) = ss_state (tx_base s)" "find_message i (tx_log s1) \<noteq> None" "bt_get (tx_attempts s1) i \<noteq> None"
proof -
  obtain sp where p: "publish_text env i None s = (sp, Ok ())" and st: "settle_text env now i (Ok ()) sp = (s1, Ok ())"
    using assms(1) by (auto simp: publish_queued_def split: prod.splits sum.splits)
  note settled = settle_text_sent [OF st]
  have found: "find_message i (tx_log s1) \<noteq> None" using settled(1,2) by (metis map_option_is_None)
  from publish_text_plain [OF p assms(2)] show thesis
  proof cases
    case (1 t' a c ct payload)
    have "ss_state (tx_base s1) = ss_state (tx_base s)" using arg_cong [OF settled(7), of ss_state] 1(7) by simp
    with 1 settled(3-5,8) found assms(2,3) show thesis by (intro that [where a = a and payload = payload and c = c and ct = ct]) simp_all
  qed
qed

section \<open>A concrete conversation\<close>

text \<open>Ann's device writes to Bob's. The signatures are those of \<open>demo_account_roster\<close>; encryption and transport keep their input.\<close>

definition demo_data :: data_envelope where
  "demo_data = \<lparr>de_origin = None, de_device_signature = None, de_session_id = ''dm'', de_participant_id = ''A'',
     de_from_device = ''Ann'', de_message_id = Some ''m1'', de_sent_at_ms = Some 5, de_ciphertext_b64 = ''hi'', de_resend = None\<rparr>"

definition demo_text_env :: "string option \<Rightarrow> (unit, bytes, byte, bytes, unit) text_env" where
  "demo_text_env fault =
     \<lparr>tv_claims = \<lparr>rost = demo_account_roster, claim_json = (\<lambda>_. Some [])\<rparr>, tv_db = demo_erasure_env fault,
      tv_out = \<lparr>ob_to_json = (\<lambda>_. Ok ''j''), ob_from_json = (\<lambda>_. Err ''json''), ob_encode = map (\<lambda>b. char_of (unat b)),
        ob_decode = (\<lambda>s. Ok (utf8_bytes s))\<rparr>,
      tv_encrypt = (\<lambda>c b. Ok (c, b)), tv_open = (\<lambda>c b. (c, Ok (b, demo_key 2))), tv_stage = (\<lambda>c b. Ok (c, b, demo_key 2)),
      tv_signer = (\<lambda>_. demo_key 1), tv_sign_proof = (\<lambda>_ _. Ok (replicate 64 1)), tv_account = None,
      tv_data_to = (\<lambda>e. if e = demo_data then Ok [1] else Err ''json''),
      tv_data_from = (\<lambda>p. if p = [1] then Ok demo_data else Err invalid_dm), tv_control_to = (\<lambda>_. Some [2]),
      tv_signing_json = (\<lambda>_. Some []), tv_reach = (\<lambda>_. True), tv_send_peer = (\<lambda>_ _. True), tv_publish = (\<lambda>_ _. Ok ()),
      tv_frame = (\<lambda>_ p. Some p), tv_put_transition = (\<lambda>_. Ok ()), tv_local_peer_id = Some ''p'', tv_has_group = (\<lambda>_. True),
      tv_write_extra = (\<lambda>_. Ok ()), tv_write_record = (\<lambda>_. Ok ()), tv_offer = (\<lambda>_. (None, None))\<rparr>"

definition demo_text :: "string \<Rightarrow> string \<Rightarrow> chat_message message_log \<Rightarrow> attempts \<Rightarrow> (unit, bytes) dm_text" where
  "demo_text name participant l as =
     \<lparr>tx_base = (demo_session name)\<lparr>ss_messages := l\<rparr>, tx_participant_id = participant, tx_crypto = (), tx_attempts = as,
      tx_dirty = [], tx_receipt_targets = [], tx_removals = False, tx_recovery = False, tx_joining = False,
      tx_admission = False, tx_device_signer = None, tx_typing_until_ms = None, tx_hello_answer_due = False,
      tx_last_hello_send_ms = 0, tx_last_authenticated_rx_ms = 0, tx_frames = []\<rparr>"

definition demo_runtime :: "(unit, bytes) dm_text \<Rightarrow> (unit, bytes) dm_runtime" where
  "demo_runtime s = \<lparr>rt_session = s, rt_store = Some demo_store, rt_sends = [], rt_state = None, rt_final = True, rt_count = 0\<rparr>"

lemma demo_text_fields [simp]:
  "ss_messages (tx_base (demo_text n p l as)) = l" "tx_attempts (demo_text n p l as) = as" "tx_frames (demo_text n p l as) = []"
  "ss_membership (tx_base (demo_text n p l as)) = None" "ss_session_id (tx_base (demo_text n p l as)) = ''dm''"
  "ss_device_id (tx_base (demo_text n p l as)) = n" "tx_participant_id (demo_text n p l as) = p"
  "\<not> devices_live (demo_text n p l as)" "ss_state (tx_base (demo_text n p l as)) = Connected"
  "rt_session (demo_runtime s) = s" "rt_store (demo_runtime s) = Some demo_store"
  by (simp_all add: demo_text_def demo_session_def demo_runtime_def devices_live_def)

lemma demo_text_env_fields [simp]:
  "db_fault (tv_db (demo_text_env f)) = f" "ob_to_json (tv_out (demo_text_env f)) m = Ok ''j''"
  "ob_decode (tv_out (demo_text_env f)) t = Ok (utf8_bytes t)" "tv_open (demo_text_env f) c b = (c, Ok (b, demo_key 2))"
  "tv_stage (demo_text_env f) c b = Ok (c, b, demo_key 2)"
  by (simp_all add: demo_text_env_def demo_erasure_env_def deletion_env.defs)

lemma demo_origin_signed:
  "\<exists>p. origin_sign (tv_db (demo_text_env f)) (tv_account (demo_text_env f)) c i content (tv_signer (demo_text_env f) k)
     (tv_sign_proof (demo_text_env f) k) = Ok p"
  by (simp add: origin_sign_def ownership_create_def local_identity_def origin_input_def transcript_def Let_def demo_text_env_def
      demo_erasure_env_def deletion_env.defs)

lemma upsert_found: "message_id m = Some i \<Longrightarrow> find_message i (upsert m l) \<noteq> None"
  using find_update_first_same [of "has_id i" "\<lambda>_. m"]
  by (auto simp: upsert_def Let_def find_message_def find_append has_id_def remember_erasure_def split: option.splits)

lemma json_total_found: "(\<And>m. to_json m = Ok (text m)) \<Longrightarrow> find_message i l \<noteq> None \<Longrightarrow> \<exists>j. json_for to_json i l = Ok j"
  by (auto simp: json_for_def)

lemma mark_found:
  assumes "find_message i l \<noteq> None"
  shows "snd (mark_delivery i st e n l) = Ok ()" and "find_message i (fst (mark_delivery i st e n l)) \<noteq> None"
proof -
  show "snd (mark_delivery i st e n l) = Ok ()"
    using assms by (auto simp: mark_delivery_def Let_def find_message_def)
  have "find (has_id i) (update_first (has_id i) (set_delivery (delivery_meta st e n)) xs) \<noteq> None" if "find (has_id i) xs \<noteq> None" for xs :: "'a message_scheme list"
    using that by (induction xs) (auto simp: has_id_def)
  with assms show "find_message i (fst (mark_delivery i st e n l)) \<noteq> None"
    by (auto simp: mark_delivery_def Let_def find_message_def)
qed

lemma mark_and_sync_total:
  assumes "\<And>m. ob_to_json env m = Ok (text m)" and "find_message i (ox_log ox) \<noteq> None"
  shows "snd (mark_and_sync env i st e n ox) = Ok ()"
proof -
  obtain l r where lr: "mark_delivery i st e n (ox_log ox) = (l, r)" by fastforce
  with mark_found [OF assms(2), of st e n] have l: "r = Ok ()" "find_message i l \<noteq> None" by simp_all
  obtain j where "json_for (ob_to_json env) i l = Ok j" using json_total_found [of "ob_to_json env" "\<lambda>m. text m", OF assms(1) l(2)] by blast
  with l show ?thesis by (simp add: mark_and_sync_def lr sync_message_json_def Let_def)
qed

lemma settle_text_total:
  assumes "\<And>m. ob_to_json (tv_out env) m = Ok (text m)" and "find_message i (tx_log s) \<noteq> None"
  shows "snd (settle_text env now i (Ok ()) s) = Ok ()"
proof -
  let ?n = "case bt_get (tx_attempts s) i of None \<Rightarrow> 0 | Some a \<Rightarrow> at_retry_count a"
  obtain l r where lr: "mark_delivery i Sent None ?n (tx_log s) = (l, r)" by fastforce
  with mark_found [OF assms(2), of Sent None ?n] have l: "r = Ok ()" "find_message i l \<noteq> None" by simp_all
  obtain j where "json_for (ob_to_json (tv_out env)) i l = Ok j"
    using json_total_found [of "ob_to_json (tv_out env)" "\<lambda>m. text m", OF assms(1) l(2)] by blast
  with l show ?thesis by (simp add: settle_text_def settle_def lr sync_message_json_def Let_def)
qed

lemma demo_file_text:
  "\<exists>s' i. file_text (demo_text_env f) 5 ''o'' ''hi'' (demo_text ''Ann'' ''A'' new_log []) = (s', Ok i)"
proof -
  have open_ok: "\<exists>ox p. open_send (tv_out (demo_text_env f)) 5 m c [] 0 ox0 = (ox, Ok p)" if "message_id m = Some i" for m c ox0 i
  proof -
    obtain l r where lr: "mark_delivery i Pending None 0 (upsert m (ox_log ox0)) = (l, r)" by fastforce
    with mark_found [OF upsert_found [OF that, of "ox_log ox0"], of Pending None 0]
    have "r = Ok ()" "find_message i l \<noteq> None" by simp_all
    with lr that show ?thesis by (auto simp: open_send_def file_send_def Let_def json_for_def split: option.splits)
  qed
  obtain l m i where lm: "stamp 5 ''o''
      \<lparr>metadata = None, from_device = ''Ann'', body = ''hi'', message_id = None, sent_at_ms = None,
       attachment = None, delivery_status = None, delivery_error = None, retryable = None, retry_count = None,
       call_event = None, read_receipt = None\<rparr> (new_log :: chat_message message_log) = (l, m)" "message_id m = Some i"
    using stamp_id by (metis surjective_pairing)
  obtain p where p: "origin_sign (tv_db (demo_text_env f)) (tv_account (demo_text_env f)) ''dm:dm'' i (utf8_bytes ''hi'')
      (tv_signer (demo_text_env f) ()) (tv_sign_proof (demo_text_env f) ()) = Ok p"
    using demo_origin_signed by blast
  let ?s1 = "with_log l (demo_text ''Ann'' ''A'' new_log [])"
  obtain ox pp where "open_send (tv_out (demo_text_env f)) 5 (m\<lparr>metadata := Some (default_metadata\<lparr>md_origin := Some p, md_is_own := Some True\<rparr>)\<rparr>)
      ''dm'' [] 0 (text_outbox ?s1) = (ox, Ok pp)"
    using open_ok [of "m\<lparr>metadata := Some (default_metadata\<lparr>md_origin := Some p, md_is_own := Some True\<rparr>)\<rparr>" i "''dm''" "text_outbox ?s1"]
      lm(2) by (simp, blast)
  with lm p show ?thesis by (simp add: file_text_def ensure_device_authorized_def)
qed

lemma demo_unsaved:
  "snd (send_message (demo_text_env (Some ''disk'')) 5 ''o'' ''hi'' (demo_runtime (demo_text ''Ann'' ''A'' new_log []))) =
   Err (Persistence ''disk'')"
proof -
  let ?env = "demo_text_env (Some ''disk'')"
  obtain s' i where f: "file_text ?env 5 ''o'' ''hi'' (demo_text ''Ann'' ''A'' new_log []) = (s', Ok i)"
    using demo_file_text by blast
  let ?rt = "(demo_runtime (demo_text ''Ann'' ''A'' new_log []))\<lparr>rt_session := s'\<rparr>"
  have os: "on_session_result (file_text ?env 5 ''o'' ''hi'') (demo_runtime (demo_text ''Ann'' ''A'' new_log [])) = (?rt, Ok i)"
    by (simp add: on_session_result_def f)
  note found = file_text_filed(1) [OF f]
  have p: "persist_admission ?env 5 i ?rt = (?rt, Err ''disk'')"
    using save_rows_fault [of ?env "''disk''" i ?rt 5 demo_store] found by (simp add: persist_admission_def demo_runtime_def)
  have "snd (settle_text ?env 5 i (Err ''disk'') s') = Ok ()"
    using mark_and_sync_total [of "tv_out ?env" "\<lambda>_. ''j''" i] found
    by (simp add: settle_text_def settle_def Let_def case_prod_unfold)
  then obtain s2 where "settle_text ?env 5 i (Err ''disk'') s' = (s2, Ok ())" by (metis surjective_pairing)
  then have "on_session_result (settle_text ?env 5 i (Err ''disk'')) ?rt = (?rt\<lparr>rt_session := s2\<rparr>, Ok ())"
    by (simp add: on_session_result_def)
  moreover have "text_fits ''hi''" by code_simp
  ultimately show ?thesis by (simp add: send_message_def os admit_queued_def p)
qed

definition demo_sent :: chat_message where
  "demo_sent = set_delivery (delivery_meta Sent None 0) (demo_message (Some ''m1''))"

definition demo_awaiting :: "(unit, bytes) dm_runtime" where
  "demo_awaiting = demo_runtime (demo_text ''Ann'' ''A'' (new_log\<lparr>log_messages := [demo_sent]\<rparr>)
     [(''m1'', demo_attempt\<lparr>at_delivery_status := Sent\<rparr>)])"

lemma demo_id: "from_utf8 (utf8_bytes ''m1'') = Some ''m1''"
  by code_simp

lemmas demo_receipt_defs = on_session_def accept_delivery_ack_def note_contact_def note_authenticated_frame_def
  note_peer_name_def mark_delivery_def find_message_def has_id_def with_log_def resume_exhausted_sends_def
  exhausted_sends_def claimed_def delivered_log_def demo_sent_def demo_message_def delivery_meta_def set_delivery_def
  demo_text_def demo_runtime_def demo_session_def devices_live_def bt_get_def

lemma keys_once:
  fixes l :: "'x message_scheme message_log"
  assumes "distinct (inbound_keys d l)" and "author \<noteq> d"
  shows "length (filter (\<lambda>m. from_device m = author \<and> message_id m = i) (log_messages l)) \<le> 1"
proof -
  let ?ms = "filter (\<lambda>m. from_device m = author \<and> message_id m = i) (log_messages l)"
  have "filter (\<lambda>m. from_device m = author \<and> message_id m = i) (filter (\<lambda>m. from_device m \<noteq> d) (log_messages l)) = ?ms"
    unfolding filter_filter using assms(2) by (intro filter_cong) auto
  then have "distinct (map (\<lambda>m. (from_device m, message_id m)) ?ms)"
    using distinct_map_filter [OF assms(1) [unfolded inbound_keys_def], of "\<lambda>m. from_device m = author \<and> message_id m = i"] by simp
  then have "length (map (\<lambda>m. (from_device m, message_id m)) ?ms) = card (set (map (\<lambda>m. (from_device m, message_id m)) ?ms))"
    by (rule distinct_card [symmetric])
  also have "\<dots> \<le> card {(author, i)}" by (rule card_mono) auto
  finally show ?thesis by simp
qed

lemma demo_duplicate:
  assumes "ss_session_id (tx_base s) = ''dm''" "tx_membership s = None" "tx_participant_id s = ''B''" "has_inbound_message ''m1'' s"
  shows "tx_base (fst (handle_data (demo_text_env None) now occ [1] s)) = tx_base s"
  using assms by (simp add: handle_data_def verify_device_text_def devices_live_def demo_text_env_def demo_data_def)

lemma demo_received:
  assumes "s' = fst (handle_data (demo_text_env None) 6 ''o'' [1] (demo_text ''Bob'' ''B'' new_log []))"
  obtains m where "log_messages (tx_log s') = [m]" "from_device m = ''Ann''" "message_id m = Some ''m1''"
    "ss_session_id (tx_base s') = ''dm''" "tx_membership s' = None" "tx_participant_id s' = ''B''" "ss_device_id (tx_base s') = ''Bob''" "tx_frames s' = [(ControlChannel, [2])]"
proof -
  let ?env = "demo_text_env None"
  let ?s = "demo_text ''Bob'' ''B'' new_log []"
  have e: "tv_data_from ?env [1] = Ok demo_data" by (simp add: demo_text_env_def)
  have h: "handle_data ?env 6 ''o'' [1] ?s = (store_received ?env 6 ''o'' demo_data (utf8_bytes ''hi'') ''Ann'' False (?s\<lparr>tx_crypto := ()\<rparr>), Ok ())"
    using handle_data_plain [OF e, of ?s "''m1''" "utf8_bytes ''hi''" "()" "utf8_bytes ''hi''" "demo_key 2" 6 "''o''"]
    by (simp add: demo_data_def has_inbound_message_def new_log_def check_content_def)
  let ?s0 = "?s\<lparr>tx_crypto := ()\<rparr>"
  let ?m = "received_message demo_data ''m1'' 6 ''Ann'' (utf8_bytes ''hi'')"
  have pre: "de_message_id demo_data = Some ''m1''" "''m1'' \<noteq> []" "''m1'' \<notin> erased_ids (tx_log ?s0)"
      "\<not> list_ex (\<lambda>m. from_device m = ''Ann'' \<and> message_id m = Some ''m1'') (log_messages (tx_log ?s0))"
      "\<not> list_ex (\<lambda>m. message_id m = None \<or> message_id m = Some []) (log_messages (tx_log ?s0))"
      "ss_crypto_ready (tx_base ?s0) \<longrightarrow> ss_state (tx_base ?s0) = Connected"
    by (simp_all add: demo_data_def new_log_def)
  note kept = contact_keeps_log [OF pre(6), of ?env "''Ann''"]
  have s': "s' = send_delivery_ack ?env ''m1'' (with_log (log_push ?m (tx_log ?s0)) (clear_peer_typing (note_contact ?env ''Ann'' ?s0)))"
    by (simp only: assms h fst_conv store_received_fresh(1) [OF pre])
  show ?thesis
  proof (rule that [of ?m])
    show "log_messages (tx_log s') = [?m]"
      using store_received_fresh(2) [OF pre, of 6 "utf8_bytes ''hi''"] by (simp add: s' with_log_def new_log_def)
    show "tx_participant_id s' = ''B''"
      using kept(3) by (simp add: s' with_log_def)
    let ?w = "with_log (log_push ?m (tx_log ?s0)) (clear_peer_typing (note_contact ?env ''Ann'' ?s0))"
    have "tx_membership ?w = None" "tx_frames ?w = []" "tx_crypto ?w = ()" using kept by (simp_all add: with_log_def)
    then show "tx_frames s' = [(ControlChannel, [2])]"
      by (simp add: s' send_delivery_ack_def send_frame_def route_frame_def devices_live_def persist_text_crypto_def
          MAX_DM_PUBLISH_BYTES_def demo_text_env_def Let_def split: option.split)
  qed (use kept(1) in \<open>simp_all add: s' with_log_def received_message_def\<close>)
qed

definition demo_waiting :: chat_message where
  "demo_waiting = set_delivery (delivery_meta Queued None 0) (demo_message (Some ''m1''))"

definition demo_sender :: "(unit, bytes) dm_text" where
  "demo_sender = demo_text ''Ann'' ''A'' (new_log\<lparr>log_messages := [demo_waiting]\<rparr>) [(''m1'', demo_attempt\<lparr>at_delivery_status := Queued\<rparr>)]"

lemma demo_carried: "envelopes_carried (demo_text_env f) (demo_text_env f)"
  by (simp add: envelopes_carried_def demo_text_env_def demo_hex)

lemma demo_ratchets: "ratchets_agree (\<lambda>_ _. True) (demo_text_env f) (demo_key 2) (demo_text_env f) (demo_key 2)"
  by (simp add: ratchets_agree_def) (simp add: demo_text_env_def)

lemma demo_waiting_found:
  "find_message ''m1'' (tx_log demo_sender) = Some demo_waiting"
  by (simp add: demo_sender_def find_message_def has_id_def demo_waiting_def demo_message_def)

lemma demo_queued_body: "queued_body (demo_text_env f) ''m1'' demo_sender = Ok ''hi''"
  by (simp add: queued_body_def demo_waiting_found)
    (simp add: demo_waiting_def deletion_of_def demo_message_def)

lemma demo_published:
  "\<exists>s1. publish_queued (demo_text_env None) 7 ''m1'' demo_sender = (s1, Ok ()) \<and> tx_frames s1 = [(DataChannel, [1])]"
proof -
  let ?env = "demo_text_env None"
  have s: "\<not> devices_live demo_sender" "tx_attempts demo_sender = [(''m1'', demo_attempt\<lparr>at_delivery_status := Queued\<rparr>)]"
      "ss_session_id (tx_base demo_sender) = ''dm''" "tx_participant_id demo_sender = ''A''" "ss_device_id (tx_base demo_sender) = ''Ann''"
    by (simp_all add: demo_sender_def)
  have e: "tv_encrypt ?env () b = Ok ((), b)" "ob_encode (tv_out ?env) b = map (\<lambda>b. char_of (unat b)) b"
      "tv_data_to ?env demo_data = Ok [1]" for b
    by (simp_all add: demo_text_env_def)
  have hi: "map (\<lambda>b. char_of (unat b)) (utf8_bytes ''hi'') = ''hi''" by code_simp
  have envelope: "\<lparr>de_origin = Option.bind (Some demo_waiting) origin_of, de_device_signature = None, de_session_id = ''dm'',
      de_participant_id = ''A'', de_from_device = ''Ann'', de_message_id = Some ''m1'', de_sent_at_ms = Some 5,
      de_ciphertext_b64 = map (\<lambda>b. char_of (unat b)) (utf8_bytes ''hi''), de_resend = None\<rparr> = demo_data"
    by (simp add: demo_data_def demo_waiting_def demo_message_def origin_of_def hi)
  have f: "send_frame ?env DataChannel [1] demo_sender = (demo_sender\<lparr>tx_frames := [(DataChannel, [1])]\<rparr>, Ok ())"
    by (simp add: send_frame_def route_frame_def s(1) persist_text_crypto_def MAX_DM_PUBLISH_BYTES_def)
      (simp add: demo_sender_def demo_text_env_def)
  have c: "demo_sender\<lparr>tx_crypto := ()\<rparr> = demo_sender" by simp
  have "\<exists>s1. publish_text ?env ''m1'' None demo_sender = (s1, Ok ()) \<and> tx_base s1 = tx_base demo_sender \<and> tx_frames s1 = [(DataChannel, [1])]"
    by (simp add: c publish_text_def Let_def demo_queued_body demo_waiting_found s e bt_get_def sign_device_text_def track_device_receipts_def
       demo_attempt_def envelope [simplified] f)
  then obtain s1 where s1: "publish_text ?env ''m1'' None demo_sender = (s1, Ok ())" "tx_base s1 = tx_base demo_sender"
      "tx_frames s1 = [(DataChannel, [1])]" by blast
  have "find_message ''m1'' (tx_log s1) \<noteq> None" using s1(2) demo_waiting_found by simp
  then have "snd (settle_text ?env 7 ''m1'' (Ok ()) s1) = Ok ()" by (rule settle_text_total [OF demo_text_env_fields(2)])
  with settle_text_frames [of ?env 7 "''m1''" "Ok ()" s1] s1(3) show ?thesis
    by (cases "settle_text ?env 7 ''m1'' (Ok ()) s1") (simp add: publish_queued_def s1)
qed

section \<open>Properties\<close>

text \<open>
  C4. A message counts as delivered only on a receipt. Take any run of arriving frames, commands and
  ticks. If at its end the log shows a message as delivered, or the conversation would show it so when
  a text of an own device brings it, and it did not at the start, then a receipt came in during the run
  that the session could decrypt, that named this message, and whose signer, once several devices take
  part, is a device of the contact. The empty id is no name of a message: a receipt that names it
  counts for every text without an id.
\<close>

theorem delivered_only_by_receipt:
  assumes "i \<in> claimed (rt_session (foldl (rt_step env) rt evs))"
    and "i \<notin> claimed (rt_session rt)" and "[] \<notin> claimed (rt_session rt)"
  shows "\<exists>xs ct ys j. evs = xs @ ReceiptArrives ct # ys \<and> (j = i \<or> j = []) \<and>
    receipt_for env ct (rt_session (foldl (rt_step env) rt xs)) = Some j"
  using run_claimed [OF assms] by blast

theorem delivered_only_by_receipt_witness:
  "\<exists>xs ct ys j. [ReceiptArrives ''m1''] = xs @ ReceiptArrives ct # ys \<and> (j = ''m1'' \<or> j = []) \<and>
    receipt_for (demo_text_env None) ct (rt_session (foldl (rt_step (demo_text_env None)) demo_awaiting xs)) = Some j"
proof (rule delivered_only_by_receipt)
  show "''m1'' \<in> claimed (rt_session (foldl (rt_step (demo_text_env None)) demo_awaiting [ReceiptArrives ''m1'']))"
    using demo_id by (simp add: demo_awaiting_def demo_receipt_defs)
  show "''m1'' \<notin> claimed (rt_session demo_awaiting)" by (simp add: demo_awaiting_def demo_receipt_defs)
  show "[] \<notin> claimed (rt_session demo_awaiting)" by (simp add: demo_awaiting_def demo_receipt_defs)
qed

text \<open>
  C16. A message is in the log once however often its frame arrives: if the messages of others in the
  log differ in author or id, so they do after any run of arriving frames, commands and ticks, and a
  message with that author and id occurs once at most.
\<close>

theorem received_once:
  assumes "inbound_once rt" and "rt' = foldl (rt_step env) rt evs"
    and "author \<noteq> ss_device_id (tx_base (rt_session rt'))"
  shows "inbound_once rt' \<and>
    length (filter (\<lambda>m. from_device m = author \<and> message_id m = i) (log_messages (tx_log (rt_session rt')))) \<le> 1"
proof -
  have inv: "inbound_once rt'" unfolding assms(2) using assms(1) by (rule text_run.run_inv)
  then show ?thesis
    using keys_once [of "ss_device_id (tx_base (rt_session rt'))" "tx_log (rt_session rt')", OF _ assms(3)] by (simp add: inbound_once_def)
qed

theorem received_once_witness:
  "length (filter (\<lambda>m. from_device m = ''Ann'' \<and> message_id m = Some ''m1'') (log_messages (tx_log (rt_session
     (foldl (rt_step (demo_text_env None)) (demo_runtime (demo_text ''Bob'' ''B'' new_log []))
       [TextArrives 6 ''o'' [1], TextArrives 8 ''o'' [1]]))))) = 1"
proof -
  let ?rt = "demo_runtime (demo_text ''Bob'' ''B'' new_log [])"
  define s1 where "s1 = fst (handle_data (demo_text_env None) 6 ''o'' [1] (demo_text ''Bob'' ''B'' new_log []))"
  obtain rt2 where rt2: "rt2 = foldl (rt_step (demo_text_env None)) ?rt [TextArrives 6 ''o'' [1], TextArrives 8 ''o'' [1]]" by blast
  obtain m where m: "log_messages (tx_log s1) = [m]" "from_device m = ''Ann''" "message_id m = Some ''m1''"
      "ss_session_id (tx_base s1) = ''dm''" "tx_membership s1 = None" "tx_participant_id s1 = ''B''" "ss_device_id (tx_base s1) = ''Bob''"
    by (rule demo_received [OF s1_def]) blast
  then have "tx_base (rt_session rt2) = tx_base s1"
    using demo_duplicate [of s1 8 "''o''"] by (simp add: rt2 on_session_def s1_def [symmetric] has_inbound_message_def)
  moreover have "inbound_once ?rt" by (simp add: inbound_once_def inbound_keys_def new_log_def)
  ultimately have "length (filter (\<lambda>m. from_device m = ''Ann'' \<and> message_id m = Some ''m1'') (log_messages (tx_log (rt_session rt2)))) \<le> 1"
    and "log_messages (tx_log (rt_session rt2)) = [m]"
    using received_once [of ?rt rt2 "demo_text_env None" _ "''Ann''" "Some ''m1''"] rt2 m by auto
  with m(2,3) rt2 show ?thesis by simp
qed

text \<open>
  C17. A text that cannot be saved does not leave. With a store whose writes fail, sending a text
  publishes no frame, not even a greeting, leaves the store as it was and reports an error. The error
  is the store's unless the text was refused or could not be written out before that; then the text is
  in the log, it and its record show a failure, and the save is noted for the next tick.
\<close>

theorem unsaved_text_never_sent:
  assumes "db_fault (tv_db env) = Some e" and "rt_store rt = Some store" and "send_message env now occ t rt = (rt', r)"
  shows "tx_frames (rt_session rt') = tx_frames (rt_session rt) \<and> rt_store rt' = Some store \<and>
    (\<exists>err. r = Err err) \<and>
    (r = Err (Persistence e) \<longrightarrow>
      (\<exists>i. bt_get (rt_sends rt') i = Some True \<and>
        Option.bind (find_message i (tx_log (rt_session rt'))) delivery_status = Some Failed \<and>
        map_option at_delivery_status (bt_get (tx_attempts (rt_session rt')) i) = Some Failed))"
proof (cases "text_fits t")
  case True
  obtain s1 r1 where f: "file_text env now occ t (rt_session rt) = (s1, r1)" by fastforce
  have frames: "tx_frames s1 = tx_frames (rt_session rt)" using file_text_frames [of env now occ t "rt_session rt"] by (simp add: f)
  have os: "on_session_result (file_text env now occ t) rt = (rt\<lparr>rt_session := s1\<rparr>, r1)" by (simp add: on_session_result_def f)
  show ?thesis
  proof (cases r1)
    case (Inl err)
    have "err \<noteq> Persistence e" using f Inl
      by (auto simp: file_text_def ensure_device_authorized_def map_err_def log_error_dm_def and_then_Err_iff Let_def
          split: sum.splits prod.splits if_splits log_error.splits)
    with Inl assms os True frames show ?thesis by (auto simp: send_message_def)
  next
    case (Inr i)
    obtain rt2 r2 where a: "admit_queued env now i (rt\<lparr>rt_session := s1\<rparr>) = (rt2, r2)" by fastforce
    have "rt_store (rt\<lparr>rt_session := s1\<rparr>) = Some store" "find_message i (tx_log (rt_session (rt\<lparr>rt_session := s1\<rparr>))) \<noteq> None"
        "bt_get (tx_attempts (rt_session (rt\<lparr>rt_session := s1\<rparr>))) i \<noteq> None"
      using assms(2) file_text_filed [OF f [unfolded Inr]] by simp_all
    note facts = admit_queued_fault [OF assms(1) this a]
    have no: "log_error_dm x \<noteq> Persistence e" for x by (simp add: log_error_dm_def split: log_error.split)
    from facts(3) obtain err where err: "r2 = Err err" by blast
    then have "rt' = rt2" "r = Err err" using assms(3) True os Inr a by (auto simp: send_message_def)
    with facts frames err show ?thesis by (auto simp: no no [THEN not_sym])
  qed
qed (use assms in \<open>auto simp: send_message_def\<close>)

theorem unsaved_text_never_sent_witness:
  "\<exists>rt'. send_message (demo_text_env (Some ''disk'')) 5 ''o'' ''hi'' (demo_runtime (demo_text ''Ann'' ''A'' new_log [])) =
      (rt', Err (Persistence ''disk'')) \<and> tx_frames (rt_session rt') = [] \<and>
    (\<exists>i. bt_get (rt_sends rt') i = Some True \<and> map_option at_delivery_status (bt_get (tx_attempts (rt_session rt')) i) = Some Failed)"
proof -
  let ?rt = "demo_runtime (demo_text ''Ann'' ''A'' new_log [])"
  obtain rt' r where send: "send_message (demo_text_env (Some ''disk'')) 5 ''o'' ''hi'' ?rt = (rt', r)" by fastforce
  have "db_fault (tv_db (demo_text_env (Some ''disk''))) = Some ''disk''" "rt_store ?rt = Some demo_store"
    by (simp_all add: demo_text_env_def demo_erasure_env_def deletion_env.defs demo_runtime_def)
  from unsaved_text_never_sent [OF this send] send demo_unsaved show ?thesis
    by (auto simp: demo_runtime_def demo_text_def)
qed

text \<open>
  C18. Texts leave in the order they were written. When the queue has its turn, the data frames it adds
  carry queued texts, each at most once, in the order of their stamps and, at the same millisecond, of
  their ids; nothing else leaves.
\<close>

theorem texts_leave_in_order:
  assumes "bt_wf (tx_attempts (rt_session rt))" and "deliver_queued env now rt = (rt', r)"
  shows "\<exists>sent. tx_frames (rt_session rt') = tx_frames (rt_session rt) @ data_frames sent \<and>
    sorted_wrt (\<lambda>i j. (written_at (tx_attempts (rt_session rt)) i, i) < (written_at (tx_attempts (rt_session rt)) j, j)) (map fst sent) \<and>
    list_all (carries env) sent \<and>
    list_all (\<lambda>i. map_option at_delivery_status (bt_get (tx_attempts (rt_session rt)) i) = Some Queued) (map fst sent)"
proof -
  let ?as = "tx_attempts (rt_session rt)"
  note queue = queue_ordered [OF assms(1)]
  obtain sent where s: "tx_frames (rt_session rt') = tx_frames (rt_session rt) @ data_frames sent"
      "subseq (map fst sent) (queued_in_order ?as)" "list_all (carries env) sent"
  proof (cases "\<not> can_encrypt_for_peer (rt_session rt) \<or> \<not> device_outbox_ready env (rt_session rt)")
    case True
    with assms(2) that [of "[]"] show thesis by (auto simp: deliver_queued_def)
  next
    case False
    then have "fst (deliver_loop env now (queued_in_order ?as) rt) = rt'" using assms(2) by (auto simp: deliver_queued_def)
    with deliver_loop_frames [of env now "queued_in_order ?as" rt] show thesis by (elim exE conjE) (rule that, simp_all)
  qed
  have "list_all (\<lambda>i. map_option at_delivery_status (bt_get ?as i) = Some Queued) (map fst sent)"
    using list_emb_set [OF s(2)] queue(2) by (force simp: list_all_iff)
  moreover have "sorted_wrt (\<lambda>i j. (written_at ?as i, i) < (written_at ?as j, j)) (map fst sent)"
    using s(2) queue(1) by (rule subseq_sorted_wrt)
  ultimately show ?thesis using s by blast
qed

theorem texts_leave_in_order_witness:
  "\<exists>rt' r sent. deliver_queued (demo_text_env None) 7 ((demo_runtime demo_sender)\<lparr>rt_store := None\<rparr>) = (rt', r) \<and>
    tx_frames (rt_session rt') = [(DataChannel, [1])] \<and> data_frames sent = [(DataChannel, [1])] \<and> map fst sent = [''m1'']"
proof -
  let ?env = "demo_text_env None"
  let ?rt = "(demo_runtime demo_sender)\<lparr>rt_store := None\<rparr>"
  obtain s1 where s1: "publish_queued ?env 7 ''m1'' demo_sender = (s1, Ok ())" "tx_frames s1 = [(DataChannel, [1])]"
    using demo_published by blast
  have "queued_in_order (tx_attempts demo_sender) = [''m1'']" "can_encrypt_for_peer demo_sender" "device_outbox_ready ?env demo_sender"
    by (simp_all add: demo_sender_def queued_in_order_def can_encrypt_for_peer_def device_outbox_ready_def)
      (simp add: demo_text_def demo_session_def)
  then have d: "deliver_queued ?env 7 ?rt = (?rt\<lparr>rt_session := s1\<rparr>, Ok ())"
    by (simp add: deliver_queued_def persist_send_def on_session_result_def s1)
  have "bt_wf (tx_attempts (rt_session ?rt))" by (simp add: demo_sender_def bt_wf_def)
  from texts_leave_in_order [OF this d] obtain sent where sent: "[(DataChannel, [1])] = data_frames sent"
      "list_all (\<lambda>i. map_option at_delivery_status (bt_get (tx_attempts demo_sender) i) = Some Queued) (map fst sent)"
    by (auto simp: s1) (simp add: demo_sender_def)
  then obtain i where i: "sent = [(i, [1])]" by (cases sent) auto
  then have "i = ''m1''" using sent(2) by (auto simp: demo_sender_def bt_get_def split: if_splits)
  with i d s1(2) show ?thesis by (intro exI [of _ "?rt\<lparr>rt_session := s1\<rparr>"] exI [of _ "Ok ()"] exI [of _ sent]) simp
qed

text \<open>
  C2. A text reaches the contact and its receipt comes back. Two devices of two users, connected, with
  ratchets that agree: when the sender's queue publishes a text, the frame it puts out is one that the
  other side takes in: the text is in its log, with the words, the author and the id, provided it was
  not there or deleted before and the signature of its origin is the sender's. The receipt the other
  side then sends, if the network takes it, marks the text as delivered at the sender and ends its
  repeats.
\<close>

theorem text_delivered_end_to_end:
  fixes a b :: "('c, 'vk, 'sg, 'sk, 't) text_env"
  assumes env: "envelopes_carried a b" "ratchets_agree link a key_a b key_b" "link (tx_crypto s) (tx_crypto r)"
    and sender: "publish_queued a now i s = (s1, Ok ())" "queued_body a i s = Ok t" "\<not> devices_live s" "ss_state (tx_base s) = Connected"
    and utf8: "from_utf8 (utf8_bytes t) = Some t" "from_utf8 (utf8_bytes i) = Some i" "i \<noteq> []"
    and receiver: "\<not> devices_live r" "ss_state (tx_base r) = Connected" "ss_session_id (tx_base r) = ss_session_id (tx_base s)"
      "tx_participant_id r \<noteq> tx_participant_id s" "ss_device_id (tx_base r) \<noteq> ss_device_id (tx_base s)"
    and fresh: "\<not> has_inbound_message i r" "i \<notin> erased_ids (tx_log r)"
      "\<not> list_ex (\<lambda>m. message_id m = None \<or> message_id m = Some []) (log_messages (tx_log r))"
    and origin: "\<And>p. Option.bind (find_message i (tx_log s)) origin_of = Some p \<Longrightarrow>
      origin_verify (tv_db b) p (''dm:'' @ ss_session_id (tx_base s)) i (utf8_bytes t) = Ok () \<and>
      or_author p = hex_encode (sigs (rost (tv_claims b))) key_a"
  shows "\<exists>payload m. tx_frames s1 = tx_frames s @ [(DataChannel, payload)] \<and>
    (let r1 = fst (handle_data b then_ms occ payload r) in
      log_messages (tx_log r1) = log_messages (tx_log r) @ [m] \<and> body m = t \<and> message_id m = Some i \<and>
      from_device m = ss_device_id (tx_base s) \<and>
      (\<forall>f. tx_frames r1 = tx_frames r @ [f] \<longrightarrow>
        (\<exists>ct_b64 ack s2. f = (ControlChannel, ack) \<and>
          tv_control_to b (DeliveryAck (ss_session_id (tx_base r)) (tx_participant_id r) ct_b64) = Some ack \<and>
          accept_delivery_ack a ct_b64 s1 = (s2, Ok ()) \<and>
          Option.bind (find_message i (tx_log s2)) delivery_status = Some Delivered \<and> bt_get (tx_attempts s2) i = None)))"
proof -
  obtain c ct payload and att :: outbound_attempt where pub: "tv_encrypt a (tx_crypto s) (utf8_bytes t) = Ok (c, ct)"
      "tv_data_to a \<lparr>de_origin = Option.bind (find_message i (tx_log s)) origin_of, de_device_signature = None,
         de_session_id = ss_session_id (tx_base s), de_participant_id = tx_participant_id s,
         de_from_device = ss_device_id (tx_base s), de_message_id = Some i, de_sent_at_ms = Some (at_sent_at_ms att),
         de_ciphertext_b64 = ob_encode (tv_out a) ct, de_resend = None\<rparr> = Ok payload"
      "tx_frames s1 = tx_frames s @ [(DataChannel, payload)]" "tx_crypto s1 = c" "\<not> devices_live s1"
      "ss_state (tx_base s1) = ss_state (tx_base s)" "find_message i (tx_log s1) \<noteq> None" "bt_get (tx_attempts s1) i \<noteq> None"
    by (rule plain_text_sent [OF sender(1,3,2)])
  let ?e = "\<lparr>de_origin = Option.bind (find_message i (tx_log s)) origin_of, de_device_signature = None,
         de_session_id = ss_session_id (tx_base s), de_participant_id = tx_participant_id s,
         de_from_device = ss_device_id (tx_base s), de_message_id = Some i, de_sent_at_ms = Some (at_sent_at_ms att),
         de_ciphertext_b64 = ob_encode (tv_out a) ct, de_resend = None\<rparr>"
  have e: "tv_data_from b payload = Ok ?e" "ob_decode (tv_out b) (de_ciphertext_b64 ?e) = Ok ct"
      "\<And>x. ob_decode (tv_out a) (ob_encode (tv_out b) x) = Ok x"
    using env(1) pub(2) by (simp_all add: envelopes_carried_def)
  obtain cb where cb: "tv_stage b (tx_crypto r) ct = Ok (cb, utf8_bytes t, key_a)" "link c cb"
    using env(2,3) pub(1) unfolding ratchets_agree_def by blast
  have check: "check_content b r ?e None (utf8_bytes t) key_a = Ok ()"
    using origin receiver(3) by (auto simp: check_content_def split: option.split)
  obtain r1 where r1: "r1 = fst (handle_data b then_ms occ payload r)" by blast
  have sides: "de_session_id ?e = ss_session_id (tx_base r)" "de_participant_id ?e \<noteq> tx_participant_id r"
      "de_from_device ?e \<noteq> ss_device_id (tx_base r)" "de_message_id ?e = Some i"
    using receiver by auto
  note got = plain_text_received [OF e(1) sides(1-3) receiver(1,2) sides(4) utf8(3) fresh e(2) cb(1) check r1]
  have returned: "\<exists>ct_b64 ack s2. f = (ControlChannel, ack) \<and>
      tv_control_to b (DeliveryAck (ss_session_id (tx_base r)) (tx_participant_id r) ct_b64) = Some ack \<and>
      accept_delivery_ack a ct_b64 s1 = (s2, Ok ()) \<and>
      Option.bind (find_message i (tx_log s2)) delivery_status = Some Delivered \<and> bt_get (tx_attempts s2) i = None"
    if f: "tx_frames r1 = tx_frames r @ [f]" for f
  proof -
    obtain c2 ct2 ack where ack: "tv_encrypt b cb (utf8_bytes i) = Ok (c2, ct2)" "f = (ControlChannel, ack)"
        "tv_control_to b (DeliveryAck (ss_session_id (tx_base r)) (tx_participant_id r) (ob_encode (tv_out b) ct2)) = Some ack"
      using got(2) [OF f] by blast
    obtain ca where ca: "tv_open a (tx_crypto s1) ct2 = (ca, Ok (utf8_bytes i, key_b))"
      using env(2) cb(2) ack(1) unfolding ratchets_agree_def pub(4) by blast
    obtain s2 res where acc: "accept_delivery_ack a (ob_encode (tv_out b) ct2) s1 = (s2, res)" by fastforce
    have "ss_crypto_ready (tx_base s1) \<longrightarrow> ss_state (tx_base s1) = Connected" using pub(6) sender(4) by simp
    from accept_delivery_ack_plain [OF e(3) ca utf8(2) pub(5) this pub(7,8) acc] ack acc show ?thesis by blast
  qed
  show ?thesis
    unfolding Let_def using pub(3) got(1) returned from_utf8_lossy_valid [OF utf8(1)] unfolding r1
    by (intro exI [of _ payload] exI [of _ "received_message ?e i then_ms (ss_device_id (tx_base s)) (utf8_bytes t)"])
      (simp add: received_message_def del: split_paired_All split_paired_Ex)
qed

theorem text_delivered_end_to_end_witness:
  "\<exists>s1 r1 m ct_b64 s2. publish_queued (demo_text_env None) 7 ''m1'' demo_sender = (s1, Ok ()) \<and>
    tx_frames s1 = [(DataChannel, [1])] \<and>
    fst (handle_data (demo_text_env None) 6 ''o'' [1] (demo_text ''Bob'' ''B'' new_log [])) = r1 \<and>
    log_messages (tx_log r1) = [m] \<and> body m = ''hi'' \<and> tx_frames r1 = [(ControlChannel, [2])] \<and>
    accept_delivery_ack (demo_text_env None) ct_b64 s1 = (s2, Ok ()) \<and>
    Option.bind (find_message ''m1'' (tx_log s2)) delivery_status = Some Delivered"
proof -
  let ?env = "demo_text_env None"
  let ?r = "demo_text ''Bob'' ''B'' new_log []"
  let ?r1 = "fst (handle_data ?env 6 ''o'' [1] ?r)"
  obtain s1 where s1: "publish_queued ?env 7 ''m1'' demo_sender = (s1, Ok ())" "tx_frames s1 = [(DataChannel, [1])]"
    using demo_published by blast
  have hi: "from_utf8 (utf8_bytes ''hi'') = Some ''hi''" by code_simp
  have r1: "tx_frames ?r1 = [(ControlChannel, [2])]" by (rule demo_received [OF refl])
  have no_origin: "Option.bind (find_message ''m1'' (tx_log demo_sender)) origin_of = None"
    unfolding demo_waiting_found by (simp add: demo_waiting_def demo_message_def origin_of_def)
  obtain payload m where e: "tx_frames s1 = tx_frames demo_sender @ [(DataChannel, payload)]"
      "let r1 = fst (handle_data ?env 6 ''o'' payload ?r) in
        log_messages (tx_log r1) = log_messages (tx_log ?r) @ [m] \<and> body m = ''hi'' \<and> message_id m = Some ''m1'' \<and>
        from_device m = ss_device_id (tx_base demo_sender) \<and>
        (\<forall>f. tx_frames r1 = tx_frames ?r @ [f] \<longrightarrow>
          (\<exists>ct_b64 ack s2. f = (ControlChannel, ack) \<and>
            tv_control_to ?env (DeliveryAck (ss_session_id (tx_base ?r)) (tx_participant_id ?r) ct_b64) = Some ack \<and>
            accept_delivery_ack ?env ct_b64 s1 = (s2, Ok ()) \<and>
            Option.bind (find_message ''m1'' (tx_log s2)) delivery_status = Some Delivered \<and> bt_get (tx_attempts s2) ''m1'' = None))"
    using text_delivered_end_to_end [OF demo_carried demo_ratchets TrueI s1(1) demo_queued_body _ _ hi demo_id, of ?r 6 "''o''"] no_origin
    by (simp add: demo_sender_def has_inbound_message_def new_log_def) blast
  moreover have "payload = [1]" using e(1) s1(2) by (simp add: demo_sender_def)
  ultimately show ?thesis using s1 r1 by (simp add: Let_def new_log_def) blast
qed

end
