(* ===== verification/Seen_Frames.thy ===== *)
theory Seen_Frames
  imports Prelude
begin

text \<open>
  The memory of frames that already arrived: \<open>conversation/dedup.rs\<close>, used by the three runtimes. A frame
  is known by its channel and the hash of its bytes; SHA-256 in hexadecimal is a parameter. The oldest
  of 4096 keys makes room for a new one; a repeat does not make its key younger.
\<close>

record seen_frames =
  sf_keys :: "string set"
  sf_order :: "string list"

definition SEEN_FRAME_CAP :: nat where
  "SEEN_FRAME_CAP = 4096"

definition new_seen :: seen_frames where
  "new_seen = \<lparr>sf_keys = {}, sf_order = []\<rparr>"

definition frame_key :: "(bytes \<Rightarrow> string) \<Rightarrow> string \<times> bytes \<Rightarrow> string" where
  "frame_key sha256_hex f = fst f @ '':'' @ sha256_hex (snd f)"

definition seen_contains :: "(bytes \<Rightarrow> string) \<Rightarrow> string \<times> bytes \<Rightarrow> seen_frames \<Rightarrow> bool" where
  "seen_contains sha256_hex f s \<longleftrightarrow> frame_key sha256_hex f \<in> sf_keys s"

definition seen_before :: "(bytes \<Rightarrow> string) \<Rightarrow> string \<times> bytes \<Rightarrow> seen_frames \<Rightarrow> seen_frames \<times> bool" where
  "seen_before sha256_hex f s =
     (let key = frame_key sha256_hex f
      in if key \<in> sf_keys s then (s, True)
         else
           (let keys = insert key (sf_keys s); order = sf_order s @ [key]
            in (if SEEN_FRAME_CAP < length order
                then (case order of [] \<Rightarrow> \<lparr>sf_keys = keys, sf_order = order\<rparr>
                  | evicted # rest \<Rightarrow> \<lparr>sf_keys = keys - {evicted}, sf_order = rest\<rparr>)
                else \<lparr>sf_keys = keys, sf_order = order\<rparr>, False)))"

section \<open>The invariant\<close>

definition seen_wf :: "seen_frames \<Rightarrow> bool" where
  "seen_wf s \<longleftrightarrow> sf_keys s = set (sf_order s) \<and> distinct (sf_order s) \<and> length (sf_order s) \<le> SEEN_FRAME_CAP"

lemma new_seen_wf [simp]: "seen_wf new_seen"
  by (simp add: seen_wf_def new_seen_def)

text \<open>Recording a new key, with the key given up for it.\<close>

lemma seen_before_new:
  assumes "seen_wf s" and "frame_key sha f \<notin> sf_keys s"
  shows "sf_order (fst (seen_before sha f s)) =
      (if length (sf_order s) = SEEN_FRAME_CAP then tl (sf_order s) @ [frame_key sha f] else sf_order s @ [frame_key sha f])"
    and "seen_wf (fst (seen_before sha f s))" and "\<not> snd (seen_before sha f s)"
proof -
  have wf: "sf_keys s = set (sf_order s)" "distinct (sf_order s)" "length (sf_order s) \<le> SEEN_FRAME_CAP"
    using assms(1) by (simp_all add: seen_wf_def)
  show "sf_order (fst (seen_before sha f s)) =
      (if length (sf_order s) = SEEN_FRAME_CAP then tl (sf_order s) @ [frame_key sha f] else sf_order s @ [frame_key sha f])"
    using wf assms(2) by (cases "sf_order s") (auto simp: seen_before_def Let_def SEEN_FRAME_CAP_def)
  show "seen_wf (fst (seen_before sha f s))"
    using wf assms(2) by (cases "sf_order s") (auto simp: seen_before_def Let_def SEEN_FRAME_CAP_def seen_wf_def)
  show "\<not> snd (seen_before sha f s)" using assms(2) by (simp add: seen_before_def Let_def)
qed

lemma seen_before_known: "frame_key sha f \<in> sf_keys s \<Longrightarrow> seen_before sha f s = (s, True)"
  by (simp add: seen_before_def)

lemma seen_before_wf: "seen_wf s \<Longrightarrow> seen_wf (fst (seen_before sha f s))"
  by (cases "frame_key sha f \<in> sf_keys s") (simp_all add: seen_before_known seen_before_new)

abbreviation see :: "(bytes \<Rightarrow> string) \<Rightarrow> seen_frames \<Rightarrow> string \<times> bytes \<Rightarrow> seen_frames" where
  "see sha s f \<equiv> fst (seen_before sha f s)"

interpretation seen_run: event_machine "see sha" seen_wf for sha
  by unfold_locales (rule seen_before_wf)

lemma see_keys_subset: "seen_wf s \<Longrightarrow> sf_keys (see sha s f) \<subseteq> insert (frame_key sha f) (sf_keys s)"
  by (auto simp: seen_before_def Let_def split: list.splits)

lemma run_keys_subset: "seen_wf s \<Longrightarrow> sf_keys (foldl (see sha) s fs) \<subseteq> sf_keys s \<union> frame_key sha ` set fs"
proof (induction fs arbitrary: s)
  case (Cons f fs)
  then show ?case using see_keys_subset [OF Cons.prems, of sha f] Cons.IH [of "see sha s f"] seen_before_wf [OF Cons.prems, of sha f]
    by fastforce
qed simp

text \<open>A key stays while fewer than 4096 other keys stand behind it or are still to come.\<close>

lemma run_keeps_key:
  assumes "seen_wf s" and "sf_order s = xs @ k # ys" and "card (set ys \<union> frame_key sha ` set fs) < SEEN_FRAME_CAP"
  shows "k \<in> sf_keys (foldl (see sha) s fs)"
  using assms
proof (induction fs arbitrary: s xs ys)
  case Nil
  then show ?case by (simp add: seen_wf_def)
next
  case (Cons f fs)
  show ?case
  proof (cases "frame_key sha f \<in> sf_keys s")
    case True
    have "card (set ys \<union> frame_key sha ` set fs) \<le> card (set ys \<union> frame_key sha ` set (f # fs))"
      by (intro card_mono) auto
    with True Cons show ?thesis by (simp add: seen_before_known)
  next
    case False
    note step = seen_before_new [OF Cons.prems(1) False]
    have wf: "distinct (xs @ k # ys)" "frame_key sha f \<notin> set (xs @ k # ys)"
      using Cons.prems(1,2) False by (auto simp: seen_wf_def)
    have "card (set (ys @ [frame_key sha f])) \<le> card (set ys \<union> frame_key sha ` set (f # fs))" by (intro card_mono) auto
    moreover have "card (set (ys @ [frame_key sha f])) = Suc (length ys)" using wf by (simp add: distinct_card)
    ultimately have "Suc (length ys) < SEEN_FRAME_CAP" using Cons.prems(3) by simp
    then have "xs \<noteq> []" if "length (sf_order s) = SEEN_FRAME_CAP" using that Cons.prems(2) by auto
    then have "\<exists>xs'. sf_order (see sha s f) = xs' @ k # (ys @ [frame_key sha f])"
      using Cons.prems(2) by (cases xs) (auto simp: step(1))
    then obtain xs' where "sf_order (see sha s f) = xs' @ k # (ys @ [frame_key sha f])" by blast
    moreover have "set (ys @ [frame_key sha f]) \<union> frame_key sha ` set fs = set ys \<union> frame_key sha ` set (f # fs)" by auto
    ultimately show ?thesis using Cons.IH [of "see sha s f" xs' "ys @ [frame_key sha f]"] Cons.prems(3) step(2) by simp
  qed
qed

section \<open>Properties\<close>

text \<open>
  C29. Repeats are spotted and nothing else is. In any run of frames at most 4096 keys are kept; a frame
  is taken for a repeat only if a frame of the same channel and hash came before; and a frame that was
  new when it came is taken for a repeat when it comes again after frames of fewer than 4096 different
  keys.
\<close>

theorem repeats_spotted:
  "length (sf_order (foldl (see sha) new_seen (xs @ f # ys))) \<le> 4096 \<and>
   (snd (seen_before sha g (foldl (see sha) new_seen xs)) \<longrightarrow> (\<exists>h \<in> set xs. frame_key sha h = frame_key sha g)) \<and>
   (\<not> snd (seen_before sha f (foldl (see sha) new_seen xs)) \<and> card (frame_key sha ` set ys) < 4096 \<longrightarrow>
     seen_before sha f (foldl (see sha) new_seen (xs @ f # ys)) = (foldl (see sha) new_seen (xs @ f # ys), True))"
proof (intro conjI impI)
  let ?s = "foldl (see sha) new_seen xs"
  have wf: "seen_wf ?s" by (simp add: seen_run.run_inv)
  have "seen_wf (foldl (see sha) new_seen (xs @ f # ys))" by (rule seen_run.run_inv) simp
  then show "length (sf_order (foldl (see sha) new_seen (xs @ f # ys))) \<le> 4096" by (simp add: seen_wf_def SEEN_FRAME_CAP_def)
  show "\<exists>h \<in> set xs. frame_key sha h = frame_key sha g" if "snd (seen_before sha g ?s)"
  proof -
    have "frame_key sha g \<in> sf_keys ?s" using that seen_before_new(3) [OF wf] by blast
    then have "frame_key sha g \<in> frame_key sha ` set xs" using run_keys_subset [OF new_seen_wf, of sha xs] by (auto simp: new_seen_def)
    then show ?thesis by (auto simp: image_iff)
  qed
  assume h: "\<not> snd (seen_before sha f ?s) \<and> card (frame_key sha ` set ys) < 4096"
  then have new: "frame_key sha f \<notin> sf_keys ?s" by (auto simp: seen_before_known)
  have "\<exists>zs. sf_order (see sha ?s f) = zs @ frame_key sha f # []" using seen_before_new(1) [OF wf new] by auto
  then obtain zs where "sf_order (see sha ?s f) = zs @ frame_key sha f # []" by blast
  from run_keeps_key [OF seen_before_new(2) [OF wf new] this, of sha ys] h
  show "seen_before sha f (foldl (see sha) new_seen (xs @ f # ys)) = (foldl (see sha) new_seen (xs @ f # ys), True)"
    by (simp add: seen_before_known SEEN_FRAME_CAP_def)
qed

theorem repeats_spotted_witness:
  "snd (seen_before (\<lambda>_. ''h'') (''c'', [1]) (foldl (see (\<lambda>_. ''h'')) new_seen [(''c'', [1]), (''d'', [2])]))"
  using repeats_spotted [of "\<lambda>_. ''h''" "[]" "(''c'', [1])" "[(''d'', [2])]"]
  by (simp add: seen_before_def new_seen_def)

end
