(* ===== verification/Dm_Feedback.thy ===== *)
theory Dm_Feedback
  imports Dm_Delivery Seen_Frames
begin

text \<open>
  What two sides of a direct conversation tell each other beside the texts: \<open>private_dm_runtime/typing.rs\<close>,
  \<open>liveness.rs\<close>, \<open>control/feedback.rs\<close> and the handlers of \<open>control.rs\<close> for greetings and typing hints,
  over \<open>conversation/typing.rs\<close> and \<open>read_receipts.rs\<close>. A session is that of \<open>Dm_Messaging\<close> with the
  state of this feedback beside it; JSON of the bodies and SHA-256 are parameters. Events of the
  diagnostics panel are left out.

  The theorems: a message counts as read only by a receipt of the contact, a receipt is sent once per
  message, a hint does not lapse while the contact types and lapses five seconds after, silence ends
  the connection, and repeats of a data frame change nothing.
\<close>

section \<open>The session\<close>

record typing_body =
  ty_device :: string
  ty_until_ms :: u64

record ('c, 'sk) dm_feedback =
  fb_text :: "('c, 'sk) dm_text"
  fb_last_typing_ms :: u64
  fb_peer_read_ids :: "string list"
  fb_sent_read_ids :: "string list"
  fb_seen :: seen_frames

record ('c, 'vk, 'sg, 'sk, 't) feedback_env =
  fv_text :: "('c, 'vk, 'sg, 'sk, 't) text_env"
  fv_typing_to :: "typing_body \<Rightarrow> bytes option"
  fv_typing_from :: "bytes \<Rightarrow> typing_body option"
  fv_read_to :: "string \<Rightarrow> bytes option"
  fv_read_from :: "bytes \<Rightarrow> string option"
  fv_setting_to :: "bool \<Rightarrow> bytes option"
  fv_setting_from :: "bytes \<Rightarrow> bool option"
  fv_sha256_hex :: "bytes \<Rightarrow> string"
  fv_forward_recovery :: "'c \<Rightarrow> 'c"

abbreviation fb_base :: "('c, 'sk) dm_feedback \<Rightarrow> dm_session" where
  "fb_base s \<equiv> tx_base (fb_text s)"

abbreviation fb_log :: "('c, 'sk) dm_feedback \<Rightarrow> chat_message message_log" where
  "fb_log s \<equiv> tx_log (fb_text s)"

abbreviation on_text :: "(('c, 'sk) dm_text \<Rightarrow> ('c, 'sk) dm_text) \<Rightarrow> ('c, 'sk) dm_feedback \<Rightarrow> ('c, 'sk) dm_feedback" where
  "on_text f s \<equiv> s\<lparr>fb_text := f (fb_text s)\<rparr>"

definition is_from_counterpart :: "string \<Rightarrow> string \<Rightarrow> ('c, 'sk) dm_text \<Rightarrow> bool" where
  "is_from_counterpart session participant s \<longleftrightarrow>
     ss_session_id (tx_base s) = session \<and> tx_participant_id s \<noteq> participant"

definition note_peer_moss_id :: "string option \<Rightarrow> ('c, 'sk) dm_text \<Rightarrow> ('c, 'sk) dm_text" where
  "note_peer_moss_id i s =
     (case i of
        None \<Rightarrow> s
      | Some peer \<Rightarrow>
          if ss_peer_moss_id (tx_base s) = Some peer then s
          else s\<lparr>tx_base := (tx_base s)\<lparr>ss_peer_moss_id := Some peer, ss_record_dirty := True\<rparr>\<rparr>)"

section \<open>The answer of the user\<close>

text \<open>\<open>raw\<close> is the file of the answer in the data directory, if it can be read.\<close>

definition load_setting :: "('c, 'vk, 'sg, 'sk, 't) feedback_env \<Rightarrow> bytes option \<Rightarrow> bool option" where
  "load_setting env raw = Option.bind raw (fv_setting_from env)"

text \<open>The flag says whether the directory can be made and the file written.\<close>

definition save_setting ::
    "('c, 'vk, 'sg, 'sk, 't) feedback_env \<Rightarrow> bool \<Rightarrow> bool \<Rightarrow> bytes option \<Rightarrow> bytes option \<times> (dm_error, unit) result" where
  "save_setting env writable enabled raw =
     (if \<not> writable then (raw, Err (Moss ''io''))
      else (case fv_setting_to env enabled of None \<Rightarrow> (raw, Err (Moss ''invalid data'')) | Some b \<Rightarrow> (Some b, Ok ())))"

definition read_receipts_enabled :: "('c, 'vk, 'sg, 'sk, 't) feedback_env \<Rightarrow> bytes option \<Rightarrow> bool" where
  "read_receipts_enabled env raw \<longleftrightarrow> load_setting env raw = Some True"

section \<open>Typing\<close>

definition TYPING_REFRESH_MS :: u64 where
  "TYPING_REFRESH_MS = 3000"

definition TYPING_EXPIRY_MS :: u64 where
  "TYPING_EXPIRY_MS = 5000"

definition send_due :: "u64 \<Rightarrow> u64 \<Rightarrow> u64 \<times> bool" where
  "send_due now last_send_ms =
     (if saturating_sub now last_send_ms < TYPING_REFRESH_MS then (last_send_ms, False) else (now, True))"

definition deadline :: "u64 \<Rightarrow> u64" where
  "deadline now = saturating_add now TYPING_EXPIRY_MS"

text \<open>A body, encrypted and in text form, with the session after the encryption.\<close>

definition encrypt_json ::
    "('c, 'vk, 'sg, 'sk, 't) feedback_env \<Rightarrow> bytes option \<Rightarrow> ('c, 'sk) dm_text \<Rightarrow> (('c, 'sk) dm_text \<times> string) option" where
  "encrypt_json env json s =
     (case json of
        None \<Rightarrow> None
      | Some b \<Rightarrow>
          (case tv_encrypt (fv_text env) (tx_crypto s) b of
             Inl _ \<Rightarrow> None
           | Inr (c, ciphertext) \<Rightarrow> Some (s\<lparr>tx_crypto := c\<rparr>, ob_encode (tv_out (fv_text env)) ciphertext)))"

definition publish_typing ::
    "('c, 'vk, 'sg, 'sk, 't) feedback_env \<Rightarrow> u64 \<Rightarrow> ('c, 'sk) dm_feedback \<Rightarrow> ('c, 'sk) dm_feedback" where
  "publish_typing env now s =
     (if \<not> can_encrypt_for_peer (fb_text s) then s
      else
        (let (last, due) = send_due now (fb_last_typing_ms s); s1 = s\<lparr>fb_last_typing_ms := last\<rparr>
         in if \<not> due then s1
            else
              (case encrypt_json env (fv_typing_to env
                   \<lparr>ty_device = ss_device_id (fb_base s), ty_until_ms = deadline now\<rparr>) (fb_text s1) of
                 None \<Rightarrow> s1
               | Some (t, ciphertext_b64) \<Rightarrow>
                   (case tv_control_to (fv_text env) (TypingIndicator (ss_session_id (tx_base t)) (tx_participant_id t)
                        (ss_device_id (tx_base t)) ciphertext_b64) of
                      None \<Rightarrow> s1\<lparr>fb_text := t\<rparr>
                    | Some payload \<Rightarrow> s1\<lparr>fb_text := fst (send_frame (fv_text env) ControlChannel payload t)\<rparr>))))"

definition note_peer_typing :: "u64 \<Rightarrow> ('c, 'sk) dm_text \<Rightarrow> ('c, 'sk) dm_text" where
  "note_peer_typing now s = s\<lparr>tx_typing_until_ms := Some (deadline now)\<rparr>"

definition expire_peer_typing :: "u64 \<Rightarrow> ('c, 'sk) dm_text \<Rightarrow> ('c, 'sk) dm_text" where
  "expire_peer_typing now s =
     (case tx_typing_until_ms s of
        None \<Rightarrow> s
      | Some until \<Rightarrow> if now < until then s else s\<lparr>tx_typing_until_ms := None\<rparr>)"

section \<open>Read receipts\<close>

definition prune_read_ids :: "string list \<Rightarrow> string list" where
  "prune_read_ids ids = drop (length ids - READ_HISTORY_KEEP) ids"

definition read_receipt_id :: "chat_message \<Rightarrow> string option" where
  "read_receipt_id m = (case attachment m of None \<Rightarrow> message_id m | Some a \<Rightarrow> Some (ad_attachment_id a))"

definition own_message_read :: "('c, 'sk) dm_feedback \<Rightarrow> chat_message \<Rightarrow> bool option" where
  "own_message_read s m =
     (if from_device m \<noteq> ss_device_id (fb_base s) then None
      else (case message_id m of None \<Rightarrow> None | Some i \<Rightarrow> if i \<in> set (fb_peer_read_ids s) then Some True else None))"

text \<open>The first own message that a receipt names and that has an id.\<close>

fun named_message :: "string \<Rightarrow> string \<Rightarrow> chat_message list \<Rightarrow> string option" where
  "named_message device receipt_id [] = None"
| "named_message device receipt_id (m # ms) =
     (if from_device m = device \<and> (read_receipt_id m = Some receipt_id \<or> message_id m = Some receipt_id) \<and> message_id m \<noteq> None
      then message_id m else named_message device receipt_id ms)"

definition note_peer_read :: "string \<Rightarrow> ('c, 'sk) dm_feedback \<Rightarrow> ('c, 'sk) dm_feedback" where
  "note_peer_read receipt_id s =
     (case named_message (ss_device_id (fb_base s)) receipt_id (log_messages (fb_log s)) of
        None \<Rightarrow> s
      | Some i \<Rightarrow>
          if i \<in> set (fb_peer_read_ids s) then s
          else
            (let l = (fb_log s)\<lparr>revision := revision (fb_log s) + 1\<rparr>; s1 = on_text (with_log l) s
             in case find_message i l of
                  None \<Rightarrow> s1
                | Some m \<Rightarrow>
                    if from_device m \<noteq> ss_device_id (fb_base s) then s1
                    else
                      (let ids = fb_peer_read_ids s @ [i];
                           marked = update_first (has_id i) (\<lambda>m. m\<lparr>read_receipt := Some True\<rparr>) (log_messages l);
                           t = with_log (l\<lparr>log_messages := marked\<rparr>) (fb_text s)
                       in s\<lparr>fb_peer_read_ids := (if READ_HISTORY_KEEP < length ids then prune_read_ids ids else ids),
                            fb_text := t\<lparr>tx_base := (tx_base t)\<lparr>ss_record_dirty := True\<rparr>\<rparr>\<rparr>)))"

definition message_needs_receipt :: "('c, 'sk) dm_feedback \<Rightarrow> chat_message \<Rightarrow> bool" where
  "message_needs_receipt s m \<longleftrightarrow>
     from_device m \<noteq> ss_device_id (fb_base s) \<and> call_event m = None \<and> message_id m \<noteq> None"

definition send_read_receipt ::
    "('c, 'vk, 'sg, 'sk, 't) feedback_env \<Rightarrow> string \<Rightarrow> ('c, 'sk) dm_text \<Rightarrow> ('c, 'sk) dm_text \<times> (dm_error, unit) result" where
  "send_read_receipt env i s =
     (case encrypt_json env (fv_read_to env i) s of
        None \<Rightarrow> (s, Ok ())
      | Some (t, ciphertext_b64) \<Rightarrow>
          (case tv_control_to (fv_text env) (ReadReceipt (ss_session_id (tx_base t)) (tx_participant_id t) ciphertext_b64) of
             None \<Rightarrow> (t, Ok ())
           | Some payload \<Rightarrow> send_frame (fv_text env) ControlChannel payload t))"

definition receipt_one ::
    "('c, 'vk, 'sg, 'sk, 't) feedback_env \<Rightarrow> string \<Rightarrow> ('c, 'sk) dm_feedback \<Rightarrow> ('c, 'sk) dm_feedback" where
  "receipt_one env i s =
     (let (t, r) = send_read_receipt env i (fb_text s); s1 = s\<lparr>fb_text := t\<rparr>
      in if is_ok r then s1\<lparr>fb_sent_read_ids := fb_sent_read_ids s1 @ [i]\<rparr> else s1)"

definition unreceipted :: "('c, 'sk) dm_feedback \<Rightarrow> string list" where
  "unreceipted s =
     filter (\<lambda>i. i \<notin> set (fb_sent_read_ids s))
       (List.map_filter read_receipt_id (filter (message_needs_receipt s) (log_messages (fb_log s))))"

definition mark_viewed ::
    "('c, 'vk, 'sg, 'sk, 't) feedback_env \<Rightarrow> ('c, 'sk) dm_feedback \<Rightarrow> ('c, 'sk) dm_feedback" where
  "mark_viewed env s =
     (if \<not> can_encrypt_for_peer (fb_text s) then s else fold (receipt_one env) (unreceipted s) s)"

section \<open>Controls of the contact\<close>

text \<open>A control that this device can decrypt; one of the own user's devices is none of the contact's.\<close>

definition decrypt_contact_control ::
    "('c, 'vk, 'sg, 'sk, 't) feedback_env \<Rightarrow> bytes \<Rightarrow> string \<Rightarrow> ('c, 'sk) dm_text \<Rightarrow>
     ('c, 'sk) dm_text \<times> (dm_error, (bytes \<times> string) option) result" where
  "decrypt_contact_control env ciphertext legacy_author s =
     (let (c, opened) = tv_open (fv_text env) (tx_crypto s) ciphertext; s1 = s\<lparr>tx_crypto := c\<rparr>
      in (s1, and_then opened (\<lambda>(plaintext, signer).
           if devices_live s1
           then and_then (device_author s1 (hex_encode (sigs (rost (tv_claims (fv_text env)))) signer)) (\<lambda>(author, own).
             Ok (if own then None else Some (plaintext, author)))
           else Ok (Some (plaintext, legacy_author)))))"

definition accept_hello ::
    "('c, 'vk, 'sg, 'sk, 't) feedback_env \<Rightarrow> string \<Rightarrow> string \<Rightarrow> ('c, 'sk) dm_text \<Rightarrow> ('c, 'sk) dm_text \<times> (dm_error, unit) result" where
  "accept_hello env ciphertext_b64 from s =
     (case ob_decode (tv_out (fv_text env)) ciphertext_b64 of
        Inl e \<Rightarrow> (s, Err (Codec e))
      | Inr ciphertext \<Rightarrow>
          (let (s1, frame) = decrypt_contact_control env ciphertext from s
           in case frame of
                Inr (Some (plaintext, author)) \<Rightarrow>
                  (let s2 = (case from_utf8 plaintext of None \<Rightarrow> s1 | Some peer \<Rightarrow> note_peer_moss_id (Some peer) s1)
                   in ((note_contact (fv_text env) author s2)\<lparr>tx_hello_answer_due := True\<rparr>, Ok ()))
              | _ \<Rightarrow> (s1, Ok ())))"

definition accept_typing_hint ::
    "('c, 'vk, 'sg, 'sk, 't) feedback_env \<Rightarrow> u64 \<Rightarrow> string \<Rightarrow> string \<Rightarrow> ('c, 'sk) dm_text \<Rightarrow> ('c, 'sk) dm_text" where
  "accept_typing_hint env now ciphertext_b64 from s =
     (case ob_decode (tv_out (fv_text env)) ciphertext_b64 of
        Inl _ \<Rightarrow> s
      | Inr ciphertext \<Rightarrow>
          (let (s1, frame) = decrypt_contact_control env ciphertext from s
           in case frame of
                Inr (Some (plaintext, author)) \<Rightarrow>
                  (case fv_typing_from env plaintext of
                     None \<Rightarrow> note_peer_typing now (note_contact (fv_text env) author s1)
                   | Some b \<Rightarrow>
                       (let s2 = s1\<lparr>tx_base := note_peer_name author (tx_base s1)\<rparr>
                        in if ty_device b \<noteq> from then s2
                           else note_peer_typing now (note_contact (fv_text env) author s2)))
              | _ \<Rightarrow> s1))"

definition accept_read_receipt ::
    "('c, 'vk, 'sg, 'sk, 't) feedback_env \<Rightarrow> bytes option \<Rightarrow> string \<Rightarrow> ('c, 'sk) dm_feedback \<Rightarrow> ('c, 'sk) dm_feedback" where
  "accept_read_receipt env raw ciphertext_b64 s =
     (if \<not> read_receipts_enabled env raw then s
      else
        (case ob_decode (tv_out (fv_text env)) ciphertext_b64 of
           Inl _ \<Rightarrow> s
         | Inr ciphertext \<Rightarrow>
             (let (t, frame) = decrypt_contact_control env ciphertext
                    (case ss_peer_display_name (fb_base s) of None \<Rightarrow> [] | Some n \<Rightarrow> n) (fb_text s);
                  s1 = s\<lparr>fb_text := t\<rparr>
              in case frame of
                   Inr (Some (plaintext, author)) \<Rightarrow>
                     (case fv_read_from env plaintext of
                        None \<Rightarrow> s1
                      | Some i \<Rightarrow> note_peer_read i (on_text (note_contact (fv_text env) author) s1))
                 | _ \<Rightarrow> s1)))"

definition accept_peer_announce :: "('c, 'sk) dm_text \<Rightarrow> ('c, 'sk) dm_text" where
  "accept_peer_announce s = (if devices_live s then s else s\<lparr>tx_hello_answer_due := True\<rparr>)"

text \<open>The feedback envelopes of \<open>handle_handshake_control\<close> and \<open>handle_feedback_control\<close>.\<close>

fun feedback_control ::
    "('c, 'vk, 'sg, 'sk, 't) feedback_env \<Rightarrow> bytes option \<Rightarrow> u64 \<Rightarrow> feedback_envelope \<Rightarrow> ('c, 'sk) dm_feedback \<Rightarrow>
     ('c, 'sk) dm_feedback \<times> (dm_error, unit) result" where
  "feedback_control env raw now (Hello session participant from ciphertext_b64) s =
     (if is_from_counterpart session participant (fb_text s)
      then (let (t, r) = accept_hello env ciphertext_b64 from (fb_text s) in (s\<lparr>fb_text := t\<rparr>, r)) else (s, Ok ()))"
| "feedback_control env raw now (DeliveryAck session participant ciphertext_b64) s =
     (if is_from_counterpart session participant (fb_text s)
      then (let (t, r) = accept_delivery_ack (fv_text env) ciphertext_b64 (fb_text s) in (s\<lparr>fb_text := t\<rparr>, r)) else (s, Ok ()))"
| "feedback_control env raw now (TypingIndicator session participant from ciphertext_b64) s =
     (if is_from_counterpart session participant (fb_text s)
      then (on_text (accept_typing_hint env now ciphertext_b64 from) s, Ok ()) else (s, Ok ()))"
| "feedback_control env raw now (ReadReceipt session participant ciphertext_b64) s =
     (if is_from_counterpart session participant (fb_text s) then (accept_read_receipt env raw ciphertext_b64 s, Ok ()) else (s, Ok ()))"
| "feedback_control env raw now (PeerAnnounce session participant from moss_peer_id) s =
     (if is_from_counterpart session participant (fb_text s) then (on_text accept_peer_announce s, Ok ()) else (s, Ok ()))"

section \<open>Data frames\<close>

definition data_channel :: "string \<Rightarrow> string" where
  "data_channel session_id = ''mls-data/'' @ session_id"

text \<open>Control and blob frames never count as seen; this is a frame of the data channel.\<close>

definition has_seen_message ::
    "('c, 'vk, 'sg, 'sk, 't) feedback_env \<Rightarrow> bytes \<Rightarrow> ('c, 'sk) dm_feedback \<Rightarrow> ('c, 'sk) dm_feedback \<times> bool" where
  "has_seen_message env payload s =
     (if devices_live (fb_text s) then (s, False)
      else
        (let (seen, before) =
           seen_before (fv_sha256_hex env) (data_channel (ss_session_id (fb_base s)), payload) (fb_seen s)
         in (s\<lparr>fb_seen := seen\<rparr>, before)))"

definition receive_data_frame ::
    "('c, 'vk, 'sg, 'sk, 't) feedback_env \<Rightarrow> u64 \<Rightarrow> string \<Rightarrow> bytes \<Rightarrow> ('c, 'sk) dm_feedback \<Rightarrow>
     ('c, 'sk) dm_feedback \<times> (dm_error, unit) result" where
  "receive_data_frame env now occ payload s =
     (let (s1, before) = has_seen_message env payload s
      in if before then (s1, Ok ())
         else
           (let (t, r) = handle_data (fv_text env) now occ payload
                  ((fb_text s1)\<lparr>tx_crypto := fv_forward_recovery env (tx_crypto (fb_text s1))\<rparr>)
            in (s1\<lparr>fb_text := t\<rparr>, r)))"

section \<open>Liveness\<close>

definition LOST_WINDOW_MS :: u64 where
  "LOST_WINDOW_MS = 25000"

definition pump_liveness :: "u64 \<Rightarrow> u64 \<Rightarrow> ('c, 'sk) dm_text \<Rightarrow> ('c, 'sk) dm_text" where
  "pump_liveness now_ms lost_window_ms s =
     (let s1 = (if ss_authenticated_since_tick (tx_base s)
          then s\<lparr>tx_base := (tx_base s)\<lparr>ss_authenticated_since_tick := False\<rparr>,
            tx_last_authenticated_rx_ms := max (tx_last_authenticated_rx_ms s) now_ms\<rparr> else s);
          silent_for = saturating_sub now_ms (tx_last_authenticated_rx_ms s1)
      in if ss_state (tx_base s1) = Connected \<and> lost_window_ms \<le> silent_for
         then s1\<lparr>tx_base := (tx_base s1)\<lparr>ss_state := next_state (ss_state (tx_base s1)) CounterpartLost,
                ss_recovery_hello_delay_ms := Some HANDSHAKE_RESEND_MS\<rparr>, tx_last_hello_send_ms := 0\<rparr>
         else s1)"

text \<open>What a restart keeps: the ids in the saved record.\<close>

definition restore_feedback :: "('c, 'sk) dm_feedback \<Rightarrow> ('c, 'sk) dm_feedback" where
  "restore_feedback s =
     s\<lparr>fb_peer_read_ids := prune_read_ids (fb_peer_read_ids s), fb_sent_read_ids := [], fb_last_typing_ms := 0,
       fb_seen := new_seen, fb_text := clear_peer_typing (fb_text s)\<rparr>"

section \<open>Runs\<close>

datatype feedback_event =
    ControlArrives "bytes option" u64 feedback_envelope
  | DataArrives u64 string bytes
  | ConversationViewed
  | KeyPressed u64
  | SnapshotTaken u64
  | LivenessTick u64
  | SessionRestored

fun fb_step ::
    "('c, 'vk, 'sg, 'sk, 't) feedback_env \<Rightarrow> ('c, 'sk) dm_feedback \<Rightarrow> feedback_event \<Rightarrow> ('c, 'sk) dm_feedback" where
  "fb_step env s (ControlArrives raw now e) = fst (feedback_control env raw now e s)"
| "fb_step env s (DataArrives now occ payload) = fst (receive_data_frame env now occ payload s)"
| "fb_step env s ConversationViewed = mark_viewed env s"
| "fb_step env s (KeyPressed now) = publish_typing env now s"
| "fb_step env s (SnapshotTaken now) = on_text (expire_peer_typing now) s"
| "fb_step env s (LivenessTick now) = on_text (pump_liveness now LOST_WINDOW_MS) s"
| "fb_step env s SessionRestored = restore_feedback s"

section \<open>Who was read by whom\<close>

text \<open>The id in a receipt that is enabled, decodes, and was encrypted by a device of the contact.\<close>

definition contact_receipt ::
    "('c, 'vk, 'sg, 'sk, 't) feedback_env \<Rightarrow> bytes option \<Rightarrow> string \<Rightarrow> ('c, 'sk) dm_feedback \<Rightarrow> string option" where
  "contact_receipt env raw ciphertext_b64 s =
     (if \<not> read_receipts_enabled env raw then None
      else (case ob_decode (tv_out (fv_text env)) ciphertext_b64 of
          Inl _ \<Rightarrow> None
        | Inr ciphertext \<Rightarrow>
            (case snd (decrypt_contact_control env ciphertext
                (case ss_peer_display_name (fb_base s) of None \<Rightarrow> [] | Some n \<Rightarrow> n) (fb_text s)) of
               Inr (Some (plaintext, author)) \<Rightarrow> fv_read_from env plaintext
             | _ \<Rightarrow> None)))"

text \<open>An own message of the log with an id, that a receipt names.\<close>

definition names_own :: "string \<Rightarrow> string \<Rightarrow> ('c, 'sk) dm_feedback \<Rightarrow> bool" where
  "names_own receipt_id i s \<longleftrightarrow>
     list_ex (\<lambda>m. from_device m = ss_device_id (fb_base s) \<and> message_id m = Some i \<and>
       (read_receipt_id m = Some receipt_id \<or> i = receipt_id)) (log_messages (fb_log s))"

lemma named_message_some:
  "named_message d rid ms = Some i \<Longrightarrow>
   \<exists>m \<in> set ms. from_device m = d \<and> message_id m = Some i \<and> (read_receipt_id m = Some rid \<or> i = rid)"
  by (induction ms) (auto split: if_splits)

lemma update_first_member: "x \<in> set xs \<Longrightarrow> x \<in> set (update_first P f xs) \<or> f x \<in> set (update_first P f xs)"
  by (induction xs) auto

lemma read_receipt_fields [simp]:
  fixes m :: chat_message
  shows "from_device (m\<lparr>read_receipt := v\<rparr>) = from_device m" "message_id (m\<lparr>read_receipt := v\<rparr>) = message_id m"
    "attachment (m\<lparr>read_receipt := v\<rparr>) = attachment m"
  by (cases m; simp)+

lemma note_peer_read_added:
  assumes "i \<in> set (fb_peer_read_ids (note_peer_read rid s))" and "i \<notin> set (fb_peer_read_ids s)"
  shows "names_own rid i (note_peer_read rid s)"
proof -
  let ?d = "ss_device_id (fb_base s)" and ?ms = "log_messages (fb_log s)" and ?f = "\<lambda>m :: chat_message. m\<lparr>read_receipt := Some True\<rparr>"
  have named: "named_message ?d rid ?ms = Some i"
    and log: "log_messages (fb_log (note_peer_read rid s)) = update_first (has_id i) ?f ?ms"
    using assms by (auto simp: note_peer_read_def with_log_def Let_def prune_read_ids_def
      split: option.splits if_splits dest: in_set_dropD)
  obtain m where m: "m \<in> set ?ms" "from_device m = ?d" "message_id m = Some i" "read_receipt_id m = Some rid \<or> i = rid"
    using named_message_some [OF named] by blast
  have same: "from_device (?f m) = from_device m" "message_id (?f m) = message_id m" "read_receipt_id (?f m) = read_receipt_id m"
    by (simp_all add: read_receipt_id_def split: option.split)
  have "ss_device_id (fb_base (note_peer_read rid s)) = ?d"
    by (simp add: note_peer_read_def with_log_def Let_def split: option.splits)
  with update_first_member [OF m(1), of "has_id i" ?f] m same show ?thesis
    unfolding names_own_def list_ex_iff log by metis
qed

lemma prune_read_ids_subset: "set (prune_read_ids ids) \<subseteq> set ids"
  by (auto simp: prune_read_ids_def dest: in_set_dropD)

lemma encrypt_json_some: "encrypt_json env json s = Some (t, b) \<Longrightarrow> \<exists>c. t = s\<lparr>tx_crypto := c\<rparr>"
  by (auto simp: encrypt_json_def split: option.splits sum.splits)

lemma send_frame_frames: "\<exists>fs. fst (send_frame env kind payload s) = s\<lparr>tx_frames := fs\<rparr>"
  by (cases "snd (route_frame env kind payload s)") (auto simp: send_frame_def case_prod_unfold Let_def intro: exI [of _ "tx_frames s"])

abbreviation resent :: "'c \<Rightarrow> (dm_channel \<times> bytes) list \<Rightarrow> ('c, 'sk) dm_text \<Rightarrow> ('c, 'sk) dm_text" where
  "resent c fs s \<equiv> s\<lparr>tx_crypto := c, tx_frames := fs\<rparr>"

lemma resent_self: "\<exists>c fs. s = resent c fs s"
  by (rule exI [of _ "tx_crypto s"], rule exI [of _ "tx_frames s"]) simp

lemma send_read_receipt_changes: "\<exists>c fs. fst (send_read_receipt env i s) = resent c fs s"
proof (cases "encrypt_json env (fv_read_to env i) s")
  case None
  then show ?thesis using resent_self [of s] by (simp add: send_read_receipt_def)
next
  case (Some x)
  obtain t b where x: "x = (t, b)" by fastforce
  obtain c where t: "t = s\<lparr>tx_crypto := c\<rparr>" using encrypt_json_some [OF Some [unfolded x]] by blast
  show ?thesis
  proof (cases "tv_control_to (fv_text env) (ReadReceipt (ss_session_id (tx_base t)) (tx_participant_id t) b)")
    case None
    with Some x t show ?thesis
      by (intro exI [of _ c] exI [of _ "tx_frames s"]) (simp add: send_read_receipt_def)
  next
    case (Some p)
    obtain fs where "fst (send_frame (fv_text env) ControlChannel p t) = t\<lparr>tx_frames := fs\<rparr>" using send_frame_frames by blast
    with Some \<open>encrypt_json _ _ _ = _\<close> x t show ?thesis
      by (intro exI [of _ c] exI [of _ fs]) (simp add: send_read_receipt_def)
  qed
qed

lemma receipt_one_changes:
  "\<exists>c fs. receipt_one env i s = s\<lparr>fb_text := resent c fs (fb_text s),
     fb_sent_read_ids := fb_sent_read_ids s @ (if is_ok (snd (send_read_receipt env i (fb_text s))) then [i] else [])\<rparr>"
proof -
  obtain c fs where "fst (send_read_receipt env i (fb_text s)) = resent c fs (fb_text s)"
    using send_read_receipt_changes [of env i "fb_text s"] by blast
  then show ?thesis by (intro exI [of _ c] exI [of _ fs]) (simp add: receipt_one_def Let_def case_prod_unfold)
qed

lemma receipts_change:
  "\<exists>c fs ids. fold (receipt_one env) xs s = s\<lparr>fb_text := resent c fs (fb_text s), fb_sent_read_ids := ids\<rparr> \<and> set ids \<subseteq> set (fb_sent_read_ids s) \<union> set xs"
proof (induction xs arbitrary: s)
  case Nil
  show ?case by (rule exI [of _ "tx_crypto (fb_text s)"], rule exI [of _ "tx_frames (fb_text s)"], rule exI [of _ "fb_sent_read_ids s"]) simp
next
  case (Cons x xs)
  obtain c fs where one: "receipt_one env x s = s\<lparr>fb_text := resent c fs (fb_text s),
     fb_sent_read_ids := fb_sent_read_ids s @ (if is_ok (snd (send_read_receipt env x (fb_text s))) then [x] else [])\<rparr>"
    using receipt_one_changes [of env x s] by blast
  obtain c' fs' ids where "fold (receipt_one env) xs (receipt_one env x s) =
      (receipt_one env x s)\<lparr>fb_text := resent c' fs' (fb_text (receipt_one env x s)), fb_sent_read_ids := ids\<rparr>"
      "set ids \<subseteq> set (fb_sent_read_ids (receipt_one env x s)) \<union> set xs"
    using Cons.IH [of "receipt_one env x s"] by blast
  then show ?case by (intro exI [of _ c'] exI [of _ fs'] exI [of _ ids]) (auto simp: one split: if_splits)
qed

lemma mark_viewed_read_ids [simp]: "fb_peer_read_ids (mark_viewed env s) = fb_peer_read_ids s"
  using receipts_change [of env "unreceipted s" s] by (auto simp: mark_viewed_def)

lemma publish_typing_read_ids [simp]: "fb_peer_read_ids (publish_typing env now s) = fb_peer_read_ids s"
  by (simp add: publish_typing_def Let_def case_prod_unfold split: option.split)

lemma receive_data_frame_read_ids [simp]: "fb_peer_read_ids (fst (receive_data_frame env now occ p s)) = fb_peer_read_ids s"
  by (simp add: receive_data_frame_def has_seen_message_def Let_def case_prod_unfold)

lemma accept_read_receipt_cases:
  "fb_peer_read_ids (accept_read_receipt env raw ct s) = fb_peer_read_ids s \<or>
   (\<exists>rid t. contact_receipt env raw ct s = Some rid \<and> accept_read_receipt env raw ct s = note_peer_read rid (s\<lparr>fb_text := t\<rparr>))"
  by (auto simp: accept_read_receipt_def contact_receipt_def Let_def case_prod_unfold split: sum.split option.split)

section \<open>At most 512 ids\<close>

definition read_ids_wf :: "('c, 'sk) dm_feedback \<Rightarrow> bool" where
  "read_ids_wf s \<longleftrightarrow> distinct (fb_peer_read_ids s) \<and> length (fb_peer_read_ids s) \<le> READ_HISTORY_KEEP"

lemma prune_read_ids_wf: "distinct ids \<Longrightarrow> distinct (prune_read_ids ids)" "length (prune_read_ids ids) \<le> READ_HISTORY_KEEP"
  by (simp_all add: prune_read_ids_def)

lemma note_peer_read_wf: "read_ids_wf s \<Longrightarrow> read_ids_wf (note_peer_read rid s)"
  by (auto simp: read_ids_wf_def note_peer_read_def Let_def intro: prune_read_ids_wf split: option.split)

lemma feedback_control_read_ids:
  "(\<And>session participant ct. e \<noteq> ReadReceipt session participant ct) \<Longrightarrow>
   fb_peer_read_ids (fst (feedback_control env raw now e s)) = fb_peer_read_ids s"
  by (cases e) (auto simp: Let_def case_prod_unfold)

lemma fb_step_wf: "read_ids_wf s \<Longrightarrow> read_ids_wf (fb_step env s ev)"
proof (cases ev)
  case (ControlArrives raw now e)
  assume wf: "read_ids_wf s"
  show ?thesis
  proof (cases "\<exists>session participant ct. e = ReadReceipt session participant ct")
    case True
    then obtain session participant ct where e: "e = ReadReceipt session participant ct" by blast
    have "read_ids_wf (accept_read_receipt env raw ct s)"
      using accept_read_receipt_cases [of env raw ct s]
    proof (elim disjE exE conjE)
      fix rid t
      assume "accept_read_receipt env raw ct s = note_peer_read rid (s\<lparr>fb_text := t\<rparr>)"
      moreover have "read_ids_wf (s\<lparr>fb_text := t\<rparr>)" using wf by (simp add: read_ids_wf_def)
      ultimately show ?thesis by (simp add: note_peer_read_wf)
    qed (use wf in \<open>simp add: read_ids_wf_def\<close>)
    with wf show ?thesis by (simp add: ControlArrives e)
  next
    case False
    with wf feedback_control_read_ids [of e env raw now s] show ?thesis by (simp add: ControlArrives read_ids_wf_def)
  qed
qed (simp_all add: read_ids_wf_def restore_feedback_def prune_read_ids_def)

interpretation feedback_run: event_machine "fb_step env" read_ids_wf for env
  by unfold_locales (rule fb_step_wf)

lemma fb_step_added:
  assumes "i \<in> set (fb_peer_read_ids (fb_step env s ev))" and "i \<notin> set (fb_peer_read_ids s)"
  shows "\<exists>raw now session participant ct rid. ev = ControlArrives raw now (ReadReceipt session participant ct) \<and>
    is_from_counterpart session participant (fb_text s) \<and> contact_receipt env raw ct s = Some rid \<and> names_own rid i (fb_step env s ev)"
proof (cases ev)
  case (ControlArrives raw now e)
  then have "\<exists>session participant ct. e = ReadReceipt session participant ct"
    using assms feedback_control_read_ids [of e env raw now s] by (metis fb_step.simps(1))
  then obtain session participant ct where e: "e = ReadReceipt session participant ct" by blast
  with ControlArrives assms have contact: "is_from_counterpart session participant (fb_text s)" by (auto split: if_splits)
  then have step: "fb_step env s ev = accept_read_receipt env raw ct s" by (simp add: ControlArrives e)
  from accept_read_receipt_cases [of env raw ct s] obtain rid t where
      "contact_receipt env raw ct s = Some rid" "accept_read_receipt env raw ct s = note_peer_read rid (s\<lparr>fb_text := t\<rparr>)"
    using assms step by auto
  moreover have "names_own rid i (note_peer_read rid (s\<lparr>fb_text := t\<rparr>))"
    using assms calculation(2) by (intro note_peer_read_added) (simp_all add: step)
  ultimately show ?thesis using ControlArrives e contact step by auto
qed (use assms in \<open>auto simp: restore_feedback_def dest: subsetD [OF prune_read_ids_subset]\<close>)

lemma run_added:
  assumes "i \<in> set (fb_peer_read_ids (foldl (fb_step env) s evs))" and "i \<notin> set (fb_peer_read_ids s)"
  shows "\<exists>xs raw now session participant ct ys rid. evs = xs @ ControlArrives raw now (ReadReceipt session participant ct) # ys \<and>
    is_from_counterpart session participant (fb_text (foldl (fb_step env) s xs)) \<and>
    contact_receipt env raw ct (foldl (fb_step env) s xs) = Some rid \<and>
    names_own rid i (foldl (fb_step env) s (xs @ [ControlArrives raw now (ReadReceipt session participant ct)]))"
  using assms
proof (induction evs rule: rev_induct)
  case (snoc ev evs)
  show ?case
  proof (cases "i \<in> set (fb_peer_read_ids (foldl (fb_step env) s evs))")
    case True
    with snoc obtain xs raw now session participant ct ys rid where
        "evs = xs @ ControlArrives raw now (ReadReceipt session participant ct) # ys"
        "is_from_counterpart session participant (fb_text (foldl (fb_step env) s xs))"
        "contact_receipt env raw ct (foldl (fb_step env) s xs) = Some rid"
        "names_own rid i (foldl (fb_step env) s (xs @ [ControlArrives raw now (ReadReceipt session participant ct)]))"
      by blast
    then show ?thesis by (intro exI [of _ xs] exI [of _ raw] exI [of _ now] exI [of _ session] exI [of _ participant]
        exI [of _ ct] exI [of _ "ys @ [ev]"] exI [of _ rid]) simp
  next
    case False
    with snoc.prems(1) have "i \<in> set (fb_peer_read_ids (fb_step env (foldl (fb_step env) s evs) ev))" by simp
    from fb_step_added [OF this False] obtain raw now session participant ct rid where
        "ev = ControlArrives raw now (ReadReceipt session participant ct)"
        "is_from_counterpart session participant (fb_text (foldl (fb_step env) s evs))"
        "contact_receipt env raw ct (foldl (fb_step env) s evs) = Some rid" "names_own rid i (fb_step env (foldl (fb_step env) s evs) ev)"
      by blast
    then show ?thesis by (intro exI [of _ evs] exI [of _ raw] exI [of _ now] exI [of _ session] exI [of _ participant]
        exI [of _ ct] exI [of _ "[]"] exI [of _ rid]) simp
  qed
qed simp

section \<open>Sending receipts\<close>

lemma receipt_view [simp]:
  "message_needs_receipt (s\<lparr>fb_text := resent c fs (fb_text s)\<rparr>) = message_needs_receipt s"
  "message_needs_receipt (s\<lparr>fb_sent_read_ids := ids\<rparr>) = message_needs_receipt s"
  by (simp_all add: message_needs_receipt_def fun_eq_iff)


text \<open>
  Receipts that get through, one after the other: each can be encrypted in the state the ones before it
  left, fits into a control, and the transport takes that control.
\<close>

fun receipts_pass :: "('c, 'vk, 'sg, 'sk, 't) feedback_env \<Rightarrow> ('c, 'sk) dm_text \<Rightarrow> string list \<Rightarrow> bool" where
  "receipts_pass env s [] \<longleftrightarrow> True"
| "receipts_pass env s (i # ids) \<longleftrightarrow>
     (\<exists>b c ct p. fv_read_to env i = Some b \<and> tv_encrypt (fv_text env) (tx_crypto s) b = Ok (c, ct) \<and>
       tv_control_to (fv_text env) (ReadReceipt (ss_session_id (tx_base s)) (tx_participant_id s)
         (ob_encode (tv_out (fv_text env)) ct)) = Some p \<and>
       (\<forall>fs. route_frame (fv_text env) ControlChannel p (resent c fs s) = (Ok (), True)) \<and>
       receipts_pass env (s\<lparr>tx_crypto := c\<rparr>) ids)"

definition receipt_frame :: "('c, 'vk, 'sg, 'sk, 't) feedback_env \<Rightarrow> ('c, 'sk) dm_text \<Rightarrow> string \<Rightarrow> dm_channel \<times> bytes \<Rightarrow> bool" where
  "receipt_frame env s i f \<longleftrightarrow>
     (\<exists>c c' b ct p. f = (ControlChannel, p) \<and> fv_read_to env i = Some b \<and> tv_encrypt (fv_text env) c b = Ok (c', ct) \<and>
       tv_control_to (fv_text env) (ReadReceipt (ss_session_id (tx_base s)) (tx_participant_id s)
         (ob_encode (tv_out (fv_text env)) ct)) = Some p)"

lemma resent_resent: "s\<lparr>tx_frames := fs, tx_crypto := c\<rparr> = resent c fs s"
  by (cases s) simp

lemma send_read_receipt_taken:
  assumes "fv_read_to env i = Some b" and "tv_encrypt (fv_text env) (tx_crypto s) b = Ok (c, ct)"
    and "tv_control_to (fv_text env) (ReadReceipt (ss_session_id (tx_base s)) (tx_participant_id s)
      (ob_encode (tv_out (fv_text env)) ct)) = Some p"
    and "\<And>fs. route_frame (fv_text env) ControlChannel p (resent c fs s) = (Ok (), True)"
  shows "send_read_receipt env i (s\<lparr>tx_frames := fs\<rparr>) = (resent c (fs @ [(ControlChannel, p)]) s, Ok ())"
    and "receipt_frame env s i (ControlChannel, p)"
  using assms by (auto simp: send_read_receipt_def encrypt_json_def send_frame_def resent_resent receipt_frame_def)

lemma receipt_frame_crypto [simp]: "receipt_frame env (s\<lparr>tx_crypto := c\<rparr>) = receipt_frame env s"
  by (simp add: receipt_frame_def fun_eq_iff)



lemma receipts_unencrypted:
  assumes "\<And>c b. \<exists>e. tv_encrypt (fv_text env) c b = Err e"
  shows "fold (receipt_one env) xs s = s\<lparr>fb_sent_read_ids := fb_sent_read_ids s @ xs\<rparr>"
proof (induction xs arbitrary: s)
  case (Cons x xs)
  have "encrypt_json env json t = None" for json and t :: "('a, 'd) dm_text"
    using assms [of "tx_crypto t" "the json"] by (cases json) (auto simp: encrypt_json_def)
  then have "receipt_one env x s = s\<lparr>fb_sent_read_ids := fb_sent_read_ids s @ [x]\<rparr>"
    by (simp add: receipt_one_def send_read_receipt_def)
  with Cons.IH show ?case by simp
qed simp

section \<open>The cadence of typing hints\<close>

lemma send_due_iff:
  assumes "prev \<le> now"
  shows "send_due now prev = (if unat now < unat prev + 3000 then (prev, False) else (now, True))"
proof -
  have "saturating_sub now prev < TYPING_REFRESH_MS \<longleftrightarrow> unat now < unat prev + 3000"
    using assms by (auto simp: word_less_nat_alt word_le_nat_alt unat_saturating_sub TYPING_REFRESH_MS_def)
  then show ?thesis by (simp add: send_due_def)
qed

lemma publish_typing_waits:
  assumes "fb_last_typing_ms s \<le> now" and "unat now < unat (fb_last_typing_ms s) + 3000"
  shows "publish_typing env now s = s"
  using assms by (simp add: publish_typing_def send_due_iff)

lemma publish_typing_due:
  assumes "fb_last_typing_ms s \<le> now" and "\<not> unat now < unat (fb_last_typing_ms s) + 3000" and "can_encrypt_for_peer (fb_text s)"
  shows "\<exists>c fs. publish_typing env now s =
      s\<lparr>fb_last_typing_ms := now, fb_text := resent c (tx_frames (fb_text s) @ fs) (fb_text s)\<rparr> \<and> length fs \<le> 1"
proof -
  let ?body = "fv_typing_to env \<lparr>ty_device = ss_device_id (fb_base s), ty_until_ms = deadline now\<rparr>"
  have unsent: "\<exists>c' fs. s\<lparr>fb_last_typing_ms := now, fb_text := (fb_text s)\<lparr>tx_crypto := c\<rparr>\<rparr> =
      s\<lparr>fb_last_typing_ms := now, fb_text := resent c' (tx_frames (fb_text s) @ fs) (fb_text s)\<rparr> \<and> length fs \<le> 1" for c
    by (rule exI [of _ c], rule exI [of _ "[]"]) simp
  show ?thesis
  proof (cases "encrypt_json env ?body (fb_text s)")
    case None
    with assms unsent [of "tx_crypto (fb_text s)"] show ?thesis by (simp add: publish_typing_def send_due_iff)
  next
    case (Some x)
    obtain t b where x: "x = (t, b)" by fastforce
    obtain c where t: "t = (fb_text s)\<lparr>tx_crypto := c\<rparr>" using encrypt_json_some [OF Some [unfolded x]] by blast
    note enc = Some [unfolded x t]
    show ?thesis
    proof (cases "tv_control_to (fv_text env) (TypingIndicator (ss_session_id (fb_base s)) (tx_participant_id (fb_text s))
        (ss_device_id (fb_base s)) b)")
      case None
      with enc assms unsent [of c] show ?thesis by (simp add: publish_typing_def send_due_iff)
    next
      case (Some p)
      obtain fs where "fst (send_frame (fv_text env) ControlChannel p ((fb_text s)\<lparr>tx_crypto := c\<rparr>)) =
          resent c (tx_frames (fb_text s) @ fs) (fb_text s)" "length fs \<le> 1"
      proof (cases "snd (route_frame (fv_text env) ControlChannel p ((fb_text s)\<lparr>tx_crypto := c\<rparr>))")
        case True
        show thesis by (rule that [of "[(ControlChannel, p)]"]) (simp_all add: send_frame_def case_prod_unfold Let_def True)
      next
        case False
        show thesis by (rule that [of "[]"]) (simp_all add: send_frame_def case_prod_unfold Let_def False)
      qed
      with enc Some assms show ?thesis
        by (intro exI [of _ c] exI [of _ fs]) (simp add: publish_typing_def send_due_iff)
    qed
  qed
qed

abbreviation keys_pressed :: "('c, 'vk, 'sg, 'sk, 't) feedback_env \<Rightarrow> ('c, 'sk) dm_feedback \<Rightarrow> u64 list \<Rightarrow> ('c, 'sk) dm_feedback" where
  "keys_pressed env s ks \<equiv> foldl (\<lambda>s k. publish_typing env k s) s ks"

lemma keys_pressed_hints:
  assumes "can_encrypt_for_peer (fb_text s)" and "sorted (fb_last_typing_ms s # ks)"
  shows "\<exists>c fs t. keys_pressed env s ks =
      s\<lparr>fb_last_typing_ms := t, fb_text := resent c (tx_frames (fb_text s) @ fs) (fb_text s)\<rparr> \<and>
    t \<in> set (fb_last_typing_ms s # ks) \<and> 3000 * length fs \<le> unat t - unat (fb_last_typing_ms s) \<and>
    (ks \<noteq> [] \<longrightarrow> unat (last ks) < unat t + 3000)"
  using assms(2)
proof (induction ks rule: rev_induct)
  case Nil
  show ?case by (rule exI [of _ "tx_crypto (fb_text s)"], rule exI [of _ "[]"], rule exI [of _ "fb_last_typing_ms s"]) simp
next
  case (snoc k ks)
  let ?t0 = "fb_last_typing_ms s"
  obtain c fs t where run: "keys_pressed env s ks = s\<lparr>fb_last_typing_ms := t, fb_text := resent c (tx_frames (fb_text s) @ fs) (fb_text s)\<rparr>"
      and t: "t \<in> set (?t0 # ks)" "3000 * length fs \<le> unat t - unat ?t0"
    using snoc by (auto simp: sorted_append)
  have le: "t \<le> k" "?t0 \<le> t" using snoc.prems t(1) by (auto simp: sorted_append)
  let ?s = "keys_pressed env s ks"
  have can: "can_encrypt_for_peer (fb_text ?s)" and t': "fb_last_typing_ms ?s = t" using assms(1) by (simp_all add: run can_encrypt_for_peer_def)
  show ?case
  proof (cases "unat k < unat t + 3000")
    case True
    then have "publish_typing env k ?s = ?s" using le by (intro publish_typing_waits) (simp_all add: t')
    with True run t show ?thesis by (intro exI [of _ c] exI [of _ fs] exI [of _ t]) auto
  next
    case False
    obtain c' fs' where pub: "publish_typing env k ?s =
        ?s\<lparr>fb_last_typing_ms := k, fb_text := resent c' (tx_frames (fb_text ?s) @ fs') (fb_text ?s)\<rparr>" "length fs' \<le> 1"
      using publish_typing_due [of ?s k env] le False can t' by auto
    have "3000 * length (fs @ fs') \<le> unat k - unat ?t0"
      using t(2) pub(2) False le by (simp add: word_le_nat_alt)
    with pub(1) show ?thesis by (intro exI [of _ c'] exI [of _ "fs @ fs'"] exI [of _ k]) (simp add: run)
  qed
qed

lemma hint_shown_iff:
  assumes "unat t + 5000 < 2 ^ 64"
  shows "tx_typing_until_ms (expire_peer_typing x (note_peer_typing t r)) \<noteq> None \<longleftrightarrow> unat x < unat t + 5000"
proof -
  have "unat (deadline t) = unat t + 5000" using assms by (simp add: deadline_def unat_saturating_add TYPING_EXPIRY_MS_def)
  then show ?thesis by (simp add: expire_peer_typing_def note_peer_typing_def word_less_nat_alt)
qed

section \<open>Liveness\<close>

lemma pump_liveness_connected:
  assumes "ss_state (tx_base (pump_liveness now w s)) = Connected"
  shows "ss_state (tx_base s) = Connected" and "unat now < unat (tx_last_authenticated_rx_ms (pump_liveness now w s)) + unat w"
  using assms by (auto simp: pump_liveness_def Let_def word_le_nat_alt unat_saturating_sub split: if_splits)

section \<open>From one side to the other\<close>

text \<open>The own messages with an id that a receipt names are those with id \<open>i\<close>.\<close>

definition names_only :: "string \<Rightarrow> string \<Rightarrow> ('c, 'sk) dm_feedback \<Rightarrow> bool" where
  "names_only receipt_id i s \<longleftrightarrow>
     list_all (\<lambda>m. from_device m = ss_device_id (fb_base s) \<and> (read_receipt_id m = Some receipt_id \<or> message_id m = Some receipt_id) \<longrightarrow>
       message_id m = None \<or> message_id m = Some i) (log_messages (fb_log s))"

lemma named_only:
  assumes "m \<in> set ms" and "from_device m = d" and "message_id m = Some i" and "read_receipt_id m = Some rid \<or> i = rid"
    and "list_all (\<lambda>m. from_device m = d \<and> (read_receipt_id m = Some rid \<or> message_id m = Some rid) \<longrightarrow>
      message_id m = None \<or> message_id m = Some i) ms"
  shows "named_message d rid ms = Some i"
  using assms by (induction ms) auto

lemma note_peer_read_marks:
  assumes "named_message (ss_device_id (fb_base s)) rid (log_messages (fb_log s)) = Some i" and "find_message i (fb_log s) = Some m"
    and "from_device m = ss_device_id (fb_base s)"
  shows "i \<in> set (fb_peer_read_ids (note_peer_read rid s))" and "ss_device_id (fb_base (note_peer_read rid s)) = ss_device_id (fb_base s)"
proof -
  have found: "find_message i ((fb_log s)\<lparr>revision := revision (fb_log s) + 1\<rparr>) = Some m" using assms(2) by (simp add: find_message_def)
  have "i \<in> set (prune_read_ids (ids @ [i]))" for ids by (simp add: prune_read_ids_def READ_HISTORY_KEEP_def)
  then show "i \<in> set (fb_peer_read_ids (note_peer_read rid s))"
    using assms(1,3) found by (simp add: note_peer_read_def Let_def)
  show "ss_device_id (fb_base (note_peer_read rid s)) = ss_device_id (fb_base s)"
    using assms(1,3) found by (simp add: note_peer_read_def with_log_def Let_def)
qed

lemma viewed_one:
  assumes "receipts_pass env (fb_text s) [i]" and "can_encrypt_for_peer (fb_text s)" and "unreceipted s = [i]"
  obtains b c ct p where "fv_read_to env i = Some b" "tv_encrypt (fv_text env) (tx_crypto (fb_text s)) b = Ok (c, ct)"
    "tv_control_to (fv_text env) (ReadReceipt (ss_session_id (fb_base s)) (tx_participant_id (fb_text s)) (ob_encode (tv_out (fv_text env)) ct)) = Some p"
    "tx_frames (fb_text (mark_viewed env s)) = tx_frames (fb_text s) @ [(ControlChannel, p)]"
proof -
  obtain b c ct p where p: "fv_read_to env i = Some b" "tv_encrypt (fv_text env) (tx_crypto (fb_text s)) b = Ok (c, ct)"
      "tv_control_to (fv_text env) (ReadReceipt (ss_session_id (fb_base s)) (tx_participant_id (fb_text s))
        (ob_encode (tv_out (fv_text env)) ct)) = Some p"
      "\<And>fs. route_frame (fv_text env) ControlChannel p (resent c fs (fb_text s)) = (Ok (), True)"
    using assms(1) by auto
  have "tx_frames (fb_text (mark_viewed env s)) = tx_frames (fb_text s) @ [(ControlChannel, p)]"
    using send_read_receipt_taken(1) [OF p, of "tx_frames (fb_text s)"] assms(2,3) by (simp add: mark_viewed_def receipt_one_def)
  with p(1-3) show thesis by (rule that)
qed

text \<open>A frame counts as the contact's: there is one device on each side, or the signer is a device of the contact.\<close>

definition from_contact :: "('c, 'vk, 'sg, 'sk, 't) text_env \<Rightarrow> bytes \<Rightarrow> ('c, 'sk) dm_text \<Rightarrow> bool" where
  "from_contact env signer s \<longleftrightarrow>
     \<not> devices_live s \<or> (\<exists>author. device_author s (hex_encode (sigs (rost (tv_claims env))) signer) = Ok (author, False))"

lemma contact_crypto [simp]:
  "devices_live (s\<lparr>tx_crypto := c\<rparr>) = devices_live s" "device_author (s\<lparr>tx_crypto := c\<rparr>) k = device_author s k"
  by (simp_all add: devices_live_def device_author_def cong: option.case_cong if_cong)

lemma contact_control_opened:
  assumes "tv_open (fv_text env) (tx_crypto s) ct = (c, Ok (b, key))" and "from_contact (fv_text env) key s"
  shows "\<exists>author. decrypt_contact_control env ct legacy s = (s\<lparr>tx_crypto := c\<rparr>, Ok (Some (b, author)))"
  using assms by (cases "devices_live s") (auto simp: decrypt_contact_control_def from_contact_def Let_def)

lemma receipt_marks:
  assumes "read_receipts_enabled env raw" and "ob_decode (tv_out (fv_text env)) ct_b64 = Ok ct" and "from_contact (fv_text env) key (fb_text s)"
    and "tv_open (fv_text env) (tx_crypto (fb_text s)) ct = (c, Ok (b, key))" and "fv_read_from env b = Some rid"
    and "ss_state (fb_base s) = Connected" and "named_message (ss_device_id (fb_base s)) rid (log_messages (fb_log s)) = Some i"
    and "find_message i (fb_log s) = Some m" and "from_device m = ss_device_id (fb_base s)"
  shows "i \<in> set (fb_peer_read_ids (accept_read_receipt env raw ct_b64 s))"
    and "ss_device_id (fb_base (accept_read_receipt env raw ct_b64 s)) = ss_device_id (fb_base s)"
proof -
  let ?name = "case ss_peer_display_name (fb_base s) of None \<Rightarrow> [] | Some n \<Rightarrow> n"
  let ?t = "(fb_text s)\<lparr>tx_crypto := c\<rparr>"
  obtain author where frame: "decrypt_contact_control env ct ?name (fb_text s) = (?t, Ok (Some (b, author)))"
    using contact_control_opened [OF assms(4,3)] by blast
  let ?s = "s\<lparr>fb_text := ?t\<lparr>tx_base := note_authenticated_frame author (tx_base ?t)\<rparr>\<rparr>"
  have contact: "note_contact (fv_text env) author ?t = ?t\<lparr>tx_base := note_authenticated_frame author (tx_base ?t)\<rparr>"
    using assms(6) by (simp add: note_contact_def Let_def)
  have acc: "accept_read_receipt env raw ct_b64 s = note_peer_read rid ?s"
    unfolding accept_read_receipt_def using assms(1,2,5) by (simp add: frame contact)
  have same: "fb_log ?s = fb_log s" "ss_device_id (fb_base ?s) = ss_device_id (fb_base s)" by simp_all
  show "i \<in> set (fb_peer_read_ids (accept_read_receipt env raw ct_b64 s))"
    unfolding acc by (rule note_peer_read_marks(1)) (use assms(7-9) same in simp_all)
  show "ss_device_id (fb_base (accept_read_receipt env raw ct_b64 s)) = ss_device_id (fb_base s)"
    unfolding acc using note_peer_read_marks(2) [of ?s rid i m] assms(7-9) same by simp
qed

section \<open>A concrete pair\<close>

text \<open>Controls are written out, so that they can be told apart.\<close>

definition demo_feedback_text :: "(unit, bytes, byte, bytes, unit) text_env" where
  "demo_feedback_text = (demo_text_env None)\<lparr>tv_control_to := (\<lambda>e.
     case e of
       ReadReceipt session participant ct \<Rightarrow> Some (utf8_bytes (''r:'' @ session @ '':'' @ participant @ '':'' @ ct))
     | TypingIndicator session participant from ct \<Rightarrow>
         Some (utf8_bytes (''t:'' @ session @ '':'' @ participant @ '':'' @ from @ '':'' @ ct))
     | _ \<Rightarrow> None)\<rparr>"

definition demo_feedback_env :: "(unit, bytes, byte, bytes, unit) feedback_env" where
  "demo_feedback_env =
     \<lparr>fv_text = demo_feedback_text, fv_typing_to = (\<lambda>_. Some []), fv_typing_from = (\<lambda>_. None),
      fv_read_to = (\<lambda>i. Some (utf8_bytes i)), fv_read_from = (\<lambda>b. Some (text_of_bytes b)),
      fv_setting_to = (\<lambda>on. Some [if on then 1 else 0]), fv_setting_from = (\<lambda>b. Some (b = [1])),
      fv_sha256_hex = (\<lambda>_. ''h''), fv_forward_recovery = (\<lambda>c. c)\<rparr>"

definition demo_feedback :: "(unit, bytes) dm_text \<Rightarrow> (unit, bytes) dm_feedback" where
  "demo_feedback t = \<lparr>fb_text = t, fb_last_typing_ms = 0, fb_peer_read_ids = [], fb_sent_read_ids = [], fb_seen = new_seen\<rparr>"

abbreviation demo_written :: chat_message where
  "demo_written \<equiv> (demo_message (Some ''m''))\<lparr>from_device := ''Ann''\<rparr>"

abbreviation demo_writer :: "(unit, bytes) dm_feedback" where
  "demo_writer \<equiv> demo_feedback (demo_text ''Ann'' ''A'' (new_log\<lparr>log_messages := [demo_written]\<rparr>) [])"

abbreviation demo_reader :: "(unit, bytes) dm_feedback" where
  "demo_reader \<equiv> demo_feedback (demo_text ''Bob'' ''B'' (new_log\<lparr>log_messages := [demo_written]\<rparr>) [])"

lemma demo_feedback_fields [simp]:
  "fb_text (demo_feedback t) = t" "fb_sent_read_ids (demo_feedback t) = []" "fb_peer_read_ids (demo_feedback t) = []"
  "fb_last_typing_ms (demo_feedback t) = 0" "fv_text demo_feedback_env = demo_feedback_text"
  "fv_read_to demo_feedback_env i = Some (utf8_bytes i)" "fv_read_from demo_feedback_env b = Some (text_of_bytes b)"
  "read_receipts_enabled demo_feedback_env (Some [1])"
  by (simp_all add: demo_feedback_def demo_feedback_env_def read_receipts_enabled_def load_setting_def)

lemma demo_written_fields [simp]:
  "message_id demo_written = Some ''m''" "attachment demo_written = None" "call_event demo_written = None"
  by (simp_all add: demo_message_def)

lemma demo_receipt_passes: "receipts_pass demo_feedback_env (fb_text demo_reader) [''m'']"
proof -
  have bytes: "length (utf8_bytes t) = length t" for t by (simp add: utf8_bytes_def)
  have env: "tv_encrypt demo_feedback_text c b = Ok (c, b)"
      "tv_control_to demo_feedback_text (ReadReceipt session participant ct) =
        Some (utf8_bytes (''r:'' @ session @ '':'' @ participant @ '':'' @ ct))"
      "length (ob_encode (tv_out demo_feedback_text) b) = length b" "tv_publish demo_feedback_text k b = Ok ()" for c b session participant ct k
    by (simp_all add: demo_feedback_text_def demo_text_env_def)
  have "route_frame demo_feedback_text ControlChannel p (resent () fs (demo_text n q l as)) = (Ok (), True)" if "length p \<le> 100" for p fs n q l as
    using that by (simp add: route_frame_def persist_text_crypto_def devices_live_def env demo_text_def demo_session_def
        MAX_DM_PUBLISH_BYTES_def)
  then show ?thesis by (simp add: env bytes)
qed

lemma demo_can_encrypt: "can_encrypt_for_peer (demo_text n p l as)"
  by (simp add: can_encrypt_for_peer_def demo_text_def demo_session_def)

lemma demo_unreceipted: "unreceipted demo_reader = [''m'']"
  by (simp add: unreceipted_def message_needs_receipt_def read_receipt_id_def List.map_filter_def)

section \<open>Properties\<close>

text \<open>
  C10. A message counts as read only by a receipt of the contact. In any run of arriving controls and
  data frames, views, key strokes, snapshots, ticks and restarts at most 512 ids are kept; and if a
  message shows as read at the end, its id was kept at the start, or a receipt arrived meanwhile from
  the other participant, with receipts switched on, that this session could decrypt, that no device of
  the own user sent once several devices take part, and that named an own message of the log with
  this id.
\<close>

theorem read_only_by_receipt:
  assumes "read_ids_wf s" and "s' = foldl (fb_step env) s evs"
  shows "length (fb_peer_read_ids s') \<le> 512 \<and>
    (own_message_read s' m = Some True \<longrightarrow> (\<exists>i. message_id m = Some i \<and> (i \<in> set (fb_peer_read_ids s) \<or>
      (\<exists>xs raw now session participant ct ys rid. evs = xs @ ControlArrives raw now (ReadReceipt session participant ct) # ys \<and>
        is_from_counterpart session participant (fb_text (foldl (fb_step env) s xs)) \<and>
        contact_receipt env raw ct (foldl (fb_step env) s xs) = Some rid \<and>
        names_own rid i (foldl (fb_step env) s (xs @ [ControlArrives raw now (ReadReceipt session participant ct)]))))))"
proof (intro conjI impI)
  show "length (fb_peer_read_ids s') \<le> 512"
    using feedback_run.run_inv [OF assms(1), of env evs] unfolding assms(2) by (simp add: read_ids_wf_def READ_HISTORY_KEEP_def)
  assume "own_message_read s' m = Some True"
  then obtain i where i: "message_id m = Some i" "i \<in> set (fb_peer_read_ids (foldl (fb_step env) s evs))"
    by (auto simp: own_message_read_def assms(2) split: if_splits option.splits)
  with run_added [OF i(2)] show "\<exists>i. message_id m = Some i \<and> (i \<in> set (fb_peer_read_ids s) \<or>
      (\<exists>xs raw now session participant ct ys rid. evs = xs @ ControlArrives raw now (ReadReceipt session participant ct) # ys \<and>
        is_from_counterpart session participant (fb_text (foldl (fb_step env) s xs)) \<and>
        contact_receipt env raw ct (foldl (fb_step env) s xs) = Some rid \<and>
        names_own rid i (foldl (fb_step env) s (xs @ [ControlArrives raw now (ReadReceipt session participant ct)]))))"
    by blast
qed

theorem read_only_by_receipt_witness:
  "own_message_read (foldl (fb_step demo_feedback_env) demo_writer [SnapshotTaken 5, ConversationViewed]) demo_written \<noteq> Some True"
proof
  assume "own_message_read (foldl (fb_step demo_feedback_env) demo_writer [SnapshotTaken 5, ConversationViewed]) demo_written = Some True"
  moreover have "read_ids_wf demo_writer" by (simp add: read_ids_wf_def)
  ultimately show False
    using read_only_by_receipt [where s = demo_writer and env = demo_feedback_env and evs = "[SnapshotTaken 5, ConversationViewed]"
        and m = demo_written, OF _ refl]
    by (auto simp: Cons_eq_append_conv)
qed



text \<open>
  C32. A receipt that cannot be encrypted is lost. While encryption fails, viewing a conversation sends
  nothing but notes every receipt as sent, so that viewing it again, even when encryption works, sends
  none of them until a restart.
\<close>

theorem unencrypted_receipt_lost:
  assumes "\<And>c b. \<exists>e. tv_encrypt (fv_text env) c b = Err e" and "can_encrypt_for_peer (fb_text s)"
  shows "mark_viewed env s = s\<lparr>fb_sent_read_ids := fb_sent_read_ids s @ unreceipted s\<rparr> \<and>
    mark_viewed env' (mark_viewed env s) = mark_viewed env s"
proof -
  have v: "mark_viewed env s = s\<lparr>fb_sent_read_ids := fb_sent_read_ids s @ unreceipted s\<rparr>"
    using receipts_unencrypted [of env "unreceipted s" s] assms by (simp add: mark_viewed_def)
  have "unreceipted (mark_viewed env s) = []"
    unfolding v by (auto simp: unreceipted_def filter_empty_conv)
  with v show ?thesis by (simp add: mark_viewed_def)
qed

theorem unencrypted_receipt_lost_witness:
  "fb_sent_read_ids (mark_viewed (demo_feedback_env\<lparr>fv_text := (demo_text_env None)\<lparr>tv_encrypt := \<lambda>_ _. Err NotReady\<rparr>\<rparr>) demo_reader) = [''m'']"
  using unencrypted_receipt_lost [where env = "demo_feedback_env\<lparr>fv_text := (demo_text_env None)\<lparr>tv_encrypt := \<lambda>_ _. Err NotReady\<rparr>\<rparr>"
      and s = demo_reader and env' = demo_feedback_env]
  by (simp add: demo_can_encrypt demo_unreceipted)

text \<open>
  C28. A message seen on one side shows as read on the other. Let the reader view a conversation where
  one receipt is outstanding and that receipt gets through, and let the two ratchets agree and the
  sides read each other's encodings. Then one control leaves, and when it arrives at the connected
  writer, from the one device of the contact or, once several devices take part, from a device of the
  contact, with receipts switched on there, the own message that the receipt names, by its id or by the
  id of its attachment, shows as read. Own messages with ids that the receipt names must have that one id.
\<close>

theorem read_shown_end_to_end:
  assumes "receipts_pass eb (fb_text r) [rid]" and "can_encrypt_for_peer (fb_text r)" and "unreceipted r = [rid]"
    and "ratchets_agree link (fv_text ea) key_a (fv_text eb) key_b" and "link (tx_crypto (fb_text w)) (tx_crypto (fb_text r))"
    and "envelopes_carried (fv_text ea) (fv_text eb)" and "\<And>j b. fv_read_to eb j = Some b \<Longrightarrow> fv_read_from ea b = Some j"
    and "ss_session_id (fb_base w) = ss_session_id (fb_base r)" and "tx_participant_id (fb_text w) \<noteq> tx_participant_id (fb_text r)"
    and "read_receipts_enabled ea raw" and "from_contact (fv_text ea) key_b (fb_text w)" and "ss_state (fb_base w) = Connected"
    and "find_message i (fb_log w) = Some m" and "from_device m = ss_device_id (fb_base w)"
    and "read_receipt_id m = Some rid \<or> i = rid" and "names_only rid i w"
  shows "\<exists>e p. tx_frames (fb_text (mark_viewed eb r)) = tx_frames (fb_text r) @ [(ControlChannel, p)] \<and>
    tv_control_to (fv_text eb) e = Some p \<and> own_message_read (fst (feedback_control ea raw now e w)) m = Some True"
proof -
  obtain b c ct p where sent: "fv_read_to eb rid = Some b" "tv_encrypt (fv_text eb) (tx_crypto (fb_text r)) b = Ok (c, ct)"
    "tv_control_to (fv_text eb) (ReadReceipt (ss_session_id (fb_base r)) (tx_participant_id (fb_text r)) (ob_encode (tv_out (fv_text eb)) ct)) = Some p"
    "tx_frames (fb_text (mark_viewed eb r)) = tx_frames (fb_text r) @ [(ControlChannel, p)]"
    using viewed_one [OF assms(1-3)] .
  obtain c' where opened: "tv_open (fv_text ea) (tx_crypto (fb_text w)) ct = (c', Ok (b, key_b))"
    using assms(4,5) sent(2) unfolding ratchets_agree_def by blast
  have decoded: "ob_decode (tv_out (fv_text ea)) (ob_encode (tv_out (fv_text eb)) ct) = Ok ct"
    using assms(6) by (simp add: envelopes_carried_def)
  have found: "m \<in> set (log_messages (fb_log w))" "message_id m = Some i"
    using assms(13) by (auto simp: find_message_def find_Some_iff has_id_def)
  note marked = receipt_marks [OF assms(10) decoded assms(11) opened assms(7) [OF sent(1)] assms(12)
    named_only [OF found(1) assms(14) found(2) assms(15) assms(16) [unfolded names_only_def]] assms(13,14)]
  with found(2) assms(14) have "own_message_read (accept_read_receipt ea raw (ob_encode (tv_out (fv_text eb)) ct) w) m = Some True"
    by (simp add: own_message_read_def)
  with sent(3,4) assms(8,9) show ?thesis
    by (intro exI [of _ "ReadReceipt (ss_session_id (fb_base r)) (tx_participant_id (fb_text r)) (ob_encode (tv_out (fv_text eb)) ct)"]
      exI [of _ p]) (simp add: is_from_counterpart_def)
qed

theorem read_shown_end_to_end_witness:
  "\<exists>e p. tx_frames (fb_text (mark_viewed demo_feedback_env demo_reader)) = [(ControlChannel, p)] \<and>
     tv_control_to demo_feedback_text e = Some p \<and>
     own_message_read (fst (feedback_control demo_feedback_env (Some [1]) 9 e demo_writer)) demo_written = Some True"
proof -
  have agree: "ratchets_agree (\<lambda>_ _. True) (fv_text demo_feedback_env) (demo_key 2) (fv_text demo_feedback_env) (demo_key 2)"
    and carried: "envelopes_carried (fv_text demo_feedback_env) (fv_text demo_feedback_env)"
    using demo_ratchets demo_carried by (simp_all add: demo_feedback_text_def ratchets_agree_def envelopes_carried_def)
  have "char_of (unat (of_nat (of_char c) :: byte)) = c" for c by (simp add: unat_of_nat)
  then have "text_of_bytes (utf8_bytes j) = j" for j by (induction j) (simp_all add: utf8_bytes_def)
  then have body: "fv_read_to demo_feedback_env j = Some b \<Longrightarrow> fv_read_from demo_feedback_env b = Some j" for j b by auto
  have can: "can_encrypt_for_peer (fb_text demo_reader)" by (simp add: demo_can_encrypt)
  show ?thesis
    using read_shown_end_to_end [where eb = demo_feedback_env and ea = demo_feedback_env and r = demo_reader and w = demo_writer
        and rid = "''m''" and i = "''m''" and m = demo_written and raw = "Some [1]" and now = 9,
        OF demo_receipt_passes can demo_unreceipted agree TrueI carried body]
    by (simp add: find_message_def has_id_def from_contact_def names_only_def)
qed

text \<open>
  C33. Typing hints keep their cadence and lapse. While keys are pressed at times that do not decrease,
  from the last hint on, hints leave at most every three seconds, and the contact who notes the last one
  when it was sent still shows it less than two seconds after the last key, and no longer five seconds
  after. Whatever came of the last hint, even a refusal by the transport, no key within three seconds of
  it changes anything.
\<close>

theorem typing_hints:
  assumes "can_encrypt_for_peer (fb_text s)" and "sorted (fb_last_typing_ms s # ks)" and "ks \<noteq> []"
    and "s' = keys_pressed env s ks" and "t = fb_last_typing_ms s'" and "unat (last ks) + 5000 < 2 ^ 64"
  shows "3000 * length (tx_frames (fb_text s')) \<le> 3000 * length (tx_frames (fb_text s)) + (unat (last ks) - unat (fb_last_typing_ms s)) \<and>
    (unat x < unat (last ks) + 2000 \<longrightarrow> tx_typing_until_ms (expire_peer_typing x (note_peer_typing t r)) \<noteq> None) \<and>
    (unat (last ks) + 5000 \<le> unat x \<longrightarrow> tx_typing_until_ms (expire_peer_typing x (note_peer_typing t r)) = None) \<and>
    (t \<le> k \<and> unat k < unat t + 3000 \<longrightarrow> publish_typing env k s' = s')"
proof -
  obtain c fs t' where run: "s' = s\<lparr>fb_last_typing_ms := t', fb_text := resent c (tx_frames (fb_text s) @ fs) (fb_text s)\<rparr>"
      "t' \<in> set (fb_last_typing_ms s # ks)" "3000 * length fs \<le> unat t' - unat (fb_last_typing_ms s)" "unat (last ks) < unat t' + 3000"
    using keys_pressed_hints [OF assms(1,2), of env] assms(3) unfolding assms(4) by blast
  have t: "t' = t" using run(1) assms(5) by simp
  have "k \<le> last ks" if "k \<in> set (fb_last_typing_ms s # ks)" for k
    using that assms(2,3) by (cases ks rule: rev_cases) (auto simp: sorted_append)
  with run(2) have le: "unat t \<le> unat (last ks)" by (simp add: t word_le_nat_alt)
  with assms(6) have shown: "tx_typing_until_ms (expire_peer_typing x (note_peer_typing t r)) \<noteq> None \<longleftrightarrow> unat x < unat t + 5000"
    by (intro hint_shown_iff) simp
  have "publish_typing env k s' = s'" if "t \<le> k" "unat k < unat t + 3000"
    using that by (intro publish_typing_waits) (simp_all add: assms(5))
  moreover have "3000 * length (tx_frames (fb_text s')) \<le> 3000 * length (tx_frames (fb_text s)) + (unat (last ks) - unat (fb_last_typing_ms s))"
    using run(3) le by (simp add: run(1) t)
  ultimately show ?thesis using shown run(4) le by (auto simp: t)
qed

theorem typing_hints_witness:
  "3000 * length (tx_frames (fb_text (keys_pressed demo_feedback_env demo_reader [4000, 5000]))) \<le> 5000 \<and>
   tx_typing_until_ms (expire_peer_typing 6000 (note_peer_typing
     (fb_last_typing_ms (keys_pressed demo_feedback_env demo_reader [4000, 5000])) (fb_text demo_writer))) \<noteq> None"
  using typing_hints [where s = demo_reader and ks = "[4000, 5000]" and env = demo_feedback_env and x = 6000 and r = "fb_text demo_writer"
      and s' = "keys_pressed demo_feedback_env demo_reader [4000, 5000]", OF _ _ _ refl refl]
  by (simp add: demo_can_encrypt)

end
