(* ===== verification/Spec2Isabelle.thy ===== *)
theory Spec2Isabelle
  imports Call_Control Deletion_Exchange Org_Session Group_Control Read_Marks Dm_Feedback
begin

text \<open>
  A verification library for the Rust core of Mosh (\<open>src/mosh-core/src\<close>): the part of the program
  that keeps conversations, devices, groups and calls consistent between peers that trust neither
  the network nor each other's clock.

  \<^bold>\<open>The program.\<close> A user owns several devices, listed in a signed, append-only roster. A direct
  conversation (DM) is an MLS group of the devices of two users; a private group is an MLS group of
  many; a channel is public and only signed. Every conversation keeps a message log; messages can be
  deleted for oneself or for everyone, and deletions travel as signed records with receipts. MLS
  commits must be applied in epoch order, with a log from which a member that missed some can be
  served. A DM carries calls, set up by authenticated control messages. A text is saved, queued,
  published, repeated until the other side acknowledges it, and restored after a restart. An
  organisation has a signed roster of members and administrators; conversations are offered to its
  members in signed envelopes, and its groups follow the roster. Whoever is not a member joins by an
  invitation.

  \<^bold>\<open>The theories.\<close>
  \<^item> \<open>Prelude\<close>: results, machine integers, \<open>BTreeMap\<close> and \<open>HashMap\<close> behind one interface, bounded
    queues, text and decimal encoding.
  \<^item> \<open>Group_Commit_Log\<close> (\<open>persistence/group_commits.rs\<close>): the durable commit log; what was appended
    is listed again in epoch order.
  \<^item> \<open>Commit_Sequencer\<close> (\<open>commit_sequencer.rs\<close>, \<open>private_group_runtime/sequencing.rs\<close>,
    \<open>private_group_runtime/commits.rs\<close>): ordering commits, buffering early ones, asking for and
    serving and absorbing a replay; a genuine replay closes the gap, forged commits block nothing.
  \<^item> \<open>Signature_Verification\<close> (\<open>signature_verification.rs\<close>): the cache of checked signatures answers
    what the check answers.
  \<^item> \<open>Device_Roster\<close> (\<open>device_link/roster.rs\<close>): who may sign for a user, additions, removals.
  \<^item> \<open>Account_Ownership\<close> (\<open>device_link/account_certificate.rs\<close>, \<open>message_deletion/ownership.rs\<close>):
    delegation chains and account proofs, and which keys of the own user are revoked.
  \<^item> \<open>Message_Log\<close> (\<open>conversation/message_log.rs\<close>, \<open>message_id.rs\<close>, the message types): stamping,
    insertion, tombstones, delivery marks.
  \<^item> \<open>Fragment_Buffer\<close> (\<open>message_deletion/fragment_buffer.rs\<close>): cutting and reassembling pages.
  \<^item> \<open>Deletion_Protocol\<close> (\<open>message_deletion/protocol.rs\<close>, \<open>origin.rs\<close>, \<open>authority.rs\<close>, \<open>shared.rs\<close>,
    \<open>book.rs\<close>): signed requests and receipts, who may delete what, merging copies of a record (a join
    of outcomes, so replicas agree) and exchanging the records page by page.
  \<^item> \<open>Deletion_Store\<close> (\<open>message_deletion/target.rs\<close>, \<open>correlation.rs\<close>, \<open>persistence/message_deletions.rs\<close>
    and the files \<open>deletion_*.rs\<close>, \<open>attachment_gc.rs\<close> beside it): which message a record names, and the
    durable tables; the indexed guard erases exactly the rows a scan of all records would erase.
  \<^item> \<open>Deletion_Erasure\<close> (\<open>message_deletion/application.rs\<close>): installing records: the plan, its commit and
    its effect on log, send attempts and transfers; the book refines an abstract table of outcomes.
  \<^item> \<open>Deletion_Exchange\<close> (\<open>message_deletion/receive.rs\<close>, \<open>personal.rs\<close>, \<open>lifecycle.rs\<close>, \<open>fragments.rs\<close>,
    \<open>snapshot.rs\<close>): requesting, admitting, accepting and acknowledging deletions; only entitled requests
    enter the book, and a receipt is sent only for what is durably erased.
  \<^item> \<open>Dm_Membership\<close> (\<open>private_dm_runtime/devices\<close>): identity claims, the two-user topology, pinned
    rosters, authority of a device in a DM.
  \<^item> \<open>Call_State\<close> and \<open>Call_Control\<close> (\<open>private_dm_runtime/calls\<close>): the call record, the ordering of
    controls, reservations, retries; then every call operation of a session.
  \<^item> \<open>Org_Envelope\<close> (\<open>org_envelope.rs\<close>, \<open>org_signing.rs\<close>, \<open>sender_auth.rs\<close>): signed envelopes, bound to one
    organisation, mesh and channel, and proofs that a sender holds both its transport and its MLS key.
  \<^item> \<open>Invite\<close> (\<open>private_dm_runtime/invite.rs\<close>, \<open>invite_ownership.rs\<close>, \<open>compact_invite.rs\<close>): invitation
    links, their compact form, and who owns an offered one.
  \<^item> \<open>Org_Roster\<close> (\<open>org_roster.rs\<close>) and \<open>Org_Session\<close> (\<open>org_runtime.rs\<close>, \<open>org_runtime/\<close>,
    \<open>persistence/org_acceptances.rs\<close>): the roster an organisation signs, and a member's side: taking in
    rosters, offers and acceptances and keeping them in the store; while a membership lasts, the roster
    only advances and an answered offer does not return.
  \<^item> \<open>Group_Control\<close> (\<open>private_group_runtime\<close>): the control messages of a group, who may move it, and its
    reconciliation with the roster.
  \<^item> \<open>Outbound\<close> (\<open>outbound_delivery.rs\<close>, \<open>conversation/outbound.rs\<close>, \<open>history.rs\<close>, \<open>persistence/outbound.rs\<close>):
    the outbox of a conversation, saving a send with its message, and the replay at startup.
  \<^item> \<open>Dm_Messaging\<close> and \<open>Dm_Delivery\<close> (\<open>private_dm_runtime/data.rs\<close>, \<open>resend.rs\<close>, \<open>outbox.rs\<close>,
    \<open>devices/receipts.rs\<close>, \<open>conversation/runtime_writes.rs\<close>): the definitions for texts of a DM, and their
    properties over runs and between two devices.
  \<^item> \<open>Read_Marks\<close> (\<open>conversation/read_marks.rs\<close>, \<open>persistence/read_marks.rs\<close>): what is unread; the count is
    right whatever the order of arrival, and survives a restart.
  \<^item> \<open>Seen_Frames\<close> (\<open>conversation/dedup.rs\<close>): the memory of frames that already arrived; repeats are
    spotted and nothing else is.
  \<^item> \<open>Dm_Feedback\<close> (\<open>private_dm_runtime/typing.rs\<close>, \<open>liveness.rs\<close>, \<open>control/feedback.rs\<close>,
    \<open>conversation/typing.rs\<close>, \<open>read_receipts.rs\<close>): typing hints, read receipts, greetings and the loss of
    a silent contact; a message shows as read only by a receipt of the contact, and by every such one.

  \<^bold>\<open>How state and operations correspond.\<close> A struct is a record with one field per field of the code
  that the modelled operations read or write; an enum is a datatype with the same cases. A method
  that changes \<open>self\<close> is a function from the old to the new state, together with the result where it
  can fail: state changes made before an early return are kept. \<open>u64\<close> and \<open>u32\<close> are words with the
  code's saturating or checked operations; counts are \<open>nat\<close>. The clock is read once per operation
  and is an argument, as are random identifiers. Code outside the repository (Ed25519, SHA-256,
  OpenMLS, JSON, base64, the database engine, the transport) is a parameter of the definitions, a
  record of functions called \<open>env\<close>; what a theorem needs of it is a named predicate over that
  record, with an instance that satisfies it.

  \<^bold>\<open>Loops and bounds.\<close> Loops over data are structural recursion. The loop that drains buffered
  commits runs as long as a commit for the current epoch is buffered; each round removes one entry,
  so it is a total function of the buffer. No fuel is used. The code's own limits (64 buffered
  commits, 4096 cached signatures, 64 reservations, 32 terminal controls, 16 partial pages of 200000
  bytes, 32 delegations, 16 records a page, 16 early commits of a group, 10 repeats of a text 15
  seconds apart, 512 remembered receipts, frames of 65536 bytes, 4096 remembered frames, texts of 4096
  characters, typing hints every 3 seconds that last 5, 25 seconds of silence) are constants
  of the model, and the bounds are proved where a property depends on them.

  \<^bold>\<open>Interfaces.\<close> Locales state what one component relies on in another and are interpreted on the
  definitions of the provider: \<open>key_store\<close> and \<open>ordered_store\<close> (the two kinds of maps),
  \<open>event_machine\<close> and \<open>keeping_machine\<close> (components that handle any sequence of events: sequencer,
  message log, call reservations, fragment buffer, organisations and their rosters, groups, outbox,
  texts, read marks, feedback, seen frames), \<open>conversation_message\<close> (what each of the three kinds
  of message provides to the log and to erasure), and the library's \<open>semilattice_set\<close> for the outcomes
  of a deletion.

  \<^bold>\<open>Not modelled.\<close> The bridge to Dart and its generated code, audio and media, the FFI to the
  transport, crash and diagnostics logging, secure storage, billing, the transfer of attachments and the
  blob channels, the exchange of history between devices and its evidence, the admission and recovery
  journals of DM devices, the encryption of deletion frames inside the MLS session, and the message
  dispatch of the runtimes, which mainly routes bytes to the handlers modelled here. Rows of the
  database are values of the model; their encryption and JSON form appear only where a decoding failure
  is a branch of the modelled code.
\<close>

section \<open>Resync between two members\<close>

lemma logged_commits:
  assumes "bt_wf t" and "list_group_commits_from dk g e t = Ok out"
    and "unat e + length bs < 2 ^ 64"
    and "\<And>k blob. e \<le> k \<Longrightarrow> bt_get t (commit_log_key g k) = Some blob \<Longrightarrow>
      unat k < unat e + length bs \<and> decrypt_blob dk blob = Ok (bs ! (unat k - unat e))"
    and "\<And>i. i < length bs \<Longrightarrow> bt_get t (commit_log_key g (e + of_nat i)) \<noteq> None"
  shows "map snd out = bs"
proof -
  note spec = list_group_commits_spec [OF assms(1,2)]
  have unat_i: "unat (e + of_nat i) = unat e + i" if "i < length bs" for i
    using that assms(3) by (simp add: unat_word_ariths unat_of_nat)
  have mem: "(k, b) \<in> set out \<longleftrightarrow> (\<exists>i < length bs. k = e + of_nat i \<and> b = bs ! i)" for k b
  proof
    assume "(k, b) \<in> set out"
    then obtain blob where "e \<le> k" "bt_get t (commit_log_key g k) = Some blob" "decrypt_blob dk blob = Ok b"
      using spec(2) by blast
    with assms(4) [of k blob] show "\<exists>i < length bs. k = e + of_nat i \<and> b = bs ! i"
      by (intro exI [of _ "unat k - unat e"]) (auto simp: word_le_nat_alt word_unat_eq_iff unat_word_ariths unat_of_nat)
  next
    assume "\<exists>i < length bs. k = e + of_nat i \<and> b = bs ! i"
    then obtain i where i: "i < length bs" "k = e + of_nat i" "b = bs ! i" by blast
    then have "e \<le> k" using unat_i [OF i(1)] by (simp add: word_le_nat_alt)
    with assms(4,5) i unat_i [OF i(1)] spec(2) show "(k, b) \<in> set out" by fastforce
  qed
  let ?ref = "map (\<lambda>i. (e + of_nat i, bs ! i)) [0..<length bs]"
  have "sorted_wrt (<) (map fst ?ref)"
    by (auto simp: sorted_wrt_iff_nth_less word_less_nat_alt unat_i)
  moreover have "set (map fst out) = set (map fst ?ref)" using mem by (force simp: image_iff)
  ultimately have fsts: "map fst out = map fst ?ref"
    using spec(1) by (intro sorted_distinct_set_unique) (auto simp: strict_sorted_iff)
  have "map snd out ! i = bs ! i" if "i < length out" for i
  proof -
    have len: "length out = length bs" using arg_cong [OF fsts, of length] by simp
    have "fst (out ! i) = e + of_nat i"
      using arg_cong [OF fsts, of "\<lambda>xs. xs ! i"] that len by simp
    moreover have "out ! i \<in> set out" using that by simp
    then obtain j where "j < length bs" "fst (out ! i) = e + of_nat j" "snd (out ! i) = bs ! j"
      using mem [of "fst (out ! i)" "snd (out ! i)"] by auto
    ultimately have "snd (out ! i) = bs ! i"
      using unat_i [of i] unat_i [of j] that len by (metis add_left_cancel)
    with that show ?thesis by simp
  qed
  moreover have "length out = length bs" using arg_cong [OF fsts, of length] by simp
  ultimately show ?thesis by (intro nth_equalityI) auto
qed

text \<open>
  C5. Resync works from end to end: an administrator whose log holds the commits of the epochs from the
  requester's on, and none above them, answers the request with exactly these commits in order; and
  the requester that absorbs the answer, whatever its buffer holds, arrives at least at the epoch
  behind the last of them. Base64 is taken to be invertible.
\<close>

theorem resync_end_to_end:
  assumes "mls_epoch_law env" and "\<And>b. decode_b64 env (encode b) = Ok b"
    and "readable admin t" and "unat e + length bs < 2 ^ 64"
    and "\<And>k blob. e \<le> k \<Longrightarrow> bt_get t (commit_log_key (group_id_of admin) k) = Some blob \<Longrightarrow>
      unat k < unat e + length bs \<and> decrypt_blob (dek admin) blob = Ok (bs ! (unat k - unat e))"
    and "\<And>i. i < length bs \<Longrightarrow> bt_get t (commit_log_key (group_id_of admin) (e + of_nat i)) \<noteq> None"
    and "genuine_chain env st e (map encode bs)"
    and "mls_epoch env (crypto s) = Some e" and "crypto s = st 0" and "applied_passed env s"
  shows "\<exists>commits x. serve_resync_request admin encode fp e (Some t) = Some (fp, commits) \<and>
    map snd commits = map encode bs \<and>
    mls_epoch env (crypto (fst (absorb_resync_commits env (map snd commits) s))) = Some x \<and>
    unat e + length bs \<le> unat x"
proof -
  obtain out where out: "list_group_commits_from (dek admin) (group_id_of admin) e t = Ok out"
    using list_group_commits_readable [OF assms(3)] by blast
  have "map snd out = bs"
    by (rule logged_commits [OF _ out assms(4-6)]) (use assms(3) in \<open>simp_all add: readable_def\<close>)
  then have enc: "map snd (map (\<lambda>(epoch, b). (epoch, encode b)) out) = map encode bs" by auto
  moreover have "serve_resync_request admin encode fp e (Some t) = Some (fp, map (\<lambda>(epoch, b). (epoch, encode b)) out)"
    by (simp add: serve_resync_request_def out)
  moreover obtain x where "mls_epoch env (crypto (fst (absorb_resync_commits env (map encode bs) s))) = Some x"
    "unat e + length (map encode bs) \<le> unat x"
    using absorb_reaches_end [OF assms(1,7-10)] by blast
  ultimately show ?thesis by (metis length_map)
qed

theorem resync_end_to_end_witness:
  "\<exists>commits x. serve_resync_request demo_env (map (\<lambda>b. char_of (unat b))) ''fp'' 65
      (Some [(commit_log_key ''g'' 65, [65]), (commit_log_key ''g'' 66, [66])]) = Some (''fp'', commits) \<and>
     map snd commits = map (map (\<lambda>b. char_of (unat b))) [[65 :: byte], [66]] \<and>
     mls_epoch demo_env (crypto (fst (absorb_resync_commits demo_env (map snd commits)
       \<lparr>crypto = 65, sequencer = \<lparr>applied = {}, buffered = [(66, ''forged'')], last_requested_epoch = None\<rparr>,
         persistence = None\<rparr>))) = Some x \<and>
     unat (65 :: u64) + length [[65 :: byte], [66]] \<le> unat x"
proof (rule resync_end_to_end [where st = "\<lambda>i. 65 + of_nat i"])
  let ?t = "[(commit_log_key ''g'' 65, [65 :: byte]), (commit_log_key ''g'' 66, [66])]"
  have two: "i < 2 \<longleftrightarrow> i = 0 \<or> i = 1" for i :: nat by auto
  have g: "group_id_of demo_env = ''g''" "dek demo_env = \<lparr>encrypt_blob = Ok, decrypt_blob = Ok, tx_commits = True\<rparr>"
    by (simp_all add: demo_env_def)
  have key: "commit_log_key ''g'' k = commit_log_key ''g'' k' \<longleftrightarrow> k = k'" for k k'
    by (rule commit_log_key_inject [of "''g''" "''g''", simplified])
  show "mls_epoch_law demo_env" by (rule demo_epoch_law)
  show "decode_b64 demo_env (map (\<lambda>b. char_of (unat b)) b) = Ok b" for b
    by (simp add: demo_env_def comp_def byte_mod map_idI)
  show "readable demo_env ?t" by (simp add: readable_def bt_wf_def commit_log_key_less_iff g)
  show "genuine_chain demo_env (\<lambda>i. 65 + of_nat i) 65 (map (map (\<lambda>b. char_of (unat b))) [[65 :: byte], [66]])"
    using demo_chain by (simp add: char_of_def bit_0)
  show "unat k < unat (65 :: u64) + length [[65 :: byte], [66]] \<and>
      decrypt_blob (dek demo_env) blob = Ok ([[65 :: byte], [66]] ! (unat k - unat (65 :: u64)))"
    if "65 \<le> k" "bt_get ?t (commit_log_key (group_id_of demo_env) k) = Some blob" for k :: u64 and blob
    using that by (auto simp: bt_get_def key g split: if_splits)
  show "bt_get ?t (commit_log_key (group_id_of demo_env) (65 + of_nat i)) \<noteq> None"
    if "i < length [[65 :: byte], [66]]" for i
    using that by (auto simp: bt_get_def key g two less_Suc_eq)
qed (simp_all add: demo_env_def applied_passed_def)

section \<open>Removed devices and calls\<close>

text \<open>
  C6. A removed device cannot call. Once the current roster of its user shows the removal after its
  admission, a frame signed by it is refused with an error, whatever it says: no call starts, changes
  or ends, nothing is sent or recorded; and no call that such a device started or was selected for is
  authorized.
\<close>

theorem removed_device_cannot_call:
  assumes "ss_membership s = Some m" and "topology_wf (claims env) (mb_topology m)"
    and "c \<in> set (tp_clients (mb_topology m))"
    and "current_roster (claims env) m (user_id (ic_roster c)) = Some r"
    and "revoked_since (rost (claims env)) r (ic_roster c) (ic_device_id c) = Ok True"
    and "\<And>s' control signer. open_control env s' ciphertext = Ok (control, signer) \<Longrightarrow> signer = ic_mls_signer c"
    and "handle_call_control env now (ss_session_id s) ciphertext s = (s', out)"
    and "cs_caller_signer call = ic_mls_signer c \<or> cs_selected_signer call = Some (ic_mls_signer c)"
    and "cs_caller_signer call \<noteq> []"
  shows "\<not> is_ok out \<and> ss_call s' = ss_call s \<and> ss_sent s' = ss_sent s \<and> ss_messages s' = ss_messages s \<and>
    ss_call_occupancy s' = ss_call_occupancy s \<and> \<not> call_authorized env (s\<lparr>ss_call := Some call\<rparr>)"
proof -
  have peer: "call_peer (claims env) m (ic_mls_signer c) = None"
    by (rule revoked_call_peer [OF assms(2-5)])
  let ?s1 = "s\<lparr>ss_call_controls := retain_signers (\<lambda>signer. call_peer (claims env) m signer \<noteq> None) (ss_call_controls s)\<rparr>"
  have "\<exists>e. decrypt_call_control env ciphertext s = (?s1, Err e)"
    using assms(1,6) peer
    by (auto simp: decrypt_call_control_def Let_def admitted_sender_def control_in_bounds_def split: sum.split)
  then obtain e where "decrypt_call_control env ciphertext s = (?s1, Err e)" by blast
  then have "s' = ?s1" "out = Err e" using assms(7) by (simp_all add: handle_call_control_def)
  moreover have "\<not> call_authorized env (s\<lparr>ss_call := Some call\<rparr>)"
    using assms(1,8,9) peer by (auto simp: call_authorized_def)
  ultimately show ?thesis by simp
qed

theorem removed_device_cannot_call_witness:
  "\<exists>m signer. call_peer demo_claim_env m signer = None \<and>
     \<not> is_ok (snd (handle_call_control (demo_call_env (\<lambda>_. demo_control signer 1 ''call'' Offer)) 0 ''dm'' ''x''
       ((demo_session ''B'')\<lparr>ss_membership := Some m\<rparr>)))"
proof -
  obtain m c r where m: "topology_wf demo_claim_env (mb_topology m)" "c \<in> set (tp_clients (mb_topology m))"
    "current_roster demo_claim_env m (user_id (ic_roster c)) = Some r"
    and r: "revoked_since (rost demo_claim_env) r (ic_roster c) (ic_device_id c) = Ok True"
    using demo_removed_client by auto
  let ?env = "demo_call_env (\<lambda>_. demo_control (ic_mls_signer c) 1 ''call'' Offer)"
  let ?s = "(demo_session ''B'')\<lparr>ss_membership := Some m\<rparr>"
  have env: "claims ?env = demo_claim_env" by (simp add: demo_call_env_def)
  have opens: "signer = ic_mls_signer c" if "open_control ?env s' ''x'' = Ok (control, signer)" for s' control signer
    using that by (simp add: demo_call_env_def)
  obtain s' out where h: "handle_call_control ?env 0 (ss_session_id ?s) ''x'' ?s = (s', out)" by fastforce
  obtain call :: call_state where call: "cs_caller_signer call = ''Z''" "cs_selected_signer call = Some (ic_mls_signer c)"
    by (metis call_state.select_convs)
  have "\<not> is_ok out"
    using removed_device_cannot_call [of ?s m ?env c r "''x''" 0 s' out call] m r env opens h call by simp
  with revoked_call_peer [OF m r] h show ?thesis by (intro exI [of _ m] exI [of _ "ic_mls_signer c"]) simp
qed

section \<open>Revocation from the organisation to its groups\<close>

text \<open>A frame that replaces the roster of an organisation leaves its bytes, verified, in the store.\<close>

lemma ingested_roster_stored:
  assumes "ingest_payload env frame (s, Some db) = ((s', Some db'), sent)" and "og_roster s' \<noteq> og_roster s"
    and "og_roster s' = Some r" and "od_fault env = None" and "bt_wf (os_rosters db)"
  shows "\<exists>bs. read_row (os_rosters db') (og_org_pubkey s) = Ok (Some bs) \<and>
    verify_org_roster (od_docs env) bs (og_org_pubkey s) None = Ok r"
proof (cases rule: ingest_payload_cases [of env frame s "Some db"])
  case (roster bs)
  then show ?thesis
  proof (cases rule: absorb_roster_cases [of env bs s "Some db"])
    case (newer r')
    with roster assms have "db' = put_org_roster env (og_org_pubkey s) bs db" "r' = r" by auto
    with newer(1) assms(4,5) show ?thesis
      by (intro exI [of _ bs]) (auto simp: put_org_roster_def read_row_def dest: verify_without_stored)
  qed (use roster assms(1,2) in simp)
qed (use assms(1,2) in \<open>simp_all add: org_handle_message_fields\<close>)

text \<open>
  C14. Revocation works from end to end: a frame that brings an organisation a new roster stores it.
  When an administrator's device then synchronises a group of the organisation over the same store,
  every member left in the MLS tree is the device itself or listed in that roster, whatever early
  commits were waiting. Once those commits were tried again, removing members must succeed: from that
  MLS state on the library removes a member other than this device, the commit fits into a frame of
  this group, and its evidence is saved.
\<close>

theorem revocation_end_to_end:
  assumes "ingest_payload oenv frame (s, Some db) = ((s', Some db'), sent)" and "og_roster s' \<noteq> og_roster s"
    and "og_roster s' = Some r" and "od_fault oenv = None" and "bt_wf (os_rosters db)"
    and "gt_org_pubkey g = Some (og_org_pubkey s)" and "gt_persistence g \<noteq> None" and "gt_joined g"
    and "ge_docs env = od_docs oenv" and "\<And>k. ge_roster_row env k = map_err GPersistence (read_row (os_rosters db') k)"
    and "cache_wf env g" and "gt_version_seen g \<noteq> Some (or_version r)"
    and "own_peer_id env g = Some (gt_device_fingerprint g)" and "lists_admin r (gt_device_fingerprint g)"
    and "removal_works env (caught_up env g)"
  shows "set (ge_member_identities env (gt_crypto (sync_roster_state env g))) \<subseteq>
    insert (gt_device_fingerprint g) (rm_moss_peer_id ` set (or_members r))"
proof -
  obtain bs where "read_row (os_rosters db') (og_org_pubkey s) = Ok (Some bs)"
      "verify_org_roster (od_docs oenv) bs (og_org_pubkey s) None = Ok r"
    using ingested_roster_stored [OF assms(1-5)] by blast
  then have "roster_now env g = Some r"
    using assms(6,7,9,10) by (auto simp: roster_now_def roster_in_force_def)
  then have "roster_admin env r g" using assms(6,11,13,14) by (simp add: roster_admin_def)
  from sync_removes_revoked [OF assms(15) this assms(8,12)] show ?thesis .
qed

theorem revocation_end_to_end_witness:
  "let ((s, store), _) = ingest_payload demo_session_env [0] (demo_org_session None, Some demo_org_store);
       env = demo_group_env\<lparr>ge_roster_row := \<lambda>k. map_err GPersistence (read_row (os_rosters (the store)) k)\<rparr>;
       g = demo_group (Some demo_org_key) [demo_org_key, ''x'', ''b'']
   in og_roster s = Some (demo_roster_of 2) \<and>
      set (ge_member_identities env (gt_crypto (sync_roster_state env g))) \<subseteq> {demo_org_key, ''b''}"
proof -
  let ?g = "demo_group (Some demo_org_key) [demo_org_key, ''x'', ''b'']"
  let ?db = "demo_org_store\<lparr>os_rosters := [(demo_org_key, Ok [1, 2])]\<rparr>"
  let ?env = "demo_group_env\<lparr>ge_roster_row := \<lambda>k. map_err GPersistence (read_row (os_rosters ?db) k)\<rparr>"
  have works: "removal_works ?env (caught_up ?env ?g)"
    by (rule caught_up_quiet) (simp_all add: demo_removal_works cache_wf_def, simp_all add: demo_group_def)
  have g: "gt_org_pubkey ?g = Some demo_org_key" "gt_persistence ?g \<noteq> None" "gt_joined ?g"
      "gt_version_seen ?g \<noteq> Some (or_version (demo_roster_of 2))" "gt_device_fingerprint ?g = demo_org_key"
      "cache_wf ?env ?g"
    by (simp_all add: demo_group_def gt_persistence_def cache_wf_def)
  have "own_peer_id ?env ?g = Some demo_org_key"
    by (simp add: own_peer_id_def demo_group_def demo_org_key_def peer_id_hex_def)
  moreover have "lists_admin (demo_roster_of 2) demo_org_key"
    by (simp add: lists_admin_def demo_roster_of_def demo_org_member_def)
  moreover have "od_fault demo_session_env = None" by (simp add: demo_session_env_def org_env.defs)
  ultimately have "set (ge_member_identities ?env (gt_crypto (sync_roster_state ?env ?g))) \<subseteq>
      insert demo_org_key (rm_moss_peer_id ` set (or_members (demo_roster_of 2)))"
    using revocation_end_to_end [OF demo_ingest_roster, of "demo_roster_of 2" ?g ?env] works g
    by (simp add: demo_org_session_def demo_org_store_def)
  then show ?thesis
    unfolding demo_ingest_roster by (simp add: Let_def demo_roster_of_def demo_org_member_def)
qed

end
